(* ===== verification/Prelude.thy ===== *)
theory Prelude
  imports Main "HOL-Library.Word" "HOL-Library.Monad_Syntax"
begin

text \<open>
  Prelude of the development: the machine types of the kernel, the treatment of
  undefined behaviour, and the generic lemmas that the component theories share.

  The kernel is 32-bit x86 C code. \<open>unsigned int\<close>, \<open>size_t\<close> and object addresses are
  \<open>32 word\<close> (arithmetic wraps as in C), \<open>unsigned short\<close> and \<open>unsigned char\<close> are
  \<open>16 word\<close> and \<open>8 word\<close>. A signed \<open>int\<close> whose overflow the code could reach is an
  \<open>int\<close> with the range test written out; counters are plain \<open>int\<close>.

  A C function that dereferences a null pointer, indexes out of bounds, divides by zero or
  overflows a signed integer has no defined result; one that loops for ever or calls \<open>kpanic\<close>
  does not return. Operations that can do so return an \<open>option\<close>: \<^const>\<open>None\<close> means that the call
  does not return with a defined result, and sequential composition is \<^const>\<open>Option.bind\<close>,
  written with the do-notation. A theorem that such a call returns is always stated as such.
\<close>

type_synonym u8 = "8 word"
type_synonym u16 = "16 word"
type_synonym u32 = "32 word"
type_synonym u64 = "64 word"

unbundle bit_operations_syntax

text \<open>Collections: facts that unfold operations, and facts that carry invariants through them.\<close>

named_theorems op_defs \<open>definitions of the operations of a component\<close>
named_theorems frame \<open>what an update leaves unchanged\<close>
named_theorems inv_pres \<open>preservation of a component invariant by its operations\<close>

text \<open>\<open>retval_t\<close> of \<open>src/include/lib/types.h\<close>.\<close>

datatype retval_t = RET_OK | RET_FAIL

section \<open>Signed integers and characters\<close>

text \<open>The range of a 32-bit \<open>int\<close>; signed arithmetic outside it is undefined in C.\<close>

definition INT_MIN :: int where "INT_MIN = - 2147483648"
definition INT_MAX :: int where "INT_MAX = 2147483647"

definition int_ok :: "int \<Rightarrow> bool" where
  "int_ok i \<longleftrightarrow> INT_MIN \<le> i \<and> i \<le> INT_MAX"

text \<open>A checked signed result: undefined when it does not fit.\<close>

definition to_int :: "int \<Rightarrow> int option" where
  "to_int i = (if int_ok i then Some i else None)"

lemma to_int_Some [simp]: "INT_MIN \<le> i \<Longrightarrow> i \<le> INT_MAX \<Longrightarrow> to_int i = Some i"
  by (simp add: to_int_def int_ok_def)

text \<open>C's \<open>/\<close> and \<open>%\<close> on \<open>int\<close> truncate towards zero; a zero divisor is undefined.\<close>

definition c_div :: "int \<Rightarrow> int \<Rightarrow> int option" where
  "c_div a b = (if b = 0 then None else to_int (sgn a * sgn b * (\<bar>a\<bar> div \<bar>b\<bar>)))"

definition c_mod :: "int \<Rightarrow> int \<Rightarrow> int option" where
  "c_mod a b = (if b = 0 then None else to_int (sgn a * (\<bar>a\<bar> mod \<bar>b\<bar>)))"

lemma c_div_pos: "0 < a \<Longrightarrow> a \<le> INT_MAX \<Longrightarrow> 0 < b \<Longrightarrow> c_div a b = Some (a div b)"
proof -
  assume "0 < a" "a \<le> INT_MAX" "0 < b"
  then have "0 \<le> a div b" "a div b \<le> a"
    using zdiv_mono2 [of a 1 b] by (auto simp: pos_imp_zdiv_nonneg_iff)
  with \<open>0 < a\<close> \<open>a \<le> INT_MAX\<close> \<open>0 < b\<close> show ?thesis
    by (simp add: c_div_def to_int_def int_ok_def INT_MIN_def INT_MAX_def)
qed

lemma c_mod_pos: "0 < a \<Longrightarrow> a \<le> INT_MAX \<Longrightarrow> 0 < b \<Longrightarrow> c_mod a b = Some (a mod b)"
proof -
  assume "0 < a" "a \<le> INT_MAX" "0 < b"
  then have "INT_MIN \<le> a mod b" "a mod b \<le> INT_MAX"
    using pos_mod_sign [of b a] zmod_le_nonneg_dividend [of a b] unfolding INT_MIN_def by linarith+
  with \<open>0 < a\<close> \<open>0 < b\<close> show ?thesis
    by (simp add: c_mod_def)
qed

lemma sint_inj: "sint a = sint b \<longleftrightarrow> a = (b :: 'a::len word)"
  by (metis signed_word_eqI)

lemma sint_eq_0: "sint a = 0 \<longleftrightarrow> a = (0 :: 'a::len word)"
  by (metis signed_0 sint_inj)

lemma sint_word_of_int_u32:
  "INT_MIN \<le> i \<Longrightarrow> i \<le> INT_MAX \<Longrightarrow> sint (word_of_int i :: u32) = i"
  by (simp add: sint_sbintrunc' signed_take_bit_int_eq_self INT_MIN_def INT_MAX_def)

section \<open>Options\<close>

text \<open>A guard: the rest of the computation is defined only if the condition holds.\<close>

definition require :: "bool \<Rightarrow> unit option" where
  "require b = (if b then Some () else None)"

lemma require_True [simp]: "require True = Some ()"
  by (simp add: require_def)

lemma require_False [simp]: "require False = None"
  by (simp add: require_def)

lemma require_eq_Some [simp]: "require b = Some x \<longleftrightarrow> b"
  by (simp add: require_def)

section \<open>Lists\<close>

lemma distinct_split_notin:
  "distinct (xs @ a # ys) \<Longrightarrow> a \<notin> set xs \<and> a \<notin> set ys \<and> set xs \<inter> set ys = {}"
  by auto

lemma in_set_tlD: "x \<in> set (tl xs) \<Longrightarrow> x \<in> set xs"
  by (cases xs) auto

lemma in_set_last: "x \<in> set xs \<Longrightarrow> x = last xs \<or> x \<in> set (butlast xs)"
  by (cases xs rule: rev_cases) auto

lemma remove1_split: "a \<notin> set xs \<Longrightarrow> remove1 a (xs @ a # ys) = xs @ ys"
  by (simp add: remove1_append)

section \<open>Addresses\<close>

lemma unat_of_nat_u32: "i < 4294967296 \<Longrightarrow> unat (of_nat i :: u32) = i"
  by (simp add: unat_of_nat take_bit_nat_eq_self)

lemma unat_lt_u32: "unat (x :: u32) < 4294967296"
  using unsigned_less [of x] by simp

lemma of_nat_u32_inj [simp]:
  "i < 4294967296 \<Longrightarrow> j < 4294967296 \<Longrightarrow> (of_nat i = (of_nat j :: u32)) \<longleftrightarrow> i = j"
  by (metis unat_of_nat_u32)

lemma offset_neq: "0 < n \<Longrightarrow> n < 4294967296 \<Longrightarrow> a + of_nat n \<noteq> (a :: u32)"
  using of_nat_u32_inj [of n 0] by simp

section \<open>Bits\<close>

lemma word_eq_0_bits: "(w :: 'a::len word) = 0 \<longleftrightarrow> (\<forall>i. \<not> bit w i)"
  by (auto simp: bit_eq_iff dest: bit_imp_le_length)

lemma word_and_0_bits: "(v :: 'a::len word) AND w = 0 \<longleftrightarrow> (\<forall>i. bit v i \<longrightarrow> \<not> bit w i)"
  by (simp add: word_eq_0_bits bit_and_iff)

end
