(* ===== verification/Links.thy ===== *)
theory Links
  imports Prelude
begin

text \<open>
  Linked structures in a store. The kernel threads its lists through fields of the objects
  themselves (\<open>next_free\<close>/\<open>prev_free\<close>, \<open>next_running\<close>/\<open>prev_running\<close>, \<open>next_sleeping\<close>,
  \<open>timer_task.next\<close>, \<open>list_head\<close>, \<dots>). A component passes the two field readers \<open>nx\<close> and
  \<open>pv\<close> of its store; the predicates below say which objects the fields link, in order.
  \<open>slist\<close> is a singly linked null-terminated list, \<open>dlist\<close> a doubly linked null-terminated
  list, \<open>ring\<close> a doubly linked circular list.
\<close>

section \<open>Singly linked lists\<close>

primrec slist :: "('a \<Rightarrow> 'a option) \<Rightarrow> 'a option \<Rightarrow> 'a list \<Rightarrow> bool" where
  "slist nx h [] \<longleftrightarrow> h = None"
| "slist nx h (x # xs) \<longleftrightarrow> h = Some x \<and> slist nx (nx x) xs"

primrec spath :: "('a \<Rightarrow> 'a option) \<Rightarrow> 'a option \<Rightarrow> 'a list \<Rightarrow> 'a option \<Rightarrow> bool" where
  "spath nx h [] t \<longleftrightarrow> h = t"
| "spath nx h (x # xs) t \<longleftrightarrow> h = Some x \<and> spath nx (nx x) xs t"

lemma slist_None [simp]: "slist nx None xs \<longleftrightarrow> xs = []"
  by (cases xs) auto

lemma slist_Some: "slist nx (Some a) xs \<longleftrightarrow> (\<exists>ys. xs = a # ys \<and> slist nx (nx a) ys)"
  by (cases xs) auto

lemma slist_upd [simp, frame]: "a \<notin> set xs \<Longrightarrow> slist (nx(a := v)) h xs = slist nx h xs"
  by (induction xs arbitrary: h) auto

lemma slist_cong: "(\<And>x. x \<in> set xs \<Longrightarrow> nx x = nx' x) \<Longrightarrow> slist nx h xs = slist nx' h xs"
  by (induction xs arbitrary: h) auto

lemma slist_append: "slist nx h (xs @ ys) \<longleftrightarrow> (\<exists>t. spath nx h xs t \<and> slist nx t ys)"
  by (induction xs arbitrary: h) auto

lemma spath_upd [simp, frame]: "a \<notin> set xs \<Longrightarrow> spath (nx(a := v)) h xs t = spath nx h xs t"
  by (induction xs arbitrary: h) auto

lemma spath_snoc: "spath nx h (xs @ [a]) t \<longleftrightarrow> spath nx h xs (Some a) \<and> nx a = t"
  by (induction xs arbitrary: h) auto

lemma slist_unique: "slist nx h xs \<Longrightarrow> slist nx h ys \<Longrightarrow> xs = ys"
proof (induction xs arbitrary: h ys)
  case (Cons x xs)
  then show ?case by (cases ys) auto
qed simp

lemma slist_distinct: "slist nx h xs \<Longrightarrow> distinct xs"
proof (induction xs arbitrary: h)
  case (Cons x xs)
  then have tl: "slist nx (nx x) xs" and d: "distinct xs" by auto
  have "x \<notin> set xs"
  proof
    assume "x \<in> set xs"
    then obtain us vs where xs: "xs = us @ x # vs" by (meson split_list)
    with tl have "slist nx (Some x) (x # vs)" by (auto simp: slist_append)
    then have "slist nx (nx x) vs" by simp
    with tl have "xs = vs" by (rule slist_unique)
    with xs show False by simp
  qed
  with d show ?case by simp
qed simp

text \<open>Pushing a new head.\<close>

lemma slist_push: "slist nx h xs \<Longrightarrow> a \<notin> set xs \<Longrightarrow> slist (nx(a := h)) (Some a) (a # xs)"
  by simp

section \<open>Doubly linked null-terminated lists\<close>

text \<open>\<open>dpath nx pv p h xs q t\<close>: from \<open>h\<close> (whose predecessor is \<open>p\<close>) through \<open>xs\<close> to \<open>t\<close> (whose
  predecessor is \<open>q\<close>).\<close>

primrec dpath :: "('a \<Rightarrow> 'a option) \<Rightarrow> ('a \<Rightarrow> 'a option) \<Rightarrow> 'a option \<Rightarrow> 'a option \<Rightarrow> 'a list
    \<Rightarrow> 'a option \<Rightarrow> 'a option \<Rightarrow> bool" where
  "dpath nx pv p h [] q t \<longleftrightarrow> h = t \<and> p = q"
| "dpath nx pv p h (x # xs) q t \<longleftrightarrow> h = Some x \<and> pv x = p \<and> dpath nx pv (Some x) (nx x) xs q t"

definition dlist :: "('a \<Rightarrow> 'a option) \<Rightarrow> ('a \<Rightarrow> 'a option) \<Rightarrow> 'a option \<Rightarrow> 'a list \<Rightarrow> bool" where
  "dlist nx pv h xs \<longleftrightarrow> (\<exists>q. dpath nx pv None h xs q None)"

lemma dpath_append:
  "dpath nx pv p h (xs @ ys) q t \<longleftrightarrow> (\<exists>q' t'. dpath nx pv p h xs q' t' \<and> dpath nx pv q' t' ys q t)"
  by (induction xs arbitrary: p h) auto

lemma dpath_upd_nx [simp, frame]:
  "a \<notin> set xs \<Longrightarrow> dpath (nx(a := v)) pv p h xs q t = dpath nx pv p h xs q t"
  by (induction xs arbitrary: p h) auto

lemma dpath_upd_pv [simp, frame]:
  "a \<notin> set xs \<Longrightarrow> dpath nx (pv(a := v)) p h xs q t = dpath nx pv p h xs q t"
  by (induction xs arbitrary: p h) auto

lemma dpath_cong:
  "(\<And>x. x \<in> set xs \<Longrightarrow> nx x = nx' x \<and> pv x = pv' x) \<Longrightarrow>
    dpath nx pv p h xs q t = dpath nx' pv' p h xs q t"
  by (induction xs arbitrary: p h) auto

lemma dlist_cong:
  "(\<And>x. x \<in> set xs \<Longrightarrow> nx x = nx' x \<and> pv x = pv' x) \<Longrightarrow> dlist nx pv h xs = dlist nx' pv' h xs"
  unfolding dlist_def by (simp add: dpath_cong [of xs nx nx' pv pv'])

lemma dpath_slist: "dpath nx pv p h xs q None \<Longrightarrow> slist nx h xs"
  by (induction xs arbitrary: p h) auto

lemma dlist_slist: "dlist nx pv h xs \<Longrightarrow> slist nx h xs"
  by (auto simp: dlist_def dest: dpath_slist)

lemma dlist_distinct: "dlist nx pv h xs \<Longrightarrow> distinct xs"
  by (blast dest: dlist_slist slist_distinct)

lemma dlist_Nil [simp]: "dlist nx pv h [] \<longleftrightarrow> h = None"
  by (auto simp: dlist_def)

lemma dlist_None [simp]: "dlist nx pv None xs \<longleftrightarrow> xs = []"
  by (cases xs) (auto simp: dlist_def)

lemma dlist_unique: "dlist nx pv h xs \<Longrightarrow> dlist nx pv h ys \<Longrightarrow> xs = ys"
  by (blast dest: dlist_slist intro: slist_unique)

lemma dlist_headE:
  assumes "dlist nx pv (Some a) xs"
  obtains ys where "xs = a # ys" and "pv a = None"
  using assms by (cases xs) (auto simp: dlist_def)

lemma dlist_head_in: "dlist nx pv (Some a) xs \<Longrightarrow> a \<in> set xs"
  by (erule dlist_headE) simp

lemma dlist_upd_nx [simp, frame]: "a \<notin> set xs \<Longrightarrow> dlist (nx(a := v)) pv h xs = dlist nx pv h xs"
  by (simp add: dlist_def)

lemma dlist_upd_pv [simp, frame]: "a \<notin> set xs \<Longrightarrow> dlist nx (pv(a := v)) h xs = dlist nx pv h xs"
  by (simp add: dlist_def)

text \<open>Pushing a new head: the code sets the new object's \<open>next\<close>, clears its \<open>prev\<close>, and points the
  old head's \<open>prev\<close> at it.\<close>

lemma dlist_push_Nil: "nx a = None \<Longrightarrow> pv a = None \<Longrightarrow> dlist nx pv (Some a) [a]"
  by (simp add: dlist_def)

lemma dlist_push_Cons:
  assumes l: "dlist nx pv (Some b) xs" and a: "a \<notin> set xs"
    and nx': "nx' = nx(a := Some b)" and pv': "pv' a = None" "pv' b = Some a"
    and fr: "\<And>x. x \<noteq> a \<Longrightarrow> x \<noteq> b \<Longrightarrow> pv' x = pv x"
  shows "dlist nx' pv' (Some a) (a # xs)"
proof -
  from l obtain ys where xs: "xs = b # ys" by (rule dlist_headE)
  have b: "b \<notin> set ys" using dlist_distinct [OF l] xs by simp
  from l xs obtain q where q: "dpath nx pv (Some b) (nx b) ys q None"
    by (auto simp: dlist_def)
  have "dpath nx' pv' (Some b) (nx b) ys q None = dpath nx pv (Some b) (nx b) ys q None"
    by (rule dpath_cong) (use a b xs nx' fr in auto)
  with q have "dpath nx' pv' (Some b) (nx' b) ys q None"
    using a xs nx' by auto
  then show ?thesis
    using xs nx' pv' a by (auto simp: dlist_def)
qed

text \<open>Appending behind the last object.\<close>

lemma dlist_snoc:
  assumes l: "dlist nx pv h (xs @ [t])" and a: "a \<notin> set (xs @ [t])"
    and n: "nx' t = Some a" "nx' a = None" "pv' a = Some t"
    and fr: "\<And>x. x \<in> set xs \<Longrightarrow> nx' x = nx x" "\<And>x. x \<in> set (xs @ [t]) \<Longrightarrow> pv' x = pv x"
  shows "dlist nx' pv' h (xs @ [t, a])"
proof -
  have d: "distinct (xs @ [t])" by (rule dlist_distinct [OF l])
  obtain q where "dpath nx pv None h xs q (Some t)" "pv t = q"
    using l by (auto simp: dlist_def dpath_append)
  moreover have "dpath nx' pv' None h xs q (Some t) = dpath nx pv None h xs q (Some t)"
    by (rule dpath_cong) (use fr d in auto)
  ultimately show ?thesis using n fr by (auto simp: dlist_def dpath_append)
qed

text \<open>Dropping the first or the last object.\<close>

lemma dlist_drop_head:
  assumes l: "dlist nx pv h (x # y # ys)"
    and n: "pv' y = None" "\<And>z. z \<in> set ys \<Longrightarrow> pv' z = pv z" "\<And>z. z \<in> set (y # ys) \<Longrightarrow> nx' z = nx z"
  shows "nx x = Some y" "dlist nx' pv' (Some y) (y # ys)"
proof -
  have d: "distinct (x # y # ys)" by (rule dlist_distinct [OF l])
  obtain q where q: "nx x = Some y" "dpath nx pv (Some y) (nx y) ys q None"
    using l by (auto simp: dlist_def)
  moreover have "dpath nx' pv' (Some y) (nx y) ys q None = dpath nx pv (Some y) (nx y) ys q None"
    by (rule dpath_cong) (use n d in auto)
  ultimately show "nx x = Some y" "dlist nx' pv' (Some y) (y # ys)"
    using n by (auto simp: dlist_def)
qed

lemma dlist_drop_last:
  assumes l: "dlist nx pv h (ys @ [y, x])"
    and n: "nx' y = None" "\<And>z. z \<in> set ys \<Longrightarrow> nx' z = nx z" "\<And>z. z \<in> set (ys @ [y]) \<Longrightarrow> pv' z = pv z"
  shows "pv x = Some y" "dlist nx' pv' h (ys @ [y])"
proof -
  obtain q where q: "pv x = Some y" "dpath nx pv None h ys q (Some y)" "pv y = q"
    using l by (auto simp: dlist_def dpath_append)
  moreover have "dpath nx' pv' None h ys q (Some y) = dpath nx pv None h ys q (Some y)"
    by (rule dpath_cong) (use n in auto)
  ultimately show "pv x = Some y" "dlist nx' pv' h (ys @ [y])"
    using n by (auto simp: dlist_def dpath_append)
qed

text \<open>Unlinking one object, as the code does it: its neighbours are joined, and the head moves on if
  the object was the head.\<close>

definition unlink_nx :: "('a \<Rightarrow> 'a option) \<Rightarrow> ('a \<Rightarrow> 'a option) \<Rightarrow> 'a \<Rightarrow> ('a \<Rightarrow> 'a option)" where
  "unlink_nx nx pv a = (case pv a of None \<Rightarrow> nx | Some p \<Rightarrow> nx(p := nx a))"

definition unlink_pv :: "('a \<Rightarrow> 'a option) \<Rightarrow> ('a \<Rightarrow> 'a option) \<Rightarrow> 'a \<Rightarrow> ('a \<Rightarrow> 'a option)" where
  "unlink_pv nx pv a = (case nx a of None \<Rightarrow> pv | Some n \<Rightarrow> pv(n := pv a))"

lemma dlist_unlink:
  assumes l: "dlist nx pv h (xs @ a # ys)"
  shows "dlist (unlink_nx nx pv a) (unlink_pv nx pv a) (if h = Some a then nx a else h) (xs @ ys)"
proof -
  have d: "distinct (xs @ a # ys)" by (rule dlist_distinct [OF l])
  from l obtain q p where p1: "dpath nx pv None h xs p (Some a)" and pa: "pv a = p"
    and p2: "dpath nx pv (Some a) (nx a) ys q None"
    by (auto simp: dlist_def dpath_append)
  let ?n = "unlink_nx nx pv a" and ?p = "unlink_pv nx pv a"
  have tail: "\<exists>q. dpath ?n ?p p (nx a) ys q None"
  proof (cases ys)
    case Nil
    with p2 show ?thesis by simp
  next
    case (Cons y zs)
    with p2 have na: "nx a = Some y" and zs: "dpath nx pv (Some y) (nx y) zs q None" by auto
    have pn: "nx y = ?n y"
    proof (cases p)
      case None
      then show ?thesis using pa by (simp add: unlink_nx_def)
    next
      case (Some c)
      then have "c \<in> set xs" using p1 by (cases xs rule: rev_cases) (auto simp: dpath_append)
      then have "c \<noteq> y" using d Cons by auto
      then show ?thesis using pa Some by (simp add: unlink_nx_def)
    qed
    have "dpath ?n ?p (Some y) (nx y) zs q None = dpath nx pv (Some y) (nx y) zs q None"
    proof (rule dpath_cong)
      fix x assume "x \<in> set zs"
      then have x: "x \<notin> set xs" "x \<noteq> y" using d Cons by auto
      have "p \<noteq> Some x"
        using p1 x by (cases xs rule: rev_cases) (auto simp: dpath_append)
      then show "?n x = nx x \<and> ?p x = pv x"
        using na pa x by (auto simp: unlink_nx_def unlink_pv_def split: option.splits)
    qed
    then show ?thesis using zs Cons na pa pn by (auto simp: unlink_pv_def)
  qed
  show ?thesis
  proof (cases xs rule: rev_cases)
    case Nil
    with p1 have "h = Some a" "p = None" by auto
    with tail Nil show ?thesis by (simp add: dlist_def)
  next
    case (snoc us c)
    with p1 have c: "p = Some c" "nx c = Some a" and us: "dpath nx pv None h us (pv c) (Some c)"
      by (auto simp: dpath_append)
    have h: "h \<noteq> Some a" using us d snoc by (cases us) auto
    have ns: "nx a \<noteq> Some c" "\<And>x. x \<in> set us \<Longrightarrow> nx a \<noteq> Some x"
      using p2 d snoc by (cases ys; auto)+
    have "dpath ?n ?p None h us (pv c) (Some c) = dpath nx pv None h us (pv c) (Some c)"
      by (rule dpath_cong) (use c pa ns d snoc in
          \<open>auto simp: unlink_nx_def unlink_pv_def split: option.splits\<close>)
    moreover have "?n c = nx a" "?p c = pv c"
      using c pa ns by (auto simp: unlink_nx_def unlink_pv_def split: option.splits)
    ultimately show ?thesis
      using us tail c h snoc by (auto simp: dlist_def dpath_append)
  qed
qed

text \<open>The neighbours of a member are members.\<close>

lemma dlist_neighbours:
  assumes "dlist nx pv h (xs @ a # ys)"
  shows "pv a = (if xs = [] then None else Some (last xs))" "nx a = (if ys = [] then None else Some (hd ys))"
  using assms by (cases xs rule: rev_cases; cases ys; auto simp: dlist_def dpath_append)+

lemma dlist_head: "dlist nx pv h xs \<Longrightarrow> h = (if xs = [] then None else Some (hd xs))"
  by (cases xs) (auto simp: dlist_def)

text \<open>Unlinking a member leaves the links of objects outside the list alone.\<close>

lemma unlink_outside:
  assumes "dlist nx pv h xs" "a \<in> set xs" "x \<notin> set xs"
  shows "unlink_nx nx pv a x = nx x" "unlink_pv nx pv a x = pv x"
proof -
  obtain us vs where xs: "xs = us @ a # vs" using assms(2) by (meson split_list)
  note nb = dlist_neighbours [OF assms(1) [unfolded xs]]
  show "unlink_nx nx pv a x = nx x" "unlink_pv nx pv a x = pv x"
    using nb assms(3) xs by (auto simp: unlink_nx_def unlink_pv_def split: option.splits)
qed

lemma dlist_unlink_remove1:
  assumes l: "dlist nx pv h xs" and a: "a \<in> set xs"
  shows "dlist (unlink_nx nx pv a) (unlink_pv nx pv a) (if h = Some a then nx a else h) (remove1 a xs)"
proof -
  obtain us vs where xs: "xs = us @ a # vs" "a \<notin> set us" using a by (meson split_list_first)
  then show ?thesis using dlist_unlink [OF l [unfolded xs(1)]] by (simp add: remove1_split)
qed

section \<open>Doubly linked circular lists\<close>

text \<open>\<open>cseg nx pv a xs b\<close>: \<open>a\<close>, then \<open>xs\<close>, then \<open>b\<close>, each linked to the next in both directions.\<close>

primrec cseg :: "('a \<Rightarrow> 'a option) \<Rightarrow> ('a \<Rightarrow> 'a option) \<Rightarrow> 'a \<Rightarrow> 'a list \<Rightarrow> 'a \<Rightarrow> bool" where
  "cseg nx pv a [] b \<longleftrightarrow> nx a = Some b \<and> pv b = Some a"
| "cseg nx pv a (x # xs) b \<longleftrightarrow> nx a = Some x \<and> pv x = Some a \<and> cseg nx pv x xs b"

definition ring :: "('a \<Rightarrow> 'a option) \<Rightarrow> ('a \<Rightarrow> 'a option) \<Rightarrow> 'a list \<Rightarrow> bool" where
  "ring nx pv xs \<longleftrightarrow> distinct xs \<and> (case xs of [] \<Rightarrow> True | x # ys \<Rightarrow> cseg nx pv x ys x)"

lemma ring_simps [simp]:
  "ring nx pv []"
  "ring nx pv (x # xs) \<longleftrightarrow> x \<notin> set xs \<and> distinct xs \<and> cseg nx pv x xs x"
  by (auto simp: ring_def)

lemma ring_distinct: "ring nx pv xs \<Longrightarrow> distinct xs"
  by (simp add: ring_def)

lemma cseg_append:
  "cseg nx pv a (xs @ y # ys) b \<longleftrightarrow> cseg nx pv a xs y \<and> cseg nx pv y ys b"
  by (induction xs arbitrary: a) auto

text \<open>A segment only depends on the \<open>next\<close> of all but its last and the \<open>prev\<close> of all but its first.\<close>

lemma cseg_cong:
  "(\<And>x. x = a \<or> x \<in> set xs \<Longrightarrow> nx x = nx' x) \<Longrightarrow>
   (\<And>x. x = b \<or> x \<in> set xs \<Longrightarrow> pv x = pv' x) \<Longrightarrow>
   cseg nx pv a xs b = cseg nx' pv' a xs b"
  by (induction xs arbitrary: a) auto

lemma cseg_upd_nx [simp, frame]:
  "c \<noteq> a \<Longrightarrow> c \<notin> set xs \<Longrightarrow> cseg (nx(c := v)) pv a xs b = cseg nx pv a xs b"
  by (rule cseg_cong) auto

lemma cseg_upd_pv [simp, frame]:
  "c \<noteq> b \<Longrightarrow> c \<notin> set xs \<Longrightarrow> cseg nx (pv(c := v)) a xs b = cseg nx pv a xs b"
  by (rule cseg_cong) auto

lemma cseg_last: "cseg nx pv a xs b \<Longrightarrow> pv b = Some (last (a # xs))"
  by (induction xs arbitrary: a) auto

lemma cseg_first: "cseg nx pv a xs b \<Longrightarrow> nx a = Some (hd (xs @ [b]))"
  by (cases xs) auto

text \<open>The same circle read from another of its elements.\<close>

lemma ring_rotate: "ring nx pv (x # xs @ y # ys) \<Longrightarrow> ring nx pv (y # ys @ x # xs)"
  by (auto simp: cseg_append)

lemma ring_rotate1: "ring nx pv (xs @ [y]) \<longleftrightarrow> ring nx pv (y # xs)"
proof (cases xs)
  case (Cons x zs)
  then show ?thesis by (auto simp: cseg_append)
qed simp

text \<open>The next and the previous element of a member.\<close>

lemma ring_next: "ring nx pv (x # xs) \<Longrightarrow> nx x = Some (hd (xs @ [x]))"
  by (auto dest: cseg_first)

lemma ring_prev: "ring nx pv (x # xs) \<Longrightarrow> pv x = Some (last (x # xs))"
  by (auto dest: cseg_last)

text \<open>Linking \<open>e\<close> in between two neighbours \<open>a\<close> and \<open>b\<close>.\<close>

lemma cseg_insert:
  assumes "cseg nx pv a [] b" and "e \<noteq> a" "e \<noteq> b"
    and "nx' a = Some e" "nx' e = Some b" "pv' e = Some a" "pv' b = Some e"
  shows "cseg nx' pv' a [e] b"
  using assms by simp

text \<open>Inserting \<open>e\<close> before the head, that is at the end of the circle.\<close>

lemma ring_insert_last:
  assumes r: "ring nx pv (x # xs)" and e: "e \<notin> set (x # xs)"
    and nx': "nx' = (nx(e := Some x))(last (x # xs) := Some e)"
    and pv': "pv' = (pv(e := Some (last (x # xs))))(x := Some e)"
  shows "ring nx' pv' (x # xs @ [e])"
proof (cases xs rule: rev_cases)
  case Nil
  then show ?thesis using r e nx' pv' by auto
next
  case (snoc us c)
  then have "cseg nx pv x us c" "nx c = Some x" using r by (auto simp: cseg_append)
  moreover have "cseg nx' pv' x us c = cseg nx pv x us c"
    by (rule cseg_cong) (use snoc r e nx' pv' in auto)
  ultimately show ?thesis using snoc r e nx' pv' by (auto simp: cseg_append)
qed

text \<open>Unlinking the element \<open>a\<close> at the front of a circle of at least two.\<close>

lemma ring_unlink:
  assumes r: "ring nx pv (a # x # xs)"
    and nx': "nx' = nx(last (x # xs) := Some x)" and pv': "pv' = pv(x := Some (last (x # xs)))"
  shows "ring nx' pv' (x # xs)"
proof (cases xs rule: rev_cases)
  case Nil
  then show ?thesis using r nx' pv' by auto
next
  case (snoc us c)
  then have "cseg nx pv x us c" using r by (auto simp: cseg_append)
  moreover have "cseg nx' pv' x us c = cseg nx pv x us c"
    by (rule cseg_cong) (use snoc r nx' pv' in auto)
  ultimately show ?thesis using snoc r nx' pv' by (auto simp: cseg_append)
qed

end
