(* ===== verification/Lists.thy ===== *)
theory Lists
  imports Links
begin

text \<open>
  The list library: the circular lists of \<open>src/include/lib/list.h\<close> and the forward lists of
  \<open>src/include/lib/flist.h\<close>. A node is a number, a pointer an optional one. The loops \<open>list_foreach\<close> and
  \<open>flist_foreach\<close> are given by the nodes they visit, in order; they are \<^const>\<open>None\<close> when they do not end.
\<close>

section \<open>Circular lists\<close>

record list_store =
  l_prev :: "nat \<Rightarrow> nat option"
  l_next :: "nat \<Rightarrow> nat option"

definition list_init :: "nat \<Rightarrow> list_store \<Rightarrow> list_store" where
  "list_init entry s =
     (let s = s\<lparr>l_next := (l_next s)(entry := Some entry)\<rparr>
      in s\<lparr>l_prev := (l_prev s)(entry := Some entry)\<rparr>)"

definition list_join :: "nat \<Rightarrow> nat \<Rightarrow> list_store \<Rightarrow> list_store" where
  "list_join first second s =
     (let s = s\<lparr>l_next := (l_next s)(first := Some second)\<rparr>
      in s\<lparr>l_prev := (l_prev s)(second := Some first)\<rparr>)"

definition list_insert :: "nat \<Rightarrow> nat \<Rightarrow> nat \<Rightarrow> list_store \<Rightarrow> list_store" where
  "list_insert entry prev next s =
     (let s = s\<lparr>l_next := (l_next s)(prev := Some entry)\<rparr>;
          s = s\<lparr>l_prev := (l_prev s)(entry := Some prev)\<rparr>;
          s = s\<lparr>l_next := (l_next s)(entry := Some next)\<rparr>
      in s\<lparr>l_prev := (l_prev s)(next := Some entry)\<rparr>)"

definition list_append :: "nat \<Rightarrow> nat \<Rightarrow> list_store \<Rightarrow> list_store option" where
  "list_append entry prev s = do {
     next \<leftarrow> l_next s prev;
     Some (list_insert entry prev next s)
   }"

definition list_remove :: "nat \<Rightarrow> list_store \<Rightarrow> list_store option" where
  "list_remove entry s = do {
     p \<leftarrow> l_prev s entry;
     n \<leftarrow> l_next s entry;
     Some (list_init entry (list_join p n s))
   }"

partial_function (option) list_foreach_from :: "nat \<Rightarrow> nat \<Rightarrow> list_store \<Rightarrow> nat list option" where
  "list_foreach_from el head s =
     (if el = head then Some []
      else do {
        n \<leftarrow> l_next s el;
        els \<leftarrow> list_foreach_from n head s;
        Some (el # els)
      })"

definition list_foreach :: "nat \<Rightarrow> list_store \<Rightarrow> nat list option" where
  "list_foreach head s = do { el \<leftarrow> l_next s head; list_foreach_from el head s }"

section \<open>Forward lists\<close>

record flist_store =
  f_next :: "nat \<Rightarrow> nat option"

definition flist_init :: "nat \<Rightarrow> flist_store \<Rightarrow> flist_store" where
  "flist_init entry s = s\<lparr>f_next := (f_next s)(entry := None)\<rparr>"

definition flist_insert :: "nat \<Rightarrow> nat \<Rightarrow> nat option \<Rightarrow> flist_store \<Rightarrow> flist_store" where
  "flist_insert entry prev next s =
     (let s = s\<lparr>f_next := (f_next s)(prev := Some entry)\<rparr>
      in s\<lparr>f_next := (f_next s)(entry := next)\<rparr>)"

partial_function (option) flist_append :: "nat \<Rightarrow> nat \<Rightarrow> flist_store \<Rightarrow> flist_store option" where
  "flist_append entry head s =
     (case f_next s head of
        Some n \<Rightarrow> flist_append entry n s
      | None \<Rightarrow> Some (s\<lparr>f_next := (f_next s)(head := Some entry)\<rparr>))"

partial_function (option) flist_foreach_from :: "nat option \<Rightarrow> flist_store \<Rightarrow> nat list option" where
  "flist_foreach_from el s =
     (case el of
        None \<Rightarrow> Some []
      | Some e \<Rightarrow> do { els \<leftarrow> flist_foreach_from (f_next s e) s; Some (e # els) })"

definition flist_foreach :: "nat \<Rightarrow> flist_store \<Rightarrow> nat list option" where
  "flist_foreach head s = flist_foreach_from (f_next s head) s"

section \<open>Circles\<close>

abbreviation list_ring :: "list_store \<Rightarrow> nat list \<Rightarrow> bool" where
  "list_ring s \<equiv> ring (l_next s) (l_prev s)"

lemma list_init_ring: "list_ring (list_init e s) [e]"
  by (simp add: list_init_def)

lemma list_append_ring:
  assumes r: "list_ring s (a # xs)" and e: "e \<notin> set (a # xs)"
  shows "\<exists>t. list_append e a s = Some t \<and> list_ring t (a # e # xs)"
proof -
  let ?n = "hd (xs @ [a])"
  have n: "l_next s a = Some ?n" using ring_next [OF r] .
  have "list_ring (list_insert e a ?n s) (a # e # xs)"
  proof (cases xs)
    case Nil
    then show ?thesis using r e by (simp add: list_insert_def)
  next
    case (Cons x zs)
    have "cseg (l_next (list_insert e a x s)) (l_prev (list_insert e a x s)) x zs a = cseg (l_next s) (l_prev s) x zs a"
      by (rule cseg_cong) (use r e Cons in \<open>auto simp: list_insert_def\<close>)
    then show ?thesis using r e Cons by (auto simp: list_insert_def)
  qed
  then show ?thesis using n by (simp add: list_append_def)
qed

lemma list_remove_ring:
  assumes r: "list_ring s (a # e # xs)"
  shows "\<exists>t. list_remove e s = Some t \<and> list_ring t (a # xs) \<and> list_ring t [e]"
proof -
  let ?n = "hd (xs @ [a])"
  have l: "l_prev s e = Some a" "l_next s e = Some ?n"
    using r cseg_first [of "l_next s" "l_prev s" e xs a] by auto
  let ?t = "list_init e (list_join a ?n s)"
  have "list_ring ?t (a # xs)"
  proof (cases xs)
    case Nil
    then show ?thesis using r by (auto simp: list_init_def list_join_def)
  next
    case (Cons x zs)
    have "cseg (l_next ?t) (l_prev ?t) x zs a = cseg (l_next s) (l_prev s) x zs a"
      by (rule cseg_cong) (use r Cons in \<open>auto simp: list_init_def list_join_def\<close>)
    then show ?thesis using r Cons by (auto simp: list_init_def list_join_def)
  qed
  then show ?thesis using l list_init_ring by (auto simp: list_remove_def)
qed

lemma list_foreach_segment:
  "cseg (l_next s) (l_prev s) a xs h \<Longrightarrow> h \<notin> set xs \<Longrightarrow>
    (case l_next s a of None \<Rightarrow> None | Some el \<Rightarrow> list_foreach_from el h s) = Some xs"
proof (induction xs arbitrary: a)
  case Nil
  then show ?case by (subst list_foreach_from.simps) simp
next
  case (Cons x xs)
  then have "(case l_next s x of None \<Rightarrow> None | Some el \<Rightarrow> list_foreach_from el h s) = Some xs" by simp
  then show ?case using Cons.prems
    by (subst list_foreach_from.simps) (auto split: option.splits)
qed

lemma list_foreach_ring: "list_ring s (h # xs) \<Longrightarrow> list_foreach h s = Some xs"
  using list_foreach_segment [of s h xs h] by (auto simp: list_foreach_def split: option.splits)

text \<open>the circular list is a list: appending a new entry after a node puts it right behind that
  node, going through the list then visits the entries in order, and removing the entry again gives the old
  list back, with the removed entry alone in a circle of its own.\<close>

theorem list_append_remove:
  assumes "list_ring s (h # xs @ ys)" "e \<notin> set (h # xs @ ys)" "a = last (h # xs)"
  shows "\<exists>t u. list_append e a s = Some t \<and> list_foreach h t = Some (xs @ e # ys) \<and>
    list_remove e t = Some u \<and> list_foreach h u = Some (xs @ ys) \<and> list_foreach e u = Some [] \<and>
    list_ring u (h # xs @ ys)"
proof (cases xs rule: rev_cases)
  case Nil
  then obtain t where t: "list_append e h s = Some t" "list_ring t (h # e # ys)"
    using assms list_append_ring [of s h ys e] by auto
  obtain u where u: "list_remove e t = Some u" "list_ring u (h # ys)" "list_ring u [e]"
    using list_remove_ring [OF t(2)] by blast
  then show ?thesis using t Nil assms(3) list_foreach_ring by fastforce
next
  case (snoc zs b)
  have r: "list_ring s (b # ys @ h # zs)" by (rule ring_rotate) (use assms(1) snoc in simp)
  moreover have "e \<notin> set (b # ys @ h # zs)" using assms(2) snoc by auto
  ultimately obtain t where t: "list_append e b s = Some t" "list_ring t (b # e # ys @ h # zs)"
    using list_append_ring by blast
  obtain u where u: "list_remove e t = Some u" "list_ring u (b # ys @ h # zs)" "list_ring u [e]"
    using list_remove_ring [OF t(2)] by blast
  have "list_ring t (h # zs @ b # e # ys)" by (rule ring_rotate) (use t(2) in simp)
  moreover have "list_ring u (h # zs @ b # ys)" by (rule ring_rotate [OF u(2)])
  ultimately show ?thesis
    using t u snoc assms(3) list_foreach_ring [of t h] list_foreach_ring [of u h] list_foreach_ring [of u e "[]"]
    by simp
qed

definition empty_lists :: list_store where
  "empty_lists = \<lparr>l_prev = (\<lambda>_. None), l_next = (\<lambda>_. None)\<rparr>"

theorem list_append_remove_witness:
  "\<exists>t u. list_append 7 1 (list_init 1 empty_lists) = Some t \<and> list_foreach 1 t = Some [7] \<and>
    list_remove 7 t = Some u \<and> list_foreach 1 u = Some []"
  using list_append_remove [of "list_init 1 empty_lists" 1 "[]" "[]" 7 1] list_init_ring [of 1 empty_lists] by auto

section \<open>Chains\<close>

lemma flist_append_chain:
  assumes "slist (f_next s) (f_next s h) xs" "slist (f_next s) (Some e) es"
    and "set (h # xs) \<inter> set es = {}" "h \<notin> set xs"
  shows "\<exists>t. flist_append e h s = Some t \<and> slist (f_next t) (f_next t h) (xs @ es) \<and>
    (\<forall>n. n \<noteq> last (h # xs) \<longrightarrow> f_next t n = f_next s n)"
  using assms
proof (induction xs arbitrary: h)
  case Nil
  let ?t = "s\<lparr>f_next := (f_next s)(h := Some e)\<rparr>"
  have "flist_append e h s = Some ?t" using Nil.prems(1) by (subst flist_append.simps) simp
  moreover have "slist ((f_next s)(h := Some e)) (Some e) es"
    using Nil.prems(2,3) by (subst slist_upd) auto
  ultimately show ?case by (intro exI [of _ ?t]) (simp add: fun_upd_def)
next
  case (Cons x xs)
  have d: "x \<notin> set xs" using slist_distinct [OF Cons.prems(1)] by simp
  have "\<exists>t. flist_append e x s = Some t \<and> slist (f_next t) (f_next t x) (xs @ es) \<and>
      (\<forall>n. n \<noteq> last (x # xs) \<longrightarrow> f_next t n = f_next s n)"
    by (rule Cons.IH) (use Cons.prems d in auto)
  then obtain t where t: "flist_append e x s = Some t" "slist (f_next t) (f_next t x) (xs @ es)"
    "\<forall>n. n \<noteq> last (x # xs) \<longrightarrow> f_next t n = f_next s n"
    by blast
  have "flist_append e h s = Some t" using Cons.prems(1) t(1) by (subst flist_append.simps) simp
  moreover have "h \<noteq> last (x # xs)" using Cons.prems(4) last_in_set [of "x # xs"] by auto
  then have "f_next t h = Some x" using t(3) Cons.prems(1) by simp
  ultimately show ?case using t(2,3) by (intro exI [of _ t]) simp
qed

lemma flist_foreach_chain: "slist (f_next s) el xs \<Longrightarrow> flist_foreach_from el s = Some xs"
proof (induction xs arbitrary: el)
  case (Cons x xs)
  then show ?case by (subst flist_foreach_from.simps) simp
qed (subst flist_foreach_from.simps, simp)

lemma flist_append_end:
  "slist (f_next s) (f_next s h) xs \<Longrightarrow>
    \<exists>t. flist_append e h s = Some t \<and> f_next t = (f_next s)(last (h # xs) := Some e)"
proof (induction xs arbitrary: h)
  case (Cons x xs)
  then have "f_next s h = Some x" "slist (f_next s) (f_next s x) xs" by auto
  then show ?case using Cons.IH [of x] by (subst flist_append.simps) (simp add: fun_upd_def)
qed (subst flist_append.simps, simp)

text \<open>Every node of a chain but the last leads to a node of the chain.\<close>

lemma slist_successor:
  "slist nx (nx h) xs \<Longrightarrow> n \<in> set (h # xs) \<Longrightarrow> n \<noteq> last (h # xs) \<Longrightarrow> \<exists>m \<in> set (h # xs). nx n = Some m"
proof (induction xs arbitrary: h)
  case (Cons x xs)
  then show ?case by (cases "n = h") auto
qed simp

lemma flist_cycle:
  assumes "\<And>n. n \<in> C \<Longrightarrow> \<exists>m \<in> C. f_next s n = Some m" "n \<in> C"
  shows "flist_foreach_from (Some n) s = None"
proof -
  have "el \<notin> Some ` C" if "flist_foreach_from el s = Some zs" for el zs
  proof (rule flist_foreach_from.raw_induct [OF _ that, of "\<lambda>el w _. w = s \<longrightarrow> el \<notin> Some ` C", rule_format, OF _ refl])
    fix rec and el :: "nat option" and w zs
    assume IH: "\<And>el w zs. rec el w = Some zs \<Longrightarrow> w = s \<Longrightarrow> el \<notin> Some ` C" and "w = s"
      and r: "(case el of None \<Rightarrow> Some [] | Some e \<Rightarrow> rec (f_next w e) w \<bind> (\<lambda>els. Some (e # els))) = Some zs"
    then show "el \<notin> Some ` C"
      using assms(1) by (fastforce split: option.splits Option.bind_splits)
  qed
  then show ?thesis using assms(2) by fastforce
qed

text \<open>appending to a forward list ends and puts the entry at the end. The chain that already
  hangs behind the entry comes with it, since the append does not reset the entry's pointer; and appending
  an entry that the list has already makes a list whose traversal does not end.\<close>

theorem flist_append_chains:
  assumes "slist (f_next s) (f_next s h) xs" "slist (f_next s) (Some e) (e # es)"
    and "set (h # xs) \<inter> set (e # es) = {}" "h \<notin> set xs"
  shows "\<exists>t u. flist_append e h s = Some t \<and> flist_foreach h t = Some (xs @ e # es) \<and>
    flist_append e h t = Some u \<and> flist_foreach h u = None"
proof -
  obtain t where t: "flist_append e h s = Some t" "slist (f_next t) (f_next t h) (xs @ e # es)"
    "\<forall>n. n \<noteq> last (h # xs) \<longrightarrow> f_next t n = f_next s n"
    using flist_append_chain [OF assms] by blast
  obtain u where u: "flist_append e h t = Some u" "f_next u = (f_next t)(last (h # xs @ e # es) := Some e)"
    using flist_append_end [OF t(2)] by auto
  let ?C = "set (h # xs @ e # es)"
  have "h \<notin> set (xs @ e # es)" using assms(3,4) by auto
  then have "\<exists>m \<in> ?C. f_next u n = Some m" if "n \<in> ?C" for n
    using slist_successor [OF t(2) that] u(2) by auto
  then have "flist_foreach_from (Some n) u = None" if "n \<in> ?C" for n using flist_cycle [of ?C u n] that by blast
  moreover have "f_next u h \<noteq> None" using \<open>\<And>n. n \<in> ?C \<Longrightarrow> \<exists>m \<in> ?C. f_next u n = Some m\<close> by force
  ultimately have "flist_foreach h u = None"
    using \<open>\<And>n. n \<in> ?C \<Longrightarrow> \<exists>m \<in> ?C. f_next u n = Some m\<close> [of h] by (auto simp: flist_foreach_def)
  then show ?thesis using t(1) u(1) flist_foreach_chain [OF t(2)] by (auto simp: flist_foreach_def)
qed

definition empty_chains :: flist_store where
  "empty_chains = \<lparr>f_next = (\<lambda>_. None)\<rparr>"

theorem flist_append_chains_witness:
  "\<exists>t u. flist_append 7 1 empty_chains = Some t \<and> flist_foreach 1 t = Some [7] \<and>
    flist_append 7 1 t = Some u \<and> flist_foreach 1 u = None"
  using flist_append_chains [of empty_chains 1 "[]" 7 "[]"] by (simp add: empty_chains_def)

end
