(* ===== verification/CString.thy ===== *)
theory CString
  imports Prelude
begin

text \<open>
  The kernel's string library, \<open>src/lib/src/string.c\<close>. Memory is a store of bytes addressed by
  32-bit pointers; pointer arithmetic wraps. \<open>char\<close> is signed on the target, so comparisons of
  characters go through \<^const>\<open>sint\<close>. Loops that run until a terminating zero byte may not end
  (a store with no zero byte, or an overlapping \<open>kstrcpy\<close>): they are \<open>partial_function\<close>s whose
  \<^const>\<open>None\<close> is "does not return". The loops that count \<open>bytes\<close> recurse on that count. A
  pointer result of 0 is \<open>NULL\<close>.
\<close>

type_synonym mem = "u32 \<Rightarrow> u8"

section \<open>Operations\<close>

partial_function (option) kstrlen_loop :: "mem \<Rightarrow> u32 \<Rightarrow> u32 \<Rightarrow> u32 option" where
  "kstrlen_loop m s l = (if m s \<noteq> 0 then kstrlen_loop m (s + 1) (l + 1) else Some l)"

definition kstrlen :: "mem \<Rightarrow> u32 \<Rightarrow> u32 option" where
  "kstrlen m s = kstrlen_loop m s 0"

partial_function (option) kstrchr :: "mem \<Rightarrow> u32 \<Rightarrow> u8 \<Rightarrow> u32 option" where
  "kstrchr m s c =
     (if m s = c then Some s
      else if m s \<noteq> 0 then kstrchr m (s + 1) c
      else Some 0)"

partial_function (option) kstrcmp :: "mem \<Rightarrow> u32 \<Rightarrow> u32 \<Rightarrow> int option" where
  "kstrcmp m s1 s2 =
     (if m s1 \<noteq> 0 \<and> m s1 = m s2 then kstrcmp m (s1 + 1) (s2 + 1)
      else Some (sint (m s1) - sint (m s2)))"

partial_function (option) kstrcpy_loop :: "mem \<Rightarrow> u32 \<Rightarrow> u32 \<Rightarrow> mem option" where
  "kstrcpy_loop m dest src =
     (let c = m src; m' = m(dest := c)
      in if c \<noteq> 0 then kstrcpy_loop m' (dest + 1) (src + 1) else Some m')"

definition kstrcpy :: "mem \<Rightarrow> u32 \<Rightarrow> u32 \<Rightarrow> (mem \<times> u32) option" where
  "kstrcpy m dest src = map_option (\<lambda>m'. (m', dest)) (kstrcpy_loop m dest src)"

primrec kmemcpy_loop :: "mem \<Rightarrow> u32 \<Rightarrow> u32 \<Rightarrow> u32 \<Rightarrow> nat \<Rightarrow> mem" where
  "kmemcpy_loop m dest src i 0 = m"
| "kmemcpy_loop m dest src i (Suc n) =
     kmemcpy_loop (m(dest + i := m (src + i))) dest src (i + 1) n"

definition kmemcpy :: "mem \<Rightarrow> u32 \<Rightarrow> u32 \<Rightarrow> u32 \<Rightarrow> mem \<times> u32" where
  "kmemcpy m dest src bytes = (kmemcpy_loop m dest src 0 (unat bytes), dest)"

primrec kmemset_loop :: "mem \<Rightarrow> u32 \<Rightarrow> u8 \<Rightarrow> u32 \<Rightarrow> nat \<Rightarrow> mem" where
  "kmemset_loop m s c i 0 = m"
| "kmemset_loop m s c i (Suc n) = kmemset_loop (m(s + i := c)) s c (i + 1) n"

text \<open>The \<open>int\<close> argument is stored as a \<open>char\<close>, that is, its low byte.\<close>

definition kmemset :: "mem \<Rightarrow> u32 \<Rightarrow> int \<Rightarrow> u32 \<Rightarrow> mem \<times> u32" where
  "kmemset m s c bytes = (kmemset_loop m s (word_of_int c) 0 (unat bytes), s)"

text \<open>\<open>kmemmove\<close> fills a local array \<open>tmp\<close> from \<open>src\<close> and then copies to \<open>dest\<close> from \<open>src\<close>, not from
  \<open>tmp\<close>; the local array is outside the modelled store.\<close>

primrec kmemmove_fill :: "mem \<Rightarrow> u32 \<Rightarrow> u32 \<Rightarrow> nat \<Rightarrow> u8 list" where
  "kmemmove_fill m src i 0 = []"
| "kmemmove_fill m src i (Suc n) = m (src + i) # kmemmove_fill m src (i + 1) n"

primrec kmemmove_store :: "mem \<Rightarrow> u8 list \<Rightarrow> u32 \<Rightarrow> u32 \<Rightarrow> u32 \<Rightarrow> nat \<Rightarrow> mem" where
  "kmemmove_store m tmp dest src i 0 = m"
| "kmemmove_store m tmp dest src i (Suc n) =
     kmemmove_store (m(dest + i := m (src + i))) tmp dest src (i + 1) n"

definition kmemmove :: "mem \<Rightarrow> u32 \<Rightarrow> u32 \<Rightarrow> u32 \<Rightarrow> mem \<times> u32" where
  "kmemmove m dest src bytes =
     (let tmp = kmemmove_fill m src 0 (unat bytes)
      in (kmemmove_store m tmp dest src 0 (unat bytes), dest))"

text \<open>\<open>kmemcmp\<close> advances both pointers before it reads the bytes whose difference it returns.\<close>

primrec kmemcmp_loop :: "mem \<Rightarrow> u32 \<Rightarrow> u32 \<Rightarrow> nat \<Rightarrow> int" where
  "kmemcmp_loop m ca cb 0 = 0"
| "kmemcmp_loop m ca cb (Suc n) =
     (if m ca \<noteq> m cb then sint (m (ca + 1)) - sint (m (cb + 1))
      else kmemcmp_loop m (ca + 1) (cb + 1) n)"

definition kmemcmp :: "mem \<Rightarrow> u32 \<Rightarrow> u32 \<Rightarrow> u32 \<Rightarrow> int" where
  "kmemcmp m s1 s2 bytes = kmemcmp_loop m s1 s2 (unat bytes)"

primrec kmemchr_loop :: "mem \<Rightarrow> u32 \<Rightarrow> u8 \<Rightarrow> nat \<Rightarrow> u32" where
  "kmemchr_loop m p v 0 = 0"
| "kmemchr_loop m p v (Suc n) = (if m p = v then p else kmemchr_loop m (p + 1) v n)"

definition kmemchr :: "mem \<Rightarrow> u32 \<Rightarrow> int \<Rightarrow> u32 \<Rightarrow> u32" where
  "kmemchr m s value bytes = kmemchr_loop m s (word_of_int value) (unat bytes)"

text \<open>The digit characters; index 36 is the string's terminator, beyond it is out of bounds.\<close>

definition CHARSET :: "u8 list" where
  "CHARSET = map word_of_nat ([48..<58] @ [97..<123]) @ [0]"

text \<open>The digits, least significant first, in the 64-byte array \<open>tmp\<close>.\<close>

partial_function (option) kitoa_digits :: "int \<Rightarrow> int \<Rightarrow> u8 list \<Rightarrow> u8 list option" where
  "kitoa_digits value radix tmp =
     (if value > 0 then do {
        require (length tmp < 64);
        d \<leftarrow> c_mod value radix;
        require (d < 37);
        value' \<leftarrow> c_div value radix;
        kitoa_digits value' radix (tmp @ [CHARSET ! nat d])
      } else Some tmp)"

primrec kitoa_emit :: "mem \<Rightarrow> u32 \<Rightarrow> u8 list \<Rightarrow> nat \<Rightarrow> mem \<times> u32" where
  "kitoa_emit m buf tmp 0 = (m, buf)"
| "kitoa_emit m buf tmp (Suc idx) = kitoa_emit (m(buf := tmp ! idx)) (buf + 1) tmp idx"

definition kitoa :: "mem \<Rightarrow> int \<Rightarrow> u32 \<Rightarrow> int \<Rightarrow> (mem \<times> u32) option" where
  "kitoa m value buf radix = do {
     let (m, p) = (if value < 0 then (m(buf := 45), buf + 1) else (m, buf));
     value \<leftarrow> (if value < 0 then to_int (- value) else Some value);
     if value = 0 then Some (m(p := 48, p + 1 := 0), buf)
     else do {
       tmp \<leftarrow> kitoa_digits value radix [];
       let (m, p) = kitoa_emit m p tmp (length tmp);
       Some (m(p := 0), buf)
     }
   }"

partial_function (option) katoi_loop :: "mem \<Rightarrow> u32 \<Rightarrow> int \<Rightarrow> int option" where
  "katoi_loop m str i =
     (if m str \<noteq> 0 then
        (if sint (m str) < 48 \<or> sint (m str) > 57 then Some i
         else do {
           i \<leftarrow> to_int (i * 10);
           i \<leftarrow> to_int (i + (sint (m str) - 48));
           katoi_loop m (str + 1) i
         })
      else Some i)"

definition katoi :: "mem \<Rightarrow> u32 \<Rightarrow> int option" where
  "katoi m str = do {
     let (factor, str) = (if m str = 45 then (- 1 :: u32, str + 1) else (1, str));
     let str = (if m str = 43 then str + 1 else str);
     i \<leftarrow> katoi_loop m str 0;
     Some (sint (word_of_int i * factor))
   }"

section \<open>Byte sequences and C strings in memory\<close>

primrec bytes_at :: "mem \<Rightarrow> u32 \<Rightarrow> u8 list \<Rightarrow> bool" where
  "bytes_at m s [] \<longleftrightarrow> True"
| "bytes_at m s (x # xs) \<longleftrightarrow> m s = x \<and> bytes_at m (s + 1) xs"

text \<open>The characters \<open>xs\<close>, none of them zero, followed by a zero byte.\<close>

definition cstr_at :: "mem \<Rightarrow> u32 \<Rightarrow> u8 list \<Rightarrow> bool" where
  "cstr_at m s xs \<longleftrightarrow> bytes_at m s (xs @ [0]) \<and> 0 \<notin> set xs"

lemma bytes_at_nth:
  "bytes_at m s xs \<longleftrightarrow> (\<forall>i<length xs. m (s + of_nat i) = xs ! i)"
proof (induction xs arbitrary: s)
  case (Cons x xs)
  show ?case by (simp add: Cons All_less_Suc2 add.assoc [symmetric] del: add.assoc)
qed simp

lemma cstr_at_Nil [simp]: "cstr_at m s [] \<longleftrightarrow> m s = 0"
  by (simp add: cstr_at_def)

lemma cstr_at_Cons [simp]: "cstr_at m s (x # xs) \<longleftrightarrow> m s = x \<and> x \<noteq> 0 \<and> cstr_at m (s + 1) xs"
  by (auto simp: cstr_at_def)

lemma kstrlen_loop_cstr: "cstr_at m s xs \<Longrightarrow> kstrlen_loop m s l = Some (l + of_nat (length xs))"
proof (induction xs arbitrary: s l)
  case Nil
  then show ?case by (simp add: kstrlen_loop.simps)
next
  case (Cons x xs)
  then show ?case by (simp add: kstrlen_loop.simps [of m s l] ac_simps)
qed

section \<open>Copying\<close>

text \<open>Every byte the loop writes, and every byte it does not.\<close>

lemma kmemcpy_loop_frame:
  "(\<And>k. k < n \<Longrightarrow> a \<noteq> dest + i + of_nat k) \<Longrightarrow> kmemcpy_loop m dest src i n a = m a"
proof (induction n arbitrary: m i)
  case (Suc n)
  have "kmemcpy_loop (m(dest + i := m (src + i))) dest src (i + 1) n a = (m(dest + i := m (src + i))) a"
    by (rule Suc.IH) (use Suc.prems [of "Suc _"] in \<open>simp add: ac_simps\<close>)
  then show ?case using Suc.prems [of 0] by simp
qed simp

text \<open>The copy is right whenever \<open>dest\<close> does not lie inside the source after its first byte.\<close>

lemma kmemcpy_loop_copies:
  assumes "n < 4294967296" "dest = src \<or> n \<le> unat (dest - src)" "k < n"
  shows "kmemcpy_loop m dest src i n (dest + i + of_nat k) = m (src + i + of_nat k)"
  using assms
proof (induction n arbitrary: m i k)
  case (Suc n)
  let ?m = "m(dest + i := m (src + i))"
  show ?case
  proof (cases k)
    case 0
    have "kmemcpy_loop ?m dest src (i + 1) n (dest + i) = ?m (dest + i)"
    proof (rule kmemcpy_loop_frame)
      fix j assume "j < n"
      then have "of_nat (Suc j) \<noteq> (0 :: u32)"
        using Suc.prems(1) of_nat_u32_inj [of "Suc j" 0] by simp
      then show "dest + i \<noteq> dest + (i + 1) + of_nat j" by (simp add: ac_simps)
    qed
    then show ?thesis using 0 by simp
  next
    case (Suc j)
    have "kmemcpy_loop ?m dest src (i + 1) n (dest + (i + 1) + of_nat j) = ?m (src + (i + 1) + of_nat j)"
      by (rule Suc.IH) (use Suc.prems \<open>k = Suc j\<close> in auto)
    moreover have "?m (src + (i + 1) + of_nat j) = m (src + (i + 1) + of_nat j)"
    proof (cases "dest = src")
      case True
      then show ?thesis by simp
    next
      case False
      have "src + (i + 1) + of_nat j \<noteq> dest + i"
      proof
        assume "src + (i + 1) + of_nat j = dest + i"
        then have "dest - src = of_nat (Suc j)" by (simp add: algebra_simps)
        moreover have "unat (of_nat (Suc j) :: u32) = Suc j"
          by (rule unat_of_nat_u32) (use Suc.prems \<open>k = Suc j\<close> in simp)
        ultimately have "unat (dest - src) = Suc j" by (simp only:)
        then show False using False Suc.prems \<open>k = Suc j\<close> by simp
      qed
      then show ?thesis by simp
    qed
    ultimately show ?thesis using \<open>k = Suc j\<close> by (simp add: ac_simps)
  qed
qed simp

lemma kmemmove_store_eq: "kmemmove_store m tmp dest src i n = kmemcpy_loop m dest src i n"
  by (induction n arbitrary: m i) auto

lemma kmemset_loop_frame:
  "(\<And>k. k < n \<Longrightarrow> a \<noteq> s + i + of_nat k) \<Longrightarrow> kmemset_loop m s c i n a = m a"
proof (induction n arbitrary: m i)
  case (Suc n)
  have "kmemset_loop (m(s + i := c)) s c (i + 1) n a = (m(s + i := c)) a"
    by (rule Suc.IH) (use Suc.prems [of "Suc _"] in \<open>simp add: ac_simps\<close>)
  then show ?case using Suc.prems [of 0] by simp
qed simp

lemma kmemset_loop_sets:
  "k < n \<Longrightarrow> n < 4294967296 \<Longrightarrow> kmemset_loop m s c i n (s + i + of_nat k) = c"
proof (induction n arbitrary: m i k)
  case (Suc n)
  show ?case
  proof (cases k)
    case 0
    have "kmemset_loop (m(s + i := c)) s c (i + 1) n (s + i) = (m(s + i := c)) (s + i)"
    proof (rule kmemset_loop_frame)
      fix j assume "j < n"
      then have "of_nat (Suc j) \<noteq> (0 :: u32)"
        using Suc.prems of_nat_u32_inj [of "Suc j" 0] by simp
      then show "s + i \<noteq> s + (i + 1) + of_nat j" by (simp add: ac_simps)
    qed
    then show ?thesis using 0 by simp
  next
    case (Suc j)
    have "kmemset_loop (m(s + i := c)) s c (i + 1) n (s + (i + 1) + of_nat j) = c"
      by (rule Suc.IH) (use Suc.prems \<open>k = Suc j\<close> in auto)
    then show ?thesis using \<open>k = Suc j\<close> by (simp add: ac_simps)
  qed
qed simp

lemma kmemcpy_loop_shift: "kmemcpy_loop m dest src (i + 1) n = kmemcpy_loop m (dest + 1) (src + 1) i n"
proof (induction n arbitrary: m i)
  case (Suc n)
  have e: "dest + (i + 1) = dest + 1 + i" "src + (i + 1) = src + 1 + i" by (simp_all add: ac_simps)
  show ?case by (simp only: kmemcpy_loop.simps e Suc.IH [of _ "i + 1"])
qed simp

text \<open>\<open>kstrcpy\<close> is a \<open>kmemcpy\<close> of the string and its terminator.\<close>

lemma kstrcpy_loop_eq:
  "cstr_at m src xs \<Longrightarrow> length xs < unat (dest - src) \<Longrightarrow>
    kstrcpy_loop m dest src = Some (kmemcpy_loop m dest src 0 (Suc (length xs)))"
proof (induction xs arbitrary: m src dest)
  case Nil
  then show ?case by (simp add: kstrcpy_loop.simps fun_upd_def)
next
  case (Cons x xs)
  let ?m = "m(dest := x)"
  have far: "src + of_nat k \<noteq> dest" if "k \<le> Suc (length xs)" for k
  proof
    assume "src + of_nat k = dest"
    then have "dest - src = of_nat k" by (simp add: algebra_simps)
    moreover have "k < 4294967296" using that Cons.prems(2) unat_lt_u32 [of "dest - src"] by simp
    ultimately have "unat (dest - src) = k" by (simp add: unat_of_nat_u32)
    then show False using that Cons.prems(2) by simp
  qed
  have "cstr_at ?m (src + 1) xs"
    unfolding cstr_at_def bytes_at_nth
  proof (intro conjI allI impI)
    fix i assume i: "i < length (xs @ [0])"
    have "src + 1 + of_nat i \<noteq> dest" using far [of "Suc i"] i by (simp add: ac_simps)
    moreover have "m (src + of_nat (Suc i)) = (x # xs @ [0]) ! Suc i"
      using Cons.prems(1) i unfolding cstr_at_def bytes_at_nth by (simp del: of_nat_Suc)
    ultimately show "?m (src + 1 + of_nat i) = (xs @ [0]) ! i" by (simp add: ac_simps)
  qed (use Cons.prems(1) in \<open>simp add: cstr_at_def\<close>)
  moreover have "length xs < unat (dest + 1 - (src + 1))" using Cons.prems(2) by simp
  ultimately have "kstrcpy_loop ?m (dest + 1) (src + 1) =
      Some (kmemcpy_loop ?m (dest + 1) (src + 1) 0 (Suc (length xs)))"
    by (rule Cons.IH)
  then show ?case
    using Cons.prems(1) kmemcpy_loop_shift [of ?m dest src 0 "Suc (length xs)"]
    by (simp add: kstrcpy_loop.simps [of m dest src])
qed

section \<open>Comparing and searching\<close>

lemma kstrcmp_cstr:
  "cstr_at m s1 xs \<Longrightarrow> cstr_at m s2 ys \<Longrightarrow>
    \<exists>r. kstrcmp m s1 s2 = Some r \<and> (r = 0 \<longleftrightarrow> xs = ys) \<and>
        (r < 0 \<longleftrightarrow> (xs @ [0], ys @ [0]) \<in> lexord {(a, b). sint a < sint b})"
proof (induction xs arbitrary: s1 s2 ys)
  case Nil
  then show ?case
    by (cases ys) (auto simp: kstrcmp.simps [of m s1 s2] sint_eq_0)
next
  case (Cons x xs)
  show ?case
  proof (cases "m s1 = m s2")
    case True
    then obtain zs where ys: "ys = x # zs" and zs: "cstr_at m (s2 + 1) zs"
      using Cons.prems by (cases ys) auto
    from Cons.prems have "cstr_at m (s1 + 1) xs" by simp
    from Cons.IH [OF this zs] True ys Cons.prems(1) show ?thesis
      by (auto simp: kstrcmp.simps [of m s1 s2])
  next
    case False
    then have ne: "sint (m s1) \<noteq> sint (m s2)" by (simp add: sint_inj)
    from False Cons.prems show ?thesis using ne
      by (cases ys) (auto simp: kstrcmp.simps [of m s1 s2])
  qed
qed

lemma kmemcmp_loop_equal:
  "(\<And>k. k < n \<Longrightarrow> m (a + of_nat k) = m (b + of_nat k)) \<Longrightarrow> kmemcmp_loop m a b n = 0"
proof (induction n arbitrary: a b)
  case (Suc n)
  have "kmemcmp_loop m (a + 1) (b + 1) n = 0"
    by (rule Suc.IH) (use Suc.prems [of "Suc _"] in \<open>simp add: ac_simps\<close>)
  then show ?case using Suc.prems [of 0] by simp
qed simp

text \<open>At the first difference, the bytes one further on decide.\<close>

lemma kmemcmp_loop_differ:
  "k < n \<Longrightarrow> (\<And>j. j < k \<Longrightarrow> m (a + of_nat j) = m (b + of_nat j)) \<Longrightarrow>
    m (a + of_nat k) \<noteq> m (b + of_nat k) \<Longrightarrow>
    kmemcmp_loop m a b n = sint (m (a + of_nat (Suc k))) - sint (m (b + of_nat (Suc k)))"
proof (induction n arbitrary: a b k)
  case (Suc n)
  show ?case
  proof (cases k)
    case 0
    then show ?thesis using Suc.prems(3) by (simp add: ac_simps)
  next
    case (Suc j)
    have "kmemcmp_loop m (a + 1) (b + 1) n =
        sint (m (a + 1 + of_nat (Suc j))) - sint (m (b + 1 + of_nat (Suc j)))"
      by (rule Suc.IH)
        (use Suc.prems \<open>k = Suc j\<close> Suc.prems(2) [of "Suc _"] in \<open>auto simp: ac_simps\<close>)
    then show ?thesis using Suc.prems(2) [of 0] \<open>k = Suc j\<close> by (simp add: ac_simps)
  qed
qed simp

lemma kmemchr_loop_found:
  "k < n \<Longrightarrow> m (p + of_nat k) = v \<Longrightarrow> (\<And>j. j < k \<Longrightarrow> m (p + of_nat j) \<noteq> v) \<Longrightarrow>
    kmemchr_loop m p v n = p + of_nat k"
proof (induction n arbitrary: p k)
  case (Suc n)
  show ?case
  proof (cases k)
    case 0
    then show ?thesis using Suc.prems by simp
  next
    case (Suc j)
    have "kmemchr_loop m (p + 1) v n = p + 1 + of_nat j"
      by (rule Suc.IH)
        (use Suc.prems \<open>k = Suc j\<close> Suc.prems(3) [of "Suc _"] in \<open>auto simp: ac_simps\<close>)
    then show ?thesis using Suc.prems(3) [of 0] \<open>k = Suc j\<close> by (simp add: ac_simps)
  qed
qed simp

lemma kmemchr_loop_absent:
  "(\<And>k. k < n \<Longrightarrow> m (p + of_nat k) \<noteq> v) \<Longrightarrow> kmemchr_loop m p v n = 0"
proof (induction n arbitrary: p)
  case (Suc n)
  have "kmemchr_loop m (p + 1) v n = 0"
    by (rule Suc.IH) (use Suc.prems [of "Suc _"] in \<open>simp add: ac_simps\<close>)
  then show ?case using Suc.prems [of 0] by simp
qed simp

section \<open>Numerals\<close>

text \<open>The numeral of a number, least significant digit first, as \<open>kitoa\<close> builds it.\<close>

lemma CHARSET_length [simp]: "length CHARSET = 37"
  by (simp add: CHARSET_def)

lemma CHARSET_digit: "d < 10 \<Longrightarrow> sint (CHARSET ! d) = 48 + int d"
proof -
  assume "d < 10"
  moreover have "\<forall>d \<in> set [0..<10]. sint (CHARSET ! d) = 48 + int d" by code_simp
  ultimately show ?thesis by simp
qed

lemma CHARSET_nonzero: "d < 36 \<Longrightarrow> CHARSET ! d \<noteq> 0"
proof -
  assume "d < 36"
  moreover have "\<forall>d \<in> set [0..<36]. CHARSET ! d \<noteq> 0" by code_simp
  ultimately show ?thesis by simp
qed

lemma kitoa_digits_value:
  assumes "2 \<le> r" "r \<le> 36" "length tmp \<le> 31" "0 \<le> v" "v < 2 ^ (31 - length tmp)"
  shows "\<exists>ds. kitoa_digits v r tmp = Some (tmp @ map (\<lambda>d. CHARSET ! nat d) ds) \<and>
    (\<forall>d \<in> set ds. 0 \<le> d \<and> d < r) \<and> foldr (\<lambda>d a. d + r * a) ds 0 = v \<and> (v > 0 \<longrightarrow> ds \<noteq> []) \<and>
    length tmp + length ds \<le> 31"
  using assms
proof (induction "31 - length tmp" arbitrary: v tmp)
  case 0
  then have "v = 0" by simp
  then show ?case using 0 kitoa_digits.simps [of v r tmp] by simp
next
  case (Suc n)
  show ?case
  proof (cases "v = 0")
    case True
    then have "kitoa_digits v r tmp = Some tmp" by (subst kitoa_digits.simps) simp
    with True Suc.prems show ?thesis by (intro exI [of _ "[]"]) simp
  next
    case False
    have vm: "v \<le> INT_MAX"
    proof -
      have "(2 :: int) ^ (31 - length tmp) \<le> 2 ^ 31" by (rule power_increasing) auto
      then show ?thesis using Suc.prems by (simp add: INT_MAX_def)
    qed
    have pos: "0 < v" "0 < r" using False Suc.prems by auto
    let ?d = "v mod r" and ?q = "v div r"
    have d: "0 \<le> ?d" "?d < r" using pos by auto
    then have d37: "?d < 37" using Suc.prems by linarith
    have "?q \<le> v div 2" using Suc.prems pos by (simp add: zdiv_mono2)
    moreover have "v < 2 * 2 ^ n"
      using Suc.prems(5) Suc.hyps(2) by (metis power_Suc)
    ultimately have q: "?q < 2 ^ n" by linarith
    let ?t = "tmp @ [CHARSET ! nat ?d]"
    have n: "n = 31 - length ?t" using Suc.hyps(2) by simp
    have "\<exists>ds. kitoa_digits ?q r ?t = Some (?t @ map (\<lambda>d. CHARSET ! nat d) ds) \<and>
      (\<forall>d \<in> set ds. 0 \<le> d \<and> d < r) \<and> foldr (\<lambda>d a. d + r * a) ds 0 = ?q \<and> (?q > 0 \<longrightarrow> ds \<noteq> []) \<and>
      length ?t + length ds \<le> 31"
    proof (rule Suc.hyps(1) [OF n])
      show "length ?t \<le> 31" using Suc.hyps(2) by simp
      show "0 \<le> ?q" using pos by (simp add: pos_imp_zdiv_nonneg_iff)
      show "?q < 2 ^ (31 - length ?t)" using q n by simp
    qed (use Suc.prems in auto)
    then obtain ds where ds: "kitoa_digits ?q r ?t = Some (?t @ map (\<lambda>d. CHARSET ! nat d) ds)"
      "\<forall>d \<in> set ds. 0 \<le> d \<and> d < r" "foldr (\<lambda>d a. d + r * a) ds 0 = ?q" "length ?t + length ds \<le> 31"
      by blast
    have "kitoa_digits v r tmp = kitoa_digits ?q r ?t"
      using pos vm d37 Suc.prems
      by (simp add: kitoa_digits.simps [of v r tmp] c_mod_pos c_div_pos)
    then show ?thesis
      using ds d by (intro exI [of _ "?d # ds"]) auto
  qed
qed

text \<open>Writing \<open>tmp\<close> out backwards.\<close>

lemma kitoa_emit_spec:
  "n \<le> length tmp \<Longrightarrow> n < 4294967295 \<Longrightarrow> kitoa_emit m b tmp n = (m', p) \<Longrightarrow>
    p = b + of_nat n \<and> bytes_at m' b (rev (take n tmp)) \<and>
    (\<forall>a. (\<forall>k<n. a \<noteq> b + of_nat k) \<longrightarrow> m' a = m a)"
proof (induction n arbitrary: m b)
  case (Suc n)
  let ?m = "m(b := tmp ! n)"
  have e: "kitoa_emit ?m (b + 1) tmp n = (m', p)" using Suc.prems by simp
  have le: "n \<le> length tmp" "n < 4294967295" using Suc.prems by auto
  have IH: "p = b + 1 + of_nat n" "bytes_at m' (b + 1) (rev (take n tmp))"
    "\<forall>a. (\<forall>k<n. a \<noteq> b + 1 + of_nat k) \<longrightarrow> m' a = ?m a"
    using Suc.IH [OF le e] by blast+
  have "m' b = ?m b"
  proof (rule IH(3) [rule_format])
    fix k assume "k < n"
    then show "b \<noteq> b + 1 + of_nat k"
      using offset_neq [of "Suc k" b] Suc.prems(2) by (simp add: ac_simps)
  qed
  moreover have "m' a = m a" if a: "\<forall>k<Suc n. a \<noteq> b + of_nat k" for a
  proof -
    have "a \<noteq> b + 1 + of_nat k" if "k < n" for k
      using a [rule_format, of "Suc k"] that by (simp add: ac_simps)
    then have "m' a = ?m a" using IH(3) by blast
    then show ?thesis using a [rule_format, of 0] by simp
  qed
  ultimately show ?case
    using IH Suc.prems(1) by (auto simp: take_Suc_conv_app_nth ac_simps)
qed auto

lemma horner_ge: "0 \<le> i \<Longrightarrow> \<forall>d \<in> set ds. 0 \<le> (d :: int) \<Longrightarrow> i \<le> foldl (\<lambda>a d. a * 10 + d) i ds"
proof (induction ds arbitrary: i)
  case (Cons d ds)
  then have "i \<le> i * 10 + d" by simp
  also have "i * 10 + d \<le> foldl (\<lambda>a d. a * 10 + d) (i * 10 + d) ds"
    using Cons by simp
  finally show ?case by simp
qed simp

lemma horner_rev: "foldl (\<lambda>a d. a * 10 + d) (0 :: int) (rev ds) = foldr (\<lambda>d a. d + 10 * a) ds 0"
  by (simp add: foldl_conv_foldr algebra_simps)

lemma katoi_loop_digits:
  "bytes_at m s (map (\<lambda>d. CHARSET ! nat d) ds @ [0]) \<Longrightarrow> \<forall>d \<in> set ds. 0 \<le> d \<and> d < 10 \<Longrightarrow> 0 \<le> i \<Longrightarrow>
    foldl (\<lambda>a d. a * 10 + d) i ds \<le> INT_MAX \<Longrightarrow>
    katoi_loop m s i = Some (foldl (\<lambda>a d. a * 10 + d) i ds)"
proof (induction ds arbitrary: s i)
  case Nil
  then show ?case by (simp add: katoi_loop.simps [of m s i])
next
  case (Cons d ds)
  let ?i = "i * 10 + d"
  have d: "0 \<le> d" "d < 10" using Cons.prems by auto
  then have c: "sint (m s) = 48 + d" using Cons.prems(1) CHARSET_digit [of "nat d"] by simp
  have "?i \<le> INT_MAX" using horner_ge [of ?i ds] Cons.prems d by force
  then have ok: "to_int (i * 10) = Some (i * 10)" "to_int ?i = Some ?i"
    using Cons.prems(3) d by (auto simp: INT_MIN_def INT_MAX_def)
  have "m s \<noteq> 0" using c d sint_eq_0 [of "m s"] by auto
  then have "katoi_loop m s i = katoi_loop m (s + 1) ?i"
    using c d ok by (simp add: katoi_loop.simps [of m s i])
  also have "\<dots> = Some (foldl (\<lambda>a d. a * 10 + d) ?i ds)"
    by (rule Cons.IH) (use Cons.prems d in auto)
  finally show ?case by simp
qed

text \<open>What \<open>kitoa\<close> leaves at \<open>buf\<close>: the sign, then the digits, most significant first.\<close>

lemma kitoa_writes:
  assumes v: "0 < v" "v \<le> INT_MAX" and r: "2 \<le> r" "r \<le> 36"
  shows "\<exists>ds m'. kitoa_digits v r [] = Some (map (\<lambda>d. CHARSET ! nat d) ds) \<and> ds \<noteq> [] \<and>
    (\<forall>d \<in> set ds. 0 \<le> d \<and> d < r) \<and> foldr (\<lambda>d a. d + r * a) ds 0 = v \<and>
    kitoa_emit m p (map (\<lambda>d. CHARSET ! nat d) ds) (length ds) = (m', p + of_nat (length ds)) \<and>
    cstr_at (m'(p + of_nat (length ds) := 0)) p (map (\<lambda>d. CHARSET ! nat d) (rev ds)) \<and>
    (\<forall>a. (\<forall>k<32. a \<noteq> p + of_nat k) \<longrightarrow> (m'(p + of_nat (length ds) := 0)) a = m a)"
proof -
  have "v < 2 ^ (31 - length ([] :: u8 list))" using v by (simp add: INT_MAX_def)
  from kitoa_digits_value [OF r _ _ this] v obtain ds where
    ds: "kitoa_digits v r [] = Some (map (\<lambda>d. CHARSET ! nat d) ds)" "ds \<noteq> []"
      "\<forall>d \<in> set ds. 0 \<le> d \<and> d < r" "foldr (\<lambda>d a. d + r * a) ds 0 = v" "length ds \<le> 31"
    by auto
  let ?cs = "map (\<lambda>d. CHARSET ! nat d) ds" and ?n = "length ds"
  obtain m' q where e: "kitoa_emit m p ?cs ?n = (m', q)" by force
  have sp: "q = p + of_nat ?n" "bytes_at m' p (rev ?cs)"
    "\<And>a. (\<forall>k<?n. a \<noteq> p + of_nat k) \<Longrightarrow> m' a = m a"
    using kitoa_emit_spec [OF _ _ e] ds(5) by auto
  let ?m = "m'(p + of_nat ?n := 0)"
  have "bytes_at ?m p (rev ?cs @ [0])"
    unfolding bytes_at_nth
  proof (intro allI impI)
    fix i assume i: "i < length (rev ?cs @ [0])"
    show "?m (p + of_nat i) = (rev ?cs @ [0]) ! i"
      using sp(2) i ds(5) by (cases "i = ?n") (auto simp: bytes_at_nth nth_append)
  qed
  moreover have "0 \<notin> set (rev ?cs)"
  proof
    assume "0 \<in> set (rev ?cs)"
    then obtain d where "d \<in> set ds" "CHARSET ! nat d = 0" by auto
    then show False using CHARSET_nonzero [of "nat d"] ds(3) r by force
  qed
  ultimately have "cstr_at ?m p (map (\<lambda>d. CHARSET ! nat d) (rev ds))"
    by (simp add: cstr_at_def rev_map)
  moreover have "?m a = m a" if a: "\<forall>k<32. a \<noteq> p + of_nat k" for a
  proof -
    have "a \<noteq> p + of_nat ?n" using a [rule_format, of ?n] ds(5) by simp
    moreover have "m' a = m a" by (rule sp(3)) (intro allI impI, rule a [rule_format], use ds(5) in simp)
    ultimately show ?thesis by simp
  qed
  ultimately show ?thesis using ds e sp(1) by blast
qed

section \<open>Properties\<close>

text \<open>\<open>kstrlen\<close> of a C string is the number of its characters.\<close>

theorem kstrlen_correct:
  assumes "cstr_at m s xs"
  shows "kstrlen m s = Some (of_nat (length xs))"
  using kstrlen_loop_cstr [OF assms, of 0] by (simp add: kstrlen_def)

theorem kstrlen_correct_witness:
  "kstrlen ((\<lambda>_. 0)(4294967295 := 65, 0 := 66)) 4294967295 = Some 2"
  using kstrlen_correct [of "(\<lambda>_. 0)(4294967295 := 65, 0 := 66)" 4294967295 "[65, 66]"] by simp

text \<open>\<open>kstrcmp\<close> on two C strings returns, and its result is 0 exactly when the strings are
  equal and negative exactly when the first comes first in the lexicographic order of signed
  characters, a proper prefix being continued by its zero byte.\<close>

theorem kstrcmp_order:
  assumes "cstr_at m s1 xs" and "cstr_at m s2 ys"
  shows "\<exists>r. kstrcmp m s1 s2 = Some r \<and> (r = 0 \<longleftrightarrow> xs = ys) \<and>
    (r < 0 \<longleftrightarrow> (xs @ [0], ys @ [0]) \<in> lexord {(a, b). sint a < sint b})"
  using assms by (rule kstrcmp_cstr)

theorem kstrcmp_order_witness:
  "\<exists>r. kstrcmp ((\<lambda>_. 0)(0 := 65, 8 := 65, 9 := 66)) 0 8 = Some r \<and> r < 0"
proof -
  let ?m = "(\<lambda>_. 0)(0 := 65, 8 := 65, 9 := 66) :: mem"
  have "cstr_at ?m 0 [65]" "cstr_at ?m 8 [65, 66]" by simp_all
  from kstrcmp_order [OF this] show ?thesis by auto
qed

text \<open>\<open>kstrcpy\<close> returns and leaves a copy of the string at \<open>dest\<close>, and changes no other byte,
  whenever \<open>dest\<close> is not inside the source string.\<close>

theorem kstrcpy_copies:
  assumes s: "cstr_at m src xs" and far: "length xs < unat (dest - src)"
  shows "\<exists>m'. kstrcpy m dest src = Some (m', dest) \<and> cstr_at m' dest xs \<and>
    (\<forall>a. (\<forall>k\<le>length xs. a \<noteq> dest + of_nat k) \<longrightarrow> m' a = m a)"
proof -
  let ?n = "Suc (length xs)"
  let ?m = "kmemcpy_loop m dest src 0 ?n"
  have n: "?n < 4294967296" using far unat_lt_u32 [of "dest - src"] by simp
  have "?m (dest + of_nat k) = m (src + of_nat k)" if "k < ?n" for k
    using kmemcpy_loop_copies [OF n _ that, of dest src m 0] far by simp
  then have "cstr_at ?m dest xs"
    using s unfolding cstr_at_def bytes_at_nth by simp
  moreover have "?m a = m a" if "\<forall>k\<le>length xs. a \<noteq> dest + of_nat k" for a
    by (rule kmemcpy_loop_frame) (use that in auto)
  ultimately show ?thesis
    using kstrcpy_loop_eq [OF s far] by (auto simp: kstrcpy_def)
qed

theorem kstrcpy_copies_witness:
  "\<exists>m'. kstrcpy ((\<lambda>_. 7)(0 := 65, 1 := 66, 2 := 0)) 16 0 = Some (m', 16) \<and> cstr_at m' 16 [65, 66]"
proof -
  let ?m = "(\<lambda>_. 7)(0 := 65, 1 := 66, 2 := 0) :: mem"
  have "cstr_at ?m 0 [65, 66]" "length [65 :: u8, 66] < unat ((16 :: u32) - 0)" by simp_all
  from kstrcpy_copies [OF this] show ?thesis by blast
qed

text \<open>\<open>kmemcpy\<close> copies correctly, byte for byte and touching nothing else, as long as \<open>dest\<close> is
  the source itself or does not lie inside it; overlap with \<open>dest\<close> below \<open>src\<close> is allowed.\<close>

theorem kmemcpy_copies:
  assumes "dest = src \<or> unat bytes \<le> unat (dest - src)"
  shows "(\<forall>k < unat bytes. fst (kmemcpy m dest src bytes) (dest + of_nat k) = m (src + of_nat k)) \<and>
    (\<forall>a. (\<forall>k < unat bytes. a \<noteq> dest + of_nat k) \<longrightarrow> fst (kmemcpy m dest src bytes) a = m a)"
  using kmemcpy_loop_copies [of "unat bytes" dest src _ m 0] assms unat_lt_u32 [of bytes]
    kmemcpy_loop_frame [of "unat bytes" _ dest 0 m src]
  by (simp add: kmemcpy_def)

theorem kmemcpy_copies_witness:
  "fst (kmemcpy ((\<lambda>_. 0)(2 := 65, 3 := 66)) 1 2 2) 2 = 66"
proof -
  have "(1 - 2 :: u32) = 4294967295" by simp
  then have "(1 :: u32) = 2 \<or> unat (2 :: u32) \<le> unat (1 - 2 :: u32)" by (simp only:) simp
  from kmemcpy_copies [OF this, of "(\<lambda>_. 0)(2 := 65, 3 := 66)"]
  have "\<forall>k<2. fst (kmemcpy ((\<lambda>_. 0)(2 := 65, 3 := 66)) 1 2 2) (1 + of_nat k) =
      ((\<lambda>_. 0)(2 := 65, 3 := 66) :: mem) (2 + of_nat k)" by simp
  from this [rule_format, of 1] show ?thesis by simp
qed

text \<open>\<open>kmemmove\<close> is \<open>kmemcpy\<close> (its temporary array is never read), and there is an overlapping
  move for which it does not deliver the original source bytes, which its documentation promises.\<close>

theorem kmemmove_is_kmemcpy:
  "kmemmove m dest src bytes = kmemcpy m dest src bytes \<and>
   (\<exists>m dest src bytes k. k < unat bytes \<and>
      fst (kmemmove m dest src bytes) (dest + of_nat k) \<noteq> m (src + of_nat k))"
proof
  show "kmemmove m dest src bytes = kmemcpy m dest src bytes"
    by (simp add: kmemmove_def kmemcpy_def kmemmove_store_eq)
  have "fst (kmemmove ((\<lambda>_. 0)(0 := 65, 1 := 66)) 1 0 2) (1 + of_nat 1) \<noteq>
      ((\<lambda>_. 0)(0 := 65, 1 := 66) :: mem) (0 + of_nat 1)"
    by code_simp
  moreover have "1 < unat (2 :: u32)" by simp
  ultimately show "\<exists>m dest src bytes k. k < unat bytes \<and>
      fst (kmemmove m dest src bytes) (dest + of_nat k) \<noteq> m (src + of_nat k)" by blast
qed

text \<open>\<open>kmemcmp\<close> is 0 on equal regions; on regions whose first difference is at \<open>k\<close> its result is
  the difference of the bytes at \<open>k + 1\<close>, one past the difference.\<close>

theorem kmemcmp_result:
  "((\<forall>k < unat bytes. m (a + of_nat k) = m (b + of_nat k)) \<longrightarrow> kmemcmp m a b bytes = 0) \<and>
   (\<forall>k < unat bytes. (\<forall>j<k. m (a + of_nat j) = m (b + of_nat j)) \<and> m (a + of_nat k) \<noteq> m (b + of_nat k) \<longrightarrow>
      kmemcmp m a b bytes = sint (m (a + of_nat (Suc k))) - sint (m (b + of_nat (Suc k))))"
  unfolding kmemcmp_def by (blast intro: kmemcmp_loop_equal kmemcmp_loop_differ)

theorem kmemcmp_result_witness:
  "kmemcmp ((\<lambda>_. 0)(0 := 65, 1 := 67, 8 := 66, 9 := 67)) 0 8 2 = 0"
proof -
  let ?m = "(\<lambda>_. 0)(0 := 65, 1 := 67, 8 := 66, 9 := 67) :: mem"
  show ?thesis
    using kmemcmp_result [of 2 ?m 0 8, THEN conjunct2, rule_format, of 0] by simp
qed

text \<open>for every \<open>int\<close> but the least one, \<open>kitoa\<close> in radix 10 returns and \<open>katoi\<close> reads the number
  back from the buffer.\<close>

theorem kitoa_katoi_roundtrip:
  assumes v: "INT_MIN < v" "v \<le> INT_MAX"
  shows "\<exists>m'. kitoa m v buf 10 = Some (m', buf) \<and> katoi m' buf = Some v"
proof (cases "v = 0")
  case True
  have "buf + 1 \<noteq> buf" using offset_neq [of 1 buf] by simp
  then show ?thesis using True
    by (simp add: kitoa_def katoi_def katoi_loop.simps to_int_def int_ok_def INT_MIN_def INT_MAX_def)
next
  case False
  define m1 where "m1 = (if v < 0 then m(buf := 45) else m)"
  define p where "p = (if v < 0 then buf + 1 else buf)"
  have u: "0 < \<bar>v\<bar>" "\<bar>v\<bar> \<le> INT_MAX" using v False by (auto simp: INT_MIN_def INT_MAX_def)
  obtain ds m' where w: "kitoa_digits \<bar>v\<bar> 10 [] = Some (map (\<lambda>d. CHARSET ! nat d) ds)" "ds \<noteq> []"
    "\<forall>d \<in> set ds. 0 \<le> d \<and> d < 10" "foldr (\<lambda>d a. d + 10 * a) ds 0 = \<bar>v\<bar>"
    "kitoa_emit m1 p (map (\<lambda>d. CHARSET ! nat d) ds) (length ds) = (m', p + of_nat (length ds))"
    "cstr_at (m'(p + of_nat (length ds) := 0)) p (map (\<lambda>d. CHARSET ! nat d) (rev ds))"
    "\<forall>a. (\<forall>k<32. a \<noteq> p + of_nat k) \<longrightarrow> (m'(p + of_nat (length ds) := 0)) a = m1 a"
    using kitoa_writes [OF u, of 10 m1 p] by auto
  let ?m = "m'(p + of_nat (length ds) := 0)"
  have k: "kitoa m v buf 10 = Some (?m, buf)"
    using w u v by (auto simp: kitoa_def m1_def p_def to_int_def int_ok_def INT_MIN_def)
  have fl: "foldl (\<lambda>a d. a * 10 + d) 0 (rev ds) = \<bar>v\<bar>" using w(4) by (simp only: horner_rev)
  have l: "katoi_loop ?m p 0 = Some \<bar>v\<bar>"
    using katoi_loop_digits [of ?m p "rev ds" 0] w(3,6) u fl by (simp add: cstr_at_def)
  obtain d es where ds: "rev ds = d # es" using w(2) by (cases "rev ds") auto
  then have "d \<in> set ds" by (metis list.set_intros(1) set_rev)
  with w(3) have d: "0 \<le> d" "nat d < 10" by auto
  have "?m p = CHARSET ! nat d" using w(6) ds by simp
  with d have "sint (?m p) = 48 + d" using CHARSET_digit [of "nat d"] by simp
  then have np: "?m p \<noteq> 45" "?m p \<noteq> 43" using d by auto
  have sg: "v < 0 \<Longrightarrow> ?m buf = 45"
  proof -
    assume "v < 0"
    have "buf \<noteq> p + of_nat k" if "k < 32" for k
      using offset_neq [of "Suc k" buf] that \<open>v < 0\<close> by (simp add: p_def ac_simps)
    then have "?m buf = m1 buf" using w(7) by blast
    then show ?thesis using \<open>v < 0\<close> by (simp add: m1_def)
  qed
  have fac: "sint (word_of_int \<bar>v\<bar> * (if v < 0 then - 1 else 1) :: u32) = v"
    using v by (auto simp: sint_word_of_int_u32 simp flip: wi_hom_neg)
  have "katoi ?m buf = Some v"
    using sg l np fac by (cases "v < 0") (auto simp: katoi_def p_def Let_def)
  with k show ?thesis by blast
qed

theorem kitoa_katoi_roundtrip_witness:
  "\<exists>m'. kitoa (\<lambda>_. 0) (- 2147483647) 4096 10 = Some (m', 4096) \<and> katoi m' 4096 = Some (- 2147483647)"
  by (rule kitoa_katoi_roundtrip) (simp_all add: INT_MIN_def INT_MAX_def)

end
