(* ===== verification/Printf.thy ===== *)
theory Printf
  imports CString Complex_Main
begin

text \<open>
  Formatted output, \<open>src/lib/src/printf.c\<close>. Characters go to an output function together with the index at
  which they are written and the size of the buffer; the state that the output function keeps, for
  \<open>snprintf_\<close> the memory with the buffer, is threaded through with the index. The format is the list of its
  characters before the closing NUL; the arguments of a call are the words on its stack, of which a
  \<open>long long\<close> and a \<open>double\<close> take two; the strings that \<open>%s\<close> prints are read from a memory that the output
  does not change. The conversion buffers of 32 bytes are kept as the list of the characters stored so far;
  storing beyond 32 is undefined.
\<close>

section \<open>Flags\<close>

definition FLAGS_ZEROPAD :: u32 where "FLAGS_ZEROPAD = 1"
definition FLAGS_LEFT :: u32 where "FLAGS_LEFT = 2"
definition FLAGS_PLUS :: u32 where "FLAGS_PLUS = 4"
definition FLAGS_SPACE :: u32 where "FLAGS_SPACE = 8"
definition FLAGS_HASH :: u32 where "FLAGS_HASH = 16"
definition FLAGS_UPPERCASE :: u32 where "FLAGS_UPPERCASE = 32"
definition FLAGS_CHAR :: u32 where "FLAGS_CHAR = 64"
definition FLAGS_SHORT :: u32 where "FLAGS_SHORT = 128"
definition FLAGS_LONG :: u32 where "FLAGS_LONG = 256"
definition FLAGS_LONG_LONG :: u32 where "FLAGS_LONG_LONG = 512"
definition FLAGS_PRECISION :: u32 where "FLAGS_PRECISION = 1024"
definition FLAGS_ADAPT_EXP :: u32 where "FLAGS_ADAPT_EXP = 2048"
definition PRINTF_NTOA_BUFFER_SIZE :: nat where "PRINTF_NTOA_BUFFER_SIZE = 32"

abbreviation has :: "u32 \<Rightarrow> u32 \<Rightarrow> bool" where
  "has flags f \<equiv> flags AND f \<noteq> 0"

section \<open>Output functions\<close>

text \<open>A character, its index, and the size of the buffer.\<close>

type_synonym 'b out_fct_type = "u8 \<Rightarrow> u32 \<Rightarrow> u32 \<Rightarrow> 'b \<Rightarrow> 'b"

definition out_buffer :: "u32 \<Rightarrow> mem out_fct_type" where
  "out_buffer buffer character idx maxlen m = (if idx < maxlen then m(buffer + idx := character) else m)"

definition out_null :: "'b out_fct_type" where
  "out_null character idx maxlen b = b"

text \<open>The call that would print the character is commented out.\<close>

definition out_putchar :: "'b out_fct_type" where
  "out_putchar character idx maxlen b = b"

definition out_fct :: "(u8 \<Rightarrow> 'b \<Rightarrow> 'b) \<Rightarrow> 'b out_fct_type" where
  "out_fct fct character idx maxlen b = (if character \<noteq> 0 then fct character b else b)"

text \<open>\<open>out(c, buffer, idx++, maxlen)\<close>.\<close>

definition put :: "'b out_fct_type \<Rightarrow> u32 \<Rightarrow> u8 \<Rightarrow> u32 \<times> 'b \<Rightarrow> u32 \<times> 'b" where
  "put out maxlen c st = (fst st + 1, out c (fst st) maxlen (snd st))"

primrec put_chars :: "'b out_fct_type \<Rightarrow> u32 \<Rightarrow> u8 list \<Rightarrow> u32 \<times> 'b \<Rightarrow> u32 \<times> 'b" where
  "put_chars out maxlen [] st = st"
| "put_chars out maxlen (c # cs) st = put_chars out maxlen cs (put out maxlen c st)"

text \<open>The padding loops: a counter goes up to the width, with one blank each time.\<close>

function pad :: "'b out_fct_type \<Rightarrow> u32 \<Rightarrow> u32 \<Rightarrow> u32 \<Rightarrow> u32 \<times> 'b \<Rightarrow> u32 \<times> 'b" where
  "pad out maxlen i width st = (if i < width then pad out maxlen (i + 1) width (put out maxlen 32 st) else st)"
  by pat_completeness auto
termination
proof (relation "measure (\<lambda>(_, _, i, width, _). unat width - unat i)")
  fix i width :: u32
  assume "i < width"
  then have "unat (i + 1) = unat i + 1" "unat i < unat width"
    using unat_lt_u32 [of width] unat_add_lem [of i 1] by (simp_all add: word_less_nat_alt)
  then show "((out, maxlen, i + 1, width, put out maxlen 32 st), (out, maxlen, i, width, st))
      \<in> measure (\<lambda>(_, _, i, width, _). unat width - unat i)" for out :: "'b out_fct_type" and maxlen st
    by simp
qed simp

declare pad.simps [simp del]

section \<open>Strings and digits of the format\<close>

primrec strnlen_s :: "mem \<Rightarrow> u32 \<Rightarrow> nat \<Rightarrow> u32" where
  "strnlen_s m str 0 = 0"
| "strnlen_s m str (Suc maxsize) = (if m str \<noteq> 0 then strnlen_s m (str + 1) maxsize + 1 else 0)"

definition printf_is_digit :: "u8 \<Rightarrow> bool" where
  "printf_is_digit ch \<longleftrightarrow> sint ch \<ge> 48 \<and> sint ch \<le> 57"

primrec atoi_loop :: "u8 list \<Rightarrow> u32 \<Rightarrow> u32 \<times> u8 list" where
  "atoi_loop [] i = (i, [])"
| "atoi_loop (c # cs) i = (if printf_is_digit c then atoi_loop cs (i * 10 + (ucast c - 48)) else (i, c # cs))"

definition atoi :: "u8 list \<Rightarrow> u32 \<times> u8 list" where
  "atoi str = atoi_loop str 0"

section \<open>Numbers\<close>

text \<open>The loops of \<open>_out_rev\<close>: blanks before, the characters from last to first, blanks behind.\<close>

definition out_rev :: "'b out_fct_type \<Rightarrow> u32 \<Rightarrow> u8 list \<Rightarrow> u32 \<Rightarrow> u32 \<Rightarrow> u32 \<times> 'b \<Rightarrow> u32 \<times> 'b" where
  "out_rev out maxlen buf width flags st =
     (let start_idx = fst st;
          st = (if \<not> has flags FLAGS_LEFT \<and> \<not> has flags FLAGS_ZEROPAD
                then pad out maxlen (of_nat (length buf)) width st else st);
          st = put_chars out maxlen (rev buf) st
      in if has flags FLAGS_LEFT then pad out maxlen (fst st - start_idx) width st else st)"

text \<open>\<open>buf[len++] = c\<close> in a buffer of 32 bytes.\<close>

definition store :: "u8 list \<Rightarrow> u8 \<Rightarrow> u8 list option" where
  "store buf c = do { require (length buf < PRINTF_NTOA_BUFFER_SIZE); Some (buf @ [c]) }"

lemma store_Some: "store buf c = Some buf' \<longleftrightarrow> length buf < 32 \<and> buf' = buf @ [c]"
  by (auto simp: store_def PRINTF_NTOA_BUFFER_SIZE_def require_def)

text \<open>Zeros up to a length, or until the buffer is full.\<close>

function pad_zeros :: "u8 list \<Rightarrow> u32 \<Rightarrow> u8 list option" where
  "pad_zeros buf limit =
     (if length buf < unat limit \<and> length buf < PRINTF_NTOA_BUFFER_SIZE
      then do { buf \<leftarrow> store buf 48; pad_zeros buf limit } else Some buf)"
  by pat_completeness auto
termination
  by (relation "measure (\<lambda>(buf, _). 32 - length buf)") (auto simp: store_Some)

declare pad_zeros.simps [simp del]

definition store_sign :: "u8 list \<Rightarrow> bool \<Rightarrow> u32 \<Rightarrow> u8 list option" where
  "store_sign buf negative flags =
     (if length buf < PRINTF_NTOA_BUFFER_SIZE then
        (if negative then store buf 45
         else if has flags FLAGS_PLUS then store buf 43
         else if has flags FLAGS_SPACE then store buf 32
         else Some buf)
      else Some buf)"

definition store_hash :: "u8 list \<Rightarrow> u32 \<Rightarrow> u32 \<Rightarrow> u32 \<Rightarrow> u32 \<Rightarrow> u8 list option" where
  "store_hash buf base prec width flags = do {
     let buf =
       (if \<not> has flags FLAGS_PRECISION \<and> buf \<noteq> [] \<and> (length buf = unat prec \<or> length buf = unat width) then
          (let buf = butlast buf in if buf \<noteq> [] \<and> base = 16 then butlast buf else buf)
        else buf);
     buf \<leftarrow>
       (if base = 16 \<and> \<not> has flags FLAGS_UPPERCASE \<and> length buf < PRINTF_NTOA_BUFFER_SIZE then store buf 120
        else if base = 16 \<and> has flags FLAGS_UPPERCASE \<and> length buf < PRINTF_NTOA_BUFFER_SIZE then store buf 88
        else if base = 2 \<and> length buf < PRINTF_NTOA_BUFFER_SIZE then store buf 98
        else Some buf);
     if length buf < PRINTF_NTOA_BUFFER_SIZE then store buf 48 else Some buf
   }"

text \<open>What \<open>_ntoa_format\<close> puts into the buffer, and the width that is left; then the output.\<close>

definition ntoa_layout :: "u8 list \<Rightarrow> bool \<Rightarrow> u32 \<Rightarrow> u32 \<Rightarrow> u32 \<Rightarrow> u32 \<Rightarrow> (u8 list \<times> u32) option" where
  "ntoa_layout buf negative base prec width flags = do {
     (buf, width) \<leftarrow>
       (if \<not> has flags FLAGS_LEFT then do {
          let width = (if width \<noteq> 0 \<and> has flags FLAGS_ZEROPAD \<and> (negative \<or> has flags (FLAGS_PLUS OR FLAGS_SPACE))
                       then width - 1 else width);
          buf \<leftarrow> pad_zeros buf prec;
          buf \<leftarrow> (if has flags FLAGS_ZEROPAD then pad_zeros buf width else Some buf);
          Some (buf, width)
        } else Some (buf, width));
     buf \<leftarrow> (if has flags FLAGS_HASH then store_hash buf base prec width flags else Some buf);
     buf \<leftarrow> store_sign buf negative flags;
     Some (buf, width)
   }"

definition ntoa_format ::
    "'b out_fct_type \<Rightarrow> u32 \<Rightarrow> u8 list \<Rightarrow> bool \<Rightarrow> u32 \<Rightarrow> u32 \<Rightarrow> u32 \<Rightarrow> u32 \<Rightarrow> u32 \<times> 'b \<Rightarrow> (u32 \<times> 'b) option" where
  "ntoa_format out maxlen buf negative base prec width flags st = do {
     (buf, width) \<leftarrow> ntoa_layout buf negative base prec width flags;
     Some (out_rev out maxlen buf width flags st)
   }"

text \<open>The digit loop of both widths; the remainder is read as a signed \<open>char\<close>.\<close>

definition ntoa_digit :: "u32 \<Rightarrow> u8 \<Rightarrow> u8" where
  "ntoa_digit flags digit =
     (if sint digit < 10 then 48 + digit else (if has flags FLAGS_UPPERCASE then 65 else 97) + digit - 10)"

function ntoa_digits :: "u32 \<Rightarrow> 'w::len word \<Rightarrow> 'w word \<Rightarrow> u8 list \<Rightarrow> u8 list option" where
  "ntoa_digits flags base value buf = do {
     require (base \<noteq> 0);
     let digit = (ucast (value mod base) :: u8);
     buf \<leftarrow> store buf (ntoa_digit flags digit);
     let value = value div base;
     if value \<noteq> 0 \<and> length buf < PRINTF_NTOA_BUFFER_SIZE then ntoa_digits flags base value buf else Some buf
   }"
  by pat_completeness auto
termination
  by (relation "measure (\<lambda>(_, _, _, buf). 32 - length buf)") (auto simp: store_Some)

declare ntoa_digits.simps [simp del]

definition ntoa_long ::
    "'b out_fct_type \<Rightarrow> u32 \<Rightarrow> u32 \<Rightarrow> bool \<Rightarrow> u32 \<Rightarrow> u32 \<Rightarrow> u32 \<Rightarrow> u32 \<Rightarrow> u32 \<times> 'b \<Rightarrow> (u32 \<times> 'b) option" where
  "ntoa_long out maxlen value negative base prec width flags st = do {
     let flags = (if value = 0 then flags AND NOT FLAGS_HASH else flags);
     buf \<leftarrow> (if \<not> has flags FLAGS_PRECISION \<or> value \<noteq> 0 then ntoa_digits flags base value [] else Some []);
     ntoa_format out maxlen buf negative base prec width flags st
   }"

definition ntoa_long_long ::
    "'b out_fct_type \<Rightarrow> u32 \<Rightarrow> u64 \<Rightarrow> bool \<Rightarrow> u64 \<Rightarrow> u32 \<Rightarrow> u32 \<Rightarrow> u32 \<Rightarrow> u32 \<times> 'b \<Rightarrow> (u32 \<times> 'b) option" where
  "ntoa_long_long out maxlen value negative base prec width flags st = do {
     let flags = (if value = 0 then flags AND NOT FLAGS_HASH else flags);
     buf \<leftarrow> (if \<not> has flags FLAGS_PRECISION \<or> value \<noteq> 0 then ntoa_digits flags base value [] else Some []);
     ntoa_format out maxlen buf negative (ucast base) prec width flags st
   }"

section \<open>Floating point\<close>

text \<open>The arithmetic of \<open>double\<close>, which on this target is that of the x87 with its excess precision, is a
  parameter: the nearest number to a constant, the comparisons, the operations, the conversions from and to
  integers (rounding to zero; there is none for a number without an integer part) and the bits.\<close>

record 'd fp_ops =
  f_lit :: "rat \<Rightarrow> 'd"
  f_max :: 'd
  f_eq :: "'d \<Rightarrow> 'd \<Rightarrow> bool"
  f_less :: "'d \<Rightarrow> 'd \<Rightarrow> bool"
  f_le :: "'d \<Rightarrow> 'd \<Rightarrow> bool"
  f_neg :: "'d \<Rightarrow> 'd"
  f_add :: "'d \<Rightarrow> 'd \<Rightarrow> 'd"
  f_sub :: "'d \<Rightarrow> 'd \<Rightarrow> 'd"
  f_mul :: "'d \<Rightarrow> 'd \<Rightarrow> 'd"
  f_div :: "'d \<Rightarrow> 'd \<Rightarrow> 'd"
  f_of_int :: "int \<Rightarrow> 'd"
  f_to_int :: "'d \<Rightarrow> int option"
  f_bits :: "'d \<Rightarrow> u64"
  f_of_bits :: "u64 \<Rightarrow> 'd"

definition PRINTF_DEFAULT_FLOAT_PRECISION :: u32 where "PRINTF_DEFAULT_FLOAT_PRECISION = 6"
definition PRINTF_MAX_FLOAT :: rat where "PRINTF_MAX_FLOAT = 1000000000"

definition pow10 :: "rat list" where
  "pow10 = [1, 10, 100, 1000, 10000, 100000, 1000000, 10000000, 100000000, 1000000000]"

definition f_to_ulong :: "'d fp_ops \<Rightarrow> 'd \<Rightarrow> u32 option" where
  "f_to_ulong fp x = do { i \<leftarrow> f_to_int fp x; require (0 \<le> i \<and> i < 4294967296); Some (word_of_int i) }"

text \<open>Digits beyond the ninth are zeros, as long as there is room for them.\<close>

function ftoa_limit :: "u8 list \<Rightarrow> u32 \<Rightarrow> (u8 list \<times> u32) option" where
  "ftoa_limit buf prec =
     (if length buf < PRINTF_NTOA_BUFFER_SIZE \<and> prec > 9
      then do { buf \<leftarrow> store buf 48; ftoa_limit buf (prec - 1) } else Some (buf, prec))"
  by pat_completeness auto
termination
  by (relation "measure (\<lambda>(buf, _). 32 - length buf)") (auto simp: store_Some)

function ftoa_frac_digits :: "u8 list \<Rightarrow> u32 \<Rightarrow> u32 \<Rightarrow> (u8 list \<times> u32) option" where
  "ftoa_frac_digits buf fpart count =
     (if length buf < PRINTF_NTOA_BUFFER_SIZE then do {
        let count = count - 1;
        buf \<leftarrow> store buf (48 + ucast (fpart mod 10));
        if fpart div 10 = 0 then Some (buf, count) else ftoa_frac_digits buf (fpart div 10) count
      } else Some (buf, count))"
  by pat_completeness auto
termination
  by (relation "measure (\<lambda>(buf, _). 32 - length buf)") (auto simp: store_Some)

function ftoa_frac_zeros :: "u8 list \<Rightarrow> u32 \<Rightarrow> u8 list option" where
  "ftoa_frac_zeros buf count =
     (if length buf < PRINTF_NTOA_BUFFER_SIZE \<and> count > 0
      then do { buf \<leftarrow> store buf 48; ftoa_frac_zeros buf (count - 1) } else Some buf)"
  by pat_completeness auto
termination
  by (relation "measure (\<lambda>(buf, _). 32 - length buf)") (auto simp: store_Some)

function ftoa_whole_digits :: "u8 list \<Rightarrow> int \<Rightarrow> u8 list option" where
  "ftoa_whole_digits buf whole =
     (if length buf < PRINTF_NTOA_BUFFER_SIZE then do {
        d \<leftarrow> c_mod whole 10;
        buf \<leftarrow> store buf (word_of_int (48 + d));
        whole \<leftarrow> c_div whole 10;
        if whole = 0 then Some buf else ftoa_whole_digits buf whole
      } else Some buf)"
  by pat_completeness auto
termination
  by (relation "measure (\<lambda>(buf, _). 32 - length buf)") (auto simp: store_Some)

declare ftoa_limit.simps [simp del] ftoa_frac_digits.simps [simp del] ftoa_frac_zeros.simps [simp del]
  ftoa_whole_digits.simps [simp del]

text \<open>The whole part and the fraction, rounded.\<close>

definition ftoa_split :: "'d fp_ops \<Rightarrow> 'd \<Rightarrow> u32 \<Rightarrow> (int \<times> u32) option" where
  "ftoa_split fp value prec = do {
     whole \<leftarrow> f_to_int fp value;
     whole \<leftarrow> to_int whole;
     require (unat prec < length pow10);
     let p = f_lit fp (pow10 ! unat prec);
     let tmp = f_mul fp (f_sub fp value (f_of_int fp whole)) p;
     fpart \<leftarrow> f_to_ulong fp tmp;
     let diff = f_sub fp tmp (f_of_int fp (uint fpart));
     if f_less fp (f_lit fp (1/2)) diff then do {
       let fpart = fpart + 1;
       if f_le fp p (f_of_int fp (uint fpart)) then do {
         whole \<leftarrow> to_int (whole + 1);
         Some (whole, 0)
       } else Some (whole, fpart)
     }
     else if f_less fp diff (f_lit fp (1/2)) then Some (whole, fpart)
     else if fpart = 0 \<or> fpart AND 1 \<noteq> 0 then Some (whole, fpart + 1)
     else Some (whole, fpart)
   }"

text \<open>The digits behind the point, with the point; without any, the whole part is rounded.\<close>

definition ftoa_point ::
    "'d fp_ops \<Rightarrow> 'd \<Rightarrow> u32 \<Rightarrow> u8 list \<Rightarrow> int \<Rightarrow> u32 \<Rightarrow> (u8 list \<times> int) option" where
  "ftoa_point fp value prec buf whole fpart =
     (if prec = 0 then
        (let diff = f_sub fp value (f_of_int fp whole)
         in if (\<not> f_less fp diff (f_lit fp (1/2)) \<or> f_less fp (f_lit fp (1/2)) diff) \<and> whole mod 2 \<noteq> 0
            then do { whole \<leftarrow> to_int (whole + 1); Some (buf, whole) } else Some (buf, whole))
      else do {
        (buf, count) \<leftarrow> ftoa_frac_digits buf fpart prec;
        buf \<leftarrow> ftoa_frac_zeros buf count;
        buf \<leftarrow> (if length buf < PRINTF_NTOA_BUFFER_SIZE then store buf 46 else Some buf);
        Some (buf, whole)
      })"

definition ftoa_zeropad :: "u8 list \<Rightarrow> bool \<Rightarrow> u32 \<Rightarrow> u32 \<Rightarrow> (u8 list \<times> u32) option" where
  "ftoa_zeropad buf negative width flags =
     (if \<not> has flags FLAGS_LEFT \<and> has flags FLAGS_ZEROPAD then do {
        let width = (if width \<noteq> 0 \<and> (negative \<or> has flags (FLAGS_PLUS OR FLAGS_SPACE)) then width - 1 else width);
        buf \<leftarrow> pad_zeros buf width;
        Some (buf, width)
      } else Some (buf, width))"

text \<open>The number from the last character to the first, and the width that is left.\<close>

definition ftoa_layout ::
    "'d fp_ops \<Rightarrow> 'd \<Rightarrow> bool \<Rightarrow> u32 \<Rightarrow> u32 \<Rightarrow> u32 \<Rightarrow> (u8 list \<times> u32) option" where
  "ftoa_layout fp value negative prec width flags = do {
     let prec = (if \<not> has flags FLAGS_PRECISION then PRINTF_DEFAULT_FLOAT_PRECISION else prec);
     (buf, prec) \<leftarrow> ftoa_limit [] prec;
     (whole, fpart) \<leftarrow> ftoa_split fp value prec;
     (buf, whole) \<leftarrow> ftoa_point fp value prec buf whole fpart;
     buf \<leftarrow> ftoa_whole_digits buf whole;
     (buf, width) \<leftarrow> ftoa_zeropad buf negative width flags;
     buf \<leftarrow> store_sign buf negative flags;
     Some (buf, width)
   }"

definition fp_special :: "'d fp_ops \<Rightarrow> 'd \<Rightarrow> u32 \<Rightarrow> u8 list option" where
  "fp_special fp value flags =
     (if \<not> f_eq fp value value then Some [110, 97, 110]
      else if f_less fp value (f_neg fp (f_max fp)) then Some [102, 110, 105, 45]
      else if f_less fp (f_max fp) value then
        Some (if has flags FLAGS_PLUS then [102, 110, 105, 43] else [102, 110, 105])
      else None)"

definition fp_large :: "'d fp_ops \<Rightarrow> 'd \<Rightarrow> bool" where
  "fp_large fp value \<longleftrightarrow> f_less fp (f_lit fp PRINTF_MAX_FLOAT) value \<or> f_less fp value (f_neg fp (f_lit fp PRINTF_MAX_FLOAT))"

text \<open>The decimal exponent of a positive number, with the power of ten to divide by.\<close>

definition etoa_exponent :: "'d fp_ops \<Rightarrow> 'd \<Rightarrow> (int \<times> 'd) option" where
  "etoa_exponent fp value = do {
     let u = f_bits fp value;
     let exp2 = int (unat (drop_bit 52 u AND 0x07FF)) - 1023;
     let conv = f_of_bits fp ((u AND (push_bit 52 1 - 1)) OR push_bit 52 1023);
     expval \<leftarrow> f_to_int fp (f_add fp (f_add fp (f_lit fp (1760912590558 / 10000000000000))
       (f_mul fp (f_of_int fp exp2) (f_lit fp (301029995663981 / 1000000000000000))))
       (f_mul fp (f_sub fp conv (f_lit fp (3/2))) (f_lit fp (289529654602168 / 1000000000000000))));
     expval \<leftarrow> to_int expval;
     exp2 \<leftarrow> f_to_int fp (f_add fp (f_mul fp (f_of_int fp expval) (f_lit fp (3321928094887362 / 1000000000000000)))
       (f_lit fp (1/2)));
     exp2 \<leftarrow> to_int exp2;
     let z = f_sub fp (f_mul fp (f_of_int fp expval) (f_lit fp (2302585092994046 / 1000000000000000)))
       (f_mul fp (f_of_int fp exp2) (f_lit fp (6931471805599453 / 10000000000000000)));
     let z2 = f_mul fp z z;
     biased \<leftarrow> to_int (exp2 + 1023);
     let conv = f_of_bits fp (push_bit 52 (word_of_int biased));
     let conv = f_mul fp conv (f_add fp (f_lit fp 1) (f_div fp (f_mul fp (f_lit fp 2) z)
       (f_add fp (f_sub fp (f_lit fp 2) z) (f_div fp z2 (f_add fp (f_lit fp 6)
         (f_div fp z2 (f_add fp (f_lit fp 10) (f_div fp z2 (f_lit fp 14)))))))));
     if f_less fp value conv then do {
       expval \<leftarrow> to_int (expval - 1);
       Some (expval, f_div fp conv (f_lit fp 10))
     } else Some (expval, conv)
   }"

text \<open>The width of the exponent, and the precision, the flags and the exponent as \<open>%g\<close> changes them.\<close>

definition etoa_adapt :: "'d fp_ops \<Rightarrow> 'd \<Rightarrow> u32 \<Rightarrow> u32 \<Rightarrow> int \<Rightarrow> (u32 \<times> u32 \<times> u32 \<times> int) option" where
  "etoa_adapt fp value prec flags expval = do {
     let minwidth = (if expval < 100 \<and> expval > - 100 then 4 else 5);
     if has flags FLAGS_ADAPT_EXP then
       (if f_le fp (f_lit fp (1 / 10000)) value \<and> f_less fp value (f_lit fp 1000000) then do {
          prec \<leftarrow> (if sint prec > expval then do {
                    d \<leftarrow> to_int (sint prec - expval);
                    d \<leftarrow> to_int (d - 1);
                    Some (word_of_int d)
                  } else Some 0);
          Some (0, prec, flags OR FLAGS_PRECISION, 0)
        } else Some (minwidth, if prec > 0 \<and> has flags FLAGS_PRECISION then prec - 1 else prec, flags, expval))
     else Some (minwidth, prec, flags, expval)
   }"

definition etoa_with ::
    "('d \<Rightarrow> u32 \<Rightarrow> u32 \<Rightarrow> u32 \<Rightarrow> u32 \<times> 'b \<Rightarrow> (u32 \<times> 'b) option) \<Rightarrow> 'd fp_ops \<Rightarrow> 'b out_fct_type \<Rightarrow> u32 \<Rightarrow>
     'd \<Rightarrow> u32 \<Rightarrow> u32 \<Rightarrow> u32 \<Rightarrow> u32 \<times> 'b \<Rightarrow> (u32 \<times> 'b) option" where
  "etoa_with ftoa fp out maxlen value prec width flags st =
     (if \<not> f_eq fp value value \<or> f_less fp (f_max fp) value \<or> f_less fp value (f_neg fp (f_max fp))
      then ftoa value prec width flags st
      else do {
        let negative = f_less fp value (f_lit fp 0);
        let value = (if negative then f_neg fp value else value);
        let prec = (if \<not> has flags FLAGS_PRECISION then PRINTF_DEFAULT_FLOAT_PRECISION else prec);
        (expval, conv) \<leftarrow> etoa_exponent fp value;
        (minwidth, prec, flags, expval) \<leftarrow> etoa_adapt fp value prec flags expval;
        let fwidth = (if width > minwidth then width - minwidth else 0);
        let fwidth = (if has flags FLAGS_LEFT \<and> minwidth \<noteq> 0 then 0 else fwidth);
        let value = (if expval \<noteq> 0 then f_div fp value conv else value);
        let start_idx = fst st;
        st \<leftarrow> ftoa (if negative then f_neg fp value else value) prec fwidth (flags AND NOT FLAGS_ADAPT_EXP) st;
        if minwidth \<noteq> 0 then do {
          let st = put out maxlen (if has flags FLAGS_UPPERCASE then 69 else 101) st;
          st \<leftarrow> ntoa_long out maxlen (word_of_int \<bar>expval\<bar>) (expval < 0) 10 0 (minwidth - 1)
                 (FLAGS_ZEROPAD OR FLAGS_PLUS) st;
          Some (if has flags FLAGS_LEFT then pad out maxlen (fst st - start_idx) width st else st)
        } else Some st
      })"

text \<open>\<open>_ftoa\<close> and \<open>_etoa\<close> call each other; the first argument bounds how often. An ordinary number takes one
  level of \<open>_ftoa\<close>; a large one goes to \<open>_etoa\<close>, which divides it by its power of ten before it calls
  \<open>_ftoa\<close> once more.\<close>

primrec ftoa ::
    "nat \<Rightarrow> 'd fp_ops \<Rightarrow> 'b out_fct_type \<Rightarrow> u32 \<Rightarrow> 'd \<Rightarrow> u32 \<Rightarrow> u32 \<Rightarrow> u32 \<Rightarrow> u32 \<times> 'b \<Rightarrow> (u32 \<times> 'b) option" where
  "ftoa 0 fp out maxlen value prec width flags st = None"
| "ftoa (Suc fuel) fp out maxlen value prec width flags st =
     (case fp_special fp value flags of
        Some text \<Rightarrow> Some (out_rev out maxlen text width flags st)
      | None \<Rightarrow>
          if fp_large fp value then etoa_with (ftoa fuel fp out maxlen) fp out maxlen value prec width flags st
          else do {
            let negative = f_less fp value (f_lit fp 0);
            let value = (if negative then f_sub fp (f_lit fp 0) value else value);
            (buf, width) \<leftarrow> ftoa_layout fp value negative prec width flags;
            Some (out_rev out maxlen buf width flags st)
          })"

definition etoa ::
    "nat \<Rightarrow> 'd fp_ops \<Rightarrow> 'b out_fct_type \<Rightarrow> u32 \<Rightarrow> 'd \<Rightarrow> u32 \<Rightarrow> u32 \<Rightarrow> u32 \<Rightarrow> u32 \<times> 'b \<Rightarrow> (u32 \<times> 'b) option" where
  "etoa fuel fp out maxlen = etoa_with (ftoa fuel fp out maxlen) fp out maxlen"

section \<open>Formats\<close>

text \<open>\<open>*format\<close>, and \<open>format++\<close>: going beyond the closing NUL leaves the format.\<close>

definition peek :: "u8 list \<Rightarrow> u8" where
  "peek fmt = (case fmt of [] \<Rightarrow> 0 | c # _ \<Rightarrow> c)"

definition advance :: "u8 list \<Rightarrow> u8 list option" where
  "advance fmt = (case fmt of [] \<Rightarrow> None | _ # cs \<Rightarrow> Some cs)"

text \<open>\<open>va_arg\<close>, of a word and of two.\<close>

definition va_arg :: "u32 list \<Rightarrow> (u32 \<times> u32 list) option" where
  "va_arg va = (case va of [] \<Rightarrow> None | w # ws \<Rightarrow> Some (w, ws))"

definition va_arg64 :: "u32 list \<Rightarrow> (u64 \<times> u32 list) option" where
  "va_arg64 va = do {
     (lo, va) \<leftarrow> va_arg va;
     (hi, va) \<leftarrow> va_arg va;
     Some (ucast lo OR push_bit 32 (ucast hi), va)
   }"

primrec parse_flags :: "u8 list \<Rightarrow> u32 \<Rightarrow> u32 \<times> u8 list" where
  "parse_flags [] flags = (flags, [])"
| "parse_flags (c # fmt) flags =
     (if c = 48 then parse_flags fmt (flags OR FLAGS_ZEROPAD)
      else if c = 45 then parse_flags fmt (flags OR FLAGS_LEFT)
      else if c = 43 then parse_flags fmt (flags OR FLAGS_PLUS)
      else if c = 32 then parse_flags fmt (flags OR FLAGS_SPACE)
      else if c = 35 then parse_flags fmt (flags OR FLAGS_HASH)
      else (flags, c # fmt))"

definition parse_width :: "u32 \<Rightarrow> u8 list \<Rightarrow> u32 list \<Rightarrow> (u32 \<times> u32 \<times> u8 list \<times> u32 list) option" where
  "parse_width flags fmt va =
     (if printf_is_digit (peek fmt) then (let (width, fmt) = atoi fmt in Some (flags, width, fmt, va))
      else if peek fmt = 42 then do {
        (w, va) \<leftarrow> va_arg va;
        fmt \<leftarrow> advance fmt;
        if sint w < 0 then do {
          width \<leftarrow> to_int (- sint w);
          Some (flags OR FLAGS_LEFT, word_of_int width, fmt, va)
        } else Some (flags, w, fmt, va)
      } else Some (flags, 0, fmt, va))"

definition parse_precision :: "u32 \<Rightarrow> u8 list \<Rightarrow> u32 list \<Rightarrow> (u32 \<times> u32 \<times> u8 list \<times> u32 list) option" where
  "parse_precision flags fmt va =
     (if peek fmt = 46 then do {
        let flags = flags OR FLAGS_PRECISION;
        fmt \<leftarrow> advance fmt;
        if printf_is_digit (peek fmt) then (let (precision, fmt) = atoi fmt in Some (flags, precision, fmt, va))
        else if peek fmt = 42 then do {
          (prec, va) \<leftarrow> va_arg va;
          fmt \<leftarrow> advance fmt;
          Some (flags, if sint prec > 0 then prec else 0, fmt, va)
        } else Some (flags, 0, fmt, va)
      } else Some (flags, 0, fmt, va))"

definition parse_length :: "u32 \<Rightarrow> u8 list \<Rightarrow> (u32 \<times> u8 list) option" where
  "parse_length flags fmt =
     (if peek fmt = 108 then do {
        fmt \<leftarrow> advance fmt;
        if peek fmt = 108 then do {
          fmt \<leftarrow> advance fmt;
          Some (flags OR FLAGS_LONG OR FLAGS_LONG_LONG, fmt)
        } else Some (flags OR FLAGS_LONG, fmt)
      }
      else if peek fmt = 104 then do {
        fmt \<leftarrow> advance fmt;
        if peek fmt = 104 then do {
          fmt \<leftarrow> advance fmt;
          Some (flags OR FLAGS_SHORT OR FLAGS_CHAR, fmt)
        } else Some (flags OR FLAGS_SHORT, fmt)
      }
      else if peek fmt = 122 then do {
        fmt \<leftarrow> advance fmt;
        Some (flags OR FLAGS_LONG, fmt)
      }
      else Some (flags, fmt))"

section \<open>Conversions\<close>

definition int_base :: "u8 \<Rightarrow> u32" where
  "int_base c = (if c = 120 \<or> c = 88 then 16 else if c = 111 then 8 else if c = 98 then 2 else 10)"

definition int_flags :: "u8 \<Rightarrow> u32 \<Rightarrow> u32" where
  "int_flags c flags =
     (let flags = (if c \<noteq> 120 \<and> c \<noteq> 88 \<and> c \<noteq> 111 \<and> c \<noteq> 98 then flags AND NOT FLAGS_HASH else flags);
          flags = (if c = 88 then flags OR FLAGS_UPPERCASE else flags);
          flags = (if c \<noteq> 105 \<and> c \<noteq> 100 then flags AND NOT (FLAGS_PLUS OR FLAGS_SPACE) else flags)
      in if has flags FLAGS_PRECISION then flags AND NOT FLAGS_ZEROPAD else flags)"

text \<open>\<open>(value > 0) ? value : 0 - value\<close>, for a signed number of so many bits.\<close>

definition magnitude :: "nat \<Rightarrow> int \<Rightarrow> int option" where
  "magnitude bits value =
     (if value > 0 then Some value else do { require (0 - value < 2 ^ (bits - 1)); Some (0 - value) })"

definition print_signed ::
    "'b out_fct_type \<Rightarrow> u32 \<Rightarrow> u32 \<Rightarrow> u32 \<Rightarrow> u32 \<Rightarrow> u32 \<Rightarrow> u32 list \<Rightarrow> u32 \<times> 'b \<Rightarrow> (u32 list \<times> u32 \<times> 'b) option" where
  "print_signed out maxlen base precision width flags va st =
     (if has flags FLAGS_LONG_LONG then do {
        (w, va) \<leftarrow> va_arg64 va;
        let value = sint w;
        n \<leftarrow> magnitude 64 value;
        st \<leftarrow> ntoa_long_long out maxlen (word_of_int n) (value < 0) (ucast base) precision width flags st;
        Some (va, st)
      }
      else do {
        (w, va) \<leftarrow> va_arg va;
        let value = (if has flags FLAGS_LONG then sint w
                     else if has flags FLAGS_CHAR then sint (ucast w :: u8)
                     else if has flags FLAGS_SHORT then sint (ucast w :: u16)
                     else sint w);
        n \<leftarrow> magnitude 32 value;
        st \<leftarrow> ntoa_long out maxlen (word_of_int n) (value < 0) base precision width flags st;
        Some (va, st)
      })"

text \<open>The conversion of an \<open>unsigned long long\<close> is commented out: nothing is read and nothing is printed.\<close>

definition print_unsigned ::
    "'b out_fct_type \<Rightarrow> u32 \<Rightarrow> u32 \<Rightarrow> u32 \<Rightarrow> u32 \<Rightarrow> u32 \<Rightarrow> u32 list \<Rightarrow> u32 \<times> 'b \<Rightarrow> (u32 list \<times> u32 \<times> 'b) option" where
  "print_unsigned out maxlen base precision width flags va st =
     (if has flags FLAGS_LONG_LONG then Some (va, st)
      else do {
        (w, va) \<leftarrow> va_arg va;
        let value = (if has flags FLAGS_LONG then w
                     else if has flags FLAGS_CHAR then ucast (ucast w :: u8)
                     else if has flags FLAGS_SHORT then ucast (ucast w :: u16)
                     else w);
        st \<leftarrow> ntoa_long out maxlen value False base precision width flags st;
        Some (va, st)
      })"

definition print_char ::
    "'b out_fct_type \<Rightarrow> u32 \<Rightarrow> u32 \<Rightarrow> u32 \<Rightarrow> u32 list \<Rightarrow> u32 \<times> 'b \<Rightarrow> (u32 list \<times> u32 \<times> 'b) option" where
  "print_char out maxlen width flags va st = do {
     let st = (if \<not> has flags FLAGS_LEFT then pad out maxlen 1 width st else st);
     (w, va) \<leftarrow> va_arg va;
     let st = put out maxlen (ucast w) st;
     Some (va, if has flags FLAGS_LEFT then pad out maxlen 1 width st else st)
   }"

partial_function (option) out_string ::
    "'b out_fct_type \<Rightarrow> u32 \<Rightarrow> mem \<Rightarrow> u32 \<Rightarrow> u32 \<Rightarrow> u32 \<Rightarrow> u32 \<times> 'b \<Rightarrow> (u32 \<times> 'b) option" where
  "out_string out maxlen m flags p precision st =
     (if m p \<noteq> 0 \<and> (\<not> has flags FLAGS_PRECISION \<or> precision \<noteq> 0)
      then out_string out maxlen m flags (p + 1) (if has flags FLAGS_PRECISION then precision - 1 else precision)
             (put out maxlen (m p) st)
      else Some st)"

definition print_string ::
    "'b out_fct_type \<Rightarrow> u32 \<Rightarrow> mem \<Rightarrow> u32 \<Rightarrow> u32 \<Rightarrow> u32 \<Rightarrow> u32 list \<Rightarrow> u32 \<times> 'b \<Rightarrow> (u32 list \<times> u32 \<times> 'b) option" where
  "print_string out maxlen m precision width flags va st = do {
     (p, va) \<leftarrow> va_arg va;
     let l = strnlen_s m p (unat (if precision \<noteq> 0 then precision else - 1));
     let l = (if has flags FLAGS_PRECISION then (if l < precision then l else precision) else l);
     let st = (if \<not> has flags FLAGS_LEFT then pad out maxlen l width st else st);
     st \<leftarrow> out_string out maxlen m flags p precision st;
     Some (va, if has flags FLAGS_LEFT then pad out maxlen l width st else st)
   }"

definition print_pointer ::
    "'b out_fct_type \<Rightarrow> u32 \<Rightarrow> u32 \<Rightarrow> u32 \<Rightarrow> u32 list \<Rightarrow> u32 \<times> 'b \<Rightarrow> (u32 list \<times> u32 \<times> 'b) option" where
  "print_pointer out maxlen precision flags va st = do {
     (w, va) \<leftarrow> va_arg va;
     st \<leftarrow> ntoa_long out maxlen w False 16 precision 8 (flags OR FLAGS_ZEROPAD OR FLAGS_UPPERCASE) st;
     Some (va, st)
   }"

definition print_fixed ::
    "nat \<Rightarrow> 'd fp_ops \<Rightarrow> 'b out_fct_type \<Rightarrow> u32 \<Rightarrow> u8 \<Rightarrow> u32 \<Rightarrow> u32 \<Rightarrow> u32 \<Rightarrow> u32 list \<Rightarrow> u32 \<times> 'b \<Rightarrow>
     (u32 list \<times> u32 \<times> 'b) option" where
  "print_fixed fuel fp out maxlen c precision width flags va st = do {
     let flags = (if c = 70 then flags OR FLAGS_UPPERCASE else flags);
     (x, va) \<leftarrow> va_arg64 va;
     st \<leftarrow> ftoa fuel fp out maxlen (f_of_bits fp x) precision width flags st;
     Some (va, st)
   }"

definition print_exp ::
    "nat \<Rightarrow> 'd fp_ops \<Rightarrow> 'b out_fct_type \<Rightarrow> u32 \<Rightarrow> u8 \<Rightarrow> u32 \<Rightarrow> u32 \<Rightarrow> u32 \<Rightarrow> u32 list \<Rightarrow> u32 \<times> 'b \<Rightarrow>
     (u32 list \<times> u32 \<times> 'b) option" where
  "print_exp fuel fp out maxlen c precision width flags va st = do {
     let flags = (if c = 103 \<or> c = 71 then flags OR FLAGS_ADAPT_EXP else flags);
     let flags = (if c = 69 \<or> c = 71 then flags OR FLAGS_UPPERCASE else flags);
     (x, va) \<leftarrow> va_arg64 va;
     st \<leftarrow> etoa fuel fp out maxlen (f_of_bits fp x) precision width flags st;
     Some (va, st)
   }"

definition print_spec ::
    "nat \<Rightarrow> 'd fp_ops \<Rightarrow> mem \<Rightarrow> 'b out_fct_type \<Rightarrow> u32 \<Rightarrow> u8 \<Rightarrow> u32 \<Rightarrow> u32 \<Rightarrow> u32 \<Rightarrow> u32 list \<Rightarrow> u32 \<times> 'b \<Rightarrow>
     (u32 list \<times> u32 \<times> 'b) option" where
  "print_spec fuel fp m out maxlen c precision width flags va st =
     (if c = 100 \<or> c = 105 then
        print_signed out maxlen (int_base c) precision width (int_flags c flags) va st
      else if c = 117 \<or> c = 120 \<or> c = 88 \<or> c = 111 \<or> c = 98 then
        print_unsigned out maxlen (int_base c) precision width (int_flags c flags) va st
      else if c = 102 \<or> c = 70 then print_fixed fuel fp out maxlen c precision width flags va st
      else if c = 101 \<or> c = 69 \<or> c = 103 \<or> c = 71 then print_exp fuel fp out maxlen c precision width flags va st
      else if c = 99 then print_char out maxlen width flags va st
      else if c = 115 then print_string out maxlen m precision width flags va st
      else if c = 112 then print_pointer out maxlen precision flags va st
      else if c = 37 then Some (va, put out maxlen 37 st)
      else Some (va, put out maxlen c st))"

text \<open>From behind the \<open>%\<close> to behind the conversion.\<close>

definition conversion ::
    "nat \<Rightarrow> 'd fp_ops \<Rightarrow> mem \<Rightarrow> 'b out_fct_type \<Rightarrow> u32 \<Rightarrow> u8 list \<Rightarrow> u32 list \<Rightarrow> u32 \<times> 'b \<Rightarrow>
     ((u8 list \<times> u32 list) \<times> u32 \<times> 'b) option" where
  "conversion fuel fp m out maxlen fmt va st = do {
     let (flags, fmt) = parse_flags fmt 0;
     (flags, width, fmt, va) \<leftarrow> parse_width flags fmt va;
     (flags, precision, fmt, va) \<leftarrow> parse_precision flags fmt va;
     (flags, fmt) \<leftarrow> parse_length flags fmt;
     (va, st) \<leftarrow> print_spec fuel fp m out maxlen (peek fmt) precision width flags va st;
     fmt \<leftarrow> advance fmt;
     Some ((fmt, va), st)
   }"

partial_function (option) vsnprintf_loop ::
    "nat \<Rightarrow> 'd fp_ops \<Rightarrow> mem \<Rightarrow> 'b out_fct_type \<Rightarrow> u32 \<Rightarrow> u8 list \<Rightarrow> u32 list \<Rightarrow> u32 \<times> 'b \<Rightarrow> (u32 \<times> 'b) option" where
  "vsnprintf_loop fuel fp m out maxlen fmt va st =
     (case fmt of
        [] \<Rightarrow> Some st
      | c # fmt \<Rightarrow>
          if c \<noteq> 37 then vsnprintf_loop fuel fp m out maxlen fmt va (put out maxlen c st)
          else do {
            ((fmt, va), st) \<leftarrow> conversion fuel fp m out maxlen fmt va st;
            vsnprintf_loop fuel fp m out maxlen fmt va st
          })"

definition vsnprintf ::
    "nat \<Rightarrow> 'd fp_ops \<Rightarrow> mem \<Rightarrow> 'b out_fct_type \<Rightarrow> u32 \<Rightarrow> u8 list \<Rightarrow> u32 list \<Rightarrow> 'b \<Rightarrow> (int \<times> 'b) option" where
  "vsnprintf fuel fp m out maxlen fmt va b = do {
     (idx, b) \<leftarrow> vsnprintf_loop fuel fp m out maxlen fmt va (0, b);
     Some (sint idx, out 0 (if idx < maxlen then idx else maxlen - 1) maxlen b)
   }"

section \<open>Entry points\<close>

text \<open>A null buffer selects the output function that does nothing.\<close>

definition printf where
  "printf fuel fp m fmt va b = vsnprintf fuel fp m out_putchar (- 1) fmt va b"

definition sprintf where
  "sprintf fuel fp m buffer fmt va b =
     vsnprintf fuel fp m (if buffer = 0 then out_null else out_buffer buffer) (- 1) fmt va b"

definition snprintf where
  "snprintf fuel fp m buffer count fmt va b =
     vsnprintf fuel fp m (if buffer = 0 then out_null else out_buffer buffer) count fmt va b"

definition vsnprintf_entry where
  "vsnprintf_entry fuel fp m buffer count fmt va b =
     vsnprintf fuel fp m (if buffer = 0 then out_null else out_buffer buffer) count fmt va b"

definition vprintf where
  "vprintf fuel fp m fmt va b = vsnprintf fuel fp m out_putchar (- 1) fmt va b"

definition fctprintf where
  "fctprintf fuel fp m fct fmt va b = vsnprintf fuel fp m (out_fct fct) (- 1) fmt va b"

end
