(* ===== verification/PrintfText.thy ===== *)
theory PrintfText
  imports Printf
begin

text \<open>
  What the formatted output of \<open>Printf\<close> prints does not depend on where it goes: every operation that prints is
  related to itself with an output function that collects the characters, so that a format with its arguments has
  a text, and \<open>snprintf_\<close> is that text cut to the size of the buffer.
\<close>

section \<open>Printing as text\<close>

text \<open>An output function that collects the characters.\<close>

definition out_list :: "u8 list out_fct_type" where
  "out_list character idx maxlen b = b @ [character]"

lemma put_chars_append: "put_chars out maxlen (cs @ ds) st = put_chars out maxlen ds (put_chars out maxlen cs st)"
  by (induction cs arbitrary: st) simp_all

lemma put_chars_idx: "fst (put_chars out maxlen cs st) = fst st + of_nat (length cs)"
  by (induction cs arbitrary: st) (simp_all add: put_def algebra_simps)

lemma put_chars_list: "put_chars out_list maxlen cs (i, b) = (i + of_nat (length cs), b @ cs)"
  by (induction cs arbitrary: i b) (simp_all add: put_def out_list_def algebra_simps)

lemma pad_text: "pad out maxlen i width st = put_chars out maxlen (replicate (unat width - unat i) 32) st"
proof (induction out maxlen i width st rule: pad.induct)
  case (1 out maxlen i width st)
  show ?case
  proof (cases "i < width")
    case True
    then have "unat (i + 1) = unat i + 1" "unat i < unat width"
      using unat_lt_u32 [of width] unat_add_lem [of i 1] by (simp_all add: word_less_nat_alt)
    then have "unat width - unat i = Suc (unat width - unat (i + 1))" by simp
    then show ?thesis using True 1 by (subst pad.simps) (simp del: replicate_Suc add: replicate_Suc)
  next
    case False
    then show ?thesis by (subst pad.simps) (simp add: word_less_nat_alt)
  qed
qed

text \<open>The operations that print: what they print does not depend on where it goes. \<open>F\<close> prints with some output
  function, \<open>G\<close> does the same into a list; both may return a value besides.\<close>

definition prints ::
    "'b out_fct_type \<Rightarrow> u32 \<Rightarrow> (u32 \<times> 'b \<Rightarrow> ('r \<times> u32 \<times> 'b) option) \<Rightarrow>
     (u32 \<times> u8 list \<Rightarrow> ('r \<times> u32 \<times> u8 list) option) \<Rightarrow> bool" where
  "prints out maxlen F G \<longleftrightarrow> (\<exists>T. F = (\<lambda>st. map_option (\<lambda>(r, cs). (r, put_chars out maxlen cs st)) T) \<and>
     G = (\<lambda>st. map_option (\<lambda>(r, cs). (r, put_chars out_list 0 cs st)) T))"

definition prints0 ::
    "'b out_fct_type \<Rightarrow> u32 \<Rightarrow> (u32 \<times> 'b \<Rightarrow> (u32 \<times> 'b) option) \<Rightarrow>
     (u32 \<times> u8 list \<Rightarrow> (u32 \<times> u8 list) option) \<Rightarrow> bool" where
  "prints0 out maxlen F G \<longleftrightarrow> (\<exists>T. F = (\<lambda>st. map_option (\<lambda>cs. put_chars out maxlen cs st) T) \<and>
     G = (\<lambda>st. map_option (\<lambda>cs. put_chars out_list 0 cs st) T))"

named_theorems prints_rules

lemma prints0_text [prints_rules]: "prints0 out maxlen (\<lambda>st. Some (put_chars out maxlen cs st)) (\<lambda>st. Some (put_chars out_list 0 cs st))"
  unfolding prints0_def by (intro exI [of _ "Some cs"]) simp

lemma prints0_none [prints_rules]: "prints0 out maxlen (\<lambda>st. None) (\<lambda>st. None)"
  unfolding prints0_def by (intro exI [of _ None]) simp

lemma prints_none [prints_rules]: "prints out maxlen (\<lambda>st. None) (\<lambda>st. None)"
  unfolding prints_def by (intro exI [of _ None]) simp

lemma prints0_Some [prints_rules]: "prints0 out maxlen Some Some"
  unfolding prints0_def by (intro exI [of _ "Some []"]) simp

lemma prints_return [prints_rules]: "prints out maxlen (\<lambda>st. Some (r, st)) (\<lambda>st. Some (r, st))"
  unfolding prints_def by (intro exI [of _ "Some (r, [])"]) simp

lemma prints0_put [prints_rules]: "prints0 out maxlen (\<lambda>st. Some (put out maxlen c st)) (\<lambda>st. Some (put out_list 0 c st))"
  using prints0_text [of out maxlen "[c]"] by simp

lemma prints0_pad [prints_rules]:
  "prints0 out maxlen (\<lambda>st. Some (pad out maxlen i w st)) (\<lambda>st. Some (pad out_list 0 i w st))"
  unfolding pad_text by (rule prints0_text)

text \<open>Sequences, with and without a value that the rest depends on.\<close>

lemma prints0_bind:
  assumes "prints0 out maxlen F G" "prints0 out maxlen F' G'"
  shows "prints0 out maxlen (\<lambda>st. F st \<bind> F') (\<lambda>st. G st \<bind> G')"
proof -
  obtain T T' where T: "F = (\<lambda>st. map_option (\<lambda>cs. put_chars out maxlen cs st) T)"
    "G = (\<lambda>st. map_option (\<lambda>cs. put_chars out_list 0 cs st) T)"
    "F' = (\<lambda>st. map_option (\<lambda>cs. put_chars out maxlen cs st) T')"
    "G' = (\<lambda>st. map_option (\<lambda>cs. put_chars out_list 0 cs st) T')"
    using assms unfolding prints0_def by blast
  show ?thesis unfolding prints0_def T
    by (intro exI [of _ "T \<bind> (\<lambda>cs. map_option (\<lambda>ds. cs @ ds) T')"] conjI; cases T; cases T')
      (simp_all add: put_chars_append)
qed

lemma prints0_bind_prints:
  assumes "prints0 out maxlen F G" "prints out maxlen F' G'"
  shows "prints out maxlen (\<lambda>st. F st \<bind> F') (\<lambda>st. G st \<bind> G')"
proof -
  obtain T where T: "F = (\<lambda>st. map_option (\<lambda>cs. put_chars out maxlen cs st) T)"
    "G = (\<lambda>st. map_option (\<lambda>cs. put_chars out_list 0 cs st) T)"
    using assms(1) unfolding prints0_def by blast
  obtain T' where T': "F' = (\<lambda>st. map_option (\<lambda>(r, cs). (r, put_chars out maxlen cs st)) T')"
    "G' = (\<lambda>st. map_option (\<lambda>(r, cs). (r, put_chars out_list 0 cs st)) T')"
    using assms(2) unfolding prints_def by blast
  show ?thesis unfolding prints_def T T'
    by (intro exI [of _ "T \<bind> (\<lambda>cs. map_option (\<lambda>(r, ds). (r, cs @ ds)) T')"] conjI; cases T; cases T')
      (auto simp: put_chars_append)
qed

lemma prints_bind:
  assumes "prints out maxlen F G" "\<And>r. prints out maxlen (F' r) (G' r)"
  shows "prints out maxlen (\<lambda>st. F st \<bind> (\<lambda>(r, st). F' r st)) (\<lambda>st. G st \<bind> (\<lambda>(r, st). G' r st))"
proof -
  obtain T where T: "F = (\<lambda>st. map_option (\<lambda>(r, cs). (r, put_chars out maxlen cs st)) T)"
    "G = (\<lambda>st. map_option (\<lambda>(r, cs). (r, put_chars out_list 0 cs st)) T)"
    using assms(1) unfolding prints_def by blast
  obtain T' where T': "\<And>r. F' r = (\<lambda>st. map_option (\<lambda>(r, cs). (r, put_chars out maxlen cs st)) (T' r))"
    "\<And>r. G' r = (\<lambda>st. map_option (\<lambda>(r, cs). (r, put_chars out_list 0 cs st)) (T' r))"
    using assms(2) unfolding prints_def by metis
  show ?thesis
  proof (cases T)
    case None
    then show ?thesis unfolding prints_def T T' by (intro exI [of _ None]) simp
  next
    case (Some p)
    obtain r cs where p: "p = (r, cs)" by (cases p)
    show ?thesis unfolding prints_def T T' Some p
      by (intro exI [of _ "map_option (\<lambda>(r', ds). (r', cs @ ds)) (T' r)"]; cases "T' r")
        (simp_all add: put_chars_append split_beta)
  qed
qed

lemma prints_bind0:
  assumes "prints out maxlen F G" "\<And>r. prints0 out maxlen (F' r) (G' r)"
  shows "prints0 out maxlen (\<lambda>st. F st \<bind> (\<lambda>(r, st). F' r st)) (\<lambda>st. G st \<bind> (\<lambda>(r, st). G' r st))"
proof -
  obtain T where T: "F = (\<lambda>st. map_option (\<lambda>(r, cs). (r, put_chars out maxlen cs st)) T)"
    "G = (\<lambda>st. map_option (\<lambda>(r, cs). (r, put_chars out_list 0 cs st)) T)"
    using assms(1) unfolding prints_def by blast
  obtain T' where T': "\<And>r. F' r = (\<lambda>st. map_option (\<lambda>cs. put_chars out maxlen cs st) (T' r))"
    "\<And>r. G' r = (\<lambda>st. map_option (\<lambda>cs. put_chars out_list 0 cs st) (T' r))"
    using assms(2) unfolding prints0_def by metis
  show ?thesis
  proof (cases T)
    case None
    then show ?thesis unfolding prints0_def T T' by (intro exI [of _ None]) simp
  next
    case (Some p)
    obtain r cs where p: "p = (r, cs)" by (cases p)
    show ?thesis unfolding prints0_def T T' Some p
      by (intro exI [of _ "map_option (\<lambda>ds. cs @ ds) (T' r)"]; cases "T' r")
        (simp_all add: put_chars_append split_beta)
  qed
qed

text \<open>A part that prints nothing, and a choice.\<close>

lemma prints0_pure_bind:
  "(\<And>x. prints0 out maxlen (F x) (G x)) \<Longrightarrow> prints0 out maxlen (\<lambda>st. a \<bind> (\<lambda>x. F x st)) (\<lambda>st. a \<bind> (\<lambda>x. G x st))"
  by (cases a) (simp_all add: prints0_none)

lemma prints_pure_bind:
  "(\<And>x. prints out maxlen (F x) (G x)) \<Longrightarrow> prints out maxlen (\<lambda>st. a \<bind> (\<lambda>x. F x st)) (\<lambda>st. a \<bind> (\<lambda>x. G x st))"
  by (cases a) (simp_all add: prints_none)

lemma prints0_if:
  "prints0 out maxlen F G \<Longrightarrow> prints0 out maxlen F' G' \<Longrightarrow>
    prints0 out maxlen (\<lambda>st. if c then F st else F' st) (\<lambda>st. if c then G st else G' st)"
  by (cases c) simp_all

lemma prints_if:
  "prints out maxlen F G \<Longrightarrow> prints out maxlen F' G' \<Longrightarrow>
    prints out maxlen (\<lambda>st. if c then F st else F' st) (\<lambda>st. if c then G st else G' st)"
  by (cases c) simp_all

text \<open>A value is put beside what has been printed.\<close>

lemma prints0_prints: "prints0 out maxlen F G \<Longrightarrow> prints out maxlen (\<lambda>st. F st \<bind> (\<lambda>st. Some (r, st))) (\<lambda>st. G st \<bind> (\<lambda>st. Some (r, st)))"
  by (rule prints0_bind_prints [OF _ prints_return])


lemma prints0_case [prints_rules]:
  "(\<And>a b. prints0 out maxlen (F a b) (G a b)) \<Longrightarrow>
    prints0 out maxlen (\<lambda>st. case x of (a, b) \<Rightarrow> F a b st) (\<lambda>st. case x of (a, b) \<Rightarrow> G a b st)"
  by (cases x) simp

lemma prints_case [prints_rules]:
  "(\<And>a b. prints out maxlen (F a b) (G a b)) \<Longrightarrow>
    prints out maxlen (\<lambda>st. case x of (a, b) \<Rightarrow> F a b st) (\<lambda>st. case x of (a, b) \<Rightarrow> G a b st)"
  by (cases x) simp

section \<open>What the conversions print\<close>

definition rev_text :: "u8 list \<Rightarrow> u32 \<Rightarrow> u32 \<Rightarrow> u8 list" where
  "rev_text buf width flags =
     (let blanks = replicate (unat width - unat (of_nat (length buf) :: u32)) 32
      in (if \<not> has flags FLAGS_LEFT \<and> \<not> has flags FLAGS_ZEROPAD then blanks else []) @ rev buf @
         (if has flags FLAGS_LEFT then blanks else []))"

lemma out_rev_text: "out_rev out maxlen buf width flags st = put_chars out maxlen (rev_text buf width flags) st"
  by (simp add: out_rev_def rev_text_def Let_def pad_text put_chars_append put_chars_idx)

lemma prints0_out_rev [prints_rules]:
  "prints0 out maxlen (\<lambda>st. Some (out_rev out maxlen buf width flags st)) (\<lambda>st. Some (out_rev out_list 0 buf width flags st))"
  unfolding out_rev_text by (rule prints0_text)

lemma prints0_ntoa_format [prints_rules]:
  "prints0 out maxlen (ntoa_format out maxlen buf negative base prec width flags)
     (ntoa_format out_list 0 buf negative base prec width flags)"
  unfolding ntoa_format_def by (intro prints0_pure_bind prints_rules)

lemma prints0_ntoa_long [prints_rules]:
  "prints0 out maxlen (ntoa_long out maxlen v negative base prec width flags)
     (ntoa_long out_list 0 v negative base prec width flags)"
  unfolding ntoa_long_def Let_def by (intro prints0_pure_bind prints_rules)

lemma prints0_ntoa_long_long [prints_rules]:
  "prints0 out maxlen (ntoa_long_long out maxlen v negative base prec width flags)
     (ntoa_long_long out_list 0 v negative base prec width flags)"
  unfolding ntoa_long_long_def Let_def by (intro prints0_pure_bind prints_rules)

lemma prints_signed [prints_rules]:
  "prints out maxlen (print_signed out maxlen base precision width flags va)
     (print_signed out_list 0 base precision width flags va)"
  unfolding print_signed_def Let_def
  by (intro prints_if prints_pure_bind prints_case prints0_prints prints0_ntoa_long prints0_ntoa_long_long)

lemma prints_unsigned [prints_rules]:
  "prints out maxlen (print_unsigned out maxlen base precision width flags va)
     (print_unsigned out_list 0 base precision width flags va)"
  unfolding print_unsigned_def Let_def
  by (intro prints_if prints_pure_bind prints_case prints0_prints prints0_ntoa_long prints_return)

lemma prints_pointer [prints_rules]:
  "prints out maxlen (print_pointer out maxlen precision flags va) (print_pointer out_list 0 precision flags va)"
  unfolding print_pointer_def Let_def
  by (intro prints_pure_bind prints_case prints0_prints prints0_ntoa_long)

text \<open>Padding before or behind.\<close>

lemma pad_if: "(if c then pad out maxlen i w st else st) = put_chars out maxlen (if c then replicate (unat w - unat i) 32 else []) st"
  by (simp add: pad_text)

lemma put_text: "put out maxlen c st = put_chars out maxlen [c] st"
  by simp

lemma print_char_text:
  "print_char out maxlen width flags (w # ws) = (\<lambda>st. Some (put_chars out maxlen
    ((if \<not> has flags FLAGS_LEFT then replicate (unat width - 1) 32 else []) @ [ucast w] @
     (if has flags FLAGS_LEFT then replicate (unat width - 1) 32 else [])) st) \<bind> (\<lambda>st. Some (ws, st)))"
  by (simp add: print_char_def va_arg_def Let_def pad_if put_chars_append fun_eq_iff)

lemma print_char_none: "print_char out maxlen width flags [] = (\<lambda>_. None)"
  by (simp add: print_char_def va_arg_def fun_eq_iff)

lemma prints_char [prints_rules]:
  "prints out maxlen (print_char out maxlen width flags va) (print_char out_list 0 width flags va)"
proof (cases va)
  case Nil
  show ?thesis unfolding Nil print_char_none by (rule prints_none)
next
  case (Cons w ws)
  show ?thesis unfolding Cons print_char_text by (rule prints0_prints) (rule prints0_text)
qed

text \<open>The characters that \<open>%s\<close> prints: those before the first that stops the loop.\<close>

definition string_stop :: "mem \<Rightarrow> u32 \<Rightarrow> u32 \<Rightarrow> u32 \<Rightarrow> nat \<Rightarrow> bool" where
  "string_stop m flags p precision n \<longleftrightarrow> m (p + of_nat n) = 0 \<or> has flags FLAGS_PRECISION \<and> n = unat precision"

lemma out_string_stops:
  assumes "string_stop m flags p precision n" "\<And>i. i < n \<Longrightarrow> \<not> string_stop m flags p precision i"
  shows "out_string out maxlen m flags p precision st = Some (put_chars out maxlen (map (\<lambda>i. m (p + of_nat i)) [0..<n]) st)"
  using assms
proof (induction n arbitrary: p precision st)
  case 0
  then show ?case by (subst out_string.simps) (auto simp: string_stop_def unat_eq_0)
next
  case (Suc n)
  let ?q = "if has flags FLAGS_PRECISION then precision - 1 else precision"
  have go: "\<not> string_stop m flags p precision 0" using Suc.prems(2) [of 0] by simp
  then have q: "unat ?q = unat precision - 1 \<and> 0 < unat precision" if "has flags FLAGS_PRECISION"
    using that by (auto simp: string_stop_def unat_minus_one unat_gt_0)
  then have stop: "string_stop m flags (p + 1) ?q i \<longleftrightarrow> string_stop m flags p precision (Suc i)" for i
    by (auto simp: string_stop_def algebra_simps)
  have "out_string out maxlen m flags (p + 1) ?q (put out maxlen (m p) st) =
      Some (put_chars out maxlen (map (\<lambda>i. m (p + 1 + of_nat i)) [0..<n]) (put out maxlen (m p) st))"
    by (rule Suc.IH) (use Suc.prems stop in auto)
  moreover have "map (\<lambda>i. m (p + of_nat i)) [0..<Suc n] = m p # map (\<lambda>i. m (p + 1 + of_nat i)) [0..<n]"
    by (simp add: upt_conv_Cons map_Suc_upt [symmetric] algebra_simps del: upt_Suc)
  ultimately show ?case
    using go by (subst out_string.simps) (auto simp: string_stop_def)
qed

lemma out_string_runs:
  assumes "\<And>i. i < 4294967296 \<Longrightarrow> \<not> string_stop m flags p precision i"
  shows "out_string out maxlen m flags p precision st = None"
proof -
  have nz: "m a \<noteq> 0" for a
    using assms [of "unat (a - p)"] unat_lt_u32 [of "a - p"] by (simp add: string_stop_def)
  moreover have np: "\<not> has flags FLAGS_PRECISION"
    using assms [of "unat precision"] unat_lt_u32 [of precision] by (simp add: string_stop_def)
  have "out_string out maxlen m flags p precision st = Some r \<Longrightarrow> \<not> (\<forall>a. m a \<noteq> 0) \<or> has flags FLAGS_PRECISION" for p precision st r
    by (erule out_string.raw_induct [of "\<lambda>out maxlen m flags p precision st r. \<not> (\<forall>a. m a \<noteq> 0) \<or> has flags FLAGS_PRECISION", rotated])
      (auto split: if_splits)
  with nz np show ?thesis by (cases "out_string out maxlen m flags p precision st") blast+
qed

lemma prints0_string [prints_rules]:
  "prints0 out maxlen (out_string out maxlen m flags p precision) (out_string out_list 0 m flags p precision)"
proof (cases "\<exists>n < 4294967296. string_stop m flags p precision n")
  case True
  define n where "n = (LEAST n. string_stop m flags p precision n)"
  have "string_stop m flags p precision n" "\<And>i. i < n \<Longrightarrow> \<not> string_stop m flags p precision i"
    unfolding n_def using True by (auto intro: LeastI dest: not_less_Least)
  then show ?thesis unfolding prints0_def
    by (intro exI [of _ "Some (map (\<lambda>i. m (p + of_nat i)) [0..<n])"]) (simp add: out_string_stops fun_eq_iff)
next
  case False
  then show ?thesis unfolding prints0_def by (intro exI [of _ None]) (simp add: out_string_runs fun_eq_iff)
qed

text \<open>A step that always returns.\<close>

lemma prints0_let:
  "prints0 out maxlen (\<lambda>st. Some (F st)) (\<lambda>st. Some (G st)) \<Longrightarrow> prints out maxlen F' G' \<Longrightarrow>
    prints out maxlen (\<lambda>st. F' (F st)) (\<lambda>st. G' (G st))"
  using prints0_bind_prints [of out maxlen "\<lambda>st. Some (F st)" "\<lambda>st. Some (G st)" F' G'] by simp

lemma prints0_pad_if:
  "prints0 out maxlen (\<lambda>st. Some (if c then pad out maxlen i w st else st)) (\<lambda>st. Some (if c then pad out_list 0 i w st else st))"
  unfolding pad_if by (rule prints0_text)

lemma prints_string [prints_rules]:
  "prints out maxlen (print_string out maxlen m precision width flags va) (print_string out_list 0 m precision width flags va)"
proof -
  have last: "prints out maxlen (\<lambda>st. Some (va, if c then pad out maxlen i w st else st))
      (\<lambda>st. Some (va, if c then pad out_list 0 i w st else st))" for va :: "u32 list" and c i w
    using prints0_prints [OF prints0_pad_if [of out maxlen c i w], of va] by simp
  show ?thesis unfolding print_string_def Let_def
    by (intro prints_pure_bind prints_case prints0_let [OF prints0_pad_if] prints0_bind_prints prints0_string last)
qed

lemma prints0_etoa_with:
  assumes "\<And>x prec w fl. prints0 out maxlen (F x prec w fl) (G x prec w fl)"
  shows "prints0 out maxlen (etoa_with F fp out maxlen x prec width flags) (etoa_with G fp out_list 0 x prec width flags)"
proof -
  have tail: "prints0 out maxlen
    (\<lambda>st. F x prec w fl st \<bind> (\<lambda>st'. if c then ntoa_long out maxlen v neg 10 0 w' fl' (put out maxlen ch st') \<bind>
        (\<lambda>st''. Some (if d then pad out maxlen (fst st'' - fst st) width st'' else st'')) else Some st'))
    (\<lambda>st. G x prec w fl st \<bind> (\<lambda>st'. if c then ntoa_long out_list 0 v neg 10 0 w' fl' (put out_list 0 ch st') \<bind>
        (\<lambda>st''. Some (if d then pad out_list 0 (fst st'' - fst st) width st'' else st'')) else Some st'))"
    for x prec w fl c v neg w' fl' ch d
  proof -
    obtain T where T: "F x prec w fl = (\<lambda>st. map_option (\<lambda>cs. put_chars out maxlen cs st) T)"
      "G x prec w fl = (\<lambda>st. map_option (\<lambda>cs. put_chars out_list 0 cs st) T)"
      using assms unfolding prints0_def by blast
    obtain N where N: "ntoa_long out maxlen v neg 10 0 w' fl' = (\<lambda>st. map_option (\<lambda>cs. put_chars out maxlen cs st) N)"
      "ntoa_long out_list 0 v neg 10 0 w' fl' = (\<lambda>st. map_option (\<lambda>cs. put_chars out_list 0 cs st) N)"
      using prints0_ntoa_long [of out maxlen v neg 10 0 w' fl'] unfolding prints0_def by blast
    show ?thesis
    proof (cases "T = None \<or> c \<and> N = None")
      case True
      then show ?thesis unfolding T N by (auto intro: prints0_none)
    next
      case False
      then obtain cs ds where "T = Some cs" "c \<Longrightarrow> N = Some ds" by (cases N) auto
      then show ?thesis
        using prints0_text [of out maxlen "cs @ (if c then ch # ds @
            (if d then replicate (unat width - unat (of_nat (length (cs @ ch # ds)) :: u32)) 32 else []) else [])"]
        unfolding T N by (cases c; cases d) (simp_all add: pad_text put_chars_append put_chars_idx put_def algebra_simps)
    qed
  qed
  show ?thesis
    unfolding etoa_with_def Let_def
    by (intro prints0_if assms prints0_pure_bind prints0_case tail)
qed

lemma ftoa_Suc:
  "ftoa (Suc fuel) fp out maxlen x prec width flags = (\<lambda>st. case fp_special fp x flags of
      Some text \<Rightarrow> Some (out_rev out maxlen text width flags st)
    | None \<Rightarrow> if fp_large fp x then etoa_with (ftoa fuel fp out maxlen) fp out maxlen x prec width flags st
       else ftoa_layout fp (if f_less fp x (f_lit fp 0) then f_sub fp (f_lit fp 0) x else x) (f_less fp x (f_lit fp 0)) prec
              width flags \<bind> (\<lambda>(buf, width). Some (out_rev out maxlen buf width flags st)))"
  by (auto simp: Let_def fun_eq_iff split: option.split)

lemma prints0_ftoa [prints_rules]:
  "prints0 out maxlen (ftoa fuel fp out maxlen x prec width flags) (ftoa fuel fp out_list 0 x prec width flags)"
proof (induction fuel arbitrary: x prec width flags)
  case 0
  show ?case unfolding prints0_def by (intro exI [of _ None]) (simp add: fun_eq_iff)
next
  case (Suc fuel)
  show ?case unfolding ftoa_Suc
    by (cases "fp_special fp x flags")
      (simp_all add: prints0_out_rev prints0_if prints0_etoa_with Suc.IH prints0_pure_bind prints0_case)
qed

lemma prints0_etoa [prints_rules]:
  "prints0 out maxlen (etoa fuel fp out maxlen x prec width flags) (etoa fuel fp out_list 0 x prec width flags)"
  unfolding etoa_def by (rule prints0_etoa_with) (rule prints0_ftoa)

lemma prints_fixed: "prints out maxlen (print_fixed fuel fp out maxlen c precision width flags va)
    (print_fixed fuel fp out_list 0 c precision width flags va)"
  unfolding print_fixed_def Let_def by (intro prints_pure_bind prints_case prints0_prints prints0_ftoa)

lemma prints_exp: "prints out maxlen (print_exp fuel fp out maxlen c precision width flags va)
    (print_exp fuel fp out_list 0 c precision width flags va)"
  unfolding print_exp_def Let_def by (intro prints_pure_bind prints_case prints0_prints prints0_etoa)

lemma prints_spec:
  "prints out maxlen (print_spec fuel fp m out maxlen c precision width flags va)
     (print_spec fuel fp m out_list 0 c precision width flags va)"
proof -
  have one: "prints out maxlen (\<lambda>st. Some (va, put out maxlen c st)) (\<lambda>st. Some (va, put out_list 0 c st))" for c
    using prints0_prints [OF prints0_put [of out maxlen c], of va] by simp
  show ?thesis unfolding print_spec_def
    by (intro prints_if prints_signed prints_unsigned prints_fixed prints_exp prints_char prints_string prints_pointer one)
qed

lemma prints_conversion:
  "prints out maxlen (conversion fuel fp m out maxlen fmt va) (conversion fuel fp m out_list 0 fmt va)"
  unfolding conversion_def Let_def
  by (intro prints_case prints_pure_bind prints_bind prints_spec prints_return)

text \<open>A conversion uses up a part of the format.\<close>

lemma parse_flags_length: "length (snd (parse_flags fmt flags)) \<le> length fmt"
  by (induction fmt arbitrary: flags) (auto intro: le_SucI)

lemma atoi_loop_length: "length (snd (atoi_loop fmt i)) \<le> length fmt"
  by (induction fmt arbitrary: i) (auto intro: le_SucI)

lemma advance_length: "advance fmt = Some fmt' \<Longrightarrow> length fmt = Suc (length fmt')"
  by (auto simp: advance_def split: list.splits)

lemma parse_width_length: "parse_width flags fmt va = Some (f, w, fmt', va') \<Longrightarrow> length fmt' \<le> length fmt"
  using atoi_loop_length [of fmt 0]
  by (auto simp: parse_width_def atoi_def split_beta Option.bind_eq_Some_conv dest!: advance_length split: if_splits)

lemma parse_precision_length: "parse_precision flags fmt va = Some (f, w, fmt', va') \<Longrightarrow> length fmt' \<le> length fmt"
  by (auto simp: parse_precision_def atoi_def split_beta Let_def Option.bind_eq_Some_conv split: if_splits
      dest!: advance_length intro: le_SucI [OF atoi_loop_length])

lemma parse_length_length: "parse_length flags fmt = Some (f, fmt') \<Longrightarrow> length fmt' \<le> length fmt"
  by (auto simp: parse_length_def Option.bind_eq_Some_conv split: if_splits dest!: advance_length)

lemma conversion_length:
  "conversion fuel fp m out maxlen fmt va st = Some ((fmt', va'), st') \<Longrightarrow> length fmt' < length fmt"
  using parse_flags_length [of fmt 0]
  by (auto simp: conversion_def split_beta Let_def Option.bind_eq_Some_conv
      dest!: advance_length parse_width_length parse_precision_length parse_length_length)

lemma prints_at:
  assumes "prints out maxlen F G"
  shows "F st = map_option (\<lambda>(r, i, cs). (r, put_chars out maxlen cs st)) (G (0, []))"
proof -
  obtain T where T: "F = (\<lambda>st. map_option (\<lambda>(r, cs). (r, put_chars out maxlen cs st)) T)"
    "G = (\<lambda>st. map_option (\<lambda>(r, cs). (r, put_chars out_list 0 cs st)) T)"
    using assms unfolding prints_def by blast
  show ?thesis unfolding T by (cases T) (auto simp: put_chars_list)
qed

lemma prints0_at:
  assumes "prints0 out maxlen F G"
  shows "F st = map_option (\<lambda>(i, cs). put_chars out maxlen cs st) (G (0, []))"
proof -
  obtain T where T: "F = (\<lambda>st. map_option (\<lambda>cs. put_chars out maxlen cs st) T)"
    "G = (\<lambda>st. map_option (\<lambda>cs. put_chars out_list 0 cs st) T)"
    using assms unfolding prints0_def by blast
  show ?thesis unfolding T by (cases T) (auto simp: put_chars_list)
qed

lemma vsnprintf_loop_Nil: "vsnprintf_loop fuel fp m out maxlen [] va = Some"
  by (rule ext) (subst vsnprintf_loop.simps, simp)

lemma vsnprintf_loop_char:
  "c \<noteq> 37 \<Longrightarrow> vsnprintf_loop fuel fp m out maxlen (c # fmt) va =
    (\<lambda>st. Some (put out maxlen c st) \<bind> vsnprintf_loop fuel fp m out maxlen fmt va)"
  by (rule ext) (subst vsnprintf_loop.simps, simp)

lemma vsnprintf_loop_conv:
  "vsnprintf_loop fuel fp m out maxlen (37 # fmt) va =
    (\<lambda>st. conversion fuel fp m out maxlen fmt va st \<bind>
      (\<lambda>(r, st). (case r of (fmt, va) \<Rightarrow> vsnprintf_loop fuel fp m out maxlen fmt va) st))"
  by (rule ext) (subst vsnprintf_loop.simps, simp add: split_beta)

lemma prints_bind0_some:
  assumes "prints out maxlen F G" "\<And>r st st'. F st = Some (r, st') \<Longrightarrow> prints0 out maxlen (F' r) (G' r)"
  shows "prints0 out maxlen (\<lambda>st. F st \<bind> (\<lambda>(r, st). F' r st)) (\<lambda>st. G st \<bind> (\<lambda>(r, st). G' r st))"
proof -
  obtain T where T: "F = (\<lambda>st. map_option (\<lambda>(r, cs). (r, put_chars out maxlen cs st)) T)"
    "G = (\<lambda>st. map_option (\<lambda>(r, cs). (r, put_chars out_list 0 cs st)) T)"
    using assms(1) unfolding prints_def by blast
  show ?thesis
  proof (cases T)
    case None
    then show ?thesis unfolding T by (simp add: prints0_none)
  next
    case (Some p)
    obtain r cs where p: "p = (r, cs)" by (cases p)
    have "prints0 out maxlen (F' r) (G' r)" by (rule assms(2)) (simp add: T Some p)
    then have "prints0 out maxlen (\<lambda>st. Some (put_chars out maxlen cs st) \<bind> F' r) (\<lambda>st. Some (put_chars out_list 0 cs st) \<bind> G' r)"
      by (rule prints0_bind [OF prints0_text])
    then show ?thesis unfolding T Some p by simp
  qed
qed

lemma prints0_vsnprintf_loop:
  "prints0 out maxlen (vsnprintf_loop fuel fp m out maxlen fmt va) (vsnprintf_loop fuel fp m out_list 0 fmt va)"
proof (induction fmt arbitrary: va rule: length_induct)
  case (1 fmt)
  show ?case
  proof (cases fmt)
    case Nil
    show ?thesis unfolding Nil vsnprintf_loop_Nil by (rule prints0_Some)
  next
    case (Cons c cs)
    show ?thesis
    proof (cases "c = 37")
      case True
      show ?thesis unfolding Cons True vsnprintf_loop_conv
      proof (rule prints_bind0_some [OF prints_conversion])
        fix r st st'
        assume "conversion fuel fp m out maxlen cs va st = Some (r, st')"
        moreover obtain f v where r: "r = (f, v)" by (cases r)
        ultimately have "length f < length fmt" using conversion_length [of fuel fp m out maxlen cs va st f v st'] Cons by simp
        then show "prints0 out maxlen (case r of (fmt, va) \<Rightarrow> vsnprintf_loop fuel fp m out maxlen fmt va)
            (case r of (fmt, va) \<Rightarrow> vsnprintf_loop fuel fp m out_list 0 fmt va)"
          using 1 by (simp add: r)
      qed
    next
      case False
      show ?thesis unfolding Cons vsnprintf_loop_char [OF False]
        by (rule prints0_bind [OF prints0_put]) (use 1 Cons in simp)
    qed
  qed
qed

text \<open>The text of a format with its arguments, or nothing when printing is undefined.\<close>

definition format_text :: "nat \<Rightarrow> 'd fp_ops \<Rightarrow> mem \<Rightarrow> u8 list \<Rightarrow> u32 list \<Rightarrow> u8 list option" where
  "format_text fuel fp m fmt va = map_option snd (vsnprintf_loop fuel fp m out_list 0 fmt va (0, []))"

lemma vsnprintf_loop_text:
  "vsnprintf_loop fuel fp m out maxlen fmt va st =
    map_option (\<lambda>cs. put_chars out maxlen cs st) (format_text fuel fp m fmt va)"
  using prints0_at [OF prints0_vsnprintf_loop [of out maxlen fuel fp m fmt va], of st]
  by (cases "vsnprintf_loop fuel fp m out_list 0 fmt va (0, [])") (auto simp: format_text_def)

text \<open>What \<open>_out_buffer\<close> leaves in memory.\<close>

lemma put_chars_buffer:
  "unat i + length cs < 4294967296 \<Longrightarrow>
    snd (put_chars (out_buffer buffer) maxlen cs (i, b)) (buffer + k) =
      (if i \<le> k \<and> unat k < unat i + length cs \<and> k < maxlen then cs ! (unat k - unat i) else b (buffer + k))"
proof (induction cs arbitrary: i b)
  case (Cons c cs)
  have i: "unat (i + 1) = unat i + 1" using Cons.prems unat_add_lem [of i 1] by simp
  have "snd (put_chars (out_buffer buffer) maxlen cs (i + 1, out_buffer buffer c i maxlen b)) (buffer + k) =
     (if i + 1 \<le> k \<and> unat k < unat (i + 1) + length cs \<and> k < maxlen then cs ! (unat k - unat (i + 1))
      else out_buffer buffer c i maxlen b (buffer + k))"
    by (rule Cons.IH) (use Cons.prems i in simp)
  moreover have "out_buffer buffer c i maxlen b (buffer + k) = (if k = i \<and> i < maxlen then c else b (buffer + k))"
    by (auto simp: out_buffer_def)
  moreover have "i + 1 \<le> k \<longleftrightarrow> i \<le> k \<and> k \<noteq> i" using i by (auto simp: word_le_nat_alt word_unat_eq_iff)
  moreover have "unat i < unat k" if "i \<le> k" "k \<noteq> i" using that by (simp add: word_less_nat_alt [symmetric])
  ultimately show ?case
    using i by (cases "k = i") (auto simp: put_def nth_Cons')
qed (auto simp: word_le_nat_alt)

text \<open>C19: \<open>snprintf_\<close> with a buffer of \<open>count\<close> bytes returns the length of the whole text of the format. In the
  buffer are then the characters of the text that fit, followed by a NUL, and no byte beyond them is written;
  the text does not depend on the buffer nor on its size.\<close>

theorem snprintf_truncates:
  assumes "format_text fuel fp m fmt va = Some cs" "length cs < 2147483648" "buffer \<noteq> 0" "count \<noteq> 0"
  shows "\<exists>b'. snprintf fuel fp m buffer count fmt va b = Some (int (length cs), b') \<and>
    (\<forall>k. b' (buffer + k) =
      (let n = min (length cs) (unat count - 1)
       in if unat k < n then cs ! unat k else if unat k = n then 0 else b (buffer + k)))"
proof -
  let ?b = "snd (put_chars (out_buffer buffer) count cs (0, b))" and ?n = "of_nat (length cs) :: u32"
  let ?b' = "out_buffer buffer 0 (if ?n < count then ?n else count - 1) count ?b"
  have n: "unat ?n = length cs" "sint ?n = int (length cs)"
  proof -
    show u: "unat ?n = length cs" using assms(2) by (intro unat_of_nat_u32) simp
    show "sint ?n = int (length cs)"
      using assms(2) sint_word_of_int_u32 [of "int (length cs)"] by (simp add: INT_MIN_def INT_MAX_def)
  qed
  have "snprintf fuel fp m buffer count fmt va b = Some (int (length cs), ?b')"
    using assms n put_chars_idx [of "out_buffer buffer" count cs "(0, b)"]
    by (simp add: snprintf_def vsnprintf_def vsnprintf_loop_text split_beta)
  moreover have "?b' (buffer + k) = (let n = min (length cs) (unat count - 1)
      in if unat k < n then cs ! unat k else if unat k = n then 0 else b (buffer + k))" for k
  proof -
    have c: "0 < unat count" "unat (count - 1) = unat count - 1" "k < count \<longleftrightarrow> unat k < unat count"
      "?n < count \<longleftrightarrow> length cs < unat count"
      using assms(4) by (simp_all add: unat_gt_0 unat_minus_one word_less_nat_alt n)
    have "?b (buffer + k) = (if unat k < length cs \<and> k < count then cs ! unat k else b (buffer + k))"
      using put_chars_buffer [of 0 cs buffer count b k] assms(2) by simp
    moreover have e: "unat (if ?n < count then ?n else count - 1) = min (length cs) (unat count - 1)"
      using c n by auto
    moreover from e c have "(if ?n < count then ?n else count - 1) < count"
      unfolding word_less_nat_alt by (simp add: n)
    then have "?b' (buffer + k) = (if k = (if ?n < count then ?n else count - 1) then 0 else ?b (buffer + k))"
      unfolding out_buffer_def by (simp only: if_True fun_upd_apply add_left_cancel)
    then have "?b' (buffer + k) = (if unat k = unat (if ?n < count then ?n else count - 1) then 0 else ?b (buffer + k))"
      by (simp only: word_unat_eq_iff)
    ultimately show ?thesis using c by (auto simp: Let_def)
  qed
  ultimately show ?thesis by blast
qed

section \<open>Examples\<close>

text \<open>Exact arithmetic.\<close>

definition exact_ops :: "rat fp_ops" where
  "exact_ops = \<lparr>f_lit = (\<lambda>x. x), f_max = 2 ^ 1024, f_eq = (=), f_less = (<), f_le = (\<le>), f_neg = uminus,
     f_add = (+), f_sub = (-), f_mul = (*), f_div = (/), f_of_int = of_int,
     f_to_int = (\<lambda>x. Some (if x < 0 then - \<lfloor>- x\<rfloor> else \<lfloor>x\<rfloor>)), f_bits = (\<lambda>_. 0), f_of_bits = (\<lambda>_. 0)\<rparr>"

theorem snprintf_truncates_witness:
  "\<exists>b'. snprintf 1 exact_ops (\<lambda>_. 0) 0x1000 3 [52, 50, 33] [] (\<lambda>_. 7) = Some (3, b') \<and>
    b' 0x1000 = 52 \<and> b' 0x1001 = 50 \<and> b' 0x1002 = 0 \<and> b' 0x1003 = 7"
proof -
  have "format_text 1 exact_ops (\<lambda>_. 0) [52, 50, 33] [] = Some [52, 50, 33]"
    by (simp add: format_text_def vsnprintf_loop_char vsnprintf_loop_Nil put_def out_list_def)
  then obtain b' where b': "snprintf 1 exact_ops (\<lambda>_. 0) 0x1000 3 [52, 50, 33] [] (\<lambda>_. 7) = Some (3, b')"
    "\<forall>k. b' (0x1000 + k) = (let n = min (length [52, 50, 33 :: u8]) (unat (3 :: u32) - 1)
       in if unat k < n then [52, 50, 33] ! unat k else if unat k = n then 0 else 7)"
    using snprintf_truncates [where fuel = 1 and fp = exact_ops and m = "\<lambda>_. 0" and fmt = "[52, 50, 33]" and va = "[]"
        and cs = "[52, 50, 33]" and buffer = "0x1000" and count = 3 and b = "\<lambda>_. 7"] by auto
  from b'(2) [rule_format, of 0] b'(2) [rule_format, of 1] b'(2) [rule_format, of 2] b'(2) [rule_format, of 3] b'(1)
  show ?thesis by (intro exI [of _ b']) (simp add: Let_def)
qed

end
