(* ===== verification/PrintfNumbers.thy ===== *)
theory PrintfNumbers
  imports PrintfText
begin

text \<open>
  The numbers that the formatted output of \<open>Printf\<close> prints: the conversion buffer never overflows, decimal numbers
  are printed without loss, and the formats and the precisions for which printing is undefined.
\<close>

section \<open>The conversion buffer\<close>

lemma store_room: "length buf < 32 \<Longrightarrow> store buf c = Some (buf @ [c])"
  by (simp add: store_def PRINTF_NTOA_BUFFER_SIZE_def)

lemma pad_zeros_room: "length buf \<le> 32 \<Longrightarrow> \<exists>buf'. pad_zeros buf n = Some buf' \<and> length buf' \<le> 32"
proof (induction buf n rule: pad_zeros.induct)
  case (1 buf n)
  show ?case
  proof (cases "length buf < unat n \<and> length buf < PRINTF_NTOA_BUFFER_SIZE")
    case True
    then have s: "store buf 48 = Some (buf @ [48])" by (simp add: store_room PRINTF_NTOA_BUFFER_SIZE_def)
    have "\<exists>buf'. pad_zeros (buf @ [48]) n = Some buf' \<and> length buf' \<le> 32"
      by (rule 1(1) [OF True s]) (use True in \<open>simp add: PRINTF_NTOA_BUFFER_SIZE_def\<close>)
    then show ?thesis using True s by (subst pad_zeros.simps) simp
  next
    case False
    then show ?thesis using 1(2) by (subst pad_zeros.simps) auto
  qed
qed

lemma pad_zeros_0: "pad_zeros buf 0 = Some buf"
  by (subst pad_zeros.simps) simp

lemma store_sign_room: "length buf \<le> 32 \<Longrightarrow> \<exists>buf'. store_sign buf negative flags = Some buf' \<and> length buf' \<le> 32"
  by (auto simp: store_sign_def store_room PRINTF_NTOA_BUFFER_SIZE_def)

lemma store_hash_room: "length buf \<le> 32 \<Longrightarrow> \<exists>buf'. store_hash buf base prec width flags = Some buf' \<and> length buf' \<le> 32"
  by (auto simp: store_hash_def store_room PRINTF_NTOA_BUFFER_SIZE_def Let_def le_diff_conv)

lemma ntoa_layout_room:
  assumes "length buf \<le> 32"
  shows "\<exists>buf' w. ntoa_layout buf negative base prec width flags = Some (buf', w) \<and> length buf' \<le> 32"
proof -
  let ?w = "if width \<noteq> 0 \<and> has flags FLAGS_ZEROPAD \<and> (negative \<or> has flags (FLAGS_PLUS OR FLAGS_SPACE)) then width - 1 else width"
  obtain b1 where b1: "pad_zeros buf prec = Some b1" "length b1 \<le> 32" using pad_zeros_room assms by blast
  obtain b2 where b2: "(if has flags FLAGS_ZEROPAD then pad_zeros b1 ?w else Some b1) = Some b2" "length b2 \<le> 32"
    using that pad_zeros_room [OF b1(2), of ?w] b1(2) by (cases "has flags FLAGS_ZEROPAD") auto
  define b3 w where "b3 = (if has flags FLAGS_LEFT then buf else b2)" and "w = (if has flags FLAGS_LEFT then width else ?w)"
  obtain b4 where b4: "(if has flags FLAGS_HASH then store_hash b3 base prec w flags else Some b3) = Some b4" "length b4 \<le> 32"
    using that store_hash_room [of b3 base prec w flags] assms b2(2)
    by (cases "has flags FLAGS_HASH"; cases "has flags FLAGS_LEFT") (auto simp: b3_def)
  obtain b5 where b5: "store_sign b4 negative flags = Some b5" "length b5 \<le> 32" using store_sign_room b4(2) by blast
  have "ntoa_layout buf negative base prec width flags = Some (b5, w)"
    using b1 b2 b4 b5 by (auto simp: ntoa_layout_def Let_def b3_def w_def)
  then show ?thesis using b5(2) by blast
qed

lemma ntoa_digits_room:
  "base \<noteq> 0 \<Longrightarrow> length buf < 32 \<Longrightarrow> \<exists>buf'. ntoa_digits flags base v buf = Some buf' \<and> length buf' \<le> 32"
proof (induction flags base v buf rule: ntoa_digits.induct)
  case (1 flags base v buf)
  let ?b = "buf @ [ntoa_digit flags (ucast (v mod base))]"
  have s: "store buf (ntoa_digit flags (ucast (v mod base))) = Some ?b" using 1 by (simp add: store_room)
  show ?case
  proof (cases "v div base \<noteq> 0 \<and> length ?b < PRINTF_NTOA_BUFFER_SIZE")
    case True
    have "\<exists>buf'. ntoa_digits flags base (v div base) ?b = Some buf' \<and> length buf' \<le> 32"
      by (rule 1(1) [of "()", OF _ refl s refl]) (use True 1 in \<open>auto simp: PRINTF_NTOA_BUFFER_SIZE_def\<close>)
    then show ?thesis using True s 1 by (subst ntoa_digits.simps) (simp add: Let_def)
  next
    case False
    then show ?thesis using s 1 by (subst ntoa_digits.simps) (auto simp: Let_def)
  qed
qed

text \<open>C30: an integer of any size is printed in any base of the formats, with any flags, width and precision,
  without a store beyond the 32 bytes of the buffer: the conversion always returns.\<close>

theorem ntoa_never_overflows:
  assumes "base \<noteq> 0" "base' \<noteq> 0"
  shows "ntoa_long out maxlen v negative base prec width flags st \<noteq> None \<and>
    ntoa_long_long out maxlen v' negative base' prec width flags st \<noteq> None"
proof -
  have f: "ntoa_format out maxlen buf negative b prec width fl st \<noteq> None" if "length buf \<le> 32" for buf b fl
    using ntoa_layout_room [OF that, of negative b prec width fl] by (auto simp: ntoa_format_def)
  show ?thesis
  proof
    let ?fl = "if v = 0 then flags AND NOT FLAGS_HASH else flags"
    obtain buf where "(if \<not> has ?fl FLAGS_PRECISION \<or> v \<noteq> 0 then ntoa_digits ?fl base v [] else Some []) = Some buf"
      "length buf \<le> 32"
      using ntoa_digits_room [OF assms(1), of "[]" ?fl v] by (metis list.size(3) zero_le zero_less_numeral)
    then show "ntoa_long out maxlen v negative base prec width flags st \<noteq> None"
      using f by (simp only: ntoa_long_def Let_def Option.bind.bind_lunit) simp
    let ?fl = "if v' = 0 then flags AND NOT FLAGS_HASH else flags"
    obtain buf where "(if \<not> has ?fl FLAGS_PRECISION \<or> v' \<noteq> 0 then ntoa_digits ?fl base' v' [] else Some []) = Some buf"
      "length buf \<le> 32"
      using ntoa_digits_room [OF assms(2), of "[]" ?fl v'] by (metis list.size(3) zero_le zero_less_numeral)
    then show "ntoa_long_long out maxlen v' negative base' prec width flags st \<noteq> None"
      using f by (simp only: ntoa_long_long_def Let_def Option.bind.bind_lunit) simp
  qed
qed

section \<open>Decimal numbers\<close>

text \<open>The digits of a number, the least significant first.\<close>

fun lsd :: "nat \<Rightarrow> nat list" where
  "lsd n = (n mod 10) # (if n div 10 = 0 then [] else lsd (n div 10))"

declare lsd.simps [simp del]

lemma lsd_value: "foldr (\<lambda>d a. a * 10 + d) (lsd n) 0 = n"
proof (induction n rule: lsd.induct)
  case (1 n)
  then show ?case by (subst lsd.simps) (auto simp: div_eq_0_iff)
qed

lemma lsd_digits: "d \<in> set (lsd n) \<Longrightarrow> d < 10"
proof (induction n rule: lsd.induct)
  case (1 n)
  then show ?case by (subst (asm) (2) lsd.simps) (auto split: if_splits)
qed

lemma lsd_length: "n < 10 ^ k \<Longrightarrow> 0 < k \<Longrightarrow> length (lsd n) \<le> k"
proof (induction k arbitrary: n)
  case (Suc k)
  show ?case
  proof (cases "n div 10 = 0")
    case False
    then have "0 < k" "n div 10 < 10 ^ k" using Suc.prems by (cases k; auto simp: less_mult_imp_div_less)+
    then show ?thesis using Suc.IH [of "n div 10"] False by (subst lsd.simps) simp
  qed (subst lsd.simps, simp)
qed simp

definition digit_char :: "nat \<Rightarrow> u8" where
  "digit_char d = 48 + of_nat d"

lemma digit_char_sint: "d < 10 \<Longrightarrow> sint (digit_char d) = 48 + int d"
proof -
  assume "d < 10"
  then have "d \<in> {0, 1, 2, 3, 4, 5, 6, 7, 8, 9}" by auto
  then show ?thesis by (auto simp: digit_char_def)
qed

lemma ntoa_digit_decimal: "d < 10 \<Longrightarrow> ntoa_digit flags (of_nat d) = digit_char d"
proof -
  assume "d < 10"
  then have "d \<in> {0, 1, 2, 3, 4, 5, 6, 7, 8, 9}" by auto
  then show ?thesis by (auto simp: ntoa_digit_def digit_char_def)
qed

lemma ntoa_digits_decimal:
  assumes "unat v < 10 ^ (32 - length buf)" "length buf < 32" "unat (base :: 'w::len word) = 10"
  shows "ntoa_digits flags base v buf = Some (buf @ map digit_char (lsd (unat v)))"
  using assms
proof (induction flags base v buf rule: ntoa_digits.induct)
  case (1 flags base v buf)
  let ?d = "unat v mod 10" and ?c = "ntoa_digit flags (ucast (v mod base))"
  have m: "unat (v mod base) = ?d" "unat (v div base) = unat v div 10" "base \<noteq> 0"
    using 1(4) by (auto simp: unat_mod_distrib unat_div_distrib)
  have c: "?c = digit_char ?d"
  proof -
    have "(ucast (v mod base) :: u8) = of_nat ?d" by (metis m(1) of_nat_unat)
    then show ?thesis by (simp add: ntoa_digit_decimal)
  qed
  have s: "store buf ?c = Some (buf @ [digit_char ?d])" using 1(3) by (simp add: store_room c)
  show ?case
  proof (cases "unat v div 10 = 0")
    case True
    then show ?thesis using s m by (subst ntoa_digits.simps, subst lsd.simps) (simp add: Let_def word_unat_eq_iff)
  next
    case False
    have "length buf + 1 < 32"
    proof (rule ccontr)
      assume "\<not> length buf + 1 < 32"
      then have "32 - length buf = 1" using 1(3) by simp
      then show False using 1(2) False by simp
    qed
    moreover have "unat v div 10 < 10 ^ (31 - length buf)"
    proof -
      have "32 - length buf = Suc (31 - length buf)" using 1(3) by simp
      then show ?thesis using 1(2) by (simp add: less_mult_imp_div_less)
    qed
    moreover have "v div base \<noteq> 0" using False m(2) by (auto simp: word_unat_eq_iff)
    ultimately have "ntoa_digits flags base (v div base) (buf @ [?c]) =
        Some ((buf @ [?c]) @ map digit_char (lsd (unat (v div base))))"
      using 1(1) [of "()", OF _ refl _ refl] m 1(4) s c by (auto simp: PRINTF_NTOA_BUFFER_SIZE_def)
    then show ?thesis
      using s m c False \<open>length buf + 1 < 32\<close> \<open>v div base \<noteq> 0\<close>
      by (subst ntoa_digits.simps, subst lsd.simps) (simp add: Let_def PRINTF_NTOA_BUFFER_SIZE_def)
  qed
qed

text \<open>Without flags, width and precision.\<close>

lemma ntoa_long_plain:
  "ntoa_long out maxlen v negative 10 0 0 0 st =
    Some (put_chars out maxlen ((if negative then [45] else []) @ map digit_char (rev (lsd (unat v)))) st)"
proof -
  let ?ds = "map digit_char (lsd (unat v))"
  have len: "length ?ds \<le> 10" using lsd_length [of "unat v" 10] unat_lt_u32 [of v] by simp
  have "unat v < 10 ^ 32" using unat_lt_u32 [of v] by simp
  then have "ntoa_digits 0 10 v [] = Some ?ds" by (subst ntoa_digits_decimal) simp_all
  moreover have "ntoa_layout ?ds negative 10 0 0 0 = Some (?ds @ (if negative then [45] else []), 0)"
    using len by (simp add: ntoa_layout_def pad_zeros_0 store_sign_def store_room PRINTF_NTOA_BUFFER_SIZE_def)
  moreover have "(if v = 0 then (0 :: u32) AND NOT FLAGS_HASH else 0) = 0" by simp
  ultimately show ?thesis
    by (simp only: ntoa_long_def Let_def) (simp add: ntoa_format_def out_rev_text rev_text_def rev_map)
qed

lemma conversion_plain:
  "c \<in> {100, 117} \<Longrightarrow> conversion fuel fp m out maxlen [c] va st =
    print_spec fuel fp m out maxlen c 0 0 0 va st \<bind> (\<lambda>(va, st). Some (([], va), st))"
  by (elim insertE emptyE; hypsubst)
    (simp_all add: conversion_def parse_width_def parse_precision_def parse_length_def peek_def advance_def printf_is_digit_def)

lemma format_text_conversion:
  assumes "c \<in> {100, 117}"
  shows "format_text fuel fp m [37, c] [w] =
    map_option (\<lambda>(va, st). snd st) (print_spec fuel fp m out_list 0 c 0 0 0 [w] (0, []))"
  by (cases "print_spec fuel fp m out_list 0 c 0 0 0 [w] (0, [])")
    (auto simp: format_text_def vsnprintf_loop_conv conversion_plain [OF assms] vsnprintf_loop_Nil)

text \<open>C24: \<open>%d\<close> prints the decimal representation of its argument: a minus sign for a negative number, then the
  digits of its magnitude without leading zeros. For the smallest number, whose negation overflows, printing is
  undefined.\<close>

theorem printf_decimal:
  "format_text fuel fp m [37, 100] [w] =
    (if w = 0x80000000 then None
     else Some ((if sint w < 0 then [45] else []) @ map digit_char (rev (lsd (nat \<bar>sint w\<bar>)))))"
proof -
  have min: "sint w = - 2147483648 \<longleftrightarrow> w = 0x80000000"
  proof -
    have "sint (0x80000000 :: u32) = - 2147483648" by simp
    then show ?thesis using sint_inj [of w "0x80000000"] by simp
  qed
  have b: "- 2147483648 \<le> sint w" "sint w < 2147483648" using sint_ge [of w] sint_lt [of w] by simp_all
  have u: "unat (word_of_int \<bar>sint w\<bar> :: u32) = nat \<bar>sint w\<bar>"
    using b by (simp add: unsigned_of_int take_bit_int_eq_self)
  show ?thesis
  proof (cases "w = 0x80000000")
    case True
    then have "magnitude 32 (sint w) = None" by (simp add: magnitude_def require_def)
    then show ?thesis using True
      by (simp add: format_text_conversion print_spec_def print_signed_def int_flags_def va_arg_def Let_def FLAGS_HASH_def
          FLAGS_PRECISION_def)
  next
    case False
    then have "magnitude 32 (sint w) = Some \<bar>sint w\<bar>" using b min by (auto simp: magnitude_def require_def)
    then show ?thesis using False
      by (simp add: format_text_conversion print_spec_def print_signed_def int_flags_def int_base_def va_arg_def Let_def
          ntoa_long_plain put_chars_list u)
  qed
qed

lemma atoi_loop_digits:
  "(\<forall>d \<in> set ds. d < 10) \<Longrightarrow> rest = [] \<or> \<not> printf_is_digit (hd rest) \<Longrightarrow>
    atoi_loop (map digit_char ds @ rest) i = (foldl (\<lambda>a d. a * 10 + of_nat d) i ds, rest)"
proof (induction ds arbitrary: i)
  case Nil
  then show ?case by (cases rest) auto
next
  case (Cons d ds)
  then have "printf_is_digit (digit_char d)" using digit_char_sint [of d] by (simp add: printf_is_digit_def)
  moreover have "ucast (digit_char d) - 48 = (of_nat d :: u32)"
  proof -
    have "d \<in> {0, 1, 2, 3, 4, 5, 6, 7, 8, 9}" using Cons.prems by auto
    then show ?thesis by (auto simp: digit_char_def)
  qed
  ultimately show ?case using Cons by simp
qed

lemma horner_word: "foldl (\<lambda>a d. a * 10 + of_nat d) (of_nat i) ds = (of_nat (foldl (\<lambda>a d. a * 10 + d) i ds) :: u32)"
proof (induction ds arbitrary: i)
  case (Cons d ds)
  show ?case using Cons [of "i * 10 + d"] by simp
qed simp

text \<open>what \<open>%u\<close> prints is read back by \<open>_atoi\<close>, the routine that reads widths and precisions, as the same
  number, up to the first character that is no digit.\<close>

theorem printf_atoi_roundtrip:
  assumes "rest = [] \<or> \<not> printf_is_digit (hd rest)"
  shows "\<exists>cs. format_text fuel fp m [37, 117] [w] = Some cs \<and> length cs \<le> 10 \<and> atoi (cs @ rest) = (w, rest)"
proof -
  let ?cs = "map digit_char (rev (lsd (unat w)))"
  have "format_text fuel fp m [37, 117] [w] = Some ?cs"
    by (simp add: format_text_conversion print_spec_def print_unsigned_def int_flags_def int_base_def va_arg_def Let_def
        ntoa_long_plain put_chars_list)
  moreover have "atoi (?cs @ rest) = (foldl (\<lambda>a d. a * 10 + of_nat d) 0 (rev (lsd (unat w))), rest)"
    unfolding atoi_def using lsd_digits assms by (intro atoi_loop_digits) auto
  moreover have "foldl (\<lambda>a d. a * 10 + of_nat d) 0 (rev (lsd (unat w))) = w"
    using horner_word [of 0 "rev (lsd (unat w))"] lsd_value [of "unat w"] by (simp add: foldl_conv_foldr)
  moreover have "length ?cs \<le> 10" using lsd_length [of "unat w" 10] unat_lt_u32 [of w] by simp
  ultimately show ?thesis by simp
qed

section \<open>Undefined formats\<close>

text \<open>a format that ends inside a conversion, after any text and any flags, is read beyond its closing NUL; the
  behaviour is undefined.\<close>

theorem unfinished_format_undefined:
  assumes "37 \<notin> set cs" "set fl \<subseteq> {48, 45, 43, 32, 35}"
  shows "format_text fuel fp m (cs @ 37 # fl) va = None"
proof -
  have "parse_flags fl f = (fst (parse_flags fl f), [])" for f
    using assms(2) by (induction fl arbitrary: f) auto
  then obtain f where f: "parse_flags fl 0 = (f, [])" by metis
  have "conversion fuel fp m out_list 0 fl va st = None" for st
    by (simp add: conversion_def f parse_width_def parse_precision_def parse_length_def peek_def printf_is_digit_def
        advance_def split: Option.bind_split)
  then have "vsnprintf_loop fuel fp m out_list 0 (37 # fl) va st = None" for st
    by (simp add: vsnprintf_loop_conv)
  then have "vsnprintf_loop fuel fp m out_list 0 (cs @ 37 # fl) va st = None" for st
    using assms(1) by (induction cs arbitrary: st) (auto simp: vsnprintf_loop_char)
  then show ?thesis by (simp add: format_text_def)
qed

text \<open>\<open>%llu\<close> prints nothing and leaves its argument to the conversions that follow.\<close>

theorem unsigned_long_long_skipped:
  "format_text fuel fp m (37 # 108 # 108 # 117 # fmt) va = format_text fuel fp m fmt va"
  by (simp add: format_text_def vsnprintf_loop_conv conversion_def parse_width_def parse_precision_def parse_length_def
      peek_def advance_def printf_is_digit_def Let_def print_spec_def print_unsigned_def int_flags_def FLAGS_LONG_def
      FLAGS_LONG_LONG_def FLAGS_PLUS_def FLAGS_SPACE_def FLAGS_HASH_def FLAGS_PRECISION_def)

section \<open>Floating point precision\<close>

lemma ftoa_limit_ok:
  "length buf \<le> 32 \<Longrightarrow> \<exists>buf'. ftoa_limit buf prec = Some (buf', prec - of_nat (length buf' - length buf)) \<and>
    length buf' = min 32 (length buf + (unat prec - 9)) \<and> length buf \<le> length buf'"
proof (induction buf prec rule: ftoa_limit.induct)
  case (1 buf prec)
  show ?case
  proof (cases "length buf < PRINTF_NTOA_BUFFER_SIZE \<and> prec > 9")
    case True
    then have s: "store buf 48 = Some (buf @ [48])" by (simp add: store_room PRINTF_NTOA_BUFFER_SIZE_def)
    have nine: "9 < unat prec" using True by (simp add: word_less_nat_alt)
    then have "prec \<noteq> 0" by auto
    with nine have p: "unat (prec - 1) = unat prec - 1" "9 < unat prec" using unat_minus_one by blast+
    obtain buf' where b: "ftoa_limit (buf @ [48]) (prec - 1) = Some (buf', prec - 1 - of_nat (length buf' - length (buf @ [48])))"
      "length buf' = min 32 (length (buf @ [48]) + (unat (prec - 1) - 9))" "length (buf @ [48]) \<le> length buf'"
      using 1(1) [OF True s] True by (auto simp: PRINTF_NTOA_BUFFER_SIZE_def)
    have "of_nat (length buf' - length buf) = (of_nat (length buf' - length (buf @ [48])) + 1 :: u32)"
      using b(3) by (simp add: of_nat_diff)
    then show ?thesis using True s b p by (subst ftoa_limit.simps) (auto simp: algebra_simps)
  next
    case False
    then show ?thesis using 1(2)
      by (subst ftoa_limit.simps) (auto simp: PRINTF_NTOA_BUFFER_SIZE_def word_less_nat_alt)
  qed
qed

lemma ftoa_frac_digits_room:
  "length buf \<le> 32 \<Longrightarrow> \<exists>buf' count'. ftoa_frac_digits buf fpart count = Some (buf', count') \<and> length buf' \<le> 32"
proof (induction buf fpart count rule: ftoa_frac_digits.induct)
  case (1 buf fpart count)
  show ?case
  proof (cases "length buf < PRINTF_NTOA_BUFFER_SIZE")
    case True
    then have s: "store buf c = Some (buf @ [c])" "length (buf @ [c]) \<le> 32" for c
      by (simp_all add: store_room PRINTF_NTOA_BUFFER_SIZE_def)
    show ?thesis
    proof (cases "fpart div 10 = 0")
      case True
      then show ?thesis using s by (subst ftoa_frac_digits.simps) (use \<open>length buf < _\<close> in \<open>simp add: Let_def\<close>)
    next
      case False
      then show ?thesis using 1(1) [OF True refl s(1) False s(2)] True s
        by (subst ftoa_frac_digits.simps) (simp add: Let_def)
    qed
  qed (use 1(2) in \<open>subst ftoa_frac_digits.simps, simp\<close>)
qed

lemma ftoa_frac_zeros_room:
  "length buf \<le> 32 \<Longrightarrow> \<exists>buf'. ftoa_frac_zeros buf count = Some buf' \<and> length buf' \<le> 32"
proof (induction buf count rule: ftoa_frac_zeros.induct)
  case (1 buf count)
  show ?case
  proof (cases "length buf < PRINTF_NTOA_BUFFER_SIZE \<and> count > 0")
    case True
    then have s: "store buf 48 = Some (buf @ [48])" "length (buf @ [48]) \<le> 32"
      by (simp_all add: store_room PRINTF_NTOA_BUFFER_SIZE_def)
    then show ?thesis using 1(1) [OF True s] True by (subst ftoa_frac_zeros.simps) simp
  next
    case False
    then show ?thesis using 1(2) by (subst ftoa_frac_zeros.simps) auto
  qed
qed

lemma ftoa_whole_digits_room:
  "length buf \<le> 32 \<Longrightarrow> 0 \<le> whole \<Longrightarrow> whole \<le> INT_MAX \<Longrightarrow>
    \<exists>buf'. ftoa_whole_digits buf whole = Some buf' \<and> length buf' \<le> 32"
proof (induction buf whole rule: ftoa_whole_digits.induct)
  case (1 buf whole)
  have m: "c_mod whole 10 = Some (whole mod 10)" "c_div whole 10 = Some (whole div 10)"
  proof -
    have "c_mod 0 10 = Some 0" "c_div 0 10 = Some 0" by (simp_all add: c_mod_def c_div_def to_int_def int_ok_def INT_MIN_def INT_MAX_def)
    then show "c_mod whole 10 = Some (whole mod 10)" "c_div whole 10 = Some (whole div 10)"
      using 1(3,4) by (cases "whole = 0"; simp add: c_mod_pos c_div_pos)+
  qed
  have q: "0 \<le> whole div 10" "whole div 10 \<le> INT_MAX"
    using 1(3,4) by (simp_all add: INT_MAX_def)
  show ?case
  proof (cases "length buf < PRINTF_NTOA_BUFFER_SIZE")
    case True
    then have s: "store buf c = Some (buf @ [c])" "length (buf @ [c]) \<le> 32" for c
      by (simp_all add: store_room PRINTF_NTOA_BUFFER_SIZE_def)
    show ?thesis
    proof (cases "whole div 10 = 0")
      case False
      then show ?thesis using 1(1) [OF True m(1) s(1) m(2) False s(2) q] True s m
        by (subst ftoa_whole_digits.simps) simp
    qed (use True s m in \<open>subst ftoa_whole_digits.simps, simp\<close>)
  qed (use 1(2) in \<open>subst ftoa_whole_digits.simps, simp\<close>)
qed

lemma ftoa_point_room:
  assumes "length buf \<le> 32" "0 \<le> whole" "whole < INT_MAX"
  shows "\<exists>buf' whole'. ftoa_point fp y prec buf whole fpart = Some (buf', whole') \<and> length buf' \<le> 32 \<and>
    0 \<le> whole' \<and> whole' \<le> INT_MAX"
proof (cases "prec = 0")
  case True
  have "to_int (whole + 1) = Some (whole + 1)" using assms by (simp add: INT_MIN_def INT_MAX_def)
  then show ?thesis using True assms by (simp add: ftoa_point_def Let_def)
next
  case False
  obtain b1 c1 where b1: "ftoa_frac_digits buf fpart prec = Some (b1, c1)" "length b1 \<le> 32"
    using ftoa_frac_digits_room assms(1) by blast
  obtain b2 where b2: "ftoa_frac_zeros b1 c1 = Some b2" "length b2 \<le> 32" using ftoa_frac_zeros_room b1(2) by blast
  then show ?thesis using False b1 assms
    by (cases "length b2 < 32") (simp_all add: ftoa_point_def store_room PRINTF_NTOA_BUFFER_SIZE_def)
qed

lemma ftoa_zeropad_room:
  assumes "length buf \<le> 32"
  shows "\<exists>buf' w. ftoa_zeropad buf negative width flags = Some (buf', w) \<and> length buf' \<le> 32"
proof -
  let ?w = "if width \<noteq> 0 \<and> (negative \<or> has flags (FLAGS_PLUS OR FLAGS_SPACE)) then width - 1 else width"
  obtain b where "pad_zeros buf ?w = Some b" "length b \<le> 32" using pad_zeros_room assms by blast
  then show ?thesis using assms
    by (cases "\<not> has flags FLAGS_LEFT \<and> has flags FLAGS_ZEROPAD") (simp_all only: ftoa_zeropad_def Let_def, simp_all)
qed

lemma ftoa_layout_steps:
  assumes "ftoa_limit [] (if \<not> has flags FLAGS_PRECISION then PRINTF_DEFAULT_FLOAT_PRECISION else prec) = Some (b, q)"
    and "ftoa_split fp y q = Some (whole, fpart)" "ftoa_point fp y q b whole fpart = Some (b4, w4)"
    and "ftoa_whole_digits b4 w4 = Some b5" "ftoa_zeropad b5 negative width flags = Some (b6, w6)"
    and "store_sign b6 negative flags = Some b7"
  shows "ftoa_layout fp y negative prec width flags = Some (b7, w6)"
  unfolding ftoa_layout_def Let_def assms Option.bind.bind_lunit prod.case by (rule refl)

text \<open>With the precision brought down to 9, the conversion stays within the buffer.\<close>

lemma ftoa_layout_room:
  assumes lim: "ftoa_limit [] (if \<not> has flags FLAGS_PRECISION then PRINTF_DEFAULT_FLOAT_PRECISION else prec) = Some (b, q)"
    and sp: "length b \<le> 32" "ftoa_split fp y q = Some (whole, fpart)" "0 \<le> whole" "whole < INT_MAX"
  shows "ftoa_layout fp y negative prec width flags \<noteq> None"
proof -
  obtain b4 w4 where b4: "ftoa_point fp y q b whole fpart = Some (b4, w4)" "length b4 \<le> 32" "0 \<le> w4" "w4 \<le> INT_MAX"
    using ftoa_point_room [OF sp(1,3,4), of fp y q fpart] by auto
  obtain b5 where b5: "ftoa_whole_digits b4 w4 = Some b5" "length b5 \<le> 32" using ftoa_whole_digits_room b4(2-4) by blast
  obtain b6 w6 where b6: "ftoa_zeropad b5 negative width flags = Some (b6, w6)" "length b6 \<le> 32"
    using ftoa_zeropad_room b5(2) by blast
  obtain b7 where b7: "store_sign b6 negative flags = Some b7" using store_sign_room b6(2) by blast
  have "ftoa_layout fp y negative prec width flags = Some (b7, w6)"
    by (rule ftoa_layout_steps [OF lim sp(2) b4(1) b5(1) b6(1) b7])
  then show ?thesis by simp
qed

text \<open>C34: for an ordinary number whose parts fit their integers, the fixed-point conversion is defined up to a precision
  of 41 digits and no further, whatever the arithmetic: the buffer of 32 bytes never overflows, but the loop that
  brings the precision down to 9 stops when the buffer is full, and a precision that is still larger then indexes
  beyond the table of powers of ten.\<close>

theorem ftoa_precision_limit:
  assumes "fp_special fp x flags = None" "\<not> fp_large fp x"
    and "y = (if f_less fp x (f_lit fp 0) then f_sub fp (f_lit fp 0) x else x)"
    and split: "\<And>p. p \<le> 9 \<Longrightarrow> \<exists>whole fpart. ftoa_split fp y p = Some (whole, fpart) \<and> 0 \<le> whole \<and> whole < INT_MAX"
  shows "ftoa (Suc fuel) fp out maxlen x prec width flags st \<noteq> None \<longleftrightarrow> has flags FLAGS_PRECISION \<longrightarrow> prec \<le> 41"
proof -
  let ?p = "if \<not> has flags FLAGS_PRECISION then PRINTF_DEFAULT_FLOAT_PRECISION else prec"
  let ?neg = "f_less fp x (f_lit fp 0)"
  obtain b where lim: "ftoa_limit [] ?p = Some (b, ?p - of_nat (length b))" "length b = min 32 (unat ?p - 9)"
    using ftoa_limit_ok [of "[]" ?p] by auto
  have ftoa: "ftoa (Suc fuel) fp out maxlen x prec width flags st =
      ftoa_layout fp y ?neg prec width flags \<bind> (\<lambda>(buf, width). Some (out_rev out maxlen buf width flags st))"
    using assms by (simp add: ftoa_Suc)
  show ?thesis
  proof (cases "?p \<le> 41")
    case False
    then have p: "42 \<le> unat ?p" "has flags FLAGS_PRECISION" "\<not> prec \<le> 41"
      by (auto simp: word_le_nat_alt PRINTF_DEFAULT_FLOAT_PRECISION_def split: if_splits)
    have "unat (prec - 32) = unat prec - 32" using p by (simp add: unat_sub word_le_nat_alt)
    then have "ftoa_split fp y (prec - 32) = None"
      using p by (cases "f_to_int fp y") (auto simp: ftoa_split_def pow10_def require_def to_int_def)
    moreover have "length b = 32" using lim(2) p by simp
    ultimately have "ftoa_layout fp y ?neg prec width flags = None" using lim(1) p by (simp add: ftoa_layout_def)
    then show ?thesis using p ftoa by simp
  next
    case True
    let ?q = "?p - of_nat (length b)"
    have u: "unat ?p \<le> 41" using True by (simp add: word_le_nat_alt)
    have "unat ?q = unat ?p - length b"
      using lim(2) u unat_of_nat_u32 [of "length b"] by (subst unat_sub) (auto simp: word_le_nat_alt)
    then have "?q \<le> 9" using lim(2) u by (simp add: word_le_nat_alt)
    then obtain whole fpart where sp: "ftoa_split fp y ?q = Some (whole, fpart)" "0 \<le> whole" "whole < INT_MAX"
      using split by blast
    have "length b \<le> 32" using lim(2) by simp
    then have "ftoa_layout fp y ?neg prec width flags \<noteq> None" using ftoa_layout_room [OF lim(1) _ sp] by blast
    moreover have "has flags FLAGS_PRECISION \<longrightarrow> prec \<le> 41" using True by (simp split: if_splits)
    ultimately show ?thesis using ftoa by auto
  qed
qed

section \<open>Examples\<close>

theorem ntoa_never_overflows_witness:
  "ntoa_long out_list 0 0xFFFFFFFF True 2 40 50 (FLAGS_ZEROPAD OR FLAGS_HASH) (0, []) \<noteq> None"
  using ntoa_never_overflows [where base = "2 :: u32" and base' = "10 :: u64" and out = out_list and maxlen = 0
      and v = "0xFFFFFFFF" and negative = True and prec = 40 and width = 50
      and flags = "FLAGS_ZEROPAD OR FLAGS_HASH" and st = "(0, [])" and v' = 0]
  by simp

theorem printf_atoi_roundtrip_witness:
  "\<exists>cs. format_text 1 exact_ops (\<lambda>_. 0) [37, 117] [4000000000] = Some cs \<and> atoi (cs @ [46]) = (4000000000, [46])"
  using printf_atoi_roundtrip [where rest = "[46]" and fuel = 1 and fp = exact_ops and m = "\<lambda>_. 0" and w = 4000000000]
  by (auto simp: printf_is_digit_def)

theorem unfinished_format_undefined_witness:
  "format_text 1 exact_ops (\<lambda>_. 0) [104, 105, 37, 48] [1] = None"
  using unfinished_format_undefined [where cs = "[104, 105]" and fl = "[48]" and fuel = 1 and fp = exact_ops
      and m = "\<lambda>_. 0" and va = "[1]"]
  by simp

theorem ftoa_precision_limit_witness:
  "ftoa (Suc 0) exact_ops out_list 0 1 41 0 FLAGS_PRECISION (0, []) \<noteq> None \<and>
    ftoa (Suc 0) exact_ops out_list 0 1 42 0 FLAGS_PRECISION (0, []) = None"
proof -
  have s: "fp_special exact_ops 1 FLAGS_PRECISION = None"
  proof -
    have "(1 :: rat) \<le> 2 ^ 1024" by (rule one_le_power) simp
    then show ?thesis by (simp add: fp_special_def exact_ops_def)
  qed
  have l: "\<not> fp_large exact_ops 1" by (simp add: fp_large_def exact_ops_def PRINTF_MAX_FLOAT_def)
  have "ftoa_split exact_ops 1 p = Some (1, 0)" if "p \<le> 9" for p
    using that by (simp add: ftoa_split_def f_to_ulong_def exact_ops_def pow10_def word_le_nat_alt Let_def INT_MIN_def INT_MAX_def)
  then have p: "\<exists>whole fpart. ftoa_split exact_ops 1 p = Some (whole, fpart) \<and> 0 \<le> whole \<and> whole < INT_MAX"
    if "p \<le> 9" for p
    using that by (simp add: INT_MAX_def)
  have y: "1 = (if f_less exact_ops 1 (f_lit exact_ops 0) then f_sub exact_ops (f_lit exact_ops 0) 1 else 1)"
    by (simp add: exact_ops_def)
  show ?thesis
    using ftoa_precision_limit [OF s l y p, where fuel = 0 and out = out_list and maxlen = 0 and width = 0
        and st = "(0, [])" and prec = 41]
      ftoa_precision_limit [OF s l y p, where fuel = 0 and out = out_list and maxlen = 0 and width = 0
        and st = "(0, [])" and prec = 42]
    by (simp add: FLAGS_PRECISION_def del: ftoa.simps not_None_eq)
qed

end
