(* ===== verification/Pages.thy ===== *)
theory Pages
  imports Links
begin

text \<open>
  The physical page allocator, \<open>src/kernel/src/mem/page.c\<close> with \<open>src/include/mem/page.h\<close> and
  \<open>src/include/mem/base.h\<close>. A \<open>page_t *\<close> is an index into the array \<open>free_page_list\<close>, \<^const>\<open>None\<close>
  for \<open>NULL\<close>. The free pages form a circle through \<open>prev_free\<close> and \<open>next_free\<close>; pages that hold
  file data also hang in the chains of the hash table \<open>page_cache\<close> through \<open>prev_hash\<close> and
  \<open>next_hash\<close>. The counters of \<open>kstat\<close> that the allocator uses are fields of its state. Saving,
  clearing and restoring the interrupt flag around the list updates has no effect on this state.
\<close>

section \<open>State\<close>

record page =
  pg_num :: int
  pg_usage :: int
  pg_flags :: u32
  pg_inode :: u32
  pg_offset :: u32
  pg_dev :: u16
  pg_data :: u32
  pg_prev_hash :: "nat option"
  pg_next_hash :: "nat option"
  pg_prev_free :: "nat option"
  pg_next_free :: "nat option"

record page_state =
  pages :: "nat \<Rightarrow> page"
  NUM_PAGES :: nat
  page_cache :: "nat \<Rightarrow> nat option"
  NUM_CACHED_PAGES :: nat
  free_head :: "nat option"
  num_free_pages :: int
  min_free_pages :: int
  total_mem_pages :: int
  pages_reclaimed :: int
  page_cache_consumption :: int
  kernel_reserved :: int
  physical_reserved :: int

definition PAGE_SIZE :: u32 where "PAGE_SIZE = 4096"
definition PAGE_SHIFT :: nat where "PAGE_SHIFT = 12"
definition PAGE_MASK :: u32 where "PAGE_MASK = NOT (PAGE_SIZE - 1)"
definition PAGE_BUDDY :: u32 where "PAGE_BUDDY = 16"
definition PAGE_RESERVED :: u32 where "PAGE_RESERVED = 256"
definition KERNEL_PHYSICAL_BASE :: u32 where "KERNEL_PHYSICAL_BASE = 0x100000"
definition KERNEL_PAGE_OFFSET :: u32 where "KERNEL_PAGE_OFFSET = 0xC0000000"
definition NUM_BUFFER_RECLAIM :: int where "NUM_BUFFER_RECLAIM = 250"
definition FREE_PAGES_RATIO :: int where "FREE_PAGES_RATIO = 5"

definition PAGE_ALIGN :: "u32 \<Rightarrow> u32" where
  "PAGE_ALIGN addr = (addr + (PAGE_SIZE - 1)) AND PAGE_MASK"

definition P2V :: "u32 \<Rightarrow> u32" where
  "P2V addr = (if addr < KERNEL_PAGE_OFFSET then addr + KERNEL_PAGE_OFFSET else addr)"

definition V2P :: "u32 \<Rightarrow> u32" where
  "V2P addr = addr - KERNEL_PAGE_OFFSET"

definition page_is_valid :: "int \<Rightarrow> 'a page_state_scheme \<Rightarrow> bool" where
  "page_is_valid n s \<longleftrightarrow> 0 \<le> n \<and> n < int (NUM_PAGES s)"

text \<open>Assignment to fields of one page.\<close>

definition upd_page :: "nat \<Rightarrow> (page \<Rightarrow> page) \<Rightarrow> 'a page_state_scheme \<Rightarrow> 'a page_state_scheme" where
  "upd_page i f s = s\<lparr>pages := (pages s)(i := f (pages s i))\<rparr>"

section \<open>The free list\<close>

definition insert_into_free_list :: "nat \<Rightarrow> 'a page_state_scheme \<Rightarrow> 'a page_state_scheme option" where
  "insert_into_free_list pg s = do {
     s \<leftarrow> (case free_head s of
         None \<Rightarrow>
           Some ((upd_page pg (\<lambda>p. p\<lparr>pg_prev_free := Some pg, pg_next_free := Some pg\<rparr>) s)
             \<lparr>free_head := Some pg\<rparr>)
       | Some h \<Rightarrow> do {
           let s = upd_page pg (\<lambda>p. p\<lparr>pg_next_free := Some h\<rparr>) s;
           let s = upd_page pg (\<lambda>p. p\<lparr>pg_prev_free := pg_prev_free (pages s h)\<rparr>) s;
           t \<leftarrow> pg_prev_free (pages s h);
           let s = upd_page t (\<lambda>p. p\<lparr>pg_next_free := Some pg\<rparr>) s;
           Some (upd_page h (\<lambda>p. p\<lparr>pg_prev_free := Some pg\<rparr>) s)
         });
     Some (s\<lparr>num_free_pages := num_free_pages s + 1\<rparr>)
   }"

definition remove_from_free_list :: "nat \<Rightarrow> 'a page_state_scheme \<Rightarrow> 'a page_state_scheme option" where
  "remove_from_free_list pg s =
     (if num_free_pages s = 0 then Some s
      else do {
        p \<leftarrow> pg_prev_free (pages s pg);
        let s = upd_page p (\<lambda>q. q\<lparr>pg_next_free := pg_next_free (pages s pg)\<rparr>) s;
        n \<leftarrow> pg_next_free (pages s pg);
        let s = upd_page n (\<lambda>q. q\<lparr>pg_prev_free := pg_prev_free (pages s pg)\<rparr>) s;
        let s = s\<lparr>num_free_pages := num_free_pages s - 1\<rparr>;
        let s = (if free_head s = Some pg then s\<lparr>free_head := pg_next_free (pages s pg)\<rparr> else s);
        Some (if num_free_pages s = 0 then s\<lparr>free_head := None\<rparr> else s)
      })"

section \<open>The page cache\<close>

definition PAGE_CACHE_HASH :: "u32 \<Rightarrow> u32 \<Rightarrow> 'a page_state_scheme \<Rightarrow> nat option" where
  "PAGE_CACHE_HASH ino off s =
     (if NUM_CACHED_PAGES s = 0 then None else Some (unat (ino XOR off) mod NUM_CACHED_PAGES s))"

definition insert_into_cache :: "nat \<Rightarrow> 'a page_state_scheme \<Rightarrow> 'a page_state_scheme option" where
  "insert_into_cache pg s = do {
     i \<leftarrow> PAGE_CACHE_HASH (pg_inode (pages s pg)) (pg_offset (pages s pg)) s;
     let s = (case page_cache s i of
         None \<Rightarrow> upd_page pg (\<lambda>p. p\<lparr>pg_prev_hash := None, pg_next_hash := None\<rparr>)
                  (s\<lparr>page_cache := (page_cache s)(i := Some pg)\<rparr>)
       | Some h \<Rightarrow>
          (let s = upd_page pg (\<lambda>p. p\<lparr>pg_prev_hash := None, pg_next_hash := Some h\<rparr>) s;
               s = upd_page h (\<lambda>p. p\<lparr>pg_prev_hash := Some pg\<rparr>) s
           in s\<lparr>page_cache := (page_cache s)(i := Some pg)\<rparr>));
     Some (s\<lparr>page_cache_consumption := page_cache_consumption s + 4\<rparr>)
   }"

text \<open>The loop of \<open>remove_from_cache\<close> walks a pointer to a pointer: first to the bucket, then to the
  \<open>next_hash\<close> field of a page.\<close>

datatype hash_slot = Bucket nat | NextHash nat

fun read_slot :: "hash_slot \<Rightarrow> 'a page_state_scheme \<Rightarrow> nat option" where
  "read_slot (Bucket i) s = page_cache s i"
| "read_slot (NextHash p) s = pg_next_hash (pages s p)"

definition cache_unlink :: "hash_slot \<Rightarrow> nat \<Rightarrow> nat \<Rightarrow> 'a page_state_scheme \<Rightarrow> 'a page_state_scheme" where
  "cache_unlink head i pg s =
     (let s = (case pg_next_hash (pages s pg) of None \<Rightarrow> s
               | Some n \<Rightarrow> upd_page n (\<lambda>q. q\<lparr>pg_prev_hash := pg_prev_hash (pages s pg)\<rparr>) s);
          s = (case pg_prev_hash (pages s pg) of None \<Rightarrow> s
               | Some p \<Rightarrow> upd_page p (\<lambda>q. q\<lparr>pg_next_hash := pg_next_hash (pages s pg)\<rparr>) s);
          s = (if head = Bucket i
               then s\<lparr>page_cache := (page_cache s)(i := pg_next_hash (pages s pg))\<rparr> else s)
      in s\<lparr>page_cache_consumption := page_cache_consumption s - 4\<rparr>)"

partial_function (option) remove_from_cache_loop ::
    "hash_slot \<Rightarrow> nat \<Rightarrow> nat \<Rightarrow> 'a page_state_scheme \<Rightarrow> 'a page_state_scheme option" where
  "remove_from_cache_loop head i pg s =
     (case read_slot head s of
        None \<Rightarrow> Some s
      | Some h \<Rightarrow>
          if h = pg then Some (cache_unlink head i pg s)
          else remove_from_cache_loop (NextHash h) i pg s)"

definition remove_from_cache :: "nat \<Rightarrow> 'a page_state_scheme \<Rightarrow> 'a page_state_scheme option" where
  "remove_from_cache pg s =
     (if pg_inode (pages s pg) = 0 then Some s
      else do {
        i \<leftarrow> PAGE_CACHE_HASH (pg_inode (pages s pg)) (pg_offset (pages s pg)) s;
        remove_from_cache_loop (Bucket i) i pg s
      })"

section \<open>Allocation and release\<close>

text \<open>The checks at the start of \<open>page_get_free\<close>. Sleeping gives the processor to other processes;
  \<open>slp\<close> is the state change until the caller runs again (\<open>sleep\<close> is modelled with the scheduler). The
  result is \<^const>\<open>None\<close> when the call gives up with \<open>NULL\<close>. \<open>total_mem_pages\<close> is a count, so the
  division is of a non-negative number.\<close>

definition page_get_free_check ::
    "('a page_state_scheme \<Rightarrow> 'a page_state_scheme) \<Rightarrow> 'a page_state_scheme \<Rightarrow>
     'a page_state_scheme \<times> bool" where
  "page_get_free_check slp s =
     (if num_free_pages s \<le> min_free_pages s then
        (let empty = (num_free_pages s = 0);
             s = (if empty then slp s else s)
         in if empty \<and> num_free_pages s = 0 \<and> pages_reclaimed s = 0 then (s, False)
            else (s\<lparr>min_free_pages := max 0 (min_free_pages s - NUM_BUFFER_RECLAIM)\<rparr>, True))
      else if min_free_pages s = 0 \<and> num_free_pages s > NUM_BUFFER_RECLAIM then
        (s\<lparr>min_free_pages := (total_mem_pages s * FREE_PAGES_RATIO) div 100\<rparr>, True)
      else (s, True))"

definition page_get_free ::
    "('a page_state_scheme \<Rightarrow> 'a page_state_scheme) \<Rightarrow> 'a page_state_scheme \<Rightarrow>
     (nat option \<times> 'a page_state_scheme) option" where
  "page_get_free slp s =
     (case page_get_free_check slp s of
        (s, False) \<Rightarrow> Some (None, s)
      | (s, True) \<Rightarrow>
         (case free_head s of
            None \<Rightarrow> Some (None, s)
          | Some pg \<Rightarrow> do {
              s \<leftarrow> remove_from_free_list pg s;
              s \<leftarrow> remove_from_cache pg s;
              Some (Some pg,
                upd_page pg (\<lambda>p. p\<lparr>pg_usage := 1, pg_inode := 0, pg_offset := 0, pg_dev := 0\<rparr>) s)
            }))"

text \<open>\<open>page_release\<close> also says whether it ends by waking the processes asleep on \<open>page_get_free\<close>.
  A page number that is not valid is a \<open>kpanic\<close>.\<close>

definition page_release :: "nat \<Rightarrow> 'a page_state_scheme \<Rightarrow> ('a page_state_scheme \<times> bool) option" where
  "page_release pg s = do {
     require (page_is_valid (pg_num (pages s pg)) s);
     if pg_usage (pages s pg) = 0 then Some (s, False)
     else do {
       let s = upd_page pg (\<lambda>p. p\<lparr>pg_usage := pg_usage p - 1\<rparr>) s;
       if pg_usage (pages s pg) > 0 then Some (s, False)
       else do {
         s \<leftarrow> insert_into_free_list pg s;
         let s = upd_page pg (\<lambda>p. p\<lparr>pg_flags := pg_flags p AND PAGE_RESERVED\<rparr>) s;
         let s = (if pg_inode (pages s pg) = 0 then s\<lparr>free_head := Some pg\<rparr> else s);
         Some (s, num_free_pages s > NUM_BUFFER_RECLAIM * 3)
       }
     }
   }"

section \<open>Initialisation\<close>

definition flag_as_kreserved :: "nat \<Rightarrow> 'a page_state_scheme \<Rightarrow> 'a page_state_scheme" where
  "flag_as_kreserved pg s =
     (let s = upd_page pg (\<lambda>p. p\<lparr>pg_flags := PAGE_RESERVED\<rparr>) s
      in s\<lparr>kernel_reserved := kernel_reserved s + 1\<rparr>)"

definition flag_as_reserved :: "nat \<Rightarrow> 'a page_state_scheme \<Rightarrow> 'a page_state_scheme" where
  "flag_as_reserved pg s =
     (let s = upd_page pg (\<lambda>p. p\<lparr>pg_flags := PAGE_RESERVED\<rparr>) s
      in s\<lparr>physical_reserved := physical_reserved s + 1\<rparr>)"

definition zero_page :: page where
  "zero_page = \<lparr>pg_num = 0, pg_usage = 0, pg_flags = 0, pg_inode = 0, pg_offset = 0, pg_dev = 0,
     pg_data = 0, pg_prev_hash = None, pg_next_hash = None, pg_prev_free = None, pg_next_free = None\<rparr>"

text \<open>One turn of the loop: \<open>has_addr\<close> is \<open>bios_mmap_has_addr\<close> and \<open>real_last\<close> is \<open>real_last_addr\<close>.
  A page number beyond the array is an out-of-bounds write.\<close>

definition page_init_one ::
    "(u32 \<Rightarrow> bool) \<Rightarrow> u32 \<Rightarrow> nat \<Rightarrow> 'a page_state_scheme \<Rightarrow> 'a page_state_scheme option" where
  "page_init_one has_addr real_last n s = do {
      require (n < NUM_PAGES s);
      let s = upd_page n (\<lambda>p. p\<lparr>pg_num := int n\<rparr>) s;
      let addr = push_bit PAGE_SHIFT (of_nat n :: u32);
      if addr \<ge> KERNEL_PHYSICAL_BASE \<and> addr < V2P real_last then Some (flag_as_kreserved n s)
      else if addr = 0x0000F000 then Some (flag_as_reserved n s)
      else if \<not> has_addr addr then Some (flag_as_reserved n s)
      else insert_into_free_list n (upd_page n (\<lambda>p. p\<lparr>pg_data := P2V addr\<rparr>) s)
   }"

primrec page_init_loop ::
    "(u32 \<Rightarrow> bool) \<Rightarrow> u32 \<Rightarrow> nat \<Rightarrow> 'a page_state_scheme \<Rightarrow> 'a page_state_scheme option" where
  "page_init_loop has_addr real_last 0 s = Some s"
| "page_init_loop has_addr real_last (Suc n) s = do {
     s \<leftarrow> page_init_loop has_addr real_last n s;
     page_init_one has_addr real_last n s
   }"

definition page_init ::
    "(u32 \<Rightarrow> bool) \<Rightarrow> u32 \<Rightarrow> nat \<Rightarrow> 'a page_state_scheme \<Rightarrow> 'a page_state_scheme option" where
  "page_init has_addr real_last n s = do {
     let s = s\<lparr>pages := (\<lambda>_. zero_page), page_cache := (\<lambda>_. None)\<rparr>;
     s \<leftarrow> page_init_loop has_addr real_last n s;
     let s = s\<lparr>total_mem_pages := num_free_pages s\<rparr>;
     Some (s\<lparr>min_free_pages := (total_mem_pages s * FREE_PAGES_RATIO) div 100\<rparr>)
   }"

section \<open>Field readers after updates\<close>

abbreviation nxf :: "'a page_state_scheme \<Rightarrow> nat \<Rightarrow> nat option" where
  "nxf s \<equiv> \<lambda>i. pg_next_free (pages s i)"
abbreviation pvf :: "'a page_state_scheme \<Rightarrow> nat \<Rightarrow> nat option" where
  "pvf s \<equiv> \<lambda>i. pg_prev_free (pages s i)"
abbreviation nxh :: "'a page_state_scheme \<Rightarrow> nat \<Rightarrow> nat option" where
  "nxh s \<equiv> \<lambda>i. pg_next_hash (pages s i)"
abbreviation pvh :: "'a page_state_scheme \<Rightarrow> nat \<Rightarrow> nat option" where
  "pvh s \<equiv> \<lambda>i. pg_prev_hash (pages s i)"

lemma upd_page_simps [simp]:
  "pages (upd_page i f s) = (pages s)(i := f (pages s i))"
  "NUM_PAGES (upd_page i f s) = NUM_PAGES s"
  "page_cache (upd_page i f s) = page_cache s"
  "NUM_CACHED_PAGES (upd_page i f s) = NUM_CACHED_PAGES s"
  "free_head (upd_page i f s) = free_head s"
  "num_free_pages (upd_page i f s) = num_free_pages s"
  "min_free_pages (upd_page i f s) = min_free_pages s"
  "total_mem_pages (upd_page i f s) = total_mem_pages s"
  "pages_reclaimed (upd_page i f s) = pages_reclaimed s"
  "page_cache_consumption (upd_page i f s) = page_cache_consumption s"
  "kernel_reserved (upd_page i f s) = kernel_reserved s"
  "physical_reserved (upd_page i f s) = physical_reserved s"
  "page_state.more (upd_page i f s) = page_state.more s"
  by (simp_all add: upd_page_def)

section \<open>The invariant of the free list\<close>

text \<open>The pages \<open>xs\<close> are exactly the free ones, in the order of the circle from the head.\<close>

definition free_list :: "'a page_state_scheme \<Rightarrow> nat list \<Rightarrow> bool" where
  "free_list s xs \<longleftrightarrow>
     ring (nxf s) (pvf s) xs \<and>
     free_head s = (if xs = [] then None else Some (hd xs)) \<and>
     num_free_pages s = int (length xs) \<and>
     (\<forall>i \<in> set xs. i < NUM_PAGES s \<and> pg_num (pages s i) = int i \<and> pg_usage (pages s i) = 0)"

text \<open>Updates that keep the free links, and the numbers and use counts of free pages, keep it.\<close>

lemma free_list_cong:
  assumes "free_list s xs"
    and "\<And>i. i \<in> set xs \<Longrightarrow> nxf t i = nxf s i \<and> pvf t i = pvf s i \<and>
        pg_num (pages t i) = pg_num (pages s i) \<and> pg_usage (pages t i) = pg_usage (pages s i)"
    and "free_head t = free_head s" "num_free_pages t = num_free_pages s" "NUM_PAGES t = NUM_PAGES s"
  shows "free_list t xs"
proof -
  have "ring (nxf t) (pvf t) xs = ring (nxf s) (pvf s) xs"
  proof (cases xs)
    case (Cons x ys)
    have "cseg (nxf t) (pvf t) x ys x = cseg (nxf s) (pvf s) x ys x"
      by (rule cseg_cong) (use assms(2) Cons in auto)
    then show ?thesis using Cons by simp
  qed simp
  with assms show ?thesis by (simp add: free_list_def)
qed

text \<open>\<open>t\<close> differs from \<open>s\<close> at most in the free links of its pages.\<close>

definition same_pages :: "'a page_state_scheme \<Rightarrow> 'a page_state_scheme \<Rightarrow> bool" where
  "same_pages s t \<longleftrightarrow>
     (\<forall>j. (pages t j)\<lparr>pg_prev_free := pvf s j, pg_next_free := nxf s j\<rparr> = pages s j)"

lemma same_pagesD:
  assumes "same_pages s t"
  shows "pg_num (pages t j) = pg_num (pages s j)" "pg_usage (pages t j) = pg_usage (pages s j)"
    "pg_flags (pages t j) = pg_flags (pages s j)" "pg_inode (pages t j) = pg_inode (pages s j)"
    "pg_offset (pages t j) = pg_offset (pages s j)" "pg_dev (pages t j) = pg_dev (pages s j)"
    "pg_data (pages t j) = pg_data (pages s j)"
    "pg_prev_hash (pages t j) = pg_prev_hash (pages s j)"
    "pg_next_hash (pages t j) = pg_next_hash (pages s j)"
proof -
  have e: "pages s j = (pages t j)\<lparr>pg_prev_free := pvf s j, pg_next_free := nxf s j\<rparr>"
    using assms by (simp add: same_pages_def)
  show "pg_num (pages t j) = pg_num (pages s j)" "pg_usage (pages t j) = pg_usage (pages s j)"
    "pg_flags (pages t j) = pg_flags (pages s j)" "pg_inode (pages t j) = pg_inode (pages s j)"
    "pg_offset (pages t j) = pg_offset (pages s j)" "pg_dev (pages t j) = pg_dev (pages s j)"
    "pg_data (pages t j) = pg_data (pages s j)"
    "pg_prev_hash (pages t j) = pg_prev_hash (pages s j)"
    "pg_next_hash (pages t j) = pg_next_hash (pages s j)"
    by (subst e, simp)+
qed

lemma insert_into_free_list_ok:
  assumes l: "free_list s xs" and i: "i \<notin> set xs" "i < NUM_PAGES s" "pg_num (pages s i) = int i"
    "pg_usage (pages s i) = 0"
  shows "\<exists>t. insert_into_free_list i s = Some t \<and> free_list t (xs @ [i]) \<and>
    same_pages s t \<and>
    t = s\<lparr>pages := pages t, free_head := free_head t, num_free_pages := num_free_pages s + 1\<rparr>"
proof (cases xs)
  case Nil
  let ?p = "(pages s)(i := (pages s i)\<lparr>pg_prev_free := Some i, pg_next_free := Some i\<rparr>)"
  let ?t = "s\<lparr>pages := ?p, free_head := Some i, num_free_pages := num_free_pages s + 1\<rparr>"
  have "insert_into_free_list i s = Some ?t"
    using l Nil by (simp add: insert_into_free_list_def free_list_def upd_page_def)
  moreover have "free_list ?t [i]" using l i Nil by (simp add: free_list_def)
  moreover have "same_pages s ?t" by (simp add: same_pages_def)
  ultimately show ?thesis using Nil by auto
next
  case (Cons h ys)
  have r: "ring (nxf s) (pvf s) (h # ys)" and hd: "free_head s = Some h"
    and n: "num_free_pages s = int (length xs)"
    using l Cons by (auto simp: free_list_def)
  let ?z = "last (h # ys)"
  have pz: "pvf s h = Some ?z" using ring_prev [OF r] .
  have ih: "i \<noteq> h" "i \<noteq> ?z" "?z \<in> set xs" "h \<in> set xs" using i(1) Cons by (auto split: if_splits)
  obtain t where t: "insert_into_free_list i s = Some t"
    "nxf t = (nxf s)(i := Some h, ?z := Some i)" "pvf t = (pvf s)(i := Some ?z, h := Some i)"
    "free_head t = free_head s" "num_free_pages t = num_free_pages s + 1" "NUM_PAGES t = NUM_PAGES s"
    "same_pages s t"
    "t = s\<lparr>pages := pages t, free_head := free_head t, num_free_pages := num_free_pages s + 1\<rparr>"
  proof -
    define p1 where "p1 = (pages s)(i := (pages s i)\<lparr>pg_next_free := Some h, pg_prev_free := Some ?z\<rparr>)"
    define p2 where "p2 = p1(?z := (p1 ?z)\<lparr>pg_next_free := Some i\<rparr>)"
    define p3 where "p3 = p2(h := (p2 h)\<lparr>pg_prev_free := Some i\<rparr>)"
    have eq: "insert_into_free_list i s = Some (s\<lparr>pages := p3, num_free_pages := num_free_pages s + 1\<rparr>)"
      using hd pz ih by (simp add: insert_into_free_list_def upd_page_def p1_def p2_def p3_def Let_def)
    have "(\<lambda>j. pg_next_free (p3 j)) = (nxf s)(i := Some h, ?z := Some i)"
      "(\<lambda>j. pg_prev_free (p3 j)) = (pvf s)(i := Some ?z, h := Some i)"
      using ih by (auto simp: p1_def p2_def p3_def fun_eq_iff)
    moreover have "same_pages s (s\<lparr>pages := p3, num_free_pages := num_free_pages s + 1\<rparr>)"
      by (simp add: same_pages_def p1_def p2_def p3_def)
    ultimately show ?thesis by (intro that [OF eq]) auto
  qed
  have "ring (nxf t) (pvf t) (h # ys @ [i])"
    by (rule ring_insert_last [OF r]) (use t i(1) Cons in auto)
  then have "free_list t (xs @ [i])"
    using t(4,5,6) same_pagesD [OF t(7)] l i Cons by (auto simp: free_list_def)
  then show ?thesis using t by blast
qed

lemma remove_from_free_list_head:
  assumes l: "free_list s (x # xs)"
  shows "\<exists>t. remove_from_free_list x s = Some t \<and> free_list t xs \<and> same_pages s t \<and>
    t = s\<lparr>pages := pages t, free_head := free_head t, num_free_pages := num_free_pages s - 1\<rparr>"
proof (cases xs)
  case Nil
  then have "pvf s x = Some x" "nxf s x = Some x" "num_free_pages s = 1" "free_head s = Some x"
    using l by (auto simp: free_list_def)
  then have "remove_from_free_list x s = Some (s\<lparr>free_head := None, num_free_pages := 0\<rparr>)"
    by (simp add: remove_from_free_list_def upd_page_def fun_upd_idem)
  then show ?thesis using Nil \<open>num_free_pages s = 1\<close> by (auto simp: free_list_def same_pages_def)
next
  case (Cons y ys)
  have r: "ring (nxf s) (pvf s) (x # y # ys)" and hd: "free_head s = Some x"
    and n: "num_free_pages s = int (length (x # xs))"
    using l Cons by (auto simp: free_list_def)
  let ?z = "last (y # ys)"
  have z: "pvf s x = Some ?z" "nxf s x = Some y" using ring_prev [OF r] ring_next [OF r] by auto
  have ne: "?z \<noteq> x" "y \<noteq> x" using r by auto
  define p1 where "p1 = (pages s)(?z := (pages s ?z)\<lparr>pg_next_free := Some y\<rparr>)"
  define p2 where "p2 = p1(y := (p1 y)\<lparr>pg_prev_free := Some ?z\<rparr>)"
  let ?t = "s\<lparr>pages := p2, free_head := Some y, num_free_pages := num_free_pages s - 1\<rparr>"
  have px: "p1 x = pages s x" "p2 x = pages s x" using ne by (auto simp: p1_def p2_def)
  have t: "remove_from_free_list x s = Some ?t"
    using z ne hd n Cons
    by (simp add: remove_from_free_list_def upd_page_def Let_def p1_def p2_def fun_upd_twist)
  have fl: "nxf ?t = (nxf s)(?z := Some y)" "pvf ?t = (pvf s)(y := Some ?z)"
    by (auto simp: p1_def p2_def fun_eq_iff)
  have sp: "same_pages s ?t" by (simp add: same_pages_def p1_def p2_def)
  have "ring (nxf ?t) (pvf ?t) (y # ys)" by (rule ring_unlink [OF r fl])
  then have "free_list ?t xs"
    using same_pagesD [OF sp] l Cons by (auto simp: free_list_def)
  with t sp show ?thesis by (intro exI [of _ ?t]) auto
qed

section \<open>The invariant of the page cache\<close>

definition cache_key :: "'a page_state_scheme \<Rightarrow> nat \<Rightarrow> nat" where
  "cache_key s i = unat (pg_inode (pages s i) XOR pg_offset (pages s i)) mod NUM_CACHED_PAGES s"

text \<open>Chain \<open>ch b\<close> hangs in bucket \<open>b\<close>, and every page of a chain hashes to its bucket
  and belongs to an inode.\<close>

definition cache_chains :: "'a page_state_scheme \<Rightarrow> (nat \<Rightarrow> nat list) \<Rightarrow> bool" where
  "cache_chains s ch \<longleftrightarrow> 0 < NUM_CACHED_PAGES s \<and>
     (\<forall>b < NUM_CACHED_PAGES s. dlist (nxh s) (pvh s) (page_cache s b) (ch b) \<and>
        (\<forall>i \<in> set (ch b). cache_key s i = b \<and> pg_inode (pages s i) \<noteq> 0))"

lemma cache_chains_cong:
  assumes "cache_chains s ch"
    and "\<And>i b. b < NUM_CACHED_PAGES s \<Longrightarrow> i \<in> set (ch b) \<Longrightarrow> nxh t i = nxh s i \<and> pvh t i = pvh s i \<and>
        pg_inode (pages t i) = pg_inode (pages s i) \<and> pg_offset (pages t i) = pg_offset (pages s i)"
    and "page_cache t = page_cache s" "NUM_CACHED_PAGES t = NUM_CACHED_PAGES s"
  shows "cache_chains t ch"
proof -
  have "dlist (nxh t) (pvh t) (page_cache s b) (ch b) = dlist (nxh s) (pvh s) (page_cache s b) (ch b)"
    if "b < NUM_CACHED_PAGES s" for b
    by (rule dlist_cong) (use assms(2) that in auto)
  with assms show ?thesis by (auto simp: cache_chains_def cache_key_def)
qed

lemma same_pages_cache:
  "same_pages s t \<Longrightarrow> page_cache t = page_cache s \<Longrightarrow> NUM_CACHED_PAGES t = NUM_CACHED_PAGES s \<Longrightarrow>
    cache_chains s ch \<Longrightarrow> cache_chains t ch"
  by (erule cache_chains_cong) (auto simp: same_pagesD)

lemma remove_from_cache_loop_absent:
  "slist (nxh s) (read_slot head s) rest \<Longrightarrow> pg \<notin> set rest \<Longrightarrow>
    remove_from_cache_loop head i pg s = Some s"
proof (induction rest arbitrary: head)
  case Nil
  then show ?case by (simp add: remove_from_cache_loop.simps)
next
  case (Cons h rest)
  then have "remove_from_cache_loop (NextHash h) i pg s = Some s" by simp
  then show ?case using Cons.prems by (simp add: remove_from_cache_loop.simps [of head])
qed

lemma remove_from_cache_loop_found:
  "slist (nxh s) (read_slot head s) (us @ pg # vs) \<Longrightarrow> pg \<notin> set us \<Longrightarrow>
    remove_from_cache_loop head i pg s =
      Some (cache_unlink (if us = [] then head else NextHash (List.last us)) i pg s)"
proof (induction us arbitrary: head)
  case Nil
  then show ?case by (simp add: remove_from_cache_loop.simps)
next
  case (Cons h us)
  then have "remove_from_cache_loop (NextHash h) i pg s =
      Some (cache_unlink (if us = [] then NextHash h else NextHash (List.last us)) i pg s)" by simp
  then show ?case using Cons.prems by (auto simp: remove_from_cache_loop.simps [of head])
qed

lemma cache_unlink_links:
  assumes "nxh s pg \<noteq> Some pg" "pvh s pg \<noteq> Some pg"
  shows "nxh (cache_unlink head i pg s) = unlink_nx (nxh s) (pvh s) pg"
    and "pvh (cache_unlink head i pg s) = unlink_pv (nxh s) (pvh s) pg"
    and "page_cache (cache_unlink head i pg s) =
      (if head = Bucket i then (page_cache s)(i := nxh s pg) else page_cache s)"
  using assms
  by (auto simp: cache_unlink_def Let_def unlink_nx_def unlink_pv_def fun_eq_iff split: option.splits)

lemma cache_unlink_other [simp]:
  "pg_inode (pages (cache_unlink head i pg s) j) = pg_inode (pages s j)"
  "pg_offset (pages (cache_unlink head i pg s) j) = pg_offset (pages s j)"
  "pg_num (pages (cache_unlink head i pg s) j) = pg_num (pages s j)"
  "pg_usage (pages (cache_unlink head i pg s) j) = pg_usage (pages s j)"
  "nxf (cache_unlink head i pg s) = nxf s" "pvf (cache_unlink head i pg s) = pvf s"
  "NUM_CACHED_PAGES (cache_unlink head i pg s) = NUM_CACHED_PAGES s"
  "NUM_PAGES (cache_unlink head i pg s) = NUM_PAGES s"
  "free_head (cache_unlink head i pg s) = free_head s"
  "num_free_pages (cache_unlink head i pg s) = num_free_pages s"
  "page_state.more (cache_unlink head i pg s) = page_state.more s"
  by (auto simp: cache_unlink_def Let_def split: option.splits)


definition drop_chain :: "'a page_state_scheme \<Rightarrow> nat \<Rightarrow> (nat \<Rightarrow> nat list) \<Rightarrow> nat \<Rightarrow> nat list" where
  "drop_chain s pg ch = ch(cache_key s pg := remove1 pg (ch (cache_key s pg)))"

lemma cache_key_lt: "0 < NUM_CACHED_PAGES s \<Longrightarrow> cache_key s i < NUM_CACHED_PAGES s"
  by (simp add: cache_key_def)

lemma cache_chains_not_mem:
  assumes "cache_chains s ch" "b < NUM_CACHED_PAGES s" "pg_inode (pages s pg) = 0 \<or> b \<noteq> cache_key s pg"
  shows "pg \<notin> set (ch b)"
  using assms by (auto simp: cache_chains_def)

lemma cache_unlink_chains:
  assumes ch: "cache_chains s ch" and xs: "ch (cache_key s pg) = us @ pg # vs"
    and k: "k = cache_key s pg" and hd: "head = Bucket k \<longleftrightarrow> us = []"
  shows "cache_chains (cache_unlink head k pg s) (drop_chain s pg ch)"
proof -
  let ?t = "cache_unlink head k pg s"
  have kl: "k < NUM_CACHED_PAGES s" using ch k by (simp add: cache_chains_def cache_key_lt)
  have l: "dlist (nxh s) (pvh s) (page_cache s k) (us @ pg # vs)"
    using ch kl unfolding cache_chains_def xs [folded k, symmetric] by blast
  have d: "distinct (us @ pg # vs)" by (rule dlist_distinct [OF l])
  note nb = dlist_neighbours [OF l] and hds = dlist_head [OF l]
  have self: "nxh s pg \<noteq> Some pg" "pvh s pg \<noteq> Some pg"
    using nb d by (auto split: if_splits)
  note lk = cache_unlink_links [OF self, of head k]
  have ck: "cache_key ?t i = cache_key s i" for i by (simp add: cache_key_def)
  have pc: "page_cache ?t k = (if page_cache s k = Some pg then nxh s pg else page_cache s k)"
    using lk(3) hd hds d by (cases us) auto
  have own: "dlist (nxh ?t) (pvh ?t) (page_cache ?t k) (remove1 pg (ch k))"
    using dlist_unlink_remove1 [OF l, of pg] unfolding lk(1,2) pc xs [folded k] by simp
  have other: "dlist (nxh ?t) (pvh ?t) (page_cache ?t b) (ch b)"
    if b: "b < NUM_CACHED_PAGES s" "b \<noteq> k" for b
  proof -
    have out: "i \<notin> set (us @ pg # vs)" if "i \<in> set (ch b)" for i
    proof
      assume "i \<in> set (us @ pg # vs)"
      then have "cache_key s i = k" using ch kl xs k unfolding cache_chains_def by metis
      moreover have "cache_key s i = b" using ch b that by (auto simp: cache_chains_def)
      ultimately show False using b by simp
    qed
    have "dlist (nxh ?t) (pvh ?t) (page_cache s b) (ch b) = dlist (nxh s) (pvh s) (page_cache s b) (ch b)"
      unfolding lk by (rule dlist_cong) (use unlink_outside [OF l] out in auto)
    moreover have "page_cache ?t b = page_cache s b" using lk(3) b by simp
    ultimately show ?thesis using ch b by (auto simp: cache_chains_def)
  qed
  show ?thesis
    unfolding cache_chains_def
  proof (intro conjI allI impI)
    show "0 < NUM_CACHED_PAGES ?t" using kl by simp
  next
    fix b assume "b < NUM_CACHED_PAGES ?t"
    then have b: "b < NUM_CACHED_PAGES s" by simp
    show "dlist (nxh ?t) (pvh ?t) (page_cache ?t b) (drop_chain s pg ch b)"
      using own other [OF b] k by (auto simp: drop_chain_def)
    show "\<forall>i\<in>set (drop_chain s pg ch b). cache_key ?t i = b \<and> pg_inode (pages ?t i) \<noteq> 0"
      using ch b set_remove1_subset [of pg "ch b"] by (auto simp: ck drop_chain_def cache_chains_def)
  qed
qed

text \<open>Removal, whether the page is cached or not.\<close>

lemma remove_from_cache_ok:
  assumes ch: "cache_chains s ch"
  shows "\<exists>t. remove_from_cache pg s = Some t \<and> cache_chains t (drop_chain s pg ch) \<and>
    (t = s \<or> (\<exists>head. t = cache_unlink head (cache_key s pg) pg s))"
proof -
  let ?k = "cache_key s pg"
  have kl: "?k < NUM_CACHED_PAGES s" using ch by (simp add: cache_chains_def cache_key_lt)
  have l: "dlist (nxh s) (pvh s) (page_cache s ?k) (ch ?k)" using ch kl by (simp add: cache_chains_def)
  have sl: "slist (nxh s) (read_slot (Bucket ?k) s) (ch ?k)" using dlist_slist [OF l] by simp
  have skip: "cache_chains s (drop_chain s pg ch)" if "pg \<notin> set (ch ?k)"
    using ch that by (simp add: drop_chain_def remove1_idem fun_upd_idem)
  have eq: "remove_from_cache pg s = remove_from_cache_loop (Bucket ?k) ?k pg s"
    if "pg_inode (pages s pg) \<noteq> 0"
    using that ch by (simp add: remove_from_cache_def PAGE_CACHE_HASH_def cache_key_def cache_chains_def)
  show ?thesis
  proof (cases "pg_inode (pages s pg) = 0")
    case True
    then have "remove_from_cache pg s = Some s" by (simp add: remove_from_cache_def)
    moreover have "pg \<notin> set (ch ?k)" using cache_chains_not_mem [OF ch kl] True by simp
    ultimately show ?thesis using skip by blast
  next
    case False
    show ?thesis
    proof (cases "pg \<in> set (ch ?k)")
      case False
      with sl have "remove_from_cache_loop (Bucket ?k) ?k pg s = Some s"
        by (rule remove_from_cache_loop_absent)
      then show ?thesis using skip False eq \<open>pg_inode (pages s pg) \<noteq> 0\<close> by auto
    next
      case True
      then obtain us vs where xs: "ch ?k = us @ pg # vs" "pg \<notin> set us" by (meson split_list_first)
      let ?h = "if us = [] then Bucket ?k else NextHash (List.last us)"
      have "remove_from_cache pg s = Some (cache_unlink ?h ?k pg s)"
        using remove_from_cache_loop_found [of s "Bucket ?k" us pg vs ?k] sl xs eq False by simp
      moreover have "cache_chains (cache_unlink ?h ?k pg s) (drop_chain s pg ch)"
        by (rule cache_unlink_chains [OF ch xs(1)]) auto
      ultimately show ?thesis by blast
    qed
  qed
qed


section \<open>Allocation\<close>

lemma upd_page_free_list:
  assumes "free_list s xs" "pg \<notin> set xs" "\<And>p. pg_next_free (f p) = pg_next_free p"
    "\<And>p. pg_prev_free (f p) = pg_prev_free p"
  shows "free_list (upd_page pg f s) xs"
  by (rule free_list_cong [OF assms(1)]) (use assms in auto)

lemma upd_page_chains:
  assumes "cache_chains s ch" "\<And>b. b < NUM_CACHED_PAGES s \<Longrightarrow> pg \<notin> set (ch b)"
  shows "cache_chains (upd_page pg f s) ch"
  by (rule cache_chains_cong [OF assms(1)]) (use assms(2) in auto)

lemma drop_chain_not_mem:
  assumes ch: "cache_chains s ch" and b: "b < NUM_CACHED_PAGES s"
  shows "pg \<notin> set (drop_chain s pg ch b)"
proof (cases "b = cache_key s pg")
  case True
  have "distinct (ch b)" using ch b by (auto simp: cache_chains_def dest: dlist_distinct)
  then show ?thesis using True by (simp add: drop_chain_def)
next
  case False
  then show ?thesis using cache_chains_not_mem [OF ch b] by (simp add: drop_chain_def)
qed

text \<open>With a free page at hand the checks never put the caller to sleep.\<close>

lemma page_get_free_check_frame:
  assumes "num_free_pages s \<noteq> 0"
  obtains m where "page_get_free_check slp s = (s\<lparr>min_free_pages := m\<rparr>, True)"
proof -
  have "\<exists>m. page_get_free_check slp s = (s\<lparr>min_free_pages := m\<rparr>, True)"
    using assms unfolding page_get_free_check_def Let_def by (auto intro: exI [of _ "min_free_pages s"])
  then show ?thesis using that by blast
qed

text \<open>The state fields of a page that the links do not touch.\<close>

definition page_data :: "page \<Rightarrow> int \<times> int \<times> u32 \<times> u32 \<times> u32 \<times> u16 \<times> u32" where
  "page_data p = (pg_num p, pg_usage p, pg_flags p, pg_inode p, pg_offset p, pg_dev p, pg_data p)"

lemma same_pages_data: "same_pages s t \<Longrightarrow> page_data (pages t j) = page_data (pages s j)"
  by (simp add: page_data_def same_pagesD)

lemma cache_unlink_data [simp]:
  "page_data (pages (cache_unlink head i pg s) j) = page_data (pages s j)"
  by (auto simp: cache_unlink_def Let_def page_data_def split: option.splits)

lemma page_get_free_from:
  assumes m: "page_get_free_check slp s0 = (s\<lparr>min_free_pages := m\<rparr>, True)"
    and l: "free_list s (x # xs)" and ch: "cache_chains s ch"
  shows "\<exists>t. page_get_free slp s0 = Some (Some x, t) \<and> free_list t xs \<and>
    cache_chains t (drop_chain s x ch) \<and>
    (pages t x)\<lparr>pg_prev_free := None, pg_next_free := None, pg_prev_hash := None, pg_next_hash := None\<rparr> =
      (pages s x)\<lparr>pg_usage := 1, pg_inode := 0, pg_offset := 0, pg_dev := 0,
        pg_prev_free := None, pg_next_free := None, pg_prev_hash := None, pg_next_hash := None\<rparr> \<and>
    (\<forall>j. j \<noteq> x \<longrightarrow> page_data (pages t j) = page_data (pages s j)) \<and>
    page_state.more t = page_state.more s \<and> NUM_PAGES t = NUM_PAGES s"
proof -
  have hd: "free_head s = Some x" and dx: "x \<notin> set xs"
    using l by (auto simp: free_list_def)
  let ?s1 = "s\<lparr>min_free_pages := m\<rparr>"
  have l1: "free_list ?s1 (x # xs)" by (rule free_list_cong [OF l]) auto
  have ch1: "cache_chains ?s1 ch" by (rule cache_chains_cong [OF ch]) auto
  obtain s2 where s2: "remove_from_free_list x ?s1 = Some s2" "free_list s2 xs" "same_pages ?s1 s2"
    and s2e: "s2 = ?s1\<lparr>pages := pages s2, free_head := free_head s2,
       num_free_pages := num_free_pages ?s1 - 1\<rparr>"
    using remove_from_free_list_head [OF l1] by blast
  have "page_cache s2 = page_cache ?s1 \<and> NUM_CACHED_PAGES s2 = NUM_CACHED_PAGES ?s1"
    by (subst (1 2) s2e) simp
  with same_pages_cache [OF s2(3) _ _ ch1] have ch2: "cache_chains s2 ch"
    and nc: "NUM_CACHED_PAGES s2 = NUM_CACHED_PAGES s" by auto
  have dr: "drop_chain s2 x ch = drop_chain s x ch"
    using same_pagesD [OF s2(3)] nc by (simp add: drop_chain_def cache_key_def)
  obtain s3 where s3: "remove_from_cache x s2 = Some s3" "cache_chains s3 (drop_chain s x ch)"
    and s3e: "s3 = s2 \<or> (\<exists>head. s3 = cache_unlink head (cache_key s2 x) x s2)"
    using remove_from_cache_ok [OF ch2, of x] dr by auto
  have d3: "page_data (pages s3 j) = page_data (pages s j)" for j
    using s3e same_pages_data [OF s2(3), of j] by auto
  have l3: "free_list s3 xs"
  proof (rule free_list_cong [OF s2(2)])
    fix i
    have "nxf s3 = nxf s2" "pvf s3 = pvf s2" using s3e by auto
    then show "nxf s3 i = nxf s2 i \<and> pvf s3 i = pvf s2 i \<and>
        pg_num (pages s3 i) = pg_num (pages s2 i) \<and> pg_usage (pages s3 i) = pg_usage (pages s2 i)"
      using s3e by (auto simp: fun_eq_iff)
  qed (use s3e in auto)
  let ?f = "\<lambda>p. p\<lparr>pg_usage := 1, pg_inode := 0, pg_offset := 0, pg_dev := 0\<rparr>"
  let ?t = "upd_page x ?f s3"
  have nc3: "NUM_CACHED_PAGES s3 = NUM_CACHED_PAGES s" using s3e nc by auto
  have "cache_chains ?t (drop_chain s x ch)"
    by (rule upd_page_chains [OF s3(2)]) (use drop_chain_not_mem [OF ch] nc3 in simp)
  moreover have "page_get_free slp s0 = Some (Some x, ?t)"
    using m hd s2(1) s3(1) by (simp add: page_get_free_def)
  moreover have "page_state.more s2 = page_state.more s" "NUM_PAGES s2 = NUM_PAGES s"
    by (subst s2e, simp)+
  then have "page_state.more ?t = page_state.more s" "NUM_PAGES ?t = NUM_PAGES s"
    using s3e by auto
  moreover have "free_list ?t xs" by (rule upd_page_free_list [OF l3 dx]) auto
  ultimately show ?thesis using d3 by (auto simp: page_data_def)
qed


lemma page_get_free_ok:
  assumes l: "free_list s (x # xs)" and ch: "cache_chains s ch"
  shows "\<exists>t. page_get_free slp s = Some (Some x, t) \<and> free_list t xs \<and>
    cache_chains t (drop_chain s x ch) \<and>
    (pages t x)\<lparr>pg_prev_free := None, pg_next_free := None, pg_prev_hash := None, pg_next_hash := None\<rparr> =
      (pages s x)\<lparr>pg_usage := 1, pg_inode := 0, pg_offset := 0, pg_dev := 0,
        pg_prev_free := None, pg_next_free := None, pg_prev_hash := None, pg_next_hash := None\<rparr> \<and>
    (\<forall>j. j \<noteq> x \<longrightarrow> page_data (pages t j) = page_data (pages s j)) \<and>
    page_state.more t = page_state.more s \<and> NUM_PAGES t = NUM_PAGES s"
proof -
  have "num_free_pages s \<noteq> 0" using l by (auto simp: free_list_def)
  then obtain m where "page_get_free_check slp s = (s\<lparr>min_free_pages := m\<rparr>, True)"
    by (rule page_get_free_check_frame)
  then show ?thesis by (rule page_get_free_from [OF _ l ch])
qed

text \<open>In general the checks may put the caller to sleep, when no page is free.\<close>

lemma page_get_free_check_cases:
  obtains m where "page_get_free_check slp s =
      ((if num_free_pages s = 0 \<and> num_free_pages s \<le> min_free_pages s then slp s else s)
        \<lparr>min_free_pages := m\<rparr>, True)"
  | "page_get_free_check slp s = (slp s, False)" "num_free_pages s = 0"
proof -
  have "(\<exists>m. page_get_free_check slp s =
      ((if num_free_pages s = 0 \<and> num_free_pages s \<le> min_free_pages s then slp s else s)
        \<lparr>min_free_pages := m\<rparr>, True)) \<or>
    page_get_free_check slp s = (slp s, False) \<and> num_free_pages s = 0"
    unfolding page_get_free_check_def Let_def by (auto intro: exI [of _ "min_free_pages s"])
  then show ?thesis using that by blast
qed

text \<open>C1: with a non-empty free list, \<open>page_get_free\<close> returns its head, marks it used once and owned
  by no file, takes exactly it out of the list and out of the page cache, and changes the data of no
  other page.\<close>

theorem page_get_free_takes_head:
  assumes l: "free_list s (x # xs)" and ch: "cache_chains s ch"
  shows "\<exists>t. page_get_free slp s = Some (Some x, t) \<and> free_list t xs \<and>
    cache_chains t (drop_chain s x ch) \<and>
    (pages t x)\<lparr>pg_prev_free := None, pg_next_free := None, pg_prev_hash := None, pg_next_hash := None\<rparr> =
      (pages s x)\<lparr>pg_usage := 1, pg_inode := 0, pg_offset := 0, pg_dev := 0,
        pg_prev_free := None, pg_next_free := None, pg_prev_hash := None, pg_next_hash := None\<rparr> \<and>
    (\<forall>j. j \<noteq> x \<longrightarrow> page_data (pages t j) = page_data (pages s j))"
  using page_get_free_ok [OF l ch] by blast

text \<open>A state with two free pages, the second of them cached, used by the witnesses.\<close>

definition two_free_pages :: page_state where
  "two_free_pages = \<lparr>
     pages = (\<lambda>_. zero_page)
       (0 := zero_page\<lparr>pg_num := 0, pg_prev_free := Some 1, pg_next_free := Some 1\<rparr>,
        1 := zero_page\<lparr>pg_num := 1, pg_prev_free := Some 0, pg_next_free := Some 0,
               pg_inode := 5, pg_offset := 4096\<rparr>,
        2 := zero_page\<lparr>pg_num := 2, pg_usage := 1, pg_flags := 0x110\<rparr>),
     NUM_PAGES = 8, page_cache = (\<lambda>_. None)(1 := Some 1), NUM_CACHED_PAGES = 4,
     free_head = Some 1, num_free_pages = 2, min_free_pages = 0, total_mem_pages = 3,
     pages_reclaimed = 0, page_cache_consumption = 4, kernel_reserved = 0, physical_reserved = 0\<rparr>"

definition two_free_chains :: "nat \<Rightarrow> nat list" where
  "two_free_chains = (\<lambda>_. [])(1 := [1])"

lemma two_free_pages_list: "free_list two_free_pages [1, 0]"
  by (simp add: free_list_def two_free_pages_def zero_page_def)

lemma two_free_pages_chains: "cache_chains two_free_pages two_free_chains"
  by (simp add: cache_chains_def two_free_pages_def two_free_chains_def zero_page_def cache_key_def
      dlist_def)

theorem page_get_free_takes_head_witness:
  "\<exists>t. page_get_free id two_free_pages = Some (Some 1, t) \<and> free_list t [0]"
  using page_get_free_takes_head [OF two_free_pages_list two_free_pages_chains, of id] by auto

text \<open>The invariants do not see the fields that other components add to the state.\<close>

lemma free_list_extend: "free_list s xs \<Longrightarrow> free_list (page_state.extend s m) xs"
  by (simp add: free_list_def page_state.extend_def)

lemma cache_chains_extend: "cache_chains s ch \<Longrightarrow> cache_chains (page_state.extend s m) ch"
  by (simp add: cache_chains_def cache_key_def page_state.extend_def)

section \<open>Release\<close>

lemma insert_into_free_list_fields:
  "insert_into_free_list i s = Some t \<Longrightarrow> NUM_PAGES t = NUM_PAGES s \<and> page_cache t = page_cache s \<and>
    NUM_CACHED_PAGES t = NUM_CACHED_PAGES s \<and> min_free_pages t = min_free_pages s \<and>
    num_free_pages t = num_free_pages s + 1 \<and> kernel_reserved t = kernel_reserved s \<and>
    physical_reserved t = physical_reserved s"
  by (auto simp: insert_into_free_list_def upd_page_def Let_def split: option.splits
      Option.bind_splits)

text \<open>The last release of a page.\<close>

lemma page_release_last:
  assumes l: "free_list s xs" and pg: "pg \<notin> set xs" "pg < NUM_PAGES s" "pg_num (pages s pg) = int pg"
    and u: "pg_usage (pages s pg) = 1"
  shows "\<exists>t. page_release pg s = Some (t, length xs + 1 > 750) \<and>
    free_list t (if pg_inode (pages s pg) = 0 then pg # xs else xs @ [pg]) \<and>
    page_data (pages t pg) =
      page_data ((pages s pg)\<lparr>pg_usage := 0, pg_flags := pg_flags (pages s pg) AND PAGE_RESERVED\<rparr>) \<and>
    (\<forall>j. j \<noteq> pg \<longrightarrow> page_data (pages t j) = page_data (pages s j)) \<and>
    (\<forall>ch. cache_chains s ch \<longrightarrow> cache_chains t ch)"
proof -
  let ?s1 = "upd_page pg (\<lambda>p. p\<lparr>pg_usage := pg_usage p - 1\<rparr>) s"
  have v: "page_is_valid (pg_num (pages s pg)) s" using pg by (simp add: page_is_valid_def)
  have l1: "free_list ?s1 xs" by (rule upd_page_free_list [OF l pg(1)]) auto
  obtain s2 where s2: "insert_into_free_list pg ?s1 = Some s2" "free_list s2 (xs @ [pg])" "same_pages ?s1 s2"
    using insert_into_free_list_ok [OF l1 pg(1)] pg u by auto
  let ?s3 = "upd_page pg (\<lambda>p. p\<lparr>pg_flags := pg_flags p AND PAGE_RESERVED\<rparr>) s2"
  let ?t = "if pg_inode (pages s pg) = 0 then ?s3\<lparr>free_head := Some pg\<rparr> else ?s3"
  have ino: "pg_inode (pages s2 pg) = pg_inode (pages s pg)" using same_pagesD [OF s2(3)] by simp
  have n2: "num_free_pages s2 = int (length xs) + 1" using s2(2) by (simp add: free_list_def)
  have "page_release pg s = Some (?t, num_free_pages ?t > NUM_BUFFER_RECLAIM * 3)"
    using v u s2(1) ino by (simp add: page_release_def Let_def)
  moreover have "num_free_pages ?t > NUM_BUFFER_RECLAIM * 3 \<longleftrightarrow> length xs + 1 > 750"
    using n2 by (auto simp: NUM_BUFFER_RECLAIM_def)
  moreover have l3: "free_list ?s3 (xs @ [pg])" by (rule free_list_cong [OF s2(2)]) auto
  moreover have "free_list (?s3\<lparr>free_head := Some pg\<rparr>) (pg # xs)"
  proof -
    have "ring (nxf ?s3) (pvf ?s3) (pg # xs)" using l3 unfolding free_list_def ring_rotate1 by blast
    then show ?thesis using l3 unfolding free_list_def by simp
  qed
  moreover have "cache_chains ?t ch" if "cache_chains s ch" for ch
    by (rule cache_chains_cong [OF that])
      (use same_pagesD [OF s2(3)] insert_into_free_list_fields [OF s2(1)] in auto)
  moreover have "page_data (pages ?t pg) =
      page_data ((pages s pg)\<lparr>pg_usage := 0, pg_flags := pg_flags (pages s pg) AND PAGE_RESERVED\<rparr>)"
    using u same_pagesD [OF s2(3), of pg] by (simp add: page_data_def)
  moreover have "page_data (pages ?t j) = page_data (pages s j)" if "j \<noteq> pg" for j
    using that same_pages_data [OF s2(3), of j] by simp
  ultimately show ?thesis by (intro exI [of _ ?t]) auto
qed

text \<open>C2: releasing a page with several users only drops its use count. Releasing the last use puts
  the page on the free list, at the head when it holds no file data and at the tail when it does, clears
  every flag but \<open>PAGE_RESERVED\<close>, and asks for the wake-up of waiting allocators exactly when more than
  \<open>3 * NUM_BUFFER_RECLAIM\<close> pages are free.\<close>

theorem page_release_frees:
  assumes l: "free_list s xs" and pg: "pg \<notin> set xs" "pg < NUM_PAGES s" "pg_num (pages s pg) = int pg"
    and u: "1 \<le> pg_usage (pages s pg)"
  shows "\<exists>t w. page_release pg s = Some (t, w) \<and>
    pg_usage (pages t pg) = pg_usage (pages s pg) - 1 \<and>
    (\<forall>j. j \<noteq> pg \<longrightarrow> page_data (pages t j) = page_data (pages s j)) \<and>
    (if pg_usage (pages s pg) > 1 then free_list t xs \<and> \<not> w
     else free_list t (if pg_inode (pages s pg) = 0 then pg # xs else xs @ [pg]) \<and>
       pg_flags (pages t pg) = pg_flags (pages s pg) AND PAGE_RESERVED \<and>
       (w \<longleftrightarrow> length xs + 1 > 750))"
proof (cases "pg_usage (pages s pg) > 1")
  case True
  let ?s1 = "upd_page pg (\<lambda>p. p\<lparr>pg_usage := pg_usage p - 1\<rparr>) s"
  have "page_release pg s = Some (?s1, False)"
    using True pg by (simp add: page_release_def Let_def page_is_valid_def)
  moreover have "free_list ?s1 xs" by (rule upd_page_free_list [OF l pg(1)]) auto
  ultimately show ?thesis using True by auto
next
  case False
  then have "pg_usage (pages s pg) = 1" using u by simp
  then show ?thesis using page_release_last [OF l pg] by (auto simp: page_data_def)
qed

theorem page_release_frees_witness:
  "\<exists>t. page_release 2 two_free_pages = Some (t, False) \<and> free_list t [2, 1, 0] \<and>
    pg_flags (pages t 2) = 0x100"
proof -
  have p: "pages two_free_pages 2 = zero_page\<lparr>pg_num := 2, pg_usage := 1, pg_flags := 0x110\<rparr>"
    "NUM_PAGES two_free_pages = 8" by (simp_all add: two_free_pages_def)
  show ?thesis
    using page_release_frees [OF two_free_pages_list, of 2]
    by (auto simp: p zero_page_def PAGE_RESERVED_def)
qed


text \<open>a page that holds no file data is the next one handed out after its last release.\<close>

theorem page_release_get_lifo:
  assumes l: "free_list s xs" and pg: "pg \<notin> set xs" "pg < NUM_PAGES s" "pg_num (pages s pg) = int pg"
    and u: "pg_usage (pages s pg) = 1" "pg_inode (pages s pg) = 0" and ch: "cache_chains s ch"
  shows "\<exists>t w u. page_release pg s = Some (t, w) \<and> page_get_free slp t = Some (Some pg, u) \<and>
    free_list u xs"
proof -
  obtain t where t: "page_release pg s = Some (t, length xs + 1 > 750)" "free_list t (pg # xs)"
    "cache_chains t ch"
    using page_release_last [OF l pg u(1)] u(2) ch by auto
  show ?thesis using page_get_free_ok [OF t(2,3), of slp] t(1) by blast
qed

theorem page_release_get_lifo_witness:
  "\<exists>t w u. page_release 2 two_free_pages = Some (t, w) \<and> page_get_free id t = Some (Some 2, u) \<and>
    free_list u [1, 0]"
  by (rule page_release_get_lifo [OF two_free_pages_list _ _ _ _ _ two_free_pages_chains])
    (simp_all add: two_free_pages_def zero_page_def)

section \<open>Initialisation\<close>

lemma flag_reserved_list:
  assumes "free_list s xs" "n \<notin> set xs"
  shows "free_list (flag_as_kreserved n s) xs" "free_list (flag_as_reserved n s) xs"
  unfolding flag_as_kreserved_def flag_as_reserved_def Let_def
  by (rule free_list_cong [OF assms(1)]; use assms in auto)+

text \<open>The test that the loop of \<open>page_init\<close> applies to page \<open>n\<close>.\<close>

definition page_usable :: "(u32 \<Rightarrow> bool) \<Rightarrow> u32 \<Rightarrow> nat \<Rightarrow> bool" where
  "page_usable has_addr real_last n \<longleftrightarrow>
     (let addr = push_bit PAGE_SHIFT (of_nat n :: u32)
      in \<not> (addr \<ge> KERNEL_PHYSICAL_BASE \<and> addr < V2P real_last) \<and> addr \<noteq> 0xF000 \<and> has_addr addr)"

definition boot_pages :: "(u32 \<Rightarrow> bool) \<Rightarrow> u32 \<Rightarrow> nat \<Rightarrow> nat list" where
  "boot_pages has_addr real_last n = filter (page_usable has_addr real_last) [0..<n]"

lemma boot_pages_Suc:
  "boot_pages h r (Suc n) = boot_pages h r n @ (if page_usable h r n then [n] else [])"
  by (simp add: boot_pages_def)

lemma boot_pages_lt: "i \<in> set (boot_pages h r n) \<Longrightarrow> i < n"
  by (auto simp: boot_pages_def)

text \<open>What holds after \<open>n\<close> turns of the loop, started in \<open>s\<close>.\<close>

definition boot_inv ::
    "(u32 \<Rightarrow> bool) \<Rightarrow> u32 \<Rightarrow> 'a page_state_scheme \<Rightarrow> nat \<Rightarrow> 'a page_state_scheme \<Rightarrow> bool" where
  "boot_inv h r s n t \<longleftrightarrow> free_list t (boot_pages h r n) \<and> NUM_PAGES t = NUM_PAGES s \<and>
     page_cache t = page_cache s \<and> NUM_CACHED_PAGES t = NUM_CACHED_PAGES s \<and>
     kernel_reserved t + physical_reserved t + num_free_pages t
       = kernel_reserved s + physical_reserved s + int n \<and>
     (\<forall>i < n. if page_usable h r i
        then pg_data (pages t i) = P2V (push_bit PAGE_SHIFT (of_nat i)) \<and> pg_flags (pages t i) = 0
        else pg_flags (pages t i) = PAGE_RESERVED \<and> pg_data (pages t i) = 0) \<and>
     (\<forall>i \<ge> n. page_data (pages t i) = page_data zero_page)"

lemma page_init_one_boot:
  assumes inv: "boot_inv h r s n t" and n: "n < NUM_PAGES s"
  shows "\<exists>u. page_init_one h r n t = Some u \<and> boot_inv h r s (Suc n) u"
proof -
  let ?a = "push_bit PAGE_SHIFT (of_nat n :: u32)"
  let ?t1 = "upd_page n (\<lambda>p. p\<lparr>pg_num := int n\<rparr>) t"
  have nm: "n \<notin> set (boot_pages h r n)" using boot_pages_lt by blast
  have l: "free_list t (boot_pages h r n)" using inv by (simp add: boot_inv_def)
  have l1: "free_list ?t1 (boot_pages h r n)" by (rule upd_page_free_list [OF l nm]) auto
  have z: "pg_usage (pages t n) = 0" "pg_flags (pages t n) = 0" "pg_data (pages t n) = 0"
    using inv by (auto simp: boot_inv_def page_data_def zero_page_def)
  have le: "i \<le> n \<longleftrightarrow> i < n \<or> i = n" for i by auto
  show ?thesis
  proof (cases "page_usable h r n")
    case False
    then have "page_init_one h r n t = Some (flag_as_kreserved n ?t1) \<or>
        page_init_one h r n t = Some (flag_as_reserved n ?t1)"
      using inv n by (auto simp: page_init_one_def page_usable_def boot_inv_def Let_def)
    moreover have "boot_inv h r s (Suc n) (flag_as_kreserved n ?t1)"
      "boot_inv h r s (Suc n) (flag_as_reserved n ?t1)"
      using inv False z flag_reserved_list [OF l1 nm]
      by (simp_all add: boot_inv_def boot_pages_Suc less_Suc_eq flag_as_kreserved_def
          flag_as_reserved_def page_data_def Let_def)
    ultimately show ?thesis by blast
  next
    case True
    let ?t2 = "upd_page n (\<lambda>p. p\<lparr>pg_data := P2V ?a\<rparr>) ?t1"
    have "free_list ?t2 (boot_pages h r n)" by (rule upd_page_free_list [OF l1 nm]) auto
    moreover have "n < NUM_PAGES ?t2" "pg_num (pages ?t2 n) = int n" "pg_usage (pages ?t2 n) = 0"
      using inv n z by (auto simp: boot_inv_def)
    ultimately obtain u where u: "insert_into_free_list n ?t2 = Some u" "free_list u (boot_pages h r n @ [n])"
      "same_pages ?t2 u" using insert_into_free_list_ok [OF _ nm] by blast
    have "page_init_one h r n t = Some u"
      using True inv n u(1) by (auto simp: page_init_one_def page_usable_def boot_inv_def Let_def)
    moreover have "boot_inv h r s (Suc n) u"
      using inv True u z insert_into_free_list_fields [OF u(1)] same_pagesD [OF u(3)]
      by (simp add: boot_inv_def boot_pages_Suc less_Suc_eq page_data_def)
    ultimately show ?thesis by blast
  qed
qed


lemma page_init_loop_boot:
  "boot_inv h r s 0 s \<Longrightarrow> n \<le> NUM_PAGES s \<Longrightarrow>
    \<exists>t. page_init_loop h r n s = Some t \<and> boot_inv h r s n t"
proof (induction n)
  case (Suc n)
  then obtain t where "page_init_loop h r n s = Some t" "boot_inv h r s n t" by auto
  moreover have "n < NUM_PAGES s" using Suc.prems by simp
  ultimately show ?case using page_init_one_boot [of h r s n t] by auto
qed simp

lemma page_init_boot:
  assumes "free_head s = None" "num_free_pages s = 0" "n \<le> NUM_PAGES s" "0 < NUM_CACHED_PAGES s"
  shows "\<exists>t. page_init has_addr real_last n s = Some t \<and>
    free_list t (boot_pages has_addr real_last n) \<and> cache_chains t (\<lambda>_. []) \<and>
    total_mem_pages t = int (length (boot_pages has_addr real_last n)) \<and>
    min_free_pages t = total_mem_pages t * 5 div 100 \<and>
    kernel_reserved t + physical_reserved t + total_mem_pages t
      = kernel_reserved s + physical_reserved s + int n \<and>
    (\<forall>i < n. if page_usable has_addr real_last i
       then pg_data (pages t i) = P2V (push_bit 12 (of_nat i)) \<and> pg_flags (pages t i) = 0
       else pg_flags (pages t i) = PAGE_RESERVED)"
proof -
  let ?s = "s\<lparr>pages := (\<lambda>_. zero_page), page_cache := (\<lambda>_. None)\<rparr>"
  have "boot_inv has_addr real_last ?s 0 ?s"
    using assms by (simp add: boot_inv_def boot_pages_def free_list_def)
  then obtain t where t: "page_init_loop has_addr real_last n ?s = Some t"
    "boot_inv has_addr real_last ?s n t"
    using page_init_loop_boot [of has_addr real_last ?s n] assms by auto
  let ?u = "t\<lparr>total_mem_pages := num_free_pages t, min_free_pages := num_free_pages t * 5 div 100\<rparr>"
  have "page_init has_addr real_last n s = Some ?u"
    using t(1) by (simp add: page_init_def FREE_PAGES_RATIO_def)
  moreover have l: "free_list t (boot_pages has_addr real_last n)" using t(2) by (simp add: boot_inv_def)
  moreover have "free_list ?u (boot_pages has_addr real_last n)" by (rule free_list_cong [OF l]) auto
  moreover have "num_free_pages t = int (length (boot_pages has_addr real_last n))"
    using l by (simp add: free_list_def)
  moreover have "cache_chains ?u (\<lambda>_. [])" using t(2) assms by (simp add: boot_inv_def cache_chains_def)
  ultimately show ?thesis
    using t(2) by (intro exI [of _ ?u]) (auto simp: boot_inv_def PAGE_SHIFT_def split: if_splits)
qed

text \<open>C4: starting with no free pages, \<open>page_init\<close> returns with the free list holding, in ascending
  order, exactly the pages that are outside the kernel image, are not the kernel stack page and lie in
  memory that the BIOS map reports; those have the kernel address of their frame, every other page is
  flagged reserved, and each page is counted once as free or as reserved.\<close>

theorem page_init_free_list:
  assumes "free_head s = None" "num_free_pages s = 0" "n \<le> NUM_PAGES s" "0 < NUM_CACHED_PAGES s"
  shows "\<exists>t. page_init has_addr real_last n s = Some t \<and>
    free_list t (boot_pages has_addr real_last n) \<and> cache_chains t (\<lambda>_. []) \<and>
    total_mem_pages t = int (length (boot_pages has_addr real_last n)) \<and>
    min_free_pages t = total_mem_pages t * 5 div 100 \<and>
    kernel_reserved t + physical_reserved t + total_mem_pages t
      = kernel_reserved s + physical_reserved s + int n \<and>
    (\<forall>i < n. if page_usable has_addr real_last i
       then pg_data (pages t i) = P2V (push_bit 12 (of_nat i)) \<and> pg_flags (pages t i) = 0
       else pg_flags (pages t i) = PAGE_RESERVED)"
  using assms by (rule page_init_boot)

theorem page_init_free_list_witness:
  "\<exists>t. page_init (\<lambda>a. a < 0xA0000) 0xC0104000 264
      (two_free_pages\<lparr>free_head := None, num_free_pages := 0, NUM_PAGES := 264\<rparr>) = Some t \<and>
    free_list t (boot_pages (\<lambda>a. a < 0xA0000) 0xC0104000 264)"
  using page_init_free_list [where s = "two_free_pages\<lparr>free_head := None, num_free_pages := 0, NUM_PAGES := 264\<rparr>"
      and n = 264 and has_addr = "\<lambda>a. a < 0xA0000" and real_last = "0xC0104000"]
  by (auto simp: two_free_pages_def)

section \<open>The cache table\<close>

text \<open>\<open>insert_into_cache\<close> puts a page that is in no chain at the front of the chain of its
  bucket, and \<open>remove_from_cache\<close> then takes it out and restores the chains, whatever else was cached.\<close>

theorem cache_insert_remove:
  assumes ch: "cache_chains s ch" and ino: "pg_inode (pages s pg) \<noteq> 0"
    and nw: "pg \<notin> set (ch (cache_key s pg))"
  shows "\<exists>t u. insert_into_cache pg s = Some t \<and>
    cache_chains t (ch(cache_key s pg := pg # ch (cache_key s pg))) \<and>
    page_cache_consumption t = page_cache_consumption s + 4 \<and>
    remove_from_cache pg t = Some u \<and> cache_chains u ch"
proof -
  let ?k = "cache_key s pg"
  have kl: "?k < NUM_CACHED_PAGES s" using ch by (simp add: cache_chains_def cache_key_lt)
  have l: "dlist (nxh s) (pvh s) (page_cache s ?k) (ch ?k)" using ch kl by (simp add: cache_chains_def)
  have i: "PAGE_CACHE_HASH (pg_inode (pages s pg)) (pg_offset (pages s pg)) s = Some ?k"
    using ch by (simp add: PAGE_CACHE_HASH_def cache_key_def cache_chains_def)
  obtain t where t: "insert_into_cache pg s = Some t"
    and f: "page_cache t = (page_cache s)(?k := Some pg)" "NUM_CACHED_PAGES t = NUM_CACHED_PAGES s"
      "page_cache_consumption t = page_cache_consumption s + 4"
      "\<And>j. pg_inode (pages t j) = pg_inode (pages s j)" "\<And>j. pg_offset (pages t j) = pg_offset (pages s j)"
    and nx: "nxh t = (nxh s)(pg := page_cache s ?k)"
    and pv: "pvh t = (case page_cache s ?k of None \<Rightarrow> (pvh s)(pg := None)
      | Some h \<Rightarrow> (pvh s)(pg := None, h := Some pg))"
    using that by (cases "page_cache s ?k") (auto simp: insert_into_cache_def i Let_def fun_eq_iff)
  have other: "dlist (nxh t) (pvh t) (page_cache s b) (ch b)" if b: "b < NUM_CACHED_PAGES s" "b \<noteq> ?k" for b
  proof -
    have "j \<noteq> pg \<and> page_cache s ?k \<noteq> Some j" if "j \<in> set (ch b)" for j
    proof -
      have "cache_key s j = b" using that ch b by (auto simp: cache_chains_def)
      moreover have "cache_key s h = ?k" if "page_cache s ?k = Some h" for h
      proof -
        have "h \<in> set (ch ?k)" using l that by (cases "ch ?k") (auto simp: dlist_def)
        then show ?thesis using ch kl unfolding cache_chains_def by blast
      qed
      ultimately show ?thesis using b by auto
    qed
    then have "dlist (nxh t) (pvh t) (page_cache s b) (ch b) = dlist (nxh s) (pvh s) (page_cache s b) (ch b)"
      by (intro dlist_cong) (auto simp: fun_cong [OF nx] fun_cong [OF pv] split: option.splits)
    then show ?thesis using ch b by (simp add: cache_chains_def)
  qed
  have own: "dlist (nxh t) (pvh t) (Some pg) (pg # ch ?k)"
  proof (cases "page_cache s ?k")
    case None
    then have "ch ?k = []" using l by simp
    then show ?thesis using None by (simp add: nx pv dlist_def)
  next
    case (Some h)
    then have "dlist (nxh s) (pvh s) (Some h) (ch ?k)" using l by simp
    note ld = this
    have "h \<noteq> pg" using ld nw by (cases "ch ?k") (auto simp: dlist_def)
    then show ?thesis
      by (intro dlist_push_Cons [OF ld]) (use nw Some in \<open>auto simp: nx fun_cong [OF pv]\<close>)
  qed
  let ?ch = "ch(?k := pg # ch ?k)"
  have ck: "cache_key t j = cache_key s j" for j by (simp add: cache_key_def f)
  have cht: "cache_chains t ?ch"
    using own other ch kl ino by (auto simp: cache_chains_def f ck)
  obtain u where "remove_from_cache pg t = Some u" "cache_chains u (drop_chain t pg ?ch)"
    using remove_from_cache_ok [OF cht] by blast
  moreover have "drop_chain t pg ?ch = ch" by (simp add: drop_chain_def ck)
  ultimately show ?thesis using t f(3) cht by auto
qed

theorem cache_insert_remove_witness:
  "\<exists>t u. insert_into_cache 2 (upd_page 2 (\<lambda>p. p\<lparr>pg_inode := 9\<rparr>) two_free_pages) = Some t \<and>
    cache_chains t (two_free_chains(1 := [2, 1])) \<and> remove_from_cache 2 t = Some u \<and>
    cache_chains u two_free_chains"
proof -
  let ?s = "upd_page 2 (\<lambda>p. p\<lparr>pg_inode := 9\<rparr>) two_free_pages"
  have "cache_chains ?s two_free_chains"
    by (rule upd_page_chains [OF two_free_pages_chains]) (simp add: two_free_chains_def)
  moreover have "cache_key ?s 2 = 1"
    by (simp add: cache_key_def two_free_pages_def zero_page_def)
  ultimately show ?thesis
    using cache_insert_remove [of ?s two_free_chains 2] by (auto simp: two_free_chains_def)
qed

end
