(* ===== verification/Buddy.thy ===== *)
theory Buddy
  imports Pages
begin

text \<open>
  The kernel heap: the buddy allocator of \<open>src/kernel/src/mem/buddy.c\<close> (with
  \<open>src/include/mem/buddy.h\<close>) and \<open>kmalloc\<close>/\<open>kfree\<close> of \<open>src/kernel/src/mem/alloc.c\<close>, on top of the
  page allocator. A block is known by its address; the header \<open>buddy_head_t\<close> at its start is kept in
  a store of headers indexed by block address. Headers of memory that no operation has written hold
  arbitrary values, since neither a page nor a block is cleared when it is handed out.

  \<open>kmalloc\<close> and \<open>buddy_alloc\<close> call each other, and so do \<open>kfree\<close> and \<open>buddy_dealloc\<close>; each
  pair is one partial function over a datatype of calls.
\<close>

section \<open>State\<close>

record buddy_head =
  bh_level :: u8
  bh_next :: "u32 option"
  bh_prev :: "u32 option"

record buddy_state = page_state +
  freelist :: "nat \<Rightarrow> u32 option"
  heads :: "u32 \<Rightarrow> buddy_head"

definition BUDDY_MAX_LEVEL :: nat where "BUDDY_MAX_LEVEL = 7"
definition BUDDY_SMALLEST_EXPONENT :: nat where "BUDDY_SMALLEST_EXPONENT = 5"
definition sizeof_buddy_head :: u32 where "sizeof_buddy_head = 12"

definition blocksizes :: "u32 list" where
  "blocksizes = [32, 64, 128, 256, 512, 1024, 2048, 4096]"

definition upd_head :: "u32 \<Rightarrow> (buddy_head \<Rightarrow> buddy_head) \<Rightarrow> 'a buddy_state_scheme \<Rightarrow> 'a buddy_state_scheme" where
  "upd_head b f s = s\<lparr>heads := (heads s)(b := f (heads s b))\<rparr>"

definition upd_freelist :: "nat \<Rightarrow> u32 option \<Rightarrow> 'a buddy_state_scheme \<Rightarrow> 'a buddy_state_scheme" where
  "upd_freelist l v s = s\<lparr>freelist := (freelist s)(l := v)\<rparr>"

text \<open>An integer used as a pointer, \<^const>\<open>None\<close> for the null pointer.\<close>

definition ptr :: "u32 \<Rightarrow> u32 option" where
  "ptr a = (if a = 0 then None else Some a)"

text \<open>The element of \<open>free_page_list\<close> that holds an address; indexing beyond the array is undefined.\<close>

definition addr_page :: "u32 \<Rightarrow> 'a page_state_scheme \<Rightarrow> nat option" where
  "addr_page addr s =
     (let i = unat (drop_bit PAGE_SHIFT (V2P addr)) in if i < NUM_PAGES s then Some i else None)"

section \<open>The free lists of blocks\<close>

definition level_of :: "u32 \<Rightarrow> 'a buddy_state_scheme \<Rightarrow> nat" where
  "level_of b s = unat (bh_level (heads s b))"

text \<open>Shifting a 32-bit one by 32 or more is undefined.\<close>

definition buddy_get :: "u32 \<Rightarrow> 'a buddy_state_scheme \<Rightarrow> u32 option" where
  "buddy_get block s = do {
     require (level_of block s + BUDDY_SMALLEST_EXPONENT < 32);
     let mask = push_bit (level_of block s + BUDDY_SMALLEST_EXPONENT) 1;
     Some (block XOR mask)
   }"

definition buddy_remove_from_freelist :: "u32 \<Rightarrow> 'a buddy_state_scheme \<Rightarrow> 'a buddy_state_scheme option" where
  "buddy_remove_from_freelist block s = do {
     let s = (case bh_next (heads s block) of None \<Rightarrow> s
              | Some n \<Rightarrow> upd_head n (\<lambda>h. h\<lparr>bh_prev := bh_prev (heads s block)\<rparr>) s);
     let s = (case bh_prev (heads s block) of None \<Rightarrow> s
              | Some p \<Rightarrow> upd_head p (\<lambda>h. h\<lparr>bh_next := bh_next (heads s block)\<rparr>) s);
     require (level_of block s \<le> BUDDY_MAX_LEVEL);
     Some (if freelist s (level_of block s) = Some block
           then upd_freelist (level_of block s) (bh_next (heads s block)) s else s)
   }"

text \<open>The search of \<open>buddy_dealloc\<close> for the buddy in a free list.\<close>

partial_function (option) buddy_find :: "u32 option \<Rightarrow> u32 option \<Rightarrow> 'a buddy_state_scheme \<Rightarrow> u32 option option" where
  "buddy_find p buddy s =
     (case p of None \<Rightarrow> Some None
      | Some b \<Rightarrow> if p = buddy then Some p else buddy_find (bh_next (heads s b)) buddy s)"

text \<open>The block goes to the front of the free list of its level.\<close>

definition buddy_prepend :: "nat \<Rightarrow> u32 \<Rightarrow> 'a buddy_state_scheme \<Rightarrow> 'a buddy_state_scheme" where
  "buddy_prepend level block s =
     (case freelist s level of
        None \<Rightarrow> upd_head block (\<lambda>h. h\<lparr>bh_prev := None, bh_next := None\<rparr>)
                 (upd_freelist level (Some block) s)
      | Some h \<Rightarrow>
         (let s = upd_head block (\<lambda>h'. h'\<lparr>bh_next := Some h\<rparr>) s;
              s = upd_head block (\<lambda>h'. h'\<lparr>bh_prev := None\<rparr>) s;
              s = upd_head h (\<lambda>h'. h'\<lparr>bh_prev := Some block\<rparr>) s
          in upd_freelist level (Some block) s))"

section \<open>Freeing\<close>

datatype free_call = Kfree u32 | Dealloc u32

text \<open>\<open>Dealloc b\<close> is \<open>buddy_dealloc(b)\<close>; \<open>Kfree a\<close> is \<open>kfree(a)\<close>, whose call of \<open>buddy_free\<close>
  steps back over the header. A search that ends on a null buddy address would dereference it.\<close>

partial_function (option) free_run :: "free_call \<Rightarrow> 'a buddy_state_scheme \<Rightarrow> 'a buddy_state_scheme option" where
  "free_run c s =
     (case c of
        Kfree addr \<Rightarrow> do {
          pg \<leftarrow> addr_page addr s;
          if pg_flags (pages s pg) AND PAGE_BUDDY \<noteq> 0 then free_run (Dealloc (addr - sizeof_buddy_head)) s
          else do { (s, _) \<leftarrow> page_release pg s; Some s }
        }
      | Dealloc block \<Rightarrow> do {
          let level = level_of block s;
          buddy \<leftarrow> buddy_get block s;
          require (level \<le> BUDDY_MAX_LEVEL);
          p \<leftarrow> buddy_find (freelist s level) (ptr buddy) s;
          if p = ptr buddy then do {
            require (buddy \<noteq> 0);
            s \<leftarrow> buddy_remove_from_freelist buddy s;
            s \<leftarrow> (if level < BUDDY_MAX_LEVEL - 1 then
                   (if block > buddy then
                      free_run (Dealloc buddy) (upd_head buddy (\<lambda>h. h\<lparr>bh_level := bh_level h + 1\<rparr>) s)
                    else
                      free_run (Dealloc block) (upd_head block (\<lambda>h. h\<lparr>bh_level := bh_level h + 1\<rparr>) s))
                 else Some s);
            if level = BUDDY_MAX_LEVEL - 1 then do {
              pg \<leftarrow> addr_page block s;
              free_run (Kfree block) (upd_page pg (\<lambda>q. q\<lparr>pg_flags := pg_flags q AND NOT PAGE_BUDDY\<rparr>) s)
            } else Some s
          }
          else Some (buddy_prepend level block s)
        })"

definition kfree :: "u32 \<Rightarrow> 'a buddy_state_scheme \<Rightarrow> 'a buddy_state_scheme option" where
  "kfree addr = free_run (Kfree addr)"

definition buddy_dealloc :: "u32 \<Rightarrow> 'a buddy_state_scheme \<Rightarrow> 'a buddy_state_scheme option" where
  "buddy_dealloc block = free_run (Dealloc block)"

definition buddy_free :: "u32 \<Rightarrow> 'a buddy_state_scheme \<Rightarrow> 'a buddy_state_scheme option" where
  "buddy_free addr s = buddy_dealloc (addr - sizeof_buddy_head) s"

definition buddy_init :: "'a buddy_state_scheme \<Rightarrow> 'a buddy_state_scheme" where
  "buddy_init s = s\<lparr>freelist := (\<lambda>_. None)\<rparr>"

section \<open>Allocation\<close>

text \<open>The first level whose blocks are large enough; reading past \<open>blocksizes\<close> is undefined.\<close>

fun level_for_loop :: "u32 list \<Rightarrow> nat \<Rightarrow> u32 \<Rightarrow> nat option" where
  "level_for_loop [] level sz = None"
| "level_for_loop (b # bs) level sz = (if b < sz then level_for_loop bs (level + 1) sz else Some level)"

definition level_for :: "u32 \<Rightarrow> nat option" where
  "level_for sz = level_for_loop blocksizes 0 sz"

datatype alloc_call = Kmalloc u32 | BuddyAlloc u32

text \<open>\<open>BuddyAlloc sz\<close> is \<open>buddy_alloc(sz)\<close>, returning the address of the block or 0. As in the
  code, the branch after splitting runs when no block was found, and then writes through the null
  pointer.\<close>

partial_function (option) alloc_run ::
    "('a buddy_state_scheme \<Rightarrow> 'a buddy_state_scheme) \<Rightarrow> alloc_call \<Rightarrow> 'a buddy_state_scheme \<Rightarrow>
     (u32 \<times> 'a buddy_state_scheme) option" where
  "alloc_run slp c s =
     (case c of
        Kmalloc sz \<Rightarrow>
          if sz + sizeof_buddy_head \<le> blocksizes ! (BUDDY_MAX_LEVEL - 1) then do {
            (block, s) \<leftarrow> alloc_run slp (BuddyAlloc (sz + sizeof_buddy_head)) s;
            Some (if block \<noteq> 0 then block + sizeof_buddy_head else 0, s)
          }
          else if sz > PAGE_SIZE then Some (0, s)
          else do {
            (pg, s) \<leftarrow> page_get_free slp s;
            (case pg of None \<Rightarrow> Some (0, s)
             | Some pg \<Rightarrow>
                Some (P2V (push_bit PAGE_SHIFT (word_of_int (pg_num (pages s pg)))), s))
          }
      | BuddyAlloc sz \<Rightarrow> do {
          level \<leftarrow> level_for sz;
          if level = BUDDY_MAX_LEVEL then do {
            (addr, s) \<leftarrow> alloc_run slp (Kmalloc PAGE_SIZE) s;
            if addr \<noteq> 0 then do {
              pg \<leftarrow> addr_page addr s;
              let s = upd_page pg (\<lambda>q. q\<lparr>pg_flags := pg_flags q OR PAGE_BUDDY\<rparr>) s;
              Some (addr, upd_head addr (\<lambda>h. h\<lparr>bh_prev := None, bh_next := None\<rparr>) s)
            } else Some (0, s)
          }
          else (case freelist s level of
            Some block \<Rightarrow> do { s \<leftarrow> buddy_remove_from_freelist block s; Some (block, s) }
          | None \<Rightarrow> do {
              (block, s) \<leftarrow> alloc_run slp (BuddyAlloc (blocksizes ! (level + 1))) s;
              if block = 0 then None else Some (block, s)
            })
        })"

definition kmalloc :: "('a buddy_state_scheme \<Rightarrow> 'a buddy_state_scheme) \<Rightarrow> u32 \<Rightarrow>
    'a buddy_state_scheme \<Rightarrow> (u32 \<times> 'a buddy_state_scheme) option" where
  "kmalloc slp sz = alloc_run slp (Kmalloc sz)"

definition buddy_alloc :: "('a buddy_state_scheme \<Rightarrow> 'a buddy_state_scheme) \<Rightarrow> u32 \<Rightarrow>
    'a buddy_state_scheme \<Rightarrow> (u32 \<times> 'a buddy_state_scheme) option" where
  "buddy_alloc slp sz = alloc_run slp (BuddyAlloc sz)"

definition buddy_malloc :: "('a buddy_state_scheme \<Rightarrow> 'a buddy_state_scheme) \<Rightarrow> u32 \<Rightarrow>
    'a buddy_state_scheme \<Rightarrow> (u32 \<times> 'a buddy_state_scheme) option" where
  "buddy_malloc slp sz s = do {
     (block, s) \<leftarrow> buddy_alloc slp sz s;
     Some (if block \<noteq> 0 then block + sizeof_buddy_head else 0, s)
   }"


section \<open>The invariant of the block lists\<close>

abbreviation bnx :: "'a buddy_state_scheme \<Rightarrow> u32 \<Rightarrow> u32 option" where
  "bnx s \<equiv> \<lambda>b. bh_next (heads s b)"
abbreviation bpv :: "'a buddy_state_scheme \<Rightarrow> u32 \<Rightarrow> u32 option" where
  "bpv s \<equiv> \<lambda>b. bh_prev (heads s b)"

lemma upd_head_simps [simp]:
  "heads (upd_head b f s) = (heads s)(b := f (heads s b))"
  "freelist (upd_head b f s) = freelist s"
  "pages (upd_head b f s) = pages s"
  "NUM_PAGES (upd_head b f s) = NUM_PAGES s"
  "free_head (upd_head b f s) = free_head s"
  "num_free_pages (upd_head b f s) = num_free_pages s"
  "page_cache (upd_head b f s) = page_cache s"
  "NUM_CACHED_PAGES (upd_head b f s) = NUM_CACHED_PAGES s"
  by (simp_all add: upd_head_def)

lemma upd_freelist_simps [simp]:
  "heads (upd_freelist l v s) = heads s"
  "freelist (upd_freelist l v s) = (freelist s)(l := v)"
  "pages (upd_freelist l v s) = pages s"
  "NUM_PAGES (upd_freelist l v s) = NUM_PAGES s"
  "free_head (upd_freelist l v s) = free_head s"
  "num_free_pages (upd_freelist l v s) = num_free_pages s"
  "page_cache (upd_freelist l v s) = page_cache s"
  "NUM_CACHED_PAGES (upd_freelist l v s) = NUM_CACHED_PAGES s"
  by (simp_all add: upd_freelist_def)

lemma upd_page_buddy [simp]:
  "heads (upd_page i g s) = heads s" "freelist (upd_page i g s) = freelist s"
  by (simp_all add: upd_page_def)

text \<open>List \<open>fl l\<close> hangs in the free list of level \<open>l\<close>, and its blocks have that level. The levels keep
  the lists disjoint.\<close>

definition buddy_lists :: "'a buddy_state_scheme \<Rightarrow> (nat \<Rightarrow> u32 list) \<Rightarrow> bool" where
  "buddy_lists s fl \<longleftrightarrow> (\<forall>l \<le> BUDDY_MAX_LEVEL. dlist (bnx s) (bpv s) (freelist s l) (fl l) \<and>
     (\<forall>b \<in> set (fl l). level_of b s = l))"

definition off_lists :: "u32 \<Rightarrow> (nat \<Rightarrow> u32 list) \<Rightarrow> bool" where
  "off_lists b fl \<longleftrightarrow> (\<forall>l \<le> BUDDY_MAX_LEVEL. b \<notin> set (fl l))"

lemma buddy_lists_cong:
  assumes "buddy_lists s fl"
    and "\<And>l b. l \<le> BUDDY_MAX_LEVEL \<Longrightarrow> b \<in> set (fl l) \<Longrightarrow> heads t b = heads s b"
    and "freelist t = freelist s"
  shows "buddy_lists t fl"
proof -
  have "dlist (bnx t) (bpv t) (freelist s l) (fl l) = dlist (bnx s) (bpv s) (freelist s l) (fl l)"
    if "l \<le> BUDDY_MAX_LEVEL" for l
    by (rule dlist_cong) (use assms(2) that in auto)
  with assms show ?thesis by (auto simp: buddy_lists_def level_of_def)
qed

lemma buddy_lists_upd_off:
  "buddy_lists s fl \<Longrightarrow> off_lists b fl \<Longrightarrow> buddy_lists (upd_head b f s) fl"
  by (erule buddy_lists_cong) (auto simp: off_lists_def)

lemma buddy_lists_other_level:
  assumes "buddy_lists s fl" "l \<le> BUDDY_MAX_LEVEL" "k \<le> BUDDY_MAX_LEVEL" "l \<noteq> k" "b \<in> set (fl k)"
  shows "b \<notin> set (fl l)"
  using assms unfolding buddy_lists_def by metis

text \<open>The search finds the buddy exactly when it is in the list.\<close>

lemma buddy_find_list:
  "slist (bnx s) p xs \<Longrightarrow> buddy_find p (Some b) s = Some (if b \<in> set xs then Some b else None)"
proof (induction xs arbitrary: p)
  case Nil
  then show ?case by (simp add: buddy_find.simps)
next
  case (Cons x xs)
  then show ?case by (auto simp: buddy_find.simps [of "Some x"])
qed

text \<open>Unlinking a block of a list.\<close>

lemma buddy_remove_from_freelist_ok:
  assumes bl: "buddy_lists s fl" and l: "l \<le> BUDDY_MAX_LEVEL" and b: "b \<in> set (fl l)"
  shows "\<exists>t. buddy_remove_from_freelist b s = Some t \<and> buddy_lists t (fl(l := remove1 b (fl l))) \<and>
    (\<forall>c. bh_level (heads t c) = bh_level (heads s c)) \<and> page_state.truncate t = page_state.truncate s"
proof -
  have d: "dlist (bnx s) (bpv s) (freelist s l) (fl l)" and lv: "level_of b s = l"
    using bl l b by (auto simp: buddy_lists_def)
  obtain us vs where xs: "fl l = us @ b # vs" using b by (meson split_list)
  have dd: "distinct (us @ b # vs)" using dlist_distinct [OF d] xs by simp
  note nb = dlist_neighbours [OF d [unfolded xs]]
  have self: "bnx s b \<noteq> Some b" "bpv s b \<noteq> Some b"
    using nb dd by (auto split: if_splits)
  let ?s1 = "case bh_next (heads s b) of None \<Rightarrow> s
              | Some n \<Rightarrow> upd_head n (\<lambda>h. h\<lparr>bh_prev := bh_prev (heads s b)\<rparr>) s"
  let ?s2 = "case bh_prev (heads ?s1 b) of None \<Rightarrow> ?s1
              | Some p \<Rightarrow> upd_head p (\<lambda>h. h\<lparr>bh_next := bh_next (heads ?s1 b)\<rparr>) ?s1"
  let ?t = "if freelist s l = Some b then upd_freelist l (bnx s b) ?s2 else ?s2"
  have own: "bh_next (heads ?s2 b) = bnx s b" "level_of b ?s2 = l" "freelist ?s2 = freelist s"
    using self lv by (auto simp: level_of_def split: option.splits)
  have eq: "buddy_remove_from_freelist b s = Some ?t"
    unfolding buddy_remove_from_freelist_def Let_def by (simp only: own l require_True Option.bind.bind_lunit)
  have lvls: "bh_level (heads ?t c) = bh_level (heads s c)" for c by (auto split: option.splits)
  have tr: "page_state.truncate ?t = page_state.truncate s"
    by (auto simp: upd_head_def upd_freelist_def page_state.truncate_def split: option.splits)
  have nx: "bnx ?t = unlink_nx (bnx s) (bpv s) b" and pv: "bpv ?t = unlink_pv (bnx s) (bpv s) b"
    using self by (auto simp: unlink_nx_def unlink_pv_def fun_eq_iff split: option.splits)
  have fr: "freelist ?t = (freelist s)(l := if freelist s l = Some b then bnx s b else freelist s l)"
    by (auto split: option.splits)
  have "dlist (bnx ?t) (bpv ?t) (freelist ?t k) ((fl(l := remove1 b (fl l))) k)"
    if k: "k \<le> BUDDY_MAX_LEVEL" for k
  proof (cases "k = l")
    case True
    then show ?thesis unfolding nx pv fr using dlist_unlink_remove1 [OF d b] by simp
  next
    case False
    have "dlist (bnx ?t) (bpv ?t) (freelist s k) (fl k) = dlist (bnx s) (bpv s) (freelist s k) (fl k)"
      unfolding nx pv
      by (rule dlist_cong)
        (use unlink_outside [OF d b] buddy_lists_other_level [OF bl l k] False in \<open>metis\<close>)
    then show ?thesis using bl k False by (simp add: fr buddy_lists_def)
  qed
  moreover have "level_of c ?t = level_of c s" for c using lvls by (simp only: level_of_def)
  ultimately have "buddy_lists ?t (fl(l := remove1 b (fl l)))"
    using bl set_remove1_subset [of b "fl l"] unfolding buddy_lists_def by (auto split: if_splits)
  then show ?thesis using eq lvls tr by blast
qed


lemma buddy_prepend_ok:
  assumes bl: "buddy_lists s fl" and l: "level_of b s = l" "l \<le> BUDDY_MAX_LEVEL" and b: "off_lists b fl"
  shows "buddy_lists (buddy_prepend l b s) (fl(l := b # fl l))"
    and "page_state.truncate (buddy_prepend l b s) = page_state.truncate s"
proof -
  let ?t = "buddy_prepend l b s"
  have d: "dlist (bnx s) (bpv s) (freelist s k) (fl k)" if "k \<le> BUDDY_MAX_LEVEL" for k
    using bl that by (simp add: buddy_lists_def)
  have nb: "b \<notin> set (fl k)" if "k \<le> BUDDY_MAX_LEVEL" for k using b that by (simp add: off_lists_def)
  show "page_state.truncate ?t = page_state.truncate s"
    by (auto simp: buddy_prepend_def Let_def upd_head_def upd_freelist_def page_state.truncate_def
        split: option.splits)
  have lv: "level_of c ?t = level_of c s" for c
    by (auto simp: buddy_prepend_def Let_def level_of_def split: option.splits)
  have fr: "freelist ?t = (freelist s)(l := Some b)"
    by (auto simp: buddy_prepend_def Let_def split: option.splits)
  have nx: "bnx ?t = (bnx s)(b := freelist s l)"
    by (auto simp: buddy_prepend_def Let_def fun_eq_iff split: option.splits)
  have pv: "bpv ?t c = (if freelist s l = Some c then Some b else if c = b then None else bpv s c)" for c
    by (auto simp: buddy_prepend_def Let_def split: option.splits)
  have hd: "freelist s l = Some h \<Longrightarrow> h \<in> set (fl l)" for h
    using d [OF l(2)] by (cases "fl l") (auto simp: dlist_def)
  have "dlist (bnx ?t) (bpv ?t) (Some b) (b # fl l)"
  proof (cases "freelist s l")
    case None
    then have "fl l = []" using d [OF l(2)] by simp
    then show ?thesis using None fun_cong [OF nx, of b] pv [of b] by (simp add: dlist_def)
  next
    case (Some h)
    have "h \<noteq> b" using hd Some nb l by auto
    then show ?thesis
      using dlist_push_Cons [OF d [OF l(2), unfolded Some] nb [OF l(2)], of "bnx ?t" "bpv ?t"] nx pv Some
      by simp
  qed
  moreover have "dlist (bnx ?t) (bpv ?t) (freelist s k) (fl k)" if k: "k \<le> BUDDY_MAX_LEVEL" "k \<noteq> l" for k
  proof -
    have "freelist s l \<noteq> Some c \<and> c \<noteq> b" if "c \<in> set (fl k)" for c
      using hd buddy_lists_other_level [OF bl l(2) k(1)] k nb that by metis
    then have "dlist (bnx ?t) (bpv ?t) (freelist s k) (fl k) = dlist (bnx s) (bpv s) (freelist s k) (fl k)"
      by (intro dlist_cong) (simp add: fun_cong [OF nx] pv)
    then show ?thesis using d k by simp
  qed
  ultimately show "buddy_lists ?t (fl(l := b # fl l))"
    using bl l by (auto simp: buddy_lists_def lv fr)
qed

section \<open>Freeing refines merging on lists\<close>

text \<open>What \<open>buddy_dealloc\<close> does to the lists: merge with the buddy as long as it is free, at the end
  put the block on its list, or give the page back when two halves of a page have met.\<close>

function dealloc_spec :: "nat \<Rightarrow> u32 \<Rightarrow> (nat \<Rightarrow> u32 list) \<Rightarrow> (nat \<Rightarrow> u32 list) \<times> u32 option" where
  "dealloc_spec l b fl =
     (let buddy = b XOR push_bit (l + 5) 1; fl' = fl(l := remove1 buddy (fl l)) in
      if buddy \<notin> set (fl l) then (fl(l := b # fl l), None)
      else if l < 6 then dealloc_spec (l + 1) (min b buddy) fl'
      else (fl', if l = 6 then Some b else None))"
  by pat_completeness auto
termination by (relation "measure (\<lambda>(l, _). 6 - l)") auto

declare dealloc_spec.simps [simp del]

lemma word_nat_inv: "unat (w :: 'a::len word) = l \<Longrightarrow> w = of_nat l"
  by auto

lemma level_cases: "l \<le> 7 \<Longrightarrow> (l :: nat) \<in> {0, 1, 2, 3, 4, 5, 6, 7}"
  by auto

lemma xor_bit_high:
  fixes b :: u32
  assumes "l \<le> 7"
  shows "drop_bit 13 (b XOR push_bit (l + 5) 1) = drop_bit 13 b"
proof -
  have "drop_bit 13 (push_bit (l + 5) (1 :: u32)) = 0"
    using level_cases [OF assms] by (elim insertE emptyE) simp_all
  then show ?thesis by simp
qed

lemma xor_bit_neq:
  fixes b :: u32
  assumes "l \<le> 7"
  shows "b XOR push_bit (l + 5) 1 \<noteq> b"
proof
  assume "b XOR push_bit (l + 5) 1 = b"
  then have "(b XOR push_bit (l + 5) 1) XOR b = 0" by simp
  then have "push_bit (l + 5) (1 :: u32) = 0" by (simp add: xor.assoc xor.commute xor.left_commute)
  then show False using level_cases [OF assms] by (elim insertE emptyE) simp_all
qed

text \<open>The tail of a merge that completed a page.\<close>

definition release_block :: "u32 option \<Rightarrow> 'a buddy_state_scheme \<Rightarrow> 'a buddy_state_scheme option" where
  "release_block r t = (case r of None \<Rightarrow> Some t
     | Some b \<Rightarrow> do {
         pg \<leftarrow> addr_page b t;
         (u, _) \<leftarrow> page_release pg (upd_page pg (\<lambda>q. q\<lparr>pg_flags := pg_flags q AND NOT PAGE_BUDDY\<rparr>) t);
         Some u
       })"

lemma free_run_release:
  "addr_page b t = Some pg \<Longrightarrow>
    free_run (Kfree b) (upd_page pg (\<lambda>q. q\<lparr>pg_flags := pg_flags q AND NOT PAGE_BUDDY\<rparr>) t) =
    release_block (Some b) t"
  by (simp add: free_run.simps release_block_def addr_page_def Let_def and.assoc split: if_splits)

text \<open>The first steps of \<open>buddy_dealloc\<close>, and its end when the buddy is not free.\<close>

lemma dealloc_search:
  assumes bl: "buddy_lists s fl" and lv: "level_of b s = l" and l7: "l \<le> 7" and b: "drop_bit 13 b \<noteq> 0"
  shows "buddy_get b s = Some (b XOR push_bit (l + 5) 1)" "b XOR push_bit (l + 5) 1 \<noteq> 0"
    "buddy_find (freelist s l) (ptr (b XOR push_bit (l + 5) 1)) s =
      Some (if b XOR push_bit (l + 5) 1 \<in> set (fl l) then Some (b XOR push_bit (l + 5) 1) else None)"
proof -
  have "l \<le> BUDDY_MAX_LEVEL" using l7 by (simp add: BUDDY_MAX_LEVEL_def)
  then have d: "dlist (bnx s) (bpv s) (freelist s l) (fl l)" using bl by (simp add: buddy_lists_def)
  show "buddy_get b s = Some (b XOR push_bit (l + 5) 1)"
    using l7 lv by (simp add: buddy_get_def BUDDY_SMALLEST_EXPONENT_def)
  show nz: "b XOR push_bit (l + 5) 1 \<noteq> 0" using b xor_bit_high [OF l7, of b] by (metis drop_bit_of_0)
  show "buddy_find (freelist s l) (ptr (b XOR push_bit (l + 5) 1)) s =
      Some (if b XOR push_bit (l + 5) 1 \<in> set (fl l) then Some (b XOR push_bit (l + 5) 1) else None)"
    using buddy_find_list [OF dlist_slist [OF d], of "b XOR push_bit (l + 5) 1"] nz by (simp add: ptr_def)
qed

lemma dealloc_no_buddy:
  assumes bl: "buddy_lists s fl" and lv: "level_of b s = l" and l7: "l \<le> 7" and b: "drop_bit 13 b \<noteq> 0"
    and no: "b XOR push_bit (l + 5) 1 \<notin> set (fl l)"
  shows "free_run (Dealloc b) s = Some (buddy_prepend l b s)"
  using dealloc_search [OF bl lv l7 b] no lv l7
  by (simp add: free_run.simps [of "Dealloc b"] ptr_def BUDDY_MAX_LEVEL_def)

lemma dealloc_refines:
  assumes "buddy_lists s fl" "off_lists b fl" "level_of b s = l" "l \<le> 7" "drop_bit 13 b \<noteq> 0"
  shows "\<exists>t. buddy_lists t (fst (dealloc_spec l b fl)) \<and> page_state.truncate t = page_state.truncate s \<and>
    free_run (Dealloc b) s = release_block (snd (dealloc_spec l b fl)) t"
  using assms
proof (induction l b fl arbitrary: s rule: dealloc_spec.induct)
  case (1 l b fl)
  let ?bud = "b XOR push_bit (l + 5) (1 :: u32)"
  let ?fl = "fl(l := remove1 ?bud (fl l))"
  note bl = "1.prems"(1) and off = "1.prems"(2) and lv = "1.prems"(3) and l7 = "1.prems"(4)
  have lM: "l \<le> BUDDY_MAX_LEVEL" using l7 by (simp add: BUDDY_MAX_LEVEL_def)
  have d: "dlist (bnx s) (bpv s) (freelist s l) (fl l)" using bl lM by (simp add: buddy_lists_def)
  have bud13: "drop_bit 13 ?bud = drop_bit 13 b" by (rule xor_bit_high [OF l7])
  note search = dealloc_search [OF bl lv l7 "1.prems"(5)]
  note get = search(1) and bud0 = search(2) and find = search(3)
  show ?case
  proof (cases "?bud \<in> set (fl l)")
    case False
    then have "free_run (Dealloc b) s = Some (buddy_prepend l b s)"
      by (rule dealloc_no_buddy [OF bl lv l7 "1.prems"(5)])
    moreover have "dealloc_spec l b fl = (fl(l := b # fl l), None)"
      using False by (simp add: dealloc_spec.simps [of l b fl] Let_def)
    ultimately show ?thesis
      using buddy_prepend_ok [OF bl lv lM off] by (auto simp: release_block_def simp del: fun_upd_apply)
  next
    case True
    obtain s1 where s1: "buddy_remove_from_freelist ?bud s = Some s1" "buddy_lists s1 ?fl"
      "\<And>c. bh_level (heads s1 c) = bh_level (heads s c)" "page_state.truncate s1 = page_state.truncate s"
      using buddy_remove_from_freelist_ok [OF bl lM True] by blast
    have lvb: "bh_level (heads s b) = of_nat l" "bh_level (heads s ?bud) = of_nat l"
    proof -
      have "level_of ?bud s = l" using bl lM True unfolding buddy_lists_def by blast
      with lv show "bh_level (heads s b) = of_nat l" "bh_level (heads s ?bud) = of_nat l"
        unfolding level_of_def by (blast intro: word_nat_inv)+
    qed
    let ?nb = "min b ?bud"
    let ?s2 = "upd_head ?nb (\<lambda>h. h\<lparr>bh_level := bh_level h + 1\<rparr>) s1"
    show ?thesis
    proof (cases "l < 6")
      case l6: True
      have sp: "dealloc_spec l b fl = dealloc_spec (l + 1) ?nb ?fl"
        using True l6 by (subst dealloc_spec.simps) (simp add: Let_def)
      have offn: "off_lists ?nb ?fl"
      proof -
        have "?bud \<notin> set (?fl k)" if "k \<le> BUDDY_MAX_LEVEL" for k
          using dlist_distinct [OF d] buddy_lists_other_level [OF bl that lM _ True] that by auto
        moreover have "b \<notin> set (?fl k)" if "k \<le> BUDDY_MAX_LEVEL" for k
          using off that set_remove1_subset [of ?bud "fl l"] by (auto simp: off_lists_def)
        ultimately show ?thesis by (auto simp: off_lists_def min_def)
      qed
      have lv2: "level_of ?nb ?s2 = l + 1"
      proof -
        have "bh_level (heads s1 ?nb) = of_nat l" using s1(3) lvb by (simp add: min_def)
        then have "level_of ?nb ?s2 = unat (of_nat (l + 1) :: u8)" by (simp add: level_of_def add.commute)
        also have "\<dots> = l + 1" using l6 by (simp add: unat_of_nat take_bit_nat_eq_self del: of_nat_Suc of_nat_add)
        finally show ?thesis .
      qed
      have "drop_bit 13 ?nb \<noteq> 0" using "1.prems"(5) bud13 by (simp add: min_def)
      then obtain t where t: "buddy_lists t (fst (dealloc_spec l b fl))"
        "page_state.truncate t = page_state.truncate ?s2"
        "free_run (Dealloc ?nb) ?s2 = release_block (snd (dealloc_spec l b fl)) t"
        using "1.IH" [OF refl refl _ l6 buddy_lists_upd_off [OF s1(2) offn] offn lv2] True l6
        unfolding sp by fastforce
      have "free_run (Dealloc b) s = free_run (Dealloc ?nb) ?s2"
        using get find lv lM bud0 True l6 s1(1)
        by (subst free_run.simps)
          (auto simp: ptr_def BUDDY_MAX_LEVEL_def min_def not_less dest: order.antisym split: if_splits)
      moreover have "page_state.truncate ?s2 = page_state.truncate s"
        using s1(4) by (simp add: upd_head_def page_state.truncate_def)
      ultimately show ?thesis using t by auto
    next
      case l6: False
      have sp: "dealloc_spec l b fl = (?fl, if l = 6 then Some b else None)"
        using True l6 by (subst dealloc_spec.simps) (simp add: Let_def)
      have "free_run (Dealloc b) s = release_block (if l = 6 then Some b else None) s1"
      proof (cases "l = 6")
        case False
        then show ?thesis
          using get find lv lM bud0 True l6 s1(1)
          by (subst free_run.simps) (simp add: ptr_def BUDDY_MAX_LEVEL_def release_block_def)
      next
        case l66: True
        then have "free_run (Dealloc b) s = do {
            pg \<leftarrow> addr_page b s1;
            free_run (Kfree b) (upd_page pg (\<lambda>q. q\<lparr>pg_flags := pg_flags q AND NOT PAGE_BUDDY\<rparr>) s1) }"
          using get find lv lM bud0 True s1(1)
          by (subst free_run.simps) (simp add: ptr_def BUDDY_MAX_LEVEL_def)
        then show ?thesis
          using l66 free_run_release [of b s1] by (cases "addr_page b s1") (auto simp: release_block_def)
      qed
      then show ?thesis unfolding sp fst_conv snd_conv using s1 by blast
    qed
  qed
qed


text \<open>C6: for every state whose free lists are the lists \<open>fl\<close>, \<open>buddy_dealloc\<close> of a block that
  is on no list does what \<open>dealloc_spec\<close> says: it joins the block with its buddy, and the result with
  its own buddy, as long as they are free, and puts what it got at the head of the list of its level, or,
  when it has a whole page, clears the page's \<open>PAGE_BUDDY\<close> flag and releases the page.\<close>

theorem buddy_dealloc_refines:
  assumes "buddy_lists s fl" "off_lists b fl" "level_of b s = l" "l \<le> 7" "drop_bit 13 b \<noteq> 0"
  shows "\<exists>t. buddy_lists t (fst (dealloc_spec l b fl)) \<and> page_state.truncate t = page_state.truncate s \<and>
    buddy_dealloc b s = release_block (snd (dealloc_spec l b fl)) t"
  unfolding buddy_dealloc_def by (rule dealloc_refines [OF assms])

definition fresh_head :: buddy_head where
  "fresh_head = \<lparr>bh_level = 0, bh_next = None, bh_prev = None\<rparr>"

definition two_free_blocks :: buddy_state where
  "two_free_blocks = page_state.extend (two_free_pages\<lparr>pages :=
       (pages two_free_pages)(2 := zero_page\<lparr>pg_num := 2, pg_usage := 1, pg_flags := 0x10\<rparr>)\<rparr>)
     (buddy_state.fields (\<lambda>l. if l = 5 then Some 0xC0002400 else if l = 6 then Some 0xC0002800 else None)
       (\<lambda>b. if b = 0xC0002000 \<or> b = 0xC0002400 then \<lparr>bh_level = 5, bh_next = None, bh_prev = None\<rparr>
            else if b = 0xC0002800 then \<lparr>bh_level = 6, bh_next = None, bh_prev = None\<rparr>
            else \<lparr>bh_level = 0, bh_next = None, bh_prev = None\<rparr>))"

text \<open>Two levels of merging give the page back.\<close>

theorem buddy_dealloc_refines_witness:
  "\<exists>t u w. buddy_dealloc 0xC0002000 two_free_blocks = Some u \<and> buddy_lists t (\<lambda>_. []) \<and>
    page_release 2 (upd_page 2 (\<lambda>q. q\<lparr>pg_flags := pg_flags q AND NOT PAGE_BUDDY\<rparr>) t) = Some (u, w)"
proof -
  let ?fl = "\<lambda>l :: nat. if l = 5 then [0xC0002400 :: u32] else if l = 6 then [0xC0002800] else []"
  have sp: "dealloc_spec 5 0xC0002000 ?fl = (\<lambda>_. [], Some 0xC0002000)"
    by (simp add: dealloc_spec.simps Let_def fun_eq_iff)
  have "buddy_lists two_free_blocks ?fl" "off_lists 0xC0002000 ?fl" "level_of 0xC0002000 two_free_blocks = 5"
    by (simp_all add: buddy_lists_def off_lists_def level_of_def two_free_blocks_def
        page_state.extend_def buddy_state.fields_def dlist_def)
  then obtain t where t: "buddy_lists t (\<lambda>_. [])"
    "page_state.truncate t = page_state.truncate two_free_blocks"
    "buddy_dealloc 0xC0002000 two_free_blocks = release_block (Some 0xC0002000) t"
    using buddy_dealloc_refines [of two_free_blocks ?fl "0xC0002000" 5] sp by auto
  then have np: "NUM_PAGES t = 8" "pages t 2 = zero_page\<lparr>pg_num := 2, pg_usage := 1, pg_flags := 0x10\<rparr>"
    "free_head t = Some 1" "pvf t (Suc 0) = Some 0"
    by (auto simp: page_state.truncate_def two_free_blocks_def two_free_pages_def page_state.extend_def)
  have "\<exists>u w. page_release 2 (upd_page 2 (\<lambda>q. q\<lparr>pg_flags := pg_flags q AND NOT PAGE_BUDDY\<rparr>) t) = Some (u, w)"
    by (simp add: page_release_def page_is_valid_def insert_into_free_list_def np zero_page_def
        two_free_pages_def Let_def)
  then obtain u w where u:
    "page_release 2 (upd_page 2 (\<lambda>q. q\<lparr>pg_flags := pg_flags q AND NOT PAGE_BUDDY\<rparr>) t) = Some (u, w)" by blast
  then have "buddy_dealloc 0xC0002000 two_free_blocks = Some u"
    unfolding t(3) by (simp add: release_block_def addr_page_def Let_def V2P_def KERNEL_PAGE_OFFSET_def PAGE_SHIFT_def np)
  then show ?thesis by (intro exI conjI) (assumption, rule t(1), rule u)
qed

section \<open>Allocation on every path\<close>

lemma level_for_blocksizes: "k \<le> 7 \<Longrightarrow> level_for (blocksizes ! k) = Some k"
  by (drule level_cases, elim insertE emptyE) (simp_all add: level_for_def blocksizes_def)

lemma level_for_le: "level_for sz = Some l \<Longrightarrow> l \<le> 7"
  by (auto simp: level_for_def blocksizes_def split: if_splits)

text \<open>With every list from its level up empty, a request for a block becomes a request for a page,
  whatever its size; a failure to get one is fatal unless the page itself was asked for.\<close>

definition page_block :: "nat \<Rightarrow> (u32 \<times> 'a buddy_state_scheme) \<Rightarrow> (u32 \<times> 'a buddy_state_scheme) option" where
  "page_block l r = (case r of (addr, s) \<Rightarrow>
     if addr \<noteq> 0 then do {
       pg \<leftarrow> addr_page addr s;
       let s = upd_page pg (\<lambda>q. q\<lparr>pg_flags := pg_flags q OR PAGE_BUDDY\<rparr>) s;
       Some (addr, upd_head addr (\<lambda>h. h\<lparr>bh_prev := None, bh_next := None\<rparr>) s)
     } else if l = BUDDY_MAX_LEVEL then Some (0, s) else None)"

lemma buddy_alloc_page:
  assumes "level_for sz = Some l" "\<forall>k. l \<le> k \<and> k < 7 \<longrightarrow> freelist s k = None"
  shows "alloc_run slp (BuddyAlloc sz) s = Option.bind (alloc_run slp (Kmalloc PAGE_SIZE) s) (page_block l)"
  using assms
proof (induction "7 - l" arbitrary: l sz)
  case 0
  then have "l = 7" using level_for_le [OF 0(2)] by simp
  then show ?case
    using 0 by (subst alloc_run.simps)
      (auto simp: BUDDY_MAX_LEVEL_def page_block_def Let_def cong: option.case_cong intro!: Option.bind_cong)
next
  case (Suc n)
  then have l: "l < 7" by simp
  have "alloc_run slp (BuddyAlloc (blocksizes ! (l + 1))) s =
      Option.bind (alloc_run slp (Kmalloc PAGE_SIZE) s) (page_block (l + 1))"
    using Suc l by (intro Suc.hyps) (auto simp: level_for_blocksizes)
  moreover have "freelist s l = None" using Suc.prems l by simp
  ultimately have "alloc_run slp (BuddyAlloc sz) s =
      Option.bind (Option.bind (alloc_run slp (Kmalloc PAGE_SIZE) s) (page_block (l + 1)))
        (\<lambda>(block, s). if block = 0 then None else Some (block, s))"
    using Suc.prems l by (subst alloc_run.simps) (simp add: BUDDY_MAX_LEVEL_def)
  then show ?case using l
    by (auto simp: page_block_def BUDDY_MAX_LEVEL_def Let_def Option.bind_assoc intro!: Option.bind_cong
        split: Option.bind_splits)
qed


text \<open>The kernel address of a page frame below the end of the direct map.\<close>

definition frame_addr :: "nat \<Rightarrow> u32" where
  "frame_addr x = 0xC0000000 + push_bit 12 (of_nat x)"

lemma frame_addr_props:
  assumes "x < 0x40000"
  shows "P2V (push_bit PAGE_SHIFT (of_nat x)) = frame_addr x" "frame_addr x \<noteq> 0"
    "unat (drop_bit PAGE_SHIFT (V2P (frame_addr x))) = x"
proof -
  have u: "unat (push_bit 12 (of_nat x :: u32)) = x * 4096"
    using assms by (simp add: push_bit_eq_mult unat_word_ariths unat_of_nat_u32)
  have lt: "push_bit 12 (of_nat x :: u32) < 0x40000000"
    using assms by (simp add: word_less_nat_alt u)
  then have "push_bit 12 (of_nat x :: u32) < 0xC0000000" by (rule less_trans) simp
  then show "P2V (push_bit PAGE_SHIFT (of_nat x)) = frame_addr x"
    by (simp add: P2V_def KERNEL_PAGE_OFFSET_def PAGE_SHIFT_def frame_addr_def)
  have "unat (frame_addr x) = 0xC0000000 + x * 4096"
    using assms by (simp add: frame_addr_def unat_word_ariths u)
  then show "frame_addr x \<noteq> 0" by (metis add_is_0 unat_0 zero_neq_numeral)
  show "unat (drop_bit PAGE_SHIFT (V2P (frame_addr x))) = x"
    unfolding V2P_def KERNEL_PAGE_OFFSET_def PAGE_SHIFT_def frame_addr_def unat_drop_bit_eq
    by (simp only: add_diff_cancel_left' u drop_bit_eq_div) simp
qed

text \<open>The page allocator does not touch the heap's own state.\<close>

lemma same_more_heap:
  "page_state.more t = page_state.more s \<Longrightarrow> freelist t = freelist s \<and> heads t = heads s"
  by (cases s; cases t) simp

text \<open>A request for a page.\<close>

lemma kmalloc_page:
  assumes l: "free_list s (x # xs)" and ch: "cache_chains s ch" and x: "x < 0x40000"
    and sz: "2036 < sz" "sz \<le> 4096"
  shows "\<exists>t. alloc_run slp (Kmalloc sz) s = Some (frame_addr x, t) \<and> page_get_free slp s = Some (Some x, t) \<and>
    free_list t xs \<and> cache_chains t (drop_chain s x ch) \<and> pg_flags (pages t x) = pg_flags (pages s x) \<and>
    freelist t = freelist s \<and> heads t = heads s \<and> NUM_PAGES t = NUM_PAGES s"
proof -
  obtain t where t: "page_get_free slp s = Some (Some x, t)" "free_list t xs" "cache_chains t (drop_chain s x ch)"
    and d: "(pages t x)\<lparr>pg_prev_free := None, pg_next_free := None, pg_prev_hash := None, pg_next_hash := None\<rparr> =
      (pages s x)\<lparr>pg_usage := 1, pg_inode := 0, pg_offset := 0, pg_dev := 0,
        pg_prev_free := None, pg_next_free := None, pg_prev_hash := None, pg_next_hash := None\<rparr>"
    and fr: "freelist t = freelist s" "heads t = heads s" "NUM_PAGES t = NUM_PAGES s"
    using page_get_free_ok [OF l ch] same_more_heap by blast
  have fl: "pg_flags (pages t x) = pg_flags (pages s x)" "pg_num (pages t x) = pg_num (pages s x)"
    using arg_cong [OF d, of pg_flags] arg_cong [OF d, of pg_num] by simp_all
  have n: "pg_num (pages s x) = int x" using l by (simp add: free_list_def)
  have "\<not> sz + sizeof_buddy_head \<le> blocksizes ! (BUDDY_MAX_LEVEL - 1)"
    using sz by (simp add: blocksizes_def sizeof_buddy_head_def BUDDY_MAX_LEVEL_def word_le_nat_alt
        word_less_nat_alt unat_word_ariths)
  moreover have "\<not> sz > PAGE_SIZE" using sz by (simp add: PAGE_SIZE_def)
  ultimately have "alloc_run slp (Kmalloc sz) s = Some (frame_addr x, t)"
    using t(1) frame_addr_props(1) [OF x] by (simp add: alloc_run.simps fl n)
  then show ?thesis using t fl fr by blast
qed


text \<open>The level that serves a request of \<open>n\<close> bytes together with its header.\<close>

definition small_request :: "u32 \<Rightarrow> nat \<Rightarrow> bool" where
  "small_request sz l \<longleftrightarrow> sz + sizeof_buddy_head \<le> 2048 \<and> level_for (sz + sizeof_buddy_head) = Some l"

lemma small_request_lt: "small_request sz l \<Longrightarrow> l < 7"
  by (auto simp: small_request_def level_for_def blocksizes_def split: if_splits)

lemma kmalloc_small:
  "small_request sz l \<Longrightarrow> kmalloc slp sz s =
    map_option (\<lambda>(block, t). (if block \<noteq> 0 then block + sizeof_buddy_head else 0, t))
      (alloc_run slp (BuddyAlloc (sz + sizeof_buddy_head)) s)"
  by (subst kmalloc_def, subst alloc_run.simps)
    (auto simp: small_request_def blocksizes_def BUDDY_MAX_LEVEL_def map_conv_bind_option comp_def
      split: Option.bind_split intro!: Option.bind_cong)

lemma kmalloc_small_page:
  assumes sz: "small_request sz l" and e: "\<forall>k. l \<le> k \<and> k < 7 \<longrightarrow> freelist s k = None"
    and l: "free_list s (x # xs)" and ch: "cache_chains s ch" and x: "x < 0x40000"
  shows "\<exists>t. kmalloc slp sz s = Some (frame_addr x + 12, t) \<and> free_list t xs \<and>
    pg_flags (pages t x) = pg_flags (pages s x) OR PAGE_BUDDY \<and> freelist t = freelist s \<and>
    heads t = (heads s)(frame_addr x := (heads s (frame_addr x))\<lparr>bh_next := None, bh_prev := None\<rparr>) \<and>
    NUM_PAGES t = NUM_PAGES s"
proof -
  obtain t where t: "alloc_run slp (Kmalloc PAGE_SIZE) s = Some (frame_addr x, t)" "free_list t xs"
    "pg_flags (pages t x) = pg_flags (pages s x)" "freelist t = freelist s" "heads t = heads s"
    "NUM_PAGES t = NUM_PAGES s"
    using kmalloc_page [OF l ch x, of PAGE_SIZE slp] by (auto simp: PAGE_SIZE_def)
  have xn: "x < NUM_PAGES s" "x \<notin> set xs" using l by (auto simp: free_list_def)
  let ?t1 = "upd_page x (\<lambda>q. q\<lparr>pg_flags := pg_flags q OR PAGE_BUDDY\<rparr>) t"
  let ?t = "upd_head (frame_addr x) (\<lambda>h. h\<lparr>bh_prev := None, bh_next := None\<rparr>) ?t1"
  have "addr_page (frame_addr x) t = Some x"
    using frame_addr_props [OF x] xn t(6) by (simp add: addr_page_def)
  then have "alloc_run slp (BuddyAlloc (sz + sizeof_buddy_head)) s = Some (frame_addr x, ?t)"
    using buddy_alloc_page [OF _ e] sz t(1) frame_addr_props(2) [OF x]
    by (simp add: small_request_def page_block_def)
  then have "kmalloc slp sz s = Some (frame_addr x + 12, ?t)"
    using frame_addr_props(2) [OF x] by (simp add: kmalloc_small [OF sz] sizeof_buddy_head_def)
  moreover have "free_list ?t1 xs" by (rule upd_page_free_list [OF t(2) xn(2)]) auto
  then have "free_list ?t xs" by (rule free_list_cong) auto
  ultimately show ?thesis using t by (intro exI [of _ ?t]) (auto simp: fun_eq_iff)
qed

text \<open>C7: a small request that finds no free block of its level or above takes a whole page from the
  page allocator, flags it \<open>PAGE_BUDDY\<close> and returns the address past the header at the start of the page.
  The page is never split: no free list gains a block, and the level in the header is not written.\<close>

theorem kmalloc_small_takes_page:
  assumes sz: "small_request sz l" and e: "\<forall>k. l \<le> k \<and> k < 7 \<longrightarrow> freelist s k = None"
    and l: "free_list s (x # xs)" and ch: "cache_chains s ch" and x: "x < 0x40000"
  shows "\<exists>t. kmalloc slp sz s = Some (frame_addr x + 12, t) \<and> free_list t xs \<and>
    pg_flags (pages t x) = pg_flags (pages s x) OR PAGE_BUDDY \<and> freelist t = freelist s \<and>
    heads t = (heads s)(frame_addr x := (heads s (frame_addr x))\<lparr>bh_next := None, bh_prev := None\<rparr>)"
  using kmalloc_small_page [OF sz e l ch x] by blast

theorem kmalloc_small_takes_page_witness:
  "\<exists>t. kmalloc id 100 (page_state.extend two_free_pages (buddy_state.fields (\<lambda>_. None) (\<lambda>_. fresh_head)))
      = Some (0xC000100C, t) \<and> free_list t [0] \<and> freelist t = (\<lambda>_. None)"
proof -
  let ?s = "page_state.extend two_free_pages (buddy_state.fields (\<lambda>_. None) (\<lambda>_. fresh_head)) :: buddy_state"
  have "free_list ?s [1, 0]" by (rule free_list_extend) (rule two_free_pages_list)
  moreover have "cache_chains ?s two_free_chains" by (rule cache_chains_extend) (rule two_free_pages_chains)
  moreover have "small_request 100 2"
    by (simp add: small_request_def level_for_def blocksizes_def sizeof_buddy_head_def)
  ultimately show ?thesis
    using kmalloc_small_takes_page [of 100 2 ?s 1 "[0]" two_free_chains id]
    by (auto simp: frame_addr_def page_state.extend_def buddy_state.fields_def)
qed

text \<open>a small request whose level has a free block gets the first one and takes it off the list;
  no page is allocated.\<close>

theorem kmalloc_small_reuses:
  assumes sz: "small_request sz l" and bl: "buddy_lists s fl" and b: "fl l = b # bs" "b \<noteq> 0"
  shows "\<exists>t. kmalloc slp sz s = Some (b + 12, t) \<and> buddy_lists t (fl(l := bs)) \<and>
    page_state.truncate t = page_state.truncate s"
proof -
  have l7: "l < 7" by (rule small_request_lt [OF sz])
  then have lM: "l \<le> BUDDY_MAX_LEVEL" "l \<noteq> BUDDY_MAX_LEVEL" by (auto simp: BUDDY_MAX_LEVEL_def)
  have hd: "freelist s l = Some b" using bl lM b by (auto simp: buddy_lists_def dlist_def)
  obtain t where t: "buddy_remove_from_freelist b s = Some t" "buddy_lists t (fl(l := bs))"
    "page_state.truncate t = page_state.truncate s"
    using buddy_remove_from_freelist_ok [OF bl lM(1), of b] b by auto
  have "alloc_run slp (BuddyAlloc (sz + sizeof_buddy_head)) s = Some (b, t)"
    using sz lM hd t(1) by (subst alloc_run.simps) (simp add: small_request_def)
  then show ?thesis using t b by (simp add: kmalloc_small [OF sz] sizeof_buddy_head_def)
qed

theorem kmalloc_small_reuses_witness:
  "\<exists>t. kmalloc id 1000 two_free_blocks = Some (0xC000240C, t) \<and>
    buddy_lists t ((\<lambda>l. if l = 6 then [0xC0002800] else []))"
proof -
  let ?fl = "\<lambda>l :: nat. if l = 5 then [0xC0002400 :: u32] else if l = 6 then [0xC0002800] else []"
  have "buddy_lists two_free_blocks ?fl"
    by (simp add: buddy_lists_def level_of_def two_free_blocks_def
        page_state.extend_def buddy_state.fields_def dlist_def)
  moreover have "small_request 1000 5"
    by (simp add: small_request_def level_for_def blocksizes_def sizeof_buddy_head_def)
  moreover have "?fl(5 := []) = (\<lambda>l. if l = 6 then [0xC0002800] else [])" by auto
  ultimately show ?thesis
    using kmalloc_small_reuses [of 1000 5 two_free_blocks ?fl "0xC0002400" "[]" id] by auto
qed


text \<open>Without a page.\<close>

lemma kmalloc_page_none:
  assumes "page_get_free slp s = Some (None, s')" "2036 < sz" "sz \<le> 4096"
  shows "alloc_run slp (Kmalloc sz) s = Some (0, s')"
proof -
  have "\<not> sz + sizeof_buddy_head \<le> 2048" "\<not> sz > PAGE_SIZE"
    using assms(2,3) by (simp_all add: sizeof_buddy_head_def PAGE_SIZE_def word_le_nat_alt word_less_nat_alt
        unat_word_ariths)
  then show ?thesis using assms(1) by (simp add: alloc_run.simps blocksizes_def BUDDY_MAX_LEVEL_def)
qed

lemma kmalloc_small_none:
  assumes no: "page_get_free slp s = Some (None, s')"
    and sz: "small_request sz l" and e: "\<forall>k. l \<le> k \<and> k < 7 \<longrightarrow> freelist s k = None"
  shows "kmalloc slp sz s = None"
proof -
  have "alloc_run slp (BuddyAlloc (sz + sizeof_buddy_head)) s = None"
    using buddy_alloc_page [OF _ e, of "sz + sizeof_buddy_head" slp] sz small_request_lt [OF sz]
      kmalloc_page_none [OF no, of PAGE_SIZE]
    by (simp add: small_request_def page_block_def PAGE_SIZE_def BUDDY_MAX_LEVEL_def)
  then show ?thesis by (simp add: kmalloc_small [OF sz])
qed

text \<open>a request larger than a page returns 0 and changes nothing. When no page is to be had, a
  request for up to a page that does not fit a block returns 0, but a small request for which every list
  from its level up is empty does not return: \<open>buddy_alloc\<close> writes through a null pointer.\<close>

theorem kmalloc_fails:
  assumes no: "page_get_free slp s = Some (None, s')"
  shows "(4096 < sz \<and> sz < 0xFFFFFFF4 \<longrightarrow> kmalloc slp sz s = Some (0, s)) \<and>
    (2036 < sz \<and> sz \<le> 4096 \<longrightarrow> kmalloc slp sz s = Some (0, s')) \<and>
    (small_request sz l \<and> (\<forall>k. l \<le> k \<and> k < 7 \<longrightarrow> freelist s k = None) \<longrightarrow> kmalloc slp sz s = None)"
proof (intro conjI impI; (elim conjE)?)
  assume "4096 < sz" "sz < 0xFFFFFFF4"
  then have "\<not> sz + sizeof_buddy_head \<le> 2048" "sz > PAGE_SIZE"
    by (simp_all add: sizeof_buddy_head_def PAGE_SIZE_def word_le_nat_alt word_less_nat_alt unat_word_ariths)
  then show "kmalloc slp sz s = Some (0, s)"
    by (simp add: kmalloc_def alloc_run.simps blocksizes_def BUDDY_MAX_LEVEL_def)
next
  show "2036 < sz \<Longrightarrow> sz \<le> 4096 \<Longrightarrow> kmalloc slp sz s = Some (0, s')"
    using kmalloc_page_none [OF no] by (simp add: kmalloc_def)
  show "small_request sz l \<Longrightarrow> \<forall>k. l \<le> k \<and> k < 7 \<longrightarrow> freelist s k = None \<Longrightarrow> kmalloc slp sz s = None"
    by (rule kmalloc_small_none [OF no])
qed

theorem kmalloc_fails_witness:
  "kmalloc id 100 (page_state.extend (two_free_pages\<lparr>free_head := None, num_free_pages := 0\<rparr>)
     (buddy_state.fields (\<lambda>_. None) (\<lambda>_. fresh_head)) :: buddy_state) = None"
proof -
  let ?s = "page_state.extend (two_free_pages\<lparr>free_head := None, num_free_pages := 0\<rparr>)
     (buddy_state.fields (\<lambda>_. None) (\<lambda>_. fresh_head)) :: buddy_state"
  have "page_get_free id ?s = Some (None, ?s)"
    by (simp add: page_get_free_def page_get_free_check_def two_free_pages_def page_state.extend_def)
  moreover have "small_request 100 2"
    by (simp add: small_request_def level_for_def blocksizes_def sizeof_buddy_head_def)
  ultimately show ?thesis
    using kmalloc_fails [of id ?s ?s 100 2] by (simp add: page_state.extend_def buddy_state.fields_def)
qed

text \<open>adding the header size wraps around, so a request of nearly \<open>2 ^ 32\<close> bytes is served like a
  request of 0 bytes, with a block of the smallest size.\<close>

theorem kmalloc_wraps: "0xFFFFFFF4 \<le> sz \<Longrightarrow> kmalloc slp sz s = kmalloc slp 0 s"
proof -
  assume a: "0xFFFFFFF4 \<le> sz"
  have "unat sz < 4294967296" by (rule unat_lt_u32)
  moreover have "4294967284 \<le> unat sz" using a by (simp add: word_le_nat_alt)
  moreover have "unat (sz + 12) = (unat sz + 12) mod 4294967296" by (simp add: unat_word_ariths)
  ultimately have "unat (sz + 12) < 12" by (simp add: le_mod_geq)
  then have lt: "sz + sizeof_buddy_head \<le> 2048" "\<not> 32 < sz + sizeof_buddy_head"
    by (simp_all add: sizeof_buddy_head_def word_le_nat_alt word_less_nat_alt)
  have "alloc_run slp (BuddyAlloc (sz + sizeof_buddy_head)) s = alloc_run slp (BuddyAlloc sizeof_buddy_head) s"
    using lt(2) by (simp add: alloc_run.simps [of slp "BuddyAlloc _"] level_for_def blocksizes_def
        sizeof_buddy_head_def)
  then show ?thesis using lt(1)
    by (simp add: kmalloc_def alloc_run.simps [of slp "Kmalloc _"] blocksizes_def BUDDY_MAX_LEVEL_def
        sizeof_buddy_head_def)
qed

theorem kmalloc_wraps_witness: "kmalloc id 0xFFFFFFFF two_free_blocks = kmalloc id 0 two_free_blocks"
  by (rule kmalloc_wraps) simp

lemma frame_addr_payload:
  assumes "x < 0x40000"
  shows "unat (drop_bit PAGE_SHIFT (V2P (frame_addr x + 12))) = x" "drop_bit 13 (frame_addr x) \<noteq> 0"
proof -
  have u: "unat (push_bit 12 (of_nat x :: u32)) = x * 4096"
    using assms by (simp add: push_bit_eq_mult unat_word_ariths unat_of_nat_u32)
  have "V2P (frame_addr x + 12) = push_bit 12 (of_nat x) + 12"
    by (simp add: V2P_def KERNEL_PAGE_OFFSET_def frame_addr_def)
  moreover have "unat (push_bit 12 (of_nat x :: u32) + 12) = x * 4096 + 12"
    using assms by (simp add: unat_word_ariths u)
  ultimately show "unat (drop_bit PAGE_SHIFT (V2P (frame_addr x + 12))) = x"
    unfolding PAGE_SHIFT_def unat_drop_bit_eq by (simp only: drop_bit_eq_div) simp
  have "unat (frame_addr x) = 0xC0000000 + x * 4096"
    using assms by (simp add: frame_addr_def unat_word_ariths u)
  then have "unat (drop_bit 13 (frame_addr x)) \<noteq> 0"
    unfolding unat_drop_bit_eq by (simp only: drop_bit_eq_div) simp
  then show "drop_bit 13 (frame_addr x) \<noteq> 0" by auto
qed

lemma free_list_truncate:
  "page_state.truncate t = page_state.truncate s \<Longrightarrow> free_list t xs \<longleftrightarrow> free_list s xs"
  by (simp add: free_list_def page_state.truncate_def)

lemma buddy_flag_set: "(f OR PAGE_BUDDY) AND PAGE_BUDDY \<noteq> 0"
  by (simp add: PAGE_BUDDY_def and.commute bit.conj_disj_distrib)

text \<open>freeing a small request that took a whole page does not give the page back: the page ends
  up as one block on the list of whatever level its uninitialised header named, and the number of free
  pages stays one lower.\<close>

theorem kmalloc_kfree_keeps_page:
  assumes sz: "small_request sz l" and e: "buddy_lists s (\<lambda>_. [])"
    and l: "free_list s (x # xs)" and ch: "cache_chains s ch" and x: "x < 0x40000"
    and v: "level_of (frame_addr x) s = v" "v \<le> 7"
  shows "\<exists>a t u. kmalloc slp sz s = Some (a, t) \<and> kfree a t = Some u \<and>
    free_list u xs \<and> buddy_lists u ((\<lambda>_. [])(v := [frame_addr x]))"
proof -
  have em: "\<forall>k. l \<le> k \<and> k < 7 \<longrightarrow> freelist s k = None"
    using e by (auto simp: buddy_lists_def BUDDY_MAX_LEVEL_def)
  obtain t where t: "kmalloc slp sz s = Some (frame_addr x + 12, t)" "free_list t xs"
    "pg_flags (pages t x) = pg_flags (pages s x) OR PAGE_BUDDY" "freelist t = freelist s"
    "heads t = (heads s)(frame_addr x := (heads s (frame_addr x))\<lparr>bh_next := None, bh_prev := None\<rparr>)"
    "NUM_PAGES t = NUM_PAGES s"
    using kmalloc_small_page [OF sz em l ch x] by blast
  have "addr_page (frame_addr x + 12) t = Some x"
    using frame_addr_payload [OF x] l t(6) by (simp add: addr_page_def free_list_def)
  then have kf: "kfree (frame_addr x + 12) t = free_run (Dealloc (frame_addr x)) t"
    using buddy_flag_set by (simp add: kfree_def free_run.simps [of "Kfree _"] t(3) sizeof_buddy_head_def)
  have "buddy_lists t (\<lambda>_. [])" using e t(4) by (simp add: buddy_lists_def)
  moreover have "level_of (frame_addr x) t = v" using v t(5) by (simp add: level_of_def)
  moreover have "off_lists (frame_addr x) (\<lambda>_. [])" by (simp add: off_lists_def)
  moreover have "dealloc_spec v (frame_addr x) (\<lambda>_. []) = ((\<lambda>_. [])(v := [frame_addr x]), None)"
    by (simp add: dealloc_spec.simps [of v] Let_def)
  ultimately obtain u where u: "buddy_lists u ((\<lambda>_. [])(v := [frame_addr x]))"
    "page_state.truncate u = page_state.truncate t" "free_run (Dealloc (frame_addr x)) t = Some u"
    using dealloc_refines [of t "\<lambda>_. []" "frame_addr x" v] v(2) frame_addr_payload(2) [OF x]
    by (auto simp: release_block_def)
  then show ?thesis using t(1,2) kf free_list_truncate by metis
qed

theorem kmalloc_kfree_keeps_page_witness:
  "\<exists>a t u. kmalloc id 100 (page_state.extend two_free_pages
       (buddy_state.fields (\<lambda>_. None) (\<lambda>_. fresh_head)) :: buddy_state) = Some (a, t) \<and> kfree a t = Some u \<and>
    free_list u [0] \<and> buddy_lists u ((\<lambda>_. [])(0 := [0xC0001000]))"
proof -
  let ?s = "page_state.extend two_free_pages (buddy_state.fields (\<lambda>_. None) (\<lambda>_. fresh_head)) :: buddy_state"
  have "free_list ?s [1, 0]" by (rule free_list_extend) (rule two_free_pages_list)
  moreover have "cache_chains ?s two_free_chains" by (rule cache_chains_extend) (rule two_free_pages_chains)
  moreover have "small_request 100 2"
    by (simp add: small_request_def level_for_def blocksizes_def sizeof_buddy_head_def)
  moreover have "buddy_lists ?s (\<lambda>_. [])" "level_of (frame_addr 1) ?s = 0"
    by (simp_all add: buddy_lists_def level_of_def page_state.extend_def buddy_state.fields_def fresh_head_def)
  ultimately show ?thesis
    using kmalloc_kfree_keeps_page [of 100 2 ?s 1 "[0]" two_free_chains 0 id] by (simp add: frame_addr_def)
qed

end
