(* ===== verification/Heap.thy ===== *)
theory Heap
  imports Buddy
begin

text \<open>
  The contract between the kernel heap and its clients. The locale \<open>allocator\<close> says what a client such
  as the character queues relies on: a block that was handed out is not handed out again before it is
  freed, and freeing it succeeds and leaves exactly that block less in use. \<open>kmalloc\<close> and \<open>kfree\<close> are shown to
  provide it for small requests, for every behaviour of the other processes while the caller sleeps that keeps
  the heap well formed and the caller's blocks in use. A client knows blocks of its own, \<open>heap_live s L\<close>; the set of
  all blocks in use, \<open>heap_used s\<close>, is determined by the state.
\<close>

locale allocator =
  fixes alloc :: "u32 \<Rightarrow> 'h \<Rightarrow> (u32 \<times> 'h) option"
    and release :: "u32 \<Rightarrow> 'h \<Rightarrow> 'h option"
    and live :: "'h \<Rightarrow> u32 set \<Rightarrow> bool"
    and used :: "'h \<Rightarrow> u32 set"
    and served :: "u32 \<Rightarrow> bool"
  assumes live_used: "live h L \<Longrightarrow> L \<subseteq> used h"
    and alloc_fresh: "live h L \<Longrightarrow> served n \<Longrightarrow> alloc n h = Some (a, h') \<Longrightarrow> a \<noteq> 0 \<Longrightarrow>
      a \<notin> L \<and> live h' (insert a L)"
    and alloc_null: "live h L \<Longrightarrow> served n \<Longrightarrow> alloc n h = Some (0, h') \<Longrightarrow> live h' L"
    and release_ok: "live h L \<Longrightarrow> a \<in> L \<Longrightarrow> 
      \<exists>h'. release a h = Some h' \<and> live h' (L - {a}) \<and> used h' = used h - {a}"

section \<open>Well-formed heaps\<close>

text \<open>Page \<open>x\<close> can hold a block: its frame is in the direct map, and the level left in its header is
  below that of a whole page.\<close>

definition heap_frame :: "'a buddy_state_scheme \<Rightarrow> nat \<Rightarrow> bool" where
  "heap_frame s x \<longleftrightarrow> x < 0x40000 \<and> x < NUM_PAGES s \<and> level_of (frame_addr x) s \<le> 6"

definition heap_page :: "'a buddy_state_scheme \<Rightarrow> nat list \<Rightarrow> nat \<Rightarrow> bool" where
  "heap_page s xs x \<longleftrightarrow> heap_frame s x \<and> x \<notin> set xs \<and> pg_flags (pages s x) AND PAGE_BUDDY \<noteq> 0"

definition heap_parts ::
    "'a buddy_state_scheme \<Rightarrow> nat list \<Rightarrow> (nat \<Rightarrow> nat list) \<Rightarrow> (nat \<Rightarrow> u32 list) \<Rightarrow> u32 set \<Rightarrow> bool" where
  "heap_parts s xs ch fl L \<longleftrightarrow>
     free_list s xs \<and> cache_chains s ch \<and> buddy_lists s fl \<and> (\<forall>x \<in> set xs. heap_frame s x) \<and>
     (\<forall>l \<le> 7. \<forall>b \<in> set (fl l). (\<exists>x. b = frame_addr x \<and> heap_page s xs x) \<and> b + 12 \<notin> L) \<and>
     (\<forall>a \<in> L. \<exists>x. a = frame_addr x + 12 \<and> heap_page s xs x)"

text \<open>The heap is well formed, and the addresses in \<open>L\<close> are in use for small requests.\<close>

definition heap_live :: "'a buddy_state_scheme \<Rightarrow> u32 set \<Rightarrow> bool" where
  "heap_live s L \<longleftrightarrow> (\<exists>xs ch fl. heap_parts s xs ch fl L)"

text \<open>All addresses in use for small requests: those behind the header of a block that takes up a page of the
  heap and is on no free list.\<close>

definition heap_used :: "'a buddy_state_scheme \<Rightarrow> u32 set" where
  "heap_used s = {a. heap_live s {a}}"

definition blocks_used :: "'a buddy_state_scheme \<Rightarrow> nat list \<Rightarrow> (nat \<Rightarrow> u32 list) \<Rightarrow> u32 set" where
  "blocks_used s xs fl = {frame_addr x + 12 | x. heap_page s xs x \<and> (\<forall>l \<le> 7. frame_addr x \<notin> set (fl l))}"

lemma cseg_unique: "cseg nx pv a xs b \<Longrightarrow> cseg nx pv a ys b \<Longrightarrow> length xs = length ys \<Longrightarrow> xs = ys"
proof (induction xs arbitrary: a ys)
  case (Cons x xs)
  then obtain y zs where "ys = y # zs" by (cases ys) auto
  with Cons show ?case by auto
qed simp

lemma free_list_unique: "free_list s xs \<Longrightarrow> free_list s ys \<Longrightarrow> xs = ys"
  by (cases xs; cases ys) (auto simp: free_list_def intro: cseg_unique)

lemma heap_used_eq:
  assumes "heap_parts s xs ch fl L"
  shows "heap_used s = blocks_used s xs fl"
proof (rule set_eqI)
  fix a
  show "a \<in> heap_used s \<longleftrightarrow> a \<in> blocks_used s xs fl"
  proof
    assume "a \<in> heap_used s"
    then obtain xs' ch' fl' where h: "heap_parts s xs' ch' fl' {a}" by (auto simp: heap_used_def heap_live_def)
    have "xs' = xs" using h assms by (auto simp: heap_parts_def intro: free_list_unique)
    moreover have "fl' l = fl l" if "l \<le> 7" for l
      using h assms that dlist_unique unfolding heap_parts_def buddy_lists_def BUDDY_MAX_LEVEL_def by blast
    ultimately show "a \<in> blocks_used s xs fl" using h unfolding heap_parts_def blocks_used_def by fastforce
  next
    assume "a \<in> blocks_used s xs fl"
    then obtain x where x: "a = frame_addr x + 12" "heap_page s xs x" "\<forall>l \<le> 7. frame_addr x \<notin> set (fl l)"
      by (auto simp: blocks_used_def)
    then have "b + 12 \<noteq> a" if "l \<le> 7" "b \<in> set (fl l)" for l b using that by auto
    then have "heap_parts s xs ch fl {a}" using assms x unfolding heap_parts_def by blast
    then show "a \<in> heap_used s" by (auto simp: heap_used_def heap_live_def)
  qed
qed

lemma heap_live_used:
  assumes "heap_live s L"
  shows "L \<subseteq> heap_used s" "heap_live s (heap_used s)"
proof -
  obtain xs ch fl where h: "heap_parts s xs ch fl L" using assms by (auto simp: heap_live_def)
  note u = heap_used_eq [OF h]
  show "L \<subseteq> heap_used s" unfolding u blocks_used_def using h by (fastforce simp: heap_parts_def)
  have "heap_parts s xs ch fl (heap_used s)"
    unfolding u using h unfolding heap_parts_def blocks_used_def by auto
  then show "heap_live s (heap_used s)" by (auto simp: heap_live_def)
qed

definition small_size :: "u32 \<Rightarrow> bool" where
  "small_size sz \<longleftrightarrow> (\<exists>l. small_request sz l)"

lemma frame_addr_unat:
  assumes "x < 0x40000"
  shows "unat (frame_addr x) = 0xC0000000 + x * 4096"
proof -
  have "unat (push_bit 12 (of_nat x :: u32)) = x * 4096"
    using assms by (simp add: push_bit_eq_mult unat_word_ariths unat_of_nat_u32)
  then show ?thesis using assms by (simp add: frame_addr_def unat_word_ariths)
qed

lemma frame_addr_inj:
  assumes "x < 0x40000" "y < 0x40000"
  shows "frame_addr x = frame_addr y \<longleftrightarrow> x = y"
proof
  assume "frame_addr x = frame_addr y"
  then have "0xC0000000 + x * 4096 = 0xC0000000 + y * (4096 :: nat)"
    using frame_addr_unat [OF assms(1)] frame_addr_unat [OF assms(2)] by metis
  then show "x = y" by linarith
qed simp

text \<open>The buddy of a block at the start of a page, below page level, is not at the start of a page.\<close>

lemma frame_buddy_not_frame:
  assumes "l \<le> 6" "x < 0x40000" "y < 0x40000"
  shows "frame_addr x XOR push_bit (l + 5) 1 \<noteq> frame_addr y"
proof
  assume a: "frame_addr x XOR push_bit (l + 5) 1 = frame_addr y"
  have bits: "\<not> bit (frame_addr z) (l + 5)" if "z < 0x40000" for z
  proof -
    have "unat (frame_addr z) = 4096 * (0xC0000 + z)" by (simp add: frame_addr_unat [OF that])
    moreover have "l \<in> {0, 1, 2, 3, 4, 5, 6}" using assms(1) by auto
    then have "\<not> bit (4096 * (0xC0000 + z)) (l + 5)"
      by (elim insertE emptyE) (simp_all add: bit_iff_odd)
    ultimately have "\<not> bit (unat (frame_addr z)) (l + 5)" by simp
    then show ?thesis by (simp add: bit_unsigned_iff)
  qed
  have "bit (frame_addr x XOR push_bit (l + 5) 1) (l + 5)"
    using bits [OF assms(2)] assms(1) by (simp add: bit_simps)
  then show False using a bits [OF assms(3)] by simp
qed


section \<open>Freeing\<close>

text \<open>Updates of the list fields of headers only.\<close>

definition same_levels :: "'a buddy_state_scheme \<Rightarrow> 'a buddy_state_scheme \<Rightarrow> bool" where
  "same_levels s t \<longleftrightarrow> (\<forall>b. level_of b t = level_of b s) \<and>
     page_state.truncate t = page_state.truncate s"

lemma same_levelsD:
  assumes "same_levels s t"
  shows "level_of b t = level_of b s" "NUM_PAGES t = NUM_PAGES s" "pages t = pages s"
    "heap_frame t x = heap_frame s x" "heap_page t xs x = heap_page s xs x"
    "free_list t xs = free_list s xs" "cache_chains t ch = cache_chains s ch"
  using assms
  by (auto simp: same_levels_def heap_frame_def heap_page_def page_state.truncate_def free_list_def
      cache_chains_def cache_key_def)

lemma buddy_prepend_levels: "same_levels s (buddy_prepend l b s)"
  by (auto simp: same_levels_def buddy_prepend_def Let_def level_of_def upd_head_def upd_freelist_def
      page_state.truncate_def split: option.splits)

lemma heap_parts_levels:
  assumes "heap_parts s xs ch fl L" "same_levels s t" "buddy_lists t fl'"
    and "\<And>l b. l \<le> 7 \<Longrightarrow> b \<in> set (fl' l) \<Longrightarrow> (\<exists>x. b = frame_addr x \<and> heap_page s xs x) \<and> b + 12 \<notin> L'"
    and "\<And>a. a \<in> L' \<Longrightarrow> \<exists>x. a = frame_addr x + 12 \<and> heap_page s xs x"
  shows "heap_parts t xs ch fl' L'"
  using assms same_levelsD [OF assms(2)] by (simp add: heap_parts_def)

text \<open>A block put on a list is no longer in use, and one taken off it is.\<close>

lemma blocks_used_off:
  assumes "\<And>y. heap_page t xs y = heap_page s xs y"
    and "\<And>c. (\<exists>j\<le>7. c \<in> set (fl' j)) \<longleftrightarrow> c = frame_addr x \<or> (\<exists>j\<le>7. c \<in> set (fl j))"
    and "a = frame_addr x + 12" "x < 0x40000"
  shows "blocks_used t xs fl' = blocks_used s xs fl - {a}"
proof -
  have "(\<forall>l \<le> 7. c \<notin> set (fl' l)) \<longleftrightarrow> c \<noteq> frame_addr x \<and> (\<forall>l \<le> 7. c \<notin> set (fl l))" for c
    using assms(2) [of c] by blast
  then show ?thesis unfolding blocks_used_def assms(1,3) by auto
qed

lemma kfree_small:
  assumes hp: "heap_parts s xs ch fl L" and a: "a \<in> L"
  shows "\<exists>t fl'. kfree a s = Some t \<and> heap_parts t xs ch fl' (L - {a}) \<and> heap_used t = heap_used s - {a}"
proof -
  obtain x where x: "a = frame_addr x + 12" "heap_page s xs x" using hp a by (auto simp: heap_parts_def)
  let ?b = "frame_addr x" and ?l = "level_of (frame_addr x) s"
  have xl: "x < 0x40000" "x < NUM_PAGES s" "?l \<le> 6" and fg: "pg_flags (pages s x) AND PAGE_BUDDY \<noteq> 0"
    using x by (auto simp: heap_page_def heap_frame_def)
  then have l7: "?l \<le> 7" and lM: "?l \<le> BUDDY_MAX_LEVEL" by (simp_all add: BUDDY_MAX_LEVEL_def)
  have bl: "buddy_lists s fl" using hp by (simp add: heap_parts_def)
  have ap: "addr_page a s = Some x"
    using frame_addr_payload [OF xl(1)] xl(2) x(1) by (simp add: addr_page_def)
  have kf: "kfree a s = free_run (Dealloc ?b) s"
    using fg by (simp add: kfree_def free_run.simps [of "Kfree _"] ap [unfolded x(1)] x(1) sizeof_buddy_head_def)
  have off: "off_lists ?b fl" using hp a x(1) by (auto simp: off_lists_def heap_parts_def BUDDY_MAX_LEVEL_def)
  have "?b XOR push_bit (?l + 5) 1 \<notin> set (fl ?l)"
  proof
    assume "?b XOR push_bit (?l + 5) 1 \<in> set (fl ?l)"
    then obtain y where "?b XOR push_bit (?l + 5) 1 = frame_addr y" "y < 0x40000"
      using hp l7 unfolding heap_parts_def heap_page_def heap_frame_def by blast
    then show False using frame_buddy_not_frame [OF xl(3,1)] by blast
  qed
  then have eq: "kfree a s = Some (buddy_prepend ?l ?b s)"
    unfolding kf using dealloc_no_buddy [OF bl refl l7 frame_addr_payload(2) [OF xl(1)]] by blast
  let ?fl = "fl(?l := ?b # fl ?l)"
  have new: "heap_parts (buddy_prepend ?l ?b s) xs ch ?fl (L - {a})"
  proof (rule heap_parts_levels [OF hp buddy_prepend_levels])
    show "buddy_lists (buddy_prepend ?l ?b s) ?fl" by (rule buddy_prepend_ok [OF bl refl lM off])
    fix l b assume l: "l \<le> 7" and b: "b \<in> set (?fl l)"
    have "b = ?b \<or> b \<in> set (fl l)" using b by (auto split: if_splits)
    then show "(\<exists>x. b = frame_addr x \<and> heap_page s xs x) \<and> b + 12 \<notin> L - {a}"
      using hp l x unfolding heap_parts_def by blast
  next
    fix c assume "c \<in> L - {a}"
    then show "\<exists>x. c = frame_addr x + 12 \<and> heap_page s xs x" using hp by (auto simp: heap_parts_def)
  qed
  moreover have "heap_used (buddy_prepend ?l ?b s) = heap_used s - {a}"
    unfolding heap_used_eq [OF new] heap_used_eq [OF hp]
  proof (rule blocks_used_off [OF same_levelsD(5) [OF buddy_prepend_levels] _ x(1) xl(1)])
    show "(\<exists>j\<le>7. c \<in> set (?fl j)) \<longleftrightarrow> c = ?b \<or> (\<exists>j\<le>7. c \<in> set (fl j))" for c
      using l7 by (force split: if_splits)
  qed
  ultimately show ?thesis using eq by blast
qed

section \<open>Allocating from a list\<close>

text \<open>The first non-empty list from the level of the request up serves it.\<close>

lemma buddy_alloc_list:
  assumes "level_for sz = Some l" "l \<le> k" "k < 7" "\<forall>j. l \<le> j \<and> j < k \<longrightarrow> freelist s j = None"
    and b: "freelist s k = Some b" "b \<noteq> 0" and r: "buddy_remove_from_freelist b s = Some t"
  shows "alloc_run slp (BuddyAlloc sz) s = Some (b, t)"
  using assms(1-4)
proof (induction "k - l" arbitrary: l sz)
  case 0
  then have "l = k" by simp
  then show ?case using 0 b r
    by (subst alloc_run.simps) (simp add: BUDDY_MAX_LEVEL_def)
next
  case (Suc n)
  then have lk: "l < k" by simp
  then have "alloc_run slp (BuddyAlloc (blocksizes ! (l + 1))) s = Some (b, t)"
    using Suc.hyps(1) [of "l + 1" "blocksizes ! (l + 1)"] Suc.prems Suc.hyps(2)
    by (simp add: level_for_blocksizes)
  moreover have "freelist s l = None" using Suc.prems lk by simp
  ultimately show ?case
    using Suc.prems b lk by (subst alloc_run.simps) (simp add: BUDDY_MAX_LEVEL_def)
qed

lemma kmalloc_from_list:
  assumes hp: "heap_parts s xs ch fl L" and sz: "small_request sz l"
    and k: "l \<le> k" "k < 7" "\<forall>j. l \<le> j \<and> j < k \<longrightarrow> freelist s j = None" "freelist s k \<noteq> None"
  shows "\<exists>a t fl'. kmalloc slp sz s = Some (a, t) \<and> a \<noteq> 0 \<and> a \<notin> L \<and> heap_parts t xs ch fl' (insert a L) \<and>
    a \<notin> heap_used s \<and> heap_used t = insert a (heap_used s)"
proof -
  have bl: "buddy_lists s fl" using hp by (simp add: heap_parts_def)
  have kM: "k \<le> BUDDY_MAX_LEVEL" using k by (simp add: BUDDY_MAX_LEVEL_def)
  have d: "dlist (bnx s) (bpv s) (freelist s k) (fl k)" using bl kM by (simp add: buddy_lists_def)
  obtain b where b: "freelist s k = Some b" using k(4) by blast
  then have bk: "b \<in> set (fl k)" using d by (cases "fl k") (auto simp: dlist_def)
  then obtain x where x: "b = frame_addr x" "heap_page s xs x" and nL: "b + 12 \<notin> L"
    using hp k(2) unfolding heap_parts_def by (metis less_imp_le)
  have xl: "x < 0x40000" using x by (simp add: heap_page_def heap_frame_def)
  have b0: "b \<noteq> 0" using frame_addr_props(2) [OF xl] x by simp
  obtain t where t: "buddy_remove_from_freelist b s = Some t" "buddy_lists t (fl(k := remove1 b (fl k)))"
    "\<forall>c. bh_level (heads t c) = bh_level (heads s c)" "page_state.truncate t = page_state.truncate s"
    using buddy_remove_from_freelist_ok [OF bl kM bk] by blast
  have lf: "level_for (sz + sizeof_buddy_head) = Some l" using sz by (simp add: small_request_def)
  have km: "kmalloc slp sz s = Some (b + 12, t)"
    unfolding kmalloc_small [OF sz] using buddy_alloc_list [OF lf k(1,2,3) b b0 t(1)] b0
    by (simp add: sizeof_buddy_head_def)
  have sl: "same_levels s t" using t(3,4) by (simp add: same_levels_def level_of_def)
  have a0: "b + 12 \<noteq> 0"
  proof -
    have "unat (b + 12) = 0xC000000C + x * 4096"
      using xl by (simp add: x(1) unat_word_ariths frame_addr_unat)
    then show ?thesis by (metis add_is_0 unat_0 zero_neq_numeral)
  qed
  have new: "heap_parts t xs ch (fl(k := remove1 b (fl k))) (insert (b + 12) L)"
  proof (rule heap_parts_levels [OF hp sl t(2)])
    fix l' c assume l': "l' \<le> 7" and c: "c \<in> set ((fl(k := remove1 b (fl k))) l')"
    have "c \<in> set (fl l')" using c set_remove1_subset [of b "fl k"] by (auto split: if_splits)
    then have "(\<exists>x. c = frame_addr x \<and> heap_page s xs x) \<and> c + 12 \<notin> L"
      using hp l' unfolding heap_parts_def by blast
    moreover have "c \<noteq> b"
      using c dlist_distinct [OF d] buddy_lists_other_level [OF bl, of l' k b] l' kM bk
      by (auto simp: BUDDY_MAX_LEVEL_def split: if_splits)
    ultimately show "(\<exists>x. c = frame_addr x \<and> heap_page s xs x) \<and> c + 12 \<notin> insert (b + 12) L" by auto
  next
    fix c assume "c \<in> insert (b + 12) L"
    then show "\<exists>x. c = frame_addr x + 12 \<and> heap_page s xs x"
      using hp x by (auto simp: heap_parts_def)
  qed
  have "heap_used s = heap_used t - {b + 12}"
    unfolding heap_used_eq [OF new] heap_used_eq [OF hp]
  proof (rule blocks_used_off [OF same_levelsD(5) [OF sl, symmetric] _ _ xl])
    show "(\<exists>j\<le>7. c \<in> set (fl j)) \<longleftrightarrow> c = frame_addr x \<or> (\<exists>j\<le>7. c \<in> set ((fl(k := remove1 b (fl k))) j))" for c
    proof (cases "c = frame_addr x")
      case True
      then show ?thesis using bk k(2) x(1) by (auto intro: exI [of _ k])
    next
      case False
      then have "c \<in> set ((fl(k := remove1 b (fl k))) j) \<longleftrightarrow> c \<in> set (fl j)" for j using x(1) by simp
      then show ?thesis using False by blast
    qed
  qed (simp add: x(1))
  moreover have "b + 12 \<in> heap_used t" using heap_live_used(1) [of t] new unfolding heap_live_def by blast
  ultimately show ?thesis using km a0 nL new by blast
qed


section \<open>Allocating a page\<close>

lemma kmalloc_small_from_page:
  assumes g: "page_get_free slp s = Some (Some x, t)" and n: "pg_num (pages t x) = int x"
    and x: "x < 0x40000" "x < NUM_PAGES t"
    and sz: "small_request sz l" and e: "\<forall>k. l \<le> k \<and> k < 7 \<longrightarrow> freelist s k = None"
  shows "kmalloc slp sz s = Some (frame_addr x + 12,
    upd_head (frame_addr x) (\<lambda>h. h\<lparr>bh_prev := None, bh_next := None\<rparr>)
      (upd_page x (\<lambda>q. q\<lparr>pg_flags := pg_flags q OR PAGE_BUDDY\<rparr>) t))"
proof -
  have "alloc_run slp (Kmalloc PAGE_SIZE) s = Some (frame_addr x, t)"
    using g n frame_addr_props(1) [OF x(1)]
    by (simp add: alloc_run.simps blocksizes_def BUDDY_MAX_LEVEL_def PAGE_SIZE_def sizeof_buddy_head_def)
  moreover have "addr_page (frame_addr x) t = Some x"
    using frame_addr_props(3) [OF x(1)] x(2) by (simp add: addr_page_def)
  ultimately have "alloc_run slp (BuddyAlloc (sz + sizeof_buddy_head)) s =
      Some (frame_addr x, upd_head (frame_addr x) (\<lambda>h. h\<lparr>bh_prev := None, bh_next := None\<rparr>)
        (upd_page x (\<lambda>q. q\<lparr>pg_flags := pg_flags q OR PAGE_BUDDY\<rparr>) t))"
    using buddy_alloc_page [OF _ e] sz frame_addr_props(2) [OF x(1)]
    by (simp add: small_request_def page_block_def)
  then show ?thesis
    using frame_addr_props(2) [OF x(1)] by (simp add: kmalloc_small [OF sz] sizeof_buddy_head_def)
qed

lemma frame_addr_payload_nz: "x < 0x40000 \<Longrightarrow> frame_addr x + 12 \<noteq> 0"
proof -
  assume "x < 0x40000"
  then have "unat (frame_addr x + 12) = 0xC000000C + x * 4096"
    by (simp add: unat_word_ariths frame_addr_unat)
  then show ?thesis by (metis add_is_0 unat_0 zero_neq_numeral)
qed

text \<open>Turning the page \<open>x\<close>, just taken off the free list, into a block.\<close>

lemma heap_parts_new_page:
  assumes hp: "heap_parts s (x # xs) ch fl L"
    and t: "free_list t xs" "cache_chains t ch'" "page_state.more t = page_state.more s"
      "NUM_PAGES t = NUM_PAGES s" "\<forall>j. j \<noteq> x \<longrightarrow> page_data (pages t j) = page_data (pages s j)"
  shows "heap_parts (upd_head (frame_addr x) (\<lambda>h. h\<lparr>bh_prev := None, bh_next := None\<rparr>)
      (upd_page x (\<lambda>q. q\<lparr>pg_flags := pg_flags q OR PAGE_BUDDY\<rparr>) t)) xs ch' fl (insert (frame_addr x + 12) L)"
    and "frame_addr x + 12 \<notin> L" and "x < 0x40000" "x < NUM_PAGES t"
    and "frame_addr x + 12 \<notin> heap_used s"
    and "heap_used (upd_head (frame_addr x) (\<lambda>h. h\<lparr>bh_prev := None, bh_next := None\<rparr>)
      (upd_page x (\<lambda>q. q\<lparr>pg_flags := pg_flags q OR PAGE_BUDDY\<rparr>) t)) = insert (frame_addr x + 12) (heap_used s)"
proof -
  let ?t1 = "upd_page x (\<lambda>q. q\<lparr>pg_flags := pg_flags q OR PAGE_BUDDY\<rparr>) t"
  let ?u = "upd_head (frame_addr x) (\<lambda>h. h\<lparr>bh_prev := None, bh_next := None\<rparr>) ?t1"
  have more: "freelist t = freelist s" "heads t = heads s" using same_more_heap [OF t(3)] by auto
  have xf: "heap_frame s x" and bl: "buddy_lists s fl" and dx: "x \<notin> set xs"
    using hp by (auto simp: heap_parts_def free_list_def)
  then show xl: "x < 0x40000" "x < NUM_PAGES t" using t(4) by (auto simp: heap_frame_def)
  have fr: "heap_frame ?u y = heap_frame s y" for y
    using more t(4) by (auto simp: heap_frame_def level_of_def)
  have pg: "heap_page ?u xs y" "y \<noteq> x" if "heap_page s (x # xs) y" for y
  proof -
    show "y \<noteq> x" using that by (auto simp: heap_page_def)
    then have "pg_flags (pages t y) = pg_flags (pages s y)" using t(5) by (auto simp: page_data_def)
    then show "heap_page ?u xs y" using that fr \<open>y \<noteq> x\<close> by (auto simp: heap_page_def)
  qed
  have px: "heap_page ?u xs x"
    using xf fr dx buddy_flag_set by (simp add: heap_page_def)
  have neq: "frame_addr y \<noteq> frame_addr x" if "heap_page s (x # xs) y" for y
    using frame_addr_inj [of y x] that pg(2) [OF that] xl by (auto simp: heap_page_def heap_frame_def)
  show nL: "frame_addr x + 12 \<notin> L"
  proof
    assume "frame_addr x + 12 \<in> L"
    then obtain y where "frame_addr x + 12 = frame_addr y + 12" "heap_page s (x # xs) y"
      using hp unfolding heap_parts_def by blast
    then show False using neq by auto
  qed
  have off: "off_lists (frame_addr x) fl"
    using hp neq unfolding off_lists_def heap_parts_def BUDDY_MAX_LEVEL_def by metis
  have "buddy_lists ?t1 fl" by (rule buddy_lists_cong [OF bl]) (use more in auto)
  then have "buddy_lists ?u fl" using off by (rule buddy_lists_upd_off)
  moreover have "free_list ?u xs"
    by (rule free_list_cong [OF t(1)]) (use dx in auto)
  moreover have "cache_chains ?u ch'" by (rule cache_chains_cong [OF t(2)]) auto
  moreover have "(\<exists>y. b = frame_addr y \<and> heap_page ?u xs y) \<and> b + 12 \<notin> insert (frame_addr x + 12) L"
    if l: "l \<le> 7" and b: "b \<in> set (fl l)" for l b
  proof -
    obtain y where y: "b = frame_addr y" "heap_page s (x # xs) y" "b + 12 \<notin> L"
      using hp l b unfolding heap_parts_def by blast
    then show ?thesis using pg(1) [OF y(2)] neq [OF y(2)] by auto
  qed
  moreover have "\<exists>y. a = frame_addr y + 12 \<and> heap_page ?u xs y" if "a \<in> insert (frame_addr x + 12) L" for a
  proof (cases "a = frame_addr x + 12")
    case False
    then obtain y where "a = frame_addr y + 12" "heap_page s (x # xs) y"
      using hp \<open>a \<in> _\<close> unfolding heap_parts_def by blast
    then show ?thesis using pg(1) by blast
  qed (use px in blast)
  moreover have "\<forall>y\<in>set xs. heap_frame ?u y" using hp fr by (simp add: heap_parts_def)
  ultimately show new: "heap_parts ?u xs ch' fl (insert (frame_addr x + 12) L)"
    unfolding heap_parts_def by blast
  have iff: "heap_page ?u xs y \<longleftrightarrow> y = x \<or> heap_page s (x # xs) y" for y
  proof (cases "y = x")
    case False
    then have "pg_flags (pages t y) = pg_flags (pages s y)" using t(5) by (auto simp: page_data_def)
    then show ?thesis using False fr by (auto simp: heap_page_def)
  qed (use px in simp)
  have nx: "\<forall>l \<le> 7. frame_addr x \<notin> set (fl l)" using off by (simp add: off_lists_def BUDDY_MAX_LEVEL_def)
  show "frame_addr x + 12 \<notin> heap_used s"
    unfolding heap_used_eq [OF hp] blocks_used_def using neq by fastforce
  show "heap_used ?u = insert (frame_addr x + 12) (heap_used s)"
    unfolding heap_used_eq [OF new] heap_used_eq [OF hp] blocks_used_def iff using nx by auto
qed

lemma kmalloc_from_page:
  assumes hl: "heap_live s L" and slp: "heap_live (slp s) L" and sz: "small_request sz l"
    and e: "\<forall>k. l \<le> k \<and> k < 7 \<longrightarrow> freelist s k = None" and r: "kmalloc slp sz s = Some (a, u)"
  shows "a \<noteq> 0 \<and> a \<notin> L \<and> heap_live u (insert a L) \<and>
    (\<exists>r \<in> {s, slp s}. a \<notin> heap_used r \<and> heap_used u = insert a (heap_used r))"
proof (cases rule: page_get_free_check_cases [of slp s])
  case 2
  then have "page_get_free slp s = Some (None, slp s)" by (simp add: page_get_free_def)
  then show ?thesis using kmalloc_small_none [OF _ sz e] r by fastforce
next
  case (1 m)
  let ?s1 = "if num_free_pages s = 0 \<and> num_free_pages s \<le> min_free_pages s then slp s else s"
  have "heap_live ?s1 L" using hl slp by simp
  then obtain xs ch fl where hp: "heap_parts ?s1 xs ch fl L" unfolding heap_live_def by blast
  have fl1: "free_list ?s1 xs" and ch1: "cache_chains ?s1 ch" using hp by (auto simp: heap_parts_def)
  show ?thesis
  proof (cases xs)
    case Nil
    then have "free_head ?s1 = None" using fl1 by (simp add: free_list_def)
    then have "page_get_free slp s = Some (None, ?s1\<lparr>min_free_pages := m\<rparr>)"
      using 1 by (simp add: page_get_free_def)
    then show ?thesis using kmalloc_small_none [OF _ sz e] r by fastforce
  next
    case (Cons x ys)
    obtain t where t: "page_get_free slp s = Some (Some x, t)" "free_list t ys"
      "cache_chains t (drop_chain ?s1 x ch)"
      "(pages t x)\<lparr>pg_prev_free := None, pg_next_free := None, pg_prev_hash := None, pg_next_hash := None\<rparr> =
        (pages ?s1 x)\<lparr>pg_usage := 1, pg_inode := 0, pg_offset := 0, pg_dev := 0,
        pg_prev_free := None, pg_next_free := None, pg_prev_hash := None, pg_next_hash := None\<rparr>"
      "\<forall>j. j \<noteq> x \<longrightarrow> page_data (pages t j) = page_data (pages ?s1 j)"
      "page_state.more t = page_state.more ?s1" "NUM_PAGES t = NUM_PAGES ?s1"
      using page_get_free_from [OF 1 fl1 [unfolded Cons] ch1] by blast
    note new = heap_parts_new_page [OF hp [unfolded Cons] t(2,3,6,7,5)]
    have "pg_num (pages t x) = int x"
      using arg_cong [OF t(4), of pg_num] fl1 Cons by (simp add: free_list_def)
    note km = kmalloc_small_from_page [OF t(1) this new(3,4) sz e]
    have a: "a = frame_addr x + 12" and u: "heap_live u (insert (frame_addr x + 12) L)"
      "heap_used u = insert (frame_addr x + 12) (heap_used ?s1)"
      using r new(1,6) unfolding km heap_live_def by auto
    have "\<exists>r \<in> {s, slp s}. a \<notin> heap_used r \<and> heap_used u = insert a (heap_used r)"
      using u(2) new(5) unfolding a by (intro bexI [of _ ?s1]) auto
    then show ?thesis using a u(1) new(2) frame_addr_payload_nz [OF new(3)] by simp
  qed
qed

section \<open>The heap provides the contract\<close>

lemma kmalloc_live:
  assumes hl: "heap_live s L" and slp: "heap_live (slp s) L" and sz: "small_size sz"
    and r: "kmalloc slp sz s = Some (a, u)"
  shows "a \<noteq> 0 \<and> a \<notin> L \<and> heap_live u (insert a L) \<and>
    (\<exists>r \<in> {s, slp s}. a \<notin> heap_used r \<and> heap_used u = insert a (heap_used r))"
proof -
  obtain l where l: "small_request sz l" using sz by (auto simp: small_size_def)
  show ?thesis
  proof (cases "\<forall>k. l \<le> k \<and> k < 7 \<longrightarrow> freelist s k = None")
    case True
    then show ?thesis by (rule kmalloc_from_page [OF hl slp l _ r])
  next
    case False
    define k where "k = (LEAST k. l \<le> k \<and> k < 7 \<and> freelist s k \<noteq> None)"
    have k: "l \<le> k \<and> k < 7 \<and> freelist s k \<noteq> None"
      unfolding k_def by (rule LeastI_ex) (use False in blast)
    have "freelist s j = None" if "l \<le> j" "j < k" for j
      using not_less_Least [OF that(2) [unfolded k_def]] that k by simp
    then have first: "\<forall>j. l \<le> j \<and> j < k \<longrightarrow> freelist s j = None" by blast
    obtain xs ch fl where hp: "heap_parts s xs ch fl L" using hl unfolding heap_live_def by blast
    obtain b t fl' where "kmalloc slp sz s = Some (b, t)" "b \<noteq> 0" "b \<notin> L"
      "heap_parts t xs ch fl' (insert b L)" "b \<notin> heap_used s" "heap_used t = insert b (heap_used s)"
      using kmalloc_from_list [OF hp l, of k slp] k first by blast
    then show ?thesis using r unfolding heap_live_def by auto
  qed
qed

lemma kmalloc_allocator:
  fixes slp :: "'a buddy_state_scheme \<Rightarrow> 'a buddy_state_scheme"
  assumes "\<And>s L. heap_live s L \<Longrightarrow> heap_live (slp s) L"
  shows "allocator (kmalloc slp) kfree heap_live heap_used small_size"
proof
  fix s u :: "'a buddy_state_scheme" and L n a
  assume h: "heap_live s L" "small_size n"
  show "kmalloc slp n s = Some (a, u) \<Longrightarrow> a \<noteq> 0 \<Longrightarrow> a \<notin> L \<and> heap_live u (insert a L)"
    using kmalloc_live [where slp = slp, OF h(1) assms [OF h(1)] h(2)] by blast
  show "kmalloc slp n s = Some (0, u) \<Longrightarrow> heap_live u L"
    using kmalloc_live [where slp = slp, OF h(1) assms [OF h(1)] h(2)] by blast
next
  fix s :: "'a buddy_state_scheme" and L a
  assume h: "heap_live s L"
  show "L \<subseteq> heap_used s" by (rule heap_live_used(1) [OF h])
  show "\<exists>t. kfree a s = Some t \<and> heap_live t (L - {a}) \<and> heap_used t = heap_used s - {a}" if "a \<in> L"
    using h kfree_small that unfolding heap_live_def by metis
qed

text \<open>In particular when nobody else changes the heap while a caller sleeps.\<close>

interpretation heap: allocator "kmalloc id" kfree heap_live heap_used small_size
  by (rule kmalloc_allocator) simp

text \<open>C11: the heap never hands out the same block twice: in a well-formed heap, a request of at most
  2036 bytes that returns gives a non-null address that was not in use, in the state before or in the one after the caller has
  slept for memory, and then exactly this one is in use besides; and \<open>kfree\<close> of a block in use returns and
  takes exactly that block out of use. Larger requests take whole pages and are not covered.\<close>

theorem kmalloc_fresh:
  assumes slp: "\<And>s L. heap_live s L \<Longrightarrow> heap_live (slp s) L"
    and h: "heap_live s L" and sz: "small_size sz"
  shows "L \<subseteq> heap_used s \<and>
    (kmalloc slp sz s = Some (a, u) \<longrightarrow> a \<noteq> 0 \<and> a \<notin> L \<and> heap_live u (insert a L) \<and>
      (\<exists>r \<in> {s, slp s}. a \<notin> heap_used r \<and> heap_used u = insert a (heap_used r))) \<and>
    (b \<in> L \<longrightarrow> (\<exists>t. kfree b s = Some t \<and> heap_live t (L - {b}) \<and> heap_used t = heap_used s - {b}))"
  using kmalloc_live [where slp = slp, OF h slp [OF h] sz] heap.release_ok [OF h] heap.live_used [OF h] by blast

text \<open>The heap after booting with two free pages whose headers are clear.\<close>

definition boot_heap :: buddy_state where
  "boot_heap = page_state.extend two_free_pages (buddy_state.fields (\<lambda>_. None) (\<lambda>_. fresh_head))"

lemma boot_heap_parts: "heap_parts boot_heap [1, 0] two_free_chains (\<lambda>_. []) {}"
proof -
  have "free_list boot_heap [1, 0]" "cache_chains boot_heap two_free_chains"
    unfolding boot_heap_def
    by (rule free_list_extend, rule two_free_pages_list) (rule cache_chains_extend, rule two_free_pages_chains)
  then show ?thesis
    by (simp add: heap_parts_def heap_frame_def buddy_lists_def level_of_def boot_heap_def
        page_state.extend_def buddy_state.fields_def fresh_head_def two_free_pages_def)
qed

lemma boot_heap_live: "heap_live boot_heap {}"
  using boot_heap_parts by (auto simp: heap_live_def)

text \<open>Page 2 is in use from the start.\<close>

lemma boot_heap_used: "heap_used boot_heap = {0xC000200C}"
proof -
  have "heap_page boot_heap [1, 0] x \<longleftrightarrow> x = 2" for x
    by (auto simp: heap_page_def heap_frame_def boot_heap_def page_state.extend_def two_free_pages_def level_of_def
        buddy_state.fields_def fresh_head_def zero_page_def PAGE_BUDDY_def)
  then show ?thesis
    unfolding heap_used_eq [OF boot_heap_parts] blocks_used_def by (simp add: frame_addr_def)
qed

lemma small_size_44: "small_size 44"
  by (auto simp: small_size_def small_request_def level_for_def blocksizes_def sizeof_buddy_head_def)

lemma boot_kmalloc: "\<exists>u. kmalloc id 44 boot_heap = Some (0xC000100C, u)"
proof -
  have "free_list boot_heap [1, 0]" "cache_chains boot_heap two_free_chains"
    unfolding boot_heap_def
    by (rule free_list_extend, rule two_free_pages_list) (rule cache_chains_extend, rule two_free_pages_chains)
  moreover have "small_request 44 1"
    by (simp add: small_request_def level_for_def blocksizes_def sizeof_buddy_head_def)
  moreover have "\<forall>k. 1 \<le> k \<and> k < 7 \<longrightarrow> freelist boot_heap k = None"
    by (simp add: boot_heap_def page_state.extend_def buddy_state.fields_def)
  ultimately show ?thesis
    using kmalloc_small_page [of 44 1 boot_heap 1 "[0]" two_free_chains id] by (auto simp: frame_addr_def)
qed

lemma boot_heap_one: "\<exists>h :: buddy_state. heap_live h {0xC000100C}"
proof -
  obtain u where "kmalloc id 44 boot_heap = Some (0xC000100C, u)" using boot_kmalloc by blast
  then have "heap_live u {0xC000100C}"
    using heap.alloc_fresh [OF boot_heap_live small_size_44] by simp
  then show ?thesis by blast
qed

theorem kmalloc_fresh_witness:
  "\<exists>u t. kmalloc id 44 boot_heap = Some (0xC000100C, u) \<and> heap_used u = {0xC000100C, 0xC000200C} \<and>
    kfree 0xC000100C u = Some t \<and> heap_live t {} \<and> heap_used t = {0xC000200C}"
proof -
  obtain u where u: "kmalloc id 44 boot_heap = Some (0xC000100C, u)" using boot_kmalloc by blast
  moreover have k: "heap_live u {0xC000100C}" "heap_used u = {0xC000100C, 0xC000200C}"
    using kmalloc_fresh [of id boot_heap "{}" 44 "0xC000100C" u] boot_heap_live boot_heap_used small_size_44 u by auto
  moreover have "\<exists>t. kfree 0xC000100C u = Some t \<and> heap_live t {} \<and> heap_used t = {0xC000200C}"
    using kmalloc_fresh [of id u "{0xC000100C}" 44 _ _ "0xC000100C"] k small_size_44 by auto
  ultimately show ?thesis by blast
qed

end
