(* ===== verification/Charq.thy ===== *)
theory Charq
  imports Heap
begin

text \<open>
  Character queues, \<open>src/drivers/src/dev/char/charq.c\<close> with \<open>src/include/drivers/dev/char/charq.h\<close>:
  a queue of bytes kept in a doubly linked list of at most 8 blocks of 32 bytes each, taken from the
  kernel heap. The blocks live in a store indexed by address, next to the state \<open>'h\<close> of the heap, so that
  several queues can share both. The operations take \<open>kmalloc\<close> and \<open>kfree\<close> as arguments (\<open>alloc\<close> and \<open>release\<close>); the locale
  \<open>allocator\<close> states what they rely on, and the heap of \<open>Buddy\<close> is shown to provide it.
\<close>

section \<open>State\<close>

record cblock =
  next_read_index :: u16
  next_write_index :: u16
  cb_data :: "u8 list"
  cb_prev :: "u32 option"
  cb_next :: "u32 option"

record charq =
  current_cblock_size :: u16
  q_size :: u16
  q_head :: "u32 option"
  q_tail :: "u32 option"

record 'h cstore =
  cblocks :: "u32 \<Rightarrow> cblock"
  heap :: 'h

definition CBLOCK_SIZE :: nat where "CBLOCK_SIZE = 32"
definition CHARQ_SIZE :: nat where "CHARQ_SIZE = 8"
definition sizeof_cblock :: u32 where "sizeof_cblock = 44"

definition zero_cblock :: cblock where
  "zero_cblock = \<lparr>next_read_index = 0, next_write_index = 0, cb_data = replicate CBLOCK_SIZE 0,
     cb_prev = None, cb_next = None\<rparr>"

definition zero_charq :: charq where
  "zero_charq = \<lparr>current_cblock_size = 0, q_size = 0, q_head = None, q_tail = None\<rparr>"

definition upd_cblock :: "u32 \<Rightarrow> (cblock \<Rightarrow> cblock) \<Rightarrow> 'h cstore \<Rightarrow> 'h cstore" where
  "upd_cblock b f st = st\<lparr>cblocks := (cblocks st)(b := f (cblocks st b))\<rparr>"

section \<open>Blocks\<close>

definition cblock_has_unread_chars :: "cblock \<Rightarrow> bool" where
  "cblock_has_unread_chars cb \<longleftrightarrow> next_write_index cb > next_read_index cb"

definition cblock_is_empty :: "cblock \<Rightarrow> bool" where
  "cblock_is_empty cb \<longleftrightarrow> int (unat (next_write_index cb)) - int (unat (next_read_index cb)) = 0"

text \<open>The result is the address of the new block, \<^const>\<open>None\<close> when there is none.\<close>

definition insert_cblock_in_tail ::
    "(u32 \<Rightarrow> 'h \<Rightarrow> (u32 \<times> 'h) option) \<Rightarrow> charq \<Rightarrow> 'h cstore \<Rightarrow>
     (u32 option \<times> charq \<times> 'h cstore) option" where
  "insert_cblock_in_tail alloc q st =
     (if unat (q_size q) \<ge> CHARQ_SIZE then Some (None, q, st)
      else do {
        (cb, h) \<leftarrow> alloc sizeof_cblock (heap st);
        let st = st\<lparr>heap := h\<rparr>;
        if cb = 0 then Some (None, q, st)
        else do {
          let st = upd_cblock cb (\<lambda>_. zero_cblock) st;
          let q = q\<lparr>q_size := q_size q + 1\<rparr>;
          (case q_tail q of
             None \<Rightarrow> Some (Some cb, q\<lparr>q_head := Some cb, q_tail := Some cb\<rparr>, st)
           | Some t \<Rightarrow>
              (let st = upd_cblock cb (\<lambda>b. b\<lparr>cb_prev := Some t\<rparr>) st;
                   st = upd_cblock cb (\<lambda>b. b\<lparr>cb_next := None\<rparr>) st;
                   st = upd_cblock t (\<lambda>b. b\<lparr>cb_next := Some cb\<rparr>) st
               in Some (Some cb, q\<lparr>q_tail := Some cb\<rparr>, st)))
        }
      })"

definition delete_cblock_from_head ::
    "(u32 \<Rightarrow> 'h \<Rightarrow> 'h option) \<Rightarrow> charq \<Rightarrow> 'h cstore \<Rightarrow> (charq \<times> 'h cstore) option" where
  "delete_cblock_from_head release q st =
     (case q_head q of
        None \<Rightarrow> Some (q, st)
      | Some tmp \<Rightarrow> do {
          (q, st) \<leftarrow>
            (if q_head q = q_tail q then Some (q\<lparr>q_head := None, q_tail := None\<rparr>, st)
             else do {
               h \<leftarrow> cb_next (cblocks st tmp);
               Some (q\<lparr>q_head := Some h\<rparr>, upd_cblock h (\<lambda>b. b\<lparr>cb_prev := None\<rparr>) st)
             });
          let cb = cblocks st tmp;
          let q = q\<lparr>current_cblock_size :=
                current_cblock_size q - (next_write_index cb - next_read_index cb)\<rparr>;
          let q = q\<lparr>q_size := q_size q - 1\<rparr>;
          h \<leftarrow> release tmp (heap st);
          Some (q, st\<lparr>heap := h\<rparr>)
        })"

text \<open>Unlike the deletion at the head, this one does not free the block.\<close>

definition delete_cblock_from_tail :: "charq \<Rightarrow> 'h cstore \<Rightarrow> (charq \<times> 'h cstore) option" where
  "delete_cblock_from_tail q st =
     (case q_tail q of
        None \<Rightarrow> Some (q, st)
      | Some tmp \<Rightarrow> do {
          (q, st) \<leftarrow>
            (if q_head q = q_tail q then Some (q\<lparr>q_head := None, q_tail := None\<rparr>, st)
             else do {
               t \<leftarrow> cb_prev (cblocks st tmp);
               Some (q\<lparr>q_tail := Some t\<rparr>, upd_cblock t (\<lambda>b. b\<lparr>cb_next := None\<rparr>) st)
             });
          let cb = cblocks st tmp;
          let q = q\<lparr>current_cblock_size :=
                current_cblock_size q - (next_write_index cb - next_read_index cb)\<rparr>;
          Some (q\<lparr>q_size := q_size q - 1\<rparr>, st)
        })"

section \<open>Characters\<close>

text \<open>The outer call ignores the result of the inner one. Indexing beyond the 32 bytes of a block is
  undefined.\<close>

partial_function (option) charq_put_char ::
    "(u32 \<Rightarrow> 'h \<Rightarrow> (u32 \<times> 'h) option) \<Rightarrow> u8 \<Rightarrow> charq \<Rightarrow> 'h cstore \<Rightarrow>
     (retval_t \<times> charq \<times> 'h cstore) option" where
  "charq_put_char alloc c q st = do {
     (cb, q, st) \<leftarrow> (case q_tail q of
         Some cb \<Rightarrow> Some (Some cb, q, st)
       | None \<Rightarrow> insert_cblock_in_tail alloc q st);
     (case cb of
        None \<Rightarrow> Some (RET_FAIL, q, st)
      | Some cb \<Rightarrow>
          if unat (next_write_index (cblocks st cb)) < CBLOCK_SIZE then do {
            let i = unat (next_write_index (cblocks st cb));
            require (i < length (cb_data (cblocks st cb)));
            let st = upd_cblock cb (\<lambda>b. b\<lparr>cb_data := (cb_data b)[i := c]\<rparr>) st;
            let st = upd_cblock cb (\<lambda>b. b\<lparr>next_write_index := next_write_index b + 1\<rparr>) st;
            Some (RET_OK, q\<lparr>current_cblock_size := current_cblock_size q + 1\<rparr>, st)
          }
          else do {
            (new, q, st) \<leftarrow> insert_cblock_in_tail alloc q st;
            if new \<noteq> None then do {
              (_, q, st) \<leftarrow> charq_put_char alloc c q st;
              Some (RET_OK, q, st)
            } else Some (RET_FAIL, q, st)
          })
   }"

definition charq_unput_char :: "charq \<Rightarrow> 'h cstore \<Rightarrow> (retval_t \<times> charq \<times> 'h cstore) option" where
  "charq_unput_char q st =
     (case q_tail q of
        None \<Rightarrow> Some (RET_OK, q, st)
      | Some cb \<Rightarrow> do {
          let (q, st) =
            (if cblock_has_unread_chars (cblocks st cb)
             then (q\<lparr>current_cblock_size := current_cblock_size q - 1\<rparr>,
                   upd_cblock cb (\<lambda>b. b\<lparr>next_write_index := next_write_index b - 1\<rparr>) st)
             else (q, st));
          (q, st) \<leftarrow> (if cblock_is_empty (cblocks st cb) then delete_cblock_from_tail q st
                      else Some (q, st));
          Some (RET_OK, q, st)
        })"

definition charq_get_char ::
    "(u32 \<Rightarrow> 'h \<Rightarrow> 'h option) \<Rightarrow> charq \<Rightarrow> 'h cstore \<Rightarrow> (u8 \<times> charq \<times> 'h cstore) option" where
  "charq_get_char release q st =
     (case q_head q of
        None \<Rightarrow> Some (0, q, st)
      | Some cb \<Rightarrow> do {
          (c, q, st) \<leftarrow>
            (if cblock_has_unread_chars (cblocks st cb) then do {
               let i = unat (next_read_index (cblocks st cb));
               require (i < length (cb_data (cblocks st cb)));
               Some (cb_data (cblocks st cb) ! i, q\<lparr>current_cblock_size := current_cblock_size q - 1\<rparr>,
                 upd_cblock cb (\<lambda>b. b\<lparr>next_read_index := next_read_index b + 1\<rparr>) st)
             } else Some (0, q, st));
          (q, st) \<leftarrow> (if cblock_is_empty (cblocks st cb) then delete_cblock_from_head release q st
                      else Some (q, st));
          Some (c, q, st)
        })"

partial_function (option) charq_flush ::
    "(u32 \<Rightarrow> 'h \<Rightarrow> 'h option) \<Rightarrow> charq \<Rightarrow> 'h cstore \<Rightarrow> (charq \<times> 'h cstore) option" where
  "charq_flush release q st =
     (if q_head q = None then Some (q, st)
      else do {
        (q, st) \<leftarrow> delete_cblock_from_head release q st;
        charq_flush release q st
      })"

definition charq_remaining :: "charq \<Rightarrow> int" where
  "charq_remaining q = int (CHARQ_SIZE * CBLOCK_SIZE) - int (unat (current_cblock_size q))"


section \<open>What a queue represents\<close>

abbreviation cnx :: "'h cstore \<Rightarrow> u32 \<Rightarrow> u32 option" where
  "cnx st \<equiv> \<lambda>b. cb_next (cblocks st b)"
abbreviation cpv :: "'h cstore \<Rightarrow> u32 \<Rightarrow> u32 option" where
  "cpv st \<equiv> \<lambda>b. cb_prev (cblocks st b)"

abbreviation rd :: "cblock \<Rightarrow> nat" where "rd cb \<equiv> unat (next_read_index cb)"
abbreviation wr :: "cblock \<Rightarrow> nat" where "wr cb \<equiv> unat (next_write_index cb)"

text \<open>The unread characters of a block, and of the blocks of a queue.\<close>

definition cb_chars :: "cblock \<Rightarrow> u8 list" where
  "cb_chars cb = drop (rd cb) (take (wr cb) (cb_data cb))"

definition all_chars :: "'h cstore \<Rightarrow> u32 list \<Rightarrow> u8 list" where
  "all_chars st xs = concat (map (\<lambda>b. cb_chars (cblocks st b)) xs)"

definition cblock_ok :: "cblock \<Rightarrow> bool" where
  "cblock_ok cb \<longleftrightarrow> length (cb_data cb) = 32 \<and> rd cb \<le> wr cb \<and> wr cb \<le> 32"

text \<open>The blocks of a queue: full up to the last, unread from the second on. While a character is put
  into a new block, the last block may be empty.\<close>

definition cq_pre :: "charq \<Rightarrow> 'h cstore \<Rightarrow> u32 list \<Rightarrow> bool" where
  "cq_pre q st xs \<longleftrightarrow>
     dlist (cnx st) (cpv st) (q_head q) xs \<and>
     q_tail q = (if xs = [] then None else Some (last xs)) \<and>
     q_size q = of_nat (length xs) \<and> length xs \<le> 8 \<and>
     (\<forall>b \<in> set xs. cblock_ok (cblocks st b)) \<and>
     (\<forall>b \<in> set (tl xs). rd (cblocks st b) = 0) \<and>
     (\<forall>b \<in> set (butlast xs). wr (cblocks st b) = 32) \<and>
     current_cblock_size q = of_nat (length (all_chars st xs))"

text \<open>The queue \<open>q\<close> holds the characters \<open>cs\<close> in the blocks \<open>xs\<close>.\<close>

definition charq_rep :: "charq \<Rightarrow> 'h cstore \<Rightarrow> u32 list \<Rightarrow> u8 list \<Rightarrow> bool" where
  "charq_rep q st xs cs \<longleftrightarrow> cq_pre q st xs \<and> cs = all_chars st xs \<and>
     (\<forall>b \<in> set xs. rd (cblocks st b) < wr (cblocks st b))"

lemma upd_cblock_simps [simp]:
  "cblocks (upd_cblock b f st) = (cblocks st)(b := f (cblocks st b))"
  "heap (upd_cblock b f st) = heap st"
  by (simp_all add: upd_cblock_def)

lemma all_chars_simps [simp]:
  "all_chars st [] = []"
  "all_chars st (b # xs) = cb_chars (cblocks st b) @ all_chars st xs"
  "all_chars st (xs @ ys) = all_chars st xs @ all_chars st ys"
  by (simp_all add: all_chars_def)

lemma all_chars_cong: "(\<And>b. b \<in> set xs \<Longrightarrow> cb_chars (cblocks st b) = cb_chars (cblocks st' b)) \<Longrightarrow>
    all_chars st xs = all_chars st' xs"
  unfolding all_chars_def by (metis (mono_tags, lifting) map_eq_conv)

lemma all_chars_upd_off [simp]: "t \<notin> set xs \<Longrightarrow> all_chars (upd_cblock t f st) xs = all_chars st xs"
  by (rule all_chars_cong) auto

lemma all_chars_upd_links [simp]:
  "all_chars (upd_cblock t (\<lambda>b. b\<lparr>cb_prev := p\<rparr>) st) xs = all_chars st xs"
  "all_chars (upd_cblock t (\<lambda>b. b\<lparr>cb_next := p\<rparr>) st) xs = all_chars st xs"
  by (rule all_chars_cong, auto simp: cb_chars_def)+

lemma all_chars_heap [simp]: "all_chars (st\<lparr>heap := h\<rparr>) xs = all_chars st xs"
  by (simp add: all_chars_def)

lemma cblock_is_empty_iff: "cblock_is_empty cb \<longleftrightarrow> wr cb = rd cb"
  by (simp only: cblock_is_empty_def right_minus_eq of_nat_eq_iff)

lemma length_cb_chars: "cblock_ok cb \<Longrightarrow> length (cb_chars cb) = wr cb - rd cb"
  by (simp add: cb_chars_def cblock_ok_def)

lemma length_all_chars:
  "\<forall>b \<in> set xs. cblock_ok (cblocks st b) \<Longrightarrow> length (all_chars st xs) \<le> 32 * length xs"
proof (induction xs)
  case (Cons b xs)
  have "length (cb_chars (cblocks st b)) \<le> 32"
    using Cons.prems length_cb_chars [of "cblocks st b"] by (auto simp: cblock_ok_def)
  then show ?case using Cons by simp
qed simp

lemma u16_plus_1: "unat (w :: u16) < 65535 \<Longrightarrow> unat (w + 1) = unat w + 1"
  by (simp add: unat_word_ariths)

lemma u16_minus_1: "0 < unat (w :: u16) \<Longrightarrow> unat (w - 1) = unat w - 1"
  by (metis unat_minus_one unat_0 less_irrefl)

lemma u16_of_nat: "n < 65536 \<Longrightarrow> unat (of_nat n :: u16) = n"
  by (simp add: unat_of_nat take_bit_nat_eq_self)

text \<open>Writing one character, dropping the last and reading the first.\<close>

lemma cb_chars_push:
  assumes "cblock_ok cb" "wr cb < 32"
  shows "cb_chars (cb\<lparr>cb_data := (cb_data cb)[wr cb := c], next_write_index := next_write_index cb + 1\<rparr>) =
      cb_chars cb @ [c]"
    and "cblock_ok (cb\<lparr>cb_data := (cb_data cb)[wr cb := c], next_write_index := next_write_index cb + 1\<rparr>)"
  using assms by (simp_all add: cb_chars_def cblock_ok_def u16_plus_1 take_Suc_conv_app_nth)

lemma cb_chars_pop:
  assumes "cblock_ok cb" "rd cb < wr cb"
  shows "cb_chars cb = cb_data cb ! rd cb # cb_chars (cb\<lparr>next_read_index := next_read_index cb + 1\<rparr>)"
    and "cblock_ok (cb\<lparr>next_read_index := next_read_index cb + 1\<rparr>)"
  using assms by (simp_all add: cb_chars_def cblock_ok_def u16_plus_1 Cons_nth_drop_Suc [symmetric])

lemma cb_chars_unput:
  assumes "cblock_ok cb" "rd cb < wr cb"
  shows "cb_chars (cb\<lparr>next_write_index := next_write_index cb - 1\<rparr>) = butlast (cb_chars cb)"
    and "cblock_ok (cb\<lparr>next_write_index := next_write_index cb - 1\<rparr>)"
proof -
  have w: "wr (cb\<lparr>next_write_index := next_write_index cb - 1\<rparr>) = wr cb - 1"
    using assms by (simp add: u16_minus_1)
  show "cblock_ok (cb\<lparr>next_write_index := next_write_index cb - 1\<rparr>)"
    using assms w by (auto simp: cblock_ok_def)
  show "cb_chars (cb\<lparr>next_write_index := next_write_index cb - 1\<rparr>) = butlast (cb_chars cb)"
    using assms w by (simp add: cb_chars_def cblock_ok_def butlast_drop butlast_take)
qed


section \<open>The operations on represented queues\<close>

lemma cq_pre_distinct: "cq_pre q st xs \<Longrightarrow> distinct xs"
  by (auto simp: cq_pre_def dest: dlist_distinct)

text \<open>A block that keeps its links keeps the list.\<close>

lemma dlist_upd_cblock:
  assumes "cb_next (f (cblocks st b)) = cnx st b" "cb_prev (f (cblocks st b)) = cpv st b"
  shows "dlist (cnx (upd_cblock b f st)) (cpv (upd_cblock b f st)) h xs = dlist (cnx st) (cpv st) h xs"
  by (rule dlist_cong) (use assms in auto)

definition put_block :: "u8 \<Rightarrow> cblock \<Rightarrow> cblock" where
  "put_block c b = b\<lparr>cb_data := (cb_data b)[wr b := c], next_write_index := next_write_index b + 1\<rparr>"

lemma charq_put_room:
  assumes pre: "cq_pre q st (ys @ [t])" and room: "wr (cblocks st t) < 32"
  shows "charq_put_char alloc c q st = Some (RET_OK,
      q\<lparr>current_cblock_size := current_cblock_size q + 1\<rparr>, upd_cblock t (put_block c) st)"
    and "\<forall>b \<in> set ys. rd (cblocks st b) < wr (cblocks st b) \<Longrightarrow>
      charq_rep (q\<lparr>current_cblock_size := current_cblock_size q + 1\<rparr>) (upd_cblock t (put_block c) st)
        (ys @ [t]) (all_chars st (ys @ [t]) @ [c])"
proof -
  have tl: "q_tail q = Some t" and ok: "cblock_ok (cblocks st t)"
    using pre by (auto simp: cq_pre_def)
  have "i < 32 \<Longrightarrow> i < length (cb_data (cblocks st t))" for i using ok by (simp add: cblock_ok_def)
  then show "charq_put_char alloc c q st = Some (RET_OK,
      q\<lparr>current_cblock_size := current_cblock_size q + 1\<rparr>, upd_cblock t (put_block c) st)"
    using room tl
    by (subst charq_put_char.simps) (simp add: CBLOCK_SIZE_def upd_cblock_def put_block_def Let_def)
  assume rw: "\<forall>b \<in> set ys. rd (cblocks st b) < wr (cblocks st b)"
  let ?q = "q\<lparr>current_cblock_size := current_cblock_size q + 1\<rparr>" and ?st = "upd_cblock t (put_block c) st"
  note d = cq_pre_distinct [OF pre]
  note push = cb_chars_push [OF ok room, of c, folded put_block_def]
  have ch: "all_chars ?st (ys @ [t]) = all_chars st (ys @ [t]) @ [c]"
    using d push(1) by auto
  have dl: "dlist (cnx ?st) (cpv ?st) (q_head q) (ys @ [t])"
    using pre by (subst dlist_upd_cblock) (auto simp: cq_pre_def put_block_def)
  have rt: "rd (put_block c (cblocks st t)) = rd (cblocks st t)" by (simp add: put_block_def)
  have wt: "wr (put_block c (cblocks st t)) = wr (cblocks st t) + 1"
    using room by (simp add: put_block_def u16_plus_1)
  have "cq_pre ?q ?st (ys @ [t])"
    using pre dl ch push(2) rt d unfolding cq_pre_def
    by (auto simp: add.commute in_set_tlD split: if_splits)
  moreover have "\<forall>b\<in>set (ys @ [t]). rd (cblocks ?st b) < wr (cblocks ?st b)"
    using rw ok rt wt by (auto simp: cblock_ok_def)
  ultimately show "charq_rep ?q ?st (ys @ [t]) (all_chars st (ys @ [t]) @ [c])"
    using ch by (simp add: charq_rep_def)
qed


lemma cb_chars_zero [simp]: "cb_chars (zero_cblock\<lparr>cb_prev := p, cb_next := n\<rparr>) = []" "cb_chars zero_cblock = []"
  by (simp_all add: cb_chars_def zero_cblock_def)

lemma insert_cblock_ok:
  assumes pre: "cq_pre q st xs" and full: "\<forall>b \<in> set xs. wr (cblocks st b) = 32 \<and> rd (cblocks st b) < 32"
    and len: "length xs < 8" and al: "alloc sizeof_cblock (heap st) = Some (a, h)" "a \<noteq> 0" "a \<notin> set xs"
  shows "\<exists>q' st'. insert_cblock_in_tail alloc q st = Some (Some a, q', st') \<and> q_tail q' = Some a \<and>
    cq_pre q' st' (xs @ [a]) \<and> wr (cblocks st' a) = 0 \<and> all_chars st' (xs @ [a]) = all_chars st xs \<and>
    heap st' = h \<and> (\<forall>b \<in> set xs. rd (cblocks st' b) < wr (cblocks st' b)) \<and>
    (\<forall>b. b \<notin> set (xs @ [a]) \<longrightarrow> cblocks st' b = cblocks st b)"
proof (cases xs rule: rev_cases)
  case Nil
  let ?st = "upd_cblock a (\<lambda>_. zero_cblock) (st\<lparr>heap := h\<rparr>)"
  let ?q = "q\<lparr>q_size := 1, q_head := Some a, q_tail := Some a\<rparr>"
  have "insert_cblock_in_tail alloc q st = Some (Some a, ?q, ?st)"
    using pre Nil al by (simp add: insert_cblock_in_tail_def cq_pre_def CHARQ_SIZE_def)
  moreover have "cq_pre ?q ?st [a]"
    using pre Nil by (simp add: cq_pre_def dlist_def cblock_ok_def zero_cblock_def CBLOCK_SIZE_def
        cb_chars_def)
  ultimately show ?thesis using Nil by (auto simp: zero_cblock_def cb_chars_def)
next
  case (snoc ys t)
  let ?st1 = "upd_cblock a (\<lambda>_. zero_cblock\<lparr>cb_prev := Some t, cb_next := None\<rparr>) (st\<lparr>heap := h\<rparr>)"
  let ?st = "upd_cblock t (\<lambda>b. b\<lparr>cb_next := Some a\<rparr>) ?st1"
  let ?q = "q\<lparr>q_size := q_size q + 1, q_tail := Some a\<rparr>"
  have d: "distinct (ys @ [t])" "a \<noteq> t" "a \<notin> set ys" using cq_pre_distinct [OF pre] al snoc by auto
  have n: "unat (q_size q) = length xs" using pre len by (simp add: cq_pre_def u16_of_nat)
  have eq: "insert_cblock_in_tail alloc q st = Some (Some a, ?q, ?st)"
    using pre snoc al n len
    by (simp add: insert_cblock_in_tail_def cq_pre_def CHARQ_SIZE_def upd_cblock_def Let_def)
  have ch: "cb_chars (cblocks ?st b) = (if b = a then [] else cb_chars (cblocks st b))" for b
    using d by (simp add: cb_chars_def zero_cblock_def)
  have all: "all_chars ?st (xs @ [a]) = all_chars st xs"
  proof -
    have "all_chars ?st xs = all_chars st xs"
      by (rule all_chars_cong) (use ch al(3) in auto)
    then show ?thesis by (simp only: all_chars_simps ch append_Nil2 if_True refl)
  qed
  have "dlist (cnx st) (cpv st) (q_head q) (ys @ [t])" using pre snoc by (simp add: cq_pre_def)
  then have dl: "dlist (cnx ?st) (cpv ?st) (q_head q) (ys @ [t, a])"
    by (rule dlist_snoc) (use d in auto)
  have old: "rd (cblocks ?st b) = rd (cblocks st b)" "wr (cblocks ?st b) = wr (cblocks st b)"
    "cblock_ok (cblocks ?st b) = cblock_ok (cblocks st b)" if "b \<in> set xs" for b
    using that al(3) by (auto simp: cblock_ok_def)
  have oldt: "rd (cblocks ?st b) = rd (cblocks st b)" if "b \<in> set (tl xs)" for b
    by (rule old(1) [OF in_set_tlD [OF that]])
  have new: "rd (cblocks ?st a) = 0" "wr (cblocks ?st a) = 0" "cblock_ok (cblocks ?st a)"
    using d by (auto simp: zero_cblock_def cblock_ok_def CBLOCK_SIZE_def)
  have tlx: "tl (xs @ [a]) = tl xs @ [a]" using snoc by (cases ys) auto
  have "dlist (cnx ?st) (cpv ?st) (q_head ?q) (xs @ [a])" using dl snoc by simp
  moreover have "q_size ?q = of_nat (length (xs @ [a]))" "length (xs @ [a]) \<le> 8"
    "current_cblock_size ?q = of_nat (length (all_chars ?st (xs @ [a])))"
    unfolding all using pre len by (simp_all add: cq_pre_def)
  moreover have "\<forall>b\<in>set (xs @ [a]). cblock_ok (cblocks ?st b)"
    "\<forall>b\<in>set (tl (xs @ [a])). rd (cblocks ?st b) = 0"
    "\<forall>b\<in>set (butlast (xs @ [a])). wr (cblocks ?st b) = 32"
    unfolding tlx using pre old oldt new full by (auto simp: cq_pre_def simp del: upd_cblock_simps)
  ultimately have "cq_pre ?q ?st (xs @ [a])" unfolding cq_pre_def by simp
  then show ?thesis using eq all full d snoc by (auto simp: zero_cblock_def)
qed

text \<open>The three cases of a put: room in the last block, a new block, no block to be had.\<close>

lemma charq_put_new:
  assumes rep: "charq_rep q st xs cs" and full: "xs = [] \<or> wr (cblocks st (last xs)) = 32"
    and len: "length xs < 8" and al: "alloc sizeof_cblock (heap st) = Some (a, h)" "a \<noteq> 0" "a \<notin> set xs"
  shows "\<exists>q' st'. charq_put_char alloc c q st = Some (RET_OK, q', st') \<and>
    charq_rep q' st' (xs @ [a]) (cs @ [c]) \<and> heap st' = h \<and> wr (cblocks st' a) = 1 \<and>
    (\<forall>b. b \<notin> set (xs @ [a]) \<longrightarrow> cblocks st' b = cblocks st b)"
proof -
  have pre: "cq_pre q st xs" and cs: "cs = all_chars st xs" using rep by (auto simp: charq_rep_def)
  have fl: "\<forall>b \<in> set xs. wr (cblocks st b) = 32 \<and> rd (cblocks st b) < 32"
  proof
    fix b assume b: "b \<in> set xs"
    then have "b = last xs \<or> b \<in> set (butlast xs)" by (rule in_set_last)
    moreover have "rd (cblocks st b) < wr (cblocks st b)" using rep b by (simp add: charq_rep_def)
    ultimately show "wr (cblocks st b) = 32 \<and> rd (cblocks st b) < 32"
      using pre full b by (auto simp: cq_pre_def)
  qed
  obtain q' st' where i: "insert_cblock_in_tail alloc q st = Some (Some a, q', st')" "q_tail q' = Some a"
    "cq_pre q' st' (xs @ [a])" "wr (cblocks st' a) = 0" "all_chars st' (xs @ [a]) = all_chars st xs"
    "heap st' = h" "\<forall>b \<in> set xs. rd (cblocks st' b) < wr (cblocks st' b)"
    "\<forall>b. b \<notin> set (xs @ [a]) \<longrightarrow> cblocks st' b = cblocks st b"
    using insert_cblock_ok [of q st xs alloc a h, OF pre fl len al] by blast
  note put = charq_put_room [OF i(3), where c = c]
  have p: "charq_put_char alloc c q' st' = Some (RET_OK,
      q'\<lparr>current_cblock_size := current_cblock_size q' + 1\<rparr>, upd_cblock a (put_block c) st')"
    using put(1) i(4) by simp
  have eq: "charq_put_char alloc c q st = charq_put_char alloc c q' st'"
  proof (cases "xs = []")
    case True
    then have "q_tail q = None" using pre by (simp add: cq_pre_def)
    then show ?thesis using i(1,2)
      by (subst (1 2) charq_put_char.simps) simp
  next
    case False
    then have "q_tail q = Some (last xs)" "wr (cblocks st (last xs)) = 32"
      using pre full by (auto simp: cq_pre_def)
    then show ?thesis using i(1) p
      by (subst charq_put_char.simps) (simp add: CBLOCK_SIZE_def)
  qed
  have "charq_rep (q'\<lparr>current_cblock_size := current_cblock_size q' + 1\<rparr>) (upd_cblock a (put_block c) st')
      (xs @ [a]) (cs @ [c])"
    using put(2) [OF _ i(7)] i(4) unfolding i(5) cs by simp
  moreover have "wr (cblocks (upd_cblock a (put_block c) st') a) = 1"
    using i(4) by (simp add: put_block_def u16_plus_1)
  ultimately show ?thesis using eq p i(6,8) by auto
qed

lemma charq_put_no_block:
  assumes rep: "charq_rep q st xs cs" and full: "xs = [] \<or> wr (cblocks st (last xs)) = 32"
  shows "length xs = 8 \<Longrightarrow> charq_put_char alloc c q st = Some (RET_FAIL, q, st)"
    and "length xs < 8 \<Longrightarrow> alloc sizeof_cblock (heap st) = Some (0, h) \<Longrightarrow>
      charq_put_char alloc c q st = Some (RET_FAIL, q, st\<lparr>heap := h\<rparr>)"
    and "length xs < 8 \<Longrightarrow> alloc sizeof_cblock (heap st) = None \<Longrightarrow> charq_put_char alloc c q st = None"
  using rep full
  by (subst charq_put_char.simps;
      auto simp: charq_rep_def cq_pre_def insert_cblock_in_tail_def CHARQ_SIZE_def CBLOCK_SIZE_def u16_of_nat)+


text \<open>Reading: the head block loses its first character, and goes back to the heap with its last.\<close>

definition get_block :: "cblock \<Rightarrow> cblock" where
  "get_block b = b\<lparr>next_read_index := next_read_index b + 1\<rparr>"

lemma get_block_fields:
  assumes "cblock_ok b" "rd b < wr b"
  shows "rd (get_block b) = rd b + 1" "wr (get_block b) = wr b"
  using assms by (auto simp: get_block_def u16_plus_1 cblock_ok_def)

text \<open>The first character of the head block is consumed.\<close>

lemma charq_get_head:
  assumes pre: "cq_pre q st (b # ys)" and rw: "rd (cblocks st b) < wr (cblocks st b)"
    and cs: "cs = all_chars st (b # ys)"
  shows "cq_pre (q\<lparr>current_cblock_size := current_cblock_size q - 1\<rparr>) (upd_cblock b get_block st) (b # ys)"
    and "all_chars (upd_cblock b get_block st) (b # ys) = tl cs"
    and "charq_get_char release q st =
      (let q1 = q\<lparr>current_cblock_size := current_cblock_size q - 1\<rparr>; st1 = upd_cblock b get_block st in
       if rd (cblocks st b) + 1 = wr (cblocks st b)
       then do { (q', st') \<leftarrow> delete_cblock_from_head release q1 st1; Some (hd cs, q', st') }
       else Some (hd cs, q1, st1))"
proof -
  have ok: "cblock_ok (cblocks st b)" using pre by (simp add: cq_pre_def)
  note pop = cb_chars_pop [OF ok rw, folded get_block_def] and f = get_block_fields [OF ok rw]
  let ?q = "q\<lparr>current_cblock_size := current_cblock_size q - 1\<rparr>" and ?st = "upd_cblock b get_block st"
  have d: "b \<notin> set ys" using cq_pre_distinct [OF pre] by simp
  have ch: "all_chars ?st (b # ys) = tl cs" "hd cs = cb_data (cblocks st b) ! rd (cblocks st b)" "cs \<noteq> []"
    using d pop(1) cs by auto
  have emp: "cblock_is_empty (get_block (cblocks st b)) \<longleftrightarrow> rd (cblocks st b) + 1 = wr (cblocks st b)"
    using f by (auto simp: cblock_is_empty_iff)
  have "rd (cblocks st b) < length (cb_data (cblocks st b))" using ok rw by (simp add: cblock_ok_def)
  moreover have "q_head q = Some b" using pre by (auto simp: cq_pre_def dlist_def)
  ultimately show "charq_get_char release q st =
      (let q1 = ?q; st1 = ?st in
       if rd (cblocks st b) + 1 = wr (cblocks st b)
       then do { (q', st') \<leftarrow> delete_cblock_from_head release q1 st1; Some (hd cs, q', st') }
       else Some (hd cs, q1, st1))"
    using rw emp ch
    by (simp add: charq_get_char_def cblock_has_unread_chars_def word_less_nat_alt get_block_def
        upd_cblock_def Let_def)
  show "all_chars ?st (b # ys) = tl cs" by (rule ch(1))
  have "dlist (cnx ?st) (cpv ?st) (q_head ?q) (b # ys)"
    using pre by (subst dlist_upd_cblock) (auto simp: cq_pre_def get_block_def)
  moreover have "current_cblock_size ?q = of_nat (length (all_chars ?st (b # ys)))"
  proof -
    have "current_cblock_size q = of_nat (length cs)" using pre cs by (simp only: cq_pre_def)
    then show ?thesis unfolding ch(1) using ch(3) by (cases cs) auto
  qed
  ultimately show "cq_pre ?q ?st (b # ys)"
    using pre pop(2) f d unfolding cq_pre_def by (auto simp del: all_chars_simps split: if_splits)
qed

text \<open>Deleting the head block, with what is unread in it.\<close>

lemma charq_delete_head:
  assumes pre: "cq_pre q st (b # ys)" and rel: "release b (heap st) = Some h"
    and rw: "\<forall>a \<in> set ys. rd (cblocks st a) < wr (cblocks st a)"
  shows "\<exists>q' st'. delete_cblock_from_head release q st = Some (q', st') \<and>
    charq_rep q' st' ys (all_chars st ys) \<and> heap st' = h \<and>
    (\<forall>a. a \<notin> set ys \<longrightarrow> cblocks st' a = cblocks st a)"
proof -
  have ok: "cblock_ok (cblocks st b)" using pre by (simp add: cq_pre_def)
  have d: "b \<notin> set ys" using cq_pre_distinct [OF pre] by simp
  let ?n = "current_cblock_size q - (next_write_index (cblocks st b) - next_read_index (cblocks st b))"
  have "of_nat (wr (cblocks st b) - rd (cblocks st b)) =
      next_write_index (cblocks st b) - next_read_index (cblocks st b)"
    using ok by (simp add: cblock_ok_def of_nat_diff)
  then have cnt: "?n = of_nat (length (all_chars st ys))"
    using pre length_cb_chars [OF ok] by (simp add: cq_pre_def)
  have hd: "q_head q = Some b" and sz: "q_size q - 1 = of_nat (length ys)"
    using pre by (auto simp: cq_pre_def dlist_def)
  show ?thesis
  proof (cases ys)
    case Nil
    let ?q' = "q\<lparr>q_head := None, q_tail := None, current_cblock_size := ?n, q_size := q_size q - 1\<rparr>"
    have "delete_cblock_from_head release q st = Some (?q', st\<lparr>heap := h\<rparr>)"
      using pre Nil hd rel by (simp add: delete_cblock_from_head_def cq_pre_def Let_def)
    moreover have "charq_rep ?q' (st\<lparr>heap := h\<rparr>) ys (all_chars st ys)"
      using Nil sz cnt by (simp add: charq_rep_def cq_pre_def)
    ultimately show ?thesis using Nil by auto
  next
    case (Cons y zs)
    have dl: "dlist (cnx st) (cpv st) (q_head q) (b # y # zs)" using pre Cons by (simp add: cq_pre_def)
    have bl: "q_tail q \<noteq> Some b" using pre Cons d by (auto simp: cq_pre_def)
    have yb: "y \<noteq> b" using d Cons by auto
    let ?st' = "upd_cblock y (\<lambda>b. b\<lparr>cb_prev := None\<rparr>) st\<lparr>heap := h\<rparr>"
    let ?q' = "q\<lparr>q_head := Some y, current_cblock_size := ?n, q_size := q_size q - 1\<rparr>"
    have dys: "distinct (y # zs)" using cq_pre_distinct [OF pre] Cons by simp
    have pf: "cpv ?st' y = None" "\<And>z. z \<in> set zs \<Longrightarrow> cpv ?st' z = cpv st z"
      "\<And>z. z \<in> set (y # zs) \<Longrightarrow> cnx ?st' z = cnx st z"
      using d Cons dys by auto
    note dr = dlist_drop_head [OF dl, of "cpv ?st'" "cnx ?st'", OF pf, folded Cons]
    have "delete_cblock_from_head release q st = Some (?q', ?st')"
      using hd bl dr(1) yb rel by (simp add: delete_cblock_from_head_def Let_def)
    moreover have all: "all_chars ?st' ys = all_chars st ys" by simp
    moreover have "b \<notin> set (butlast zs)" using d Cons by (auto dest: in_set_butlastD)
    then have "cq_pre ?q' ?st' ys"
      using pre dr(2) Cons d sz cnt unfolding cq_pre_def all
      by (auto simp: cblock_ok_def simp del: all_chars_simps)
    moreover have "\<forall>a\<in>set ys. rd (cblocks ?st' a) < wr (cblocks ?st' a)" using rw by auto
    ultimately show ?thesis using Cons by (auto simp: charq_rep_def simp del: all_chars_simps)
  qed
qed

lemma charq_get_keep:
  assumes rep: "charq_rep q st (b # ys) cs" and more: "rd (cblocks st b) + 1 < wr (cblocks st b)"
  shows "\<exists>q'. charq_get_char release q st = Some (hd cs, q', upd_cblock b get_block st) \<and>
    charq_rep q' (upd_cblock b get_block st) (b # ys) (tl cs)"
proof -
  have pre: "cq_pre q st (b # ys)" and cs: "cs = all_chars st (b # ys)"
    and rw: "rd (cblocks st b) < wr (cblocks st b)" and ok: "cblock_ok (cblocks st b)"
    using rep by (auto simp: charq_rep_def cq_pre_def)
  note g = charq_get_head [OF pre rw cs]
  have "\<forall>a\<in>set (b # ys). rd (cblocks (upd_cblock b get_block st) a) < wr (cblocks (upd_cblock b get_block st) a)"
    using rep get_block_fields [OF ok rw] more by (auto simp: charq_rep_def)
  then show ?thesis using g more by (auto simp: charq_rep_def Let_def simp del: all_chars_simps)
qed

lemma charq_get_drop:
  assumes rep: "charq_rep q st (b # ys) cs" and last1: "rd (cblocks st b) + 1 = wr (cblocks st b)"
    and rel: "release b (heap st) = Some h"
  shows "\<exists>q' st'. charq_get_char release q st = Some (hd cs, q', st') \<and>
    charq_rep q' st' ys (tl cs) \<and> heap st' = h \<and> (\<forall>a. a \<notin> set (b # ys) \<longrightarrow> cblocks st' a = cblocks st a)"
proof -
  have pre: "cq_pre q st (b # ys)" and cs: "cs = all_chars st (b # ys)"
    and rw: "rd (cblocks st b) < wr (cblocks st b)" and ok: "cblock_ok (cblocks st b)"
    using rep by (auto simp: charq_rep_def cq_pre_def)
  note g = charq_get_head [OF pre rw cs] and f = get_block_fields [OF ok rw]
  let ?st = "upd_cblock b get_block st"
  have d: "b \<notin> set ys" using cq_pre_distinct [OF pre] by simp
  have r2: "\<forall>a \<in> set ys. rd (cblocks ?st a) < wr (cblocks ?st a)"
    using rep d by (auto simp: charq_rep_def)
  have rel2: "release b (heap ?st) = Some h" using rel by simp
  obtain q' st' where del: "delete_cblock_from_head release
      (q\<lparr>current_cblock_size := current_cblock_size q - 1\<rparr>) ?st = Some (q', st')"
    "charq_rep q' st' ys (all_chars ?st ys)" "heap st' = h"
    "\<forall>a. a \<notin> set ys \<longrightarrow> cblocks st' a = cblocks ?st a"
    using charq_delete_head [where release = release, OF g(1) rel2 r2] by blast
  have "cb_chars (get_block (cblocks st b)) = []" using last1 by (simp add: cb_chars_def f)
  then have "all_chars ?st ys = tl cs" using g(2) by simp
  then show ?thesis using del g(3) last1 by (auto simp: Let_def)
qed

text \<open>Taking back the last character. An emptied block leaves the list but not the heap.\<close>

definition unput_block :: "cblock \<Rightarrow> cblock" where
  "unput_block b = b\<lparr>next_write_index := next_write_index b - 1\<rparr>"

lemma charq_unput_ok:
  assumes rep: "charq_rep q st (ys @ [t]) cs"
  shows "\<exists>q' st'. charq_unput_char q st = Some (RET_OK, q', st') \<and> heap st' = heap st \<and>
    charq_rep q' st' (if rd (cblocks st t) + 1 = wr (cblocks st t) then ys else ys @ [t]) (butlast cs) \<and>
    (\<forall>a. a \<notin> set (ys @ [t]) \<longrightarrow> cblocks st' a = cblocks st a)"
proof -
  have pre: "cq_pre q st (ys @ [t])" and cs: "cs = all_chars st (ys @ [t])" using rep by (auto simp: charq_rep_def)
  have ok: "cblock_ok (cblocks st t)" and rw: "rd (cblocks st t) < wr (cblocks st t)"
    using rep by (auto simp: charq_rep_def cq_pre_def)
  note un = cb_chars_unput [OF ok rw, folded unput_block_def]
  let ?q = "q\<lparr>current_cblock_size := current_cblock_size q - 1\<rparr>" and ?st = "upd_cblock t unput_block st"
  have d: "t \<notin> set ys" "distinct ys" using cq_pre_distinct [OF pre] by auto
  have w1: "wr (unput_block (cblocks st t)) = wr (cblocks st t) - 1"
    using rw by (simp add: unput_block_def u16_minus_1)
  have r1: "rd (unput_block (cblocks st t)) = rd (cblocks st t)" by (simp add: unput_block_def)
  have ne: "cb_chars (cblocks st t) \<noteq> []" using length_cb_chars [OF ok] rw by auto
  then have bl: "butlast cs = all_chars st ys @ cb_chars (unput_block (cblocks st t))" "cs \<noteq> []"
    using cs un(1) by (auto simp: butlast_append)
  have "current_cblock_size q = of_nat (length cs)" using pre cs by (simp only: cq_pre_def)
  then have cnt: "current_cblock_size ?q = of_nat (length (butlast cs))"
    using bl(2) by (cases cs) auto
  have tlq: "q_tail q = Some t" using pre by (simp add: cq_pre_def)
  have un_eq: "charq_unput_char q st =
      do { (q, st) \<leftarrow> (if wr (cblocks st t) = rd (cblocks st t) + 1 then delete_cblock_from_tail ?q ?st
             else Some (?q, ?st)); Some (RET_OK, q, st) }"
    using tlq rw w1 r1
    by (auto simp: charq_unput_char_def cblock_has_unread_chars_def word_less_nat_alt cblock_is_empty_iff
        unput_block_def upd_cblock_def)
  show ?thesis
  proof (cases "rd (cblocks st t) + 1 = wr (cblocks st t)")
    case False
    have "dlist (cnx ?st) (cpv ?st) (q_head ?q) (ys @ [t])"
      using pre by (subst dlist_upd_cblock) (auto simp: cq_pre_def unput_block_def)
    moreover have all: "all_chars ?st (ys @ [t]) = butlast cs" using bl d by simp
    moreover have "t \<in> set (tl (ys @ [t])) \<Longrightarrow> rd (cblocks st t) = 0" using pre by (simp add: cq_pre_def)
    ultimately have "cq_pre ?q ?st (ys @ [t])"
      using pre cnt un(2) d r1 unfolding cq_pre_def all by (auto split: if_splits)
    moreover have "\<forall>b\<in>set (ys @ [t]). rd (cblocks ?st b) < wr (cblocks ?st b)"
      using rep w1 r1 rw False d by (auto simp: charq_rep_def)
    ultimately have "charq_rep ?q ?st (ys @ [t]) (butlast cs)" using all by (simp add: charq_rep_def)
    then show ?thesis using un_eq False by auto
  next
    case True
    then have e: "cb_chars (unput_block (cblocks st t)) = []" by (simp add: cb_chars_def w1 r1)
    have wr0: "next_write_index (unput_block (cblocks st t)) - next_read_index (unput_block (cblocks st t)) = 0"
      using True w1 r1 by (metis add_diff_cancel_right' diff_self word_unat_eq_iff)
    have sz: "q_size q - 1 = of_nat (length ys)" using pre by (simp add: cq_pre_def)
    show ?thesis
    proof (cases ys rule: rev_cases)
      case Nil
      let ?q' = "?q\<lparr>q_head := None, q_tail := None, q_size := q_size q - 1\<rparr>"
      have hd: "q_head q = Some t" using pre Nil by (auto simp: cq_pre_def dlist_def)
      then have "delete_cblock_from_tail ?q ?st = Some (?q', ?st)"
        using tlq wr0 by (simp add: delete_cblock_from_tail_def)
      moreover have "charq_rep ?q' ?st ys (butlast cs)"
        using Nil bl e sz cnt by (simp add: charq_rep_def cq_pre_def)
      ultimately show ?thesis using un_eq True Nil by auto
    next
      case (snoc zs y)
      have dl: "dlist (cnx st) (cpv st) (q_head q) (zs @ [y, t])" using pre snoc by (simp add: cq_pre_def)
      have hn: "q_head q \<noteq> Some t" using dlist_head [OF dl] d snoc by (cases zs) auto
      let ?st' = "upd_cblock y (\<lambda>b. b\<lparr>cb_next := None\<rparr>) ?st"
      let ?q' = "?q\<lparr>q_tail := Some y, q_size := q_size q - 1\<rparr>"
      have yt: "y \<noteq> t" using d snoc by auto
      have pf: "cnx ?st' y = None" "\<And>z. z \<in> set zs \<Longrightarrow> cnx ?st' z = cnx st z"
        "\<And>z. z \<in> set (zs @ [y]) \<Longrightarrow> cpv ?st' z = cpv st z"
        using d snoc by (auto simp: unput_block_def)
      note dr = dlist_drop_last [OF dl, of "cnx ?st'" "cpv ?st'", OF pf, folded snoc]
      have "delete_cblock_from_tail ?q ?st = Some (?q', ?st')"
        using tlq hn dr(1) yt wr0 by (simp add: delete_cblock_from_tail_def unput_block_def)
      moreover have all: "all_chars ?st' ys = butlast cs" using bl e d by simp
      moreover have "cq_pre ?q' ?st' ys"
      proof -
        have o: "rd (cblocks ?st' b) = rd (cblocks st b)" "wr (cblocks ?st' b) = wr (cblocks st b)"
          "cblock_ok (cblocks ?st' b) = cblock_ok (cblocks st b)" if "b \<in> set ys" for b
          using that d by (auto simp: cblock_ok_def)
        have tly: "set (tl ys) \<subseteq> set (tl (ys @ [t]))" "set (butlast ys) \<subseteq> set ys" "set (tl ys) \<subseteq> set ys"
          using snoc by (cases zs; auto dest: in_set_butlastD in_set_tlD)+
        have bls: "butlast (ys @ [t]) = ys" by simp
        show ?thesis
          unfolding cq_pre_def all
        proof (intro conjI)
          show "dlist (cnx ?st') (cpv ?st') (q_head ?q') ys" using dr(2) by simp
          show "q_tail ?q' = (if ys = [] then None else Some (last ys))" using snoc by simp
          show "q_size ?q' = of_nat (length ys)" "current_cblock_size ?q' = of_nat (length (butlast cs))"
            using sz cnt by simp_all
          show "length ys \<le> 8" using pre by (simp add: cq_pre_def)
          show "\<forall>b\<in>set ys. cblock_ok (cblocks ?st' b)" using pre o(3) by (auto simp: cq_pre_def)
          show "\<forall>b\<in>set (tl ys). rd (cblocks ?st' b) = 0"
          proof
            fix b assume "b \<in> set (tl ys)"
            then have "b \<in> set ys" "rd (cblocks st b) = 0"
              using tly pre unfolding cq_pre_def by blast+
            then show "rd (cblocks ?st' b) = 0" by (simp only: o(1))
          qed
          show "\<forall>b\<in>set (butlast ys). wr (cblocks ?st' b) = 32"
          proof
            fix b assume "b \<in> set (butlast ys)"
            then have "b \<in> set ys" "wr (cblocks st b) = 32"
              using tly pre unfolding cq_pre_def bls by blast+
            then show "wr (cblocks ?st' b) = 32" by (simp only: o(2))
          qed
        qed
      qed
      moreover have "\<forall>a\<in>set ys. rd (cblocks ?st' a) < wr (cblocks ?st' a)"
        using rep d by (auto simp: charq_rep_def)
      ultimately show ?thesis using un_eq True snoc by (auto simp: charq_rep_def simp del: all_chars_simps)
    qed
  qed
qed


section \<open>Queues over an allocator\<close>

text \<open>Everything outside the blocks of the queue stays as it is.\<close>

definition others_same :: "u32 set \<Rightarrow> 'h cstore \<Rightarrow> 'h cstore \<Rightarrow> bool" where
  "others_same A st st' \<longleftrightarrow> (\<forall>b \<in> A. cblocks st' b = cblocks st b)"

lemma charq_unput_rep:
  assumes rep: "charq_rep q st xs cs"
  shows "\<exists>q' st' xs'. charq_unput_char q st = Some (RET_OK, q', st') \<and>
    charq_rep q' st' xs' (butlast cs) \<and> heap st' = heap st \<and> set xs' \<subseteq> set xs \<and>
    others_same (- set xs) st st'"
proof (cases xs rule: rev_cases)
  case Nil
  then have "q_tail q = None" "cs = []" using rep by (auto simp: charq_rep_def cq_pre_def)
  then show ?thesis using rep Nil by (auto simp: charq_unput_char_def others_same_def)
next
  case (snoc ys t)
  let ?xs = "if rd (cblocks st t) + 1 = wr (cblocks st t) then ys else ys @ [t]"
  obtain q' st' where "charq_unput_char q st = Some (RET_OK, q', st')" "heap st' = heap st"
    "charq_rep q' st' ?xs (butlast cs)" "\<forall>a. a \<notin> set (ys @ [t]) \<longrightarrow> cblocks st' a = cblocks st a"
    using charq_unput_ok [OF rep [unfolded snoc]] by blast
  then show ?thesis
    using snoc by (intro exI [of _ q'] exI [of _ st'] exI [of _ ?xs]) (auto simp: others_same_def)
qed

text \<open>A queue depends only on its own blocks.\<close>

lemma charq_rep_cong:
  assumes "\<And>b. b \<in> set xs \<Longrightarrow> cblocks st' b = cblocks st b"
  shows "charq_rep q st' xs cs = charq_rep q st xs cs"
proof -
  have "all_chars st' xs = all_chars st xs" by (rule all_chars_cong) (simp add: assms)
  moreover have "dlist (cnx st') (cpv st') (q_head q) xs = dlist (cnx st) (cpv st) (q_head q) xs"
    by (rule dlist_cong) (auto simp: assms)
  moreover have "set (tl xs) \<subseteq> set xs" "set (butlast xs) \<subseteq> set xs"
    by (auto dest: in_set_tlD in_set_butlastD)
  ultimately show ?thesis
    unfolding charq_rep_def cq_pre_def using assms by (smt (verit, best) subsetD)
qed

lemma charq_rep_size: "charq_rep q st xs cs \<Longrightarrow> q_size q > 0 \<longleftrightarrow> cs \<noteq> []"
proof -
  assume rep: "charq_rep q st xs cs"
  then have l: "q_size q = of_nat (length xs)" "length xs \<le> 8" by (auto simp: charq_rep_def cq_pre_def)
  have "cs = [] \<longleftrightarrow> xs = []"
  proof (cases xs)
    case (Cons b ys)
    then have "0 < length (cb_chars (cblocks st b))"
      using rep length_cb_chars [of "cblocks st b"] by (auto simp: charq_rep_def cq_pre_def)
    then show ?thesis using rep Cons by (auto simp: charq_rep_def)
  qed (use rep in \<open>simp add: charq_rep_def\<close>)
  moreover have "unat (q_size q) = length xs" using l by (simp add: u16_of_nat)
  ultimately show ?thesis by (simp add: word_less_nat_alt)
qed

context allocator
begin

lemma put_fifo:
  assumes rep: "charq_rep q st xs cs" and lv: "live (heap st) L" "set xs \<subseteq> L" and sv: "served sizeof_cblock"
    and r: "charq_put_char alloc c q st = Some (r, q', st')"
  shows "\<exists>xs' L'. charq_rep q' st' xs' (if r = RET_OK then cs @ [c] else cs) \<and>
    live (heap st') L' \<and> set xs' \<subseteq> L' \<and> L \<subseteq> L' \<and> set xs \<subseteq> set xs' \<and> L' - L \<subseteq> set xs' \<and>
    others_same (L - set xs) st st'"
proof (cases "xs \<noteq> [] \<and> wr (cblocks st (last xs)) \<noteq> 32")
  case True
  then obtain ys t where xs: "xs = ys @ [t]" by (cases xs rule: rev_cases) auto
  have pre: "cq_pre q st (ys @ [t])" and rw: "\<forall>b\<in>set ys. rd (cblocks st b) < wr (cblocks st b)"
    and cs: "cs = all_chars st (ys @ [t])"
    using rep xs by (auto simp: charq_rep_def)
  have "cblock_ok (cblocks st t)" using pre by (simp add: cq_pre_def)
  then have "wr (cblocks st t) < 32" using True xs by (auto simp: cblock_ok_def)
  note put = charq_put_room [OF pre this, where c = c]
  have "r = RET_OK" "heap st' = heap st" "charq_rep q' st' xs (cs @ [c])" "others_same (L - set xs) st st'"
    using r put(2) [OF rw] unfolding put(1) cs xs others_same_def by (auto split: if_splits)
  then show ?thesis using lv by auto
next
  case False
  then have full: "xs = [] \<or> wr (cblocks st (last xs)) = 32" by blast
  note none = charq_put_no_block [OF rep full, where c = c and alloc = alloc]
  have "length xs \<le> 8" using rep by (simp add: charq_rep_def cq_pre_def)
  then consider "length xs = 8" | "length xs < 8" "alloc sizeof_cblock (heap st) = None"
    | h where "length xs < 8" "alloc sizeof_cblock (heap st) = Some (0, h)"
    | a h where "length xs < 8" "alloc sizeof_cblock (heap st) = Some (a, h)" "a \<noteq> 0"
    by (cases "alloc sizeof_cblock (heap st)") (auto simp: le_less)
  then show ?thesis
  proof cases
    case 1
    then have "r = RET_FAIL" "q' = q" "st' = st" using none(1) r by auto
    then show ?thesis using rep lv by (auto simp: others_same_def)
  next
    case 2
    then show ?thesis using none(3) r by simp
  next
    case (3 h)
    then have "r = RET_FAIL" "q' = q" "st' = st\<lparr>heap := h\<rparr>" using none(2) r by auto
    moreover have "charq_rep q (st\<lparr>heap := h\<rparr>) xs cs" using rep by (simp add: charq_rep_def cq_pre_def)
    moreover have "live h L" using alloc_null [OF lv(1) sv 3(2)] .
    ultimately show ?thesis using lv by (auto simp: others_same_def)
  next
    case (4 a h)
    then have a: "a \<notin> L" "live h (insert a L)" using alloc_fresh [OF lv(1) sv] by auto
    then have "a \<notin> set xs" using lv by auto
    from charq_put_new [of q st xs cs alloc a h c, OF rep full 4 this] a r lv
    show ?thesis
      by (intro exI [of _ "xs @ [a]"] exI [of _ "insert a L"]) (auto simp: others_same_def)
  qed
qed

lemma get_fifo:
  assumes rep: "charq_rep q st xs cs" and lv: "live (heap st) L" "set xs \<subseteq> L"
  shows "\<exists>q' st' xs' L'. charq_get_char release q st = Some (case cs of [] \<Rightarrow> 0 | c # _ \<Rightarrow> c, q', st') \<and>
    charq_rep q' st' xs' (tl cs) \<and> live (heap st') L' \<and> set xs' \<subseteq> L' \<and> L - set xs \<subseteq> L' \<and> L' \<subseteq> L \<and>
    set xs' \<subseteq> set xs \<and> L' - set xs' \<subseteq> L - set xs \<and> others_same (L - set xs) st st' \<and>
    used (heap st') = used (heap st) - (set xs - set xs')"
proof (cases xs)
  case Nil
  then have "q_head q = None" "cs = []" using rep by (auto simp: charq_rep_def cq_pre_def)
  then have "charq_get_char release q st = Some (0, q, st)" by (simp add: charq_get_char_def)
  then show ?thesis
    using rep lv Nil \<open>cs = []\<close>
    by (intro exI [of _ q] exI [of _ st] exI [of _ "[]"] exI [of _ L]) (auto simp: others_same_def)
next
  case (Cons b ys)
  have ok: "cblock_ok (cblocks st b)" and rw: "rd (cblocks st b) < wr (cblocks st b)"
    using rep Cons by (auto simp: charq_rep_def cq_pre_def)
  have "cs = all_chars st (b # ys)" using rep Cons by (simp add: charq_rep_def)
  moreover have "length (cb_chars (cblocks st b)) > 0" using length_cb_chars [OF ok] rw by simp
  ultimately have "cs \<noteq> []" by auto
  then have hd: "(case cs of [] \<Rightarrow> 0 | c # _ \<Rightarrow> c) = hd cs" by (cases cs) auto
  have d: "b \<notin> set ys" using rep Cons by (auto simp: charq_rep_def dest: cq_pre_distinct)
  show ?thesis
  proof (cases "rd (cblocks st b) + 1 = wr (cblocks st b)")
    case True
    obtain h where h: "release b (heap st) = Some h" "live h (L - {b})" "used h = used (heap st) - {b}"
      using release_ok [OF lv(1), of b] lv(2) Cons by auto
    obtain q' st' where g: "charq_get_char release q st = Some (hd cs, q', st')" "charq_rep q' st' ys (tl cs)"
      "heap st' = h" "\<forall>a. a \<notin> set (b # ys) \<longrightarrow> cblocks st' a = cblocks st a"
      using charq_get_drop [where release = release, OF rep [unfolded Cons] True h(1)] by blast
    show ?thesis unfolding hd
      by (rule exI [of _ q'], rule exI [of _ st'], rule exI [of _ ys], rule exI [of _ "L - {b}"])
        (use g h lv d Cons in \<open>auto simp: others_same_def\<close>)
  next
    case False
    then have "rd (cblocks st b) + 1 < wr (cblocks st b)" using rw by linarith
    then obtain q' where g: "charq_get_char release q st = Some (hd cs, q', upd_cblock b get_block st)"
      "charq_rep q' (upd_cblock b get_block st) (b # ys) (tl cs)"
      using charq_get_keep [OF rep [unfolded Cons]] by blast
    show ?thesis unfolding hd
      by (rule exI [of _ q'], rule exI [of _ "upd_cblock b get_block st"], rule exI [of _ xs], rule exI [of _ L])
        (use g lv Cons in \<open>auto simp: others_same_def\<close>)
  qed
qed

text \<open>Taking a character back never touches the heap: an emptied block stays in use.\<close>

lemma unput_fifo:
  assumes rep: "charq_rep q st xs cs" and lv: "set xs \<subseteq> L"
  shows "\<exists>q' st' xs'. charq_unput_char q st = Some (RET_OK, q', st') \<and>
    charq_rep q' st' xs' (butlast cs) \<and> heap st' = heap st \<and> set xs' \<subseteq> set xs \<and>
    others_same (L - set xs) st st'"
  using charq_unput_rep [OF rep] by (auto simp: others_same_def)

lemma flush_empties:
  assumes "charq_rep q st xs cs" "live (heap st) L" "set xs \<subseteq> L"
  shows "\<exists>q' st'. charq_flush release q st = Some (q', st') \<and> charq_rep q' st' [] [] \<and>
    live (heap st') (L - set xs) \<and> others_same (L - set xs) st st' \<and>
    used (heap st') = used (heap st) - set xs"
  using assms
proof (induction xs arbitrary: q st cs L)
  case Nil
  then have "charq_flush release q st = Some (q, st)"
    by (subst charq_flush.simps) (simp add: charq_rep_def cq_pre_def)
  then show ?case using Nil by (auto simp: others_same_def charq_rep_def)
next
  case (Cons b ys)
  have pre: "cq_pre q st (b # ys)" and rw: "\<forall>a \<in> set ys. rd (cblocks st a) < wr (cblocks st a)"
    using Cons.prems by (auto simp: charq_rep_def)
  obtain h where h: "release b (heap st) = Some h" "live h (L - {b})" "used h = used (heap st) - {b}"
    using release_ok [OF Cons.prems(2), of b] Cons.prems(3) by auto
  obtain q1 st1 where one: "delete_cblock_from_head release q st = Some (q1, st1)"
    "charq_rep q1 st1 ys (all_chars st ys)" "heap st1 = h"
    "\<forall>a. a \<notin> set ys \<longrightarrow> cblocks st1 a = cblocks st a"
    using charq_delete_head [where release = release, OF pre h(1) rw] by blast
  have "b \<notin> set ys" using cq_pre_distinct [OF pre] by simp
  then have "set ys \<subseteq> L - {b}" using Cons.prems(3) by auto
  then obtain q' st' where rest: "charq_flush release q1 st1 = Some (q', st')" "charq_rep q' st' [] []"
    "live (heap st') (L - {b} - set ys)" "others_same (L - {b} - set ys) st1 st'"
    "used (heap st') = used (heap st1) - set ys"
    using Cons.IH [OF one(2), of "L - {b}"] h(2) one(3) by auto
  have "q_head q = Some b" using pre by (auto simp: cq_pre_def dlist_def)
  then have "charq_flush release q st = Some (q', st')"
    using one(1) rest(1) by (subst charq_flush.simps) simp
  moreover have "L - {b} - set ys = L - set (b # ys)" by auto
  moreover have "others_same (L - set (b # ys)) st st'"
    using rest(4) one(4) by (auto simp: others_same_def)
  moreover have "used (heap st') = used (heap st) - set (b # ys)" using rest(5) one(3) h(3) by auto
  ultimately show ?case using rest(2,3) by auto
qed

end


section \<open>The queues of the kernel\<close>

lemma small_size_cblock: "small_size sizeof_cblock"
  by (simp add: sizeof_cblock_def small_size_44)

text \<open>C13: over the kernel heap, \<open>charq_put_char\<close> appends the character to the queue when it
  answers \<open>RET_OK\<close> and leaves the contents alone when it answers \<open>RET_FAIL\<close>; the blocks it takes are new
  ones, the other blocks in use are not written.\<close>

theorem charq_put_char_appends:
  assumes slp: "\<And>s L. heap_live s L \<Longrightarrow> heap_live (slp s) L"
    and rep: "charq_rep q st xs cs" and lv: "heap_live (heap st) L" "set xs \<subseteq> L"
    and r: "charq_put_char (kmalloc slp) c q st = Some (r, q', st')"
  shows "\<exists>xs' L'. charq_rep q' st' xs' (if r = RET_OK then cs @ [c] else cs) \<and>
    heap_live (heap st') L' \<and> set xs' \<subseteq> L' \<and> L \<subseteq> L' \<and> set xs \<subseteq> set xs' \<and> L' - L \<subseteq> set xs' \<and>
    others_same (L - set xs) st st'"
  by (rule allocator.put_fifo [OF kmalloc_allocator [OF slp] rep lv small_size_cblock r])

definition empty_store :: "'h \<Rightarrow> 'h cstore" where
  "empty_store h = \<lparr>cblocks = (\<lambda>_. zero_cblock), heap = h\<rparr>"

lemma zero_charq_rep: "charq_rep zero_charq st [] []"
  by (simp add: charq_rep_def cq_pre_def zero_charq_def)

theorem charq_put_char_appends_witness:
  "\<exists>q' st' xs'. charq_put_char (kmalloc id) 65 zero_charq (empty_store boot_heap) = Some (RET_OK, q', st') \<and>
    charq_rep q' st' xs' [65]"
proof -
  obtain u where "kmalloc id 44 boot_heap = Some (0xC000100C, u)" using boot_kmalloc by blast
  then obtain q' st' where p: "charq_put_char (kmalloc id) 65 zero_charq (empty_store boot_heap) = Some (RET_OK, q', st')"
    using charq_put_new [where alloc = "kmalloc id" and st = "empty_store boot_heap" and a = "0xC000100C"
        and h = u and c = 65, OF zero_charq_rep]
    by (auto simp: sizeof_cblock_def empty_store_def)
  show ?thesis
    using charq_put_char_appends [OF _ zero_charq_rep _ _ p, of "{}"] p boot_heap_live
    by (auto simp: empty_store_def)
qed

text \<open>C14: \<open>charq_get_char\<close> always returns: it takes the first character off the queue and answers
  it, or 0 for an empty queue (its comment in \<open>charq.h\<close> says the last); of the blocks that are in use, exactly those that
  the queue gives up go back to the heap, and a queue keeps no emptied block; the other blocks in use are not written.\<close>

theorem charq_get_char_first:
  assumes rep: "charq_rep q st xs cs" and lv: "heap_live (heap st) L" "set xs \<subseteq> L"
  shows "\<exists>q' st' xs' L'. charq_get_char kfree q st = Some (case cs of [] \<Rightarrow> 0 | c # _ \<Rightarrow> c, q', st') \<and>
    charq_rep q' st' xs' (tl cs) \<and> heap_live (heap st') L' \<and> set xs' \<subseteq> L' \<and> L - set xs \<subseteq> L' \<and> L' \<subseteq> L \<and>
    set xs' \<subseteq> set xs \<and> L' - set xs' \<subseteq> L - set xs \<and> others_same (L - set xs) st st' \<and>
    heap_used (heap st') = heap_used (heap st) - (set xs - set xs') \<and>
    (\<forall>b \<in> set xs'. rd (cblocks st' b) < wr (cblocks st' b))"
proof -
  obtain q' st' xs' L' where g: "charq_get_char kfree q st = Some (case cs of [] \<Rightarrow> 0 | c # _ \<Rightarrow> c, q', st')"
    "charq_rep q' st' xs' (tl cs)" and r: "heap_live (heap st') L' \<and> set xs' \<subseteq> L' \<and> L - set xs \<subseteq> L' \<and> L' \<subseteq> L \<and>
    set xs' \<subseteq> set xs \<and> L' - set xs' \<subseteq> L - set xs \<and> others_same (L - set xs) st st' \<and>
    heap_used (heap st') = heap_used (heap st) - (set xs - set xs')"
    using heap.get_fifo [OF rep lv] by blast
  moreover have "\<forall>b \<in> set xs'. rd (cblocks st' b) < wr (cblocks st' b)" using g(2) by (simp add: charq_rep_def)
  ultimately show ?thesis by blast
qed

definition one_queue :: charq where
  "one_queue = \<lparr>current_cblock_size = 2, q_size = 1, q_head = Some 0xC000100C, q_tail = Some 0xC000100C\<rparr>"

definition one_store :: "'h \<Rightarrow> 'h cstore" where
  "one_store h = \<lparr>cblocks = (\<lambda>_. zero_cblock)(0xC000100C := \<lparr>next_read_index = 4, next_write_index = 6,
     cb_data = [1, 2, 3, 4, 65, 66] @ replicate 26 0, cb_prev = None, cb_next = None\<rparr>), heap = h\<rparr>"

lemma one_queue_rep: "charq_rep one_queue (one_store h) [0xC000100C] [65, 66]"
  by (simp add: charq_rep_def cq_pre_def one_queue_def one_store_def cb_chars_def cblock_ok_def dlist_def)

theorem charq_get_char_first_witness:
  "\<exists>(h :: buddy_state) q' st' xs'. heap_live h {0xC000100C} \<and>
    charq_get_char kfree one_queue (one_store h) = Some (65, q', st') \<and> charq_rep q' st' xs' [66]"
proof -
  obtain h :: buddy_state where h: "heap_live h {0xC000100C}" using boot_heap_one by blast
  then show ?thesis
    using charq_get_char_first [OF one_queue_rep, of h "{0xC000100C}"] by (auto simp: one_store_def)
qed

text \<open>\<open>charq_unput_char\<close> takes the last character off the queue and answers \<open>RET_OK\<close>, also on
  an empty queue. It never frees a block: when it empties the last one, that block leaves the queue but
  the heap still counts it as in use.\<close>

theorem charq_unput_char_last:
  assumes rep: "charq_rep q st xs cs" and lv: "heap_live (heap st) L" "set xs \<subseteq> L"
  shows "\<exists>q' st' xs'. charq_unput_char q st = Some (RET_OK, q', st') \<and>
    charq_rep q' st' xs' (butlast cs) \<and> heap st' = heap st \<and> set xs' \<subseteq> set xs \<and>
    others_same (L - set xs) st st'"
  by (rule heap.unput_fifo [OF rep lv(2)])

theorem charq_unput_char_last_witness:
  "\<exists>(h :: buddy_state) q' st' xs'. heap_live h {0xC000100C} \<and>
    charq_unput_char one_queue (one_store h) = Some (RET_OK, q', st') \<and> charq_rep q' st' xs' [65]"
proof -
  obtain h :: buddy_state where h: "heap_live h {0xC000100C}" using boot_heap_one by blast
  then show ?thesis
    using charq_unput_char_last [OF one_queue_rep, of h "{0xC000100C}"] by (auto simp: one_store_def)
qed

text \<open>\<open>charq_flush\<close> terminates, empties the queue and gives exactly the blocks of the queue back
  to the heap.\<close>

theorem charq_flush_empties:
  assumes "charq_rep q st xs cs" "heap_live (heap st) L" "set xs \<subseteq> L"
  shows "\<exists>q' st'. charq_flush kfree q st = Some (q', st') \<and> charq_rep q' st' [] [] \<and>
    heap_live (heap st') (L - set xs) \<and> others_same (L - set xs) st st' \<and>
    heap_used (heap st') = heap_used (heap st) - set xs"
  by (rule heap.flush_empties [OF assms])

theorem charq_flush_empties_witness:
  "\<exists>(h :: buddy_state) q' st'. charq_flush kfree one_queue (one_store h) = Some (q', st') \<and>
    charq_rep q' st' [] [] \<and> heap_live (heap st') {}"
proof -
  obtain h :: buddy_state where h: "heap_live h {0xC000100C}" using boot_heap_one by blast
  then show ?thesis
    using charq_flush_empties [OF one_queue_rep, of h "{0xC000100C}"] by (auto simp: one_store_def)
qed

text \<open>When a character can be put, and what \<open>charq_remaining\<close> says about it.\<close>

lemma charq_remaining_eq:
  assumes "charq_rep q st xs cs"
  shows "charq_remaining q = 256 - int (length cs)"
proof -
  have "length cs \<le> 32 * length xs" "length xs \<le> 8" "current_cblock_size q = of_nat (length cs)"
    using assms length_all_chars by (auto simp: charq_rep_def cq_pre_def)
  then show ?thesis
    by (simp add: charq_remaining_def CHARQ_SIZE_def CBLOCK_SIZE_def u16_of_nat)
qed

text \<open>\<open>charq_remaining\<close> is 256 less the number of characters held, which is an upper bound on
  what still fits: with all 8 blocks in use and the last one full, every put fails although
  \<open>charq_remaining\<close> counts the space in front of the first unread character as free.\<close>

theorem charq_remaining_bound:
  assumes rep: "charq_rep q st xs cs"
  shows "charq_remaining q = 256 - int (length cs) \<and> 0 \<le> charq_remaining q \<and>
    (length xs = 8 \<and> wr (cblocks st (last xs)) = 32 \<longrightarrow>
      charq_put_char alloc c q st = Some (RET_FAIL, q, st) \<and>
      charq_remaining q = int (rd (cblocks st (hd xs))))"
proof -
  have eq: "charq_remaining q = 256 - int (length cs)" by (rule charq_remaining_eq [OF rep])
  have le: "length cs \<le> 256"
    using length_all_chars [of xs st] rep by (auto simp: charq_rep_def cq_pre_def)
  have full: "length xs = 8 \<Longrightarrow> wr (cblocks st (last xs)) = 32 \<Longrightarrow>
      charq_put_char alloc c q st = Some (RET_FAIL, q, st)"
    using charq_put_no_block(1) [OF rep] by blast
  have "length cs = 256 - rd (cblocks st (hd xs))"
    if x: "length xs = 8" "wr (cblocks st (last xs)) = 32"
  proof -
    obtain b ys where xs: "xs = b # ys" "ys \<noteq> []" using x(1) by (cases xs; cases "tl xs") auto
    have w: "wr (cblocks st a) = 32" if "a \<in> set xs" for a
      using rep x(2) in_set_last [OF that] unfolding charq_rep_def cq_pre_def by blast
    have ok: "cblock_ok (cblocks st a)" if "a \<in> set xs" for a
      using rep that by (auto simp: charq_rep_def cq_pre_def)
    have r0: "rd (cblocks st a) = 0" if "a \<in> set ys" for a
      using rep that xs by (auto simp: charq_rep_def cq_pre_def)
    have len: "length (all_chars st zs) = 32 * length zs"
      if "\<forall>a \<in> set zs. length (cb_chars (cblocks st a)) = 32" for zs
      using that by (induction zs) auto
    have "\<forall>a \<in> set ys. length (cb_chars (cblocks st a)) = 32"
      using length_cb_chars ok w r0 xs by auto
    then have "length (all_chars st ys) = 224" using len x(1) xs by simp
    moreover have "length (cb_chars (cblocks st b)) = 32 - rd (cblocks st b)"
      using length_cb_chars ok w xs by simp
    moreover have "rd (cblocks st b) \<le> 32" using ok [of b] w [of b] xs by (auto simp: cblock_ok_def)
    ultimately show ?thesis using rep xs by (simp add: charq_rep_def)
  qed
  moreover have "xs \<noteq> [] \<Longrightarrow> rd (cblocks st (hd xs)) \<le> 256"
    using rep by (cases xs) (auto simp: charq_rep_def cq_pre_def cblock_ok_def)
  ultimately show ?thesis using eq le full by fastforce
qed


definition full_store :: "nat cstore" where
  "full_store = \<lparr>cblocks = (\<lambda>b. \<lparr>next_read_index = if b = 1 then 3 else 0, next_write_index = 32,
      cb_data = replicate 32 7, cb_prev = if b = 1 then None else Some (b - 1),
      cb_next = if b = 8 then None else Some (b + 1)\<rparr>), heap = 0\<rparr>"

definition full_queue :: charq where
  "full_queue = \<lparr>current_cblock_size = 253, q_size = 8, q_head = Some 1, q_tail = Some 8\<rparr>"

theorem charq_remaining_bound_witness:
  "charq_remaining full_queue = 3 \<and> charq_put_char (\<lambda>_ h. Some (100, h)) 65 full_queue full_store =
    Some (RET_FAIL, full_queue, full_store)"
proof -
  have rep: "charq_rep full_queue full_store [1, 2, 3, 4, 5, 6, 7, 8] (all_chars full_store [1, 2, 3, 4, 5, 6, 7, 8])"
    by (simp add: charq_rep_def cq_pre_def full_queue_def full_store_def cb_chars_def cblock_ok_def dlist_def)
  have "rd (cblocks full_store 1) = 3" "wr (cblocks full_store 8) = 32" by (simp_all add: full_store_def)
  then show ?thesis
    using charq_remaining_bound [OF rep, of "\<lambda>_ h. Some (100, h)" 65] by simp
qed

end
