(* ===== verification/Fifo.thy ===== *)
theory Fifo
  imports Charq
begin

text \<open>
  The contract between the character queues and their users, the keyboard at one end and the line discipline and the
  readers at the other: the locale \<open>byte_queue\<close> says what putting, getting and taking back do to the bytes that a
  queue holds, without its blocks or the heap. The queues of \<open>Charq\<close> over the kernel heap are shown to provide it.
\<close>

section \<open>Users of a queue\<close>

text \<open>A producer puts bytes one after another and goes on when one is refused, as \<open>kputs\<close> of the keyboard does; a
  consumer takes a number of bytes.\<close>

primrec enqueue_all :: "(u8 \<Rightarrow> 's \<Rightarrow> (retval_t \<times> 's) option) \<Rightarrow> u8 list \<Rightarrow> 's \<Rightarrow> (retval_t list \<times> 's) option" where
  "enqueue_all put [] s = Some ([], s)"
| "enqueue_all put (c # cs) s = do {
     (r, s) \<leftarrow> put c s;
     (rs, s) \<leftarrow> enqueue_all put cs s;
     Some (r # rs, s)
   }"

primrec dequeue_all :: "('s \<Rightarrow> (u8 \<times> 's) option) \<Rightarrow> nat \<Rightarrow> 's \<Rightarrow> (u8 list \<times> 's) option" where
  "dequeue_all get 0 s = Some ([], s)"
| "dequeue_all get (Suc n) s = do {
     (c, s) \<leftarrow> get s;
     (cs, s) \<leftarrow> dequeue_all get n s;
     Some (c # cs, s)
   }"

text \<open>The bytes that were not refused.\<close>

definition accepted :: "u8 list \<Rightarrow> retval_t list \<Rightarrow> u8 list" where
  "accepted cs rs = map fst (filter (\<lambda>(c, r). r = RET_OK) (zip cs rs))"

section \<open>The contract\<close>

locale byte_queue =
  fixes put :: "u8 \<Rightarrow> 's \<Rightarrow> (retval_t \<times> 's) option"
    and get :: "'s \<Rightarrow> (u8 \<times> 's) option"
    and unput :: "'s \<Rightarrow> (retval_t \<times> 's) option"
    and holds :: "'s \<Rightarrow> u8 list \<Rightarrow> bool"
  assumes put_holds: "holds s cs \<Longrightarrow> put c s = Some (r, s') \<Longrightarrow> holds s' (if r = RET_OK then cs @ [c] else cs)"
    and get_holds: "holds s cs \<Longrightarrow> \<exists>s'. get s = Some (case cs of [] \<Rightarrow> 0 | c # _ \<Rightarrow> c, s') \<and> holds s' (tl cs)"
    and unput_holds: "holds s cs \<Longrightarrow> \<exists>s'. unput s = Some (RET_OK, s') \<and> holds s' (butlast cs)"
begin

lemma enqueue_all_holds:
  "holds s cs \<Longrightarrow> enqueue_all put xs s = Some (rs, s') \<Longrightarrow> holds s' (cs @ accepted xs rs)"
proof (induction xs arbitrary: s cs rs)
  case Nil
  then show ?case by (simp add: accepted_def)
next
  case (Cons x xs)
  then obtain r s1 rs1 where 1: "put x s = Some (r, s1)" "enqueue_all put xs s1 = Some (rs1, s')" "rs = r # rs1"
    by (auto simp: Option.bind_eq_Some_conv)
  from Cons.IH [OF put_holds [OF Cons.prems(1) 1(1)] 1(2)] show ?case
    by (auto simp: 1(3) accepted_def split: if_splits)
qed

lemma dequeue_all_holds: "holds s (xs @ ys) \<Longrightarrow> \<exists>s'. dequeue_all get (length xs) s = Some (xs, s') \<and> holds s' ys"
proof (induction xs arbitrary: s)
  case (Cons x xs)
  obtain s1 where 1: "get s = Some (x, s1)" "holds s1 (xs @ ys)" using get_holds [OF Cons.prems] by auto
  then show ?case using Cons.IH [OF 1(2)] by auto
qed simp

text \<open>What comes out is what went in.\<close>

lemma fifo:
  assumes "holds s cs" "enqueue_all put xs s = Some (rs, s')"
  shows "\<exists>s''. dequeue_all get (length cs + length (accepted xs rs)) s' = Some (cs @ accepted xs rs, s'') \<and> holds s'' []"
  using dequeue_all_holds [of s' "cs @ accepted xs rs" "[]"] enqueue_all_holds [OF assms] by simp

lemma put_unput:
  assumes "holds s cs" "put c s = Some (RET_OK, s')"
  shows "\<exists>s''. unput s' = Some (RET_OK, s'') \<and> holds s'' cs"
  using unput_holds [OF put_holds [OF assms]] by simp

end

section \<open>The queues of the kernel\<close>

text \<open>A queue with the blocks and the heap that it shares with the others.\<close>

type_synonym kqueue = "charq \<times> buddy_state cstore"

fun kq_put :: "u8 \<Rightarrow> kqueue \<Rightarrow> (retval_t \<times> kqueue) option" where
  "kq_put c (q, st) = charq_put_char (kmalloc id) c q st"

fun kq_get :: "kqueue \<Rightarrow> (u8 \<times> kqueue) option" where
  "kq_get (q, st) = charq_get_char kfree q st"

fun kq_unput :: "kqueue \<Rightarrow> (retval_t \<times> kqueue) option" where
  "kq_unput (q, st) = charq_unput_char q st"

fun kq_holds :: "kqueue \<Rightarrow> u8 list \<Rightarrow> bool" where
  "kq_holds (q, st) cs \<longleftrightarrow> (\<exists>xs L. charq_rep q st xs cs \<and> heap_live (heap st) L \<and> set xs \<subseteq> L)"

interpretation kq: byte_queue kq_put kq_get kq_unput kq_holds
proof
  fix s s' :: kqueue and cs c r
  assume h: "kq_holds s cs" and p: "kq_put c s = Some (r, s')"
  obtain q st xs L where q: "s = (q, st)" "charq_rep q st xs cs" "heap_live (heap st) L" "set xs \<subseteq> L"
    using h by (cases s) auto
  obtain q' st' where p': "charq_put_char (kmalloc id) c q st = Some (r, q', st')" "s' = (q', st')"
    using p by (cases s') (simp add: q(1))
  from heap.put_fifo [OF q(2-4) small_size_cblock p'(1)] show "kq_holds s' (if r = RET_OK then cs @ [c] else cs)"
    unfolding p'(2) kq_holds.simps by blast
next
  fix s :: kqueue and cs
  assume "kq_holds s cs"
  then obtain q st xs L where q: "s = (q, st)" "charq_rep q st xs cs" "heap_live (heap st) L" "set xs \<subseteq> L"
    by (cases s) auto
  show "\<exists>s'. kq_get s = Some (case cs of [] \<Rightarrow> 0 | c # _ \<Rightarrow> c, s') \<and> kq_holds s' (tl cs)"
    using heap.get_fifo [OF q(2-4)] by (fastforce simp: q(1))
  show "\<exists>s'. kq_unput s = Some (RET_OK, s') \<and> kq_holds s' (butlast cs)"
    using heap.unput_fifo [OF q(2,4)] q(3,4) by (fastforce simp: q(1))
qed

text \<open>C15: bytes come out of a queue over the kernel heap in the order in which they went in, behind those that it held:
  after any number of puts, some of which the queue may refuse for lack of room, as many gets as there are accepted
  bytes answer exactly these, and leave the queue empty.\<close>

theorem charq_fifo:
  assumes "charq_rep q st xs cs" "heap_live (heap st) L" "set xs \<subseteq> L" "enqueue_all kq_put ys (q, st) = Some (rs, s')"
  shows "\<exists>s''. dequeue_all kq_get (length cs + length (accepted ys rs)) s' = Some (cs @ accepted ys rs, s'') \<and>
    kq_holds s'' []"
  by (rule kq.fifo [OF _ assms(4)]) (use assms in auto)

theorem charq_fifo_witness:
  "\<exists>(h :: buddy_state) s' s''. heap_live h {0xC000100C} \<and>
    enqueue_all kq_put [67, 68] (one_queue, one_store h) = Some ([RET_OK, RET_OK], s') \<and>
    dequeue_all kq_get 4 s' = Some ([65, 66, 67, 68], s'') \<and> kq_holds s'' []"
proof -
  obtain h :: buddy_state where h: "heap_live h {0xC000100C}" using boot_heap_one by blast
  have "\<exists>s'. enqueue_all kq_put [67, 68] (one_queue, one_store h) = Some ([RET_OK, RET_OK], s')"
  proof -
    have pre: "cq_pre one_queue (one_store h) ([] @ [0xC000100C])"
      using one_queue_rep [of h] by (simp add: charq_rep_def)
    have room: "wr (cblocks (one_store h) 0xC000100C) < 32" by (simp add: one_store_def)
    note one = charq_put_room(1) [OF pre room, of "kmalloc id" 67]
    have rep: "charq_rep (one_queue\<lparr>current_cblock_size := current_cblock_size one_queue + 1\<rparr>)
        (upd_cblock 0xC000100C (put_block 67) (one_store h)) [0xC000100C] (all_chars (one_store h) [0xC000100C] @ [67])"
      using charq_put_room(2) [OF pre room, of 67] by simp
    then have pre2: "cq_pre (one_queue\<lparr>current_cblock_size := current_cblock_size one_queue + 1\<rparr>)
        (upd_cblock 0xC000100C (put_block 67) (one_store h)) ([] @ [0xC000100C])" by (simp add: charq_rep_def)
    have room2: "wr (cblocks (upd_cblock 0xC000100C (put_block 67) (one_store h)) 0xC000100C) < 32"
      by (simp add: put_block_def one_store_def)
    show ?thesis using one charq_put_room(1) [OF pre2 room2, of "kmalloc id" 68] by simp
  qed
  then obtain s' where p: "enqueue_all kq_put [67, 68] (one_queue, one_store h) = Some ([RET_OK, RET_OK], s')" ..
  have ok: "accepted [67, 68] [RET_OK, RET_OK] = [67, 68]" by (simp add: accepted_def)
  have hs: "heap (one_store h) = h" by (simp add: one_store_def)
  have "\<exists>s''. dequeue_all kq_get (length [65 :: u8, 66] + length (accepted [67, 68] [RET_OK, RET_OK])) s' =
      Some ([65, 66] @ accepted [67, 68] [RET_OK, RET_OK], s'') \<and> kq_holds s'' []"
    by (rule charq_fifo [OF one_queue_rep _ _ p, of "{0xC000100C}"]) (simp_all add: hs h)
  moreover have "length [65 :: u8, 66] + length [67 :: u8, 68] = 4" by simp
  ultimately show ?thesis using h p unfolding ok by (metis append_Cons append_Nil)
qed

end
