(* ===== verification/Spinlock.thy ===== *)
theory Spinlock
  imports Prelude
begin

text \<open>
  The ticket spinlock, \<open>src/kernel/src/sync/spinlock.c\<close> with \<open>src/include/sync/spinlock.h\<close> and
  \<open>src/include/arch/atomic.h\<close>. The pair of tickets is one 32-bit word in memory, \<open>owner\<close> in its low
  half; \<open>lock; xaddl\<close> and \<open>lock; addw\<close> are the two atomic instructions that change it. Each CPU runs
  its own copy of the code; a step relation interleaves them at the atomic accesses.
\<close>

section \<open>The word and the instructions\<close>

record ticket_pair =
  owner :: u16
  next_ticket :: u16

definition pack :: "ticket_pair \<Rightarrow> u32" where
  "pack t = push_bit 16 (ucast (next_ticket t)) OR ucast (owner t)"

definition unpack :: "u32 \<Rightarrow> ticket_pair" where
  "unpack w = \<lparr>owner = ucast w, next_ticket = ucast (drop_bit 16 w)\<rparr>"

text \<open>\<open>xaddl\<close> adds 32-bit words and returns the old one; \<open>addw\<close> adds to the 16 bits of \<open>owner\<close> only.\<close>

definition atomic_xadd :: "u32 \<Rightarrow> u32 \<Rightarrow> u32 \<times> u32" where
  "atomic_xadd mem arg = (mem, mem + arg)"

definition atomic_add_owner :: "u32 \<Rightarrow> u16 \<Rightarrow> u32" where
  "atomic_add_owner mem inc = pack ((unpack mem)\<lparr>owner := owner (unpack mem) + inc\<rparr>)"

definition spinlock_init :: u32 where
  "spinlock_init = pack \<lparr>owner = 0, next_ticket = 0\<rparr>"

text \<open>The start of \<open>spinlock_lock\<close>: the ticket pair drawn, and the new word.\<close>

definition spinlock_draw :: "u32 \<Rightarrow> ticket_pair \<times> u32" where
  "spinlock_draw mem =
     (let (old, new) = atomic_xadd mem (pack \<lparr>owner = 0, next_ticket = 1\<rparr>) in (unpack old, new))"

definition spinlock_unlock :: "u32 \<Rightarrow> u32" where
  "spinlock_unlock mem = atomic_add_owner mem 1"

lemma pack_unpack [simp]: "pack (unpack w) = w"
  by (rule bit_word_eqI) (auto simp: pack_def unpack_def bit_simps)

lemma unpack_pack [simp]: "unpack (pack t) = t"
proof -
  have "owner (unpack (pack t)) = owner t" "next_ticket (unpack (pack t)) = next_ticket t"
    by (rule bit_word_eqI, auto simp: pack_def unpack_def bit_simps dest: bit_imp_le_length)+
  then show ?thesis by simp
qed

lemma unat_unpack:
  "unat (owner (unpack w)) = unat w mod 65536" "unat (next_ticket (unpack w)) = unat w div 65536"
proof -
  show "unat (owner (unpack w)) = unat w mod 65536"
    by (simp add: unpack_def unsigned_ucast_eq take_bit_eq_mod)
  have "unat w div 65536 < 65536" using unat_lt_u32 [of w] by simp
  moreover have "unat (drop_bit 16 w) = unat w div 65536"
    by (subst unat_drop_bit_eq) (simp only: drop_bit_eq_div, simp)
  ultimately show "unat (next_ticket (unpack w)) = unat w div 65536"
    unfolding unpack_def by (simp only: ticket_pair.select_convs unsigned_ucast_eq take_bit_eq_mod) simp
qed

lemma add_high_half:
  fixes n :: nat
  assumes "n < 4294967296"
  shows "(n + 65536) mod 4294967296 div 65536 = (n div 65536 + 1) mod 65536"
    "(n + 65536) mod 4294967296 mod 65536 = n mod 65536"
proof -
  have c: "n + 65536 < 4294967296 \<or> n div 65536 = 65535" using assms by linarith
  show "(n + 65536) mod 4294967296 div 65536 = (n div 65536 + 1) mod 65536"
    using c
  proof
    assume "n + 65536 < 4294967296"
    moreover have "n div 65536 + 1 < 65536" using calculation by linarith
    ultimately show ?thesis by simp
  next
    assume q: "n div 65536 = 65535"
    then have "4294901760 \<le> n" by linarith
    then have "(n + 65536) mod 4294967296 = n - 4294901760" using assms by (simp add: le_mod_geq)
    moreover have "(n - 4294901760) div 65536 = 0" using assms by simp
    ultimately show ?thesis using q by simp
  qed
  have "(n + 65536) mod 4294967296 mod 65536 = (n + 65536) mod 65536"
    by (rule mod_mod_cancel) simp
  then show "(n + 65536) mod 4294967296 mod 65536 = n mod 65536" by simp
qed

lemma draw_pack: "spinlock_draw mem =
  (unpack mem, pack \<lparr>owner = owner (unpack mem), next_ticket = next_ticket (unpack mem) + 1\<rparr>)"
proof -
  let ?w = "pack \<lparr>owner = 0, next_ticket = 1\<rparr>"
  have w: "?w = 65536" by (simp add: pack_def)
  have u: "unat (mem + 65536) = (unat mem + 65536) mod 4294967296" by (simp add: unat_word_ariths)
  note h = add_high_half [OF unat_lt_u32 [of mem]]
  have "unat (owner (unpack (mem + 65536))) = unat (owner (unpack mem))"
    "unat (next_ticket (unpack (mem + 65536))) = unat (next_ticket (unpack mem) + 1)"
    by (simp_all only: unat_unpack u h) (simp add: unat_word_ariths unat_unpack)
  then have "unpack (mem + 65536) = \<lparr>owner = owner (unpack mem), next_ticket = next_ticket (unpack mem) + 1\<rparr>"
    by (simp add: word_unat_eq_iff)
  then have "mem + 65536 = pack \<lparr>owner = owner (unpack mem), next_ticket = next_ticket (unpack mem) + 1\<rparr>"
    by (metis pack_unpack)
  then show ?thesis by (simp add: spinlock_draw_def atomic_xadd_def w)
qed

lemma unlock_pack: "spinlock_unlock mem =
  pack \<lparr>owner = owner (unpack mem) + 1, next_ticket = next_ticket (unpack mem)\<rparr>"
  by (cases "unpack mem") (simp add: spinlock_unlock_def atomic_add_owner_def)

text \<open>the 32-bit \<open>xadd\<close> of \<open>spinlock_lock\<close> draws the next ticket and increments just the
  \<open>next\<close> half, modulo \<open>2 ^ 16\<close>, without a carry into \<open>owner\<close>; \<open>spinlock_unlock\<close> increments just
  \<open>owner\<close>, modulo \<open>2 ^ 16\<close>.\<close>

theorem ticket_arithmetic:
  "spinlock_draw mem =
      (unpack mem, pack \<lparr>owner = owner (unpack mem), next_ticket = next_ticket (unpack mem) + 1\<rparr>) \<and>
    spinlock_unlock mem = pack \<lparr>owner = owner (unpack mem) + 1, next_ticket = next_ticket (unpack mem)\<rparr>"
  using draw_pack unlock_pack by blast

section \<open>Interleaving the CPUs\<close>

text \<open>A CPU is outside, waits in the loop with its ticket, or has passed the lock. The state is the
  lock word and the point each CPU has reached.\<close>

datatype cpu = Out | Waiting u16 | In

record spin_state =
  lock_word :: u32
  cpus :: "nat \<Rightarrow> cpu"

text \<open>\<open>Draw\<close>: the exchange at the start of \<open>spinlock_lock\<close> and the test after it. \<open>Poll\<close>: one turn
  of the waiting loop that ends it (turns that go on change nothing). \<open>Unlock\<close>: the atomic addition of
  \<open>spinlock_unlock\<close>.\<close>

inductive spin_step :: "nat \<Rightarrow> nat \<Rightarrow> spin_state \<Rightarrow> spin_state \<Rightarrow> bool" for n :: nat where
  Draw: "c < n \<Longrightarrow> cpus s c = Out \<Longrightarrow> spinlock_draw (lock_word s) = (t, w) \<Longrightarrow>
    spin_step n c s (s\<lparr>lock_word := w,
      cpus := (cpus s)(c := if owner t = next_ticket t then In else Waiting (next_ticket t))\<rparr>)"
| Poll: "c < n \<Longrightarrow> cpus s c = Waiting t \<Longrightarrow> owner (unpack (lock_word s)) = t \<Longrightarrow>
    spin_step n c s (s\<lparr>cpus := (cpus s)(c := In)\<rparr>)"
| Unlock: "c < n \<Longrightarrow> cpus s c = In \<Longrightarrow>
    spin_step n c s (s\<lparr>lock_word := spinlock_unlock (lock_word s), cpus := (cpus s)(c := Out)\<rparr>)"

definition spin_start :: spin_state where
  "spin_start = \<lparr>lock_word = spinlock_init, cpus = (\<lambda>_. Out)\<rparr>"

text \<open>A run: the CPUs that moved, the latest first.\<close>

inductive spin_run :: "nat \<Rightarrow> nat list \<Rightarrow> spin_state \<Rightarrow> bool" for n :: nat where
  Start: "spin_run n [] spin_start"
| Move: "spin_run n cs s \<Longrightarrow> spin_step n c s t \<Longrightarrow> spin_run n (c # cs) t"

text \<open>The CPUs at the lock, in the order they drew their tickets: the first may be in, the others wait,
  and the tickets count up from \<open>owner\<close>.\<close>

definition spin_inv :: "nat \<Rightarrow> spin_state \<Rightarrow> nat list \<Rightarrow> bool" where
  "spin_inv n s q \<longleftrightarrow> distinct q \<and> set q = {c. cpus s c \<noteq> Out} \<and> set q \<subseteq> {..<n} \<and>
     next_ticket (unpack (lock_word s)) = owner (unpack (lock_word s)) + of_nat (length q) \<and>
     (\<forall>i < length q. cpus s (q ! i) = Waiting (owner (unpack (lock_word s)) + of_nat i) \<or>
        i = 0 \<and> cpus s (q ! i) = In)"

lemma spin_inv_start: "spin_inv n spin_start []"
  by (simp add: spin_inv_def spin_start_def spinlock_init_def)

lemma spin_inv_length: "spin_inv n s q \<Longrightarrow> length q \<le> n"
proof -
  assume "spin_inv n s q"
  then have "distinct q" "set q \<subseteq> {..<n}" by (auto simp: spin_inv_def)
  then show ?thesis using card_mono [of "{..<n}" "set q"] by (simp add: distinct_card)
qed

lemma u16_of_nat_0: "i < 65536 \<Longrightarrow> (of_nat i :: u16) = 0 \<longleftrightarrow> i = 0"
  by (simp add: word_unat_eq_iff unat_of_nat take_bit_nat_eq_self)

text \<open>A CPU that draws goes to the end; only the first can get in, and only the first leaves.\<close>

lemma spin_inv_step:
  assumes inv: "spin_inv n s q" and st: "spin_step n c s t" and n: "n < 65536"
  shows "c \<notin> set q \<and> spin_inv n t (q @ [c]) \<and> (cpus t c = In \<longleftrightarrow> q = []) \<or>
    q \<noteq> [] \<and> c = hd q \<and> (spin_inv n t q \<and> cpus t c = In \<or> spin_inv n t (tl q) \<and> cpus t c = Out)"
  using st
proof cases
  case (Draw tk w)
  let ?o = "owner (unpack (lock_word s))"
  have c: "c \<notin> set q" "distinct q" "set q \<subseteq> {..<n}" "c < n" using inv Draw by (auto simp: spin_inv_def)
  then have "card (set (q @ [c])) \<le> card {..<n}" by (intro card_mono) auto
  then have len: "length q < 65535" using c n by (simp add: distinct_card)
  have tk: "tk = unpack (lock_word s)"
    and w: "unpack w = \<lparr>owner = ?o, next_ticket = next_ticket (unpack (lock_word s)) + 1\<rparr>"
    using Draw by (auto simp: draw_pack)
  have nt: "next_ticket (unpack (lock_word s)) = ?o + of_nat (length q)" using inv by (simp add: spin_inv_def)
  have first: "owner tk = next_ticket tk \<longleftrightarrow> q = []"
    using u16_of_nat_0 [of "length q"] len by (simp add: tk nt)
  have "spin_inv n t (q @ [c])"
    using inv c nt first unfolding spin_inv_def Draw(1)
    by (auto simp: w tk nth_append less_Suc_eq add.commute)
  then show ?thesis using c(1) first Draw(1) by simp
next
  case (Poll tk)
  let ?o = "owner (unpack (lock_word s))"
  have "c \<in> set q" using inv Poll by (auto simp: spin_inv_def)
  then obtain i where i: "i < length q" "q ! i = c" by (auto simp: in_set_conv_nth)
  then have "tk = ?o + of_nat i" using inv Poll by (auto simp: spin_inv_def)
  moreover have "i < 65536" using i spin_inv_length [OF inv] n by linarith
  ultimately have i0: "i = 0" using u16_of_nat_0 Poll by simp
  have "spin_inv n t q"
    using inv i i0 Poll unfolding spin_inv_def by (auto simp: nth_eq_iff_index_eq)
  then show ?thesis using i i0 Poll(1) by (cases q) auto
next
  case Unlock
  let ?o = "owner (unpack (lock_word s))"
  have "c \<in> set q" using inv Unlock by (auto simp: spin_inv_def)
  then obtain i where i: "i < length q" "q ! i = c" by (auto simp: in_set_conv_nth)
  then have "i = 0" using inv Unlock by (auto simp: spin_inv_def)
  then obtain q' where q: "q = c # q'" using i by (cases q) auto
  have w: "unpack (spinlock_unlock (lock_word s)) =
      \<lparr>owner = ?o + 1, next_ticket = next_ticket (unpack (lock_word s))\<rparr>" by (simp add: unlock_pack)
  have tl: "cpus s (q' ! j) = Waiting (?o + of_nat (Suc j))" if "j < length q'" for j
    using inv that unfolding spin_inv_def q by (auto dest: spec [of _ "Suc j"])
  have "spin_inv n t q'"
    using inv q tl unfolding spin_inv_def Unlock(1) by (auto simp: w add.assoc nth_mem)
  then show ?thesis using q Unlock(1) by simp
qed


section \<open>Mutual exclusion and fairness\<close>

lemma spin_run_inv: "spin_run n cs s \<Longrightarrow> n < 65536 \<Longrightarrow> \<exists>q. spin_inv n s q"
proof (induction rule: spin_run.induct)
  case Start
  then show ?case using spin_inv_start by blast
next
  case (Move cs s c t)
  then show ?case using spin_inv_step by blast
qed

text \<open>C18: with fewer than \<open>2 ^ 16\<close> CPUs, in every state that any interleaving reaches at most one
  CPU is past the lock.\<close>

theorem spinlock_mutual_exclusion:
  assumes "spin_run n cs s" "n < 65536" "cpus s a = In" "cpus s b = In"
  shows "a = b"
proof -
  obtain q where q: "spin_inv n s q" using spin_run_inv assms by blast
  have "\<exists>i < length q. q ! i = c \<and> i = 0" if "cpus s c = In" for c
  proof -
    have "c \<in> set q" using q that by (auto simp: spin_inv_def)
    then obtain i where "i < length q" "q ! i = c" by (auto simp: in_set_conv_nth)
    then show ?thesis using q that by (auto simp: spin_inv_def)
  qed
  then show ?thesis using assms(3,4) by blast
qed

text \<open>C21: the lock is fair. As long as the waiting CPUs are served, at each moment there is one order
  of the CPUs at the lock such that: a step of a CPU that is not in it puts that CPU at its end; any other
  step is of its first CPU, which gets in or leaves; and when the order is not empty its first CPU always
  can take such a step.\<close>

theorem spinlock_fifo:
  assumes run: "spin_run n cs s" and n: "n < 65536"
  shows "\<exists>q. spin_inv n s q \<and>
    (\<forall>c t. spin_step n c s t \<longrightarrow>
      (if c \<in> set q then c = hd q \<and> (spin_inv n t q \<and> cpus t c = In \<or> spin_inv n t (tl q) \<and> cpus t c = Out)
       else spin_inv n t (q @ [c]))) \<and>
    (q \<noteq> [] \<longrightarrow> (\<exists>t. spin_step n (hd q) s t))"
proof -
  obtain q where q: "spin_inv n s q" using spin_run_inv run n by blast
  have "if c \<in> set q then c = hd q \<and> (spin_inv n t q \<and> cpus t c = In \<or> spin_inv n t (tl q) \<and> cpus t c = Out)
       else spin_inv n t (q @ [c])" if "spin_step n c s t" for c t
    using spin_inv_step [OF q that n] by auto
  moreover have "\<exists>t. spin_step n (hd q) s t" if "q \<noteq> []"
  proof -
    have c: "hd q < n" "cpus s (hd q) = Waiting (owner (unpack (lock_word s))) \<or> cpus s (hd q) = In"
      using q that by (cases q; auto simp: spin_inv_def)+
    then show ?thesis using Poll [OF c(1)] Unlock [OF c(1)] by blast
  qed
  ultimately show ?thesis using q by blast
qed

definition two_cpus :: spin_state where
  "two_cpus = \<lparr>lock_word = 0x00020000, cpus = (\<lambda>_. Out)(0 := In, 1 := Waiting 1)\<rparr>"

lemma two_cpus_run: "spin_run 2 [1, 0] two_cpus"
proof -
  let ?s1 = "\<lparr>lock_word = 0x00010000, cpus = (\<lambda>_. Out)(0 := In)\<rparr>"
  have d: "spinlock_draw 0 = (\<lparr>owner = 0, next_ticket = 0\<rparr>, 0x00010000)"
    "spinlock_draw 0x00010000 = (\<lparr>owner = 0, next_ticket = 1\<rparr>, 0x00020000)"
    by (simp_all add: spinlock_draw_def atomic_xadd_def pack_def unpack_def)
  have "spin_step 2 0 spin_start ?s1"
    using Draw [of 0 2 spin_start] d by (simp add: spin_start_def spinlock_init_def pack_def)
  then have "spin_run 2 [0] ?s1" using Start Move by blast
  moreover have "spin_step 2 1 ?s1 two_cpus"
    using Draw [of 1 2 ?s1] d by (simp add: two_cpus_def)
  ultimately show ?thesis by (rule Move)
qed

theorem spinlock_mutual_exclusion_witness: "{b. cpus two_cpus b = In} = {0}"
proof -
  have "cpus two_cpus 0 = In" by (simp add: two_cpus_def)
  then show ?thesis using spinlock_mutual_exclusion [OF two_cpus_run] by auto
qed

theorem spinlock_fifo_witness:
  "\<exists>q. spin_inv 2 two_cpus q \<and> q \<noteq> [] \<and> (\<exists>t. spin_step 2 (hd q) two_cpus t)"
proof -
  obtain q where q: "spin_inv 2 two_cpus q" "q \<noteq> [] \<longrightarrow> (\<exists>t. spin_step 2 (hd q) two_cpus t)"
    using spinlock_fifo [OF two_cpus_run] by auto
  moreover have "0 \<in> set q" using q(1) by (simp add: spin_inv_def two_cpus_def)
  ultimately show ?thesis by (intro exI [of _ q]) auto
qed

end
