(* ===== verification/Lock.thy ===== *)
theory Lock
  imports Prelude
begin

text \<open>
  Locks for processes: the area locks of \<open>src/kernel/src/proc/lock.c\<close> (\<open>lock_area\<close>,
  \<open>unlock_area\<close>), the same code for the word of \<open>src/include/sync/simplelock.h\<close>, and the parts of
  \<open>lock_resource\<close> and \<open>unlock_resource\<close> that run with interrupts off. Such a part is atomic on the one CPU. The
  operations of a single call, with the sleep table, are in \<open>Sleep\<close>, the interleavings of many in \<open>Resource\<close>.
\<close>

section \<open>Area locks\<close>

definition AREA_BH :: u32 where "AREA_BH = 1"
definition AREA_CALLOUT :: u32 where "AREA_CALLOUT = 2"
definition AREA_TTY_READ :: u32 where "AREA_TTY_READ = 4"
definition AREA_SERIAL_READ :: u32 where "AREA_SERIAL_READ = 8"

text \<open>The operations on the lock word \<open>area\<close>: the value returned and the new word. The code returns
  \<open>area & type\<close> as a \<open>retval_t\<close>, whatever the bit; 0 means that the area was free.\<close>

definition lock_area :: "u32 \<Rightarrow> u32 \<Rightarrow> u32 \<times> u32" where
  "lock_area type area = (area AND type, area OR type)"

definition unlock_area :: "u32 \<Rightarrow> u32 \<Rightarrow> u32 \<times> u32" where
  "unlock_area type area = (area AND type, area AND NOT type)"

definition simplelock_lock :: "u32 \<Rightarrow> u32 \<Rightarrow> u32 \<times> u32" where
  "simplelock_lock type lock = (lock AND type, lock OR type)"

definition simplelock_unlock :: "u32 \<Rightarrow> u32 \<Rightarrow> u32 \<times> u32" where
  "simplelock_unlock type lock = (lock AND type, lock AND NOT type)"

text \<open>The contract: each bit of the word is a lock of its own. \<open>held\<close> says which bits are taken.\<close>

locale bit_lock =
  fixes lock unlock :: "u32 \<Rightarrow> 'w \<Rightarrow> u32 \<times> 'w" and held :: "'w \<Rightarrow> nat \<Rightarrow> bool"
  assumes lock_held: "held (snd (lock t w)) i \<longleftrightarrow> held w i \<or> bit t i"
    and lock_ret: "bit (fst (lock t w)) i \<longleftrightarrow> held w i \<and> bit t i"
    and unlock_held: "held (snd (unlock t w)) i \<longleftrightarrow> held w i \<and> \<not> bit t i"
    and unlock_ret: "bit (fst (unlock t w)) i \<longleftrightarrow> held w i \<and> bit t i"
begin

lemma lock_free: "fst (lock t w) = 0 \<longleftrightarrow> (\<forall>i. bit t i \<longrightarrow> \<not> held w i)"
  by (auto simp: word_eq_0_bits lock_ret)

lemma unlock_free: "fst (unlock t w) = 0 \<longleftrightarrow> (\<forall>i. bit t i \<longrightarrow> \<not> held w i)"
  by (auto simp: word_eq_0_bits unlock_ret)

lemma lock_twice: "t \<noteq> 0 \<Longrightarrow> fst (lock t (snd (lock t w))) \<noteq> 0"
  by (auto simp: lock_ret lock_held word_eq_0_bits)

lemma unlock_lock: "fst (lock t (snd (unlock t w))) = 0"
  by (auto simp: lock_free unlock_held)

lemma other_areas:
  assumes "t AND u = 0"
  shows "fst (lock u (snd (lock t w))) = fst (lock u w)" "fst (lock u (snd (unlock t w))) = fst (lock u w)"
proof -
  have "\<not> bit t i" if "bit u i" for i using assms that by (auto simp: word_and_0_bits)
  then show "fst (lock u (snd (lock t w))) = fst (lock u w)" "fst (lock u (snd (unlock t w))) = fst (lock u w)"
    by (auto simp: bit_eq_iff lock_ret lock_held unlock_held)
qed

end

interpretation area: bit_lock lock_area unlock_area "\<lambda>w. bit w"
  by unfold_locales (auto simp: lock_area_def unlock_area_def bit_simps dest: bit_imp_le_length)

interpretation simple: bit_lock simplelock_lock simplelock_unlock "\<lambda>w. bit w"
  by unfold_locales (auto simp: simplelock_lock_def simplelock_unlock_def bit_simps dest: bit_imp_le_length)

subsection \<open>Mutual exclusion\<close>

text \<open>Contexts that take an area for themselves: \<open>Try\<close> is a call of \<open>lock_area\<close> whose caller goes on
  into its section when the answer is 0 and backs off otherwise; a caller in its section leaves with
  \<open>unlock_area\<close>. \<open>inside c = Some t\<close>: context \<open>c\<close> is in the section of area \<open>t\<close>.\<close>

record area_state =
  area :: u32
  inside :: "nat \<Rightarrow> u32 option"

inductive area_run :: "area_state \<Rightarrow> bool" where
  Init: "area_run \<lparr>area = 0, inside = (\<lambda>_. None)\<rparr>"
| Try: "area_run s \<Longrightarrow> inside s c = None \<Longrightarrow> lock_area t (area s) = (r, w) \<Longrightarrow>
    area_run \<lparr>area = w, inside = (if r = 0 then (inside s)(c := Some t) else inside s)\<rparr>"
| Leave: "area_run s \<Longrightarrow> inside s c = Some t \<Longrightarrow> unlock_area t (area s) = (r, w) \<Longrightarrow>
    area_run \<lparr>area = w, inside = (inside s)(c := None)\<rparr>"

definition area_inv :: "area_state \<Rightarrow> bool" where
  "area_inv s \<longleftrightarrow>
     (\<forall>c t i. inside s c = Some t \<longrightarrow> bit t i \<longrightarrow> bit (area s) i) \<and>
     (\<forall>c d t u. inside s c = Some t \<longrightarrow> inside s d = Some u \<longrightarrow> c \<noteq> d \<longrightarrow> t AND u = 0)"

lemma area_run_inv: "area_run s \<Longrightarrow> area_inv s"
proof (induction rule: area_run.induct)
  case Init
  then show ?case by (simp add: area_inv_def)
next
  case (Try s c t r w)
  have r: "r = fst (lock_area t (area s))" "w = snd (lock_area t (area s))" using Try.hyps(3) by auto
  show ?case
  proof (cases "r = 0")
    case False
    then show ?thesis using Try.IH area.lock_held [of t "area s"] by (auto simp: area_inv_def r(2))
  next
    case True
    then have free: "\<forall>i. bit t i \<longrightarrow> \<not> bit (area s) i" using area.lock_free [of t "area s"] r(1) by simp
    have "t AND u = 0" if "inside s d = Some u" for d u
      using Try.IH that free unfolding area_inv_def word_and_0_bits by blast
    then show ?thesis using Try.IH True area.lock_held [of t "area s"]
      by (auto simp: area_inv_def r(2) and.commute)
  qed
next
  case (Leave s c t r w)
  have w: "w = snd (unlock_area t (area s))" using Leave.hyps(3) by auto
  have "\<not> bit t i" if "inside s d = Some u" "d \<noteq> c" "bit u i" for d u i
  proof -
    have "u AND t = 0" using Leave.IH Leave.hyps(2) that by (auto simp: area_inv_def)
    then show ?thesis using that(3) by (auto simp: word_and_0_bits)
  qed
  then show ?case using Leave.IH area.unlock_held [of t "area s"] by (auto simp: area_inv_def w)
qed

text \<open>C35: in every interleaving of callers that enter a section only when \<open>lock_area\<close> answered 0,
  two different callers are never inside sections whose areas share a bit.\<close>

theorem lock_area_exclusive:
  assumes "area_run s" "inside s c = Some t" "inside s d = Some u" "c \<noteq> d"
  shows "t AND u = 0"
  using area_run_inv [OF assms(1)] assms(2-4) unfolding area_inv_def by blast

theorem lock_area_exclusive_witness:
  "\<exists>s. area_run s \<and> inside s 0 = Some AREA_BH \<and> inside s 1 = Some AREA_CALLOUT \<and>
    AREA_BH AND AREA_CALLOUT = 0"
proof -
  have "area_run \<lparr>area = 1, inside = (\<lambda>_. None)(0 := Some 1)\<rparr>"
    using Try [OF Init, of 0 1] by (simp add: lock_area_def)
  then have r: "area_run \<lparr>area = 3, inside = (\<lambda>_. None)(0 := Some 1, 1 := Some 2)\<rparr>"
    using Try [of _ 1 2 0 3] by (fastforce simp: lock_area_def)
  show ?thesis
    using lock_area_exclusive [OF r, of 0 AREA_BH 1 AREA_CALLOUT] r
    by (auto simp: AREA_BH_def AREA_CALLOUT_def)
qed

section \<open>The resource lock\<close>

record resource =
  locked :: bool
  wanted :: bool

text \<open>The parts of the code that run with interrupts off. \<open>lock_turn\<close> is one turn of the loop of
  \<open>lock_resource\<close> up to the sleep: the new resource, and whether the lock was taken. \<open>unlock_turn\<close> is
  \<open>unlock_resource\<close>, with the answer whether it calls \<open>wakeup\<close>.\<close>

definition lock_turn :: "resource \<Rightarrow> resource \<times> bool" where
  "lock_turn r = (if locked r then (r\<lparr>wanted := True\<rparr>, False) else (r\<lparr>locked := True\<rparr>, True))"

definition unlock_turn :: "resource \<Rightarrow> resource \<times> bool" where
  "unlock_turn r = (let r = r\<lparr>locked := False\<rparr> in if wanted r then (r\<lparr>wanted := False\<rparr>, True) else (r, False))"

end
