(* ===== verification/Descr.thy ===== *)
theory Descr
  imports Prelude
begin

text \<open>
  The descriptor tables: \<open>src/kernel/src/mem/gdt.c\<close>, \<open>src/kernel/src/interrupt/idt.c\<close> and the bit-field
  structures of \<open>src/include/mem/segments.h\<close>. A table is a function of the index; the addresses of the
  handlers, which are assembler symbols, are parameters. Loading the tables into the CPU is not modelled.
\<close>

section \<open>Segment descriptors\<close>

record seg_desc =
  low_limit :: u16
  low_base :: "24 word"
  low_flags :: u8
  hi_limit :: "4 word"
  hi_flags :: "4 word"
  hi_base :: u8

definition FOUR_GB :: u32 where "FOUR_GB = 0xFFFFFFFF"
definition KERNEL_CS :: nat where "KERNEL_CS = 0x08"
definition KERNEL_DS :: nat where "KERNEL_DS = 0x10"
definition USER_CS :: nat where "USER_CS = 0x18"
definition USER_DS :: nat where "USER_DS = 0x20"
definition TSS :: nat where "TSS = 0x28"
definition SD_CODE :: u8 where "SD_CODE = 0x0A"
definition SD_DATA :: u8 where "SD_DATA = 0x02"
definition SD_CD :: u8 where "SD_CD = 0x10"
definition SD_DPL0 :: u8 where "SD_DPL0 = 0x00"
definition SD_DPL3 :: u8 where "SD_DPL3 = 0x60"
definition SD_PRESENT :: u8 where "SD_PRESENT = 0x80"
definition SD_OPSIZE32 :: u8 where "SD_OPSIZE32 = 0x04"
definition SD_PAGE4KB :: u8 where "SD_PAGE4KB = 0x08"
definition SD_TSS_PRESENT :: u8 where "SD_TSS_PRESENT = 0x89"
definition NUM_GDT_ENTRIES :: nat where "NUM_GDT_ENTRIES = 6"
definition sizeof_seg_desc :: nat where "sizeof_seg_desc = 8"

text \<open>25 words of 32 bits, two of 16, and the I/O bitmap of 8193 bytes, padded to a multiple of 4.\<close>

definition sizeof_i386tss :: u32 where "sizeof_i386tss = 8300"

text \<open>Writing an entry; writing beyond the table is undefined.\<close>

definition gdt_set_entry ::
    "nat \<Rightarrow> u32 \<Rightarrow> u32 \<Rightarrow> u8 \<Rightarrow> u8 \<Rightarrow> (nat \<Rightarrow> seg_desc) \<Rightarrow> (nat \<Rightarrow> seg_desc) option" where
  "gdt_set_entry num base_addr limit lflags hflags gdt = do {
     let num = num div sizeof_seg_desc;
     require (num < NUM_GDT_ENTRIES);
     Some (gdt(num := \<lparr>low_limit = ucast (limit AND 0xFFFF), low_base = ucast (base_addr AND 0xFFFFFF),
       low_flags = lflags, hi_limit = ucast (drop_bit 16 limit AND 0x0F), hi_flags = ucast hflags,
       hi_base = ucast (drop_bit 24 base_addr AND 0xFF)\<rparr>))
   }"

definition gdt_init :: "(nat \<Rightarrow> seg_desc) \<Rightarrow> (nat \<Rightarrow> seg_desc) option" where
  "gdt_init gdt = do {
     gdt \<leftarrow> gdt_set_entry 0 0 0 0 0 gdt;
     let flags = SD_CODE OR SD_CD OR SD_DPL0 OR SD_PRESENT;
     gdt \<leftarrow> gdt_set_entry KERNEL_CS 0 FOUR_GB flags (SD_OPSIZE32 OR SD_PAGE4KB) gdt;
     let flags = SD_DATA OR SD_CD OR SD_DPL0 OR SD_PRESENT;
     gdt \<leftarrow> gdt_set_entry KERNEL_DS 0 FOUR_GB flags (SD_OPSIZE32 OR SD_PAGE4KB) gdt;
     let flags = SD_CODE OR SD_CD OR SD_DPL3 OR SD_PRESENT;
     gdt \<leftarrow> gdt_set_entry USER_CS 0 FOUR_GB flags (SD_OPSIZE32 OR SD_PAGE4KB) gdt;
     let flags = SD_DATA OR SD_CD OR SD_DPL3 OR SD_PRESENT;
     gdt \<leftarrow> gdt_set_entry USER_DS 0 FOUR_GB flags (SD_OPSIZE32 OR SD_PAGE4KB) gdt;
     gdt_set_entry TSS 0 sizeof_i386tss SD_TSS_PRESENT SD_OPSIZE32 gdt
   }"

text \<open>\<open>sched_set_tss\<close> of \<open>src/kernel/src/proc/sched.c\<close>: the base of the TSS entry becomes the given
  address. The assignment to the 24-bit field keeps the low bits.\<close>

definition set_tss_desc :: "u32 \<Rightarrow> (nat \<Rightarrow> seg_desc) \<Rightarrow> nat \<Rightarrow> seg_desc" where
  "set_tss_desc tss gdt =
     (let i = TSS div sizeof_seg_desc
      in gdt(i := (gdt i)\<lparr>low_base := ucast tss, low_flags := SD_TSS_PRESENT,
           hi_base := ucast (drop_bit 24 tss)\<rparr>))"

text \<open>What the processor reads from a descriptor.\<close>

definition seg_base :: "seg_desc \<Rightarrow> u32" where
  "seg_base d = push_bit 24 (ucast (hi_base d)) OR ucast (low_base d)"

definition seg_limit :: "seg_desc \<Rightarrow> u32" where
  "seg_limit d = push_bit 16 (ucast (hi_limit d)) OR ucast (low_limit d)"

lemma split_base: "push_bit 24 (ucast (ucast (drop_bit 24 w) :: u8)) OR ucast (ucast w :: 24 word) = (w :: u32)"
  by (rule bit_word_eqI) (auto simp: bit_simps)

lemma split_limit:
  "push_bit 16 (ucast (ucast (drop_bit 16 w) :: 4 word)) OR ucast (ucast w :: u16) = take_bit 20 (w :: u32)"
  by (rule bit_word_eqI) (auto simp: bit_simps)

lemma mask_casts:
  "(ucast (w AND 0xFFFF) :: u16) = ucast (w :: u32)" "(ucast (w AND 0xFFFFFF) :: 24 word) = ucast w"
  "(ucast (drop_bit 16 w AND 0x0F) :: 4 word) = ucast (drop_bit 16 w)"
  "(ucast (drop_bit 24 w AND 0xFF) :: u8) = ucast (drop_bit 24 w)"
proof -
  have m: "0xFFFF = (mask 16 :: u32)" "0xFFFFFF = (mask 24 :: u32)" "0x0F = (mask 4 :: u32)"
    "0xFF = (mask 8 :: u32)" by (simp_all add: mask_eq_exp_minus_1)
  show "(ucast (w AND 0xFFFF) :: u16) = ucast (w :: u32)" "(ucast (w AND 0xFFFFFF) :: 24 word) = ucast w"
    "(ucast (drop_bit 16 w AND 0x0F) :: 4 word) = ucast (drop_bit 16 w)"
    "(ucast (drop_bit 24 w AND 0xFF) :: u8) = ucast (drop_bit 24 w)"
    unfolding m by (rule bit_word_eqI; auto simp: bit_simps)+
qed

text \<open>an entry of the GDT describes the segment it was set for: the processor reads back the
  32-bit base and the low 20 bits of the limit, and \<open>sched_set_tss\<close> moves just the base of the TSS entry,
  to the address of the process's TSS.\<close>

theorem gdt_set_entry_roundtrip:
  assumes "gdt_set_entry sel base limit lf hf gdt = Some gdt'"
  shows "seg_base (gdt' (sel div 8)) = base \<and> seg_limit (gdt' (sel div 8)) = take_bit 20 limit \<and>
    low_flags (gdt' (sel div 8)) = lf \<and> (\<forall>i. i \<noteq> sel div 8 \<longrightarrow> gdt' i = gdt i) \<and>
    seg_base (set_tss_desc tss gdt' 5) = tss \<and> seg_limit (set_tss_desc tss gdt' 5) = seg_limit (gdt' 5)"
proof -
  have g: "gdt' = gdt(sel div 8 := \<lparr>low_limit = ucast (limit AND 0xFFFF), low_base = ucast (base AND 0xFFFFFF),
       low_flags = lf, hi_limit = ucast (drop_bit 16 limit AND 0x0F), hi_flags = ucast hf,
       hi_base = ucast (drop_bit 24 base AND 0xFF)\<rparr>)"
    using assms by (simp add: gdt_set_entry_def Let_def sizeof_seg_desc_def require_def split: if_splits)
  show ?thesis
    unfolding g set_tss_desc_def
    by (simp add: seg_base_def seg_limit_def mask_casts split_base split_limit TSS_def sizeof_seg_desc_def)
qed

theorem gdt_set_entry_roundtrip_witness:
  "\<exists>gdt'. gdt_set_entry TSS 0xC1234567 0xFFFFFFFF SD_TSS_PRESENT SD_OPSIZE32
      (\<lambda>_. \<lparr>low_limit = 0, low_base = 0, low_flags = 0, hi_limit = 0, hi_flags = 0, hi_base = 0\<rparr>) = Some gdt' \<and>
    seg_base (gdt' 5) = 0xC1234567"
proof -
  let ?z = "\<lambda>_. \<lparr>low_limit = 0, low_base = 0, low_flags = 0, hi_limit = 0, hi_flags = 0, hi_base = 0\<rparr>"
  obtain g where g: "gdt_set_entry TSS 0xC1234567 0xFFFFFFFF SD_TSS_PRESENT SD_OPSIZE32 ?z = Some g"
    by (simp add: gdt_set_entry_def TSS_def sizeof_seg_desc_def NUM_GDT_ENTRIES_def)
  then show ?thesis using gdt_set_entry_roundtrip [OF g] by (simp add: TSS_def)
qed

section \<open>Interrupt gates\<close>

record gate_desc =
  low_offset :: u16
  selector :: u16
  gflags :: u16
  hi_offset :: u16

definition IDT_NUM_ENTRIES :: nat where "IDT_NUM_ENTRIES = 256"
definition SD_32INTRGATE :: u32 where "SD_32INTRGATE = 0x0E"
definition SD_32TRAPGATE :: u32 where "SD_32TRAPGATE = 0x0F"

definition zero_gate :: gate_desc where
  "zero_gate = \<lparr>low_offset = 0, selector = 0, gflags = 0, hi_offset = 0\<rparr>"

definition idt_set_entry :: "nat \<Rightarrow> u32 \<Rightarrow> u32 \<Rightarrow> (nat \<Rightarrow> gate_desc) \<Rightarrow> (nat \<Rightarrow> gate_desc) option" where
  "idt_set_entry num handler flags idt = do {
     require (num < IDT_NUM_ENTRIES);
     Some (idt(num := \<lparr>low_offset = ucast (handler AND 0x0000FFFF), selector = of_nat KERNEL_CS,
       gflags = ucast (push_bit 8 flags), hi_offset = ucast (drop_bit 16 handler)\<rparr>))
   }"

definition idt_init_one ::
    "(nat \<Rightarrow> u32) \<Rightarrow> (nat \<Rightarrow> u32) \<Rightarrow> u32 \<Rightarrow> nat \<Rightarrow> (nat \<Rightarrow> gate_desc) \<Rightarrow> (nat \<Rightarrow> gate_desc) option" where
  "idt_init_one exception irq irq_unknown n idt =
     (if n < 0x20 then idt_set_entry n (exception n) (SD_32TRAPGATE OR ucast SD_PRESENT) idt
      else if n < 0x30 then idt_set_entry n (irq (n - 0x20)) (SD_32INTRGATE OR ucast SD_PRESENT) idt
      else idt_set_entry n irq_unknown (SD_32INTRGATE OR ucast SD_PRESENT) idt)"

primrec idt_init_loop ::
    "(nat \<Rightarrow> u32) \<Rightarrow> (nat \<Rightarrow> u32) \<Rightarrow> u32 \<Rightarrow> nat \<Rightarrow> (nat \<Rightarrow> gate_desc) \<Rightarrow> (nat \<Rightarrow> gate_desc) option" where
  "idt_init_loop exception irq irq_unknown 0 idt = Some idt"
| "idt_init_loop exception irq irq_unknown (Suc n) idt = do {
     idt \<leftarrow> idt_init_loop exception irq irq_unknown n idt;
     idt_init_one exception irq irq_unknown n idt
   }"

definition idt_init ::
    "(nat \<Rightarrow> u32) \<Rightarrow> (nat \<Rightarrow> u32) \<Rightarrow> u32 \<Rightarrow> u32 \<Rightarrow> (nat \<Rightarrow> gate_desc) option" where
  "idt_init exception irq irq_unknown syscall = do {
     let idt = (\<lambda>_. zero_gate);
     idt \<leftarrow> idt_init_loop exception irq irq_unknown IDT_NUM_ENTRIES idt;
     idt_set_entry 0x80 syscall (SD_32TRAPGATE OR ucast SD_DPL3 OR ucast SD_PRESENT) idt
   }"

text \<open>What the processor reads from a gate: the address to jump to, the privilege level, the type and
  the present bit.\<close>

definition gate_addr :: "gate_desc \<Rightarrow> u32" where
  "gate_addr g = push_bit 16 (ucast (hi_offset g)) OR ucast (low_offset g)"

definition gate_dpl :: "gate_desc \<Rightarrow> u16" where
  "gate_dpl g = drop_bit 13 (gflags g) AND 3"

definition gate_type :: "gate_desc \<Rightarrow> u16" where
  "gate_type g = drop_bit 8 (gflags g) AND 15"

definition gate_present :: "gate_desc \<Rightarrow> bool" where
  "gate_present g \<longleftrightarrow> bit (gflags g) 15"

definition gate_ok :: "gate_desc \<Rightarrow> u32 \<Rightarrow> u16 \<Rightarrow> u16 \<Rightarrow> bool" where
  "gate_ok g addr type dpl \<longleftrightarrow> gate_addr g = addr \<and> gate_type g = type \<and> gate_dpl g = dpl \<and>
     gate_present g \<and> selector g = of_nat KERNEL_CS"

lemma split_offset: "push_bit 16 (ucast (ucast (drop_bit 16 w) :: u16)) OR ucast (ucast w :: u16) = (w :: u32)"
  by (rule bit_word_eqI) (auto simp: bit_simps)

lemma idt_set_entry_gate:
  assumes "n < 256"
  shows "\<exists>idt'. idt_set_entry n h fl idt = Some idt' \<and> (\<forall>i. i \<noteq> n \<longrightarrow> idt' i = idt i) \<and>
    gate_addr (idt' n) = h \<and> selector (idt' n) = of_nat KERNEL_CS \<and> gflags (idt' n) = ucast (push_bit 8 fl)"
  using assms
  by (auto simp: idt_set_entry_def IDT_NUM_ENTRIES_def gate_addr_def mask_casts split_offset)

text \<open>The address and type of gate \<open>n\<close> before the system call gate is set.\<close>

definition boot_gate :: "(nat \<Rightarrow> u32) \<Rightarrow> (nat \<Rightarrow> u32) \<Rightarrow> u32 \<Rightarrow> nat \<Rightarrow> u32 \<times> u16" where
  "boot_gate exception irq irq_unknown n =
     (if n < 32 then (exception n, 15) else if n < 48 then (irq (n - 32), 14) else (irq_unknown, 14))"

lemma idt_init_one_gate:
  assumes "n < 256"
  shows "\<exists>idt'. idt_init_one exception irq unk n idt = Some idt' \<and> (\<forall>i. i \<noteq> n \<longrightarrow> idt' i = idt i) \<and>
    gate_ok (idt' n) (fst (boot_gate exception irq unk n)) (snd (boot_gate exception irq unk n)) 0"
proof -
  define h where "h = fst (boot_gate exception irq unk n)"
  define fl :: u32 where "fl = (if n < 32 then 0x8F else 0x8E)"
  have hf: "idt_init_one exception irq unk n idt = idt_set_entry n h fl idt"
    by (simp add: idt_init_one_def boot_gate_def SD_32TRAPGATE_def SD_32INTRGATE_def SD_PRESENT_def h_def fl_def)
  have fl: "(ucast (push_bit 8 fl) :: u16) = (if n < 32 then 0x8F00 else 0x8E00)"
    by (simp add: fl_def)
  have sn: "snd (boot_gate exception irq unk n) = (if n < 32 then 15 else 14)"
    by (simp add: boot_gate_def)
  show ?thesis unfolding hf sn h_def [symmetric]
    using idt_set_entry_gate [OF assms, of h fl idt] fl
    by (auto simp: gate_ok_def gate_type_def gate_dpl_def gate_present_def)
qed

lemma idt_init_loop_gates:
  "n \<le> 256 \<Longrightarrow> \<exists>idt'. idt_init_loop exception irq unk n idt = Some idt' \<and>
    (\<forall>i < n. gate_ok (idt' i) (fst (boot_gate exception irq unk i)) (snd (boot_gate exception irq unk i)) 0)"
proof (induction n)
  case (Suc n)
  then obtain i1 where i1: "idt_init_loop exception irq unk n idt = Some i1"
    "\<forall>i < n. gate_ok (i1 i) (fst (boot_gate exception irq unk i)) (snd (boot_gate exception irq unk i)) 0"
    by auto
  obtain i2 where "idt_init_one exception irq unk n i1 = Some i2" "\<forall>i. i \<noteq> n \<longrightarrow> i2 i = i1 i"
    "gate_ok (i2 n) (fst (boot_gate exception irq unk n)) (snd (boot_gate exception irq unk n)) 0"
    using idt_init_one_gate [of n exception irq unk i1] Suc.prems by auto
  then show ?case using i1 by (auto simp: less_Suc_eq)
qed simp

text \<open>\<open>idt_init\<close> fills all 256 vectors: vectors 0 to 31 are trap gates to their exception
  handlers, 32 to 47 interrupt gates to their IRQ handlers, the others interrupt gates to the handler of
  unknown interrupts, all present, in the kernel code segment and with privilege level 0, except that 0x80
  is a trap gate to the system call handler with privilege level 3.\<close>

theorem idt_init_gates:
  "\<exists>idt. idt_init exception irq irq_unknown syscall = Some idt \<and>
    gate_ok (idt 0x80) syscall 15 3 \<and>
    (\<forall>i < 32. gate_ok (idt i) (exception i) 15 0) \<and>
    (\<forall>i < 16. gate_ok (idt (32 + i)) (irq i) 14 0) \<and>
    (\<forall>i. 48 \<le> i \<and> i < 256 \<and> i \<noteq> 0x80 \<longrightarrow> gate_ok (idt i) irq_unknown 14 0)"
proof -
  obtain i1 where i1: "idt_init_loop exception irq irq_unknown 256 (\<lambda>_. zero_gate) = Some i1"
    "\<forall>i < 256. gate_ok (i1 i) (fst (boot_gate exception irq irq_unknown i))
      (snd (boot_gate exception irq irq_unknown i)) 0"
    using idt_init_loop_gates [of 256] by blast
  obtain i2 where i2: "idt_set_entry 0x80 syscall (SD_32TRAPGATE OR ucast SD_DPL3 OR ucast SD_PRESENT) i1 = Some i2"
    "\<forall>i. i \<noteq> 0x80 \<longrightarrow> i2 i = i1 i" "gate_addr (i2 0x80) = syscall"
    "selector (i2 0x80) = of_nat KERNEL_CS"
    "gflags (i2 0x80) = ucast (push_bit 8 (SD_32TRAPGATE OR ucast SD_DPL3 OR ucast SD_PRESENT))"
    using idt_set_entry_gate [of "0x80"] by fastforce
  have "idt_init exception irq irq_unknown syscall = Some i2"
    using i1(1) i2(1) by (simp add: idt_init_def IDT_NUM_ENTRIES_def)
  moreover have "gate_ok (i2 0x80) syscall 15 3"
    using i2(3,4,5) by (simp add: gate_ok_def gate_type_def gate_dpl_def gate_present_def
        SD_32TRAPGATE_def SD_DPL3_def SD_PRESENT_def)
  moreover have "gate_ok (i2 i) (fst (boot_gate exception irq irq_unknown i))
      (snd (boot_gate exception irq irq_unknown i)) 0" if "i < 256" "i \<noteq> 0x80" for i
    using i1(2) i2(2) that by simp
  note g = this
  have "gate_ok (i2 i) (exception i) 15 0" if "i < 32" for i
    using g [of i] that by (simp add: boot_gate_def)
  moreover have "gate_ok (i2 (32 + i)) (irq i) 14 0" if "i < 16" for i
    using g [of "32 + i"] that by (simp add: boot_gate_def)
  moreover have "gate_ok (i2 i) irq_unknown 14 0" if "48 \<le> i" "i < 256" "i \<noteq> 0x80" for i
    using g [of i] that by (simp add: boot_gate_def)
  ultimately show ?thesis by blast
qed

theorem idt_init_gates_witness:
  "\<exists>idt. idt_init (\<lambda>n. 0x1000 + of_nat n) (\<lambda>n. 0x2000 + of_nat n) 0x3000 0x4000 = Some idt \<and>
    gate_addr (idt 0x80) = 0x4000 \<and> gate_addr (idt 14) = 0x100E \<and> gate_addr (idt 33) = 0x2001 \<and>
    gate_addr (idt 255) = 0x3000"
proof -
  obtain g where g: "idt_init (\<lambda>n. 0x1000 + of_nat n) (\<lambda>n. 0x2000 + of_nat n) 0x3000 0x4000 = Some g"
    "gate_ok (g 0x80) 0x4000 15 3" "\<forall>i < 32. gate_ok (g i) (0x1000 + of_nat i) 15 0"
    "\<forall>i < 16. gate_ok (g (32 + i)) (0x2000 + of_nat i) 14 0"
    "\<forall>i. 48 \<le> i \<and> i < 256 \<and> i \<noteq> 0x80 \<longrightarrow> gate_ok (g i) 0x3000 14 0"
    using idt_init_gates [of "\<lambda>n. 0x1000 + of_nat n" "\<lambda>n. 0x2000 + of_nat n" "0x3000" "0x4000"] by auto
  have "gate_ok (g 14) (0x1000 + of_nat 14) 15 0" using spec [OF g(3), of 14] by simp
  moreover have "gate_ok (g (32 + 1)) (0x2000 + of_nat 1) 14 0" using spec [OF g(4), of 1] by simp
  moreover have "gate_ok (g 255) 0x3000 14 0" using g(5) by simp
  ultimately show ?thesis using g(1,2) by (auto simp: gate_ok_def)
qed

end
