(* ===== verification/Proc.thy ===== *)
theory Proc
  imports Heap Lock Descr
begin

text \<open>
  Processes and the scheduler: the types of \<open>src/include/proc/proc.h\<close>, the running list of
  \<open>src/kernel/src/proc/proc.c\<close> and \<open>src/kernel/src/proc/sched.c\<close>. A \<open>proc_t *\<close> is an index into
  \<open>proc_list\<close>, \<^const>\<open>None\<close> for \<open>NULL\<close>. Of the TSS only the fields that the C code uses are kept.
  \<open>do_switch\<close> is assembler: its effect, which includes all that other processes do until the caller runs
  again, is the parameter \<open>switch\<close>.
\<close>

section \<open>State\<close>

text \<open>\<open>PROC_UNUSED\<close> is the value 0 of the enumeration type, which a cleared entry holds.\<close>

datatype proc_state = PROC_UNUSED | PROC_RUNNING | PROC_SLEEPING | PROC_ZOMBLEY | PROC_STOPPED | PROC_IDLE

datatype proc_inttype = PROC_INTERRUPTIBLE | PROC_UNINTERRUPTIBLE

record tss =
  esp0 :: u32
  cr3 :: u32
  eip :: u32
  esp :: u32

record sig_action =
  sa_handler :: u32
  sa_mask :: u32
  sa_flags :: u32
  sa_restorer :: u32

record proc =
  p_parent :: "nat option"
  p_children :: int
  p_pid :: u32
  p_sid :: u32
  p_pgid :: u32
  p_state :: proc_state
  p_tss :: tss
  p_rss :: u32
  p_remaining :: int
  p_priority :: int
  p_sleep_addr :: u32
  p_pending :: u32
  p_blocked :: u32
  p_executing :: u32
  p_sigactions :: "nat \<Rightarrow> sig_action"
  p_flags :: u32
  p_prev :: "nat option"
  p_next :: "nat option"
  p_prev_sleeping :: "nat option"
  p_next_sleeping :: "nat option"
  p_prev_running :: "nat option"
  p_next_running :: "nat option"
  p_tty :: u32

record proc_kstate =
  procs :: "nat \<Rightarrow> proc"
  proc_count :: nat
  proc_current :: nat
  proc_list_head :: "nat option"
  proc_list_tail :: "nat option"
  proc_running_list :: "nat option"
  proc_free_list :: "nat option"
  proc_free_list_size :: u32
  proc_lock :: resource
  proc_lock_addr :: u32
  needs_resched :: bool
  sleep_hash_table :: "nat \<Rightarrow> nat option"
  proc_gdt :: "nat \<Rightarrow> seg_desc"
  tss_addr :: "nat \<Rightarrow> u32"
  kheap :: buddy_state

type_synonym switch = "proc_kstate \<Rightarrow> proc_kstate option"

definition PROC_IDLE_PID :: nat where "PROC_IDLE_PID = 0"
definition PROC_FLAG_NOTINTERRUPT :: u32 where "PROC_FLAG_NOTINTERRUPT = 8"
definition NUM_SIGNALS :: nat where "NUM_SIGNALS = 32"

definition zero_proc :: proc where
  "zero_proc = \<lparr>p_parent = None, p_children = 0, p_pid = 0, p_sid = 0, p_pgid = 0, p_state = PROC_UNUSED,
     p_tss = \<lparr>esp0 = 0, cr3 = 0, eip = 0, esp = 0\<rparr>, p_rss = 0, p_remaining = 0, p_priority = 0,
     p_sleep_addr = 0, p_pending = 0, p_blocked = 0, p_executing = 0,
     p_sigactions = (\<lambda>_. \<lparr>sa_handler = 0, sa_mask = 0, sa_flags = 0, sa_restorer = 0\<rparr>), p_flags = 0,
     p_prev = None, p_next = None, p_prev_sleeping = None, p_next_sleeping = None,
     p_prev_running = None, p_next_running = None, p_tty = 0\<rparr>"

definition upd_proc :: "nat \<Rightarrow> (proc \<Rightarrow> proc) \<Rightarrow> proc_kstate \<Rightarrow> proc_kstate" where
  "upd_proc p f s = s\<lparr>procs := (procs s)(p := f (procs s p))\<rparr>"

lemma procs_upd [simp]: "procs (upd_proc p f s) = (procs s)(p := f (procs s p))"
  by (simp add: upd_proc_def)

lemma upd_proc_frame [simp, frame]:
  "proc_current (upd_proc p f s) = proc_current s" "proc_list_head (upd_proc p f s) = proc_list_head s"
  "proc_list_tail (upd_proc p f s) = proc_list_tail s" "proc_running_list (upd_proc p f s) = proc_running_list s"
  "proc_free_list (upd_proc p f s) = proc_free_list s" "proc_lock (upd_proc p f s) = proc_lock s"
  "sleep_hash_table (upd_proc p f s) = sleep_hash_table s" "needs_resched (upd_proc p f s) = needs_resched s"
  "proc_lock_addr (upd_proc p f s) = proc_lock_addr s" "proc_gdt (upd_proc p f s) = proc_gdt s"
  "kheap (upd_proc p f s) = kheap s" "proc_free_list_size (upd_proc p f s) = proc_free_list_size s"
  "tss_addr (upd_proc p f s) = tss_addr s" "proc_count (upd_proc p f s) = proc_count s"
  by (simp_all add: upd_proc_def)

section \<open>The running list\<close>

definition proc_current_is_running :: "proc_kstate \<Rightarrow> bool" where
  "proc_current_is_running s \<longleftrightarrow> p_state (procs s (proc_current s)) = PROC_RUNNING"

definition proc_current_has_remaining :: "proc_kstate \<Rightarrow> bool" where
  "proc_current_has_remaining s \<longleftrightarrow> p_remaining (procs s (proc_current s)) > 0"

definition proc_runnable :: "nat \<Rightarrow> proc_kstate \<Rightarrow> proc_kstate" where
  "proc_runnable p s =
     (if p_state (procs s p) = PROC_RUNNING then s
      else
        (let s = (case proc_running_list s of
                   None \<Rightarrow> s
                 | Some r \<Rightarrow>
                    (let s = upd_proc p (\<lambda>x. x\<lparr>p_next_running := Some r\<rparr>) s
                     in upd_proc r (\<lambda>x. x\<lparr>p_prev_running := Some p\<rparr>) s));
             s = s\<lparr>proc_running_list := Some p\<rparr>
         in upd_proc p (\<lambda>x. x\<lparr>p_state := PROC_RUNNING\<rparr>) s))"

definition proc_not_runnable :: "nat \<Rightarrow> proc_state \<Rightarrow> proc_kstate \<Rightarrow> proc_kstate" where
  "proc_not_runnable p st s =
     (let s = (case p_next_running (procs s p) of
                 None \<Rightarrow> s
               | Some n \<Rightarrow> upd_proc n (\<lambda>x. x\<lparr>p_prev_running := p_prev_running (procs s p)\<rparr>) s);
          s = (case p_prev_running (procs s p) of
                 None \<Rightarrow> s
               | Some q \<Rightarrow> upd_proc q (\<lambda>x. x\<lparr>p_next_running := p_next_running (procs s p)\<rparr>) s);
          s = (if proc_running_list s = Some p
               then s\<lparr>proc_running_list := p_next_running (procs s p)\<rparr> else s);
          s = upd_proc p (\<lambda>x. x\<lparr>p_next_running := None, p_prev_running := None\<rparr>) s
      in upd_proc p (\<lambda>x. x\<lparr>p_state := st\<rparr>) s)"

text \<open>The invariant: \<open>rs\<close> is the running list; the running processes other than the idle process are in
  it, and a process that is not in it has no running links.\<close>

abbreviation rnx :: "proc_kstate \<Rightarrow> nat \<Rightarrow> nat option" where
  "rnx s \<equiv> \<lambda>p. p_next_running (procs s p)"

abbreviation rpv :: "proc_kstate \<Rightarrow> nat \<Rightarrow> nat option" where
  "rpv s \<equiv> \<lambda>p. p_prev_running (procs s p)"

definition run_inv :: "proc_kstate \<Rightarrow> nat list \<Rightarrow> bool" where
  "run_inv s rs \<longleftrightarrow> dlist (rnx s) (rpv s) (proc_running_list s) rs \<and>
     (\<forall>p. p \<notin> set rs \<longrightarrow> rnx s p = None \<and> rpv s p = None) \<and>
     (\<forall>p. p_state (procs s p) = PROC_RUNNING \<longleftrightarrow> p \<in> set rs)"

lemma run_inv_running: "run_inv s rs \<Longrightarrow> p \<in> set rs \<longleftrightarrow> p_state (procs s p) = PROC_RUNNING"
  by (simp add: run_inv_def)

lemma proc_runnable_inv:
  assumes "run_inv s rs"
  shows "run_inv (proc_runnable p s) (if p \<in> set rs then rs else p # rs)"
proof (cases "p \<in> set rs")
  case True
  then show ?thesis using assms by (simp add: run_inv_def proc_runnable_def)
next
  case False
  let ?t = "proc_runnable p s"
  have st: "p_state (procs s p) \<noteq> PROC_RUNNING" and d: "dlist (rnx s) (rpv s) (proc_running_list s) rs"
    and o: "rnx s p = None" "rpv s p = None" using assms False by (auto simp: run_inv_def)
  have "dlist (rnx ?t) (rpv ?t) (proc_running_list ?t) (p # rs)"
  proof (cases "proc_running_list s")
    case None
    then have "rs = []" "proc_running_list ?t = Some p" using d st by (simp_all add: proc_runnable_def)
    moreover have "rnx ?t p = None" "rpv ?t p = None" using None o st by (simp_all add: proc_runnable_def)
    ultimately show ?thesis using dlist_push_Nil [of "rnx ?t" p "rpv ?t"] by simp
  next
    case (Some r)
    then have h: "proc_running_list ?t = Some p" using st by (simp add: proc_runnable_def Let_def)
    have "r \<in> set rs" using d Some by (simp add: dlist_head_in)
    then have rp: "r \<noteq> p" using False by auto
    have n: "rnx ?t = (rnx s)(p := Some r)"
      by (rule ext) (use Some st rp in \<open>simp add: proc_runnable_def Let_def\<close>)
    have v: "rpv ?t p = None" "rpv ?t r = Some p" "\<And>x. x \<noteq> p \<Longrightarrow> x \<noteq> r \<Longrightarrow> rpv ?t x = rpv s x"
      using Some st rp o by (simp_all add: proc_runnable_def Let_def)
    show ?thesis unfolding h
      by (rule dlist_push_Cons [of "rnx s" "rpv s" r rs]) (use d Some False n v in simp_all)
  qed
  moreover have "rnx ?t x = None \<and> rpv ?t x = None" if "x \<notin> set (p # rs)" for x
  proof -
    have "x \<noteq> r" if "proc_running_list s = Some r" for r using that d \<open>x \<notin> set (p # rs)\<close> by (auto dest: dlist_head_in)
    then show ?thesis using assms that st
      by (auto simp: run_inv_def proc_runnable_def Let_def split: option.splits)
  qed
  moreover have "p_state (procs ?t x) = PROC_RUNNING \<longleftrightarrow> x \<in> set (p # rs)" for x
    using assms st by (auto simp: run_inv_def proc_runnable_def Let_def split: option.splits)
  ultimately show ?thesis using False unfolding run_inv_def by simp
qed

lemma proc_not_runnable_links:
  assumes "p_next_running (procs s p) \<noteq> Some p" "p_prev_running (procs s p) \<noteq> Some p"
  shows "rnx (proc_not_runnable p st s) = (unlink_nx (rnx s) (rpv s) p)(p := None)"
    "rpv (proc_not_runnable p st s) = (unlink_pv (rnx s) (rpv s) p)(p := None)"
    "proc_running_list (proc_not_runnable p st s) =
       (if proc_running_list s = Some p then rnx s p else proc_running_list s)"
    "p_state (procs (proc_not_runnable p st s) x) = (if x = p then st else p_state (procs s x))"
  using assms by (auto simp: proc_not_runnable_def Let_def unlink_nx_def unlink_pv_def fun_eq_iff split: option.splits)

lemma proc_not_runnable_inv:
  assumes "run_inv s rs" "st \<noteq> PROC_RUNNING"
  shows "run_inv (proc_not_runnable p st s) (remove1 p rs)"
proof -
  let ?t = "proc_not_runnable p st s"
  have d: "dlist (rnx s) (rpv s) (proc_running_list s) rs" using assms by (simp add: run_inv_def)
  have di: "distinct rs" by (rule dlist_distinct [OF d])
  have self: "rnx s p \<noteq> Some p" "rpv s p \<noteq> Some p"
  proof -
    have "rnx s p \<noteq> Some p \<and> rpv s p \<noteq> Some p"
    proof (cases "p \<in> set rs")
      case True
      then obtain us vs where rs: "rs = us @ p # vs" by (meson split_list)
      then show ?thesis using dlist_neighbours [OF d [unfolded rs]] di by (auto split: if_splits)
    qed (use assms(1) in \<open>auto simp: run_inv_def\<close>)
    then show "rnx s p \<noteq> Some p" "rpv s p \<noteq> Some p" by auto
  qed
  note l = proc_not_runnable_links [OF self, of st]
  show ?thesis
  proof (cases "p \<in> set rs")
    case True
    have "dlist (unlink_nx (rnx s) (rpv s) p) (unlink_pv (rnx s) (rpv s) p) (proc_running_list ?t) (remove1 p rs)"
      using dlist_unlink_remove1 [OF d True] by (simp add: l)
    then have "dlist (rnx ?t) (rpv ?t) (proc_running_list ?t) (remove1 p rs)"
      unfolding l(1,2) using di by simp
    moreover have "rnx ?t x = None \<and> rpv ?t x = None" if "x \<notin> set (remove1 p rs)" for x
    proof (cases "x = p")
      case False
      then have "x \<notin> set rs" using that di by simp
      then show ?thesis using unlink_outside [OF d True] assms(1) False
        by (simp add: fun_cong [OF l(1)] fun_cong [OF l(2)] run_inv_def)
    qed (simp add: fun_cong [OF l(1)] fun_cong [OF l(2)])
    ultimately show ?thesis using assms di unfolding run_inv_def by (auto simp: l(4))
  next
    case False
    then have o: "rnx s p = None" "rpv s p = None" "proc_running_list s \<noteq> Some p"
      using assms(1) d by (auto simp: run_inv_def dest: dlist_head_in)
    then have "unlink_nx (rnx s) (rpv s) p = rnx s" "unlink_pv (rnx s) (rpv s) p = rpv s"
      by (simp_all add: unlink_nx_def unlink_pv_def)
    then have e: "rnx ?t = rnx s" "rpv ?t = rpv s" using l(1,2) o by auto
    have r: "remove1 p rs = rs" using False by (rule remove1_idem)
    have h: "proc_running_list ?t = proc_running_list s" using l(3) o(3) by simp
    have q: "\<forall>x. p_state (procs ?t x) = PROC_RUNNING \<longleftrightarrow> x \<in> set rs"
      using assms False by (auto simp: l(4) run_inv_def)
    show ?thesis using assms(1) q unfolding run_inv_def r h by (simp add: e fun_cong [OF e(1)] fun_cong [OF e(2)])
  qed
qed

section \<open>The scheduler\<close>

definition sched_set_tss :: "nat \<Rightarrow> proc_kstate \<Rightarrow> proc_kstate" where
  "sched_set_tss p s = s\<lparr>proc_gdt := set_tss_desc (tss_addr s p) (proc_gdt s)\<rparr>"

definition do_context_switch :: "switch \<Rightarrow> nat \<Rightarrow> proc_kstate \<Rightarrow> proc_kstate option" where
  "do_context_switch switch p s =
     (let s = sched_set_tss p s; s = s\<lparr>proc_current := p\<rparr> in switch s)"

text \<open>The walk over the running list: the largest remaining time above \<open>count\<close> and the first process
  that has it.\<close>

partial_function (option) sched_scan ::
    "nat option \<Rightarrow> int \<Rightarrow> nat \<Rightarrow> proc_kstate \<Rightarrow> (int \<times> nat) option" where
  "sched_scan p_iter count best s = (case p_iter of
       None \<Rightarrow> Some (count, best)
     | Some p \<Rightarrow>
         if p_remaining (procs s p) > count
         then sched_scan (p_next_running (procs s p)) (p_remaining (procs s p)) p s
         else sched_scan (p_next_running (procs s p)) count best s)"

partial_function (option) sched_recharge :: "nat option \<Rightarrow> proc_kstate \<Rightarrow> proc_kstate option" where
  "sched_recharge p_iter s = (case p_iter of
       None \<Rightarrow> Some s
     | Some p \<Rightarrow>
         (let s = upd_proc p (\<lambda>x. x\<lparr>p_remaining := p_priority x\<rparr>) s
          in sched_recharge (p_next_running (procs s p)) s))"

partial_function (option) sched_pick :: "proc_kstate \<Rightarrow> (nat \<times> proc_kstate) option" where
  "sched_pick s = do {
     (count, next_p) \<leftarrow> sched_scan (proc_running_list s) (-1) PROC_IDLE_PID s;
     if count \<noteq> 0 then Some (next_p, s)
     else do {
       s \<leftarrow> sched_recharge (proc_running_list s) s;
       sched_pick s
     }
   }"

definition sched_run :: "switch \<Rightarrow> proc_kstate \<Rightarrow> proc_kstate option" where
  "sched_run switch s =
     (if \<not> needs_resched s \<and> proc_current_is_running s \<and> proc_current_has_remaining s then Some s
      else do {
        let s = s\<lparr>needs_resched := False\<rparr>;
        (p, s) \<leftarrow> sched_pick s;
        if proc_current s \<noteq> p then do_context_switch switch p s else Some s
      })"

text \<open>The choice, on the list of running processes: the first with the largest remaining time, the idle
  process when there is none with time left to compare.\<close>

primrec best_of :: "(nat \<Rightarrow> int) \<Rightarrow> int \<Rightarrow> nat \<Rightarrow> nat list \<Rightarrow> int \<times> nat" where
  "best_of t c b [] = (c, b)"
| "best_of t c b (p # ps) = (if t p > c then best_of t (t p) p ps else best_of t c b ps)"

definition pick_first_max :: "(nat \<Rightarrow> int) \<Rightarrow> nat list \<Rightarrow> nat \<Rightarrow> bool" where
  "pick_first_max t ps p \<longleftrightarrow> (\<exists>us vs. ps = us @ p # vs \<and> (\<forall>q \<in> set us. t q < t p) \<and> (\<forall>q \<in> set vs. t q \<le> t p))"

lemma sched_scan_list:
  "slist (rnx s) h ps \<Longrightarrow> sched_scan h c b s = Some (best_of (\<lambda>p. p_remaining (procs s p)) c b ps)"
proof (induction ps arbitrary: h c b)
  case (Cons p ps)
  then show ?case by (subst sched_scan.simps) simp
qed (simp add: sched_scan.simps)

lemma best_of_cases:
  "(best_of t c b ps = (c, b) \<and> (\<forall>p \<in> set ps. t p \<le> c)) \<or>
   (\<exists>p. best_of t c b ps = (t p, p) \<and> c < t p \<and> pick_first_max t ps p)"
proof (induction ps arbitrary: c b)
  case (Cons q ps)
  show ?case
  proof (cases "c < t q")
    case True
    consider (a) "best_of t (t q) q ps = (t q, q)" "\<forall>p \<in> set ps. t p \<le> t q"
      | (b) p where "best_of t (t q) q ps = (t p, p)" "t q < t p" "pick_first_max t ps p"
      using Cons.IH [of "t q" q] by blast
    then show ?thesis
    proof cases
      case a
      then have "pick_first_max t (q # ps) q" unfolding pick_first_max_def by (intro exI [of _ "[]"] exI [of _ ps]) auto
      then show ?thesis using a True by auto
    next
      case b
      then obtain us vs where "ps = us @ p # vs" "\<forall>q \<in> set us. t q < t p" "\<forall>q \<in> set vs. t q \<le> t p"
        by (auto simp: pick_first_max_def)
      then have "pick_first_max t (q # ps) p" using b(2)
        unfolding pick_first_max_def by (intro exI [of _ "q # us"] exI [of _ vs]) auto
      then show ?thesis using b(1,2) True by auto
    qed
  next
    case False
    consider (a) "best_of t c b ps = (c, b)" "\<forall>p \<in> set ps. t p \<le> c"
      | (b) p where "best_of t c b ps = (t p, p)" "c < t p" "pick_first_max t ps p"
      using Cons.IH [of c b] by blast
    then show ?thesis
    proof cases
      case a
      then show ?thesis using False by simp
    next
      case b
      then obtain us vs where "ps = us @ p # vs" "\<forall>q \<in> set us. t q < t p" "\<forall>q \<in> set vs. t q \<le> t p"
        by (auto simp: pick_first_max_def)
      then have "pick_first_max t (q # ps) p" using b(2) False
        unfolding pick_first_max_def by (intro exI [of _ "q # us"] exI [of _ vs]) auto
      then show ?thesis using b(1,2) False by auto
    qed
  qed
qed simp

definition recharge_all :: "nat set \<Rightarrow> proc_kstate \<Rightarrow> proc_kstate" where
  "recharge_all A s = s\<lparr>procs := (\<lambda>p. if p \<in> A then (procs s p)\<lparr>p_remaining := p_priority (procs s p)\<rparr> else procs s p)\<rparr>"

lemma recharge_sel [simp]:
  "rnx (recharge_all A s) = rnx s" "p_priority (procs (recharge_all A s) p) = p_priority (procs s p)"
  "p_remaining (procs (recharge_all A s) p) = (if p \<in> A then p_priority (procs s p) else p_remaining (procs s p))"
  "proc_running_list (recharge_all A s) = proc_running_list s" "proc_current (recharge_all A s) = proc_current s"
  by (auto simp: recharge_all_def)

lemma sched_recharge_list:
  "slist (rnx s) h ps \<Longrightarrow> sched_recharge h s = Some (recharge_all (set ps) s)"
proof (induction ps arbitrary: h s)
  case Nil
  then show ?case by (simp add: sched_recharge.simps recharge_all_def)
next
  case (Cons p ps)
  let ?s = "upd_proc p (\<lambda>x. x\<lparr>p_remaining := p_priority x\<rparr>) s"
  have n: "rnx ?s = rnx s" by (rule ext) simp
  then have "slist (rnx ?s) (rnx ?s p) ps" using Cons.prems by simp
  from Cons.IH [OF this] have "sched_recharge (rnx ?s p) ?s = Some (recharge_all (set ps) ?s)" .
  moreover have "recharge_all (set ps) ?s = recharge_all (set (p # ps)) s"
    by (rule proc_kstate.equality) (auto simp: recharge_all_def upd_proc_def)
  ultimately show ?case using Cons.prems by (subst sched_recharge.simps) (simp add: Let_def)
qed

lemma pick_first_max_mem: "pick_first_max t ps p \<Longrightarrow> p \<in> set ps \<and> (\<forall>q \<in> set ps. t q \<le> t p)"
  by (fastforce simp: pick_first_max_def)

lemma pick_first_max_unique: "pick_first_max t ps p \<Longrightarrow> pick_first_max t ps q \<Longrightarrow> p = q"
proof (induction ps)
  case (Cons a ps)
  have "q = a" if "pick_first_max t (a # ps) a" "pick_first_max t (a # ps) q" for q
  proof -
    obtain us vs where "a # ps = us @ q # vs" "\<forall>x \<in> set us. t x < t q"
      using \<open>pick_first_max t (a # ps) q\<close> unfolding pick_first_max_def by blast
    moreover have "t q \<le> t a" using pick_first_max_mem [OF that(1)] pick_first_max_mem [OF that(2)] by blast
    ultimately show ?thesis by (cases us) auto
  qed
  moreover have "pick_first_max t ps x" if x: "pick_first_max t (a # ps) x" "x \<noteq> a" for x
  proof -
    obtain us vs where u: "a # ps = us @ x # vs" "\<forall>y \<in> set us. t y < t x" "\<forall>y \<in> set vs. t y \<le> t x"
      using x(1) unfolding pick_first_max_def by blast
    then obtain us' where "us = a # us'" using x(2) by (cases us) auto
    then show ?thesis using u unfolding pick_first_max_def by auto
  qed
  ultimately show ?case using Cons by metis
qed (simp add: pick_first_max_def)

lemma best_of_neg:
  assumes "\<forall>p \<in> set ps. t p < 0"
  shows "best_of t (-1) b ps = (-1, b)"
proof -
  have "\<not> (- 1 < t p \<and> pick_first_max t ps p)" for p
    using assms pick_first_max_mem [of t ps p] by fastforce
  then show ?thesis using best_of_cases [of t "-1" b ps] by blast
qed

lemma best_of_max:
  assumes "pick_first_max t ps p" "0 \<le> t p"
  shows "best_of t (-1) b ps = (t p, p)"
proof -
  have "p \<in> set ps" using pick_first_max_mem [OF assms(1)] by blast
  then have "\<not> (\<forall>p \<in> set ps. t p \<le> - 1)" using assms(2) by force
  then obtain q where "best_of t (-1) b ps = (t q, q)" "pick_first_max t ps q"
    using best_of_cases [of t "-1" b ps] by blast
  then show ?thesis using pick_first_max_unique [OF assms(1)] by blast
qed

text \<open>The process that the scheduler turns to, from a given state.\<close>

definition turn_to :: "switch \<Rightarrow> nat \<Rightarrow> proc_kstate \<Rightarrow> proc_kstate option" where
  "turn_to switch p s = (if proc_current s \<noteq> p then do_context_switch switch p s else Some s)"

lemma sched_pick_now:
  assumes "slist (rnx s) (proc_running_list s) rs"
  shows "\<forall>p \<in> set rs. p_remaining (procs s p) < 0 \<Longrightarrow> sched_pick s = Some (PROC_IDLE_PID, s)"
    and "pick_first_max (\<lambda>p. p_remaining (procs s p)) rs p \<Longrightarrow> 0 < p_remaining (procs s p) \<Longrightarrow> sched_pick s = Some (p, s)"
    and "pick_first_max (\<lambda>p. p_remaining (procs s p)) rs p \<Longrightarrow> 0 = p_remaining (procs s p) \<Longrightarrow>
      sched_pick s = sched_pick (recharge_all (set rs) s)"
proof -
  note sc = sched_scan_list [OF assms, of "-1" PROC_IDLE_PID]
  show "\<forall>p \<in> set rs. p_remaining (procs s p) < 0 \<Longrightarrow> sched_pick s = Some (PROC_IDLE_PID, s)"
    using sc best_of_neg [of rs "\<lambda>p. p_remaining (procs s p)"] by (subst sched_pick.simps) simp
  show "pick_first_max (\<lambda>p. p_remaining (procs s p)) rs p \<Longrightarrow> 0 < p_remaining (procs s p) \<Longrightarrow> sched_pick s = Some (p, s)"
    using sc best_of_max [of "\<lambda>p. p_remaining (procs s p)" rs p] by (subst sched_pick.simps) simp
  show "pick_first_max (\<lambda>p. p_remaining (procs s p)) rs p \<Longrightarrow> 0 = p_remaining (procs s p) \<Longrightarrow>
      sched_pick s = sched_pick (recharge_all (set rs) s)"
    using sc best_of_max [of "\<lambda>p. p_remaining (procs s p)" rs p] sched_recharge_list [OF assms]
    by (subst sched_pick.simps) simp
qed

text \<open>When neither the remaining times nor the priorities have anything above 0 but something at 0, the
  loop recharges for ever.\<close>

definition pick_stuck :: "proc_kstate \<Rightarrow> bool" where
  "pick_stuck s \<longleftrightarrow> (\<exists>rs p q. slist (rnx s) (proc_running_list s) rs \<and>
     pick_first_max (\<lambda>p. p_remaining (procs s p)) rs p \<and> p_remaining (procs s p) = 0 \<and>
     pick_first_max (\<lambda>p. p_priority (procs s p)) rs q \<and> p_priority (procs s q) = 0)"

lemma pick_first_max_cong: "(\<And>x. x \<in> set ps \<Longrightarrow> t x = u x) \<Longrightarrow> pick_first_max t ps p = pick_first_max u ps p"
proof -
  have "pick_first_max t ps p \<Longrightarrow> (\<And>x. x \<in> set ps \<Longrightarrow> t x = u x) \<Longrightarrow> pick_first_max u ps p" for t u :: "nat \<Rightarrow> int"
    unfolding pick_first_max_def by fastforce
  then show "(\<And>x. x \<in> set ps \<Longrightarrow> t x = u x) \<Longrightarrow> pick_first_max t ps p = pick_first_max u ps p" by metis
qed

lemma stuck_again:
  assumes "slist (rnx s) (proc_running_list s) rs" "pick_stuck s"
  shows "pick_stuck (recharge_all (set rs) s)"
    "\<exists>b. sched_scan (proc_running_list s) (-1) PROC_IDLE_PID s = Some (0, b)"
proof -
  obtain rs' p q where r: "slist (rnx s) (proc_running_list s) rs'"
    "pick_first_max (\<lambda>p. p_remaining (procs s p)) rs' p" "p_remaining (procs s p) = 0"
    "pick_first_max (\<lambda>p. p_priority (procs s p)) rs' q" "p_priority (procs s q) = 0"
    using assms(2) unfolding pick_stuck_def by blast
  have rs: "rs' = rs" by (rule slist_unique [OF r(1) assms(1)])
  have m: "q \<in> set rs" using pick_first_max_mem [OF r(4)] rs by blast
  have "pick_first_max (\<lambda>p. p_remaining (procs (recharge_all (set rs) s) p)) rs q"
    using r(4) pick_first_max_cong [of rs "\<lambda>p. p_priority (procs s p)"
        "\<lambda>p. p_remaining (procs (recharge_all (set rs) s) p)" q] rs by simp
  then show "pick_stuck (recharge_all (set rs) s)"
    unfolding pick_stuck_def using r(4,5) rs assms(1) m by (intro exI [of _ rs] exI [of _ q]) simp
  show "\<exists>b. sched_scan (proc_running_list s) (-1) PROC_IDLE_PID s = Some (0, b)"
    using sched_scan_list [OF assms(1)] best_of_max [OF r(2)] r(3) rs by simp
qed

lemma sched_pick_Some_not_stuck:
  assumes "sched_pick s = Some r"
  shows "\<not> pick_stuck s"
proof (rule sched_pick.raw_induct [OF _ assms, of "\<lambda>s _. \<not> pick_stuck s"])
  fix f s r
  assume IH: "\<And>s r. f s = Some r \<Longrightarrow> \<not> pick_stuck s"
    and body: "sched_scan (proc_running_list s) (- 1) PROC_IDLE_PID s \<bind>
      (\<lambda>(count, next_p). if count \<noteq> 0 then Some (next_p, s) else sched_recharge (proc_running_list s) s \<bind> f) = Some r"
  show "\<not> pick_stuck s"
  proof
    assume st: "pick_stuck s"
    then obtain rs where rs: "slist (rnx s) (proc_running_list s) rs" unfolding pick_stuck_def by blast
    obtain b where "sched_scan (proc_running_list s) (-1) PROC_IDLE_PID s = Some (0, b)"
      using stuck_again(2) [OF rs st] by blast
    then have "f (recharge_all (set rs) s) = Some r"
      using body sched_recharge_list [OF rs] by simp
    then show False using IH stuck_again(1) [OF rs st] by blast
  qed
qed

text \<open>C26: \<open>proc_runnable\<close> puts a process that is not running at the head of the running list, and
  \<open>proc_not_runnable\<close> takes a process out of it wherever it stands; the list stays well linked and holds
  exactly the running processes, and neither changes anything when the process is already there, or not
  there, but for its state.\<close>

theorem running_list_invariant:
  assumes "run_inv s rs" "st \<noteq> PROC_RUNNING"
  shows "run_inv (proc_runnable p s) (if p \<in> set rs then rs else p # rs) \<and>
    run_inv (proc_not_runnable p st s) (remove1 p rs) \<and>
    p_state (procs (proc_runnable p s) p) = PROC_RUNNING \<and>
    p_state (procs (proc_not_runnable p st s) p) = st"
  using proc_runnable_inv [OF assms(1)] proc_not_runnable_inv [OF assms]
  by (simp add: proc_runnable_def proc_not_runnable_def Let_def)

text \<open>C20: when the current process must give way, the scheduler turns to the first process of the
  running list with the largest remaining time, if that is positive; to the idle process when nothing in
  the list has time 0 or more; and when the largest time is 0, it gives each running process its priority
  as time and chooses again. It returns in all cases but one: if then the largest time is still 0, it
  loops for ever.\<close>

theorem sched_run_picks:
  assumes "run_inv s rs" "needs_resched s \<or> \<not> proc_current_is_running s \<or> \<not> proc_current_has_remaining s"
  defines "now \<equiv> s\<lparr>needs_resched := False\<rparr>" and "again \<equiv> recharge_all (set rs) (s\<lparr>needs_resched := False\<rparr>)"
    and "t \<equiv> \<lambda>p. p_remaining (procs s p)" and "pr \<equiv> \<lambda>p. p_priority (procs s p)"
  shows "((\<forall>p \<in> set rs. t p < 0) \<longrightarrow> sched_run switch s = turn_to switch PROC_IDLE_PID now) \<and>
    (pick_first_max t rs p \<and> 0 < t p \<longrightarrow> sched_run switch s = turn_to switch p now) \<and>
    (pick_first_max t rs p \<and> t p = 0 \<and> (\<forall>q \<in> set rs. pr q < 0) \<longrightarrow>
      sched_run switch s = turn_to switch PROC_IDLE_PID again) \<and>
    (pick_first_max t rs p \<and> t p = 0 \<and> pick_first_max pr rs q \<and> 0 < pr q \<longrightarrow>
      sched_run switch s = turn_to switch q again) \<and>
    (pick_first_max t rs p \<and> t p = 0 \<and> pick_first_max pr rs q \<and> pr q = 0 \<longrightarrow> sched_run switch s = None)"
proof -
  have run: "sched_run switch s = sched_pick now \<bind> (\<lambda>(p, s). turn_to switch p s)"
    using assms(2) by (auto simp: sched_run_def now_def turn_to_def)
  have ts: "slist (rnx now) (proc_running_list now) rs" "slist (rnx again) (proc_running_list again) rs"
    using assms(1) by (auto simp: run_inv_def now_def again_def dest: dlist_slist)
  have t: "(\<lambda>p. p_remaining (procs now p)) = t" by (simp add: now_def t_def)
  have u: "p_remaining (procs again p) = pr p" if "p \<in> set rs" for p using that by (simp add: again_def pr_def)
  have fm: "pick_first_max (\<lambda>p. p_remaining (procs again p)) rs x = pick_first_max pr rs x" for x
    by (rule pick_first_max_cong) (rule u)
  have ag: "recharge_all (set rs) now = again" by (simp add: now_def again_def)
  note n = sched_pick_now [OF ts(1)] and a = sched_pick_now [OF ts(2)]
  have 1: "sched_run switch s = turn_to switch PROC_IDLE_PID now" if "\<forall>p \<in> set rs. t p < 0"
    using n(1) that run by (simp add: fun_cong [OF t, symmetric])
  have 2: "sched_run switch s = turn_to switch p now" if "pick_first_max t rs p" "0 < t p"
    using n(2) [of p] that run unfolding t by (simp add: fun_cong [OF t])
  have z: "sched_run switch s = sched_pick again \<bind> (\<lambda>(p, s). turn_to switch p s)"
    if "pick_first_max t rs p" "t p = 0"
    using n(3) [of p] that run unfolding t ag by (simp add: fun_cong [OF t])
  have 3: "sched_run switch s = turn_to switch PROC_IDLE_PID again"
    if "pick_first_max t rs p" "t p = 0" "\<forall>q \<in> set rs. pr q < 0"
    using z [OF that(1,2)] a(1) that(3) u by simp
  have 4: "sched_run switch s = turn_to switch q again"
    if "pick_first_max t rs p" "t p = 0" "pick_first_max pr rs q" "0 < pr q"
    using z [OF that(1,2)] a(2) [of q] that(3,4) u [of q] pick_first_max_mem [OF that(3)] unfolding fm by simp
  have 5: "sched_run switch s = None"
    if "pick_first_max t rs p" "t p = 0" "pick_first_max pr rs q" "pr q = 0"
  proof -
    have "pick_stuck now"
      unfolding pick_stuck_def using ts(1) that
      by (intro exI [of _ rs] exI [of _ p] exI [of _ q]) (simp add: now_def t_def pr_def)
    then have "sched_pick now = None" using sched_pick_Some_not_stuck by (cases "sched_pick now") auto
    then show ?thesis using run by simp
  qed
  from 1 2 3 4 5 show ?thesis by blast
qed

text \<open>Two running processes, 4 and 7 in this order, with times 0 and 0 and priorities 3 and 9.\<close>

definition two_running :: proc_kstate where
  "two_running = \<lparr>procs = (\<lambda>p. if p = 4 then zero_proc\<lparr>p_state := PROC_RUNNING, p_priority := 3, p_next_running := Some 7\<rparr>
       else if p = 7 then zero_proc\<lparr>p_state := PROC_RUNNING, p_priority := 9, p_prev_running := Some 4\<rparr> else zero_proc),
     proc_count = 64, proc_current = 4, proc_list_head = None, proc_list_tail = None, proc_running_list = Some 4,
     proc_free_list = None, proc_free_list_size = 0, proc_lock = \<lparr>locked = False, wanted = False\<rparr>,
     proc_lock_addr = 0x600, needs_resched = True, sleep_hash_table = (\<lambda>_. None),
     proc_gdt = (\<lambda>_. \<lparr>low_limit = 0, low_base = 0, low_flags = 0, hi_limit = 0, hi_flags = 0, hi_base = 0\<rparr>),
     tss_addr = (\<lambda>p. 0xC0200000 + 0x100 * of_nat p), kheap = boot_heap\<rparr>"

lemma two_running_inv: "run_inv two_running [4, 7]"
  by (auto simp: run_inv_def two_running_def dlist_def zero_proc_def)

theorem running_list_invariant_witness:
  "run_inv (proc_runnable 9 two_running) [9, 4, 7] \<and> run_inv (proc_not_runnable 7 PROC_SLEEPING two_running) [4]"
  using running_list_invariant [OF two_running_inv, of PROC_SLEEPING 9]
    running_list_invariant [OF two_running_inv, of PROC_SLEEPING 7] by simp

theorem sched_run_picks_witness:
  "\<exists>s. sched_run Some two_running = Some s \<and> proc_current s = 7 \<and> p_remaining (procs s 4) = 3 \<and>
    seg_base (proc_gdt s 5) = 0xC0200700"
proof -
  have p: "pick_first_max (\<lambda>p. p_remaining (procs two_running p)) [4, 7] 4"
    unfolding pick_first_max_def
    by (intro exI [of _ "[]"] exI [of _ "[7]"]) (simp add: two_running_def zero_proc_def)
  have q: "pick_first_max (\<lambda>p. p_priority (procs two_running p)) [4, 7] 7"
    unfolding pick_first_max_def
    by (intro exI [of _ "[4]"] exI [of _ "[]"]) (simp add: two_running_def zero_proc_def)
  have z: "p_remaining (procs two_running 4) = 0" "0 < p_priority (procs two_running 7)" "needs_resched two_running"
    "proc_current two_running = 4" "tss_addr two_running 7 = 0xC0200700"
    by (simp_all add: two_running_def zero_proc_def)
  have "sched_run Some two_running = turn_to Some 7 (recharge_all {4, 7} (two_running\<lparr>needs_resched := False\<rparr>))"
    using sched_run_picks [OF two_running_inv, of Some 4 7] p q z by simp
  moreover have "p_priority (procs two_running 4) = 3" by (simp add: two_running_def zero_proc_def)
  ultimately show ?thesis using z
    by (simp add: turn_to_def do_context_switch_def sched_set_tss_def set_tss_desc_def seg_base_def TSS_def
        sizeof_seg_desc_def recharge_all_def Let_def)
qed

end
