(* ===== verification/Sleep.thy ===== *)
theory Sleep
  imports Proc
begin

text \<open>
  Sleeping and waking, \<open>src/kernel/src/proc/sleep.c\<close>, and the use of the resource lock by
  \<open>src/kernel/src/proc/proc.c\<close>. A bucket of the hash table is a doubly linked list of sleeping
  processes. \<open>sleep\<close> calls \<open>sig_get\<close>, which can release processes, which takes the lock, which can
  sleep; so the part of \<open>sleep\<close> that an uninterruptible sleep runs comes first, and \<open>Signal\<close> holds the
  whole function.
\<close>

section \<open>Going to sleep\<close>

definition NUM_SLEEP_HASH_TABLE_BUCKETS :: nat where "NUM_SLEEP_HASH_TABLE_BUCKETS = 6"

definition TO_SLEEP_TABLE_HASH :: "u32 \<Rightarrow> nat" where
  "TO_SLEEP_TABLE_HASH addr = unat addr mod NUM_SLEEP_HASH_TABLE_BUCKETS"

definition sleep_insert :: "u32 \<Rightarrow> proc_kstate \<Rightarrow> proc_kstate" where
  "sleep_insert addr s =
     (let key = TO_SLEEP_TABLE_HASH addr; cur = proc_current s
      in case sleep_hash_table s key of
           None \<Rightarrow>
             (let s = s\<lparr>sleep_hash_table := (sleep_hash_table s)(key := Some cur)\<rparr>
              in upd_proc cur (\<lambda>x. x\<lparr>p_next_sleeping := None, p_prev_sleeping := None\<rparr>) s)
         | Some h \<Rightarrow>
             (let s = upd_proc cur (\<lambda>x. x\<lparr>p_prev_sleeping := None\<rparr>) s;
                  s = upd_proc cur (\<lambda>x. x\<lparr>p_next_sleeping := Some h\<rparr>) s;
                  s = upd_proc h (\<lambda>x. x\<lparr>p_prev_sleeping := Some cur\<rparr>) s
              in s\<lparr>sleep_hash_table := (sleep_hash_table s)(key := Some cur)\<rparr>))"

text \<open>From the state test to the call of the scheduler; the answer says whether the process slept.\<close>

definition sleep_core :: "switch \<Rightarrow> u32 \<Rightarrow> proc_inttype \<Rightarrow> proc_kstate \<Rightarrow> (bool \<times> proc_kstate) option" where
  "sleep_core switch addr st s =
     (if p_state (procs s (proc_current s)) = PROC_SLEEPING then Some (False, s)
      else do {
        let s = sleep_insert addr s;
        let cur = proc_current s;
        let s = upd_proc cur (\<lambda>x. x\<lparr>p_sleep_addr := addr\<rparr>) s;
        let s = (if st = PROC_UNINTERRUPTIBLE
                 then upd_proc cur (\<lambda>x. x\<lparr>p_flags := p_flags x OR PROC_FLAG_NOTINTERRUPT\<rparr>) s else s);
        let s = proc_not_runnable cur PROC_SLEEPING s;
        s \<leftarrow> sched_run switch s;
        Some (True, s)
      })"

section \<open>Waking\<close>

text \<open>\<open>wakeup\<close> walks a pointer to a pointer: the bucket, then \<open>next_sleeping\<close> fields.\<close>

datatype sleep_slot = Bucket nat | NextSleeping nat

fun read_sleep :: "sleep_slot \<Rightarrow> proc_kstate \<Rightarrow> nat option" where
  "read_sleep (Bucket k) s = sleep_hash_table s k"
| "read_sleep (NextSleeping p) s = p_next_sleeping (procs s p)"

definition wake_one :: "nat \<Rightarrow> proc_kstate \<Rightarrow> proc_kstate" where
  "wake_one p s =
     (let s = upd_proc p (\<lambda>x. x\<lparr>p_sleep_addr := 0\<rparr>) s;
          s = upd_proc p (\<lambda>x. x\<lparr>p_remaining := p_priority x\<rparr>) s;
          s = upd_proc p (\<lambda>x. x\<lparr>p_flags := p_flags x AND NOT PROC_FLAG_NOTINTERRUPT\<rparr>) s;
          s = proc_runnable p s
      in s\<lparr>needs_resched := True\<rparr>)"

definition sleep_unlink :: "nat \<Rightarrow> proc_kstate \<Rightarrow> proc_kstate" where
  "sleep_unlink p s =
     (let s = (case p_next_sleeping (procs s p) of
                 None \<Rightarrow> s
               | Some n \<Rightarrow> upd_proc n (\<lambda>x. x\<lparr>p_prev_sleeping := p_prev_sleeping (procs s p)\<rparr>) s)
      in case p_prev_sleeping (procs s p) of
           None \<Rightarrow> s
         | Some q \<Rightarrow> upd_proc q (\<lambda>x. x\<lparr>p_next_sleeping := p_next_sleeping (procs s p)\<rparr>) s)"

partial_function (option) wakeup_loop :: "u32 \<Rightarrow> nat \<Rightarrow> sleep_slot \<Rightarrow> proc_kstate \<Rightarrow> proc_kstate option" where
  "wakeup_loop addr key head s = (case read_sleep head s of
       None \<Rightarrow> Some s
     | Some p \<Rightarrow>
         if p_sleep_addr (procs s p) = addr then
           (let s = sleep_unlink p (wake_one p s)
            in if head = Bucket key
               then wakeup_loop addr key head
                 (s\<lparr>sleep_hash_table := (sleep_hash_table s)(key := p_next_sleeping (procs s p))\<rparr>)
               else (case read_sleep head s of
                       None \<Rightarrow> Some s
                     | Some q \<Rightarrow> wakeup_loop addr key (NextSleeping q) s))
         else wakeup_loop addr key (NextSleeping p) s)"

definition wakeup :: "u32 \<Rightarrow> proc_kstate \<Rightarrow> proc_kstate option" where
  "wakeup addr s = (let key = TO_SLEEP_TABLE_HASH addr in wakeup_loop addr key (Bucket key) s)"

definition sleep_init :: "proc_kstate \<Rightarrow> proc_kstate" where
  "sleep_init s = s\<lparr>proc_running_list := None, sleep_hash_table := (\<lambda>_. None)\<rparr>"

section \<open>The lock of the process table\<close>

partial_function (option) lock_proc :: "switch \<Rightarrow> proc_kstate \<Rightarrow> proc_kstate option" where
  "lock_proc switch s =
     (let (r, got) = lock_turn (proc_lock s); s = s\<lparr>proc_lock := r\<rparr>
      in if got then Some s
         else do {
           (_, s) \<leftarrow> sleep_core switch (proc_lock_addr s) PROC_UNINTERRUPTIBLE s;
           lock_proc switch s
         })"

definition unlock_proc :: "proc_kstate \<Rightarrow> proc_kstate option" where
  "unlock_proc s =
     (let (r, wake) = unlock_turn (proc_lock s); s = s\<lparr>proc_lock := r\<rparr>
      in if wake then wakeup (proc_lock_addr s) s else Some s)"

section \<open>The buckets\<close>

abbreviation snx :: "proc_kstate \<Rightarrow> nat \<Rightarrow> nat option" where
  "snx s \<equiv> \<lambda>p. p_next_sleeping (procs s p)"

abbreviation spv :: "proc_kstate \<Rightarrow> nat \<Rightarrow> nat option" where
  "spv s \<equiv> \<lambda>p. p_prev_sleeping (procs s p)"

text \<open>The invariant: each bucket is well linked, and holds sleeping processes whose address hashes to it.\<close>

definition sleep_inv :: "proc_kstate \<Rightarrow> (nat \<Rightarrow> nat list) \<Rightarrow> bool" where
  "sleep_inv s bs \<longleftrightarrow> (\<forall>k < NUM_SLEEP_HASH_TABLE_BUCKETS. dlist (snx s) (spv s) (sleep_hash_table s k) (bs k) \<and>
     (\<forall>p \<in> set (bs k). p_state (procs s p) = PROC_SLEEPING \<and> TO_SLEEP_TABLE_HASH (p_sleep_addr (procs s p)) = k))"

text \<open>A process without its list links.\<close>

definition core :: "proc \<Rightarrow> proc" where
  "core x = x\<lparr>p_prev_sleeping := None, p_next_sleeping := None, p_prev_running := None, p_next_running := None\<rparr>"

definition woken :: "proc \<Rightarrow> proc" where
  "woken x = x\<lparr>p_sleep_addr := 0, p_remaining := p_priority x,
     p_flags := p_flags x AND NOT PROC_FLAG_NOTINTERRUPT, p_state := PROC_RUNNING\<rparr>"

lemma core_eqD:
  "core x = core y \<Longrightarrow> p_state x = p_state y \<and> p_sleep_addr x = p_sleep_addr y"
proof -
  assume "core x = core y"
  then have "p_state (core x) = p_state (core y)" "p_sleep_addr (core x) = p_sleep_addr (core y)" by simp_all
  then show ?thesis by (simp add: core_def)
qed

text \<open>The running list operations leave the sleeping links and everything but the state alone.\<close>

lemma proc_runnable_other [simp]:
  "p_next_sleeping (procs (proc_runnable p s) x) = p_next_sleeping (procs s x)"
  "p_prev_sleeping (procs (proc_runnable p s) x) = p_prev_sleeping (procs s x)"
  "sleep_hash_table (proc_runnable p s) = sleep_hash_table s"
  "core (procs (proc_runnable p s) x) =
     (if x = p then core ((procs s p)\<lparr>p_state := PROC_RUNNING\<rparr>) else core (procs s x))"
proof -
  show "p_next_sleeping (procs (proc_runnable p s) x) = p_next_sleeping (procs s x)"
    "p_prev_sleeping (procs (proc_runnable p s) x) = p_prev_sleeping (procs s x)"
    "sleep_hash_table (proc_runnable p s) = sleep_hash_table s"
    by (auto simp: proc_runnable_def Let_def split: option.splits)
  have "(procs s p)\<lparr>p_state := PROC_RUNNING\<rparr> = procs s p" if "p_state (procs s p) = PROC_RUNNING"
    using that by (cases "procs s p") simp
  then show "core (procs (proc_runnable p s) x) =
     (if x = p then core ((procs s p)\<lparr>p_state := PROC_RUNNING\<rparr>) else core (procs s x))"
    by (auto simp: proc_runnable_def Let_def core_def split: option.splits)
qed

definition kframe :: "proc_kstate \<Rightarrow> proc_kstate \<Rightarrow> bool" where
  "kframe s t \<longleftrightarrow> (\<exists>f r n h. t = s\<lparr>procs := f, proc_running_list := r, needs_resched := n, sleep_hash_table := h\<rparr>)"

lemma kframeI: "t = s\<lparr>procs := procs t, proc_running_list := proc_running_list t,
     needs_resched := needs_resched t, sleep_hash_table := sleep_hash_table t\<rparr> \<Longrightarrow> kframe s t"
  unfolding kframe_def by blast

lemma kframe_refl [simp]: "kframe s s"
  by (rule kframeI) simp

lemma kframe_trans: "kframe s t \<Longrightarrow> kframe t u \<Longrightarrow> kframe s u"
  unfolding kframe_def by clarsimp blast

lemma kframe_upd [simp]: "kframe s (upd_proc p f s)"
  by (rule kframeI) (simp add: upd_proc_def)

lemma kframe_runnable: "kframe s (proc_runnable p s)"
  by (rule kframeI) (simp add: proc_runnable_def Let_def upd_proc_def split: option.splits)

lemma kframe_unlink: "kframe s (sleep_unlink p s)"
  by (rule kframeI) (simp add: sleep_unlink_def Let_def upd_proc_def split: option.splits)

lemma kframe_wake_one: "kframe s (wake_one p s)"
proof -
  let ?u = "upd_proc p (\<lambda>x. x\<lparr>p_flags := p_flags x AND NOT PROC_FLAG_NOTINTERRUPT\<rparr>)
    (upd_proc p (\<lambda>x. x\<lparr>p_remaining := p_priority x\<rparr>) (upd_proc p (\<lambda>x. x\<lparr>p_sleep_addr := 0\<rparr>) s))"
  have "kframe s ?u" by (rule kframe_trans [OF kframe_trans [OF kframe_upd kframe_upd] kframe_upd])
  moreover have "kframe ?u (proc_runnable p ?u)" by (rule kframe_runnable)
  moreover have "kframe (proc_runnable p ?u) (wake_one p s)"
    by (rule kframeI) (simp add: wake_one_def Let_def)
  ultimately show ?thesis by (blast intro: kframe_trans)
qed

text \<open>One wake-up: the process comes out of the bucket \<open>us @ p # vs\<close> and goes to the running list.\<close>

lemma wake_step:
  assumes "dlist (snx s) (spv s) h (us @ p # vs)" "run_inv s rs" "p_state (procs s p) = PROC_SLEEPING"
  defines "t \<equiv> sleep_unlink p (wake_one p s)"
  shows "dlist (snx t) (spv t) (if h = Some p then snx s p else h) (us @ vs)"
    and "run_inv t (p # rs)"
    and "core (procs t x) = (if x = p then core (woken (procs s p)) else core (procs s x))"
    and "x \<notin> set (us @ p # vs) \<Longrightarrow> snx t x = snx s x \<and> spv t x = spv s x"
    and "snx t p = snx s p" "sleep_hash_table t = sleep_hash_table s" "needs_resched t" "kframe s t"
proof -
  let ?w = "wake_one p s"
  have w: "snx ?w = snx s" "spv ?w = spv s" "sleep_hash_table ?w = sleep_hash_table s" "needs_resched ?w"
    by (auto simp: wake_one_def Let_def)
  have di: "distinct (us @ p # vs)" by (rule dlist_distinct [OF assms(1)])
  note nb = dlist_neighbours [OF assms(1)]
  have ne: "snx s p \<noteq> Some p" "spv s p \<noteq> Some p" using nb di by (auto split: if_splits)
  have wn: "p_next_sleeping (procs ?w y) = snx s y" "p_prev_sleeping (procs ?w y) = spv s y" for y
    using fun_cong [OF w(1), of y] fun_cong [OF w(2), of y] by auto
  have tn: "snx t = unlink_nx (snx s) (spv s) p" and tp: "spv t = unlink_pv (snx s) (spv s) p"
    using ne by (auto simp: t_def sleep_unlink_def Let_def wn unlink_nx_def unlink_pv_def fun_eq_iff split: option.splits)
  show "dlist (snx t) (spv t) (if h = Some p then snx s p else h) (us @ vs)"
    unfolding tn tp by (rule dlist_unlink [OF assms(1)])
  show "snx t x = snx s x \<and> spv t x = spv s x" if "x \<notin> set (us @ p # vs)"
    using unlink_outside [OF assms(1), of p x] that by (simp add: fun_cong [OF tn] fun_cong [OF tp])
  show "snx t p = snx s p"
    using ne by (auto simp: fun_cong [OF tn] unlink_nx_def split: option.splits)
  show "sleep_hash_table t = sleep_hash_table s" "needs_resched t"
    using w by (auto simp: t_def sleep_unlink_def Let_def split: option.splits)
  show "kframe s t" unfolding t_def by (rule kframe_trans [OF kframe_wake_one kframe_unlink])
  have cu: "core (procs t y) = core (procs ?w y)" for y
    by (auto simp: t_def sleep_unlink_def Let_def core_def split: option.splits)
  show "core (procs t x) = (if x = p then core (woken (procs s p)) else core (procs s x))"
    unfolding cu by (simp add: wake_one_def Let_def woken_def)
  show "run_inv t (p # rs)"
  proof -
    let ?u = "upd_proc p (\<lambda>x. x\<lparr>p_flags := p_flags x AND NOT PROC_FLAG_NOTINTERRUPT\<rparr>)
      (upd_proc p (\<lambda>x. x\<lparr>p_remaining := p_priority x\<rparr>) (upd_proc p (\<lambda>x. x\<lparr>p_sleep_addr := 0\<rparr>) s))"
    have ru: "run_inv ?u rs"
    proof -
      have "rnx ?u = rnx s" "rpv ?u = rpv s" "\<forall>x. p_state (procs ?u x) = p_state (procs s x)" by auto
      then show ?thesis using assms(2) unfolding run_inv_def by (simp add: fun_eq_iff)
    qed
    have "p \<notin> set rs" using assms(3) run_inv_running [OF assms(2), of p] by simp
    then have "run_inv (proc_runnable p ?u) (p # rs)" using proc_runnable_inv [OF ru, of p] by simp
    then have "run_inv ?w (p # rs)" by (simp add: wake_one_def Let_def run_inv_def)
    moreover have "rnx t = rnx ?w" "rpv t = rpv ?w" "\<forall>x. p_state (procs t x) = p_state (procs ?w x)"
      "proc_running_list t = proc_running_list ?w"
      by (auto simp: t_def sleep_unlink_def Let_def split: option.splits)
    ultimately show ?thesis unfolding run_inv_def by (simp add: fun_eq_iff)
  qed
qed

text \<open>What \<open>wakeup\<close> does to a bucket, \<open>m\<close> saying which processes sleep on the address: those left asleep
  and those woken. Behind a process that stays, the one after each woken process is passed over.\<close>

fun wake_tail :: "(nat \<Rightarrow> bool) \<Rightarrow> nat list \<Rightarrow> nat list \<times> nat list" where
  "wake_tail m [] = ([], [])"
| "wake_tail m [x] = (if m x then ([], [x]) else ([x], []))"
| "wake_tail m (x # y # ys) =
     (if m x then (let (k, w) = wake_tail m ys in (y # k, x # w))
      else (let (k, w) = wake_tail m (y # ys) in (x # k, w)))"

primrec wake_head :: "(nat \<Rightarrow> bool) \<Rightarrow> nat list \<Rightarrow> nat list \<times> nat list" where
  "wake_head m [] = ([], [])"
| "wake_head m (x # xs) =
     (if m x then (let (k, w) = wake_head m xs in (k, x # w))
      else (let (k, w) = wake_tail m xs in (x # k, w)))"

lemma wake_tail_set: "set (fst (wake_tail m xs)) \<union> set (snd (wake_tail m xs)) = set xs"
proof -
  have "x \<in> set (fst (wake_tail m xs)) \<or> x \<in> set (snd (wake_tail m xs)) \<longleftrightarrow> x \<in> set xs" for x
    by (induction m xs rule: wake_tail.induct) (simp_all add: Let_def case_prod_beta, blast+)
  then show ?thesis by blast
qed

lemma wake_tail_cong: "(\<And>x. x \<in> set l \<Longrightarrow> f x = g x) \<Longrightarrow> wake_tail f l = wake_tail g l"
  by (induction f l rule: wake_tail.induct) (simp_all add: Let_def case_prod_beta)

lemma wake_head_set: "set (fst (wake_head m xs)) \<union> set (snd (wake_head m xs)) = set xs"
proof (induction xs)
  case (Cons x xs)
  then show ?case using wake_tail_set [of m xs] by (auto simp: Let_def split: prod.splits)
qed simp

lemma wake_tail_woken: "x \<in> set (snd (wake_tail m xs)) \<Longrightarrow> m x"
  by (induction m xs rule: wake_tail.induct) (auto simp: Let_def case_prod_beta split: if_split_asm)

lemma wake_head_woken: "x \<in> set (snd (wake_head m xs)) \<Longrightarrow> m x"
proof (induction xs)
  case (Cons y xs)
  then show ?case using wake_tail_woken [of x m xs] by (auto simp: Let_def case_prod_beta split: if_split_asm)
qed simp

text \<open>The result of a wake-up walk that leaves \<open>l\<close> in the bucket and wakes \<open>w\<close>, out of the processes \<open>A\<close>.\<close>

definition waked :: "proc_kstate \<Rightarrow> proc_kstate \<Rightarrow> nat \<Rightarrow> nat set \<Rightarrow> nat list \<Rightarrow> nat list \<Rightarrow> nat list \<Rightarrow> bool" where
  "waked s t k A l w rs \<longleftrightarrow> dlist (snx t) (spv t) (sleep_hash_table t k) l \<and> run_inv t (rev w @ rs) \<and>
     (\<forall>x. core (procs t x) = (if x \<in> set w then core (woken (procs s x)) else core (procs s x))) \<and>
     (\<forall>x. x \<notin> A \<longrightarrow> snx t x = snx s x \<and> spv t x = spv s x) \<and>
     (\<forall>j. j \<noteq> k \<longrightarrow> sleep_hash_table t j = sleep_hash_table s j) \<and> kframe s t \<and>
     needs_resched t = (needs_resched s \<or> w \<noteq> [])"

lemma core_woken: "core x = core y \<Longrightarrow> core (woken x) = core (woken y)"
proof -
  assume a: "core x = core y"
  have c: "core (woken z) = woken (core z)" for z by (simp add: core_def woken_def)
  show ?thesis unfolding c a ..
qed

lemma waked_step:
  assumes "run_inv s rs" "p \<notin> set w" "p_state (procs s p) = PROC_SLEEPING"
    and step: "run_inv t (p # rs)" "\<And>x. core (procs t x) = (if x = p then core (woken (procs s p)) else core (procs s x))"
      "\<And>x. x \<notin> A \<Longrightarrow> snx t x = snx s x \<and> spv t x = spv s x"
      "\<And>j. j \<noteq> k \<Longrightarrow> sleep_hash_table t j = sleep_hash_table s j" "needs_resched t" "kframe s t"
    and rest: "waked t u k A l w (p # rs)"
  shows "waked s u k A l (p # w) rs"
proof -
  have "core (procs u x) = (if x \<in> set (p # w) then core (woken (procs s x)) else core (procs s x))" for x
  proof (cases "x = p")
    case True
    then show ?thesis using rest step(2) [of p] assms(2) by (simp add: waked_def)
  next
    case False
    then have "core (procs t x) = core (procs s x)" using step(2) [of x] by simp
    then show ?thesis using rest False core_woken [of "procs t x" "procs s x"] by (simp add: waked_def)
  qed
  moreover have "kframe s u" using step(6) rest by (auto simp: waked_def intro: kframe_trans)
  ultimately show ?thesis using step(3,4,5) rest unfolding waked_def by simp
qed

lemma wakeup_tail:
  assumes "dlist (snx s) (spv s) (sleep_hash_table s k) (us @ q # xs)" "run_inv s rs"
    "\<forall>p \<in> set xs. p_state (procs s p) = PROC_SLEEPING"
  shows "\<exists>t. wakeup_loop addr k (NextSleeping q) s = Some t \<and>
    waked s t k (set (us @ q # xs)) (us @ q # fst (wake_tail (\<lambda>p. p_sleep_addr (procs s p) = addr) xs))
      (snd (wake_tail (\<lambda>p. p_sleep_addr (procs s p) = addr) xs)) rs"
  using assms
proof (induction "length xs" arbitrary: us q xs s rs rule: less_induct)
  case less
  let ?m = "\<lambda>p. p_sleep_addr (procs s p) = addr"
  have nq: "snx s q = (if xs = [] then None else Some (hd xs))"
    using dlist_neighbours(2) [OF less.prems(1)] by simp
  have di: "distinct (us @ q # xs)" by (rule dlist_distinct [OF less.prems(1)])
  show ?case
  proof (cases xs)
    case Nil
    then have "wakeup_loop addr k (NextSleeping q) s = Some s" using nq by (simp add: wakeup_loop.simps)
    then show ?thesis using Nil less.prems by (simp add: waked_def)
  next
    case (Cons p ys)
    have r: "read_sleep (NextSleeping q) s = Some p" using nq Cons by simp
    show ?thesis
    proof (cases "?m p")
      case False
      have l: "dlist (snx s) (spv s) (sleep_hash_table s k) ((us @ [q]) @ p # ys)" using less.prems(1) Cons by simp
      obtain t where t: "wakeup_loop addr k (NextSleeping p) s = Some t"
        "waked s t k (set ((us @ [q]) @ p # ys)) ((us @ [q]) @ p # fst (wake_tail ?m ys)) (snd (wake_tail ?m ys)) rs"
        using less.hyps [OF _ l less.prems(2)] less.prems(3) Cons by auto
      have "wakeup_loop addr k (NextSleeping q) s = Some t"
        using r False t(1) by (subst wakeup_loop.simps) simp
      moreover have "wake_tail ?m xs = (p # fst (wake_tail ?m ys), snd (wake_tail ?m ys))"
        using False Cons by (cases ys) (auto simp: Let_def split: prod.split)
      ultimately show ?thesis using t(2) Cons by simp
    next
      case True
      let ?t = "sleep_unlink p (wake_one p s)"
      have l: "dlist (snx s) (spv s) (sleep_hash_table s k) ((us @ [q]) @ p # ys)" using less.prems(1) Cons by simp
      have st: "p_state (procs s p) = PROC_SLEEPING" using less.prems(3) Cons by simp
      note ws = wake_step [OF l less.prems(2) st]
      have hp: "sleep_hash_table s k \<noteq> Some p"
        using dlist_head [OF less.prems(1)] di Cons by (cases us) auto
      have lt: "dlist (snx ?t) (spv ?t) (sleep_hash_table ?t k) (us @ q # ys)" using ws(1) hp ws(6) by simp
      have nt: "snx ?t q = (if ys = [] then None else Some (hd ys))"
        using dlist_neighbours(2) [OF lt] by simp
      have same: "p_sleep_addr (procs ?t x) = p_sleep_addr (procs s x)" "p_state (procs ?t x) = p_state (procs s x)"
        if "x \<noteq> p" for x using ws(3) [of x] that core_eqD [of "procs ?t x" "procs s x"] by auto
      have out: "snx ?t x = snx s x \<and> spv ?t x = spv s x" if "x \<notin> set (us @ q # xs)" for x
        using ws(4) [of x] that Cons by simp
      show ?thesis
      proof (cases ys)
        case Nil
        have "wakeup_loop addr k (NextSleeping q) s = Some ?t"
          using r True nt Nil by (subst wakeup_loop.simps) (simp add: Let_def)
        moreover have "waked s ?t k (set (us @ q # xs)) (us @ [q]) [p] rs"
          using lt ws(2,3,6,7,8) out Nil unfolding waked_def by auto
        ultimately show ?thesis using True Cons Nil by simp
      next
        case (Cons z zs)
        have l2: "dlist (snx ?t) (spv ?t) (sleep_hash_table ?t k) ((us @ [q]) @ z # zs)" using lt Cons by simp
        have zs: "\<forall>x \<in> set zs. x \<noteq> p" using di \<open>xs = p # ys\<close> Cons by auto
        have sl: "\<forall>x \<in> set zs. p_state (procs ?t x) = PROC_SLEEPING"
          using less.prems(3) \<open>xs = p # ys\<close> Cons zs same by auto
        have wt: "wake_tail (\<lambda>p. p_sleep_addr (procs ?t p) = addr) zs = wake_tail ?m zs"
          by (rule wake_tail_cong) (use zs same in simp)
        have "length zs < length xs" using \<open>xs = p # ys\<close> Cons by simp
        from less.hyps [OF this l2 ws(2) sl] obtain u where u: "wakeup_loop addr k (NextSleeping z) ?t = Some u"
          "waked ?t u k (set ((us @ [q]) @ z # zs)) ((us @ [q]) @ z # fst (wake_tail ?m zs)) (snd (wake_tail ?m zs)) (p # rs)"
          unfolding wt by blast
        have "wakeup_loop addr k (NextSleeping q) s = Some u"
          using r True nt Cons u(1) by (subst wakeup_loop.simps) (simp add: Let_def)
        moreover have "waked s u k (set (us @ q # xs)) (us @ q # z # fst (wake_tail ?m zs)) (p # snd (wake_tail ?m zs)) rs"
        proof (rule waked_step [OF less.prems(2) _ st ws(2,3)])
          show "p \<notin> set (snd (wake_tail ?m zs))" using zs wake_tail_set [of ?m zs] by blast
          show "waked ?t u k (set (us @ q # xs)) (us @ q # z # fst (wake_tail ?m zs)) (snd (wake_tail ?m zs)) (p # rs)"
            using u(2) Cons \<open>xs = p # ys\<close> unfolding waked_def by simp
        qed (use ws(6,7,8) out in simp_all)
        moreover have "wake_tail ?m xs = (z # fst (wake_tail ?m zs), p # snd (wake_tail ?m zs))"
          using True \<open>xs = p # ys\<close> Cons by (simp add: Let_def split: prod.split)
        ultimately show ?thesis by simp
      qed
    qed
  qed
qed

lemma wake_head_cong: "(\<And>x. x \<in> set l \<Longrightarrow> f x = g x) \<Longrightarrow> wake_head f l = wake_head g l"
proof (induction l)
  case (Cons a l)
  then show ?case using wake_tail_cong [of l f g] by simp
qed simp

lemma wakeup_head:
  assumes "dlist (snx s) (spv s) (sleep_hash_table s k) xs" "run_inv s rs"
    "\<forall>p \<in> set xs. p_state (procs s p) = PROC_SLEEPING"
  shows "\<exists>t. wakeup_loop addr k (Bucket k) s = Some t \<and>
    waked s t k (set xs) (fst (wake_head (\<lambda>p. p_sleep_addr (procs s p) = addr) xs))
      (snd (wake_head (\<lambda>p. p_sleep_addr (procs s p) = addr) xs)) rs"
  using assms
proof (induction xs arbitrary: s rs)
  case Nil
  then show ?case by (simp add: wakeup_loop.simps waked_def)
next
  case (Cons p ys)
  let ?m = "\<lambda>p. p_sleep_addr (procs s p) = addr"
  have h: "sleep_hash_table s k = Some p" using dlist_head [OF Cons.prems(1)] by simp
  have di: "distinct (p # ys)" by (rule dlist_distinct [OF Cons.prems(1)])
  show ?case
  proof (cases "?m p")
    case False
    have "dlist (snx s) (spv s) (sleep_hash_table s k) ([] @ p # ys)" using Cons.prems(1) by simp
    from wakeup_tail [OF this Cons.prems(2), of addr] Cons.prems(3)
    obtain t where t: "wakeup_loop addr k (NextSleeping p) s = Some t"
      "waked s t k (set (p # ys)) (p # fst (wake_tail ?m ys)) (snd (wake_tail ?m ys)) rs" by auto
    have "wakeup_loop addr k (Bucket k) s = Some t" using h False t(1) by (subst wakeup_loop.simps) simp
    then show ?thesis using t(2) False by (simp add: case_prod_beta Let_def)
  next
    case True
    let ?t = "sleep_unlink p (wake_one p s)"
    let ?u = "?t\<lparr>sleep_hash_table := (sleep_hash_table ?t)(k := snx ?t p)\<rparr>"
    have l: "dlist (snx s) (spv s) (sleep_hash_table s k) ([] @ p # ys)" using Cons.prems(1) by simp
    have st: "p_state (procs s p) = PROC_SLEEPING" using Cons.prems(3) by simp
    note ws = wake_step [OF l Cons.prems(2) st]
    have lu: "dlist (snx ?u) (spv ?u) (sleep_hash_table ?u k) ys" using ws(1,5) h by simp
    have ru: "run_inv ?u (p # rs)" using ws(2) by (simp add: run_inv_def)
    have same: "p_sleep_addr (procs ?t x) = p_sleep_addr (procs s x)" "p_state (procs ?t x) = p_state (procs s x)"
      if "x \<noteq> p" for x using ws(3) [of x] that core_eqD [of "procs ?t x" "procs s x"] by auto
    have ys: "\<forall>x \<in> set ys. x \<noteq> p" using di by auto
    have sl: "\<forall>x \<in> set ys. p_state (procs ?u x) = PROC_SLEEPING" using Cons.prems(3) ys same by simp
    have wh: "wake_head (\<lambda>p. p_sleep_addr (procs ?u p) = addr) ys = wake_head ?m ys"
      by (rule wake_head_cong) (use ys same in simp)
    obtain v where v: "wakeup_loop addr k (Bucket k) ?u = Some v"
      "waked ?u v k (set ys) (fst (wake_head ?m ys)) (snd (wake_head ?m ys)) (p # rs)"
      using Cons.IH [OF lu ru sl] unfolding wh by blast
    have "wakeup_loop addr k (Bucket k) s = Some v"
      using h True v(1) by (subst wakeup_loop.simps) (simp add: Let_def)
    moreover have "waked s v k (set (p # ys)) (fst (wake_head ?m ys)) (p # snd (wake_head ?m ys)) rs"
    proof (rule waked_step [OF Cons.prems(2) _ st ru])
      show "p \<notin> set (snd (wake_head ?m ys))" using ys wake_head_set [of ?m ys] by blast
      show "core (procs ?u x) = (if x = p then core (woken (procs s p)) else core (procs s x))" for x
        using ws(3) [of x] by simp
      show "snx ?u x = snx s x \<and> spv ?u x = spv s x" if "x \<notin> set (p # ys)" for x
        using ws(4) [of x] that by simp
      show "kframe s ?u" using ws(8) by (rule kframe_trans) (simp add: kframeI)
      show "waked ?u v k (set (p # ys)) (fst (wake_head ?m ys)) (snd (wake_head ?m ys)) (p # rs)"
        using v(2) unfolding waked_def by simp
    qed (use ws(6,7) in simp_all)
    ultimately show ?thesis using True by (simp add: case_prod_beta Let_def)
  qed
qed

lemma wake_sub:
  "set (fst (wake_tail m xs)) \<subseteq> set xs" "set (snd (wake_tail m xs)) \<subseteq> set xs"
  "set (fst (wake_head m xs)) \<subseteq> set xs" "set (snd (wake_head m xs)) \<subseteq> set xs"
  by (subst wake_tail_set [of m xs, symmetric], rule Un_upper1)
    (subst wake_tail_set [of m xs, symmetric], rule Un_upper2,
     subst wake_head_set [of m xs, symmetric], rule Un_upper1,
     subst wake_head_set [of m xs, symmetric], rule Un_upper2)

lemma wake_tail_distinct:
  "distinct xs \<Longrightarrow> x \<in> set (fst (wake_tail m xs)) \<Longrightarrow> x \<notin> set (snd (wake_tail m xs))"
proof (induction m xs rule: wake_tail.induct)
  case (3 m y z ys)
  then show ?case using subsetD [OF wake_sub(1) [of m ys]] subsetD [OF wake_sub(2) [of m ys]]
      subsetD [OF wake_sub(1) [of m "z # ys"]] subsetD [OF wake_sub(2) [of m "z # ys"]]
    by (cases "m y") (auto simp: Let_def case_prod_beta)
qed (simp_all split: if_splits)

lemma wake_head_distinct:
  "distinct xs \<Longrightarrow> x \<in> set (fst (wake_head m xs)) \<Longrightarrow> x \<notin> set (snd (wake_head m xs))"
proof (induction xs)
  case (Cons y xs)
  then show ?case using wake_tail_distinct [of xs x m]
      subsetD [OF wake_sub(2) [of m xs]] subsetD [OF wake_sub(3) [of m xs]]
    by (cases "m y") (auto simp: Let_def case_prod_beta)
qed simp

lemma wake_head_all: "\<forall>x \<in> set xs. m x \<Longrightarrow> wake_head m xs = ([], xs)"
  by (induction xs) auto

lemma TO_SLEEP_TABLE_HASH_less: "TO_SLEEP_TABLE_HASH addr < NUM_SLEEP_HASH_TABLE_BUCKETS"
  by (simp add: TO_SLEEP_TABLE_HASH_def NUM_SLEEP_HASH_TABLE_BUCKETS_def)

lemma wakeup_inv:
  fixes addr :: u32
  assumes "sleep_inv s bs" "run_inv s rs"
  defines "k \<equiv> TO_SLEEP_TABLE_HASH addr" and "m \<equiv> \<lambda>p. p_sleep_addr (procs s p) = addr"
  shows "\<exists>t. wakeup addr s = Some t \<and> sleep_inv t (bs(k := fst (wake_head m (bs k)))) \<and>
    run_inv t (rev (snd (wake_head m (bs k))) @ rs) \<and>
    (\<forall>x. core (procs t x) = (if x \<in> set (snd (wake_head m (bs k))) then core (woken (procs s x)) else core (procs s x))) \<and>
    needs_resched t = (needs_resched s \<or> snd (wake_head m (bs k)) \<noteq> []) \<and> kframe s t"
proof -
  have k: "k < NUM_SLEEP_HASH_TABLE_BUCKETS" unfolding k_def by (rule TO_SLEEP_TABLE_HASH_less)
  have bk: "dlist (snx s) (spv s) (sleep_hash_table s k) (bs k)" "\<forall>p \<in> set (bs k). p_state (procs s p) = PROC_SLEEPING"
    using assms(1) k by (auto simp: sleep_inv_def)
  let ?l = "fst (wake_head m (bs k))" and ?w = "snd (wake_head m (bs k))"
  obtain t where t: "wakeup_loop addr k (Bucket k) s = Some t" "waked s t k (set (bs k)) ?l ?w rs"
    using wakeup_head [OF bk(1) assms(2) bk(2)] unfolding m_def by blast
  have un: "p_state (procs t x) = p_state (procs s x) \<and> p_sleep_addr (procs t x) = p_sleep_addr (procs s x)"
    if "x \<notin> set ?w" for x using t(2) that core_eqD [of "procs t x" "procs s x"] by (simp add: waked_def)
  have "dlist (snx t) (spv t) (sleep_hash_table t j) ((bs(k := ?l)) j) \<and>
     (\<forall>p \<in> set ((bs(k := ?l)) j). p_state (procs t p) = PROC_SLEEPING \<and> TO_SLEEP_TABLE_HASH (p_sleep_addr (procs t p)) = j)"
    if j: "j < NUM_SLEEP_HASH_TABLE_BUCKETS" for j
  proof (cases "j = k")
    case True
    have "x \<notin> set ?w" "x \<in> set (bs k)" if "x \<in> set ?l" for x
      using that wake_head_distinct [OF dlist_distinct [OF bk(1)]] wake_sub(3) [of m "bs k"] by blast+
    then show ?thesis using True t(2) un assms(1) k by (auto simp: waked_def sleep_inv_def)
  next
    case False
    have bj: "dlist (snx s) (spv s) (sleep_hash_table s j) (bs j)"
      "\<forall>p \<in> set (bs j). p_state (procs s p) = PROC_SLEEPING \<and> TO_SLEEP_TABLE_HASH (p_sleep_addr (procs s p)) = j"
      using assms(1) j by (auto simp: sleep_inv_def)
    have o: "x \<notin> set (bs k)" if "x \<in> set (bs j)" for x
      using that bj(2) assms(1) k False by (auto simp: sleep_inv_def)
    then have w: "x \<notin> set ?w" if "x \<in> set (bs j)" for x using that wake_head_set [of m "bs k"] by blast
    have "dlist (snx t) (spv t) (sleep_hash_table s j) (bs j)"
      using bj(1) t(2) o dlist_cong [of "bs j" "snx s" "snx t" "spv s" "spv t"] by (simp add: waked_def)
    then show ?thesis using False t(2) un w bj(2) by (simp add: waked_def)
  qed
  then have "sleep_inv t (bs(k := ?l))" unfolding sleep_inv_def by blast
  moreover have "wakeup addr s = Some t" using t(1) by (simp add: wakeup_def k_def)
  ultimately show ?thesis using t(2) unfolding waked_def by blast
qed

text \<open>C31: \<open>wakeup\<close> returns, keeps all buckets and the running list well formed, makes the processes
  that it wakes run, each with its whole time slice, no address to sleep on and without the
  uninterruptible mark, and touches no other process; it wakes only processes that sleep on the address,
  and all of them if the bucket holds no others. In a bucket that also holds a process
  asleep on another address it can pass over some: \<^const>\<open>wake_head\<close> says which.\<close>

theorem wakeup_wakes:
  fixes addr :: u32
  assumes "sleep_inv s bs" "run_inv s rs"
  defines "k \<equiv> TO_SLEEP_TABLE_HASH addr" and "m \<equiv> \<lambda>p. p_sleep_addr (procs s p) = addr"
  shows "\<exists>t. wakeup addr s = Some t \<and> sleep_inv t (bs(k := fst (wake_head m (bs k)))) \<and>
    run_inv t (rev (snd (wake_head m (bs k))) @ rs) \<and>
    (\<forall>x. core (procs t x) = (if x \<in> set (snd (wake_head m (bs k))) then core (woken (procs s x)) else core (procs s x))) \<and>
    (\<forall>x \<in> set (snd (wake_head m (bs k))). m x) \<and>
    ((\<forall>x \<in> set (bs k). m x) \<longrightarrow> snd (wake_head m (bs k)) = bs k)"
proof -
  obtain t where "wakeup addr s = Some t" "sleep_inv t (bs(k := fst (wake_head m (bs k))))"
    "run_inv t (rev (snd (wake_head m (bs k))) @ rs)"
    "\<forall>x. core (procs t x) = (if x \<in> set (snd (wake_head m (bs k))) then core (woken (procs s x)) else core (procs s x))"
    using wakeup_inv [OF assms(1,2), of addr] unfolding k_def m_def by blast
  moreover have "\<forall>x \<in> set (snd (wake_head m (bs k))). m x" using wake_head_woken by blast
  moreover have "(\<forall>x \<in> set (bs k). m x) \<longrightarrow> snd (wake_head m (bs k)) = bs k" by (simp add: wake_head_all)
  ultimately show ?thesis by blast
qed

text \<open>Three processes in bucket 0: 5 sleeps on another address than 6 and 8.\<close>

definition three_sleepers :: proc_kstate where
  "three_sleepers = two_running\<lparr>sleep_hash_table := (\<lambda>_. None)(0 := Some 5), procs := (procs two_running)
     (5 := zero_proc\<lparr>p_state := PROC_SLEEPING, p_sleep_addr := 0x606, p_next_sleeping := Some 6\<rparr>,
      6 := zero_proc\<lparr>p_state := PROC_SLEEPING, p_sleep_addr := 0x600, p_prev_sleeping := Some 5, p_next_sleeping := Some 8\<rparr>,
      8 := zero_proc\<lparr>p_state := PROC_SLEEPING, p_sleep_addr := 0x600, p_prev_sleeping := Some 6\<rparr>)\<rparr>"

lemma three_sleepers_inv:
  "sleep_inv three_sleepers (\<lambda>k. if k = 0 then [5, 6, 8] else [])" "run_inv three_sleepers [4, 7]"
  by (auto simp: sleep_inv_def run_inv_def three_sleepers_def two_running_def dlist_def zero_proc_def
      TO_SLEEP_TABLE_HASH_def NUM_SLEEP_HASH_TABLE_BUCKETS_def)

theorem wakeup_wakes_witness:
  "\<exists>t. wakeup 0x600 three_sleepers = Some t \<and> run_inv t [6, 4, 7] \<and>
    core (procs t 8) = core (procs three_sleepers 8)"
proof -
  have k: "TO_SLEEP_TABLE_HASH 0x600 = 0"
    by (simp add: TO_SLEEP_TABLE_HASH_def NUM_SLEEP_HASH_TABLE_BUCKETS_def)
  have m: "p_sleep_addr (procs three_sleepers 5) \<noteq> 0x600" "p_sleep_addr (procs three_sleepers 6) = 0x600"
    "p_sleep_addr (procs three_sleepers 8) = 0x600"
    by (simp_all add: three_sleepers_def zero_proc_def)
  show ?thesis
    using wakeup_wakes [OF three_sleepers_inv, of "0x600"] m by (auto simp: k)
qed

section \<open>Falling asleep\<close>

lemma proc_not_runnable_other [simp]:
  "p_next_sleeping (procs (proc_not_runnable p st s) x) = p_next_sleeping (procs s x)"
  "p_prev_sleeping (procs (proc_not_runnable p st s) x) = p_prev_sleeping (procs s x)"
  "sleep_hash_table (proc_not_runnable p st s) = sleep_hash_table s"
  "core (procs (proc_not_runnable p st s) x) =
     (if x = p then core ((procs s p)\<lparr>p_state := st\<rparr>) else core (procs s x))"
  by (auto simp: proc_not_runnable_def Let_def core_def split: option.splits)

lemma sleep_insert_bucket:
  assumes "dlist (snx s) (spv s) (sleep_hash_table s k) xs" "proc_current s \<notin> set xs" "k = TO_SLEEP_TABLE_HASH addr"
  shows "dlist (snx (sleep_insert addr s)) (spv (sleep_insert addr s)) (sleep_hash_table (sleep_insert addr s) k)
      (proc_current s # xs)"
    "core (procs (sleep_insert addr s) x) = core (procs s x)"
    "x \<notin> set (proc_current s # xs) \<Longrightarrow> snx (sleep_insert addr s) x = snx s x \<and> spv (sleep_insert addr s) x = spv s x"
    "j \<noteq> k \<Longrightarrow> sleep_hash_table (sleep_insert addr s) j = sleep_hash_table s j"
    "rnx (sleep_insert addr s) = rnx s" "rpv (sleep_insert addr s) = rpv s"
    "proc_running_list (sleep_insert addr s) = proc_running_list s"
    "proc_current (sleep_insert addr s) = proc_current s"
proof -
  let ?c = "proc_current s" and ?t = "sleep_insert addr s"
  show "dlist (snx ?t) (spv ?t) (sleep_hash_table ?t k) (?c # xs)"
  proof (cases "sleep_hash_table s k")
    case None
    then have "xs = []" using assms(1) by simp
    then show ?thesis using None assms(3) by (simp add: sleep_insert_def Let_def dlist_push_Nil)
  next
    case (Some h)
    have "h \<in> set xs" using assms(1) Some by (simp add: dlist_head_in)
    then have hc: "h \<noteq> ?c" using assms(2) by auto
    have h: "sleep_hash_table ?t k = Some ?c" using Some assms(3) by (simp add: sleep_insert_def Let_def)
    have n: "snx ?t = (snx s)(?c := Some h)"
      by (rule ext) (use Some assms(3) hc in \<open>simp add: sleep_insert_def Let_def\<close>)
    have v: "spv ?t ?c = None" "spv ?t h = Some ?c" "\<And>x. x \<noteq> ?c \<Longrightarrow> x \<noteq> h \<Longrightarrow> spv ?t x = spv s x"
      using Some assms(3) hc by (simp_all add: sleep_insert_def Let_def)
    show ?thesis unfolding h
      by (rule dlist_push_Cons [of "snx s" "spv s" h xs]) (use assms Some n v in simp_all)
  qed
  show "core (procs ?t x) = core (procs s x)"
    by (auto simp: sleep_insert_def Let_def core_def split: option.splits)
  show "snx ?t x = snx s x \<and> spv ?t x = spv s x" if "x \<notin> set (?c # xs)"
  proof -
    have "x \<noteq> h" if "sleep_hash_table s k = Some h" for h
      using that assms(1) \<open>x \<notin> set (?c # xs)\<close> by (auto dest: dlist_head_in)
    then show ?thesis using that assms(3) by (auto simp: sleep_insert_def Let_def split: option.splits)
  qed
  show "j \<noteq> k \<Longrightarrow> sleep_hash_table ?t j = sleep_hash_table s j" "rnx ?t = rnx s" "rpv ?t = rpv s"
    "proc_running_list ?t = proc_running_list s" "proc_current ?t = proc_current s"
    using assms(3) by (auto simp: sleep_insert_def Let_def fun_eq_iff split: option.splits)
qed

text \<open>The state in which a process that goes to sleep calls the scheduler.\<close>

definition falling_asleep :: "u32 \<Rightarrow> proc_inttype \<Rightarrow> proc_kstate \<Rightarrow> proc_kstate" where
  "falling_asleep addr st s =
     (let s = sleep_insert addr s; cur = proc_current s;
          s = upd_proc cur (\<lambda>x. x\<lparr>p_sleep_addr := addr\<rparr>) s;
          s = (if st = PROC_UNINTERRUPTIBLE
               then upd_proc cur (\<lambda>x. x\<lparr>p_flags := p_flags x OR PROC_FLAG_NOTINTERRUPT\<rparr>) s else s)
      in proc_not_runnable cur PROC_SLEEPING s)"

lemma falling_asleep_inv:
  fixes addr :: u32 and st :: proc_inttype
  assumes "sleep_inv s bs" "run_inv s rs" "p_state (procs s (proc_current s)) \<noteq> PROC_SLEEPING"
  defines "k \<equiv> TO_SLEEP_TABLE_HASH addr" and "c \<equiv> proc_current s" and "u \<equiv> falling_asleep addr st s"
  shows "sleep_inv u (bs(k := c # bs k))" "run_inv u (remove1 c rs)"
    "core (procs u x) = (if x = c then core ((procs s c)\<lparr>p_sleep_addr := addr,
       p_flags := (if st = PROC_UNINTERRUPTIBLE then p_flags (procs s c) OR PROC_FLAG_NOTINTERRUPT else p_flags (procs s c)),
       p_state := PROC_SLEEPING\<rparr>)
     else core (procs s x))"
proof -
  let ?i = "sleep_insert addr s"
  let ?v = "upd_proc c (\<lambda>x. x\<lparr>p_sleep_addr := addr\<rparr>) ?i"
  let ?w = "if st = PROC_UNINTERRUPTIBLE then upd_proc c (\<lambda>x. x\<lparr>p_flags := p_flags x OR PROC_FLAG_NOTINTERRUPT\<rparr>) ?v else ?v"
  have k: "k < NUM_SLEEP_HASH_TABLE_BUCKETS" unfolding k_def by (rule TO_SLEEP_TABLE_HASH_less)
  have nb: "c \<notin> set (bs j)" if "j < NUM_SLEEP_HASH_TABLE_BUCKETS" for j
    using assms(1,3) that unfolding sleep_inv_def c_def by blast
  have bk: "dlist (snx s) (spv s) (sleep_hash_table s k) (bs k)" using assms(1) k by (simp add: sleep_inv_def)
  have ke: "k = TO_SLEEP_TABLE_HASH addr" by (simp add: k_def)
  note si = sleep_insert_bucket [OF bk nb [OF k, unfolded c_def] ke, folded c_def]
  have u: "u = proc_not_runnable c PROC_SLEEPING ?w" unfolding u_def falling_asleep_def Let_def si(8) c_def ..
  have w: "snx ?w = snx ?i" "spv ?w = spv ?i" "rnx ?w = rnx s" "rpv ?w = rpv s"
    "sleep_hash_table ?w = sleep_hash_table ?i" "proc_running_list ?w = proc_running_list s"
    using si(5,6,7) by (auto simp: fun_eq_iff)
  have st0: "p_state (procs ?i x) = p_state (procs s x)" "p_sleep_addr (procs ?i x) = p_sleep_addr (procs s x)" for x
    using core_eqD [OF si(2) [of x]] by auto
  have "run_inv ?w rs" using assms(2) w st0 unfolding run_inv_def by (auto simp: fun_eq_iff)
  then show "run_inv u (remove1 c rs)" unfolding u by (rule proc_not_runnable_inv) simp
  have c1: "core ((procs ?i c)\<lparr>p_sleep_addr := a, p_flags := f, p_state := q\<rparr>) = core ((procs s c)\<lparr>p_sleep_addr := a, p_flags := f, p_state := q\<rparr>)"
    "p_flags (procs ?i c) = p_flags (procs s c)" for a f q
  proof -
    have e: "core (y\<lparr>p_sleep_addr := a, p_flags := f, p_state := q\<rparr>) = (core y)\<lparr>p_sleep_addr := a, p_flags := f, p_state := q\<rparr>" for y
      by (simp add: core_def)
    show "core ((procs ?i c)\<lparr>p_sleep_addr := a, p_flags := f, p_state := q\<rparr>) = core ((procs s c)\<lparr>p_sleep_addr := a, p_flags := f, p_state := q\<rparr>)"
      unfolding e si(2) ..
    have "p_flags (core (procs ?i c)) = p_flags (core (procs s c))" by (simp only: si(2))
    then show "p_flags (procs ?i c) = p_flags (procs s c)" by (simp add: core_def)
  qed
  have c2: "core ((procs ?i c)\<lparr>p_sleep_addr := a, p_state := q\<rparr>) = core ((procs s c)\<lparr>p_sleep_addr := a, p_state := q\<rparr>)" for a q
  proof -
    have e: "core (y\<lparr>p_sleep_addr := a, p_state := q\<rparr>) = (core y)\<lparr>p_sleep_addr := a, p_state := q\<rparr>" for y
      by (simp add: core_def)
    show ?thesis unfolding e si(2) ..
  qed
  have cu: "core (procs u x) = (if x = c then core ((procs s c)\<lparr>p_sleep_addr := addr,
       p_flags := (if st = PROC_UNINTERRUPTIBLE then p_flags (procs s c) OR PROC_FLAG_NOTINTERRUPT else p_flags (procs s c)),
       p_state := PROC_SLEEPING\<rparr>)
     else core (procs s x))" for x
    unfolding u using c1 c2 si(2) [of x] by simp
  then show "core (procs u x) = (if x = c then core ((procs s c)\<lparr>p_sleep_addr := addr,
       p_flags := (if st = PROC_UNINTERRUPTIBLE then p_flags (procs s c) OR PROC_FLAG_NOTINTERRUPT else p_flags (procs s c)),
       p_state := PROC_SLEEPING\<rparr>)
     else core (procs s x))" .
  have uc: "p_state (procs u c) = PROC_SLEEPING" "p_sleep_addr (procs u c) = addr"
    using core_eqD [OF cu [of c, simplified]] by simp_all
  have uo: "p_state (procs u x) = p_state (procs s x)" "p_sleep_addr (procs u x) = p_sleep_addr (procs s x)" if "x \<noteq> c" for x
    using core_eqD [of "procs u x" "procs s x"] cu [of x] that by simp_all
  have ul: "snx u = snx ?i" "spv u = spv ?i" "sleep_hash_table u = sleep_hash_table ?i"
    unfolding u using w by (auto simp: fun_eq_iff)
  show "sleep_inv u (bs(k := c # bs k))" unfolding sleep_inv_def
  proof (intro allI impI conjI)
    fix j assume j: "j < NUM_SLEEP_HASH_TABLE_BUCKETS"
    have bj: "dlist (snx s) (spv s) (sleep_hash_table s j) (bs j)"
      "\<forall>p \<in> set (bs j). p_state (procs s p) = PROC_SLEEPING \<and> TO_SLEEP_TABLE_HASH (p_sleep_addr (procs s p)) = j"
      using assms(1) j by (auto simp: sleep_inv_def)
    show "dlist (snx u) (spv u) (sleep_hash_table u j) ((bs(k := c # bs k)) j)"
    proof (cases "j = k")
      case True
      then show ?thesis unfolding ul using si(1) by simp
    next
      case False
      have "x \<notin> set (c # bs k)" if "x \<in> set (bs j)" for x
        using that bj(2) assms(1) k False nb [OF j] by (auto simp: sleep_inv_def)
      then show ?thesis unfolding ul using bj(1) si(3,4) False dlist_cong [of "bs j" "snx s" "snx ?i" "spv s" "spv ?i"] by simp
    qed
    show "\<forall>p \<in> set ((bs(k := c # bs k)) j). p_state (procs u p) = PROC_SLEEPING \<and> TO_SLEEP_TABLE_HASH (p_sleep_addr (procs u p)) = j"
    proof -
      have "p_state (procs u p) = PROC_SLEEPING \<and> TO_SLEEP_TABLE_HASH (p_sleep_addr (procs u p)) = j"
        if "p \<in> set (bs j)" for p
      proof -
        have "p \<noteq> c" using nb [OF j] that by auto
        then show ?thesis using bj(2) that uo by simp
      qed
      then show ?thesis using uc ke by (cases "j = k") auto
    qed
  qed
qed

text \<open>a process that goes to sleep is at the head of the bucket of its address, no longer in
  the running list, and marked with the address, the state and for an uninterruptible sleep the flag, when
  the scheduler is called; no other process has changed but for its links, and all lists are well formed.\<close>

theorem sleep_puts_to_sleep:
  fixes addr :: u32
  assumes "sleep_inv s bs" "run_inv s rs" "p_state (procs s (proc_current s)) \<noteq> PROC_SLEEPING"
  defines "k \<equiv> TO_SLEEP_TABLE_HASH addr" and "c \<equiv> proc_current s"
  shows "\<exists>u. sleep_core switch addr st s = map_option (Pair True) (sched_run switch u) \<and>
    sleep_inv u (bs(k := c # bs k)) \<and> run_inv u (remove1 c rs) \<and>
    p_state (procs u c) = PROC_SLEEPING \<and> p_sleep_addr (procs u c) = addr \<and>
    (st = PROC_UNINTERRUPTIBLE \<longrightarrow> bit (p_flags (procs u c)) 3) \<and>
    (\<forall>x. x \<noteq> c \<longrightarrow> core (procs u x) = core (procs s x))"
proof -
  let ?u = "falling_asleep addr st s"
  note f = falling_asleep_inv [OF assms(1-3), of addr st]
  have eq: "sleep_core switch addr st s = map_option (Pair True) (sched_run switch ?u)"
    using assms(3) by (cases "sched_run switch ?u") (simp_all add: sleep_core_def falling_asleep_def Let_def)
  have cc: "core (procs ?u c) = core ((procs s c)\<lparr>p_sleep_addr := addr,
       p_flags := (if st = PROC_UNINTERRUPTIBLE then p_flags (procs s c) OR PROC_FLAG_NOTINTERRUPT else p_flags (procs s c)),
       p_state := PROC_SLEEPING\<rparr>)"
    using f(3) [of c] unfolding c_def by simp
  have fl: "p_flags (procs ?u c) = (if st = PROC_UNINTERRUPTIBLE then p_flags (procs s c) OR PROC_FLAG_NOTINTERRUPT else p_flags (procs s c))"
    using arg_cong [OF cc, of p_flags] by (simp add: core_def)
  have "bit (PROC_FLAG_NOTINTERRUPT) 3" by (simp add: PROC_FLAG_NOTINTERRUPT_def)
  then have "bit (p_flags (procs ?u c)) 3" if "st = PROC_UNINTERRUPTIBLE"
    unfolding fl using that by (simp add: bit_or_iff)
  then show ?thesis using eq f core_eqD [OF cc] unfolding k_def c_def
    by (intro exI [of _ ?u]) simp
qed

theorem sleep_puts_to_sleep_witness:
  "\<exists>u. sleep_core Some 0x600 PROC_UNINTERRUPTIBLE two_running = map_option (Pair True) (sched_run Some u) \<and>
    run_inv u [7] \<and> p_state (procs u 4) = PROC_SLEEPING"
proof -
  have i: "sleep_inv two_running (\<lambda>_. [])" by (simp add: sleep_inv_def two_running_def)
  have c: "proc_current two_running = 4" "p_state (procs two_running 4) \<noteq> PROC_SLEEPING"
    by (simp_all add: two_running_def)
  show ?thesis
    using sleep_puts_to_sleep [OF i two_running_inv, where addr = "0x600" and switch = Some and st = PROC_UNINTERRUPTIBLE] c
    by auto
qed

end
