(* ===== verification/Resource.thy ===== *)
theory Resource
  imports Sleep
begin

text \<open>
  The resource lock of \<open>src/kernel/src/proc/lock.c\<close> under every interleaving. \<open>lock_resource\<close> turns interrupts on
  again between marking the resource as wanted and falling asleep, and \<open>unlock_resource\<close> wakes the sleepers by
  \<open>wakeup\<close>, whose walk along the bucket can pass over one (\<open>Sleep\<close>). Both are steps of their own here, so that what the
  lock promises is stated with its two exceptions. A part that runs with interrupts off is one step.
\<close>

section \<open>The protocol\<close>

text \<open>Where a process is: outside; between finding the resource locked and falling asleep on it, with interrupts on;
  asleep on it; past the lock; or asleep on another address of the same bucket, outside or past the lock.\<close>

datatype res_pc = Outside | Falling | Asleep | Holding | Away | HoldingAway

text \<open>\<open>bucket\<close> is the list of sleepers in the bucket of the resource's address. \<open>lost\<close> is an auxiliary variable: the
  processes that the last unlock to call \<open>wakeup\<close> has left without a wake-up.\<close>

record res_state =
  res :: resource
  pcs :: "nat \<Rightarrow> res_pc"
  bucket :: "nat list"
  lost :: "nat set"

definition awaken :: "nat list \<Rightarrow> (nat \<Rightarrow> res_pc) \<Rightarrow> nat \<Rightarrow> res_pc" where
  "awaken w f q = (if q \<in> set w then (if f q = HoldingAway then Holding else Outside) else f q)"

definition unlock_res :: "nat \<Rightarrow> res_state \<Rightarrow> res_state" where
  "unlock_res p s =
     (let (r, wake) = unlock_turn (res s); (k, w) = wake_head (\<lambda>q. pcs s q = Asleep) (bucket s)
      in if wake
         then \<lparr>res = r, pcs = (awaken w (pcs s))(p := Outside), bucket = k,
               lost = {q. pcs s q = Falling} \<union> {q \<in> set k. pcs s q = Asleep}\<rparr>
         else s\<lparr>res := r, pcs := (pcs s)(p := Outside)\<rparr>)"

definition fall_asleep :: "nat \<Rightarrow> res_pc \<Rightarrow> res_state \<Rightarrow> res_state" where
  "fall_asleep p at s = s\<lparr>pcs := (pcs s)(p := at), bucket := p # bucket s\<rparr>"

text \<open>A wake-up of another address, on which the processes \<open>W\<close> sleep.\<close>

definition wake_others :: "nat set \<Rightarrow> res_state \<Rightarrow> res_state" where
  "wake_others W s = (let (k, w) = wake_head (\<lambda>q. q \<in> W) (bucket s) in s\<lparr>pcs := awaken w (pcs s), bucket := k\<rparr>)"

inductive res_run :: "res_state \<Rightarrow> bool" where
  Start: "res_run \<lparr>res = \<lparr>locked = False, wanted = False\<rparr>, pcs = (\<lambda>_. Outside), bucket = [], lost = {}\<rparr>"
| Take: "res_run s \<Longrightarrow> pcs s p = Outside \<Longrightarrow> lock_turn (res s) = (r, True) \<Longrightarrow>
    res_run (s\<lparr>res := r, pcs := (pcs s)(p := Holding)\<rparr>)"
| Block: "res_run s \<Longrightarrow> pcs s p = Outside \<Longrightarrow> lock_turn (res s) = (r, False) \<Longrightarrow>
    res_run (s\<lparr>res := r, pcs := (pcs s)(p := Falling)\<rparr>)"
| Fall: "res_run s \<Longrightarrow> pcs s p = Falling \<Longrightarrow> res_run (fall_asleep p Asleep s)"
| Unlock: "res_run s \<Longrightarrow> pcs s p = Holding \<Longrightarrow> res_run (unlock_res p s)"
| Leave: "res_run s \<Longrightarrow> pcs s p = Outside \<Longrightarrow> res_run (fall_asleep p Away s)"
| LeaveHolding: "res_run s \<Longrightarrow> pcs s p = Holding \<Longrightarrow> res_run (fall_asleep p HoldingAway s)"
| Return: "res_run s \<Longrightarrow> W \<subseteq> {q. pcs s q = Away \<or> pcs s q = HoldingAway} \<Longrightarrow> res_run (wake_others W s)"

section \<open>The invariant\<close>

definition holds_res :: "res_state \<Rightarrow> nat \<Rightarrow> bool" where
  "holds_res s q \<longleftrightarrow> pcs s q = Holding \<or> pcs s q = HoldingAway"

definition in_bucket :: "res_pc \<Rightarrow> bool" where
  "in_bucket c \<longleftrightarrow> c = Asleep \<or> c = Away \<or> c = HoldingAway"

definition res_inv :: "res_state \<Rightarrow> bool" where
  "res_inv s \<longleftrightarrow> (locked (res s) \<longleftrightarrow> (\<exists>p. holds_res s p)) \<and> (\<forall>p q. holds_res s p \<longrightarrow> holds_res s q \<longrightarrow> p = q) \<and>
     (wanted (res s) \<longrightarrow> locked (res s)) \<and>
     (\<forall>p. pcs s p = Falling \<or> pcs s p = Asleep \<longrightarrow> wanted (res s) \<or> p \<in> lost s) \<and>
     distinct (bucket s) \<and> (\<forall>p. p \<in> set (bucket s) \<longleftrightarrow> in_bucket (pcs s p))"

lemma wake_tail_kept: "distinct xs \<Longrightarrow> distinct (fst (wake_tail m xs))"
proof (induction m xs rule: wake_tail.induct)
  case (3 m x y ys)
  have s: "set (fst (wake_tail m ys)) \<subseteq> set ys" "set (fst (wake_tail m (y # ys))) \<subseteq> set (y # ys)" by (rule wake_sub)+
  show ?case
  proof (cases "m x")
    case True
    then show ?thesis using 3(1) [OF True] 3(3) s(1) by (auto simp: Let_def case_prod_beta)
  next
    case False
    then show ?thesis using 3(2) [OF False] 3(3) s(2) by (auto simp: Let_def case_prod_beta)
  qed
qed auto

lemma wake_head_kept: "distinct xs \<Longrightarrow> distinct (fst (wake_head m xs))"
proof (induction xs)
  case (Cons x xs)
  have "set (fst (wake_tail m xs)) \<subseteq> set xs" by (rule wake_sub)
  then show ?case using Cons wake_tail_kept [of xs m] by (auto simp: Let_def case_prod_beta)
qed simp

text \<open>Membership after a wake-up.\<close>

lemma wake_head_in:
  assumes "distinct xs"
  shows "q \<in> set (fst (wake_head m xs)) \<longleftrightarrow> q \<in> set xs \<and> q \<notin> set (snd (wake_head m xs))"
  using wake_head_set [of m xs] wake_head_distinct [OF assms, of q m] by blast

lemma res_inv_wake:
  assumes inv: "res_inv s" and w: "wake_head m (bucket s) = (k, w)"
  shows "distinct k" "\<And>q. q \<in> set k \<longleftrightarrow> in_bucket (awaken w (pcs s) q)"
proof -
  have d: "distinct (bucket s)" "\<And>p. p \<in> set (bucket s) \<longleftrightarrow> in_bucket (pcs s p)" using inv by (auto simp: res_inv_def)
  show "distinct k" using wake_head_kept [OF d(1), of m] w by simp
  show "q \<in> set k \<longleftrightarrow> in_bucket (awaken w (pcs s) q)" for q
    using wake_head_in [OF d(1), of q m] w d(2) by (auto simp: awaken_def in_bucket_def)
qed

lemma res_inv_unlock:
  assumes inv: "res_inv s" and p: "pcs s p = Holding"
  shows "res_inv (unlock_res p s)"
proof -
  have h: "holds_res s q \<longleftrightarrow> q = p" for q using inv p by (auto simp: res_inv_def holds_res_def)
  obtain k w where w: "wake_head (\<lambda>q. pcs s q = Asleep) (bucket s) = (k, w)" by fastforce
  have woken: "pcs s q = Asleep" if "q \<in> set w" for q using wake_head_woken [of q "\<lambda>q. pcs s q = Asleep" "bucket s"] that w by simp
  note k = res_inv_wake [OF inv w]
  have lk: "locked (res s)" using inv h by (auto simp: res_inv_def)
  show ?thesis
  proof (cases "wanted (res s)")
    case False
    then show ?thesis using inv p h by (auto simp: unlock_res_def unlock_turn_def Let_def w res_inv_def holds_res_def in_bucket_def)
  next
    case True
    let ?f = "(awaken w (pcs s))(p := Outside)"
    have u: "unlock_res p s = \<lparr>res = \<lparr>locked = False, wanted = False\<rparr>, pcs = ?f, bucket = k,
        lost = {q. pcs s q = Falling} \<union> {q \<in> set k. pcs s q = Asleep}\<rparr>"
      using True by (cases "res s") (simp add: unlock_res_def unlock_turn_def w)
    have none: "?f q \<noteq> Holding" "?f q \<noteq> HoldingAway" for q
      using h [of q] woken [of q] by (auto simp: awaken_def holds_res_def)
    have wait: "q \<in> {q. pcs s q = Falling} \<union> {q \<in> set k. pcs s q = Asleep}" if "?f q = Falling \<or> ?f q = Asleep" for q
      using that k(2) [of q] by (auto simp: awaken_def in_bucket_def split: if_splits)
    have "pcs s p \<noteq> Asleep" using p by simp
    then have "p \<notin> set k" using k(2) [of p] p woken by (auto simp: awaken_def in_bucket_def)
    then have "q \<in> set k \<longleftrightarrow> in_bucket (?f q)" for q using k(2) [of q] by (auto simp: in_bucket_def)
    then show ?thesis using none wait k(1) unfolding u res_inv_def holds_res_def by simp
  qed
qed

lemma res_inv_return:
  assumes inv: "res_inv s" and W: "W \<subseteq> {q. pcs s q = Away \<or> pcs s q = HoldingAway}"
  shows "res_inv (wake_others W s)"
proof -
  obtain k w where w: "wake_head (\<lambda>q. q \<in> W) (bucket s) = (k, w)" by fastforce
  have woken: "pcs s q = Away \<or> pcs s q = HoldingAway" if "q \<in> set w" for q
    using wake_head_woken [of q "\<lambda>q. q \<in> W" "bucket s"] that w W by auto
  note k = res_inv_wake [OF inv w]
  have u: "wake_others W s = s\<lparr>pcs := awaken w (pcs s), bucket := k\<rparr>" by (simp add: wake_others_def w)
  have "holds_res (wake_others W s) q = holds_res s q" for q
    using woken [of q] by (auto simp: u holds_res_def awaken_def)
  moreover have "awaken w (pcs s) q = c \<longleftrightarrow> pcs s q = c" if "c = Falling \<or> c = Asleep" for q c
    using woken [of q] that by (auto simp: awaken_def)
  ultimately show ?thesis using inv k unfolding res_inv_def by (auto simp: u)
qed

lemma res_inv_fall:
  assumes inv: "res_inv s" and "pcs s p = Falling \<and> at = Asleep \<or> pcs s p = Outside \<and> at = Away \<or> pcs s p = Holding \<and> at = HoldingAway"
  shows "res_inv (fall_asleep p at s)"
proof -
  have "holds_res (fall_asleep p at s) q = holds_res s q" for q
    using assms(2) by (auto simp: fall_asleep_def holds_res_def)
  moreover have "p \<notin> set (bucket s)" using inv assms(2) by (auto simp: res_inv_def in_bucket_def)
  ultimately show ?thesis
    using inv assms(2) unfolding res_inv_def by (auto simp: fall_asleep_def in_bucket_def)
qed

lemma res_run_inv: "res_run s \<Longrightarrow> res_inv s"
proof (induction rule: res_run.induct)
  case Start
  then show ?case by (simp add: res_inv_def holds_res_def in_bucket_def)
next
  case (Take s p r)
  then have l: "\<not> locked (res s)" "r = (res s)\<lparr>locked := True\<rparr>" by (auto simp: lock_turn_def split: if_splits)
  then show ?case using Take.IH Take.hyps(2) by (auto simp: res_inv_def holds_res_def in_bucket_def)
next
  case (Block s p r)
  then have l: "locked (res s)" "r = (res s)\<lparr>wanted := True\<rparr>" by (auto simp: lock_turn_def split: if_splits)
  have "holds_res (s\<lparr>res := r, pcs := (pcs s)(p := Falling)\<rparr>) q = holds_res s q" for q
    using Block.hyps(2) by (auto simp: holds_res_def)
  then show ?case using Block.IH Block.hyps(2) l unfolding res_inv_def by (auto simp: in_bucket_def)
qed (auto intro: res_inv_fall res_inv_unlock res_inv_return)

section \<open>What the lock promises\<close>

text \<open>At most one process is past \<open>lock_resource\<close>, and then the resource is marked locked.\<close>

theorem lock_resource_exclusive:
  assumes "res_run s" "holds_res s p"
  shows "locked (res s) \<and> (\<forall>q. holds_res s q \<longrightarrow> q = p)"
  using res_run_inv [OF assms(1)] assms(2) unfolding res_inv_def by blast

text \<open>\<open>wakeup\<close> passes over nobody before whom all sleep on the address.\<close>

lemma wake_head_reaches:
  "q \<in> set xs \<Longrightarrow> m q \<Longrightarrow> \<forall>x \<in> set (takeWhile (\<lambda>x. x \<noteq> q) xs). m x \<Longrightarrow> q \<in> set (snd (wake_head m xs))"
proof (induction xs)
  case (Cons x xs)
  then show ?case by (cases "x = q") (auto simp: Let_def case_prod_beta)
qed simp

lemma unlock_res_wakes:
  assumes run: "res_run s" and q: "pcs s q = Holding" "wanted (res s)" and p: "pcs s p = Asleep"
    and ahead: "\<forall>x \<in> set (takeWhile (\<lambda>x. x \<noteq> p) (bucket s)). pcs s x = Asleep"
  shows "pcs (unlock_res q s) p = Outside \<and> p \<notin> lost (unlock_res q s)"
proof -
  have inv: "res_inv s" by (rule res_run_inv [OF run])
  obtain k w where w: "wake_head (\<lambda>q. pcs s q = Asleep) (bucket s) = (k, w)" by fastforce
  have "p \<in> set (bucket s)" using inv p by (auto simp: res_inv_def in_bucket_def)
  then have pw: "p \<in> set w" using wake_head_reaches [of p "bucket s" "\<lambda>q. pcs s q = Asleep"] p ahead w by simp
  then have "p \<notin> set k" using wake_head_distinct [of "bucket s" p "\<lambda>q. pcs s q = Asleep"] inv w by (auto simp: res_inv_def)
  then show ?thesis using pw p q(2) by (simp add: unlock_res_def unlock_turn_def w Let_def awaken_def)
qed

text \<open>C38: a process that sleeps on a resource, and that the last unlock to call \<open>wakeup\<close> has not left without its
  wake-up, can count on a wake-up to come: the resource is locked, marked as wanted, and held by another process. An
  unlock of a wanted resource leaves without wake-up exactly the processes that had found the resource locked and were
  not yet asleep, and sleepers behind which the walk of \<open>wakeup\<close> has gone on too far: these have a process before them in
  the bucket that sleeps on another address; all others are woken.\<close>

theorem lock_resource_sleepers:
  assumes "res_run s"
  shows "(pcs s p = Asleep \<and> p \<notin> lost s \<longrightarrow> locked (res s) \<and> wanted (res s) \<and> (\<exists>h. h \<noteq> p \<and> holds_res s h)) \<and>
    (pcs s q = Holding \<and> wanted (res s) \<longrightarrow>
      (pcs s p = Falling \<longrightarrow> p \<in> lost (unlock_res q s)) \<and>
      (p \<in> lost (unlock_res q s) \<longrightarrow> pcs s p = Falling \<or>
        pcs s p = Asleep \<and> (\<exists>x \<in> set (takeWhile (\<lambda>x. x \<noteq> p) (bucket s)). pcs s x \<noteq> Asleep)) \<and>
      (pcs s p = Asleep \<and> p \<notin> lost (unlock_res q s) \<longrightarrow> pcs (unlock_res q s) p = Outside))"
proof (intro conjI impI)
  have inv: "res_inv s" by (rule res_run_inv [OF assms])
  assume a: "pcs s p = Asleep \<and> p \<notin> lost s"
  then show w: "wanted (res s)" using inv by (auto simp: res_inv_def)
  then show l: "locked (res s)" using inv unfolding res_inv_def by blast
  obtain h where h: "holds_res s h" using inv l unfolding res_inv_def by blast
  then have "h \<noteq> p" using a by (auto simp: holds_res_def)
  with h show "\<exists>h. h \<noteq> p \<and> holds_res s h" by blast
next
  assume q: "pcs s q = Holding \<and> wanted (res s)"
  obtain k w where w: "wake_head (\<lambda>q. pcs s q = Asleep) (bucket s) = (k, w)" by fastforce
  have lost: "lost (unlock_res q s) = {q. pcs s q = Falling} \<union> {q \<in> set k. pcs s q = Asleep}"
    using q by (simp add: unlock_res_def unlock_turn_def w Let_def)
  show "p \<in> lost (unlock_res q s)" if "pcs s p = Falling" using that by (simp add: lost)
  show "pcs s p = Falling \<or> pcs s p = Asleep \<and> (\<exists>x \<in> set (takeWhile (\<lambda>x. x \<noteq> p) (bucket s)). pcs s x \<noteq> Asleep)"
    if "p \<in> lost (unlock_res q s)"
    using that lost unlock_res_wakes [OF assms, of q p] q by blast
  show "pcs (unlock_res q s) p = Outside" if a: "pcs s p = Asleep \<and> p \<notin> lost (unlock_res q s)"
  proof -
    have "p \<in> set (bucket s)" using res_run_inv [OF assms] a by (auto simp: res_inv_def in_bucket_def)
    then have "p \<in> set w" using a lost wake_head_set [of "\<lambda>q. pcs s q = Asleep" "bucket s"] w by auto
    then show ?thesis using a q by (simp add: unlock_res_def unlock_turn_def w Let_def awaken_def)
  qed
qed

section \<open>The exceptions occur\<close>

definition res_begin :: res_state where
  "res_begin = \<lparr>res = \<lparr>locked = False, wanted = False\<rparr>, pcs = (\<lambda>_. Outside), bucket = [], lost = {}\<rparr>"

text \<open>Process 0 holds the resource; 1, and then perhaps 2, have found it locked.\<close>

definition res_one :: res_state where
  "res_one = \<lparr>res = \<lparr>locked = True, wanted = True\<rparr>, pcs = (\<lambda>_. Outside)(0 := Holding, 1 := Falling), bucket = [], lost = {}\<rparr>"

lemma res_one_run: "res_run res_one"
proof -
  let ?s = "res_begin\<lparr>res := \<lparr>locked = True, wanted = False\<rparr>, pcs := (pcs res_begin)(0 := Holding)\<rparr>"
  have 1: "res_run ?s" using Take [OF Start [folded res_begin_def], of 0] by (simp add: res_begin_def lock_turn_def)
  have "res_run (?s\<lparr>res := \<lparr>locked = True, wanted = True\<rparr>, pcs := (pcs ?s)(1 := Falling)\<rparr>)"
    by (rule Block [OF 1]) (simp_all add: res_begin_def lock_turn_def)
  then show ?thesis by (simp add: res_one_def res_begin_def fun_upd_twist)
qed

definition res_two :: res_state where
  "res_two = \<lparr>res = \<lparr>locked = True, wanted = True\<rparr>, pcs = (\<lambda>_. Outside)(0 := Holding, 1 := Asleep, 2 := Asleep, 5 := Away),
     bucket = [5, 2, 1], lost = {}\<rparr>"

lemma res_two_run: "res_run res_two"
proof -
  have "res_run (fall_asleep 1 Asleep res_one)" by (rule Fall [OF res_one_run]) (simp add: res_one_def)
  from Block [OF this, of 2 "\<lparr>locked = True, wanted = True\<rparr>"]
  have "res_run ((fall_asleep 1 Asleep res_one)\<lparr>res := \<lparr>locked = True, wanted = True\<rparr>,
      pcs := (pcs (fall_asleep 1 Asleep res_one))(2 := Falling)\<rparr>)" (is "res_run ?t")
    by (simp add: fall_asleep_def res_one_def lock_turn_def)
  from Fall [OF this, of 2] have "res_run (fall_asleep 2 Asleep ?t)" by simp
  from Leave [OF this, of 5] have "res_run (fall_asleep 5 Away (fall_asleep 2 Asleep ?t))"
    by (simp add: fall_asleep_def res_one_def)
  moreover have "fall_asleep 5 Away (fall_asleep 2 Asleep ?t) = res_two"
    by (simp add: fall_asleep_def res_one_def res_two_def fun_eq_iff)
  ultimately show ?thesis by simp
qed

text \<open>Both exceptions of the theorem leave a process asleep on a resource that is free and that nobody wants: in the
  first case the owner unlocks while a process is on its way to sleep, in the second the sleeper 1 is passed over.\<close>

theorem lock_resource_lost_wakeups:
  "(\<exists>s. res_run s \<and> pcs s 1 = Asleep \<and> res s = \<lparr>locked = False, wanted = False\<rparr> \<and> bucket s = [1]) \<and>
   (\<exists>s. res_run s \<and> pcs s 1 = Asleep \<and> res s = \<lparr>locked = False, wanted = False\<rparr> \<and> pcs s 2 = Outside)"
proof
  have "res_run (fall_asleep 1 Asleep (unlock_res 0 res_one))"
    by (rule Fall [OF Unlock [OF res_one_run]])
      (simp_all add: res_one_def unlock_res_def unlock_turn_def awaken_def)
  then show "\<exists>s. res_run s \<and> pcs s 1 = Asleep \<and> res s = \<lparr>locked = False, wanted = False\<rparr> \<and> bucket s = [1]"
    by (intro exI [of _ "fall_asleep 1 Asleep (unlock_res 0 res_one)"]) (simp add: fall_asleep_def res_one_def unlock_res_def unlock_turn_def)
  have "res_run (unlock_res 0 res_two)" by (rule Unlock [OF res_two_run]) (simp add: res_two_def)
  then show "\<exists>s. res_run s \<and> pcs s 1 = Asleep \<and> res s = \<lparr>locked = False, wanted = False\<rparr> \<and> pcs s 2 = Outside"
    by (intro exI [of _ "unlock_res 0 res_two"]) (simp add: res_two_def unlock_res_def unlock_turn_def awaken_def)
qed

theorem lock_resource_sleepers_witness:
  "pcs res_two 1 = Asleep \<and> locked (res res_two) \<and> wanted (res res_two) \<and> (\<exists>h. h \<noteq> 1 \<and> holds_res res_two h) \<and>
    1 \<in> lost (unlock_res 0 res_two) \<and> pcs (unlock_res 0 res_two) 2 = Outside"
proof -
  have f: "pcs res_two 1 = Asleep" "pcs res_two 2 = Asleep" "pcs res_two 0 = Holding" "wanted (res res_two)"
    "1 \<notin> lost res_two" "lost (unlock_res 0 res_two) = {1}"
    by (auto simp: res_two_def unlock_res_def unlock_turn_def)
  then show ?thesis
    using lock_resource_sleepers [OF res_two_run, of 1 0] lock_resource_sleepers [OF res_two_run, of 2 0] by auto
qed

section \<open>The kernel's own calls\<close>

text \<open>\<open>unlock_proc\<close> on the kernel's state does to the lock and to the bucket what \<^const>\<open>unlock_res\<close> does: when the
  resource is wanted, the bucket keeps the first part of \<^const>\<open>wake_head\<close> and the second part runs.\<close>

theorem unlock_proc_wakes:
  assumes "sleep_inv s bs" "run_inv s rs"
  defines "k \<equiv> TO_SLEEP_TABLE_HASH (proc_lock_addr s)"
    and "m \<equiv> \<lambda>p. p_sleep_addr (procs s p) = proc_lock_addr s"
  shows "\<exists>t. unlock_proc s = Some t \<and> proc_lock t = fst (unlock_turn (proc_lock s)) \<and>
    (if wanted (proc_lock s)
     then dlist (snx t) (spv t) (sleep_hash_table t k) (fst (wake_head m (bs k))) \<and>
       (\<forall>x. p_state (procs t x) = (if x \<in> set (snd (wake_head m (bs k))) then PROC_RUNNING else p_state (procs s x)))
     else t = s\<lparr>proc_lock := proc_lock t\<rparr>)"
proof (cases "wanted (proc_lock s)")
  case False
  then show ?thesis by (simp add: unlock_proc_def unlock_turn_def)
next
  case True
  let ?s = "s\<lparr>proc_lock := \<lparr>locked = False, wanted = False\<rparr>\<rparr>"
  have "k < NUM_SLEEP_HASH_TABLE_BUCKETS" by (simp add: k_def TO_SLEEP_TABLE_HASH_def NUM_SLEEP_HASH_TABLE_BUCKETS_def)
  then have b: "dlist (snx ?s) (spv ?s) (sleep_hash_table ?s k) (bs k)" "\<forall>p \<in> set (bs k). p_state (procs ?s p) = PROC_SLEEPING"
    using assms(1) by (simp_all add: sleep_inv_def)
  have "run_inv ?s rs" using assms(2) by (simp add: run_inv_def)
  from wakeup_head [OF b(1) this b(2), of "proc_lock_addr s"] obtain t where
    t: "wakeup_loop (proc_lock_addr s) k (Bucket k) ?s = Some t"
      "waked ?s t k (set (bs k)) (fst (wake_head m (bs k))) (snd (wake_head m (bs k))) rs" by (auto simp: m_def)
  have "unlock_turn (proc_lock s) = (\<lparr>locked = False, wanted = False\<rparr>, True)"
    using True by (cases "proc_lock s") (simp add: unlock_turn_def)
  then have "unlock_proc s = Some t" "fst (unlock_turn (proc_lock s)) = \<lparr>locked = False, wanted = False\<rparr>"
    using t(1) by (simp_all add: unlock_proc_def wakeup_def k_def)
  moreover have "proc_lock t = \<lparr>locked = False, wanted = False\<rparr>" using t(2) by (auto simp: waked_def kframe_def)
  moreover have "p_state (procs t x) = (if x \<in> set (snd (wake_head m (bs k))) then PROC_RUNNING else p_state (procs s x))" for x
  proof -
    have "core (procs t x) = core (if x \<in> set (snd (wake_head m (bs k))) then woken (procs s x) else procs s x)"
      using t(2) by (simp add: waked_def)
    then show ?thesis using core_eqD [of "procs t x"] by (auto simp: woken_def split: if_splits)
  qed
  ultimately show ?thesis using t(2) True by (simp add: waked_def)
qed

end
