(* ===== verification/Irq.thy ===== *)
theory Irq
  imports Links
begin

text \<open>
  Interrupt requests: \<open>src/kernel/src/interrupt/irq.c\<close>, \<open>pic.c\<close> and \<open>pit.c\<close>. The handlers registered
  for a line form a singly linked list, as do the bottom halves. The devices behind the I/O ports are a
  parameter \<open>dev\<close>: what a read of a port returns, given all the writes so far, which the state records.
  A handler is code elsewhere: the parameter \<open>run\<close> gives the effect of calling the function at an
  address, \<^const>\<open>None\<close> when the call does not return. The state is open: the timer extends it.
\<close>

section \<open>State\<close>

record interrupt =
  ticks :: u32
  handler :: u32
  irq_next :: "u32 option"

record interrupt_bh =
  bh_flags :: u32
  bh_fn :: u32
  bh_next :: "u32 option"

record irq_state =
  irq_table :: "nat \<Rightarrow> u32 option"
  interrupts :: "u32 \<Rightarrow> interrupt"
  bh_table :: "u32 option"
  bhs :: "u32 \<Rightarrow> interrupt_bh"
  io :: "(u16 \<times> u8) list"

type_synonym device = "(u16 \<times> u8) list \<Rightarrow> u16 \<Rightarrow> u8"

definition NUM_IRQS :: int where "NUM_IRQS = 16"
definition IRQ_BH_ACTIVE :: u32 where "IRQ_BH_ACTIVE = 1"

definition upd_interrupt :: "u32 \<Rightarrow> (interrupt \<Rightarrow> interrupt) \<Rightarrow> 'a irq_state_scheme \<Rightarrow> 'a irq_state_scheme" where
  "upd_interrupt i f s = s\<lparr>interrupts := (interrupts s)(i := f (interrupts s i))\<rparr>"

definition upd_bh :: "u32 \<Rightarrow> (interrupt_bh \<Rightarrow> interrupt_bh) \<Rightarrow> 'a irq_state_scheme \<Rightarrow> 'a irq_state_scheme" where
  "upd_bh b f s = s\<lparr>bhs := (bhs s)(b := f (bhs s b))\<rparr>"

definition outb :: "u16 \<Rightarrow> u8 \<Rightarrow> 'a irq_state_scheme \<Rightarrow> 'a irq_state_scheme" where
  "outb port v s = s\<lparr>io := io s @ [(port, v)]\<rparr>"

definition inb :: "device \<Rightarrow> u16 \<Rightarrow> 'a irq_state_scheme \<Rightarrow> u8" where
  "inb dev port s = dev (io s) port"

section \<open>The interrupt controllers and the interval timer\<close>

definition IRQ0_ADDR :: u8 where "IRQ0_ADDR = 0x20"
definition IRQ8_ADDR :: u8 where "IRQ8_ADDR = 0x28"
definition PIC_DATA_PORT_OFFSET :: u16 where "PIC_DATA_PORT_OFFSET = 1"
definition PIC_MASTER :: u16 where "PIC_MASTER = 0x20"
definition PIC_SLAVE :: u16 where "PIC_SLAVE = 0xA0"
definition PIC_MASTER_DATA :: u16 where "PIC_MASTER_DATA = PIC_MASTER + PIC_DATA_PORT_OFFSET"
definition PIC_SLAVE_DATA :: u16 where "PIC_SLAVE_DATA = PIC_SLAVE + PIC_DATA_PORT_OFFSET"
definition ICW1_RESET :: u8 where "ICW1_RESET = 0x11"
definition CASCADE_IRQ :: nat where "CASCADE_IRQ = 2"
definition ICW4_8086EOI :: u8 where "ICW4_8086EOI = 1"
definition PIC_READ_ISR :: u8 where "PIC_READ_ISR = 0x0B"
definition OCW1 :: u8 where "OCW1 = 0xFF"
definition EOI :: u8 where "EOI = 0x20"

lemmas port_defs = PIC_MASTER_def PIC_SLAVE_def PIC_MASTER_DATA_def PIC_SLAVE_DATA_def PIC_DATA_PORT_OFFSET_def

definition pic_init :: "'a irq_state_scheme \<Rightarrow> 'a irq_state_scheme" where
  "pic_init s =
     (let s = outb PIC_MASTER ICW1_RESET s;
          s = outb PIC_MASTER_DATA IRQ0_ADDR s;
          s = outb PIC_MASTER_DATA (push_bit CASCADE_IRQ 1) s;
          s = outb PIC_MASTER_DATA ICW4_8086EOI s;
          s = outb PIC_SLAVE ICW1_RESET s;
          s = outb PIC_SLAVE_DATA IRQ8_ADDR s;
          s = outb PIC_SLAVE_DATA (of_nat CASCADE_IRQ) s;
          s = outb PIC_SLAVE_DATA ICW4_8086EOI s;
          s = outb PIC_MASTER_DATA (NOT (push_bit CASCADE_IRQ 1)) s
      in outb PIC_SLAVE_DATA OCW1 s)"

definition pic_irq_ack :: "int \<Rightarrow> 'a irq_state_scheme \<Rightarrow> 'a irq_state_scheme" where
  "pic_irq_ack irq_num s =
     (let s = (if irq_num > 7 then outb PIC_SLAVE EOI s else s) in outb PIC_MASTER EOI s)"

definition pic_get_irq_register :: "device \<Rightarrow> u8 \<Rightarrow> 'a irq_state_scheme \<Rightarrow> u16 \<times> 'a irq_state_scheme" where
  "pic_get_irq_register dev ocw3 s =
     (let s = outb PIC_MASTER ocw3 s;
          s = outb PIC_SLAVE ocw3 s
      in (push_bit 8 (ucast (inb dev PIC_SLAVE s)) OR ucast (inb dev PIC_MASTER s), s))"

definition OSCIL :: int where "OSCIL = 1193182"
definition MODEREG :: u16 where "MODEREG = 0x43"
definition CHANNEL0 :: u16 where "CHANNEL0 = 0x40"
definition BINARY_CTR :: u8 where "BINARY_CTR = 0"
definition RATE_GEN :: u8 where "RATE_GEN = 0x04"
definition LSB_MSB :: u8 where "LSB_MSB = 0x30"
definition SEL_CHAN0 :: u8 where "SEL_CHAN0 = 0"

definition pit_init :: "u16 \<Rightarrow> 'a irq_state_scheme \<Rightarrow> 'a irq_state_scheme option" where
  "pit_init hz s = do {
     let s = outb MODEREG (SEL_CHAN0 OR LSB_MSB OR RATE_GEN OR BINARY_CTR) s;
     d \<leftarrow> c_div OSCIL (uint hz);
     let s = outb CHANNEL0 (word_of_int (d AND 0xFF)) s;
     Some (outb CHANNEL0 (word_of_int (drop_bit 8 d)) s)
   }"

section \<open>Registration\<close>

definition irq_init :: "'a irq_state_scheme \<Rightarrow> 'a irq_state_scheme" where
  "irq_init s = s\<lparr>irq_table := (\<lambda>_. None)\<rparr>"

text \<open>Both registrations walk a pointer to a pointer: the table entry, then \<open>next\<close> fields.\<close>

datatype slot = Table | Next u32

fun read_bh :: "slot \<Rightarrow> 'a irq_state_scheme \<Rightarrow> u32 option" where
  "read_bh Table s = bh_table s"
| "read_bh (Next b) s = bh_next (bhs s b)"

fun write_bh :: "slot \<Rightarrow> u32 option \<Rightarrow> 'a irq_state_scheme \<Rightarrow> 'a irq_state_scheme" where
  "write_bh Table v s = s\<lparr>bh_table := v\<rparr>"
| "write_bh (Next b) v s = upd_bh b (\<lambda>x. x\<lparr>bh_next := v\<rparr>) s"

partial_function (option) bh_end :: "slot \<Rightarrow> 'a irq_state_scheme \<Rightarrow> slot option" where
  "bh_end b s = (case read_bh b s of None \<Rightarrow> Some b | Some x \<Rightarrow> bh_end (Next x) s)"

definition irq_bottom_half_register :: "u32 \<Rightarrow> 'a irq_state_scheme \<Rightarrow> 'a irq_state_scheme option" where
  "irq_bottom_half_register new s = do {
     b \<leftarrow> bh_end Table s;
     Some (write_bh b (Some new) s)
   }"

fun read_irq :: "nat \<Rightarrow> slot \<Rightarrow> 'a irq_state_scheme \<Rightarrow> u32 option" where
  "read_irq n Table s = irq_table s n"
| "read_irq n (Next i) s = irq_next (interrupts s i)"

fun write_irq :: "nat \<Rightarrow> slot \<Rightarrow> u32 option \<Rightarrow> 'a irq_state_scheme \<Rightarrow> 'a irq_state_scheme" where
  "write_irq n Table v s = s\<lparr>irq_table := (irq_table s)(n := v)\<rparr>"
| "write_irq n (Next i) v s = upd_interrupt i (\<lambda>x. x\<lparr>irq_next := v\<rparr>) s"

text \<open>The slot at the end of the chain, or \<^const>\<open>Table\<close> under \<open>Inl\<close> when the handler is already in it.\<close>

partial_function (option) irq_end :: "u32 \<Rightarrow> nat \<Rightarrow> slot \<Rightarrow> 'a irq_state_scheme \<Rightarrow> (unit + slot) option" where
  "irq_end new n b s = (case read_irq n b s of
       None \<Rightarrow> Some (Inr b)
     | Some x \<Rightarrow> if x = new then Some (Inl ()) else irq_end new n (Next x) s)"

definition irq_register :: "int \<Rightarrow> u32 \<Rightarrow> 'a irq_state_scheme \<Rightarrow> (retval_t \<times> 'a irq_state_scheme) option" where
  "irq_register irq_num new_irq s =
     (if irq_num < 0 \<or> irq_num \<ge> NUM_IRQS then Some (RET_FAIL, s)
      else do {
        r \<leftarrow> irq_end new_irq (nat irq_num) Table s;
        (case r of
           Inl _ \<Rightarrow> Some (RET_FAIL, s)
         | Inr b \<Rightarrow>
            (let s = write_irq (nat irq_num) b (Some new_irq) s
             in Some (RET_OK, upd_interrupt new_irq (\<lambda>i. i\<lparr>ticks := 0\<rparr>) s)))
      })"

section \<open>Masking and handling\<close>

definition pic_data_port :: "int \<Rightarrow> u16" where
  "pic_data_port irq_num = (if irq_num > 7 then PIC_SLAVE_DATA else PIC_MASTER_DATA)"

definition irq_enable :: "device \<Rightarrow> int \<Rightarrow> 'a irq_state_scheme \<Rightarrow> 'a irq_state_scheme" where
  "irq_enable dev irq_num s =
     (let addr = pic_data_port irq_num; n = nat (irq_num AND 7)
      in outb addr (inb dev addr s AND NOT (push_bit n 1)) s)"

definition irq_disable :: "device \<Rightarrow> int \<Rightarrow> 'a irq_state_scheme \<Rightarrow> 'a irq_state_scheme" where
  "irq_disable dev irq_num s =
     (let addr = pic_data_port irq_num; n = nat (irq_num AND 7)
      in outb addr (inb dev addr s OR push_bit n 1) s)"

definition irq_spurious_interrupt_handler :: "device \<Rightarrow> int \<Rightarrow> 'a irq_state_scheme \<Rightarrow> 'a irq_state_scheme" where
  "irq_spurious_interrupt_handler dev irq_num s =
     (let (real, s) = pic_get_irq_register dev PIC_READ_ISR s
      in if real = 0 then (if irq_num < 7 then outb PIC_MASTER EOI s else s)
         else pic_irq_ack irq_num s)"

partial_function (option) irq_run_chain ::
    "(u32 \<Rightarrow> int \<Rightarrow> 'a irq_state_scheme \<Rightarrow> 'a irq_state_scheme option) \<Rightarrow> int \<Rightarrow> u32 \<Rightarrow>
     'a irq_state_scheme \<Rightarrow> 'a irq_state_scheme option" where
  "irq_run_chain run irq_num irq s = do {
     s \<leftarrow> run (handler (interrupts s irq)) irq_num s;
     (case irq_next (interrupts s irq) of
        None \<Rightarrow> Some s
      | Some i \<Rightarrow> irq_run_chain run irq_num i s)
   }"

definition irq_handler ::
    "(u32 \<Rightarrow> int \<Rightarrow> 'a irq_state_scheme \<Rightarrow> 'a irq_state_scheme option) \<Rightarrow> device \<Rightarrow> int \<Rightarrow>
     'a irq_state_scheme \<Rightarrow> 'a irq_state_scheme option" where
  "irq_handler run dev irq_num s = do {
     let s = irq_disable dev irq_num s;
     require (0 \<le> irq_num \<and> irq_num < NUM_IRQS);
     s \<leftarrow> (case irq_table s (nat irq_num) of
         None \<Rightarrow> Some (irq_spurious_interrupt_handler dev irq_num s)
       | Some irq \<Rightarrow> do {
           let s = pic_irq_ack irq_num s;
           let s = upd_interrupt irq (\<lambda>i. i\<lparr>ticks := ticks i + 1\<rparr>) s;
           irq_run_chain run irq_num irq s
         });
     Some (irq_enable dev irq_num s)
   }"

partial_function (option) bh_exec_loop ::
    "(u32 \<Rightarrow> 'a irq_state_scheme \<Rightarrow> 'a irq_state_scheme option) \<Rightarrow> u32 option \<Rightarrow> 'a irq_state_scheme \<Rightarrow>
     'a irq_state_scheme option" where
  "bh_exec_loop run bh s = (case bh of
       None \<Rightarrow> Some s
     | Some b \<Rightarrow> do {
         s \<leftarrow> (if bh_flags (bhs s b) AND IRQ_BH_ACTIVE \<noteq> 0 then
                 (let s = upd_bh b (\<lambda>x. x\<lparr>bh_flags := bh_flags x AND NOT IRQ_BH_ACTIVE\<rparr>) s
                  in run (bh_fn (bhs s b)) s)
               else Some s);
         bh_exec_loop run (bh_next (bhs s b)) s
       })"

definition irq_bottom_half_exec ::
    "(u32 \<Rightarrow> 'a irq_state_scheme \<Rightarrow> 'a irq_state_scheme option) \<Rightarrow> 'a irq_state_scheme \<Rightarrow>
     'a irq_state_scheme option" where
  "irq_bottom_half_exec run s = bh_exec_loop run (bh_table s) s"

section \<open>Chains\<close>

definition irq_chain :: "'a irq_state_scheme \<Rightarrow> nat \<Rightarrow> u32 list \<Rightarrow> bool" where
  "irq_chain s n xs \<longleftrightarrow> slist (\<lambda>i. irq_next (interrupts s i)) (irq_table s n) xs"

definition bh_chain :: "'a irq_state_scheme \<Rightarrow> u32 list \<Rightarrow> bool" where
  "bh_chain s xs \<longleftrightarrow> slist (\<lambda>b. bh_next (bhs s b)) (bh_table s) xs"

lemma slist_snoc_upd:
  assumes "slist nx h (xs @ [a])" "new \<notin> set (xs @ [a])" "nx new = None"
  shows "slist (nx(a := Some new)) h (xs @ [a, new])"
proof -
  have d: "a \<notin> set xs" using slist_distinct [OF assms(1)] by simp
  have "spath nx h xs (Some a)" using assms(1) by (auto simp: slist_append)
  then show ?thesis using assms(2,3) d by (auto simp: slist_append)
qed

lemma irq_end_chain:
  assumes "slist (\<lambda>i. irq_next (interrupts s i)) (read_irq n b s) xs"
  shows "irq_end new n b s = (if new \<in> set xs then Some (Inl ())
     else Some (Inr (if xs = [] then b else Next (last xs))))"
  using assms
proof (induction xs arbitrary: b)
  case Nil
  then show ?case by (simp add: irq_end.simps)
next
  case (Cons x xs)
  then have "irq_end new n (Next x) s = (if new \<in> set xs then Some (Inl ())
     else Some (Inr (if xs = [] then Next x else Next (last xs))))" by simp
  then show ?case using Cons.prems by (subst irq_end.simps) auto
qed

lemma bh_end_chain:
  assumes "slist (\<lambda>b. bh_next (bhs s b)) (read_bh b s) xs"
  shows "bh_end b s = Some (if xs = [] then b else Next (last xs))"
  using assms
proof (induction xs arbitrary: b)
  case Nil
  then show ?case by (simp add: bh_end.simps)
next
  case (Cons x xs)
  then have "bh_end (Next x) s = Some (if xs = [] then Next x else Next (last xs))" by simp
  then show ?case using Cons.prems by (subst bh_end.simps) auto
qed

lemma write_irq_end:
  assumes "irq_chain s n xs" "new \<notin> set xs" "irq_next (interrupts s new) = None"
  defines "s' \<equiv> write_irq n (if xs = [] then Table else Next (last xs)) (Some new) s"
  shows "irq_chain s' n (xs @ [new])"
    and "m \<noteq> n \<Longrightarrow> irq_chain s m ys \<Longrightarrow> set xs \<inter> set ys = {} \<Longrightarrow> irq_chain s' m ys"
proof -
  let ?nx = "\<lambda>i. irq_next (interrupts s i)"
  have "slist (\<lambda>i. irq_next (interrupts s' i)) (irq_table s' n) (xs @ [new])"
  proof (cases xs rule: rev_cases)
    case Nil
    then show ?thesis using assms(1,3) by (simp add: s'_def irq_chain_def)
  next
    case (snoc us a)
    have "(\<lambda>i. irq_next (interrupts s' i)) = ?nx(a := Some new)"
      by (rule ext) (simp add: s'_def snoc upd_interrupt_def)
    moreover have "irq_table s' = irq_table s" by (simp add: s'_def snoc upd_interrupt_def)
    ultimately show ?thesis
      using slist_snoc_upd [of ?nx "irq_table s n" us a new] assms(1-3) snoc by (simp add: irq_chain_def)
  qed
  then show "irq_chain s' n (xs @ [new])" by (simp add: irq_chain_def)
next
  assume m: "m \<noteq> n" "irq_chain s m ys" "set xs \<inter> set ys = {}"
  have "irq_next (interrupts s' i) = irq_next (interrupts s i)" if "i \<in> set ys" for i
  proof (cases xs rule: rev_cases)
    case (snoc us a)
    then have "i \<noteq> a" using m(3) that by auto
    then show ?thesis by (simp add: s'_def snoc upd_interrupt_def)
  qed (simp add: s'_def)
  moreover have "irq_table s' m = irq_table s m" using m(1) by (simp add: s'_def upd_interrupt_def)
  ultimately show "irq_chain s' m ys"
    using m(2) slist_cong [of ys "\<lambda>i. irq_next (interrupts s i)" "\<lambda>i. irq_next (interrupts s' i)"]
    by (simp add: irq_chain_def)
qed

lemma irq_chain_ticks [simp]:
  "irq_chain (upd_interrupt i (\<lambda>x. x\<lparr>ticks := f x\<rparr>) s) n xs = irq_chain s n xs"
  unfolding irq_chain_def by (rule arg_cong2 [where f = "\<lambda>nx h. slist nx h xs"])
    (auto simp: upd_interrupt_def fun_eq_iff)

text \<open>\<open>irq_register\<close> keeps for each line the list of its handlers in the order of registration:
  a line outside 0 to 15 and a handler already registered for the line are refused and change nothing;
  otherwise the handler is added behind the others with its tick count at zero, and the chains of the other
  lines, which share no handler with this one, stay as they are.\<close>

theorem irq_register_appends:
  assumes "irq_chain s (nat n) xs" "irq_next (interrupts s new) = None"
  shows "(n < 0 \<or> 16 \<le> n \<or> new \<in> set xs \<longrightarrow> irq_register n new s = Some (RET_FAIL, s)) \<and>
    (0 \<le> n \<and> n < 16 \<and> new \<notin> set xs \<longrightarrow>
      (\<exists>s'. irq_register n new s = Some (RET_OK, s') \<and> irq_chain s' (nat n) (xs @ [new]) \<and>
        ticks (interrupts s' new) = 0 \<and>
        (\<forall>m ys. m \<noteq> nat n \<longrightarrow> irq_chain s m ys \<longrightarrow> set xs \<inter> set ys = {} \<longrightarrow> irq_chain s' m ys)))"
proof (rule conjI)
  have e: "irq_end new (nat n) Table s = (if new \<in> set xs then Some (Inl ())
     else Some (Inr (if xs = [] then Table else Next (last xs))))"
    using irq_end_chain [of s "nat n" Table xs new] assms(1) by (simp add: irq_chain_def)
  then show "n < 0 \<or> 16 \<le> n \<or> new \<in> set xs \<longrightarrow> irq_register n new s = Some (RET_FAIL, s)"
    by (simp add: irq_register_def NUM_IRQS_def)
  show "0 \<le> n \<and> n < 16 \<and> new \<notin> set xs \<longrightarrow>
      (\<exists>s'. irq_register n new s = Some (RET_OK, s') \<and> irq_chain s' (nat n) (xs @ [new]) \<and>
        ticks (interrupts s' new) = 0 \<and>
        (\<forall>m ys. m \<noteq> nat n \<longrightarrow> irq_chain s m ys \<longrightarrow> set xs \<inter> set ys = {} \<longrightarrow> irq_chain s' m ys))"
  proof
    assume a: "0 \<le> n \<and> n < 16 \<and> new \<notin> set xs"
    let ?t = "write_irq (nat n) (if xs = [] then Table else Next (last xs)) (Some new) s"
    let ?s' = "upd_interrupt new (\<lambda>i. i\<lparr>ticks := 0\<rparr>) ?t"
    note w = write_irq_end [OF assms(1) _ assms(2)]
    have "irq_register n new s = Some (RET_OK, ?s')"
      using a e by (simp add: irq_register_def NUM_IRQS_def)
    moreover have "irq_chain ?s' (nat n) (xs @ [new])" using w(1) a by simp
    moreover have "ticks (interrupts ?s' new) = 0" by (simp add: upd_interrupt_def)
    moreover have "irq_chain ?s' m ys" if "m \<noteq> nat n" "irq_chain s m ys" "set xs \<inter> set ys = {}" for m ys
      using w(2) a that by simp
    ultimately show "\<exists>s'. irq_register n new s = Some (RET_OK, s') \<and> irq_chain s' (nat n) (xs @ [new]) \<and>
        ticks (interrupts s' new) = 0 \<and>
        (\<forall>m ys. m \<noteq> nat n \<longrightarrow> irq_chain s m ys \<longrightarrow> set xs \<inter> set ys = {} \<longrightarrow> irq_chain s' m ys)"
      by blast
  qed
qed

definition no_irqs :: irq_state where
  "no_irqs = \<lparr>irq_table = (\<lambda>_. None),
     interrupts = (\<lambda>a. \<lparr>ticks = 5, handler = 0x100 + a, irq_next = None\<rparr>),
     bh_table = None, bhs = (\<lambda>a. \<lparr>bh_flags = 0, bh_fn = 0x100 + a, bh_next = None\<rparr>), io = []\<rparr>"

theorem irq_register_appends_witness:
  "\<exists>s. irq_register 3 7 no_irqs = Some (RET_OK, s) \<and> irq_chain s 3 [7] \<and> irq_register 16 7 no_irqs = Some (RET_FAIL, no_irqs)"
proof -
  have c: "irq_chain no_irqs (nat 3) []" "irq_chain no_irqs (nat 16) []"
    "irq_next (interrupts no_irqs 7) = None" by (simp_all add: irq_chain_def no_irqs_def)
  show ?thesis using irq_register_appends [OF c(1) c(3)] irq_register_appends [OF c(2) c(3)] by auto
qed

lemma bh_register_chain:
  assumes "bh_chain s xs" "new \<notin> set xs" "bh_next (bhs s new) = None"
  shows "\<exists>s'. irq_bottom_half_register new s = Some s' \<and> bh_chain s' (xs @ [new]) \<and>
    (\<forall>b. bh_flags (bhs s' b) = bh_flags (bhs s b) \<and> bh_fn (bhs s' b) = bh_fn (bhs s b)) \<and>
    irq_table s' = irq_table s \<and> interrupts s' = interrupts s \<and> io s' = io s \<and>
    (\<forall>b. b \<notin> set xs \<longrightarrow> bh_next (bhs s' b) = bh_next (bhs s b))"
proof -
  let ?nx = "\<lambda>b. bh_next (bhs s b)"
  let ?s' = "write_bh (if xs = [] then Table else Next (last xs)) (Some new) s"
  have "irq_bottom_half_register new s = Some ?s'"
    using bh_end_chain [of s Table xs] assms(1) by (simp add: irq_bottom_half_register_def bh_chain_def)
  moreover have "bh_chain ?s' (xs @ [new])"
  proof (cases xs rule: rev_cases)
    case Nil
    then show ?thesis using assms by (simp add: bh_chain_def)
  next
    case (snoc us a)
    have "(\<lambda>b. bh_next (bhs ?s' b)) = ?nx(a := Some new)" by (rule ext) (simp add: snoc upd_bh_def)
    moreover have "bh_table ?s' = bh_table s" by (simp add: snoc upd_bh_def)
    ultimately show ?thesis
      using slist_snoc_upd [of ?nx "bh_table s" us a new] assms snoc by (simp add: bh_chain_def)
  qed
  moreover have "bh_flags (bhs ?s' b) = bh_flags (bhs s b) \<and> bh_fn (bhs ?s' b) = bh_fn (bhs s b)" for b
    by (simp add: upd_bh_def)
  moreover have "irq_table ?s' = irq_table s \<and> interrupts ?s' = interrupts s \<and> io ?s' = io s"
    by (simp add: upd_bh_def)
  moreover have "bh_next (bhs ?s' b) = bh_next (bhs s b)" if "b \<notin> set xs" for b
    using that by (cases xs rule: rev_cases) (auto simp: upd_bh_def)
  ultimately show ?thesis by blast
qed

section \<open>Running the handlers\<close>

text \<open>The specification: the active bottom halves of a list, one after the other, each with its flag
  taken back first; a bottom half may activate a later one.\<close>

primrec bh_run_all ::
    "(u32 \<Rightarrow> 'a irq_state_scheme \<Rightarrow> 'a irq_state_scheme option) \<Rightarrow> u32 list \<Rightarrow> 'a irq_state_scheme \<Rightarrow>
     'a irq_state_scheme option" where
  "bh_run_all run [] s = Some s"
| "bh_run_all run (b # bs) s =
     (if bh_flags (bhs s b) AND IRQ_BH_ACTIVE \<noteq> 0
      then run (bh_fn (bhs s b)) (upd_bh b (\<lambda>x. x\<lparr>bh_flags := bh_flags x AND NOT IRQ_BH_ACTIVE\<rparr>) s)
        \<bind> bh_run_all run bs
      else bh_run_all run bs s)"

definition keeps_bh_links :: "(u32 \<Rightarrow> 'a irq_state_scheme \<Rightarrow> 'a irq_state_scheme option) \<Rightarrow> bool" where
  "keeps_bh_links run \<longleftrightarrow>
     (\<forall>f s t b. run f s = Some t \<longrightarrow> bh_next (bhs t b) = bh_next (bhs s b))"

lemma bh_exec_loop_all:
  assumes "keeps_bh_links run" "slist (\<lambda>b. bh_next (bhs s b)) h xs"
  shows "bh_exec_loop run h s = bh_run_all run xs s"
  using assms(2)
proof (induction xs arbitrary: h s)
  case Nil
  then show ?case by (simp add: bh_exec_loop.simps)
next
  case (Cons b bs)
  let ?s1 = "upd_bh b (\<lambda>x. x\<lparr>bh_flags := bh_flags x AND NOT IRQ_BH_ACTIVE\<rparr>) s"
  have h: "h = Some b" and bs: "slist (\<lambda>b. bh_next (bhs s b)) (bh_next (bhs s b)) bs" using Cons.prems by auto
  have l1: "bh_next (bhs ?s1 c) = bh_next (bhs s c)" for c by (simp add: upd_bh_def)
  have l2: "bh_exec_loop run (bh_next (bhs t b)) t = bh_run_all run bs t" if "run f ?s1 = Some t" for f t
  proof (rule Cons.IH)
    have "bh_next (bhs t c) = bh_next (bhs ?s1 c)" for c
      using assms(1) that unfolding keeps_bh_links_def by blast
    then have "bh_next (bhs t c) = bh_next (bhs s c)" for c by (simp only: l1)
    then show "slist (\<lambda>b. bh_next (bhs t b)) (bh_next (bhs t b)) bs" using bs by simp
  qed
  have f1: "bh_fn (bhs ?s1 b) = bh_fn (bhs s b)" by (simp add: upd_bh_def)
  show ?case
  proof (cases "bh_flags (bhs s b) AND IRQ_BH_ACTIVE = 0")
    case True
    then show ?thesis using Cons.IH [OF bs] by (simp add: h bh_exec_loop.simps [of _ "Some b"])
  next
    case False
    then show ?thesis using l2 f1
      by (cases "run (bh_fn (bhs s b)) ?s1")
        (simp_all add: h bh_exec_loop.simps [of _ "Some b"] Let_def)
  qed
qed

text \<open>\<open>irq_bottom_half_exec\<close> goes once through the registered bottom halves in the order of
  registration and calls exactly those whose active flag is set when their turn comes, with the flag taken
  back before the call; the walk ends whenever the calls do.\<close>

theorem bottom_halves_in_order:
  assumes "keeps_bh_links run" "bh_chain s xs"
  shows "irq_bottom_half_exec run s = bh_run_all run xs s"
  using bh_exec_loop_all [OF assms(1)] assms(2) by (simp add: irq_bottom_half_exec_def bh_chain_def)

text \<open>A call that records itself by a write to port 0.\<close>

definition log_call :: "u32 \<Rightarrow> irq_state \<Rightarrow> irq_state option" where
  "log_call f s = Some (outb 0 (ucast f) s)"

definition three_bhs :: irq_state where
  "three_bhs = no_irqs\<lparr>bh_table := Some 1, bhs :=
     (\<lambda>b. \<lparr>bh_flags = (if b = 2 then 0 else 1), bh_fn = 0x10 + b,
        bh_next = (if b = 1 then Some 2 else if b = 2 then Some 3 else None)\<rparr>)\<rparr>"

theorem bottom_halves_in_order_witness:
  "\<exists>s. irq_bottom_half_exec log_call three_bhs = Some s \<and> io s = [(0, 0x11), (0, 0x13)] \<and>
    bh_flags (bhs s 1) = 0 \<and> bh_flags (bhs s 3) = 0"
proof -
  have "keeps_bh_links log_call" by (simp add: keeps_bh_links_def log_call_def outb_def)
  moreover have "bh_chain three_bhs [1, 2, 3]" by (simp add: bh_chain_def three_bhs_def)
  ultimately show ?thesis
    using bottom_halves_in_order [of log_call three_bhs "[1, 2, 3]"]
    by (simp add: log_call_def three_bhs_def no_irqs_def upd_bh_def outb_def IRQ_BH_ACTIVE_def)
qed

text \<open>The handlers of a line, in order.\<close>

primrec call_all ::
    "(u32 \<Rightarrow> int \<Rightarrow> 'a irq_state_scheme \<Rightarrow> 'a irq_state_scheme option) \<Rightarrow> int \<Rightarrow> u32 list \<Rightarrow>
     'a irq_state_scheme \<Rightarrow> 'a irq_state_scheme option" where
  "call_all run n [] s = Some s"
| "call_all run n (f # fs) s = run f n s \<bind> call_all run n fs"

text \<open>What the controllers do with their mask register once they are initialised: reading a data port
  returns the byte last written to it, and other writes leave it alone, except ICW1 (bit 4 of a write to a
  command port), which restarts the initialisation. \<open>io_ok\<close>: writes without ICW1; \<open>quiet\<close>: and none to the
  masks.\<close>

definition io_ok :: "(u16 \<times> u8) list \<Rightarrow> bool" where
  "io_ok w \<longleftrightarrow> (\<forall>(q, v) \<in> set w. q = PIC_MASTER \<or> q = PIC_SLAVE \<longrightarrow> \<not> bit v 4)"

definition quiet :: "(u16 \<times> u8) list \<Rightarrow> bool" where
  "quiet w \<longleftrightarrow> io_ok w \<and> (\<forall>(q, v) \<in> set w. q \<noteq> PIC_MASTER_DATA \<and> q \<noteq> PIC_SLAVE_DATA)"

definition imr_law :: "device \<Rightarrow> (u16 \<times> u8) list \<Rightarrow> bool" where
  "imr_law dev h \<longleftrightarrow> (\<forall>w q v p. io_ok w \<longrightarrow> io_ok [(q, v)] \<longrightarrow> p = PIC_MASTER_DATA \<or> p = PIC_SLAVE_DATA \<longrightarrow>
     dev (h @ w @ [(q, v)]) p = (if q = p then v else dev (h @ w) p))"

lemma io_ok_simps [simp]:
  "io_ok []" "io_ok (v @ w) \<longleftrightarrow> io_ok v \<and> io_ok w"
  by (auto simp: io_ok_def)

lemma quiet_simps [simp]:
  "quiet []" "quiet (v @ w) \<longleftrightarrow> quiet v \<and> quiet w"
  by (auto simp: quiet_def)

lemma imr_data:
  assumes "imr_law dev h" "io_ok w" "p = PIC_MASTER_DATA \<or> p = PIC_SLAVE_DATA"
  shows "dev (h @ w @ [(p, v)]) p = v"
proof -
  have "io_ok [(p, v)]" using assms(3) by (auto simp: io_ok_def port_defs)
  then show ?thesis using assms unfolding imr_law_def by auto
qed

lemma imr_quiet:
  assumes "imr_law dev h" "io_ok w" "quiet w'" "p = PIC_MASTER_DATA \<or> p = PIC_SLAVE_DATA"
  shows "dev (h @ w @ w') p = dev (h @ w) p"
  using assms(3)
proof (induction w' rule: rev_induct)
  case (snoc x w')
  obtain q v where x: "x = (q, v)" by (cases x)
  have q: "io_ok [(q, v)]" "q \<noteq> p" "quiet w'" using snoc.prems assms(4) by (auto simp: quiet_def x)
  then have "io_ok (w @ w')" using assms(2) by (simp add: quiet_def)
  then have "dev (h @ (w @ w') @ [(q, v)]) p = dev (h @ (w @ w')) p"
    using assms(1,4) q unfolding imr_law_def by metis
  then show ?case using snoc.IH [OF q(3)] by (simp add: x)
qed simp

definition good_handlers ::
    "(u32 \<Rightarrow> int \<Rightarrow> 'a irq_state_scheme \<Rightarrow> 'a irq_state_scheme option) \<Rightarrow> bool" where
  "good_handlers run \<longleftrightarrow> (\<forall>f n s t. run f n s = Some t \<longrightarrow>
     (\<forall>i. irq_next (interrupts t i) = irq_next (interrupts s i) \<and>
          handler (interrupts t i) = handler (interrupts s i)) \<and>
     (\<exists>w. io t = io s @ w \<and> quiet w))"

lemma run_chain_all:
  assumes "good_handlers run" "slist (\<lambda>i. irq_next (interrupts s i)) (Some x) xs"
  shows "irq_run_chain run n x s = call_all run n (map (\<lambda>i. handler (interrupts s i)) xs) s"
  using assms(2)
proof (induction xs arbitrary: x s)
  case (Cons y ys)
  have y: "y = x" and ys: "slist (\<lambda>i. irq_next (interrupts s i)) (irq_next (interrupts s x)) ys"
    using Cons.prems by auto
  have "(case irq_next (interrupts t x) of None \<Rightarrow> Some t | Some i \<Rightarrow> irq_run_chain run n i t) =
      call_all run n (map (\<lambda>i. handler (interrupts s i)) ys) t"
    if "run (handler (interrupts s x)) n s = Some t" for t
  proof -
    have e: "(\<lambda>i. irq_next (interrupts t i)) = (\<lambda>i. irq_next (interrupts s i))"
      "(\<lambda>i. handler (interrupts t i)) = (\<lambda>i. handler (interrupts s i))"
      using assms(1) that unfolding good_handlers_def by (blast intro: ext)+
    have l: "slist (\<lambda>i. irq_next (interrupts t i)) (irq_next (interrupts t x)) ys"
      using ys e(1) by (simp add: fun_eq_iff)
    show ?thesis
    proof (cases "irq_next (interrupts t x)")
      case None
      then show ?thesis using l by simp
    next
      case (Some i)
      then show ?thesis using Cons.IH [of t i] l e(2) by simp
    qed
  qed
  then show ?case by (subst irq_run_chain.simps) (auto simp: y split: Option.bind_split)
qed simp

lemma call_all_quiet:
  "good_handlers run \<Longrightarrow> call_all run n fs s = Some t \<Longrightarrow> \<exists>w. io t = io s @ w \<and> quiet w"
proof (induction fs arbitrary: s)
  case (Cons f fs)
  then obtain u where u: "run f n s = Some u" "call_all run n fs u = Some t"
    by (auto split: Option.bind_splits)
  obtain w where "io u = io s @ w" "quiet w" using Cons.prems(1) u(1) unfolding good_handlers_def by blast
  moreover obtain w' where "io t = io u @ w'" "quiet w'" using Cons.IH [OF Cons.prems(1) u(2)] by blast
  ultimately show ?case by auto
qed auto

lemma ack_io: "\<exists>w. io (pic_irq_ack n s) = io s @ w \<and> quiet w"
  by (auto simp: pic_irq_ack_def Let_def outb_def quiet_def io_ok_def port_defs EOI_def)

lemma ack_state: "irq_table (pic_irq_ack n s) = irq_table s" "interrupts (pic_irq_ack n s) = interrupts s"
  by (simp_all add: pic_irq_ack_def Let_def outb_def)

lemma disable_state: "irq_table (irq_disable dev n s) = irq_table s" "interrupts (irq_disable dev n s) = interrupts s"
  by (simp_all add: irq_disable_def Let_def outb_def)

text \<open>The state in which the handlers of a line start.\<close>

definition handling :: "device \<Rightarrow> int \<Rightarrow> u32 \<Rightarrow> 'a irq_state_scheme \<Rightarrow> 'a irq_state_scheme" where
  "handling dev n irq s =
     upd_interrupt irq (\<lambda>i. i\<lparr>ticks := ticks i + 1\<rparr>) (pic_irq_ack n (irq_disable dev n s))"

lemma irq_handler_chain:
  assumes "0 \<le> n" "n < 16" "irq_chain s (nat n) xs" "xs \<noteq> []" "good_handlers run"
  shows "irq_handler run dev n s =
    map_option (irq_enable dev n)
      (call_all run n (map (\<lambda>i. handler (interrupts s i)) xs) (handling dev n (hd xs) s))"
proof -
  let ?h = "handling dev n (hd xs) s"
  have t: "irq_table s (nat n) = Some (hd xs)" using assms(3,4) by (cases xs) (auto simp: irq_chain_def)
  have e: "irq_next (interrupts ?h i) = irq_next (interrupts s i)" "handler (interrupts ?h i) = handler (interrupts s i)" for i
    by (simp_all add: handling_def upd_interrupt_def ack_state disable_state)
  have "slist (\<lambda>i. irq_next (interrupts ?h i)) (Some (hd xs)) xs"
    using assms(3) t by (simp add: irq_chain_def e)
  from run_chain_all [OF assms(5) this, of n]
  have "irq_run_chain run n (hd xs) ?h = call_all run n (map (\<lambda>i. handler (interrupts s i)) xs) ?h"
    by (simp add: e)
  then show ?thesis
    using assms(1,2) t
    by (cases "call_all run n (map (\<lambda>i. handler (interrupts s i)) xs) ?h")
      (simp_all add: irq_handler_def Let_def NUM_IRQS_def ack_state disable_state handling_def)
qed

text \<open>C17: for a line with handlers, \<open>irq_handler\<close> masks the line, acknowledges the interrupt, counts
  it, calls the handlers in the order of registration and unmasks the line: with well-behaved handlers the
  line is masked when the first of them starts, and at the end the mask differs from the one before
  the interrupt only in that the line is unmasked.\<close>

theorem irq_handler_masks_line:
  assumes "0 \<le> n" "n < 16" "irq_chain s (nat n) xs" "xs \<noteq> []" "good_handlers run" "imr_law dev (io s)"
  shows "bit (inb dev (pic_data_port n) (handling dev n (hd xs) s)) (nat (n AND 7)) \<and>
    ticks (interrupts (handling dev n (hd xs) s) (hd xs)) = ticks (interrupts s (hd xs)) + 1 \<and>
    irq_handler run dev n s = map_option (irq_enable dev n)
      (call_all run n (map (\<lambda>i. handler (interrupts s i)) xs) (handling dev n (hd xs) s)) \<and>
    (\<forall>t. irq_handler run dev n s = Some t \<longrightarrow>
       inb dev (pic_data_port n) t = inb dev (pic_data_port n) s AND NOT (push_bit (nat (n AND 7)) 1))"
proof -
  let ?p = "pic_data_port n" and ?b = "push_bit (nat (n AND 7)) 1 :: u8"
  let ?m = "dev (io s) ?p OR ?b"
  have p: "?p = PIC_MASTER_DATA \<or> ?p = PIC_SLAVE_DATA" by (simp add: pic_data_port_def)
  have "n AND 7 = take_bit 3 n" by (simp add: take_bit_eq_mask mask_eq_exp_minus_1)
  then have k: "nat (n AND 7) < 8" using take_bit_int_less_exp [of 3 n] by simp
  obtain w where w: "io (handling dev n (hd xs) s) = io s @ [(?p, ?m)] @ w" "quiet w"
    using ack_io [of n "irq_disable dev n s"]
    by (auto simp: handling_def upd_interrupt_def irq_disable_def Let_def outb_def inb_def)
  have ok: "io_ok [(?p, ?m)]" using p by (auto simp: io_ok_def port_defs)
  have d: "dev (io s @ [(?p, ?m)]) ?p = ?m" using imr_data [OF assms(6), of "[]" ?p] p by simp
  have m: "dev (io s @ [(?p, ?m)] @ w') ?p = ?m" if "quiet w'" for w'
    using imr_quiet [OF assms(6) ok that p] d by simp
  have "inb dev ?p t = inb dev ?p s AND NOT ?b" if ret: "irq_handler run dev n s = Some t" for t
  proof -
    obtain u where u: "call_all run n (map (\<lambda>i. handler (interrupts s i)) xs) (handling dev n (hd xs) s) = Some u"
      "t = irq_enable dev n u"
      using ret unfolding irq_handler_chain [OF assms(1-5), of dev] by auto
    obtain w2 where w2: "io u = io s @ [(?p, ?m)] @ (w @ w2)" "quiet (w @ w2)"
      using call_all_quiet [OF assms(5) u(1)] w by auto
    have "inb dev ?p u = ?m" using m [OF w2(2)] w2(1) by (simp add: inb_def)
    then have "io t = io u @ [(?p, ?m AND NOT ?b)]"
      by (simp add: u(2) irq_enable_def Let_def outb_def)
    moreover have "io_ok ([(?p, ?m)] @ w @ w2)" 
      using ok w2(2) unfolding quiet_def by (simp only: io_ok_simps)
    ultimately have "inb dev ?p t = ?m AND NOT ?b"
      using imr_data [OF assms(6), of "[(?p, ?m)] @ w @ w2" ?p] p w2(1) by (simp add: inb_def)
    also have "\<dots> = dev (io s) ?p AND NOT ?b" by (rule bit_word_eqI) (auto simp: bit_simps)
    finally show ?thesis by (simp add: inb_def)
  qed
  moreover have "bit (inb dev ?p (handling dev n (hd xs) s)) (nat (n AND 7))"
    using m [OF w(2)] w(1) k by (simp add: inb_def bit_simps)
  moreover have "ticks (interrupts (handling dev n (hd xs) s) (hd xs)) = ticks (interrupts s (hd xs)) + 1"
    by (simp add: handling_def upd_interrupt_def ack_state disable_state)
  ultimately show ?thesis using irq_handler_chain [OF assms(1-5), of dev] by blast
qed

text \<open>A controller that does what the law says: the mask is the last byte written to the data port.\<close>

definition last_write :: device where
  "last_write h p = (case filter (\<lambda>x. fst x = p) (rev h) of [] \<Rightarrow> 0xFF | x # _ \<Rightarrow> snd x)"

definition one_irq :: irq_state where
  "one_irq = no_irqs\<lparr>irq_table := (\<lambda>_. None)(9 := Some 1),
     interrupts := (\<lambda>a. \<lparr>ticks = 5, handler = 0x10 + a, irq_next = (if a = 1 then Some 2 else None)\<rparr>)\<rparr>"

theorem irq_handler_masks_line_witness:
  "\<exists>t. irq_handler (\<lambda>f n. log_call f) last_write 9 one_irq = Some t \<and> inb last_write 0xA1 t = 0xFD \<and>
    filter (\<lambda>x. fst x = 0) (io t) = [(0, 0x11), (0, 0x12)]"
proof -
  have "imr_law last_write (io one_irq)" by (simp add: imr_law_def last_write_def)
  moreover have "good_handlers (\<lambda>f n. log_call f)"
    by (simp add: good_handlers_def log_call_def outb_def quiet_def io_ok_def port_defs)
  moreover have c: "irq_chain one_irq (nat 9) [1, 2]" by (simp add: irq_chain_def one_irq_def)
  ultimately have "irq_handler (\<lambda>f n. log_call f) last_write 9 one_irq = map_option (irq_enable last_write 9)
      (call_all (\<lambda>f n. log_call f) 9 [0x11, 0x12] (handling last_write 9 1 one_irq))"
    and m: "irq_handler (\<lambda>f n. log_call f) last_write 9 one_irq = Some t \<Longrightarrow>
       inb last_write (pic_data_port 9) t = inb last_write (pic_data_port 9) one_irq AND NOT (push_bit (nat (9 AND 7)) 1)" for t
    using irq_handler_masks_line [of 9 one_irq "[1, 2]" "\<lambda>f n. log_call f" last_write]
    by (simp_all add: one_irq_def)
  moreover have "filter (\<lambda>x. fst x = 0) (io (irq_enable last_write 9 (outb 0 0x12 (outb 0 0x11 (handling last_write 9 1 one_irq)))))
     = [(0, 0x11), (0, 0x12)]"
    by (simp add: irq_enable_def handling_def pic_irq_ack_def irq_disable_def Let_def outb_def upd_interrupt_def
        pic_data_port_def one_irq_def no_irqs_def port_defs)
  ultimately show ?thesis
    using m by (simp add: log_call_def pic_data_port_def port_defs inb_def last_write_def one_irq_def no_irqs_def)
qed

text \<open>A spurious interrupt 15 of the slave (nothing in service): the comment asks for an end of interrupt
  to the master, which has seen a real one; the code tests \<open>irq_num < 7\<close> and sends none, so the
  master keeps the cascade line in service.\<close>

lemma spurious_slave_no_eoi:
  assumes "\<And>h p. dev h p = 0"
  shows "filter (\<lambda>x. x = (PIC_MASTER, EOI)) (io (irq_spurious_interrupt_handler dev 15 no_irqs)) = []"
  by (simp add: irq_spurious_interrupt_handler_def pic_get_irq_register_def Let_def outb_def inb_def assms
      no_irqs_def port_defs EOI_def PIC_READ_ISR_def)

end
