(* ===== verification/Timer.thy ===== *)
theory Timer
  imports Irq Lock
begin

text \<open>
  The timer, \<open>src/kernel/src/interrupt/timer.c\<close>: the clock interrupt and the list of timer tasks, in
  which each task keeps its delay relative to the task before it. A task is an index into \<open>tt_pool\<close>. The
  state extends that of \<open>Irq\<close>, whose lists hold the two bottom halves of the timer; the addresses of the
  three static objects of the file are fields. The functions called when tasks expire are a parameter.
  \<open>expires_at\<close> is a signed \<open>int\<close> whose overflow is undefined.
\<close>

section \<open>State\<close>

record timer_task =
  expires_at :: int
  tt_fn :: u32
  tt_arg :: u32
  tt_next :: "nat option"

record timer_state = irq_state +
  tt_pool :: "nat \<Rightarrow> timer_task"
  tt_pool_head :: "nat option"
  tt_head :: "nat option"
  tt_lock :: u32
  kticks :: u32
  system_time :: u32
  uptime :: u32
  timer_bh :: u32
  tt_bh :: u32
  timer_irq_config :: u32

definition HZ :: u32 where "HZ = 100"
definition TIMER_IRQ :: int where "TIMER_IRQ = 0"
definition NUM_TIMER_TASKS :: nat where "NUM_TIMER_TASKS = 64"
definition LOCK_TT :: u32 where "LOCK_TT = 2"

definition upd_tt :: "nat \<Rightarrow> (timer_task \<Rightarrow> timer_task) \<Rightarrow> 'a timer_state_scheme \<Rightarrow> 'a timer_state_scheme" where
  "upd_tt t f s = s\<lparr>tt_pool := (tt_pool s)(t := f (tt_pool s t))\<rparr>"

definition zero_task :: timer_task where
  "zero_task = \<lparr>expires_at = 0, tt_fn = 0, tt_arg = 0, tt_next = None\<rparr>"

section \<open>The clock interrupt\<close>

definition timer_irq :: "'a timer_state_scheme \<Rightarrow> 'a timer_state_scheme" where
  "timer_irq s =
     (let s = s\<lparr>kticks := kticks s + 1\<rparr>;
          s = (if kticks s mod HZ = 0
               then s\<lparr>system_time := system_time s + 1, uptime := uptime s + 1\<rparr> else s)
      in upd_bh (timer_bh s) (\<lambda>b. b\<lparr>bh_flags := bh_flags b OR IRQ_BH_ACTIVE\<rparr>) s)"

definition timer_irq_bh :: "'a timer_state_scheme \<Rightarrow> 'a timer_state_scheme" where
  "timer_irq_bh s = (case tt_head s of
       None \<Rightarrow> s
     | Some h \<Rightarrow>
         if expires_at (tt_pool s h) > 0 then
           (let s = upd_tt h (\<lambda>t. t\<lparr>expires_at := expires_at t - 1\<rparr>) s
            in if expires_at (tt_pool s h) = 0
               then upd_bh (tt_bh s) (\<lambda>b. b\<lparr>bh_flags := bh_flags b OR IRQ_BH_ACTIVE\<rparr>) s else s)
         else upd_bh (tt_bh s) (\<lambda>b. b\<lparr>bh_flags := bh_flags b OR IRQ_BH_ACTIVE\<rparr>) s)"

section \<open>Timer tasks\<close>

definition timer_task_init :: "nat \<Rightarrow> u32 \<Rightarrow> u32 \<Rightarrow> u32 \<Rightarrow> 'a timer_state_scheme \<Rightarrow> 'a timer_state_scheme" where
  "timer_task_init tt fn arg delay s =
     (let s = upd_tt tt (\<lambda>_. zero_task) s;
          s = upd_tt tt (\<lambda>t. t\<lparr>tt_fn := fn\<rparr>) s;
          s = upd_tt tt (\<lambda>t. t\<lparr>tt_arg := arg\<rparr>) s
      in upd_tt tt (\<lambda>t. t\<lparr>expires_at := sint delay\<rparr>) s)"

definition timer_task_free :: "nat \<Rightarrow> 'a timer_state_scheme \<Rightarrow> 'a timer_state_scheme" where
  "timer_task_free old s =
     (let s = upd_tt old (\<lambda>t. t\<lparr>tt_next := tt_pool_head s\<rparr>) s in s\<lparr>tt_pool_head := Some old\<rparr>)"

definition timer_task_get_free :: "'a timer_state_scheme \<Rightarrow> nat option \<times> 'a timer_state_scheme" where
  "timer_task_get_free s = (case tt_pool_head s of
       None \<Rightarrow> (None, s)
     | Some t \<Rightarrow>
        (let s = s\<lparr>tt_pool_head := tt_next (tt_pool s t)\<rparr>
         in (Some t, upd_tt t (\<lambda>x. x\<lparr>tt_next := None\<rparr>) s)))"

text \<open>The pointer to a pointer that the loops walk: \<open>&tt_head\<close>, then \<open>&t->next\<close>.\<close>

datatype tslot = Head | NextOf nat

fun read_tt :: "tslot \<Rightarrow> 'a timer_state_scheme \<Rightarrow> nat option" where
  "read_tt Head s = tt_head s"
| "read_tt (NextOf t) s = tt_next (tt_pool s t)"

fun write_tt :: "tslot \<Rightarrow> nat option \<Rightarrow> 'a timer_state_scheme \<Rightarrow> 'a timer_state_scheme" where
  "write_tt Head v s = s\<lparr>tt_head := v\<rparr>"
| "write_tt (NextOf t) v s = upd_tt t (\<lambda>x. x\<lparr>tt_next := v\<rparr>) s"

partial_function (option) tt_insert_loop ::
    "tslot \<Rightarrow> nat \<Rightarrow> 'a timer_state_scheme \<Rightarrow> 'a timer_state_scheme option" where
  "tt_insert_loop tmp tt s = (case read_tt tmp s of
       None \<Rightarrow> Some (write_tt tmp (Some tt) s)
     | Some c \<Rightarrow>
         if expires_at (tt_pool s c) > expires_at (tt_pool s tt) then do {
           e \<leftarrow> to_int (expires_at (tt_pool s c) - expires_at (tt_pool s tt));
           let s = upd_tt c (\<lambda>t. t\<lparr>expires_at := e\<rparr>) s;
           let s = upd_tt tt (\<lambda>t. t\<lparr>tt_next := Some c\<rparr>) s;
           Some (write_tt tmp (Some tt) s)
         } else do {
           e \<leftarrow> to_int (expires_at (tt_pool s tt) - expires_at (tt_pool s c));
           let s = upd_tt tt (\<lambda>t. t\<lparr>expires_at := e\<rparr>) s;
           tt_insert_loop (NextOf c) tt s
         })"

definition timer_task_insert :: "nat \<Rightarrow> 'a timer_state_scheme \<Rightarrow> 'a timer_state_scheme option" where
  "timer_task_insert tt s =
     (if tt_head s = None then Some (s\<lparr>tt_head := Some tt\<rparr>) else tt_insert_loop Head tt s)"

text \<open>The expired tasks: the loop stops at the first task that is not due, or when the lock is taken.\<close>

partial_function (option) timer_task_bh ::
    "(u32 \<Rightarrow> u32 \<Rightarrow> 'a timer_state_scheme \<Rightarrow> 'a timer_state_scheme option) \<Rightarrow> 'a timer_state_scheme \<Rightarrow>
     'a timer_state_scheme option" where
  "timer_task_bh run s = (case tt_head s of
       None \<Rightarrow> Some s
     | Some tt \<Rightarrow>
         if expires_at (tt_pool s tt) \<noteq> 0 then Some s
         else do {
           let (r, w) = simplelock_lock LOCK_TT (tt_lock s);
           let s = s\<lparr>tt_lock := w\<rparr>;
           if r \<noteq> 0 then Some s
           else do {
             let fn = tt_fn (tt_pool s tt);
             let arg = tt_arg (tt_pool s tt);
             let s = s\<lparr>tt_head := tt_next (tt_pool s tt)\<rparr>;
             let s = timer_task_free tt s;
             let s = s\<lparr>tt_lock := snd (simplelock_unlock LOCK_TT (tt_lock s))\<rparr>;
             s \<leftarrow> run fn arg s;
             timer_task_bh run s
           }
         })"

text \<open>\<open>timer_task_remove\<close>: the outer loop finds the first task of the request, the inner one the pointer
  that leads to it.\<close>

partial_function (option) tt_find ::
    "u32 \<Rightarrow> u32 \<Rightarrow> nat option \<Rightarrow> 'a timer_state_scheme \<Rightarrow> nat option option" where
  "tt_find fn arg tt s = (case tt of
       None \<Rightarrow> Some None
     | Some t \<Rightarrow> if tt_fn (tt_pool s t) = fn \<and> tt_arg (tt_pool s t) = arg then Some (Some t)
         else tt_find fn arg (tt_next (tt_pool s t)) s)"

partial_function (option) tt_remove_loop ::
    "tslot \<Rightarrow> nat \<Rightarrow> 'a timer_state_scheme \<Rightarrow> 'a timer_state_scheme option" where
  "tt_remove_loop tmp tt s = (case read_tt tmp s of
       None \<Rightarrow> Some s
     | Some c \<Rightarrow>
         if c = tt then do {
           s \<leftarrow> (case tt_next (tt_pool s c) of
               Some n \<Rightarrow> do {
                 let s = write_tt tmp (Some n) s;
                 e \<leftarrow> to_int (expires_at (tt_pool s n) + expires_at (tt_pool s tt));
                 Some (upd_tt n (\<lambda>t. t\<lparr>expires_at := e\<rparr>) s)
               }
             | None \<Rightarrow> Some (write_tt tmp None s));
           Some (timer_task_free tt s)
         } else tt_remove_loop (NextOf c) tt s)"

definition timer_task_remove :: "u32 \<Rightarrow> u32 \<Rightarrow> 'a timer_state_scheme \<Rightarrow> 'a timer_state_scheme option" where
  "timer_task_remove fn arg s = do {
     t \<leftarrow> tt_find fn arg (tt_head s) s;
     (case t of None \<Rightarrow> Some s | Some tt \<Rightarrow> tt_remove_loop Head tt s)
   }"

definition timer_task_add :: "u32 \<Rightarrow> u32 \<Rightarrow> u32 \<Rightarrow> 'a timer_state_scheme \<Rightarrow> 'a timer_state_scheme option" where
  "timer_task_add fn arg delay s = do {
     s \<leftarrow> timer_task_remove fn arg s;
     let (t, s) = timer_task_get_free s;
     (case t of
        None \<Rightarrow> Some s
      | Some tt \<Rightarrow> timer_task_insert tt (timer_task_init tt fn arg delay s))
   }"

text \<open>The loop \<open>while (--n)\<close> of \<open>timer_init\<close>: it frees the slots \<open>n - 1\<close> down to 1.\<close>

fun tt_pool_fill :: "nat \<Rightarrow> 'a timer_state_scheme \<Rightarrow> 'a timer_state_scheme" where
  "tt_pool_fill n s = (if n \<le> 1 then s else tt_pool_fill (n - 1) (timer_task_free (n - 1) s))"

declare tt_pool_fill.simps [simp del]

definition timer_init :: "device \<Rightarrow> 'a timer_state_scheme \<Rightarrow> 'a timer_state_scheme option" where
  "timer_init dev s = do {
     s \<leftarrow> irq_bottom_half_register (timer_bh s) s;
     s \<leftarrow> irq_bottom_half_register (tt_bh s) s;
     s \<leftarrow> pit_init (ucast HZ) s;
     let s = s\<lparr>tt_pool := (\<lambda>_. zero_task)\<rparr>;
     let s = s\<lparr>tt_pool_head := None\<rparr>;
     let s = tt_pool_fill NUM_TIMER_TASKS s;
     let s = s\<lparr>tt_head := None\<rparr>;
     (r, s) \<leftarrow> irq_register TIMER_IRQ (timer_irq_config s) s;
     Some (if r = RET_FAIL then irq_enable dev TIMER_IRQ s else s)
   }"

section \<open>Specification\<close>

text \<open>A schedule is a list of requests with the number of ticks left to each, in order. Adding puts a
  request behind those that are due no later; removing drops the first entry of the request; a tick
  brings every entry one nearer.\<close>

type_synonym schedule = "((u32 \<times> u32) \<times> int) list"

primrec sched_add :: "(u32 \<times> u32) \<Rightarrow> int \<Rightarrow> schedule \<Rightarrow> schedule" where
  "sched_add r e [] = [(r, e)]"
| "sched_add r e (x # xs) = (if snd x \<le> e then x # sched_add r e xs else (r, e) # x # xs)"

primrec sched_remove :: "(u32 \<times> u32) \<Rightarrow> schedule \<Rightarrow> schedule" where
  "sched_remove r [] = []"
| "sched_remove r (x # xs) = (if fst x = r then xs else x # sched_remove r xs)"

text \<open>The schedule that a list of relative delays stands for.\<close>

primrec absolute :: "int \<Rightarrow> schedule \<Rightarrow> schedule" where
  "absolute b [] = []"
| "absolute b (x # xs) = (fst x, b + snd x) # absolute (b + snd x) xs"

text \<open>The same operations on relative delays.\<close>

primrec delta_add :: "(u32 \<times> u32) \<Rightarrow> int \<Rightarrow> schedule \<Rightarrow> schedule" where
  "delta_add r e [] = [(r, e)]"
| "delta_add r e (x # xs) =
     (if snd x > e then (r, e) # (fst x, snd x - e) # xs else x # delta_add r (e - snd x) xs)"

definition bump :: "int \<Rightarrow> schedule \<Rightarrow> schedule" where
  "bump d xs = (case xs of [] \<Rightarrow> [] | y # ys \<Rightarrow> (fst y, snd y + d) # ys)"

primrec delta_remove :: "(u32 \<times> u32) \<Rightarrow> schedule \<Rightarrow> schedule" where
  "delta_remove r [] = []"
| "delta_remove r (x # xs) = (if fst x = r then bump (snd x) xs else x # delta_remove r xs)"

lemma absolute_add: "absolute b (delta_add r e xs) = sched_add r (b + e) (absolute b xs)"
  by (induction xs arbitrary: b e) auto

lemma absolute_bump: "absolute b (bump d xs) = absolute (b + d) xs"
  by (cases xs) (simp_all add: bump_def algebra_simps)

lemma absolute_tick: "map (\<lambda>x. (fst x, snd x - 1)) (absolute b xs) = absolute (b - 1) xs"
  by (induction xs arbitrary: b) (simp_all add: algebra_simps)

lemma absolute_remove: "absolute b (delta_remove r xs) = sched_remove r (absolute b xs)"
  by (induction xs arbitrary: b) (auto simp: absolute_bump)

definition delays_ok :: "schedule \<Rightarrow> bool" where
  "delays_ok xs \<longleftrightarrow> (\<forall>x \<in> set xs. 0 \<le> snd x) \<and> sum_list (map snd xs) \<le> INT_MAX"

lemma delays_sum: "\<forall>x \<in> set xs. 0 \<le> snd x \<Longrightarrow> 0 \<le> sum_list (map snd (xs :: schedule))"
  by (induction xs) auto

lemma delays_ok_Cons: "delays_ok (x # xs) \<Longrightarrow> 0 \<le> snd x \<and> snd x \<le> INT_MAX \<and> delays_ok xs"
proof -
  assume a: "delays_ok (x # xs)"
  have "0 \<le> sum_list (map snd xs)" using a by (simp add: delays_ok_def delays_sum)
  then show ?thesis using a by (auto simp: delays_ok_def)
qed

lemma delta_add_nonneg:
  "0 \<le> e \<Longrightarrow> \<forall>x \<in> set xs. 0 \<le> snd x \<Longrightarrow> \<forall>x \<in> set (delta_add r e xs). 0 \<le> snd x"
proof (induction xs arbitrary: e)
  case (Cons x xs)
  then show ?case using Cons.IH [of "e - snd x"] by (cases "snd x > e") auto
qed simp

lemma delta_add_sum:
  assumes "0 \<le> e" "\<forall>x \<in> set xs. 0 \<le> snd x"
  shows "sum_list (map snd (delta_add r e xs)) = max e (sum_list (map snd xs))"
  using assms
proof (induction xs arbitrary: e)
  case (Cons x xs)
  have "0 \<le> sum_list (map snd xs)" using Cons.prems by (simp add: delays_sum)
  then show ?case using Cons by (auto simp: max_def)
qed simp

lemma delta_add_ok: "0 \<le> e \<Longrightarrow> e \<le> INT_MAX \<Longrightarrow> delays_ok xs \<Longrightarrow> delays_ok (delta_add r e xs)"
  using delta_add_nonneg [of e xs r] delta_add_sum [of e xs r] by (simp add: delays_ok_def)

lemma bump_ok: "0 \<le> d \<Longrightarrow> d + sum_list (map snd xs) \<le> INT_MAX \<Longrightarrow> \<forall>x \<in> set xs. 0 \<le> snd x \<Longrightarrow>
    \<forall>x \<in> set (bump d xs). 0 \<le> snd x"
  by (cases xs) (auto simp: bump_def)

lemma delta_remove_ok: "delays_ok xs \<Longrightarrow> delays_ok (delta_remove r xs)"
proof -
  have "(\<forall>x \<in> set xs. 0 \<le> snd x) \<Longrightarrow>
    (\<forall>x \<in> set (delta_remove r xs). 0 \<le> snd x) \<and> sum_list (map snd (delta_remove r xs)) \<le> sum_list (map snd xs)"
  proof (induction xs)
    case (Cons x xs)
    have "0 \<le> snd x" "0 \<le> sum_list (map snd xs)" using Cons.prems by (simp_all add: delays_sum)
    then show ?case using Cons by (cases xs) (auto simp: bump_def)
  qed simp
  then show "delays_ok xs \<Longrightarrow> delays_ok (delta_remove r xs)" by (auto simp: delays_ok_def)
qed

section \<open>The list of tasks\<close>

abbreviation tt_nx :: "'a timer_state_scheme \<Rightarrow> nat \<Rightarrow> nat option" where
  "tt_nx s \<equiv> \<lambda>t. tt_next (tt_pool s t)"

definition entry :: "'a timer_state_scheme \<Rightarrow> nat \<Rightarrow> (u32 \<times> u32) \<times> int" where
  "entry s t = ((tt_fn (tt_pool s t), tt_arg (tt_pool s t)), expires_at (tt_pool s t))"

lemma entry_sel: "snd (entry s t) = expires_at (tt_pool s t)" "fst (entry s t) = (tt_fn (tt_pool s t), tt_arg (tt_pool s t))"
  by (simp_all add: entry_def)

text \<open>The invariant: \<open>xs\<close> are the tasks in the list and \<open>ps\<close> the free ones.\<close>

definition timer_inv :: "'a timer_state_scheme \<Rightarrow> nat list \<Rightarrow> nat list \<Rightarrow> bool" where
  "timer_inv s xs ps \<longleftrightarrow> slist (tt_nx s) (tt_head s) xs \<and> slist (tt_nx s) (tt_pool_head s) ps \<and>
     set xs \<inter> set ps = {} \<and> delays_ok (map (entry s) xs)"

definition schedule_of :: "'a timer_state_scheme \<Rightarrow> nat list \<Rightarrow> schedule" where
  "schedule_of s xs = absolute 0 (map (entry s) xs)"

text \<open>What the loops change: the list and the tasks in a set \<open>A\<close>.\<close>

definition only_tasks :: "nat set \<Rightarrow> 'a timer_state_scheme \<Rightarrow> 'a timer_state_scheme \<Rightarrow> bool" where
  "only_tasks A s s' \<longleftrightarrow> (\<forall>t. t \<notin> A \<longrightarrow> tt_pool s' t = tt_pool s t) \<and>
     s' = s\<lparr>tt_pool := tt_pool s', tt_head := tt_head s', tt_pool_head := tt_pool_head s'\<rparr>"

fun slot_set :: "tslot \<Rightarrow> nat set" where
  "slot_set Head = {}"
| "slot_set (NextOf t) = {t}"

lemma write_tt_pool: "tt_pool (write_tt tmp v s) t =
  (if t \<in> slot_set tmp then (tt_pool s t)\<lparr>tt_next := v\<rparr> else tt_pool s t)"
  by (cases tmp) (auto simp: upd_tt_def)

lemma write_tt_read: "read_tt tmp (write_tt tmp v s) = v"
  by (cases tmp) (auto simp: upd_tt_def)

lemma write_tt_heads:
  "tt_head (write_tt tmp v s) = (if tmp = Head then v else tt_head s)"
  "tt_pool_head (write_tt tmp v s) = tt_pool_head s"
  by (cases tmp; simp add: upd_tt_def)+

lemma write_tt_only: "only_tasks (slot_set tmp) s (write_tt tmp v s)"
  by (cases tmp) (auto simp: only_tasks_def upd_tt_def)

lemma upd_tt_only: "only_tasks {t} s (upd_tt t f s)"
  by (auto simp: only_tasks_def upd_tt_def)

lemma only_tasks_trans:
  assumes "only_tasks A s t" "only_tasks B t u"
  shows "only_tasks (A \<union> B) s u"
proof -
  have "u = s\<lparr>tt_pool := tt_pool u, tt_head := tt_head u, tt_pool_head := tt_pool_head u\<rparr>"
  proof -
    have t: "t = s\<lparr>tt_pool := tt_pool t, tt_head := tt_head t, tt_pool_head := tt_pool_head t\<rparr>"
      and u: "u = t\<lparr>tt_pool := tt_pool u, tt_head := tt_head u, tt_pool_head := tt_pool_head u\<rparr>"
      using assms by (auto simp: only_tasks_def)
    show ?thesis by (subst (1) u, subst (1) t) simp
  qed
  then show ?thesis using assms by (simp add: only_tasks_def)
qed

lemma only_tasks_mono: "only_tasks A s t \<Longrightarrow> A \<subseteq> B \<Longrightarrow> only_tasks B s t"
  by (auto simp: only_tasks_def)

lemma only_tasks_entry: "only_tasks A s t \<Longrightarrow> x \<notin> A \<Longrightarrow> entry t x = entry s x \<and> tt_nx t x = tt_nx s x"
  by (simp add: only_tasks_def entry_def)

lemma tt_insert_loop_list:
  assumes "slist (tt_nx s) (read_tt tmp s) ys" "tt \<notin> set ys" "tt \<notin> slot_set tmp" "slot_set tmp \<inter> set ys = {}"
    "tt_nx s tt = None" "delays_ok (map (entry s) ys)" "0 \<le> expires_at (tt_pool s tt)"
    "expires_at (tt_pool s tt) \<le> INT_MAX"
  shows "\<exists>s' zs. tt_insert_loop tmp tt s = Some s' \<and> slist (tt_nx s') (read_tt tmp s') zs \<and>
    set zs = insert tt (set ys) \<and>
    map (entry s') zs = delta_add (fst (entry s tt)) (expires_at (tt_pool s tt)) (map (entry s) ys) \<and>
    only_tasks (insert tt (set ys \<union> slot_set tmp)) s s' \<and>
    (\<forall>t \<in> slot_set tmp. entry s' t = entry s t) \<and> (tmp \<noteq> Head \<longrightarrow> tt_head s' = tt_head s) \<and>
    tt_pool_head s' = tt_pool_head s"
  using assms
proof (induction ys arbitrary: tmp s)
  case Nil
  let ?s' = "write_tt tmp (Some tt) s"
  have e: "entry ?s' t = entry s t" for t by (simp add: entry_def write_tt_pool)
  have "tt_insert_loop tmp tt s = Some ?s'" using Nil.prems by (simp add: tt_insert_loop.simps)
  moreover have "slist (tt_nx ?s') (read_tt tmp ?s') [tt]"
    using Nil.prems by (simp add: write_tt_read write_tt_pool)
  moreover have "only_tasks (insert tt (set [] \<union> slot_set tmp)) s ?s'"
    by (rule only_tasks_mono [OF write_tt_only]) auto
  ultimately show ?case using e
    by (intro exI [of _ ?s'] exI [of _ "[tt]"]) (auto simp: write_tt_heads entry_def)
next
  case (Cons c ys)
  have c: "read_tt tmp s = Some c" and sl: "slist (tt_nx s) (tt_nx s c) ys" using Cons.prems(1) by auto
  have cn: "c \<notin> set ys" "c \<noteq> tt" "c \<notin> slot_set tmp"
    using slist_distinct [OF Cons.prems(1)] Cons.prems(2,4) by auto
  have d: "0 \<le> expires_at (tt_pool s c)" "expires_at (tt_pool s c) \<le> INT_MAX" "delays_ok (map (entry s) ys)"
    using delays_ok_Cons [of "entry s c" "map (entry s) ys"] Cons.prems(6) by (simp_all add: entry_sel)
  show ?case
  proof (cases "expires_at (tt_pool s c) > expires_at (tt_pool s tt)")
    case True
    let ?e = "expires_at (tt_pool s c) - expires_at (tt_pool s tt)"
    let ?s1 = "upd_tt c (\<lambda>t. t\<lparr>expires_at := ?e\<rparr>) s"
    let ?s2 = "upd_tt tt (\<lambda>t. t\<lparr>tt_next := Some c\<rparr>) ?s1"
    let ?s' = "write_tt tmp (Some tt) ?s2"
    have e: "to_int ?e = Some ?e" using True Cons.prems(7) d by (simp add: INT_MIN_def)
    have p: "tt_pool ?s' t = (if t \<in> slot_set tmp then (tt_pool s t)\<lparr>tt_next := Some tt\<rparr>
        else if t = c then (tt_pool s t)\<lparr>expires_at := ?e\<rparr>
        else if t = tt then (tt_pool s t)\<lparr>tt_next := Some c\<rparr> else tt_pool s t)" for t
      using cn Cons.prems(3) by (simp add: write_tt_pool) (simp add: upd_tt_def)
    have en: "entry ?s' t = (if t = c then (fst (entry s c), ?e) else entry s t)" for t
      using cn p [of t] by (auto simp: entry_def)
    have nx: "tt_nx ?s' t = tt_nx s t" if "t \<in> set (c # ys)" for t
      using cn p [of t] that Cons.prems(2,4) by auto
    have "slist (tt_nx ?s') (tt_nx ?s' c) ys"
      using sl nx slist_cong [of ys "tt_nx s" "tt_nx ?s'"] by simp
    then have "slist (tt_nx ?s') (read_tt tmp ?s') (tt # c # ys)"
      using p [of tt] cn Cons.prems(3) by (simp add: write_tt_read)
    moreover have "tt_insert_loop tmp tt s = Some ?s'"
      using c True e by (subst tt_insert_loop.simps) (simp add: Let_def)
    moreover have "map (entry ?s') ys = map (entry s) ys" using en cn by auto
    moreover have "only_tasks (insert tt (set (c # ys) \<union> slot_set tmp)) s ?s'"
      by (rule only_tasks_mono [OF only_tasks_trans [OF only_tasks_trans [OF upd_tt_only upd_tt_only] write_tt_only]]) auto
    moreover have "\<forall>t \<in> slot_set tmp. entry ?s' t = entry s t" using en cn by auto
    ultimately show ?thesis using True en cn
      by (intro exI [of _ ?s'] exI [of _ "tt # c # ys"]) (simp add: write_tt_heads, auto simp: upd_tt_def entry_def)
  next
    case False
    let ?e = "expires_at (tt_pool s tt) - expires_at (tt_pool s c)"
    let ?s1 = "upd_tt tt (\<lambda>t. t\<lparr>expires_at := ?e\<rparr>) s"
    have e: "to_int ?e = Some ?e" using False Cons.prems(8) d by (simp add: INT_MIN_def)
    have p: "tt_pool ?s1 t = (if t = tt then (tt_pool s t)\<lparr>expires_at := ?e\<rparr> else tt_pool s t)" for t
      by (simp add: upd_tt_def)
    have nx1: "tt_nx ?s1 = tt_nx s" using p by auto
    have en1: "map (entry ?s1) ys = map (entry s) ys" using Cons.prems(2) p by (auto simp: entry_def)
    have q: "fst (entry ?s1 tt) = fst (entry s tt)" "expires_at (tt_pool ?s1 tt) = ?e"
      "tt_head ?s1 = tt_head s" "tt_pool_head ?s1 = tt_pool_head s"
      "(\<forall>t \<in> slot_set (NextOf c). entry s' t = entry ?s1 t) = (entry s' c = entry s c)" for s'
      using cn by (simp_all add: upd_tt_def entry_def)
    have "\<exists>s' zs. tt_insert_loop (NextOf c) tt ?s1 = Some s' \<and> slist (tt_nx s') (read_tt (NextOf c) s') zs \<and>
      set zs = insert tt (set ys) \<and>
      map (entry s') zs = delta_add (fst (entry ?s1 tt)) (expires_at (tt_pool ?s1 tt)) (map (entry ?s1) ys) \<and>
      only_tasks (insert tt (set ys \<union> slot_set (NextOf c))) ?s1 s' \<and>
      (\<forall>t \<in> slot_set (NextOf c). entry s' t = entry ?s1 t) \<and> (NextOf c \<noteq> Head \<longrightarrow> tt_head s' = tt_head ?s1) \<and>
      tt_pool_head s' = tt_pool_head ?s1"
    proof (rule Cons.IH)
      show "slist (tt_nx ?s1) (read_tt (NextOf c) ?s1) ys"
        using sl nx1 fun_cong [OF nx1, of c] by simp
      show "delays_ok (map (entry ?s1) ys)" unfolding en1 by (rule d(3))
      show "0 \<le> expires_at (tt_pool ?s1 tt)" "expires_at (tt_pool ?s1 tt) \<le> INT_MAX"
        using False d(1) Cons.prems(8) by (simp_all add: p)
      show "tt_nx ?s1 tt = None" using Cons.prems(5) by (simp add: p)
    qed (use Cons.prems(2) cn in auto)
    then obtain s' zs where r: "tt_insert_loop (NextOf c) tt ?s1 = Some s'" "slist (tt_nx s') (tt_nx s' c) zs"
      "set zs = insert tt (set ys)"
      "map (entry s') zs = delta_add (fst (entry s tt)) ?e (map (entry s) ys)"
      "only_tasks (insert tt (set ys \<union> {c})) ?s1 s'" "entry s' c = entry s c" "tt_head s' = tt_head s"
      "tt_pool_head s' = tt_pool_head s"
      unfolding en1 q by auto
    have o: "only_tasks (insert tt (set ys \<union> {c})) s s'"
      by (rule only_tasks_mono [OF only_tasks_trans [OF upd_tt_only r(5)]]) auto
    have slot: "t \<notin> insert tt (set ys \<union> {c})" if "t \<in> slot_set tmp" for t
      using that Cons.prems(3,4) by auto
    have "read_tt tmp s' = read_tt tmp s"
      using r(7) o slot by (cases tmp) (auto simp: only_tasks_def)
    then have "slist (tt_nx s') (read_tt tmp s') (c # zs)" using c r(2) by simp
    moreover have "tt_insert_loop tmp tt s = Some s'"
      using c False e r(1) by (subst tt_insert_loop.simps) (simp add: Let_def)
    moreover have "\<forall>t \<in> slot_set tmp. entry s' t = entry s t"
      using only_tasks_entry [OF o] slot by blast
    moreover have "only_tasks (insert tt (set (c # ys) \<union> slot_set tmp)) s s'"
      by (rule only_tasks_mono [OF o]) auto
    moreover have "set (c # zs) = insert tt (set (c # ys))" using r(3) by auto
    moreover have "map (entry s') (c # zs) =
        delta_add (fst (entry s tt)) (expires_at (tt_pool s tt)) (map (entry s) (c # ys))"
      using False r(4,6) by (simp add: entry_sel)
    ultimately show ?thesis using r(7,8) by blast
  qed
qed

lemma only_tasks_slist: "only_tasks A s t \<Longrightarrow> A \<inter> set xs = {} \<Longrightarrow> slist (tt_nx t) h xs = slist (tt_nx s) h xs"
  by (rule slist_cong) (auto simp: only_tasks_def)

lemma only_tasks_map: "only_tasks A s t \<Longrightarrow> A \<inter> set xs = {} \<Longrightarrow> map (entry t) xs = map (entry s) xs"
  using only_tasks_entry by (fastforce simp: map_eq_conv)

lemma timer_task_insert_inv:
  assumes "timer_inv s xs ps" "tt \<notin> set xs" "tt \<notin> set ps" "tt_nx s tt = None"
    "0 \<le> expires_at (tt_pool s tt)" "expires_at (tt_pool s tt) \<le> INT_MAX"
  shows "\<exists>s' zs. timer_task_insert tt s = Some s' \<and> timer_inv s' zs ps \<and> set zs = insert tt (set xs) \<and>
    map (entry s') zs = delta_add (fst (entry s tt)) (expires_at (tt_pool s tt)) (map (entry s) xs) \<and>
    only_tasks (insert tt (set xs)) s s'"
proof -
  have sl: "slist (tt_nx s) (tt_head s) xs" "slist (tt_nx s) (tt_pool_head s) ps" "set xs \<inter> set ps = {}"
    and d: "delays_ok (map (entry s) xs)" using assms(1) by (auto simp: timer_inv_def)
  have ok: "delays_ok (delta_add (fst (entry s tt)) (expires_at (tt_pool s tt)) (map (entry s) xs))"
    using delta_add_ok [OF assms(5,6) d] .
  show ?thesis
  proof (cases "tt_head s")
    case None
    let ?s' = "s\<lparr>tt_head := Some tt\<rparr>"
    have xs: "xs = []" using None sl(1) by simp
    have m: "map (entry ?s') [tt] = delta_add (fst (entry s tt)) (expires_at (tt_pool s tt)) (map (entry s) xs)"
      by (simp add: entry_def xs)
    have "timer_inv ?s' [tt] ps" unfolding timer_inv_def m using ok sl assms(3,4) by simp
    moreover have "only_tasks (insert tt (set xs)) s ?s'" by (simp add: only_tasks_def)
    ultimately show ?thesis using None m xs
      by (intro exI [of _ ?s'] exI [of _ "[tt]"]) (simp add: timer_task_insert_def)
  next
    case (Some h)
    obtain s' zs where r: "tt_insert_loop Head tt s = Some s'" "slist (tt_nx s') (tt_head s') zs"
      "set zs = insert tt (set xs)"
      "map (entry s') zs = delta_add (fst (entry s tt)) (expires_at (tt_pool s tt)) (map (entry s) xs)"
      "only_tasks (insert tt (set xs)) s s'" "tt_pool_head s' = tt_pool_head s"
      using tt_insert_loop_list [of s Head xs tt] sl(1) assms(2,4,5,6) d by auto
    have "slist (tt_nx s') (tt_pool_head s') ps"
      using only_tasks_slist [OF r(5), of ps] sl(2,3) assms(3) r(6) by auto
    then have "timer_inv s' zs ps" using r ok sl(3) assms(3) unfolding timer_inv_def by auto
    then show ?thesis using r Some by (auto simp: timer_task_insert_def)
  qed
qed

lemma free_only: "only_tasks {t} s (timer_task_free t s)"
  by (auto simp: only_tasks_def timer_task_free_def Let_def upd_tt_def)

lemma free_entry: "entry (timer_task_free t s) x = entry s x"
  by (auto simp: entry_def timer_task_free_def Let_def upd_tt_def)

lemma free_pool: "tt_pool_head (timer_task_free t s) = Some t" "tt_nx (timer_task_free t s) t = tt_pool_head s"
  "tt_head (timer_task_free t s) = tt_head s"
  by (simp_all add: timer_task_free_def Let_def upd_tt_def)

text \<open>Unlinking \<open>tt\<close> at the slot that points to it, and handing its delay on.\<close>

lemma tt_remove_here:
  assumes "slist (tt_nx s) (read_tt tmp s) (tt # vs)" "slot_set tmp \<inter> set (tt # vs) = {}"
    "delays_ok (map (entry s) (tt # vs))"
  shows "\<exists>s'. tt_remove_loop tmp tt s = Some s' \<and> slist (tt_nx s') (read_tt tmp s') vs \<and>
    map (entry s') vs = bump (expires_at (tt_pool s tt)) (map (entry s) vs) \<and>
    only_tasks (set (tt # vs) \<union> slot_set tmp) s s' \<and> (\<forall>t \<in> slot_set tmp. entry s' t = entry s t) \<and>
    (tmp \<noteq> Head \<longrightarrow> tt_head s' = tt_head s) \<and>
    tt_pool_head s' = Some tt \<and> tt_nx s' tt = tt_pool_head s"
proof (cases vs)
  case Nil
  let ?s1 = "write_tt tmp None s" and ?s' = "timer_task_free tt (write_tt tmp None s)"
  have "tt_remove_loop tmp tt s = Some ?s'"
    using assms(1) Nil by (subst tt_remove_loop.simps) simp
  moreover have "only_tasks (set (tt # vs) \<union> slot_set tmp) s ?s'"
    by (rule only_tasks_mono [OF only_tasks_trans [OF write_tt_only free_only]]) auto
  moreover have "read_tt tmp ?s' = None"
    using assms(2) by (cases tmp) (simp_all add: timer_task_free_def Let_def upd_tt_def)
  moreover have "entry ?s' t = entry s t" for t by (simp add: free_entry) (simp add: entry_def write_tt_pool)
  ultimately show ?thesis using Nil
    by (intro exI [of _ ?s']) (simp add: free_pool write_tt_heads bump_def)
next
  case (Cons n ws)
  let ?e = "expires_at (tt_pool s n) + expires_at (tt_pool s tt)"
  let ?s1 = "write_tt tmp (Some n) s"
  let ?s2 = "upd_tt n (\<lambda>t. t\<lparr>expires_at := ?e\<rparr>) ?s1"
  let ?s' = "timer_task_free tt ?s2"
  have ne: "n \<noteq> tt" "n \<notin> set ws" "tt \<notin> set ws" "n \<notin> slot_set tmp" "tt \<notin> slot_set tmp" "slot_set tmp \<inter> set ws = {}"
    using slist_distinct [OF assms(1)] assms(2) Cons by auto
  have nx: "tt_nx s tt = Some n" "slist (tt_nx s) (tt_nx s n) ws" using assms(1) Cons by auto
  have x: "expires_at (tt_pool ?s1 t) = expires_at (tt_pool s t)" for t by (simp add: write_tt_pool)
  have d: "0 \<le> expires_at (tt_pool s tt)" "delays_ok (map (entry s) vs)"
    using delays_ok_Cons [of "entry s tt" "map (entry s) vs"] assms(3) by (simp_all add: entry_sel)
  then have "0 \<le> expires_at (tt_pool s n)" "delays_ok (map (entry s) ws)"
    using delays_ok_Cons [of "entry s n" "map (entry s) ws"] Cons by (simp_all add: entry_sel)
  moreover have "expires_at (tt_pool s tt) + (expires_at (tt_pool s n) + sum_list (map snd (map (entry s) ws))) \<le> INT_MAX"
    using assms(3) Cons by (simp add: delays_ok_def entry_sel)
  moreover have "0 \<le> sum_list (map snd (map (entry s) ws))"
    by (rule delays_sum) (use calculation(2) in \<open>simp add: delays_ok_def\<close>)
  ultimately have e: "to_int ?e = Some ?e" using d(1) by (simp add: INT_MIN_def)
  have "tt_remove_loop tmp tt s = Some ?s'"
    using assms(1) nx e by (subst tt_remove_loop.simps) (simp add: Let_def x)
  moreover have o: "only_tasks (set (tt # vs) \<union> slot_set tmp) s ?s'"
    by (rule only_tasks_mono [OF only_tasks_trans [OF only_tasks_trans [OF write_tt_only upd_tt_only] free_only]])
      (use Cons in auto)
  moreover have p: "tt_pool ?s' t = (if t = tt then (tt_pool s t)\<lparr>tt_next := tt_pool_head s\<rparr>
      else if t = n then (tt_pool s t)\<lparr>expires_at := ?e\<rparr>
      else if t \<in> slot_set tmp then (tt_pool s t)\<lparr>tt_next := Some n\<rparr> else tt_pool s t)" for t
    using ne by (simp add: timer_task_free_def Let_def upd_tt_def write_tt_pool write_tt_heads)
  moreover have "read_tt tmp ?s' = Some n"
    using ne by (cases tmp) (simp_all add: timer_task_free_def Let_def upd_tt_def)
  moreover have "slist (tt_nx ?s') (tt_nx ?s' n) ws"
  proof -
    have "tt_nx ?s' t = tt_nx s t" if "t \<in> set (n # ws)" for t using ne that p [of t] by auto
    then show ?thesis using nx(2) slist_cong [of ws "tt_nx s" "tt_nx ?s'"] by simp
  qed
  moreover have "map (entry ?s') ws = map (entry s) ws" using ne p by (auto simp: entry_def)
  moreover have "entry ?s' n = (fst (entry s n), ?e)" using ne p by (simp add: entry_def)
  moreover have "\<forall>t \<in> slot_set tmp. entry ?s' t = entry s t" using ne p by (auto simp: entry_def)
  moreover have "tmp \<noteq> Head \<longrightarrow> tt_head ?s' = tt_head s"
    by (cases tmp) (simp_all add: upd_tt_def timer_task_free_def Let_def)
  moreover have "tt_pool_head ?s' = Some tt" "tt_nx ?s' tt = tt_pool_head s" using p by (simp_all add: free_pool)
  ultimately show ?thesis using Cons
    by (intro exI [of _ ?s']) (simp add: bump_def entry_sel)
qed

lemma tt_remove_loop_list:
  assumes "slist (tt_nx s) (read_tt tmp s) (us @ tt # vs)" "slot_set tmp \<inter> set (us @ tt # vs) = {}"
    "delays_ok (map (entry s) (us @ tt # vs))"
  shows "\<exists>s'. tt_remove_loop tmp tt s = Some s' \<and> slist (tt_nx s') (read_tt tmp s') (us @ vs) \<and>
    map (entry s') (us @ vs) = map (entry s) us @ bump (expires_at (tt_pool s tt)) (map (entry s) vs) \<and>
    only_tasks (set (us @ tt # vs) \<union> slot_set tmp) s s' \<and> (\<forall>t \<in> slot_set tmp. entry s' t = entry s t) \<and>
    (tmp \<noteq> Head \<longrightarrow> tt_head s' = tt_head s) \<and> tt_pool_head s' = Some tt \<and> tt_nx s' tt = tt_pool_head s"
  using assms
proof (induction us arbitrary: tmp)
  case Nil
  then show ?case using tt_remove_here [of s tmp tt vs] by simp
next
  case (Cons c us)
  have c: "read_tt tmp s = Some c" "c \<noteq> tt" "c \<notin> set us" "c \<notin> set vs"
    using Cons.prems(1) slist_distinct [OF Cons.prems(1)] by auto
  have "delays_ok (map (entry s) (us @ tt # vs))"
    using delays_ok_Cons [of "entry s c" "map (entry s) (us @ tt # vs)"] Cons.prems(3) by simp
  then obtain s' where r: "tt_remove_loop (NextOf c) tt s = Some s'" "slist (tt_nx s') (tt_nx s' c) (us @ vs)"
    "map (entry s') (us @ vs) = map (entry s) us @ bump (expires_at (tt_pool s tt)) (map (entry s) vs)"
    "only_tasks (set (us @ tt # vs) \<union> {c}) s s'" "entry s' c = entry s c" "tt_head s' = tt_head s"
    "tt_pool_head s' = Some tt" "tt_nx s' tt = tt_pool_head s"
    using Cons.IH [of "NextOf c"] Cons.prems(1) c by auto
  have slot: "t \<notin> set (us @ tt # vs) \<union> {c}" if "t \<in> slot_set tmp" for t using that Cons.prems(2) by auto
  have "read_tt tmp s' = read_tt tmp s"
    using r(4,6) slot by (cases tmp) (auto simp: only_tasks_def)
  then have "slist (tt_nx s') (read_tt tmp s') ((c # us) @ vs)" using c r(2) by simp
  moreover have "tt_remove_loop tmp tt s = Some s'" using c r(1) by (subst tt_remove_loop.simps) simp
  moreover have "\<forall>t \<in> slot_set tmp. entry s' t = entry s t" using only_tasks_entry [OF r(4)] slot by blast
  moreover have "only_tasks (set ((c # us) @ tt # vs) \<union> slot_set tmp) s s'"
    by (rule only_tasks_mono [OF r(4)]) auto
  ultimately show ?case using r(3,5-8) by auto
qed

lemma length_bump: "length (bump d xs) = length xs"
  by (cases xs) (simp_all add: bump_def)

lemma tt_find_list:
  "slist (tt_nx s) h xs \<Longrightarrow> tt_find fn arg h s = Some (find (\<lambda>t. fst (entry s t) = (fn, arg)) xs)"
proof (induction xs arbitrary: h)
  case (Cons x xs)
  then show ?case by (subst tt_find.simps) (simp add: entry_sel)
qed (simp add: tt_find.simps)

lemma find_first: "P x \<Longrightarrow> \<forall>u \<in> set us. \<not> P u \<Longrightarrow> find P (us @ x # vs) = Some x"
  by (induction us) auto

lemma delta_remove_first:
  "\<forall>a \<in> set as. fst a \<noteq> r \<Longrightarrow> delta_remove r (as @ (r, d) # bs) = as @ bump d bs"
  by (induction as) auto

lemma delta_remove_none: "\<forall>a \<in> set as. fst a \<noteq> r \<Longrightarrow> delta_remove r as = as"
  by (induction as) auto

lemma timer_task_remove_inv:
  assumes "timer_inv s xs ps"
  shows "\<exists>s' zs qs. timer_task_remove fn arg s = Some s' \<and> timer_inv s' zs qs \<and>
    map (entry s') zs = delta_remove (fn, arg) (map (entry s) xs) \<and>
    set zs \<union> set qs = set xs \<union> set ps \<and> length zs + length qs = length xs + length ps"
proof -
  have sl: "slist (tt_nx s) (tt_head s) xs" "slist (tt_nx s) (tt_pool_head s) ps" "set xs \<inter> set ps = {}"
    and d: "delays_ok (map (entry s) xs)" using assms(1) by (auto simp: timer_inv_def)
  have ok: "delays_ok (delta_remove (fn, arg) (map (entry s) xs))" by (rule delta_remove_ok [OF d])
  show ?thesis
  proof (cases "\<exists>t \<in> set xs. fst (entry s t) = (fn, arg)")
    case False
    then have "find (\<lambda>t. fst (entry s t) = (fn, arg)) xs = None" by (auto simp: find_None_iff)
    then have "timer_task_remove fn arg s = Some s"
      using tt_find_list [OF sl(1)] by (simp add: timer_task_remove_def)
    moreover have "map (entry s) xs = delta_remove (fn, arg) (map (entry s) xs)"
      using False by (intro delta_remove_none [symmetric]) auto
    ultimately show ?thesis using assms by blast
  next
    case True
    then obtain us tt vs where xs: "xs = us @ tt # vs" "fst (entry s tt) = (fn, arg)"
      "\<forall>u \<in> set us. fst (entry s u) \<noteq> (fn, arg)"
      using split_list_first_prop [OF True] by blast
    have f: "find (\<lambda>t. fst (entry s t) = (fn, arg)) xs = Some tt"
      unfolding xs(1) by (rule find_first) (use xs in auto)
    obtain s' where r: "tt_remove_loop Head tt s = Some s'" "slist (tt_nx s') (tt_head s') (us @ vs)"
      "map (entry s') (us @ vs) = map (entry s) us @ bump (expires_at (tt_pool s tt)) (map (entry s) vs)"
      "only_tasks (set xs) s s'" "tt_pool_head s' = Some tt" "tt_nx s' tt = tt_pool_head s"
      using tt_remove_loop_list [of s Head us tt vs] sl(1) d xs(1) by auto
    have "map (entry s) xs = map (entry s) us @ ((fn, arg), expires_at (tt_pool s tt)) # map (entry s) vs"
      using xs(1,2) by (simp add: entry_def)
    then have m: "map (entry s') (us @ vs) = delta_remove (fn, arg) (map (entry s) xs)"
      using r(3) delta_remove_first [of "map (entry s) us" "(fn, arg)"] xs(3) by simp
    have dx: "distinct xs" by (rule slist_distinct [OF sl(1)])
    have "slist (tt_nx s') (tt_pool_head s') (tt # ps)"
      using only_tasks_slist [OF r(4) sl(3)] sl(2) r(5,6) by simp
    then have "timer_inv s' (us @ vs) (tt # ps)"
      using r(2) m ok sl(3) dx xs(1) unfolding timer_inv_def by auto
    moreover have "timer_task_remove fn arg s = Some s'"
      using tt_find_list [OF sl(1)] f r(1) by (simp add: timer_task_remove_def)
    moreover have "set (us @ vs) \<union> set (tt # ps) = set xs \<union> set ps"
      "length (us @ vs) + length (tt # ps) = length xs + length ps" using xs(1) by auto
    ultimately show ?thesis using m by blast
  qed
qed

lemma get_free_inv:
  assumes "timer_inv s xs (p # ps)"
  shows "fst (timer_task_get_free s) = Some p"
    "timer_inv (timer_task_init p fn arg w (snd (timer_task_get_free s))) xs ps"
    "map (entry (timer_task_init p fn arg w (snd (timer_task_get_free s)))) xs = map (entry s) xs"
    "entry (timer_task_init p fn arg w (snd (timer_task_get_free s))) p = ((fn, arg), sint w)"
    "tt_nx (timer_task_init p fn arg w (snd (timer_task_get_free s))) p = None"
proof -
  let ?s' = "timer_task_init p fn arg w (snd (timer_task_get_free s))"
  have h: "tt_pool_head s = Some p" and ps: "slist (tt_nx s) (tt_nx s p) ps" "p \<notin> set xs"
    and d: "slist (tt_nx s) (tt_pool_head s) (p # ps)" using assms by (auto simp: timer_inv_def)
  have pn: "p \<notin> set ps" using slist_distinct [OF d] by simp
  show "fst (timer_task_get_free s) = Some p"
    using h by (simp add: timer_task_get_free_def Let_def)
  have q: "tt_pool ?s' t = (if t = p then \<lparr>expires_at = sint w, tt_fn = fn, tt_arg = arg, tt_next = None\<rparr>
      else tt_pool s t)" "tt_head ?s' = tt_head s" "tt_pool_head ?s' = tt_nx s p" for t
    using h by (simp_all add: timer_task_get_free_def timer_task_init_def Let_def upd_tt_def zero_task_def)
  then show e: "map (entry ?s') xs = map (entry s) xs" "entry ?s' p = ((fn, arg), sint w)" "tt_nx ?s' p = None"
    using ps(2) by (auto simp: entry_def)
  have "slist (tt_nx ?s') h' ys = slist (tt_nx s) h' ys" if "p \<notin> set ys" for h' ys
    by (rule slist_cong) (use that q(1) in auto)
  then show "timer_inv ?s' xs ps"
    using assms ps pn q(2,3) unfolding timer_inv_def e(1) by simp
qed

lemma timer_task_add_inv:
  assumes "timer_inv s xs ps" "0 \<le> sint w"
  shows "\<exists>s' zs qs. timer_task_add fn arg w s = Some s' \<and> timer_inv s' zs qs \<and>
    map (entry s') zs = (if ps = [] \<and> delta_remove (fn, arg) (map (entry s) xs) = map (entry s) xs
      then map (entry s) xs
      else delta_add (fn, arg) (sint w) (delta_remove (fn, arg) (map (entry s) xs))) \<and>
    set zs \<union> set qs = set xs \<union> set ps"
proof -
  obtain s1 ys rs where r: "timer_task_remove fn arg s = Some s1" "timer_inv s1 ys rs"
    "map (entry s1) ys = delta_remove (fn, arg) (map (entry s) xs)"
    "set ys \<union> set rs = set xs \<union> set ps" "length ys + length rs = length xs + length ps"
    using timer_task_remove_inv [OF assms(1), of fn arg] by blast
  have len: "length ys = length (delta_remove (fn, arg) (map (entry s) xs))" using r(3) by (metis length_map)
  have le: "length (delta_remove q zs) \<le> length zs" "length (delta_remove q zs) = length zs \<Longrightarrow> delta_remove q zs = zs" for q zs
    by (induction zs) (auto simp: length_bump)
  show ?thesis
  proof (cases rs)
    case Nil
    then have "length ys = length xs + length ps" using r(5) by simp
    then have "ps = []" "delta_remove (fn, arg) (map (entry s) xs) = map (entry s) xs"
      using len le [of "(fn, arg)" "map (entry s) xs"] by auto
    moreover have "timer_task_add fn arg w s = Some s1"
      using r(1,2) Nil by (simp add: timer_task_add_def timer_inv_def timer_task_get_free_def)
    ultimately show ?thesis using r(2-4) Nil
      by (intro exI [of _ s1] exI [of _ ys] exI [of _ "[]"]) simp
  next
    case (Cons p qs)
    have inv1: "timer_inv s1 ys (p # qs)" using r(2) Cons by simp
    let ?s2 = "timer_task_init p fn arg w (snd (timer_task_get_free s1))"
    note g1 = get_free_inv(1) [OF inv1] and g = get_free_inv(2-5) [OF inv1, of fn arg w]
    have pn: "p \<notin> set ys" "p \<notin> set qs"
      using inv1 slist_distinct [of "tt_nx s1" "tt_pool_head s1" "p # qs"] unfolding timer_inv_def by auto
    have w: "expires_at (tt_pool ?s2 p) = sint w" "fst (entry ?s2 p) = (fn, arg)"
      using arg_cong [OF g(3), of snd] arg_cong [OF g(3), of fst] by (simp_all add: entry_sel)
    have b: "sint w \<le> INT_MAX" using sint_less [of w] by (simp add: INT_MAX_def)
    obtain s' zs where t: "timer_task_insert p ?s2 = Some s'" "timer_inv s' zs qs" "set zs = insert p (set ys)"
      "map (entry s') zs = delta_add (fn, arg) (sint w) (map (entry ?s2) ys)"
      using timer_task_insert_inv [OF g(1) pn g(4)] assms(2) b w by auto
    have "timer_task_add fn arg w s = Some s'"
      using r(1) t(1) by (simp add: timer_task_add_def g1 Let_def case_prod_beta)
    moreover have "\<not> (ps = [] \<and> delta_remove (fn, arg) (map (entry s) xs) = map (entry s) xs)"
      using len r(5) Cons by auto
    moreover have "set zs \<union> set qs = set xs \<union> set ps" using t(3) r(4) Cons by auto
    ultimately show ?thesis using t(2,4) g(2) r(3) by auto
  qed
qed


lemma tick_brings_nearer:
  assumes "timer_inv s xs ps" "xs \<noteq> []" "0 < snd (hd (schedule_of s xs))"
  shows "timer_inv (timer_irq_bh s) xs ps \<and>
    schedule_of (timer_irq_bh s) xs = map (\<lambda>x. (fst x, snd x - 1)) (schedule_of s xs) \<and>
    (bit (bh_flags (bhs (timer_irq_bh s) (tt_bh s))) 0 \<longleftrightarrow>
      snd (hd (schedule_of (timer_irq_bh s) xs)) = 0 \<or> bit (bh_flags (bhs s (tt_bh s))) 0)"
proof -
  obtain x ys where xs: "xs = x # ys" using assms(2) by (cases xs) auto
  have h: "tt_head s = Some x" and e0: "0 < expires_at (tt_pool s x)"
    using assms(1,3) xs by (auto simp: timer_inv_def schedule_of_def entry_sel)
  have xn: "x \<notin> set ys" "x \<notin> set ps" using assms(1) xs slist_distinct [of "tt_nx s" "tt_head s" xs]
    by (auto simp: timer_inv_def)
  let ?t = "timer_irq_bh s"
  have p: "tt_pool ?t = (tt_pool s)(x := (tt_pool s x)\<lparr>expires_at := expires_at (tt_pool s x) - 1\<rparr>)"
    "tt_head ?t = tt_head s" "tt_pool_head ?t = tt_pool_head s"
    using h e0 by (simp_all add: timer_irq_bh_def Let_def upd_tt_def upd_bh_def)
  have nx: "tt_nx ?t = tt_nx s" by (rule ext) (simp add: p)
  have en: "map (entry ?t) xs = (fst (entry s x), expires_at (tt_pool s x) - 1) # map (entry s) ys"
    using xn xs p by (auto simp: entry_def)
  have sch: "schedule_of ?t xs = map (\<lambda>x. (fst x, snd x - 1)) (schedule_of s xs)"
    unfolding schedule_of_def en using xs by (simp add: entry_sel absolute_tick)
  have "delays_ok (map (entry ?t) xs)"
    unfolding en using assms(1) e0 xs by (auto simp: timer_inv_def delays_ok_def entry_sel)
  then have "timer_inv ?t xs ps" using assms(1) p unfolding timer_inv_def nx by simp
  moreover have "bit (bh_flags (bhs ?t (tt_bh s))) 0 \<longleftrightarrow>
      expires_at (tt_pool s x) - 1 = 0 \<or> bit (bh_flags (bhs s (tt_bh s))) 0"
    using h e0 by (simp add: timer_irq_bh_def Let_def upd_tt_def upd_bh_def IRQ_BH_ACTIVE_def bit_simps)
  moreover have "snd (hd (schedule_of ?t xs)) = expires_at (tt_pool s x) - 1"
    unfolding sch using xs by (simp add: schedule_of_def entry_sel)
  ultimately show ?thesis using sch by simp
qed


text \<open>Callbacks that leave the timer alone and record their call.\<close>

definition record_call ::
    "u32 \<Rightarrow> u32 \<Rightarrow> (u32 \<times> u32) list timer_state_scheme \<Rightarrow> (u32 \<times> u32) list timer_state_scheme option" where
  "record_call fn arg s = Some (timer_state.more_update (\<lambda>l. l @ [(fn, arg)]) s)"

text \<open>What the expiry handler and such callbacks leave alone.\<close>

definition same_irq :: "'a timer_state_scheme \<Rightarrow> 'b timer_state_scheme \<Rightarrow> bool" where
  "same_irq s s' \<longleftrightarrow> irq_table s' = irq_table s \<and> interrupts s' = interrupts s \<and> bh_table s' = bh_table s \<and>
     bhs s' = bhs s \<and> io s' = io s \<and> kticks s' = kticks s \<and> timer_bh s' = timer_bh s \<and> tt_bh s' = tt_bh s \<and>
     timer_irq_config s' = timer_irq_config s"

text \<open>One round of the expiry handler: the first task is due, its function is called and its slot freed.\<close>

lemma fire_one:
  assumes "timer_inv s (x # xs) ps" "\<not> bit (tt_lock s) 1" "expires_at (tt_pool s x) = 0"
  shows "\<exists>s4. timer_task_bh record_call s = timer_task_bh record_call s4 \<and> timer_inv s4 xs (x # ps) \<and>
    \<not> bit (tt_lock s4) 1 \<and> (\<forall>t. snd (entry s4 t) = snd (entry s t)) \<and> schedule_of s4 xs = schedule_of s xs \<and>
    timer_state.more s4 = timer_state.more s @ [(tt_fn (tt_pool s x), tt_arg (tt_pool s x))] \<and> same_irq s s4"
proof -
  have h: "tt_head s = Some x" and x: "x \<notin> set xs" "x \<notin> set ps"
    using assms(1) slist_distinct [of "tt_nx s" "tt_head s" "x # xs"] by (auto simp: timer_inv_def)
  let ?s1 = "s\<lparr>tt_lock := snd (simplelock_lock LOCK_TT (tt_lock s))\<rparr>"
  let ?s2 = "timer_task_free x (?s1\<lparr>tt_head := tt_next (tt_pool s x)\<rparr>)"
  let ?s3 = "?s2\<lparr>tt_lock := snd (simplelock_unlock LOCK_TT (tt_lock ?s2))\<rparr>"
  let ?s4 = "timer_state.more_update (\<lambda>l. l @ [(tt_fn (tt_pool s x), tt_arg (tt_pool s x))]) ?s3"
  have bits: "bit LOCK_TT i \<longleftrightarrow> i = 1" for i
    by (auto simp: LOCK_TT_def bit_2_iff)
  have l: "fst (simplelock_lock LOCK_TT (tt_lock s)) = 0"
    using assms(2) bits by (simp add: simple.lock_free)
  have l4: "\<not> bit (tt_lock ?s4) 1"
    using simple.unlock_held [of LOCK_TT "tt_lock ?s2" 1] bits by simp
  have p: "tt_pool ?s4 t = (if t = x then (tt_pool s x)\<lparr>tt_next := tt_pool_head s\<rparr> else tt_pool s t)"
    "tt_head ?s4 = tt_nx s x" "tt_pool_head ?s4 = Some x" for t
    by (simp_all add: timer_task_free_def Let_def upd_tt_def)
  have sl: "slist (tt_nx ?s4) h' ys = slist (tt_nx s) h' ys" if "x \<notin> set ys" for h' ys
    by (rule slist_cong) (use that p(1) in auto)
  have en: "map (entry ?s4) xs = map (entry s) xs" using x p(1) by (auto simp: entry_def)
  have "delays_ok (map (entry s) xs)"
    using delays_ok_Cons [of "entry s x" "map (entry s) xs"] assms(1) by (simp add: timer_inv_def)
  then have inv: "timer_inv ?s4 xs (x # ps)"
    using assms(1) x sl p unfolding timer_inv_def en by simp
  have step: "timer_task_bh record_call s = timer_task_bh record_call ?s4"
    using h assms(3) l by (subst timer_task_bh.simps)
      (simp add: Let_def record_call_def case_prod_beta split: prod.split)
  have P: "snd (entry ?s4 t) = snd (entry s t)" for t by (simp only: entry_sel p(1), simp)
  have sch: "schedule_of ?s4 xs = schedule_of s xs" by (simp only: schedule_of_def en)
  have m: "timer_state.more ?s4 = timer_state.more s @ [(tt_fn (tt_pool s x), tt_arg (tt_pool s x))]"
    by (simp add: timer_task_free_def Let_def upd_tt_def)
  have fr: "same_irq s ?s4" by (simp add: same_irq_def timer_task_free_def Let_def upd_tt_def)
  show ?thesis using step inv l4 P sch m fr by (intro exI [of _ ?s4] conjI allI)
qed

lemma expired_tasks_fire:
  assumes "timer_inv s xs ps" "\<not> bit (tt_lock s) 1"
  shows "\<exists>s' qs. timer_task_bh record_call s = Some s' \<and>
    timer_inv s' (dropWhile (\<lambda>t. snd (entry s t) = 0) xs) qs \<and>
    schedule_of s' (dropWhile (\<lambda>t. snd (entry s t) = 0) xs) = dropWhile (\<lambda>x. snd x = 0) (schedule_of s xs) \<and>
    timer_state.more s' = timer_state.more s @ map fst (takeWhile (\<lambda>x. snd x = 0) (schedule_of s xs)) \<and>
    set qs = set ps \<union> set (takeWhile (\<lambda>t. snd (entry s t) = 0) xs) \<and> \<not> bit (tt_lock s') 1 \<and> same_irq s s'"
  using assms
proof (induction xs arbitrary: s ps)
  case Nil
  then show ?case
    by (intro exI [of _ s] exI [of _ ps]) (simp add: timer_task_bh.simps timer_inv_def schedule_of_def same_irq_def)
next
  case (Cons x xs)
  have h: "tt_head s = Some x" and x: "x \<notin> set xs" "x \<notin> set ps"
    using Cons.prems(1) slist_distinct [of "tt_nx s" "tt_head s" "x # xs"] by (auto simp: timer_inv_def)
  show ?case
  proof (cases "expires_at (tt_pool s x) = 0")
    case False
    then show ?thesis using Cons.prems h
      by (intro exI [of _ s] exI [of _ ps])
        (simp add: timer_task_bh.simps schedule_of_def entry_sel same_irq_def)
  next
    case True
    have sx: "schedule_of s (x # xs) = ((tt_fn (tt_pool s x), tt_arg (tt_pool s x)), 0) # schedule_of s xs"
      using True by (simp add: schedule_of_def entry_def)
    obtain s4 where 4: "timer_task_bh record_call s = timer_task_bh record_call s4" "timer_inv s4 xs (x # ps)"
      "\<not> bit (tt_lock s4) 1" "\<And>t. snd (entry s4 t) = snd (entry s t)" "schedule_of s4 xs = schedule_of s xs"
      "timer_state.more s4 = timer_state.more s @ [(tt_fn (tt_pool s x), tt_arg (tt_pool s x))]" "same_irq s s4"
      using fire_one [OF Cons.prems True] by blast
    show ?thesis
      using Cons.IH [OF 4(2,3)] True 4(7) unfolding 4(1,4-6) sx by (auto simp: entry_sel same_irq_def)
  qed
qed

text \<open>C25: the expiry handler calls the functions of exactly the tasks that are due, in the order of the
  schedule, each with its argument; it returns their slots to the pool, leaves the rest of the schedule as
  it was, and gives the lock back.\<close>

theorem timer_bh_fires:
  assumes "timer_inv s xs ps" "\<not> bit (tt_lock s) 1"
  shows "\<exists>s' qs. timer_task_bh record_call s = Some s' \<and>
    timer_inv s' (dropWhile (\<lambda>t. snd (entry s t) = 0) xs) qs \<and>
    schedule_of s' (dropWhile (\<lambda>t. snd (entry s t) = 0) xs) = dropWhile (\<lambda>x. snd x = 0) (schedule_of s xs) \<and>
    timer_state.more s' = timer_state.more s @ map fst (takeWhile (\<lambda>x. snd x = 0) (schedule_of s xs)) \<and>
    set qs = set ps \<union> set (takeWhile (\<lambda>t. snd (entry s t) = 0) xs) \<and> \<not> bit (tt_lock s') 1"
  using expired_tasks_fire [OF assms] by blast

definition idle_timer :: "(u32 \<times> u32) list timer_state_scheme" where
  "idle_timer = timer_state.extend
     (irq_state.extend no_irqs (timer_state.fields
       (\<lambda>t. \<lparr>expires_at = (if t = 7 then 3 else 2), tt_fn = 0x100, tt_arg = of_nat t,
          tt_next = (if t = 7 then Some 2 else if t = 3 then Some 4 else None)\<rparr>)
       (Some 3) (Some 7) 0 7 0 0 0x50 0x60 0x70)) []"

lemma idle_inv: "timer_inv idle_timer [7, 2] [3, 4]"
  by (simp add: timer_inv_def idle_timer_def timer_state.defs irq_state.defs delays_ok_def entry_def INT_MAX_def)

lemma idle_schedule: "schedule_of idle_timer [7, 2] = [((0x100, 7), 3), ((0x100, 2), 5)]"
  by (simp add: schedule_of_def idle_timer_def timer_state.defs irq_state.defs entry_def)



definition due_timer :: "(u32 \<times> u32) list timer_state_scheme" where
  "due_timer = upd_tt 7 (\<lambda>t. t\<lparr>expires_at := 0\<rparr>) idle_timer"

theorem timer_bh_fires_witness:
  "\<exists>s. timer_task_bh record_call due_timer = Some s \<and> timer_state.more s = [(0x100, 7)]"
proof -
  have i: "timer_inv due_timer [7, 2] [3, 4]"
    by (simp add: due_timer_def upd_tt_def timer_inv_def idle_timer_def timer_state.defs irq_state.defs
        delays_ok_def entry_def INT_MAX_def)
  have l: "\<not> bit (tt_lock due_timer) 1" "timer_state.more due_timer = []"
    "schedule_of due_timer [7, 2] = [((0x100, 7), 0), ((0x100, 2), 2)]"
    by (simp_all add: due_timer_def upd_tt_def idle_timer_def timer_state.defs irq_state.defs schedule_of_def entry_def)
  show ?thesis using timer_bh_fires [OF i l(1)] by (auto simp: l(2,3))
qed

section \<open>Initialisation\<close>

lemma bh_register_frame:
  "irq_bottom_half_register new s = Some s' \<Longrightarrow> \<exists>t b. s' = s\<lparr>bh_table := t, bhs := b\<rparr>"
proof -
  have "\<exists>t b. write_bh k v s = s\<lparr>bh_table := t, bhs := b\<rparr>" for k v
  proof (cases k)
    case Table
    then show ?thesis by (intro exI [of _ v] exI [of _ "bhs s"]) simp
  next
    case (Next x)
    then show ?thesis
      by (intro exI [of _ "bh_table s"] exI [of _ "(bhs s)(x := (bhs s x)\<lparr>bh_next := v\<rparr>)"]) (simp add: upd_bh_def)
  qed
  then show "irq_bottom_half_register new s = Some s' \<Longrightarrow> \<exists>t b. s' = s\<lparr>bh_table := t, bhs := b\<rparr>"
    by (auto simp: irq_bottom_half_register_def split: Option.bind_splits)
qed

lemma tt_pool_fill_list:
  "slist (tt_nx s) (tt_pool_head s) xs \<Longrightarrow> set xs \<inter> {1..<n} = {} \<Longrightarrow>
    slist (tt_nx (tt_pool_fill n s)) (tt_pool_head (tt_pool_fill n s)) ([1..<n] @ xs) \<and>
    (\<exists>p h. tt_pool_fill n s = s\<lparr>tt_pool := p, tt_pool_head := h\<rparr>)"
proof (induction n s arbitrary: xs rule: tt_pool_fill.induct)
  case (1 n s)
  show ?case
  proof (cases "n \<le> 1")
    case True
    then have "tt_pool_fill n s = s" "[1..<n] = []" by (simp_all add: tt_pool_fill.simps)
    then show ?thesis using 1(2)
      by (metis append_Nil timer_state.surjective timer_state.update_convs(1,2))
  next
    case False
    let ?t = "timer_task_free (n - 1) s"
    have "n - 1 \<notin> set xs" using 1(3) False by auto
    then have "slist (tt_nx ?t) (tt_pool_head ?t) ((n - 1) # xs)"
      using 1(2) free_pool [of "n - 1" s] only_tasks_slist [OF free_only, of "n - 1" xs s] by simp
    moreover have "set ((n - 1) # xs) \<inter> {1..<n - 1} = {}"
    proof -
      have "{1..<n - 1} \<subseteq> {1..<n}" by auto
      then show ?thesis using 1(3) by fastforce
    qed
    moreover have "[1..<n] @ xs = [1..<n - 1] @ (n - 1) # xs"
      using False upt_Suc_append [of 1 "n - 1"] by simp
    moreover have "tt_pool_fill n s = tt_pool_fill (n - 1) ?t" using False by (simp add: tt_pool_fill.simps)
    moreover have "\<exists>p h. ?t = s\<lparr>tt_pool := p, tt_pool_head := h\<rparr>"
      by (simp add: timer_task_free_def Let_def upd_tt_def) blast
    ultimately show ?thesis using 1(1) [OF False, of "(n - 1) # xs"] by force
  qed
qed

lemma irq_register_ok:
  assumes "irq_chain s 0 xs" "new \<notin> set xs" "irq_next (interrupts s new) = None"
  shows "\<exists>t i. irq_register TIMER_IRQ new s = Some (RET_OK, s\<lparr>irq_table := t, interrupts := i\<rparr>) \<and>
    irq_chain (s\<lparr>irq_table := t, interrupts := i\<rparr>) 0 (xs @ [new])"
proof -
  let ?k = "if xs = [] then Table else Next (last xs)"
  let ?s' = "upd_interrupt new (\<lambda>i. i\<lparr>ticks := 0\<rparr>) (write_irq 0 ?k (Some new) s)"
  have "irq_register TIMER_IRQ new s = Some (RET_OK, ?s')"
    using irq_end_chain [of s 0 Table xs new] assms(1,2)
    by (simp add: irq_register_def NUM_IRQS_def TIMER_IRQ_def irq_chain_def)
  moreover have "irq_chain ?s' 0 (xs @ [new])" using write_irq_end(1) [OF assms] by simp
  moreover have "\<exists>t i. ?s' = s\<lparr>irq_table := t, interrupts := i\<rparr>"
  proof (cases ?k)
    case Table
    then show ?thesis
      by (intro exI [of _ "(irq_table s)(0 := Some new)"] exI [of _ "interrupts ?s'"]) (simp add: upd_interrupt_def)
  next
    case (Next x)
    then show ?thesis
      by (intro exI [of _ "irq_table s"] exI [of _ "interrupts ?s'"]) (simp add: upd_interrupt_def)
  qed
  ultimately show ?thesis by metis
qed

lemma pit_init_100: "pit_init (ucast HZ) s = Some (s\<lparr>io := io s @ [(0x43, 0x34), (0x40, 0x9B), (0x40, 0x2E)]\<rparr>)"
proof -
  have "c_div OSCIL (uint (ucast HZ :: u16)) = Some 11931"
    by (simp add: c_div_pos OSCIL_def HZ_def INT_MAX_def)
  moreover have "(11931 AND 0xFF :: int) = 0x9B" "drop_bit 8 (11931 :: int) = 0x2E" by (simp_all add: drop_bit_eq_div)
  ultimately show ?thesis
    by (simp add: pit_init_def Let_def outb_def MODEREG_def CHANNEL0_def SEL_CHAN0_def LSB_MSB_def RATE_GEN_def
        BINARY_CTR_def)
qed

text \<open>\<open>timer_init\<close> installs the two bottom halves behind those registered, programs the interval
  timer for 100 Hz, leaves no task scheduled and the clock handler registered on line 0. Two things are not
  as meant: slot 0 of the pool is never freed, so 63 of the 64 slots are usable, and line 0 is unmasked only
  when the registration fails, so the mask registers are not written at all.\<close>

theorem timer_init_state:
  assumes "bh_chain s bs" "timer_bh s \<notin> set bs" "tt_bh s \<notin> set bs" "timer_bh s \<noteq> tt_bh s"
    "bh_next (bhs s (timer_bh s)) = None" "bh_next (bhs s (tt_bh s)) = None"
    "irq_chain s 0 xs" "timer_irq_config s \<notin> set xs" "irq_next (interrupts s (timer_irq_config s)) = None"
  shows "\<exists>s'. timer_init dev s = Some s' \<and> bh_chain s' (bs @ [timer_bh s, tt_bh s]) \<and>
    irq_chain s' 0 (xs @ [timer_irq_config s]) \<and> timer_inv s' [] [1..<64] \<and>
    io s' = io s @ [(0x43, 0x34), (0x40, 0x9B), (0x40, 0x2E)]"
proof -
  obtain t1 b1 where r1: "irq_bottom_half_register (timer_bh s) s = Some (s\<lparr>bh_table := t1, bhs := b1\<rparr>)"
    using bh_register_chain [OF assms(1,2,5)] bh_register_frame by metis
  let ?s1 = "s\<lparr>bh_table := t1, bhs := b1\<rparr>"
  have c1: "bh_chain ?s1 (bs @ [timer_bh s])" using bh_register_chain [OF assms(1,2,5)] r1 by simp
  have n1: "bh_next (bhs ?s1 (tt_bh s)) = None"
    using bh_register_chain [OF assms(1,2,5)] r1 assms(3,6) by simp
  have m1: "tt_bh s \<notin> set (bs @ [timer_bh s])" using assms(3,4) by simp
  obtain t2 b2 where r2: "irq_bottom_half_register (tt_bh s) ?s1 = Some (s\<lparr>bh_table := t2, bhs := b2\<rparr>)"
    using bh_register_chain [OF c1 m1 n1] bh_register_frame [of "tt_bh s" ?s1] by auto
  let ?s2 = "s\<lparr>bh_table := t2, bhs := b2\<rparr>"
  have c2: "bh_chain ?s2 (bs @ [timer_bh s, tt_bh s])" using bh_register_chain [OF c1 m1 n1] r2 by simp
  let ?s3 = "?s2\<lparr>io := io s @ [(0x43, 0x34), (0x40, 0x9B), (0x40, 0x2E)]\<rparr>"
  let ?s4 = "?s3\<lparr>tt_pool := (\<lambda>_. zero_task), tt_pool_head := None\<rparr>"
  obtain p h where f: "tt_pool_fill 64 ?s4 = ?s4\<lparr>tt_pool := p, tt_pool_head := h\<rparr>"
    and sl: "slist (\<lambda>t. tt_next (p t)) h [1..<64]"
    using tt_pool_fill_list [of ?s4 "[]" 64] by auto
  let ?s5 = "?s4\<lparr>tt_pool := p, tt_pool_head := h, tt_head := None\<rparr>"
  have "irq_chain ?s5 0 xs" using assms(7) by (simp add: irq_chain_def)
  from irq_register_ok [OF this, of "timer_irq_config s"] assms(8,9)
  obtain t i where r3: "irq_register TIMER_IRQ (timer_irq_config s) ?s5 = Some (RET_OK, ?s5\<lparr>irq_table := t, interrupts := i\<rparr>)"
    and c3: "irq_chain (?s5\<lparr>irq_table := t, interrupts := i\<rparr>) 0 (xs @ [timer_irq_config s])" by auto
  let ?s6 = "?s5\<lparr>irq_table := t, interrupts := i\<rparr>"
  have "timer_init dev s = Some ?s6"
    using r1 r2 f r3 by (simp add: timer_init_def pit_init_100 Let_def NUM_TIMER_TASKS_def)
  moreover have "timer_inv ?s6 [] [1..<64]" using sl by (simp add: timer_inv_def delays_ok_def INT_MAX_def)
  moreover have "bh_chain ?s6 (bs @ [timer_bh s, tt_bh s])" using c2 by (simp add: bh_chain_def)
  ultimately show ?thesis using c3 by (intro exI [of _ ?s6]) simp
qed

theorem timer_init_state_witness:
  "\<exists>s. timer_init last_write idle_timer = Some s \<and> timer_inv s [] [1..<64] \<and> bh_chain s [0x50, 0x60]"
proof -
  have d: "bh_chain idle_timer []" "irq_chain idle_timer 0 []" "timer_bh idle_timer = 0x50" "tt_bh idle_timer = 0x60"
    "bh_next (bhs idle_timer a) = None" "irq_next (interrupts idle_timer a) = None" for a
    by (simp_all add: bh_chain_def irq_chain_def idle_timer_def timer_state.defs irq_state.defs no_irqs_def)
  show ?thesis using timer_init_state [of idle_timer "[]" "[]" last_write] d by auto
qed

end
