(* ===== verification/Clock.thy ===== *)
theory Clock
  imports Timer
begin

text \<open>
  The clock interrupt as a whole: the entry code calls \<open>irq_handler\<close> and then \<open>irq_bottom_half_exec\<close>, which reach
  the functions of \<open>Timer\<close> through the objects that \<open>timer_init\<close> has registered. The theories \<open>Irq\<close> and \<open>Timer\<close> are
  put together here, up to the time at which a task is called.
\<close>

section \<open>The interrupt\<close>

text \<open>The functions behind the addresses in the registered objects.\<close>

definition clock_irq_fn ::
    "u32 \<Rightarrow> u32 \<Rightarrow> int \<Rightarrow> 'a timer_state_scheme \<Rightarrow> 'a timer_state_scheme option" where
  "clock_irq_fn irq_at f n s = (if f = irq_at then Some (timer_irq s) else None)"

definition clock_bh_fn ::
    "u32 \<Rightarrow> u32 \<Rightarrow> (u32 \<Rightarrow> u32 \<Rightarrow> 'a timer_state_scheme \<Rightarrow> 'a timer_state_scheme option) \<Rightarrow> u32 \<Rightarrow>
     'a timer_state_scheme \<Rightarrow> 'a timer_state_scheme option" where
  "clock_bh_fn bh_at task_at call f s =
     (if f = bh_at then Some (timer_irq_bh s) else if f = task_at then timer_task_bh call s else None)"

definition clock_interrupt ::
    "device \<Rightarrow> u32 \<Rightarrow> u32 \<Rightarrow> u32 \<Rightarrow> (u32 \<Rightarrow> u32 \<Rightarrow> 'a timer_state_scheme \<Rightarrow> 'a timer_state_scheme option) \<Rightarrow>
     'a timer_state_scheme \<Rightarrow> 'a timer_state_scheme option" where
  "clock_interrupt dev irq_at bh_at task_at call s = do {
     s \<leftarrow> irq_handler (clock_irq_fn irq_at) dev TIMER_IRQ s;
     irq_bottom_half_exec (clock_bh_fn bh_at task_at call) s
   }"

primrec clock_interrupts ::
    "nat \<Rightarrow> device \<Rightarrow> u32 \<Rightarrow> u32 \<Rightarrow> u32 \<Rightarrow>
     (u32 \<Rightarrow> u32 \<Rightarrow> 'a timer_state_scheme \<Rightarrow> 'a timer_state_scheme option) \<Rightarrow>
     'a timer_state_scheme \<Rightarrow> 'a timer_state_scheme option" where
  "clock_interrupts 0 dev irq_at bh_at task_at call s = Some s"
| "clock_interrupts (Suc n) dev irq_at bh_at task_at call s = do {
     s \<leftarrow> clock_interrupt dev irq_at bh_at task_at call s;
     clock_interrupts n dev irq_at bh_at task_at call s
   }"

section \<open>What is registered\<close>

text \<open>The clock's handler is the only one of its line and its two bottom halves are the only ones, the second of them
  inactive; the lock of the task list is free.\<close>

definition clock_wired :: "u32 \<Rightarrow> u32 \<Rightarrow> u32 \<Rightarrow> 'a timer_state_scheme \<Rightarrow> bool" where
  "clock_wired irq_at bh_at task_at s \<longleftrightarrow>
     irq_table s 0 = Some (timer_irq_config s) \<and> irq_next (interrupts s (timer_irq_config s)) = None \<and>
     handler (interrupts s (timer_irq_config s)) = irq_at \<and>
     bh_table s = Some (timer_bh s) \<and> bh_next (bhs s (timer_bh s)) = Some (tt_bh s) \<and> bh_next (bhs s (tt_bh s)) = None \<and>
     timer_bh s \<noteq> tt_bh s \<and> bh_fn (bhs s (timer_bh s)) = bh_at \<and> bh_fn (bhs s (tt_bh s)) = task_at \<and> bh_at \<noteq> task_at \<and>
     \<not> bit (bh_flags (bhs s (tt_bh s))) 0 \<and> \<not> bit (tt_lock s) 1"

text \<open>What the interrupt's first half leaves alone.\<close>

definition same_tasks :: "'a timer_state_scheme \<Rightarrow> 'a timer_state_scheme \<Rightarrow> bool" where
  "same_tasks s s' \<longleftrightarrow> tt_pool s' = tt_pool s \<and> tt_pool_head s' = tt_pool_head s \<and> tt_head s' = tt_head s \<and>
     tt_lock s' = tt_lock s \<and> timer_bh s' = timer_bh s \<and> tt_bh s' = tt_bh s \<and>
     timer_irq_config s' = timer_irq_config s \<and> timer_state.more s' = timer_state.more s"

lemma same_tasks_inv:
  assumes "same_tasks s s'"
  shows "timer_inv s' xs ps = timer_inv s xs ps" "schedule_of s' xs = schedule_of s xs"
proof -
  have "entry s' = entry s" using assms by (intro ext) (simp add: entry_def same_tasks_def)
  then show "timer_inv s' xs ps = timer_inv s xs ps" "schedule_of s' xs = schedule_of s xs"
    using assms by (simp_all add: timer_inv_def schedule_of_def same_tasks_def)
qed

text \<open>The top half counts the tick and activates the first bottom half.\<close>

lemma timer_irq_fields:
  "irq_table (timer_irq t) = irq_table t" "interrupts (timer_irq t) = interrupts t" "bh_table (timer_irq t) = bh_table t"
  "tt_pool (timer_irq t) = tt_pool t" "tt_pool_head (timer_irq t) = tt_pool_head t" "tt_head (timer_irq t) = tt_head t"
  "tt_lock (timer_irq t) = tt_lock t" "timer_bh (timer_irq t) = timer_bh t" "tt_bh (timer_irq t) = tt_bh t"
  "timer_irq_config (timer_irq t) = timer_irq_config t" "timer_state.more (timer_irq t) = timer_state.more t"
  "kticks (timer_irq t) = kticks t + 1"
  "bhs (timer_irq t) = (bhs t)(timer_bh t := (bhs t (timer_bh t))\<lparr>bh_flags := bh_flags (bhs t (timer_bh t)) OR IRQ_BH_ACTIVE\<rparr>)"
  by (simp_all add: timer_irq_def Let_def upd_bh_def)

lemma clock_top_half:
  assumes "clock_wired irq_at bh_at task_at s"
  shows "\<exists>s'. irq_handler (clock_irq_fn irq_at) dev TIMER_IRQ s = Some s' \<and> clock_wired irq_at bh_at task_at s' \<and>
    same_tasks s s' \<and> kticks s' = kticks s + 1 \<and> bit (bh_flags (bhs s' (timer_bh s'))) 0"
proof -
  let ?c = "timer_irq_config s" and ?t = "handling dev 0 (timer_irq_config s) s"
  have t: "irq_table ?t = irq_table s" "bh_table ?t = bh_table s" "bhs ?t = bhs s" "same_tasks s ?t" "kticks ?t = kticks s"
    "interrupts ?t = (interrupts s)(?c := (interrupts s ?c)\<lparr>ticks := ticks (interrupts s ?c) + 1\<rparr>)"
    by (simp_all add: handling_def irq_disable_def pic_irq_ack_def outb_def upd_interrupt_def Let_def same_tasks_def)
  have "irq_run_chain (clock_irq_fn irq_at) 0 ?c ?t = Some (timer_irq ?t)"
    using assms by (subst irq_run_chain.simps) (simp add: clock_irq_fn_def t timer_irq_fields clock_wired_def)
  then have "irq_handler (clock_irq_fn irq_at) dev TIMER_IRQ s = Some (irq_enable dev 0 (timer_irq ?t))"
    using assms by (simp add: clock_wired_def irq_handler_def TIMER_IRQ_def NUM_IRQS_def handling_def Let_def disable_state)
  moreover have "clock_wired irq_at bh_at task_at (irq_enable dev 0 (timer_irq ?t))"
    using assms t by (auto simp: clock_wired_def same_tasks_def irq_enable_def outb_def Let_def timer_irq_fields)
  moreover have "same_tasks s (irq_enable dev 0 (timer_irq ?t))"
    using t(4) by (simp add: same_tasks_def irq_enable_def outb_def Let_def timer_irq_fields)
  moreover have "kticks (irq_enable dev 0 (timer_irq ?t)) = kticks s + 1"
    "bit (bh_flags (bhs (irq_enable dev 0 (timer_irq ?t)) (timer_bh (irq_enable dev 0 (timer_irq ?t))))) 0"
    using t by (simp_all add: irq_enable_def outb_def Let_def timer_irq_fields IRQ_BH_ACTIVE_def bit_simps)
  ultimately show ?thesis by blast
qed

section \<open>One interrupt\<close>

text \<open>A schedule one tick later, and what becomes due in between.\<close>

definition later :: "int \<Rightarrow> schedule \<Rightarrow> schedule" where
  "later n xs = map (\<lambda>x. (fst x, snd x - n)) (filter (\<lambda>x. n < snd x) xs)"

definition due :: "int \<Rightarrow> schedule \<Rightarrow> (u32 \<times> u32) list" where
  "due n xs = map fst (filter (\<lambda>x. snd x \<le> n) xs)"

lemma absolute_sorted: "\<forall>x \<in> set xs. 0 \<le> snd x \<Longrightarrow> sorted (map snd (absolute b xs)) \<and> (\<forall>y \<in> set (absolute b xs). b \<le> snd y)"
proof (induction xs arbitrary: b)
  case (Cons x xs)
  then show ?case using Cons.IH [of "b + snd x"] by fastforce
qed simp

lemma tick_sorted:
  assumes "sorted (map snd xs)" "\<forall>x \<in> set xs. 0 < snd x"
  shows "dropWhile (\<lambda>x. snd x = 0) (map (\<lambda>x. (fst x, snd x - 1)) xs) = later 1 xs \<and>
    map fst (takeWhile (\<lambda>x. snd x = 0) (map (\<lambda>x. (fst x, snd x - 1)) xs)) = due 1 xs"
  using assms
proof (induction xs)
  case (Cons x xs)
  show ?case
  proof (cases "snd x = 1")
    case True
    then show ?thesis using Cons by (simp add: later_def due_def)
  next
    case False
    then have x: "1 < snd x" using Cons.prems by auto
    then have a: "1 < snd y" if "y \<in> set xs" for y using Cons.prems(1) that by fastforce
    have f: "filter (\<lambda>y. 1 < snd y) xs = xs" "filter (\<lambda>y. snd y \<le> 1) xs = []"
      using a by (simp_all add: filter_id_conv filter_empty_conv not_le)
    show ?thesis using x by (simp add: later_def due_def f)
  qed
qed (simp_all add: later_def due_def)

lemma later_due_Suc:
  assumes "sorted (map snd xs)"
  shows "later (int n) (later 1 xs) = later (int (Suc n)) xs" "due 1 xs @ due (int n) (later 1 xs) = due (int (Suc n)) xs"
proof -
  show "later (int n) (later 1 xs) = later (int (Suc n)) xs" by (induction xs) (auto simp: later_def)
  show "due 1 xs @ due (int n) (later 1 xs) = due (int (Suc n)) xs"
    using assms
  proof (induction xs)
    case (Cons x xs)
    show ?case
    proof (cases "snd x \<le> 1")
      case True
      then show ?thesis using Cons by (simp add: later_def due_def)
    next
      case False
      then have a: "1 < snd y" if "y \<in> set xs" for y using Cons.prems that by fastforce
      then have f: "filter (\<lambda>y. snd y \<le> 1) xs = []" by (simp add: filter_empty_conv not_le)
      show ?thesis using Cons False by (simp add: later_def due_def f)
    qed
  qed (simp add: later_def due_def)
qed

lemma timer_irq_bh_fields:
  "irq_table (timer_irq_bh t) = irq_table t" "interrupts (timer_irq_bh t) = interrupts t" "bh_table (timer_irq_bh t) = bh_table t"
  "tt_lock (timer_irq_bh t) = tt_lock t" "timer_bh (timer_irq_bh t) = timer_bh t" "tt_bh (timer_irq_bh t) = tt_bh t"
  "timer_irq_config (timer_irq_bh t) = timer_irq_config t" "timer_state.more (timer_irq_bh t) = timer_state.more t"
  "kticks (timer_irq_bh t) = kticks t" "bh_next (bhs (timer_irq_bh t) b) = bh_next (bhs t b)"
  "bh_fn (bhs (timer_irq_bh t) b) = bh_fn (bhs t b)"
  by (simp_all add: timer_irq_bh_def Let_def upd_bh_def upd_tt_def split: option.split)

text \<open>The first bottom half: one tick of the list, which activates the second when a task is due.\<close>

lemma clock_list_tick:
  assumes "timer_inv s xs ps" "\<forall>x \<in> set (schedule_of s xs). 0 < snd x" "\<not> bit (bh_flags (bhs s (tt_bh s))) 0"
  shows "timer_inv (timer_irq_bh s) xs ps \<and>
    schedule_of (timer_irq_bh s) xs = map (\<lambda>x. (fst x, snd x - 1)) (schedule_of s xs) \<and>
    (bit (bh_flags (bhs (timer_irq_bh s) (tt_bh s))) 0 \<longleftrightarrow>
      takeWhile (\<lambda>x. snd x = 0) (schedule_of (timer_irq_bh s) xs) \<noteq> [])"
proof (cases "xs = []")
  case True
  then show ?thesis using assms(1,3) by (simp add: timer_irq_bh_def timer_inv_def schedule_of_def)
next
  case False
  then have "schedule_of s xs \<noteq> []" by (cases xs) (simp_all add: schedule_of_def)
  then have "0 < snd (hd (schedule_of s xs))" using assms(2) by simp
  from tick_brings_nearer [OF assms(1) False this] show ?thesis
    using assms(3) \<open>schedule_of s xs \<noteq> []\<close> by (cases "schedule_of s xs") auto
qed

lemma schedule_sorted: "timer_inv s xs ps \<Longrightarrow> sorted (map snd (schedule_of s xs))"
  using absolute_sorted [of "map (entry s) xs" 0] by (simp add: timer_inv_def delays_ok_def schedule_of_def)

lemma active_bit: "w AND IRQ_BH_ACTIVE \<noteq> 0 \<longleftrightarrow> bit w 0"
  by (simp add: IRQ_BH_ACTIVE_def and_one_eq bit_0 odd_iff_mod_2_eq_one)

lemma cleared_bit: "\<not> bit (w AND NOT IRQ_BH_ACTIVE) 0"
  by (simp add: IRQ_BH_ACTIVE_def bit_simps)

lemma cleared_inactive: "\<not> bit w 0 \<Longrightarrow> w AND NOT IRQ_BH_ACTIVE = w"
  by (rule bit_word_eqI) (auto simp: IRQ_BH_ACTIVE_def bit_simps intro: gr0I)

text \<open>The second bottom half, when it has been activated.\<close>

lemma clock_expiry:
  assumes "timer_inv s xs ps" "\<not> bit (tt_lock s) 1" "bh_next (bhs s (tt_bh s)) = None"
    "bh_fn (bhs s (tt_bh s)) = task_at" "bh_at \<noteq> task_at"
    "bit (bh_flags (bhs s (tt_bh s))) 0 \<longleftrightarrow> takeWhile (\<lambda>x. snd x = 0) (schedule_of s xs) \<noteq> []"
  shows "\<exists>s' ys qs. bh_exec_loop (clock_bh_fn bh_at task_at record_call) (Some (tt_bh s)) s = Some s' \<and>
    timer_inv s' ys qs \<and> schedule_of s' ys = dropWhile (\<lambda>x. snd x = 0) (schedule_of s xs) \<and>
    timer_state.more s' = timer_state.more s @ map fst (takeWhile (\<lambda>x. snd x = 0) (schedule_of s xs)) \<and>
    \<not> bit (tt_lock s') 1 \<and> same_irq (upd_bh (tt_bh s) (\<lambda>x. x\<lparr>bh_flags := bh_flags x AND NOT IRQ_BH_ACTIVE\<rparr>) s) s'"
proof -
  let ?clear = "\<lambda>x :: interrupt_bh. x\<lparr>bh_flags := bh_flags x AND NOT IRQ_BH_ACTIVE\<rparr>"
  let ?s1 = "upd_bh (tt_bh s) ?clear s"
  let ?late = "takeWhile (\<lambda>x. snd x = 0) (schedule_of s xs)"
  have e: "bh_exec_loop run None t = Some t" for run and t :: "(u32 \<times> u32) list timer_state_scheme"
    by (simp add: bh_exec_loop.simps)
  show ?thesis
  proof (cases "bit (bh_flags (bhs s (tt_bh s))) 0")
    case False
    then have "bh_exec_loop (clock_bh_fn bh_at task_at record_call) (Some (tt_bh s)) s = Some s"
      using active_bit [of "bh_flags (bhs s (tt_bh s))"] assms(3) by (subst bh_exec_loop.simps) (simp add: e)
    moreover have "?late = []" using False assms(6) by simp
    moreover have "dropWhile (\<lambda>x. snd x = 0) (schedule_of s xs) = schedule_of s xs"
      using \<open>?late = []\<close> takeWhile_dropWhile_id [of "\<lambda>x. snd x = 0" "schedule_of s xs"] by simp
    moreover have "same_irq ?s1 s" using False by (simp add: same_irq_def upd_bh_def cleared_inactive)
    ultimately show ?thesis using assms(1,2) by (intro exI [of _ s] exI [of _ xs] exI [of _ ps]) simp
  next
    case True
    have st: "same_tasks s ?s1" "tt_lock ?s1 = tt_lock s" "timer_state.more ?s1 = timer_state.more s"
      by (simp_all add: same_tasks_def upd_bh_def)
    then have "timer_inv ?s1 xs ps" "\<not> bit (tt_lock ?s1) 1" using assms(1,2) by (simp_all add: same_tasks_inv)
    from expired_tasks_fire [OF this] obtain s' qs where r: "timer_task_bh record_call ?s1 = Some s'"
      "timer_inv s' (dropWhile (\<lambda>t. snd (entry ?s1 t) = 0) xs) qs"
      "schedule_of s' (dropWhile (\<lambda>t. snd (entry ?s1 t) = 0) xs) = dropWhile (\<lambda>x. snd x = 0) (schedule_of ?s1 xs)"
      "timer_state.more s' = timer_state.more ?s1 @ map fst (takeWhile (\<lambda>x. snd x = 0) (schedule_of ?s1 xs))"
      "\<not> bit (tt_lock s') 1" "same_irq ?s1 s'" by blast
    have "bh_next (bhs s' (tt_bh s)) = None" "bh_fn (bhs ?s1 (tt_bh s)) = task_at"
      using r(6) assms(3,4) by (simp_all add: same_irq_def upd_bh_def)
    then have "bh_exec_loop (clock_bh_fn bh_at task_at record_call) (Some (tt_bh s)) s = Some s'"
      using True active_bit [of "bh_flags (bhs s (tt_bh s))"] r(1) assms(5)
      by (subst bh_exec_loop.simps) (simp add: e clock_bh_fn_def)
    then show ?thesis using r(2-6) unfolding same_tasks_inv(2) [OF st(1)] st(3) by blast
  qed
qed

lemma clock_bottom_half:
  assumes w: "clock_wired irq_at bh_at task_at s" and inv: "timer_inv s xs ps"
    and pos: "\<forall>x \<in> set (schedule_of s xs). 0 < snd x" and act: "bit (bh_flags (bhs s (timer_bh s))) 0"
  shows "\<exists>s' ys qs. irq_bottom_half_exec (clock_bh_fn bh_at task_at record_call) s = Some s' \<and>
    clock_wired irq_at bh_at task_at s' \<and> timer_inv s' ys qs \<and> schedule_of s' ys = later 1 (schedule_of s xs) \<and>
    timer_state.more s' = timer_state.more s @ due 1 (schedule_of s xs) \<and> kticks s' = kticks s"
proof -
  let ?s1 = "upd_bh (timer_bh s) (\<lambda>x. x\<lparr>bh_flags := bh_flags x AND NOT IRQ_BH_ACTIVE\<rparr>) s"
  let ?s2 = "timer_irq_bh ?s1"
  have st: "same_tasks s ?s1" by (simp add: same_tasks_def upd_bh_def)
  have f1: "tt_bh ?s1 = tt_bh s" "timer_bh ?s1 = timer_bh s" "bhs ?s1 (tt_bh s) = bhs s (tt_bh s)" "tt_lock ?s1 = tt_lock s"
    "timer_state.more ?s1 = timer_state.more s" "kticks ?s1 = kticks s" "irq_table ?s1 = irq_table s"
    "interrupts ?s1 = interrupts s" "bh_table ?s1 = bh_table s" "bh_next (bhs ?s1 b) = bh_next (bhs s b)"
    "bh_fn (bhs ?s1 b) = bh_fn (bhs s b)" "timer_irq_config ?s1 = timer_irq_config s" for b
    using w by (auto simp: upd_bh_def clock_wired_def)
  have i1: "timer_inv ?s1 xs ps" and sch: "schedule_of ?s1 xs = schedule_of s xs"
    using inv by (simp_all only: same_tasks_inv [OF st])
  have "\<not> bit (bh_flags (bhs ?s1 (tt_bh ?s1))) 0" using w by (simp only: f1) (simp add: clock_wired_def)
  from clock_list_tick [OF i1 _ this] pos
  have k: "timer_inv ?s2 xs ps" "schedule_of ?s2 xs = map (\<lambda>x. (fst x, snd x - 1)) (schedule_of s xs)"
    "bit (bh_flags (bhs ?s2 (tt_bh ?s2))) 0 \<longleftrightarrow> takeWhile (\<lambda>x. snd x = 0) (schedule_of ?s2 xs) \<noteq> []"
    by (simp_all add: sch timer_irq_bh_fields(6))
  have w2: "\<not> bit (tt_lock ?s2) 1" "bh_next (bhs ?s2 (tt_bh ?s2)) = None" "bh_fn (bhs ?s2 (tt_bh ?s2)) = task_at"
    "bh_at \<noteq> task_at" using w by (simp_all only: timer_irq_bh_fields f1) (simp_all add: clock_wired_def)
  from clock_expiry [OF k(1) w2 k(3)] obtain s' ys qs where e:
    "bh_exec_loop (clock_bh_fn bh_at task_at record_call) (Some (tt_bh ?s2)) ?s2 = Some s'" "timer_inv s' ys qs"
    "schedule_of s' ys = dropWhile (\<lambda>x. snd x = 0) (schedule_of ?s2 xs)"
    "timer_state.more s' = timer_state.more ?s2 @ map fst (takeWhile (\<lambda>x. snd x = 0) (schedule_of ?s2 xs))"
    "\<not> bit (tt_lock s') 1" and
    q: "same_irq (upd_bh (tt_bh ?s2) (\<lambda>x. x\<lparr>bh_flags := bh_flags x AND NOT IRQ_BH_ACTIVE\<rparr>) ?s2) s'" by blast
  have "irq_bottom_half_exec (clock_bh_fn bh_at task_at record_call) s = Some s'"
  proof -
    have "bh_next (bhs ?s2 (timer_bh s)) = Some (tt_bh ?s2)" "bh_fn (bhs ?s1 (timer_bh s)) = bh_at"
      "bh_table s = Some (timer_bh s)" using w by (simp_all only: timer_irq_bh_fields f1) (simp_all add: clock_wired_def)
    then show ?thesis using act active_bit [of "bh_flags (bhs s (timer_bh s))"] e(1)
      unfolding irq_bottom_half_exec_def by (subst bh_exec_loop.simps) (simp add: clock_bh_fn_def)
  qed
  moreover have "clock_wired irq_at bh_at task_at s'"
    using w q e(5) unfolding clock_wired_def same_irq_def
    by (auto simp: upd_bh_def timer_irq_bh_fields cleared_bit)
  moreover have "kticks s' = kticks s" using q by (simp add: same_irq_def upd_bh_def timer_irq_bh_fields)
  ultimately show ?thesis using e(2-4) tick_sorted [OF schedule_sorted [OF inv] pos]
    unfolding k(2) timer_irq_bh_fields f1 by auto
qed

text \<open>One whole interrupt.\<close>

lemma clock_interrupt_step:
  assumes "clock_wired irq_at bh_at task_at s" "timer_inv s xs ps" "\<forall>x \<in> set (schedule_of s xs). 0 < snd x"
  shows "\<exists>s' ys qs. clock_interrupt dev irq_at bh_at task_at record_call s = Some s' \<and>
    clock_wired irq_at bh_at task_at s' \<and> timer_inv s' ys qs \<and> schedule_of s' ys = later 1 (schedule_of s xs) \<and>
    timer_state.more s' = timer_state.more s @ due 1 (schedule_of s xs) \<and> kticks s' = kticks s + 1"
proof -
  from clock_top_half [OF assms(1), of dev] obtain t where
    t: "irq_handler (clock_irq_fn irq_at) dev TIMER_IRQ s = Some t" "clock_wired irq_at bh_at task_at t"
      "same_tasks s t" "kticks t = kticks s + 1" "bit (bh_flags (bhs t (timer_bh t))) 0" by blast
  have i: "timer_inv t xs ps" "schedule_of t xs = schedule_of s xs" "timer_state.more t = timer_state.more s"
    using assms(2) same_tasks_inv [OF t(3)] t(3) by (simp_all add: same_tasks_def)
  show ?thesis
    using clock_bottom_half [OF t(2) i(1) _ t(5)] assms(3) unfolding clock_interrupt_def t(1) i(2,3) t(4) by simp
qed

section \<open>Any number of interrupts\<close>

text \<open>C16: with the clock's handler and bottom halves registered, every one of any number of clock interrupts is served to
  its end; after n of them the tick counter has grown by n, the tasks scheduled more than n ticks ahead are n ticks
  nearer, and the functions of all the others have been called, each once with its argument, in the order of their
  expiry.\<close>

theorem clock_runs_tasks_on_time:
  assumes "clock_wired irq_at bh_at task_at s" "timer_inv s xs ps" "\<forall>x \<in> set (schedule_of s xs). 0 < snd x"
  shows "\<exists>s' ys qs. clock_interrupts n dev irq_at bh_at task_at record_call s = Some s' \<and>
    timer_inv s' ys qs \<and> schedule_of s' ys = later (int n) (schedule_of s xs) \<and>
    timer_state.more s' = timer_state.more s @ due (int n) (schedule_of s xs) \<and> kticks s' = kticks s + of_nat n"
  using assms
proof (induction n arbitrary: s xs ps)
  case 0
  then have "later 0 (schedule_of s xs) = schedule_of s xs" "due 0 (schedule_of s xs) = []"
    by (auto simp: later_def due_def filter_empty_conv not_le intro!: map_idI filter_True)
  then show ?case using 0 by auto
next
  case (Suc n)
  from clock_interrupt_step [OF Suc.prems, of dev] obtain t ys qs where
    t: "clock_interrupt dev irq_at bh_at task_at record_call s = Some t" "clock_wired irq_at bh_at task_at t"
      "timer_inv t ys qs" "schedule_of t ys = later 1 (schedule_of s xs)"
      "timer_state.more t = timer_state.more s @ due 1 (schedule_of s xs)" "kticks t = kticks s + 1" by blast
  have "\<forall>x \<in> set (schedule_of t ys). 0 < snd x" by (auto simp: t(4) later_def)
  from Suc.IH [OF t(2,3) this] obtain s' zs rs where
    r: "clock_interrupts n dev irq_at bh_at task_at record_call t = Some s'" "timer_inv s' zs rs"
      "schedule_of s' zs = later (int n) (later 1 (schedule_of s xs))"
      "timer_state.more s' = timer_state.more s @ due 1 (schedule_of s xs) @ due (int n) (later 1 (schedule_of s xs))"
      "kticks s' = kticks s + 1 + of_nat n" unfolding t(4-6) append_assoc by blast
  have "kticks s' = kticks s + of_nat (Suc n)" by (simp add: r(5))
  with r(1-4) show ?case unfolding later_due_Suc [OF schedule_sorted [OF Suc.prems(2)]] by (auto simp: t(1))
qed

definition clock_timer :: "(u32 \<times> u32) list timer_state_scheme" where
  "clock_timer = idle_timer\<lparr>irq_table := (\<lambda>n. if n = 0 then Some (timer_irq_config idle_timer) else None),
     interrupts := (\<lambda>i. \<lparr>ticks = 0, handler = 0x80, irq_next = None\<rparr>), bh_table := Some 0x50,
     bhs := (\<lambda>b. \<lparr>bh_flags = 0, bh_fn = b + 0x100, bh_next = (if b = 0x50 then Some 0x60 else None)\<rparr>)\<rparr>"

theorem clock_runs_tasks_on_time_witness:
  "\<exists>s. clock_interrupts 4 last_write 0x80 0x150 0x160 record_call clock_timer = Some s \<and>
    timer_state.more s = [(0x100, 7)] \<and> kticks s = 11 \<and> (\<exists>ys. schedule_of s ys = [((0x100, 2), 1)])"
proof -
  have i: "timer_inv clock_timer [7, 2] [3, 4]" "schedule_of clock_timer [7, 2] = [((0x100, 7), 3), ((0x100, 2), 5)]"
    by (simp_all add: clock_timer_def timer_inv_def schedule_of_def idle_timer_def timer_state.defs irq_state.defs
        delays_ok_def entry_def INT_MAX_def)
  have w: "clock_wired 0x80 0x150 0x160 clock_timer"
    "timer_state.more clock_timer = []" "kticks clock_timer = 7"
    by (simp_all add: clock_wired_def clock_timer_def idle_timer_def timer_state.defs irq_state.defs)
  show ?thesis
    using clock_runs_tasks_on_time [OF w(1) i(1), of 4 last_write] by (auto simp: i(2) w(2,3) later_def due_def)
qed

end
