(* ===== verification/Signal.thy ===== *)
theory Signal
  imports Sleep
begin

text \<open>
  The process table of \<open>src/kernel/src/proc/proc.c\<close>, the signals of
  \<open>src/kernel/src/interrupt/signal.c\<close>, and the whole of \<open>sleep\<close>. The table functions hold the lock of
  the process table while they work.
\<close>

section \<open>The process table\<close>

definition proc_release :: "switch \<Rightarrow> nat \<Rightarrow> proc_kstate \<Rightarrow> proc_kstate option" where
  "proc_release switch p s = do {
     s \<leftarrow> lock_proc switch s;
     s \<leftarrow> (if Some p = proc_list_tail s then
             (if proc_list_head s = proc_list_tail s
              then Some (s\<lparr>proc_list_head := None, proc_list_tail := None\<rparr>)
              else do {
                let s = s\<lparr>proc_list_tail := p_prev (procs s p)\<rparr>;
                t \<leftarrow> proc_list_tail s;
                Some (upd_proc t (\<lambda>x. x\<lparr>p_next := None\<rparr>) s)
              })
           else do {
             q \<leftarrow> p_prev (procs s p);
             let s = upd_proc q (\<lambda>x. x\<lparr>p_next := p_next (procs s p)\<rparr>) s;
             n \<leftarrow> p_next (procs s p);
             Some (upd_proc n (\<lambda>x. x\<lparr>p_prev := p_prev (procs s p)\<rparr>) s)
           });
     let s = upd_proc p (\<lambda>_. zero_proc) s;
     let s = upd_proc p (\<lambda>x. x\<lparr>p_next := proc_free_list s\<rparr>) s;
     let s = s\<lparr>proc_free_list := Some p\<rparr>;
     let s = s\<lparr>proc_free_list_size := proc_free_list_size s + 1\<rparr>;
     unlock_proc s
   }"

partial_function (option) orphan_loop :: "u32 \<Rightarrow> nat option \<Rightarrow> proc_kstate \<Rightarrow> bool option" where
  "orphan_loop pgid p s = (case p of
       None \<Rightarrow> Some True
     | Some i \<Rightarrow>
         if p_pgid (procs s i) = pgid \<and> p_state (procs s i) \<noteq> PROC_ZOMBLEY then do {
           pp \<leftarrow> p_parent (procs s i);
           if p_pgid (procs s pp) \<noteq> pgid \<or> p_sid (procs s pp) = p_sid (procs s i) then Some False
           else orphan_loop pgid (p_next (procs s i)) s
         } else orphan_loop pgid (p_next (procs s i)) s)"

definition proc_is_orphaned_pgrp :: "switch \<Rightarrow> u32 \<Rightarrow> proc_kstate \<Rightarrow> (bool \<times> proc_kstate) option" where
  "proc_is_orphaned_pgrp switch pgid s = do {
     s \<leftarrow> lock_proc switch s;
     h \<leftarrow> proc_list_head s;
     r \<leftarrow> orphan_loop pgid (p_next (procs s h)) s;
     if \<not> r then Some (False, s)
     else do { s \<leftarrow> unlock_proc s; Some (True, s) }
   }"

partial_function (option) zombley_loop :: "nat \<Rightarrow> nat option \<Rightarrow> proc_kstate \<Rightarrow> nat option option" where
  "zombley_loop parent p s = (case p of
       None \<Rightarrow> Some None
     | Some i \<Rightarrow>
         if p_parent (procs s i) = Some parent \<and> p_state (procs s i) = PROC_ZOMBLEY then Some (Some i)
         else zombley_loop parent (p_next (procs s i)) s)"

definition proc_get_next_zombley :: "nat \<Rightarrow> proc_kstate \<Rightarrow> nat option option" where
  "proc_get_next_zombley parent s = do {
     h \<leftarrow> proc_list_head s;
     zombley_loop parent (p_next (procs s h)) s
   }"

definition proc_release_zombley :: "switch \<Rightarrow> nat \<Rightarrow> proc_kstate \<Rightarrow> (u32 \<times> proc_kstate) option" where
  "proc_release_zombley switch p s = do {
     let pid = p_pid (procs s p);
     h \<leftarrow> kfree (esp0 (p_tss (procs s p))) (kheap s);
     let s = s\<lparr>kheap := h\<rparr>;
     let s = upd_proc p (\<lambda>x. x\<lparr>p_rss := p_rss x - 1\<rparr>) s;
     h \<leftarrow> kfree (P2V (cr3 (p_tss (procs s p)))) (kheap s);
     let s = s\<lparr>kheap := h\<rparr>;
     let s = upd_proc p (\<lambda>x. x\<lparr>p_rss := p_rss x - 1\<rparr>) s;
     let parent = p_parent (procs s p);
     s \<leftarrow> proc_release switch p s;
     let s = (case parent of None \<Rightarrow> s | Some q \<Rightarrow> upd_proc q (\<lambda>x. x\<lparr>p_children := p_children x - 1\<rparr>) s);
     Some (pid, s)
   }"

text \<open>\<open>proc_init\<close> fills the free list from the back.\<close>

primrec proc_fill :: "nat \<Rightarrow> proc_kstate \<Rightarrow> proc_kstate" where
  "proc_fill 0 s = s"
| "proc_fill (Suc n) s =
     (let s = upd_proc n (\<lambda>x. x\<lparr>p_next := proc_free_list s\<rparr>) s;
          s = s\<lparr>proc_free_list := Some n\<rparr>;
          s = s\<lparr>proc_free_list_size := proc_free_list_size s + 1\<rparr>
      in proc_fill n s)"

definition proc_init :: "proc_kstate \<Rightarrow> proc_kstate option" where
  "proc_init s = do {
     let s = s\<lparr>procs := (\<lambda>_. zero_proc)\<rparr>;
     let s = s\<lparr>proc_free_list := None\<rparr>;
     require (0 < proc_count s);
     let s = proc_fill (proc_count s) s;
     Some (s\<lparr>proc_list_head := None, proc_list_tail := None\<rparr>)
   }"

section \<open>Signals\<close>

definition SIGCHLD :: nat where "SIGCHLD = 17"
definition SIGHANDLER_DFL :: u32 where "SIGHANDLER_DFL = 0"
definition SIGHANDLER_IGN :: u32 where "SIGHANDLER_IGN = 1"

partial_function (option) reap_loop :: "switch \<Rightarrow> proc_kstate \<Rightarrow> proc_kstate option" where
  "reap_loop switch s = do {
     z \<leftarrow> proc_get_next_zombley (proc_current s) s;
     (case z of
        None \<Rightarrow> Some s
      | Some p \<Rightarrow> do {
          (_, s) \<leftarrow> proc_release_zombley switch p s;
          reap_loop switch s
        })
   }"

text \<open>The loop over the signals: \<open>msk\<close> follows \<open>signum\<close>.\<close>

function sig_loop :: "switch \<Rightarrow> nat \<Rightarrow> u32 \<Rightarrow> proc_kstate \<Rightarrow> (nat \<times> proc_kstate) option" where
  "sig_loop switch signum msk s =
     (if signum < NUM_SIGNALS then
        (let p = procs s (proc_current s)
         in if p_pending p AND msk = 0 then sig_loop switch (signum + 1) (push_bit 1 msk) s
            else
              (let handler = sa_handler (p_sigactions p (signum - 1))
               in if signum = SIGCHLD \<and> handler = SIGHANDLER_IGN then do {
                    s \<leftarrow> reap_loop switch s;
                    let s = upd_proc (proc_current s) (\<lambda>x. x\<lparr>p_pending := p_pending x AND NOT msk\<rparr>) s;
                    sig_loop switch (signum + 1) (push_bit 1 msk) s
                  }
                  else if signum = SIGCHLD \<and> handler \<noteq> SIGHANDLER_DFL then Some (signum, s)
                  else if signum \<noteq> SIGCHLD \<and> handler \<noteq> SIGHANDLER_IGN then Some (signum, s)
                  else
                    (let s = upd_proc (proc_current s) (\<lambda>x. x\<lparr>p_pending := p_pending x AND NOT msk\<rparr>) s
                     in sig_loop switch (signum + 1) (push_bit 1 msk) s)))
      else Some (0, s))"
  by pat_completeness auto
termination by (relation "measure (\<lambda>(_, n, _, _). NUM_SIGNALS - n)") auto

declare sig_loop.simps [simp del]

definition sig_get :: "switch \<Rightarrow> proc_kstate \<Rightarrow> (nat \<times> proc_kstate) option" where
  "sig_get switch s =
     (let p = procs s (proc_current s)
      in if p_pending p AND NOT (p_blocked p) = 0 then Some (0, s) else sig_loop switch 1 1 s)"

section \<open>Sleep\<close>

definition sleep :: "switch \<Rightarrow> u32 \<Rightarrow> proc_inttype \<Rightarrow> proc_kstate \<Rightarrow> (nat \<times> proc_kstate) option" where
  "sleep switch addr st s = do {
     (signum, s) \<leftarrow> (if st = PROC_INTERRUPTIBLE then sig_get switch s else Some (0, s));
     if signum \<noteq> 0 then Some (signum, s)
     else do {
       (slept, s) \<leftarrow> sleep_core switch addr st s;
       if \<not> slept then Some (0, s)
       else if st = PROC_INTERRUPTIBLE then sig_get switch s
       else Some (0, s)
     }
   }"

section \<open>The lists of the table\<close>

abbreviation pnx :: "proc_kstate \<Rightarrow> nat \<Rightarrow> nat option" where
  "pnx s \<equiv> \<lambda>p. p_next (procs s p)"

abbreviation ppv :: "proc_kstate \<Rightarrow> nat \<Rightarrow> nat option" where
  "ppv s \<equiv> \<lambda>p. p_prev (procs s p)"

text \<open>\<open>xs\<close> are the processes in use and \<open>fs\<close> the free entries.\<close>

definition table_inv :: "proc_kstate \<Rightarrow> nat list \<Rightarrow> nat list \<Rightarrow> bool" where
  "table_inv s xs fs \<longleftrightarrow> dlist (pnx s) (ppv s) (proc_list_head s) xs \<and>
     proc_list_tail s = (if xs = [] then None else Some (last xs)) \<and>
     slist (pnx s) (proc_free_list s) fs \<and> set xs \<inter> set fs = {} \<and>
     proc_free_list_size s = of_nat (length fs)"

definition unlocked :: resource where "unlocked = \<lparr>locked = False, wanted = False\<rparr>"
definition taken :: resource where "taken = \<lparr>locked = True, wanted = False\<rparr>"

lemma lock_proc_free: "proc_lock s = unlocked \<Longrightarrow> lock_proc switch s = Some (s\<lparr>proc_lock := taken\<rparr>)"
  by (subst lock_proc.simps) (simp add: lock_turn_def unlocked_def taken_def)

lemma unlock_proc_taken: "proc_lock s = taken \<Longrightarrow> unlock_proc s = Some (s\<lparr>proc_lock := unlocked\<rparr>)"
  by (simp add: unlock_proc_def unlock_turn_def Let_def unlocked_def taken_def)

lemma proc_fill_list:
  "slist (pnx s) (proc_free_list s) fs \<Longrightarrow> set fs \<inter> {..<n} = {} \<Longrightarrow>
    slist (pnx (proc_fill n s)) (proc_free_list (proc_fill n s)) ([0..<n] @ fs) \<and>
    proc_free_list_size (proc_fill n s) = proc_free_list_size s + of_nat n"
proof (induction n arbitrary: s fs)
  case (Suc n)
  let ?t = "upd_proc n (\<lambda>x. x\<lparr>p_next := proc_free_list s\<rparr>) s"
  let ?u = "?t\<lparr>proc_free_list := Some n, proc_free_list_size := proc_free_list_size s + 1\<rparr>"
  have "n \<notin> set fs" using Suc.prems(2) by auto
  moreover have "pnx ?u = (pnx s)(n := proc_free_list s)" by (rule ext) simp
  ultimately have "slist (pnx ?u) (proc_free_list ?u) (n # fs)" using Suc.prems(1) by simp
  moreover have "set (n # fs) \<inter> {..<n} = {}" using Suc.prems(2) by auto
  ultimately show ?case using Suc.IH [of ?u "n # fs"] by (simp add: Let_def)
qed simp

text \<open>Taking a process out of the list, in the two ways of the code.\<close>

lemma release_unlinked:
  assumes "table_inv s xs fs" "p \<in> set xs" "p = hd xs \<longrightarrow> xs = [p]"
  shows "\<exists>t. (if Some p = proc_list_tail s then
             (if proc_list_head s = proc_list_tail s
              then Some (s\<lparr>proc_list_head := None, proc_list_tail := None\<rparr>)
              else do {
                let s = s\<lparr>proc_list_tail := p_prev (procs s p)\<rparr>;
                t \<leftarrow> proc_list_tail s;
                Some (upd_proc t (\<lambda>x. x\<lparr>p_next := None\<rparr>) s)
              })
           else do {
             q \<leftarrow> p_prev (procs s p);
             let s = upd_proc q (\<lambda>x. x\<lparr>p_next := p_next (procs s p)\<rparr>) s;
             n \<leftarrow> p_next (procs s p);
             Some (upd_proc n (\<lambda>x. x\<lparr>p_prev := p_prev (procs s p)\<rparr>) s)
           }) = Some t \<and> dlist (pnx t) (ppv t) (proc_list_head t) (remove1 p xs) \<and>
       proc_list_tail t = (if remove1 p xs = [] then None else Some (last (remove1 p xs))) \<and>
       (\<forall>x. x \<notin> set xs \<longrightarrow> pnx t x = pnx s x) \<and> proc_free_list t = proc_free_list s \<and>
       proc_free_list_size t = proc_free_list_size s \<and> proc_lock t = proc_lock s"
proof -
  have d: "dlist (pnx s) (ppv s) (proc_list_head s) xs" and tl: "proc_list_tail s = Some (last xs)"
    using assms(1,2) by (auto simp: table_inv_def)
  have hd: "proc_list_head s = Some (hd xs)" using dlist_head [OF d] assms(2) by (auto split: if_splits)
  have di: "distinct xs" by (rule dlist_distinct [OF d])
  obtain us vs where xs: "xs = us @ p # vs" "p \<notin> set us" using assms(2) by (meson split_list_first)
  have r: "remove1 p xs = us @ vs" using xs by (simp add: remove1_split)
  note nb = dlist_neighbours [OF d [unfolded xs(1)]]
  show ?thesis
  proof (cases "us = []")
    case True
    then have "xs = [p]" using assms(3) xs by simp
    then show ?thesis using hd tl by simp
  next
    case False
    then obtain ws q where us: "us = ws @ [q]" by (cases us rule: rev_cases) auto
    have qp: "q \<noteq> p" "q \<notin> set vs" "q \<notin> set ws" "q \<in> set xs" using di xs us by auto
    have pp: "p_prev (procs s p) = Some q" using nb(1) us by simp
    show ?thesis
    proof (cases vs)
      case Nil
      let ?t = "upd_proc q (\<lambda>x. x\<lparr>p_next := None\<rparr>) (s\<lparr>proc_list_tail := Some q\<rparr>)"
      have ht: "hd xs \<noteq> last xs" using xs us Nil di by (cases ws) auto
      have "dlist (pnx s) (ppv s) (proc_list_head s) (ws @ [q, p])" using d xs us Nil by simp
      then have "dlist (pnx ?t) (ppv ?t) (proc_list_head s) (ws @ [q])"
        by (rule dlist_drop_last(2)) (use qp in auto)
      then show ?thesis using xs us Nil pp tl hd ht r qp(4) by (intro exI [of _ ?t]) auto
    next
      case (Cons n ns)
      let ?t = "upd_proc n (\<lambda>x. x\<lparr>p_prev := Some q\<rparr>) (upd_proc q (\<lambda>x. x\<lparr>p_next := Some n\<rparr>) s)"
      have n: "n \<noteq> p" "n \<noteq> q" "p_next (procs s p) = Some n" "n \<in> set xs" using di xs us Cons nb(2) by auto
      have lp: "Some p \<noteq> proc_list_tail s"
      proof -
        have "last xs \<in> set vs" using xs Cons by simp
        then show ?thesis using tl di xs by auto
      qed
      have "pnx ?t = unlink_nx (pnx s) (ppv s) p" "ppv ?t = unlink_pv (pnx s) (ppv s) p"
        using pp n qp by (auto simp: unlink_nx_def unlink_pv_def fun_eq_iff)
      moreover have "dlist (unlink_nx (pnx s) (ppv s) p) (unlink_pv (pnx s) (ppv s) p) (proc_list_head s) (us @ vs)"
        using dlist_unlink [OF d [unfolded xs(1)]] hd xs us qp by (cases ws) auto
      ultimately have "dlist (pnx ?t) (ppv ?t) (proc_list_head ?t) (us @ vs)" by simp
      moreover have "last (us @ vs) = last xs" using xs Cons by simp
      moreover have "p_prev (procs (upd_proc q (\<lambda>x. x\<lparr>p_next := Some n\<rparr>) s) p) = Some q" using pp qp by simp
      ultimately show ?thesis using lp pp n qp tl r us
        by (intro exI [of _ ?t]) (simp add: Let_def)
    qed
  qed
qed

lemma proc_init_table:
  assumes "0 < proc_count s" "proc_free_list_size s = 0"
  shows "\<exists>t. proc_init s = Some t \<and> table_inv t [] [0..<proc_count s]"
proof -
  let ?u = "s\<lparr>procs := (\<lambda>_. zero_proc), proc_free_list := None\<rparr>"
  have f: "slist (pnx (proc_fill (proc_count s) ?u)) (proc_free_list (proc_fill (proc_count s) ?u)) [0..<proc_count s]"
    "proc_free_list_size (proc_fill (proc_count s) ?u) = of_nat (proc_count s)"
    using proc_fill_list [of ?u "[]" "proc_count s"] assms(2) by auto
  then show ?thesis using assms(1)
    by (simp add: proc_init_def Let_def table_inv_def)
qed

lemma release_first_undefined:
  assumes "table_inv s xs fs" "p \<in> set xs" "proc_lock s = unlocked" "p = hd xs" "xs \<noteq> [p]"
  shows "proc_release switch p s = None"
proof -
  have d: "dlist (pnx s) (ppv s) (proc_list_head s) xs" and tl: "proc_list_tail s = Some (last xs)"
    using assms(1,2) by (auto simp: table_inv_def)
  have di: "distinct xs" by (rule dlist_distinct [OF d])
  obtain y ys where xs: "xs = p # y # ys" using assms(2,4,5) by (cases xs; cases "tl xs") auto
  have "p \<noteq> last xs" using di xs by auto
  moreover have "p_prev (procs s p) = None" using d xs by (auto simp: dlist_def)
  ultimately show ?thesis using tl by (simp add: proc_release_def lock_proc_free [OF assms(3)])
qed

lemma release_other:
  assumes "table_inv s xs fs" "p \<in> set xs" "proc_lock s = unlocked" "p \<noteq> hd xs \<or> xs = [p]"
  shows "\<exists>t. proc_release switch p s = Some t \<and> table_inv t (remove1 p xs) (p # fs) \<and>
    proc_lock t = unlocked \<and> procs t p = zero_proc\<lparr>p_next := proc_free_list s\<rparr>"
proof -
  let ?s = "s\<lparr>proc_lock := taken\<rparr>"
  have "dlist (pnx s) (ppv s) (proc_list_head s) xs" using assms(1) by (simp add: table_inv_def)
  then have di: "distinct xs" by (rule dlist_distinct)
  have inv: "table_inv ?s xs fs" using assms(1) by (simp add: table_inv_def)
  obtain t where t: "(if Some p = proc_list_tail ?s then
           (if proc_list_head ?s = proc_list_tail ?s
            then Some (?s\<lparr>proc_list_head := None, proc_list_tail := None\<rparr>)
            else do {
              let s = ?s\<lparr>proc_list_tail := p_prev (procs ?s p)\<rparr>;
              t \<leftarrow> proc_list_tail s;
              Some (upd_proc t (\<lambda>x. x\<lparr>p_next := None\<rparr>) s)
            })
         else do {
           q \<leftarrow> p_prev (procs ?s p);
           let s = upd_proc q (\<lambda>x. x\<lparr>p_next := p_next (procs ?s p)\<rparr>) ?s;
           n \<leftarrow> p_next (procs s p);
           Some (upd_proc n (\<lambda>x. x\<lparr>p_prev := p_prev (procs s p)\<rparr>) s)
         }) = Some t" "dlist (pnx t) (ppv t) (proc_list_head t) (remove1 p xs)"
    "proc_list_tail t = (if remove1 p xs = [] then None else Some (last (remove1 p xs)))"
    "\<forall>x. x \<notin> set xs \<longrightarrow> pnx t x = pnx ?s x" "proc_free_list t = proc_free_list s"
    "proc_free_list_size t = proc_free_list_size s" "proc_lock t = taken"
    using release_unlinked [OF inv assms(2)] assms(4) by auto
  let ?u = "upd_proc p (\<lambda>x. x\<lparr>p_next := proc_free_list s\<rparr>) (upd_proc p (\<lambda>_. zero_proc) t)"
  let ?v = "?u\<lparr>proc_free_list := Some p, proc_free_list_size := proc_free_list_size s + 1, proc_lock := unlocked\<rparr>"
  have "proc_release switch p s = Some ?v"
    unfolding proc_release_def lock_proc_free [OF assms(3)] Option.bind.simps t(1)
    using t(5-7) by (simp add: Let_def unlock_proc_taken)
  moreover have np: "p \<notin> set (remove1 p xs)" using di by simp
  moreover have "dlist (pnx ?v) (ppv ?v) (proc_list_head ?v) (remove1 p xs)"
  proof -
    have "pnx ?v x = pnx t x \<and> ppv ?v x = ppv t x" if "x \<in> set (remove1 p xs)" for x
    proof -
      have "x \<noteq> p" using that np by auto
      then show ?thesis by simp
    qed
    then show ?thesis using t(2) dlist_cong [of "remove1 p xs" "pnx t" "pnx ?v" "ppv t" "ppv ?v"] by simp
  qed
  moreover have "slist (pnx ?v) (proc_free_list ?v) (p # fs)"
  proof -
    have "x \<notin> set xs" "x \<noteq> p" if "x \<in> set fs" for x using assms(1,2) that by (auto simp: table_inv_def)
    then have "slist (pnx ?v) (proc_free_list s) fs = slist (pnx s) (proc_free_list s) fs"
      using t(4) by (intro slist_cong) simp
    then show ?thesis using assms(1) by (simp add: table_inv_def)
  qed
  moreover have "set (remove1 p xs) \<inter> set (p # fs) = {}"
    using assms(1) np set_remove1_subset [of p xs] by (auto simp: table_inv_def)
  ultimately have "table_inv ?v (remove1 p xs) (p # fs)"
    using t(3) assms(1) by (simp add: table_inv_def)
  then show "\<exists>t. proc_release switch p s = Some t \<and> table_inv t (remove1 p xs) (p # fs) \<and>
    proc_lock t = unlocked \<and> procs t p = zero_proc\<lparr>p_next := proc_free_list s\<rparr>"
    using \<open>proc_release switch p s = Some ?v\<close> by (intro exI [of _ ?v]) simp
qed

text \<open>C28: \<open>proc_release\<close> takes a process out of the process list, clears its entry, puts it first in the
  free list and gives the lock back, and both lists stay well formed; but releasing the first process
  while there are others follows its null \<open>prev\<close> pointer, which is undefined.\<close>

theorem proc_release_table:
  assumes "table_inv s xs fs" "p \<in> set xs" "proc_lock s = unlocked"
  shows "(p = hd xs \<and> xs \<noteq> [p] \<longrightarrow> proc_release switch p s = None) \<and>
    (p \<noteq> hd xs \<or> xs = [p] \<longrightarrow> (\<exists>t. proc_release switch p s = Some t \<and> table_inv t (remove1 p xs) (p # fs) \<and>
      proc_lock t = unlocked \<and> procs t p = zero_proc\<lparr>p_next := proc_free_list s\<rparr>))"
  by (intro conjI impI release_first_undefined [OF assms] release_other [OF assms]; (elim conjE)?; assumption)

definition three_procs :: proc_kstate where
  "three_procs = two_running\<lparr>proc_list_head := Some 0, proc_list_tail := Some 2, proc_free_list := Some 3,
     proc_free_list_size := 1, proc_current := 1, procs := (\<lambda>p. if p = 0 then zero_proc\<lparr>p_next := Some 1\<rparr>
       else if p = 1 then zero_proc\<lparr>p_prev := Some 0, p_next := Some 2, p_parent := Some 0, p_pending := 6, p_blocked := 2\<rparr>
       else if p = 2 then zero_proc\<lparr>p_prev := Some 1, p_parent := Some 1, p_pgid := 9, p_state := PROC_RUNNING\<rparr>
       else zero_proc)\<rparr>"

lemma three_procs_inv: "table_inv three_procs [0, 1, 2] [3]" "proc_lock three_procs = unlocked"
  by (simp_all add: table_inv_def three_procs_def two_running_def dlist_def zero_proc_def unlocked_def)

theorem proc_release_table_witness:
  "(\<exists>t. proc_release Some 1 three_procs = Some t \<and> table_inv t [0, 2] [1, 3]) \<and>
    proc_release Some 0 three_procs = None"
  using proc_release_table [OF three_procs_inv(1) _ three_procs_inv(2), of 1 Some]
    proc_release_table [OF three_procs_inv(1) _ three_procs_inv(2), of 0 Some] by auto

section \<open>The first signal\<close>

text \<open>The signals that \<open>sig_loop\<close> looks at, from \<open>n\<close> on, and what it does with them when there is no
  \<open>SIGCHLD\<close>: those ignored are taken off, up to the first that is not.\<close>

definition deliverable :: "proc \<Rightarrow> nat \<Rightarrow> bool" where
  "deliverable p n \<longleftrightarrow> bit (p_pending p) (n - 1) \<and> sa_handler (p_sigactions p (n - 1)) \<noteq> SIGHANDLER_IGN"

lemma msk_bit: "n - 1 < 32 \<Longrightarrow> (v :: u32) AND push_bit (n - 1) 1 = 0 \<longleftrightarrow> \<not> bit v (n - 1)"
  by (auto simp: word_and_0_bits bit_exp_iff)

lemma sig_loop_first:
  assumes "1 \<le> n" "n \<le> 32" "\<not> bit (p_pending (procs s (proc_current s))) 16" "p = procs s (proc_current s)"
  shows "\<exists>t. sig_loop switch n (push_bit (n - 1) 1) s =
      Some (case find (deliverable p) [n..<32] of None \<Rightarrow> 0 | Some m \<Rightarrow> m, t) \<and>
    (\<forall>q. q \<noteq> proc_current s \<longrightarrow> procs t q = procs s q) \<and>
    (\<exists>v. procs t (proc_current s) = p\<lparr>p_pending := v\<rparr> \<and>
      (\<forall>i. bit v i \<longleftrightarrow> bit (p_pending p) i \<and> \<not> (n \<le> i + 1 \<and> i + 1 < 32 \<and> find (deliverable p) [n..<i + 2] = None)))"
  using assms
proof (induction "32 - n" arbitrary: n s p)
  case 0
  then have n: "n = 32" by simp
  have "sig_loop switch n (push_bit (n - 1) 1) s = Some (0, s)"
    unfolding n by (subst sig_loop.simps) (simp add: NUM_SIGNALS_def)
  moreover have "\<exists>v. procs s (proc_current s) = p\<lparr>p_pending := v\<rparr> \<and>
      (\<forall>i. bit v i \<longleftrightarrow> bit (p_pending p) i \<and> \<not> (n \<le> i + 1 \<and> i + 1 < 32 \<and> find (deliverable p) [n..<i + 2] = None))"
    unfolding n using 0(5) by (intro exI [of _ "p_pending p"]) simp
  ultimately show ?case unfolding n by (intro exI [of _ s]) simp
next
  case (Suc k)
  let ?c = "proc_current s" and ?m = "push_bit (n - 1) 1 :: u32"
  have n: "n < 32" "[n..<32] = n # [Suc n..<32]" using Suc by (auto simp: upt_conv_Cons)
  have sh: "push_bit 1 ?m = push_bit (Suc n - 1) 1" using Suc.prems(1) by (cases n) simp_all
  have r: "[n..<i + 2] = n # [Suc n..<i + 2]" if "n \<le> i + 1" for i using that by (simp add: upt_conv_Cons)
  show ?case
  proof (cases "bit (p_pending p) (n - 1)")
    case False
    then have st: "sig_loop switch n ?m s = sig_loop switch (Suc n) (push_bit (Suc n - 1) 1) s"
      using n Suc.prems sh msk_bit [of n] by (subst sig_loop.simps) (simp add: NUM_SIGNALS_def Let_def)
    have nd: "\<not> deliverable p n" using False by (simp add: deliverable_def)
    have e: "(bit (p_pending p) i \<and> \<not> (n \<le> i + 1 \<and> i + 1 < 32 \<and> find (deliverable p) [n..<i + 2] = None)) \<longleftrightarrow>
        (bit (p_pending p) i \<and> \<not> (Suc n \<le> i + 1 \<and> i + 1 < 32 \<and> find (deliverable p) [Suc n..<i + 2] = None))" for i
    proof (cases "i + 1 = n")
      case True
      then have "\<not> bit (p_pending p) i" using False by auto
      then show ?thesis by simp
    next
      case False
      then show ?thesis using r [of i] nd by (cases "n \<le> i + 1") auto
    qed
    have "k = 32 - Suc n" "1 \<le> Suc n" "Suc n \<le> 32" using Suc.hyps(2) n by auto
    from Suc.hyps(1) [OF this Suc.prems(3,4)] show ?thesis
      unfolding st n(2) e by (simp add: nd)
  next
    case True
    have n17: "n \<noteq> 17" using True Suc.prems(3,4) by auto
    have pend: "p_pending (procs s ?c) AND ?m \<noteq> 0" using True Suc.prems(4) n msk_bit [of n] by simp
    show ?thesis
    proof (cases "sa_handler (p_sigactions p (n - 1)) = SIGHANDLER_IGN")
      case False
      then have "deliverable p n" using True by (simp add: deliverable_def)
      moreover have "sig_loop switch n ?m s = Some (n, s)"
        using n n17 pend False Suc.prems(4)
        by (subst sig_loop.simps) (simp add: NUM_SIGNALS_def Let_def SIGCHLD_def)
      moreover have "\<not> (n \<le> i + 1 \<and> i + 1 < 32 \<and> find (deliverable p) [n..<i + 2] = None)" for i
        using calculation(1) r [of i] by auto
      ultimately show ?thesis using n(2) Suc.prems(4)
        by (intro exI [of _ s]) (auto intro: exI [of _ "p_pending p"])
    next
      case ign: True
      let ?s = "upd_proc ?c (\<lambda>x. x\<lparr>p_pending := p_pending x AND NOT ?m\<rparr>) s"
      let ?p = "p\<lparr>p_pending := p_pending p AND NOT ?m\<rparr>"
      have st: "sig_loop switch n ?m s = sig_loop switch (Suc n) (push_bit (Suc n - 1) 1) ?s"
        using n n17 pend ign Suc.prems(4) sh
        by (subst sig_loop.simps) (simp add: NUM_SIGNALS_def Let_def SIGCHLD_def)
      have b: "bit (p_pending ?p) i \<longleftrightarrow> bit (p_pending p) i \<and> i \<noteq> n - 1" for i
        using n by (auto simp: bit_and_iff bit_not_iff bit_exp_iff dest: bit_imp_le_length)
      have nd: "\<not> deliverable p n" using ign by (simp add: deliverable_def)
      have dl: "find (deliverable ?p) [Suc n..<j] = find (deliverable p) [Suc n..<j]" for j
      proof (rule find_cong)
        fix x assume "x \<in> set [Suc n..<j]"
        then have "x - 1 \<noteq> n - 1" using Suc.prems(1) by auto
        then show "deliverable ?p x = deliverable p x" unfolding deliverable_def b by simp
      qed simp
      have q: "procs ?s (proc_current ?s) = ?p" using Suc.prems(4) by simp
      have h: "k = 32 - Suc n" "1 \<le> Suc n" "Suc n \<le> 32" "\<not> bit (p_pending (procs ?s (proc_current ?s))) 16"
        using Suc.hyps(2) Suc.prems(3,4) n b unfolding q by auto
      from Suc.hyps(1) [OF h q [symmetric]] obtain t v where t:
        "sig_loop switch (Suc n) (push_bit (Suc n - 1) 1) ?s =
          Some (case find (deliverable p) [Suc n..<32] of None \<Rightarrow> 0 | Some m \<Rightarrow> m, t)"
        "\<forall>q. q \<noteq> ?c \<longrightarrow> procs t q = procs s q" "procs t ?c = p\<lparr>p_pending := v\<rparr>"
        "\<forall>i. bit v i \<longleftrightarrow> bit (p_pending ?p) i \<and> \<not> (Suc n \<le> i + 1 \<and> i + 1 < 32 \<and> find (deliverable p) [Suc n..<i + 2] = None)"
        unfolding dl by auto
      have "bit v i \<longleftrightarrow> bit (p_pending p) i \<and> \<not> (n \<le> i + 1 \<and> i + 1 < 32 \<and> find (deliverable p) [n..<i + 2] = None)" for i
      proof (cases "i = n - 1")
        case True
        then have "n \<le> i + 1" "i + 1 < 32" "[n..<i + 2] = [n]" using Suc.prems(1) n by auto
        then show ?thesis unfolding spec [OF t(4), of i] b using True nd by simp
      next
        case False
        have vi: "bit v i \<longleftrightarrow> (bit (p_pending p) i \<and> i \<noteq> n - 1) \<and>
            \<not> (Suc n \<le> i + 1 \<and> i + 1 < 32 \<and> find (deliverable p) [Suc n..<i + 2] = None)"
          unfolding spec [OF t(4), of i] b ..
        show ?thesis
        proof (cases "n \<le> i + 1")
          case le: True
          then have "Suc n \<le> i + 1" using False Suc.prems(1) by linarith
          then show ?thesis unfolding vi r [OF le] using False le nd by simp
        next
          case nle: False
          then have "\<not> Suc n \<le> i + 1" by linarith
          then show ?thesis unfolding vi using False nle by simp
        qed
      qed
      then show ?thesis using t(1-3) nd unfolding st n(2) by auto
    qed
  qed
qed

text \<open>when the current process has a pending signal that is not blocked (and no \<open>SIGCHLD\<close>),
  \<open>sig_get\<close> returns the lowest pending signal from 1 to 31 that is not ignored, 0 when there is none, and
  takes the ignored signals below it off the pending set; no other process changes. Which signals are blocked
  only decides whether it looks at all: the signal it returns can be a blocked one.\<close>

theorem sig_get_first:
  assumes "\<not> bit (p_pending (procs s (proc_current s))) 16"
  defines "p \<equiv> procs s (proc_current s)"
  shows "\<exists>t r. sig_get switch s = Some (r, t) \<and>
    r = (if p_pending p AND NOT (p_blocked p) = 0 then 0
         else case find (deliverable p) [1..<32] of None \<Rightarrow> 0 | Some m \<Rightarrow> m) \<and>
    (\<forall>q. q \<noteq> proc_current s \<longrightarrow> procs t q = procs s q) \<and>
    (p_pending p AND NOT (p_blocked p) \<noteq> 0 \<longrightarrow> (\<forall>i. bit (p_pending (procs t (proc_current s))) i \<longleftrightarrow>
      bit (p_pending p) i \<and> \<not> (i + 1 < 32 \<and> find (deliverable p) [1..<i + 2] = None)))"
proof (cases "p_pending p AND NOT (p_blocked p) = 0")
  case True
  then show ?thesis by (intro exI [of _ s] exI [of _ 0]) (simp add: sig_get_def p_def)
next
  case False
  obtain t v where t: "sig_loop switch 1 1 s = Some (case find (deliverable p) [1..<32] of None \<Rightarrow> 0 | Some m \<Rightarrow> m, t)"
    "\<forall>q. q \<noteq> proc_current s \<longrightarrow> procs t q = procs s q" "procs t (proc_current s) = p\<lparr>p_pending := v\<rparr>"
    "\<forall>i. bit v i \<longleftrightarrow> bit (p_pending p) i \<and> \<not> (1 \<le> i + 1 \<and> i + 1 < 32 \<and> find (deliverable p) [1..<i + 2] = None)"
    using sig_loop_first [of 1 s p switch] assms by auto
  have "sig_get switch s = sig_loop switch 1 1 s" using False by (simp add: sig_get_def p_def)
  then have g: "sig_get switch s = Some (case find (deliverable p) [1..<32] of None \<Rightarrow> 0 | Some m \<Rightarrow> m, t)"
    using t(1) by (rule trans)
  have b: "\<forall>i. bit (p_pending (procs t (proc_current s))) i \<longleftrightarrow>
      bit (p_pending p) i \<and> \<not> (i + 1 < 32 \<and> find (deliverable p) [1..<i + 2] = None)"
  proof
    fix i :: nat
    have "p_pending (p\<lparr>p_pending := v\<rparr>) = v" "1 \<le> i + 1" by simp_all
    then show "bit (p_pending (procs t (proc_current s))) i \<longleftrightarrow>
      bit (p_pending p) i \<and> \<not> (i + 1 < 32 \<and> find (deliverable p) [1..<i + 2] = None)"
      unfolding t(3) using spec [OF t(4), of i] by (simp only: simp_thms)
  qed
  show ?thesis unfolding if_not_P [OF False] using g t(2) b by blast
qed

theorem sig_get_first_witness:
  "\<exists>t. sig_get Some three_procs = Some (2, t) \<and> bit (p_blocked (procs three_procs 1)) (2 - 1)"
proof -
  have c: "proc_current three_procs = 1" "p_pending (procs three_procs 1) = 6" "p_blocked (procs three_procs 1) = 2"
    "sa_handler (p_sigactions (procs three_procs 1) i) = 0" for i
    by (simp_all add: three_procs_def zero_proc_def)
  have b: "\<not> bit (6 :: u32) 16" "bit (2 :: u32) 1" "bit (6 :: u32) 1" "\<not> bit (6 :: u32) 0" by simp_all
  have u: "[1..<32] = 1 # [Suc 1..<32]" "[2..<32] = 2 # [Suc 2..<32]" by (rule upt_conv_Cons, simp)+
  have e: "Suc 1 = 2" by simp
  have "\<not> deliverable (procs three_procs 1) 1" "deliverable (procs three_procs 1) 2"
    unfolding deliverable_def c SIGHANDLER_IGN_def using b by simp_all
  then have f: "find (deliverable (procs three_procs 1)) [1..<32] = Some 2" unfolding u(1) e u(2) by simp
  have nz: "(6 :: u32) AND NOT 2 \<noteq> 0" by simp
  obtain t r where "sig_get Some three_procs = Some (r, t)" "r = 2"
    using sig_get_first [of three_procs Some] b(1) nz unfolding c f by fastforce
  then show ?thesis unfolding c using b(2) by simp
qed

section \<open>Process groups and children\<close>

lemma orphan_loop_list:
  assumes "slist (pnx s) h xs" "\<forall>i \<in> set xs. p_parent (procs s i) \<noteq> None"
  shows "orphan_loop g h s = Some (\<forall>i \<in> set xs. p_pgid (procs s i) = g \<and> p_state (procs s i) \<noteq> PROC_ZOMBLEY \<longrightarrow>
    p_pgid (procs s (the (p_parent (procs s i)))) = g \<and>
    p_sid (procs s (the (p_parent (procs s i)))) \<noteq> p_sid (procs s i))"
  using assms
proof (induction xs arbitrary: h)
  case (Cons i xs)
  then obtain q where "p_parent (procs s i) = Some q" by auto
  then show ?case using Cons by (subst orphan_loop.simps) auto
qed (simp add: orphan_loop.simps)

text \<open>\<open>proc_is_orphaned_pgrp\<close> answers yes exactly when each living member of the group, the first
  process of the list aside, has a parent that is in the group and in another session; where the group is
  defined to be orphaned when each parent is in the group or in another session. It gives the lock back only with
  that answer: with no it returns holding the lock.\<close>

theorem orphaned_pgrp_answer:
  fixes g :: u32
  assumes "table_inv s (h # xs) fs" "proc_lock s = unlocked" "\<forall>i \<in> set xs. p_parent (procs s i) \<noteq> None"
  defines "ok \<equiv> \<forall>i \<in> set xs. p_pgid (procs s i) = g \<and> p_state (procs s i) \<noteq> PROC_ZOMBLEY \<longrightarrow>
    p_pgid (procs s (the (p_parent (procs s i)))) = g \<and>
    p_sid (procs s (the (p_parent (procs s i)))) \<noteq> p_sid (procs s i)"
  shows "proc_is_orphaned_pgrp switch g s = Some (ok, s\<lparr>proc_lock := if ok then unlocked else taken\<rparr>)"
proof -
  have d: "dlist (pnx s) (ppv s) (proc_list_head s) (h # xs)" using assms(1) by (simp add: table_inv_def)
  have sl: "proc_list_head s = Some h" "slist (pnx s) (pnx s h) xs"
    using dlist_slist [OF d] by auto
  have "orphan_loop g (pnx s h) (s\<lparr>proc_lock := taken\<rparr>) = Some ok"
    unfolding ok_def using orphan_loop_list [of "s\<lparr>proc_lock := taken\<rparr>" "pnx s h" xs g] sl(2) assms(3) by simp
  then show ?thesis using sl(1)
    by (simp add: proc_is_orphaned_pgrp_def lock_proc_free [OF assms(2)] unlock_proc_taken)
qed

theorem orphaned_pgrp_answer_witness:
  "proc_is_orphaned_pgrp Some 9 three_procs = Some (False, three_procs\<lparr>proc_lock := taken\<rparr>)"
proof -
  have p: "\<forall>i \<in> set [1, 2]. p_parent (procs three_procs i) \<noteq> None"
    "p_pgid (procs three_procs 2) = 9" "p_state (procs three_procs 2) \<noteq> PROC_ZOMBLEY"
    "p_pgid (procs three_procs (the (p_parent (procs three_procs 2)))) \<noteq> 9"
    by (auto simp: three_procs_def zero_proc_def)
  have "\<not> (\<forall>i \<in> set [1, 2]. p_pgid (procs three_procs i) = 9 \<and> p_state (procs three_procs i) \<noteq> PROC_ZOMBLEY \<longrightarrow>
    p_pgid (procs three_procs (the (p_parent (procs three_procs i)))) = 9 \<and>
    p_sid (procs three_procs (the (p_parent (procs three_procs i)))) \<noteq> p_sid (procs three_procs i))" (is "\<not> ?ok")
    using p by auto
  then have "?ok = False" by blast
  then show ?thesis
    using orphaned_pgrp_answer [OF three_procs_inv p(1), where g = 9 and switch = Some] by (simp only: if_False)
qed

lemma zombley_first:
  assumes "table_inv s (h # xs) fs"
  shows "proc_get_next_zombley q s =
    Some (find (\<lambda>i. p_parent (procs s i) = Some q \<and> p_state (procs s i) = PROC_ZOMBLEY) xs)"
proof -
  have d: "dlist (pnx s) (ppv s) (proc_list_head s) (h # xs)" using assms(1) by (simp add: table_inv_def)
  have sl: "proc_list_head s = Some h" "slist (pnx s) (pnx s h) xs" using dlist_slist [OF d] by auto
  have "slist (pnx s) k ys \<Longrightarrow> zombley_loop q k s =
    Some (find (\<lambda>i. p_parent (procs s i) = Some q \<and> p_state (procs s i) = PROC_ZOMBLEY) ys)" for k ys
  proof (induction ys arbitrary: k)
    case (Cons y ys)
    then show ?case by (subst zombley_loop.simps) simp
  qed (simp add: zombley_loop.simps)
  then show ?thesis using sl by (simp add: proc_get_next_zombley_def)
qed

lemma sleep_uninterruptible:
  "sleep switch addr PROC_UNINTERRUPTIBLE s = map_option (\<lambda>(_, t). (0, t)) (sleep_core switch addr PROC_UNINTERRUPTIBLE s)"
  by (cases "sleep_core switch addr PROC_UNINTERRUPTIBLE s") (auto simp: sleep_def)

text \<open>An interruptible sleep does not start when a signal is to be delivered.\<close>

lemma sleep_signal_first:
  "sig_get switch s = Some (n, t) \<Longrightarrow> n \<noteq> 0 \<Longrightarrow> sleep switch addr PROC_INTERRUPTIBLE s = Some (n, t)"
  by (simp add: sleep_def)

end
