(* ===== verification/Ctype.thy ===== *)
theory Ctype
  imports Prelude
begin

text \<open>
  Character classes, \<open>src/lib/src/ctype.c\<close> with \<open>src/include/lib/ctype.h\<close>. The table has 129 entries:
  one for \<open>EOF\<close> and one for each ASCII character. The macros index it with whatever character they are
  given, so that they are undefined on the characters from 128 on. A macro is used as a condition; its
  model answers whether the result is not 0.
\<close>

definition CTYPE_FUPPER :: u8 where "CTYPE_FUPPER = 0x01"
definition CTYPE_FLOWER :: u8 where "CTYPE_FLOWER = 0x02"
definition CTYPE_FNUMRL :: u8 where "CTYPE_FNUMRL = 0x04"
definition CTYPE_FSPC :: u8 where "CTYPE_FSPC = 0x08"
definition CTYPE_FPUNC :: u8 where "CTYPE_FPUNC = 0x10"
definition CTYPE_FCTRL :: u8 where "CTYPE_FCTRL = 0x20"
definition CTYPE_FHEX :: u8 where "CTYPE_FHEX = 0x40"

definition ctype_t :: "u8 list" where
  "ctype_t =
     [0] @
     replicate 9 CTYPE_FCTRL @
     replicate 5 (CTYPE_FCTRL OR CTYPE_FSPC) @
     replicate 18 CTYPE_FCTRL @
     [CTYPE_FSPC] @
     replicate 15 CTYPE_FPUNC @
     replicate 10 CTYPE_FNUMRL @
     replicate 7 CTYPE_FPUNC @
     replicate 6 (CTYPE_FUPPER OR CTYPE_FHEX) @
     replicate 20 CTYPE_FUPPER @
     replicate 6 CTYPE_FPUNC @
     replicate 6 (CTYPE_FLOWER OR CTYPE_FHEX) @
     replicate 20 CTYPE_FLOWER @
     replicate 4 CTYPE_FPUNC @
     [CTYPE_FCTRL]"

text \<open>\<open>(ctype_t + 1)[ch] & flags\<close>, undefined beyond the table.\<close>

definition ctype_test :: "u8 \<Rightarrow> u8 \<Rightarrow> bool option" where
  "ctype_test flags ch = do {
     require (unat ch + 1 < length ctype_t);
     Some (ctype_t ! (unat ch + 1) AND flags \<noteq> 0)
   }"

definition ISALPHA :: "u8 \<Rightarrow> bool option" where "ISALPHA = ctype_test (CTYPE_FUPPER OR CTYPE_FLOWER)"
definition ISUPPER :: "u8 \<Rightarrow> bool option" where "ISUPPER = ctype_test CTYPE_FUPPER"
definition ISLOWER :: "u8 \<Rightarrow> bool option" where "ISLOWER = ctype_test CTYPE_FLOWER"
definition ISDIGIT :: "u8 \<Rightarrow> bool option" where "ISDIGIT = ctype_test CTYPE_FNUMRL"
definition ISALNUM :: "u8 \<Rightarrow> bool option" where
  "ISALNUM = ctype_test (CTYPE_FUPPER OR CTYPE_FLOWER OR CTYPE_FNUMRL)"
definition ISSPACE :: "u8 \<Rightarrow> bool option" where "ISSPACE = ctype_test CTYPE_FSPC"
definition ISPUNCT :: "u8 \<Rightarrow> bool option" where "ISPUNCT = ctype_test CTYPE_FPUNC"
definition ISCTRL :: "u8 \<Rightarrow> bool option" where "ISCTRL = ctype_test CTYPE_FCTRL"
definition ISXDIGIT :: "u8 \<Rightarrow> bool option" where "ISXDIGIT = ctype_test (CTYPE_FNUMRL OR CTYPE_FHEX)"

definition ISASCII :: "u8 \<Rightarrow> bool" where "ISASCII ch \<longleftrightarrow> ch \<le> 0x7F"
definition TOASCII :: "u8 \<Rightarrow> u8" where "TOASCII ch = ch AND 0x7F"
definition TOUPPER :: "u8 \<Rightarrow> u8" where "TOUPPER ch = ch AND NOT 32"
definition TOLOWER :: "u8 \<Rightarrow> u8" where "TOLOWER ch = ch OR 32"

text \<open>The classes as ranges of codes.\<close>

definition is_upper :: "nat \<Rightarrow> bool" where "is_upper c \<longleftrightarrow> 65 \<le> c \<and> c \<le> 90"
definition is_lower :: "nat \<Rightarrow> bool" where "is_lower c \<longleftrightarrow> 97 \<le> c \<and> c \<le> 122"
definition is_digit :: "nat \<Rightarrow> bool" where "is_digit c \<longleftrightarrow> 48 \<le> c \<and> c \<le> 57"
definition is_ctrl :: "nat \<Rightarrow> bool" where "is_ctrl c \<longleftrightarrow> c < 32 \<or> c = 127"
definition is_space :: "nat \<Rightarrow> bool" where "is_space c \<longleftrightarrow> 9 \<le> c \<and> c \<le> 13 \<or> c = 32"
definition is_xletter :: "nat \<Rightarrow> bool" where "is_xletter c \<longleftrightarrow> 65 \<le> c \<and> c \<le> 70 \<or> 97 \<le> c \<and> c \<le> 102"

definition class_of :: "nat \<Rightarrow> u8" where
  "class_of c = (if is_upper c then CTYPE_FUPPER else 0) OR (if is_lower c then CTYPE_FLOWER else 0) OR
     (if is_digit c then CTYPE_FNUMRL else 0) OR (if is_space c then CTYPE_FSPC else 0) OR
     (if is_ctrl c then CTYPE_FCTRL else 0) OR (if is_xletter c then CTYPE_FHEX else 0) OR
     (if is_upper c \<or> is_lower c \<or> is_digit c \<or> is_space c \<or> is_ctrl c then 0 else CTYPE_FPUNC)"

lemma ctype_t_class: "ctype_t = 0 # map class_of [0..<128]"
  by code_simp

lemma ctype_test_class:
  "ctype_test fl ch = (if ch < 128 then Some (class_of (unat ch) AND fl \<noteq> 0) else None)"
proof -
  have "ch < 128 \<longleftrightarrow> unat ch < 128" by (simp add: word_less_nat_alt)
  then show ?thesis by (simp add: ctype_test_def ctype_t_class)
qed

lemmas ctype_flags = CTYPE_FUPPER_def CTYPE_FLOWER_def CTYPE_FNUMRL_def CTYPE_FSPC_def CTYPE_FPUNC_def
  CTYPE_FCTRL_def CTYPE_FHEX_def

lemmas class_ranges = is_upper_def is_lower_def is_digit_def is_ctrl_def is_space_def is_xletter_def

lemma ISCTRL_eq: "ISCTRL ch = (if ch < 128 then Some (is_ctrl (unat ch)) else None)"
  by (auto simp: ISCTRL_def ctype_test_class class_of_def ctype_flags class_ranges)

lemma ISSPACE_eq: "ISSPACE ch = (if ch < 128 then Some (is_space (unat ch)) else None)"
  by (auto simp: ISSPACE_def ctype_test_class class_of_def ctype_flags class_ranges)

lemma ISUPPER_eq: "ISUPPER ch = (if ch < 128 then Some (is_upper (unat ch)) else None)"
  by (auto simp: ISUPPER_def ctype_test_class class_of_def ctype_flags class_ranges)

lemma case_round_trip:
  "\<forall>c \<in> set [65..<91]. ISLOWER (TOLOWER (word_of_nat c)) = Some True \<and>
    TOUPPER (TOLOWER (word_of_nat c)) = word_of_nat c"
  by code_simp

text \<open>on ASCII characters the macros answer the usual classes, each a range of codes, and
  changing the case of a letter and back is the identity; on every other character they read beyond the
  table.\<close>

theorem ctype_classes:
  "ISUPPER ch = (if ch < 128 then Some (is_upper (unat ch)) else None) \<and>
   ISLOWER ch = (if ch < 128 then Some (is_lower (unat ch)) else None) \<and>
   ISALPHA ch = (if ch < 128 then Some (is_upper (unat ch) \<or> is_lower (unat ch)) else None) \<and>
   ISDIGIT ch = (if ch < 128 then Some (is_digit (unat ch)) else None) \<and>
   ISXDIGIT ch = (if ch < 128 then Some (is_digit (unat ch) \<or> is_xletter (unat ch)) else None) \<and>
   ISSPACE ch = (if ch < 128 then Some (is_space (unat ch)) else None) \<and>
   ISCTRL ch = (if ch < 128 then Some (is_ctrl (unat ch)) else None) \<and>
   (ISUPPER ch = Some True \<longrightarrow> ISLOWER (TOLOWER ch) = Some True \<and> TOUPPER (TOLOWER ch) = ch)"
proof -
  have "ISLOWER (TOLOWER ch) = Some True \<and> TOUPPER (TOLOWER ch) = ch" if "ISUPPER ch = Some True"
  proof -
    have "is_upper (unat ch)" using that by (simp add: ISUPPER_eq split: if_splits)
    then have "unat ch \<in> set [65..<91]" unfolding is_upper_def set_upt by (simp add: atLeastLessThan_def)
    with case_round_trip show ?thesis by (metis of_nat_unat ucast_id)
  qed
  moreover have "ISLOWER ch = (if ch < 128 then Some (is_lower (unat ch)) else None)"
    "ISALPHA ch = (if ch < 128 then Some (is_upper (unat ch) \<or> is_lower (unat ch)) else None)"
    "ISDIGIT ch = (if ch < 128 then Some (is_digit (unat ch)) else None)"
    "ISXDIGIT ch = (if ch < 128 then Some (is_digit (unat ch) \<or> is_xletter (unat ch)) else None)"
    by (auto simp: ISLOWER_def ISALPHA_def ISDIGIT_def ISXDIGIT_def ctype_test_class class_of_def
        ctype_flags class_ranges)
  ultimately show ?thesis by (simp only: ISUPPER_eq ISSPACE_eq ISCTRL_eq) simp
qed

theorem ctype_classes_witness:
  "ISUPPER 71 = Some True \<and> TOLOWER 71 = 103 \<and> TOUPPER (TOLOWER 71) = 71 \<and> ISCTRL 200 = None"
  using ctype_classes [of 71] ctype_classes [of 200] by (simp add: class_ranges TOLOWER_def)

end
