(* ===== verification/Tty.thy ===== *)
theory Tty
  imports Charq Ctype Timer Signal
begin

text \<open>
  Terminals, \<open>src/drivers/src/dev/char/tty/tty.c\<close> and \<open>termios.c\<close> with \<open>tty.h\<close>, \<open>termios.h\<close> and
  \<open>termbits.h\<close> of \<open>src/include/drivers/dev/char/tty\<close>. A terminal is an index into \<open>tty_table\<close>. Its three
  character queues share the blocks \<open>chars\<close> and the heap below them; the state extends that of \<open>Timer\<close> and
  holds the process state of \<open>Proc\<close> as \<open>ks\<close>. What the code reaches through pointers set elsewhere is the
  argument \<open>env\<close>: the allocator, the operations of the terminal's driver, the context switch, the addresses
  of functions and objects that the code passes around as numbers, and \<open>e_resume\<close>, everything that other
  processes and interrupts do to the state while the current process sleeps. \<open>e_num0\<close> is the value that
  the uninitialised variable of \<open>tty_get\<close> happens to have.
\<close>

section \<open>State\<close>

record termios =
  c_iflag :: u32
  c_oflag :: u32
  c_cflag :: u32
  c_lflag :: u32
  c_line :: u8
  c_cc :: "nat \<Rightarrow> u8"

record winsize =
  ws_row :: u16
  ws_col :: u16
  ws_xpixel :: u16
  ws_ypixel :: u16

datatype keyboard_mode = KBD_MODE_RAW | KBD_MODE_XLATE | KBD_MODE_MEDRAW

record tty =
  tty_flags :: u32
  open_count :: u16
  devnum :: u16
  tty_data :: nat
  tty_pid :: u32
  tty_pgid :: u32
  kbd_mode :: keyboard_mode
  has_canon_ln :: bool
  read_q :: charq
  cooked_q :: charq
  write_q :: charq
  termios_of :: termios
  win :: winsize
  column :: int
  tab_stop :: "bool list"

record 'h tty_state = timer_state +
  tty_table :: "nat \<Rightarrow> tty"
  chars :: "'h cstore"
  ks :: proc_kstate
  current_console :: u16

record ('h, 's) tty_env =
  e_alloc :: "u32 \<Rightarrow> 'h \<Rightarrow> (u32 \<times> 'h) option"
  e_release :: "u32 \<Rightarrow> 'h \<Rightarrow> 'h option"
  e_start :: "nat \<Rightarrow> 's \<Rightarrow> 's option"
  e_stop :: "nat \<Rightarrow> 's \<Rightarrow> 's option"
  e_delete_tab :: "nat \<Rightarrow> 's \<Rightarrow> 's option"
  e_output :: "nat \<Rightarrow> 's \<Rightarrow> 's option"
  e_switch :: switch
  e_resume :: "'s \<Rightarrow> 's option"
  e_tty_addr :: "nat \<Rightarrow> u32"
  e_cooked_addr :: "nat \<Rightarrow> u32"
  e_tty_read :: u32
  e_tty_write :: u32
  e_vtime :: u32
  e_num0 :: int

definition NUM_TTYS :: nat where "NUM_TTYS = 16"
definition MAX_TAB_COLS :: nat where "MAX_TAB_COLS = 132"
definition TTY_HAS_LNEXT :: u32 where "TTY_HAS_LNEXT = 1"

definition upd_tty :: "nat \<Rightarrow> (tty \<Rightarrow> tty) \<Rightarrow> ('h, 'z) tty_state_scheme \<Rightarrow> ('h, 'z) tty_state_scheme" where
  "upd_tty t f s = s\<lparr>tty_table := (tty_table s)(t := f (tty_table s t))\<rparr>"

section \<open>Flags and control characters\<close>

definition ISTRIP :: u32 where "ISTRIP = 0x20"
definition INLCR :: u32 where "INLCR = 0x40"
definition IGNCR :: u32 where "IGNCR = 0x80"
definition ICRNL :: u32 where "ICRNL = 0x100"
definition IUCLC :: u32 where "IUCLC = 0x200"
definition IXON :: u32 where "IXON = 0x400"
definition IXANY :: u32 where "IXANY = 0x800"
definition IXOFF :: u32 where "IXOFF = 0x1000"
definition ISIG :: u32 where "ISIG = 1"
definition ICANON :: u32 where "ICANON = 2"
definition ECHO :: u32 where "ECHO = 8"
definition ECHOE :: u32 where "ECHOE = 0x10"
definition ECHOK :: u32 where "ECHOK = 0x20"
definition ECHONL :: u32 where "ECHONL = 0x40"
definition NOFLSH :: u32 where "NOFLSH = 0x80"
definition TOSTOP :: u32 where "TOSTOP = 0x100"
definition ECHOCTL :: u32 where "ECHOCTL = 0x200"
definition ECHOKE :: u32 where "ECHOKE = 0x800"
definition IEXTEN :: u32 where "IEXTEN = 0x8000"
definition OPOST :: u32 where "OPOST = 1"
definition OLCUC :: u32 where "OLCUC = 2"
definition ONLCR :: u32 where "ONLCR = 4"
definition B9600 :: u32 where "B9600 = 13"
definition CS8 :: u32 where "CS8 = 0x30"
definition CREAD :: u32 where "CREAD = 0x80"
definition HUPCL :: u32 where "HUPCL = 0x400"
definition CLOCAL :: u32 where "CLOCAL = 0x800"

definition VINTR :: nat where "VINTR = 0"
definition VQUIT :: nat where "VQUIT = 1"
definition VERASE :: nat where "VERASE = 2"
definition VKILL :: nat where "VKILL = 3"
definition VEOF :: nat where "VEOF = 4"
definition VTIME :: nat where "VTIME = 5"
definition VMIN :: nat where "VMIN = 6"
definition VSWTC :: nat where "VSWTC = 7"
definition VSTART :: nat where "VSTART = 8"
definition VSTOP :: nat where "VSTOP = 9"
definition VSUSP :: nat where "VSUSP = 10"
definition VEOL :: nat where "VEOL = 11"
definition VREPRINT :: nat where "VREPRINT = 12"
definition VDISCARD :: nat where "VDISCARD = 13"
definition VWERASE :: nat where "VWERASE = 14"
definition VLNEXT :: nat where "VLNEXT = 15"
definition VEOL2 :: nat where "VEOL2 = 16"

lemmas control_chars = VINTR_def VQUIT_def VERASE_def VKILL_def VEOF_def VTIME_def VMIN_def VSWTC_def
  VSTART_def VSTOP_def VSUSP_def VEOL_def VREPRINT_def VDISCARD_def VWERASE_def VLNEXT_def VEOL2_def

abbreviation cc :: "tty \<Rightarrow> nat \<Rightarrow> u8" where "cc x \<equiv> c_cc (termios_of x)"

definition termios_should_ignore_last_char :: "tty \<Rightarrow> bool" where
  "termios_should_ignore_last_char x \<longleftrightarrow> tty_flags x AND TTY_HAS_LNEXT \<noteq> 0"
definition termios_should_map_cr_to_nl :: "tty \<Rightarrow> bool" where
  "termios_should_map_cr_to_nl x \<longleftrightarrow> c_iflag (termios_of x) AND ICRNL \<noteq> 0"
definition termios_should_map_nl_to_cr :: "tty \<Rightarrow> bool" where
  "termios_should_map_nl_to_cr x \<longleftrightarrow> c_iflag (termios_of x) AND INLCR \<noteq> 0"
definition termios_should_map_nl_to_nlcr :: "tty \<Rightarrow> bool" where
  "termios_should_map_nl_to_nlcr x \<longleftrightarrow> c_oflag (termios_of x) AND ONLCR \<noteq> 0"
definition termios_should_flush_queues :: "tty \<Rightarrow> u8 \<Rightarrow> bool" where
  "termios_should_flush_queues x ch \<longleftrightarrow> ch = cc x VINTR"
definition termios_noflush :: "tty \<Rightarrow> bool" where
  "termios_noflush x \<longleftrightarrow> c_lflag (termios_of x) AND NOFLSH \<noteq> 0"
definition termios_is_quit_char :: "tty \<Rightarrow> u8 \<Rightarrow> bool" where
  "termios_is_quit_char x ch \<longleftrightarrow> ch = cc x VQUIT"
definition termios_is_suspend_char :: "tty \<Rightarrow> u8 \<Rightarrow> bool" where
  "termios_is_suspend_char x ch \<longleftrightarrow> ch = cc x VSUSP"
definition termios_should_strip_8bit_ascii :: "tty \<Rightarrow> bool" where
  "termios_should_strip_8bit_ascii x \<longleftrightarrow> c_iflag (termios_of x) AND ISTRIP \<noteq> 0"
definition termios_should_lowercase :: "tty \<Rightarrow> bool" where
  "termios_should_lowercase x \<longleftrightarrow> c_iflag (termios_of x) AND IUCLC \<noteq> 0"
definition termios_should_uppercase :: "tty \<Rightarrow> bool" where
  "termios_should_uppercase x \<longleftrightarrow> c_oflag (termios_of x) AND OLCUC \<noteq> 0"
definition termios_should_ignore_cr :: "tty \<Rightarrow> bool" where
  "termios_should_ignore_cr x \<longleftrightarrow> c_iflag (termios_of x) AND IGNCR \<noteq> 0"
definition termios_is_canonical_mode :: "tty \<Rightarrow> bool" where
  "termios_is_canonical_mode x \<longleftrightarrow> c_lflag (termios_of x) AND ICANON \<noteq> 0"
definition termios_should_erase_char :: "tty \<Rightarrow> u8 \<Rightarrow> bool" where
  "termios_should_erase_char x ch \<longleftrightarrow> ch = cc x VERASE"
definition termios_should_erase_word :: "tty \<Rightarrow> u8 \<Rightarrow> bool" where
  "termios_should_erase_word x ch \<longleftrightarrow> ch = cc x VWERASE"
definition termios_should_kill_proc :: "tty \<Rightarrow> u8 \<Rightarrow> bool" where
  "termios_should_kill_proc x ch \<longleftrightarrow> ch = cc x VKILL"
definition termios_should_reprint_line :: "tty \<Rightarrow> u8 \<Rightarrow> bool" where
  "termios_should_reprint_line x ch \<longleftrightarrow> ch = cc x VREPRINT"
definition termios_has_vlnext :: "tty \<Rightarrow> u8 \<Rightarrow> bool" where
  "termios_has_vlnext x ch \<longleftrightarrow> ch = cc x VLNEXT"
definition termios_extended_proc_enabled :: "tty \<Rightarrow> bool" where
  "termios_extended_proc_enabled x \<longleftrightarrow> c_lflag (termios_of x) AND IEXTEN \<noteq> 0"
definition termios_should_echo_ctrl_chars :: "tty \<Rightarrow> bool" where
  "termios_should_echo_ctrl_chars x \<longleftrightarrow> c_lflag (termios_of x) AND ECHOCTL \<noteq> 0"
definition termios_should_echo :: "tty \<Rightarrow> bool" where
  "termios_should_echo x \<longleftrightarrow> c_lflag (termios_of x) AND ECHO \<noteq> 0"
definition termios_should_echo_newline :: "tty \<Rightarrow> bool" where
  "termios_should_echo_newline x \<longleftrightarrow> c_lflag (termios_of x) AND ECHONL \<noteq> 0"
definition termios_output_ctrl_enabled :: "tty \<Rightarrow> bool" where
  "termios_output_ctrl_enabled x \<longleftrightarrow> c_iflag (termios_of x) AND IXON \<noteq> 0"
definition termios_should_resume_output :: "tty \<Rightarrow> u8 \<Rightarrow> bool" where
  "termios_should_resume_output x ch \<longleftrightarrow> ch = cc x VSTART"
definition termios_should_pause_output :: "tty \<Rightarrow> u8 \<Rightarrow> bool" where
  "termios_should_pause_output x ch \<longleftrightarrow> ch = cc x VSTOP"
definition termios_any_char_resumes_output :: "tty \<Rightarrow> bool" where
  "termios_any_char_resumes_output x \<longleftrightarrow> c_iflag (termios_of x) AND IXANY \<noteq> 0"
definition termios_should_proc_output :: "tty \<Rightarrow> bool" where
  "termios_should_proc_output x \<longleftrightarrow> c_oflag (termios_of x) AND OPOST \<noteq> 0"
text \<open>The comparisons of the next three are \<open>!=\<close> in the source too.\<close>

definition termios_is_eof_char :: "tty \<Rightarrow> u8 \<Rightarrow> bool" where
  "termios_is_eof_char x ch \<longleftrightarrow> ch \<noteq> cc x VEOF"
definition termios_is_eol_char :: "tty \<Rightarrow> u8 \<Rightarrow> bool" where
  "termios_is_eol_char x ch \<longleftrightarrow> ch \<noteq> cc x VEOL"
definition termios_is_eol2_char :: "tty \<Rightarrow> u8 \<Rightarrow> bool" where
  "termios_is_eol2_char x ch \<longleftrightarrow> ch \<noteq> cc x VEOL2 \<and> cc x VEOL2 \<noteq> 0"
definition termios_should_echo_nl_on_kill :: "tty \<Rightarrow> bool" where
  "termios_should_echo_nl_on_kill x \<longleftrightarrow> c_lflag (termios_of x) AND ECHOK \<noteq> 0"
definition termios_should_visual_erase :: "tty \<Rightarrow> bool" where
  "termios_should_visual_erase x \<longleftrightarrow> c_lflag (termios_of x) AND ECHOE \<noteq> 0"
definition termios_has_noncanon_read_timeout :: "tty \<Rightarrow> bool" where
  "termios_has_noncanon_read_timeout x \<longleftrightarrow> cc x VTIME > 0"
definition termios_has_min_read_batch_size :: "tty \<Rightarrow> bool" where
  "termios_has_min_read_batch_size x \<longleftrightarrow> cc x VMIN \<noteq> 0"
definition termios_bg_proc_can_write_to_tty :: "tty \<Rightarrow> bool" where
  "termios_bg_proc_can_write_to_tty x \<longleftrightarrow> c_lflag (termios_of x) AND TOSTOP \<noteq> 0"

definition termios_reset :: "nat \<Rightarrow> ('h, 'z) tty_state_scheme \<Rightarrow> ('h, 'z) tty_state_scheme" where
  "termios_reset t s =
     upd_tty t (\<lambda>x. x\<lparr>kbd_mode := KBD_MODE_XLATE, termios_of := \<lparr>
       c_iflag = ICRNL OR IXON OR IXOFF,
       c_oflag = OPOST OR ONLCR,
       c_cflag = B9600 OR CS8 OR HUPCL OR CREAD OR CLOCAL,
       c_lflag = ISIG OR ICANON OR ECHO OR ECHOE OR ECHOK OR ECHOCTL OR ECHOKE OR IEXTEN,
       c_line = 0,
       c_cc = (cc x)(VINTR := 3, VQUIT := 28, VERASE := 127, VKILL := 21, VEOF := 4, VTIME := 0, VMIN := 1,
         VSWTC := 0, VSTART := 17, VSTOP := 19, VSUSP := 26, VEOL := 10, VREPRINT := 18, VDISCARD := 15,
         VWERASE := 23, VLNEXT := 22, VEOL2 := 0)\<rparr>\<rparr>) s"

section \<open>The queues of a terminal\<close>

definition put_write ::
    "('h, ('h, 'z) tty_state_scheme) tty_env \<Rightarrow> nat \<Rightarrow> u8 \<Rightarrow> ('h, 'z) tty_state_scheme \<Rightarrow>
     (retval_t \<times> ('h, 'z) tty_state_scheme) option" where
  "put_write env t ch s = do {
     (r, q, st) \<leftarrow> charq_put_char (e_alloc env) ch (write_q (tty_table s t)) (chars s);
     Some (r, (upd_tty t (\<lambda>x. x\<lparr>write_q := q\<rparr>) s)\<lparr>chars := st\<rparr>)
   }"

definition put_cooked ::
    "('h, ('h, 'z) tty_state_scheme) tty_env \<Rightarrow> nat \<Rightarrow> u8 \<Rightarrow> ('h, 'z) tty_state_scheme \<Rightarrow>
     (retval_t \<times> ('h, 'z) tty_state_scheme) option" where
  "put_cooked env t ch s = do {
     (r, q, st) \<leftarrow> charq_put_char (e_alloc env) ch (cooked_q (tty_table s t)) (chars s);
     Some (r, (upd_tty t (\<lambda>x. x\<lparr>cooked_q := q\<rparr>) s)\<lparr>chars := st\<rparr>)
   }"

definition unput_cooked :: "nat \<Rightarrow> ('h, 'z) tty_state_scheme \<Rightarrow> (retval_t \<times> ('h, 'z) tty_state_scheme) option" where
  "unput_cooked t s = do {
     (r, q, st) \<leftarrow> charq_unput_char (cooked_q (tty_table s t)) (chars s);
     Some (r, (upd_tty t (\<lambda>x. x\<lparr>cooked_q := q\<rparr>) s)\<lparr>chars := st\<rparr>)
   }"

definition get_read ::
    "('h, ('h, 'z) tty_state_scheme) tty_env \<Rightarrow> nat \<Rightarrow> ('h, 'z) tty_state_scheme \<Rightarrow>
     (u8 \<times> ('h, 'z) tty_state_scheme) option" where
  "get_read env t s = do {
     (ch, q, st) \<leftarrow> charq_get_char (e_release env) (read_q (tty_table s t)) (chars s);
     Some (ch, (upd_tty t (\<lambda>x. x\<lparr>read_q := q\<rparr>) s)\<lparr>chars := st\<rparr>)
   }"

definition get_cooked ::
    "('h, ('h, 'z) tty_state_scheme) tty_env \<Rightarrow> nat \<Rightarrow> ('h, 'z) tty_state_scheme \<Rightarrow>
     (u8 \<times> ('h, 'z) tty_state_scheme) option" where
  "get_cooked env t s = do {
     (ch, q, st) \<leftarrow> charq_get_char (e_release env) (cooked_q (tty_table s t)) (chars s);
     Some (ch, (upd_tty t (\<lambda>x. x\<lparr>cooked_q := q\<rparr>) s)\<lparr>chars := st\<rparr>)
   }"

definition flush_input ::
    "('h, ('h, 'z) tty_state_scheme) tty_env \<Rightarrow> nat \<Rightarrow> ('h, 'z) tty_state_scheme \<Rightarrow>
     ('h, 'z) tty_state_scheme option" where
  "flush_input env t s = do {
     (q, st) \<leftarrow> charq_flush (e_release env) (read_q (tty_table s t)) (chars s);
     let s = (upd_tty t (\<lambda>x. x\<lparr>read_q := q\<rparr>) s)\<lparr>chars := st\<rparr>;
     (q, st) \<leftarrow> charq_flush (e_release env) (cooked_q (tty_table s t)) (chars s);
     Some ((upd_tty t (\<lambda>x. x\<lparr>cooked_q := q\<rparr>) s)\<lparr>chars := st\<rparr>)
   }"

text \<open>The last character of a queue. In a last block with no written character the index is \<open>-1\<close>.\<close>

definition LAST_CHAR :: "charq \<Rightarrow> 'h cstore \<Rightarrow> u8 option" where
  "LAST_CHAR q st = (case q_tail q of
       None \<Rightarrow> Some 0
     | Some cb \<Rightarrow> do {
         let w = unat (next_write_index (cblocks st cb));
         require (0 < w \<and> w \<le> length (cb_data (cblocks st cb)));
         Some (cb_data (cblocks st cb) ! (w - 1))
       })"

section \<open>Output\<close>

definition set_column :: "nat \<Rightarrow> int \<Rightarrow> ('h, 'z) tty_state_scheme \<Rightarrow> ('h, 'z) tty_state_scheme option" where
  "set_column t i s = do { i \<leftarrow> to_int i; Some (upd_tty t (\<lambda>x. x\<lparr>column := i\<rparr>) s) }"

text \<open>The columns of a tab: to the next tab stop or the last column of the window.\<close>

function tab_loop :: "nat \<Rightarrow> ('h, 'z) tty_state_scheme \<Rightarrow> ('h, 'z) tty_state_scheme option" where
  "tab_loop t s =
     (if column (tty_table s t) < int (unat (ws_col (win (tty_table s t)))) - 1 then do {
        let i = column (tty_table s t) + 1;
        let s = upd_tty t (\<lambda>x. x\<lparr>column := i\<rparr>) s;
        require (0 \<le> i \<and> nat i < length (tab_stop (tty_table s t)));
        if tab_stop (tty_table s t) ! nat i then Some s else tab_loop t s
      } else Some s)"
  by pat_completeness auto
termination
  by (relation "measure (\<lambda>(t, s). nat (int (unat (ws_col (win (tty_table s t)))) - column (tty_table s t)))")
     (auto simp: upd_tty_def)

declare tab_loop.simps [simp del]

definition opost ::
    "('h, ('h, 'z) tty_state_scheme) tty_env \<Rightarrow> nat \<Rightarrow> u8 \<Rightarrow> ('h, 'z) tty_state_scheme \<Rightarrow>
     (retval_t \<times> ('h, 'z) tty_state_scheme) option" where
  "opost env t ch s =
     (if \<not> termios_should_proc_output (tty_table s t) then put_write env t ch s
      else if ch = 10 then
        if termios_should_map_nl_to_nlcr (tty_table s t) then
          if charq_remaining (write_q (tty_table s t)) \<ge> 2 then do {
            (_, s) \<leftarrow> put_write env t 13 s;
            let s = upd_tty t (\<lambda>x. x\<lparr>column := 0\<rparr>) s;
            put_write env t ch s
          } else Some (RET_FAIL, s)
        else put_write env t ch s
      else if ch = 9 then do {
        s \<leftarrow> tab_loop t s;
        put_write env t ch s
      }
      else do {
        s \<leftarrow> (if ch = 8 \<and> column (tty_table s t) > 0
               then set_column t (column (tty_table s t) - 1) s else Some s);
        let ch = (if termios_should_uppercase (tty_table s t) then TOUPPER ch else ch);
        ctrl \<leftarrow> ISCTRL ch;
        s \<leftarrow> (if \<not> ctrl then set_column t (column (tty_table s t) + 1) s else Some s);
        put_write env t ch s
      })"

text \<open>The test for a control character that is echoed as \<open>^X\<close>.\<close>

definition echoes_ctrl :: "tty \<Rightarrow> u8 \<Rightarrow> bool option" where
  "echoes_ctrl x ch = do {
     c \<leftarrow> ISCTRL ch;
     if c then do { sp \<leftarrow> ISSPACE ch; Some (\<not> sp \<and> termios_should_echo_ctrl_chars x) }
     else Some False
   }"

definition out_char ::
    "('h, ('h, 'z) tty_state_scheme) tty_env \<Rightarrow> nat \<Rightarrow> u8 \<Rightarrow> ('h, 'z) tty_state_scheme \<Rightarrow>
     ('h, 'z) tty_state_scheme option" where
  "out_char env t ch s = do {
     e \<leftarrow> echoes_ctrl (tty_table s t) ch;
     if e then
       (let x = tty_table s t
        in if termios_should_ignore_last_char x \<or>
              (\<not> termios_should_ignore_last_char x \<and> termios_is_eof_char x ch) then do {
             (_, s) \<leftarrow> put_write env t 94 s;
             (_, s) \<leftarrow> put_write env t (ch + 64) s;
             set_column t (column (tty_table s t) + 2) s
           } else Some s)
     else do {
       (_, s) \<leftarrow> opost env t ch s;
       Some s
     }
   }"

text \<open>Backspace, blank, backspace.\<close>

definition rub_out ::
    "('h, ('h, 'z) tty_state_scheme) tty_env \<Rightarrow> nat \<Rightarrow> ('h, 'z) tty_state_scheme \<Rightarrow>
     ('h, 'z) tty_state_scheme option" where
  "rub_out env t s = do {
     (_, s) \<leftarrow> put_write env t 8 s;
     (_, s) \<leftarrow> put_write env t 32 s;
     (_, s) \<leftarrow> put_write env t 8 s;
     Some s
   }"

section \<open>Erasing\<close>

text \<open>The character that \<open>erase_char\<close> takes from \<open>charq_unput_char\<close> is that function's \<open>retval_t\<close>.\<close>

definition retval_char :: "retval_t \<Rightarrow> u8" where
  "retval_char r = (case r of RET_OK \<Rightarrow> 1 | RET_FAIL \<Rightarrow> 0)"

definition erase_last ::
    "('h, ('h, 'z) tty_state_scheme) tty_env \<Rightarrow> nat \<Rightarrow> ('h, 'z) tty_state_scheme \<Rightarrow>
     ('h, 'z) tty_state_scheme option" where
  "erase_last env t s = do {
     (r, s) \<leftarrow> unput_cooked t s;
     let ch = retval_char r;
     if ch \<noteq> 0 \<and> termios_should_echo (tty_table s t) then do {
       s \<leftarrow> rub_out env t s;
       s \<leftarrow> (if ch = 9 then e_delete_tab env t s else Some s);
       e \<leftarrow> echoes_ctrl (tty_table s t) ch;
       if e then rub_out env t s else Some s
     } else Some s
   }"

text \<open>\<open>erase_char\<close> calls itself with the \<open>VERASE\<close> character from its two loops; the first argument says
  which part of the function is next.\<close>

datatype erasing = EraseChar u8 | EraseWord u8 bool | EraseLine u8

partial_function (option) erase_run ::
    "('h, ('h, 'z) tty_state_scheme) tty_env \<Rightarrow> nat \<Rightarrow> erasing \<Rightarrow> ('h, 'z) tty_state_scheme \<Rightarrow>
     ('h, 'z) tty_state_scheme option" where
  "erase_run env t what s = (case what of
       EraseChar c \<Rightarrow> do {
         s \<leftarrow> (if termios_should_erase_char (tty_table s t) c then erase_last env t s else Some s);
         s \<leftarrow> (if termios_should_erase_word (tty_table s t) c
                then erase_run env t (EraseWord c False) s else Some s);
         if termios_should_kill_proc (tty_table s t) c
         then erase_run env t (EraseLine c) s else Some s
       }
     | EraseWord c seen \<Rightarrow>
         if q_size (cooked_q (tty_table s t)) > 0 then do {
           ch \<leftarrow> LAST_CHAR (cooked_q (tty_table s t)) (chars s);
           if (ch = 32 \<or> ch = 9) \<and> seen then Some s
           else do {
             s \<leftarrow> erase_run env t (EraseChar (cc (tty_table s t) VERASE)) s;
             erase_run env t (EraseWord c (seen \<or> ch \<noteq> 32 \<and> ch \<noteq> 9)) s
           }
         } else Some s
     | EraseLine c \<Rightarrow>
         if q_size (cooked_q (tty_table s t)) > 0 then do {
           s \<leftarrow> erase_run env t (EraseChar (cc (tty_table s t) VERASE)) s;
           erase_run env t (EraseLine c) s
         }
         else if termios_should_echo_nl_on_kill (tty_table s t) \<and>
             \<not> termios_should_visual_erase (tty_table s t) then do {
           (_, s) \<leftarrow> put_write env t 10 s;
           Some s
         } else Some s)"

definition erase_char ::
    "('h, ('h, 'z) tty_state_scheme) tty_env \<Rightarrow> nat \<Rightarrow> u8 \<Rightarrow> ('h, 'z) tty_state_scheme \<Rightarrow>
     ('h, 'z) tty_state_scheme option" where
  "erase_char env t c s = erase_run env t (EraseChar c) s"

section \<open>Cooking\<close>

text \<open>What the body of the loop of \<open>tty_cook_input\<close> does after one of its parts: leave the loop, take the
  next character, or go on with this one.\<close>

datatype cook_next = Break | Continue | Proceed

definition cook_signal ::
    "('h, ('h, 'z) tty_state_scheme) tty_env \<Rightarrow> nat \<Rightarrow> u8 \<Rightarrow> ('h, 'z) tty_state_scheme \<Rightarrow>
     (cook_next \<times> ('h, 'z) tty_state_scheme) option" where
  "cook_signal env t ch s =
     (let x = tty_table s t
      in if c_lflag (termios_of x) AND ISIG \<noteq> 0 \<and> \<not> termios_should_ignore_last_char x then
           if termios_should_flush_queues x ch then do {
             s \<leftarrow> (if \<not> termios_noflush x then flush_input env t s else Some s);
             Some (Break, s)
           }
           else if termios_is_quit_char x ch then Some (Break, s)
           else if termios_is_suspend_char x ch then Some (Break, s)
           else Some (Proceed, s)
         else Some (Proceed, s))"

text \<open>The obligatory transformations; \<^const>\<open>None\<close> in the result for an ignored carriage return.\<close>

definition cook_map :: "tty \<Rightarrow> u8 \<Rightarrow> u8 option option" where
  "cook_map x ch = do {
     let ch = (if termios_should_strip_8bit_ascii x then TOASCII ch else ch);
     ch \<leftarrow> (if termios_should_lowercase x then do {
              up \<leftarrow> ISUPPER ch;
              Some (if up then TOLOWER ch else ch)
            } else Some ch);
     if \<not> termios_should_ignore_last_char x then
       if ch = 13 then
         if termios_should_ignore_cr x then Some None
         else if termios_should_map_cr_to_nl x then Some (Some 10)
         else Some (Some ch)
       else if ch = 10 \<and> termios_should_map_nl_to_cr x then Some (Some 13)
       else Some (Some ch)
     else Some (Some ch)
   }"

text \<open>Reprinting the line: the characters of the blocks of the cooked queue from the read index on.\<close>

partial_function (option) reprint_block ::
    "('h, ('h, 'z) tty_state_scheme) tty_env \<Rightarrow> nat \<Rightarrow> u32 \<Rightarrow> nat \<Rightarrow> ('h, 'z) tty_state_scheme \<Rightarrow>
     ('h, 'z) tty_state_scheme option" where
  "reprint_block env t cb n s =
     (if n < unat (next_write_index (cblocks (chars s) cb)) then do {
        s \<leftarrow> (if n \<ge> unat (next_read_index (cblocks (chars s) cb)) then do {
               require (n < length (cb_data (cblocks (chars s) cb)));
               out_char env t (cb_data (cblocks (chars s) cb) ! n) s
             } else Some s);
        reprint_block env t cb (n + 1) s
      } else Some s)"

partial_function (option) reprint_blocks ::
    "('h, ('h, 'z) tty_state_scheme) tty_env \<Rightarrow> nat \<Rightarrow> u32 option \<Rightarrow> ('h, 'z) tty_state_scheme \<Rightarrow>
     ('h, 'z) tty_state_scheme option" where
  "reprint_blocks env t cb s = (case cb of
       None \<Rightarrow> Some s
     | Some b \<Rightarrow> do {
         s \<leftarrow> reprint_block env t b 0 s;
         reprint_blocks env t (cb_next (cblocks (chars s) b)) s
       })"

definition cook_edit ::
    "('h, ('h, 'z) tty_state_scheme) tty_env \<Rightarrow> nat \<Rightarrow> u8 \<Rightarrow> ('h, 'z) tty_state_scheme \<Rightarrow>
     (cook_next \<times> ('h, 'z) tty_state_scheme) option" where
  "cook_edit env t ch s =
     (let x = tty_table s t
      in if termios_is_canonical_mode x \<and> \<not> termios_should_ignore_last_char x then
           if termios_should_erase_char x ch \<or> termios_should_erase_word x ch \<or> termios_should_kill_proc x ch
           then do {
             s \<leftarrow> erase_char env t ch s;
             Some (Continue, s)
           }
           else if termios_should_reprint_line x ch then do {
             s \<leftarrow> out_char env t ch s;
             (_, s) \<leftarrow> put_write env t 10 s;
             s \<leftarrow> reprint_blocks env t (q_head (cooked_q (tty_table s t))) s;
             Some (Continue, s)
           }
           else if termios_has_vlnext x ch \<and> termios_extended_proc_enabled x then do {
             let s = upd_tty t (\<lambda>x. x\<lparr>tty_flags := tty_flags x OR TTY_HAS_LNEXT\<rparr>) s;
             s \<leftarrow> (if termios_should_echo_ctrl_chars (tty_table s t) then do {
                    (_, s) \<leftarrow> put_write env t 94 s;
                    (_, s) \<leftarrow> put_write env t 8 s;
                    Some s
                  } else Some s);
             Some (Break, s)
           }
           else if termios_output_ctrl_enabled x then
             if termios_should_resume_output x ch then do { s \<leftarrow> e_start env t s; Some (Continue, s) }
             else if termios_should_pause_output x ch then do { s \<leftarrow> e_stop env t s; Some (Continue, s) }
             else if termios_any_char_resumes_output x then do { s \<leftarrow> e_start env t s; Some (Proceed, s) }
             else Some (Proceed, s)
           else Some (Proceed, s)
         else Some (Proceed, s))"

definition clear_lnext :: "nat \<Rightarrow> ('h, 'z) tty_state_scheme \<Rightarrow> ('h, 'z) tty_state_scheme" where
  "clear_lnext t = upd_tty t (\<lambda>x. x\<lparr>tty_flags := tty_flags x AND NOT TTY_HAS_LNEXT\<rparr>)"

definition cook_store ::
    "('h, ('h, 'z) tty_state_scheme) tty_env \<Rightarrow> nat \<Rightarrow> u8 \<Rightarrow> ('h, 'z) tty_state_scheme \<Rightarrow>
     ('h, 'z) tty_state_scheme option" where
  "cook_store env t ch s = do {
     canon_ctrl \<leftarrow> (if termios_is_canonical_mode (tty_table s t) then echoes_ctrl (tty_table s t) ch else Some False);
     if canon_ctrl then do {
       s \<leftarrow> out_char env t ch s;
       (_, s) \<leftarrow> put_cooked env t ch s;
       Some (clear_lnext t s)
     } else do {
       let s = (if termios_is_canonical_mode (tty_table s t) \<and> ch = 10
                then upd_tty t (\<lambda>x. x\<lparr>has_canon_ln := True\<rparr>) s else s);
       s \<leftarrow> (if termios_should_echo (tty_table s t) \<or>
                 termios_should_echo_newline (tty_table s t) \<and> ch = 10
              then out_char env t ch s else Some s);
       (_, s) \<leftarrow> put_cooked env t ch s;
       Some (clear_lnext t s)
     }
   }"

text \<open>One iteration; the result is whether the loop goes on.\<close>

definition cook_char ::
    "('h, ('h, 'z) tty_state_scheme) tty_env \<Rightarrow> nat \<Rightarrow> u8 \<Rightarrow> ('h, 'z) tty_state_scheme \<Rightarrow>
     (bool \<times> ('h, 'z) tty_state_scheme) option" where
  "cook_char env t ch s = do {
     (next, s) \<leftarrow> cook_signal env t ch s;
     (case next of
        Break \<Rightarrow> Some (False, s)
      | Continue \<Rightarrow> Some (True, s)
      | Proceed \<Rightarrow> do {
          c \<leftarrow> cook_map (tty_table s t) ch;
          (case c of
             None \<Rightarrow> Some (True, s)
           | Some ch \<Rightarrow> do {
               (next, s) \<leftarrow> cook_edit env t ch s;
               (case next of
                  Break \<Rightarrow> Some (False, s)
                | Continue \<Rightarrow> Some (True, s)
                | Proceed \<Rightarrow> do { s \<leftarrow> cook_store env t ch s; Some (True, s) })
             })
        })
   }"

partial_function (option) cook_loop ::
    "('h, ('h, 'z) tty_state_scheme) tty_env \<Rightarrow> nat \<Rightarrow> ('h, 'z) tty_state_scheme \<Rightarrow>
     ('h, 'z) tty_state_scheme option" where
  "cook_loop env t s =
     (if q_size (read_q (tty_table s t)) > 0 then do {
        (ch, s) \<leftarrow> get_read env t s;
        (more, s) \<leftarrow> cook_char env t ch s;
        if more then cook_loop env t s else Some s
      } else Some s)"

text \<open>\<open>wakeup\<close> on the process state inside the state.\<close>

definition wake :: "u32 \<Rightarrow> ('h, 'z) tty_state_scheme \<Rightarrow> ('h, 'z) tty_state_scheme option" where
  "wake addr s = do { k \<leftarrow> wakeup addr (ks s); Some (s\<lparr>ks := k\<rparr>) }"

definition wait_vtime_wrapper :: "u32 \<Rightarrow> ('h, 'z) tty_state_scheme \<Rightarrow> ('h, 'z) tty_state_scheme option" where
  "wait_vtime_wrapper arg s = wake arg s"

definition tty_cook_input ::
    "('h, ('h, 'z) tty_state_scheme) tty_env \<Rightarrow> nat \<Rightarrow> ('h, 'z) tty_state_scheme \<Rightarrow>
     ('h, 'z) tty_state_scheme option" where
  "tty_cook_input env t s = do {
     s \<leftarrow> cook_loop env t s;
     s \<leftarrow> e_output env t s;
     wake (e_tty_read env) s
   }"

section \<open>The table of terminals\<close>

definition VCONSOLE_MAJOR :: u16 where "VCONSOLE_MAJOR = 4"
definition SYSCON_MAJOR :: u16 where "SYSCON_MAJOR = 5"

definition DEVICE_MAJOR :: "u16 \<Rightarrow> u16" where "DEVICE_MAJOR dev = drop_bit 8 dev"
definition DEVICE_MINOR :: "u16 \<Rightarrow> u16" where "DEVICE_MINOR dev = dev AND 0xFF"
definition DEVICE_MKDEV :: "u16 \<Rightarrow> u16 \<Rightarrow> u16" where
  "DEVICE_MKDEV major minor = push_bit 8 major OR minor"

text \<open>The terminal at an address: the one of the table, for a pointer into the table.\<close>

definition tty_at :: "('h, 's) tty_env \<Rightarrow> u32 \<Rightarrow> nat option" where
  "tty_at env a = List.find (\<lambda>t. e_tty_addr env t = a) [0..<NUM_TTYS]"

function tty_get_loop :: "u16 \<Rightarrow> int \<Rightarrow> ('h, 'z) tty_state_scheme \<Rightarrow> nat option option" where
  "tty_get_loop dev num s =
     (if num < int NUM_TTYS then do {
        require (0 \<le> num);
        if devnum (tty_table s (nat num)) = dev then Some (Some (nat num))
        else tty_get_loop dev (num + 1) s
      } else Some None)"
  by pat_completeness auto
termination by (relation "measure (\<lambda>(_, num, _). nat (int NUM_TTYS - num))") auto

declare tty_get_loop.simps [simp del]

text \<open>The outer option is definedness, the inner one the pointer that is returned.\<close>

definition tty_get ::
    "('h, ('h, 'z) tty_state_scheme) tty_env \<Rightarrow> u16 \<Rightarrow> ('h, 'z) tty_state_scheme \<Rightarrow> nat option option" where
  "tty_get env dev s =
     (if dev = 0 then Some None
      else do {
        let dev = (if dev = DEVICE_MKDEV VCONSOLE_MAJOR 0
                   then DEVICE_MKDEV VCONSOLE_MAJOR (current_console s) else dev);
        if dev = DEVICE_MKDEV SYSCON_MAJOR 0 then
          (let ctty = p_tty (procs (ks s) (proc_current (ks s)))
           in if ctty = 0 then Some None
              else do {
                c \<leftarrow> tty_at env ctty;
                tty_get_loop (devnum (tty_table s c)) (e_num0 env) s
              })
        else tty_get_loop dev (e_num0 env) s
      })"

text \<open>The loop over the table, by the number of entries left.\<close>

primrec tty_register_loop :: "nat \<Rightarrow> u16 \<Rightarrow> ('h, 'z) tty_state_scheme \<Rightarrow> retval_t \<times> ('h, 'z) tty_state_scheme" where
  "tty_register_loop 0 dev s = (RET_FAIL, s)"
| "tty_register_loop (Suc k) dev s =
     (let num = NUM_TTYS - Suc k
      in if devnum (tty_table s num) \<noteq> 0 then (RET_FAIL, s)
         else if devnum (tty_table s num) = 0 then
           (RET_OK, upd_tty num (\<lambda>x. x\<lparr>devnum := dev, open_count := 0\<rparr>) s)
         else tty_register_loop k dev s)"

definition tty_register :: "u16 \<Rightarrow> ('h, 'z) tty_state_scheme \<Rightarrow> retval_t \<times> ('h, 'z) tty_state_scheme" where
  "tty_register dev s = tty_register_loop NUM_TTYS dev s"

definition zero_tty :: tty where
  "zero_tty = \<lparr>tty_flags = 0, open_count = 0, devnum = 0, tty_data = 0, tty_pid = 0, tty_pgid = 0,
     kbd_mode = KBD_MODE_RAW, has_canon_ln = False, read_q = zero_charq, cooked_q = zero_charq,
     write_q = zero_charq,
     termios_of = \<lparr>c_iflag = 0, c_oflag = 0, c_cflag = 0, c_lflag = 0, c_line = 0, c_cc = (\<lambda>_. 0)\<rparr>,
     win = \<lparr>ws_row = 0, ws_col = 0, ws_xpixel = 0, ws_ypixel = 0\<rparr>, column = 0,
     tab_stop = replicate MAX_TAB_COLS False\<rparr>"

definition tty_init :: "('h, 'z) tty_state_scheme \<Rightarrow> ('h, 'z) tty_state_scheme" where
  "tty_init s = s\<lparr>tty_table := (\<lambda>_. zero_tty)\<rparr>"

section \<open>Reading\<close>

definition EINTR :: int where "EINTR = 4"
definition EIO :: int where "EIO = 5"
definition ENXIO :: int where "ENXIO = 6"
definition EAGAIN :: int where "EAGAIN = 11"
definition ERESTART :: int where "ERESTART = 85"
definition O_NONBLOCK :: u16 where "O_NONBLOCK = 0x800"
definition SIGTTIN :: nat where "SIGTTIN = 21"

text \<open>\<open>sleep\<close> in the whole state: what happens while the process does not run is \<open>e_resume\<close>.\<close>

definition tty_sleep ::
    "('h, ('h, 'z) tty_state_scheme) tty_env \<Rightarrow> u32 \<Rightarrow> ('h, 'z) tty_state_scheme \<Rightarrow>
     (nat \<times> ('h, 'z) tty_state_scheme) option" where
  "tty_sleep env addr s = do {
     (r, k) \<leftarrow> sleep (e_switch env) addr PROC_INTERRUPTIBLE (ks s);
     s \<leftarrow> e_resume env (s\<lparr>ks := k\<rparr>);
     Some (r, s)
   }"

text \<open>Storing a character in the buffer of the caller.\<close>

definition store_ch :: "u8 list \<Rightarrow> nat \<Rightarrow> u8 \<Rightarrow> (u8 list \<times> nat) option" where
  "store_ch buf n ch = do {
     require (n < length buf);
     _ \<leftarrow> to_int (int n + 1);
     Some (buf[n := ch], n + 1)
   }"

text \<open>The copying loop, from the queue that \<open>get\<close> reads.\<close>

function copy_loop ::
    "('s \<Rightarrow> (u8 \<times> 's) option) \<Rightarrow> nat \<Rightarrow> nat \<Rightarrow> u8 list \<Rightarrow> 's \<Rightarrow> (nat \<times> u8 list \<times> 's) option" where
  "copy_loop get count n buf s =
     (if n < count then do {
        (ch, s) \<leftarrow> get s;
        if ch \<noteq> 0 then do {
          (buf, _) \<leftarrow> store_ch buf n ch;
          copy_loop get count (n + 1) buf s
        } else Some (n, buf, s)
      } else Some (n, buf, s))"
  by pat_completeness auto
termination by (relation "measure (\<lambda>(_, count, n, _, _). count - n)") auto

declare copy_loop.simps [simp del]

text \<open>Waiting for input or the timeout. \<open>Inl\<close> is an early return; otherwise the last request follows.\<close>

type_synonym request = "(u32 \<times> u32) option"

partial_function (option) vtime_wait ::
    "('h, ('h, 'z) tty_state_scheme) tty_env \<Rightarrow> nat \<Rightarrow> u16 \<Rightarrow> u32 \<Rightarrow> u32 \<Rightarrow> request \<Rightarrow>
     ('h, 'z) tty_state_scheme \<Rightarrow> ((int + request) \<times> ('h, 'z) tty_state_scheme) option" where
  "vtime_wait env t flags timeout start ttr s =
     (if kticks s - start < timeout \<and> q_size (cooked_q (tty_table s t)) = 0 then do {
        let ttr = Some (e_vtime env, e_cooked_addr env t);
        s \<leftarrow> timer_task_add (e_vtime env) (e_cooked_addr env t) timeout s;
        if flags AND O_NONBLOCK \<noteq> 0 then Some (Inl (- EAGAIN), s)
        else do {
          (r, s) \<leftarrow> tty_sleep env (e_tty_read env) s;
          if r \<noteq> 0 then Some (Inl (- EINTR), s)
          else vtime_wait env t flags timeout start ttr s
        }
      } else Some (Inr ttr, s))"

text \<open>What an iteration of the loop of \<open>tty_read\<close> does: return a result, start the next iteration, or go
  on to the sleep at its end. The variables of the loop are \<open>n\<close>, \<open>min_read\<close>, the timer request and the
  buffer.\<close>

record read_vars =
  rn :: nat
  min_read :: u32
  ttr :: request
  rbuf :: "u8 list"

datatype read_next = Return int | Again | Wait

definition read_raw ::
    "('h, ('h, 'z) tty_state_scheme) tty_env \<Rightarrow> nat \<Rightarrow> u32 \<Rightarrow> read_vars \<Rightarrow> ('h, 'z) tty_state_scheme \<Rightarrow>
     (read_next \<times> read_vars \<times> ('h, 'z) tty_state_scheme) option" where
  "read_raw env t count v s =
     (if kbd_mode (tty_table s t) = KBD_MODE_RAW \<or> kbd_mode (tty_table s t) = KBD_MODE_MEDRAW then do {
        (n, buf, s) \<leftarrow> copy_loop (get_read env t) (unat count) 0 (rbuf v) s;
        let v = v\<lparr>rn := n, rbuf := buf\<rparr>;
        Some (if n \<noteq> 0 then Return (int n) else Wait, v, s)
      } else Some (Wait, v, s))"

definition read_canonical ::
    "('h, ('h, 'z) tty_state_scheme) tty_env \<Rightarrow> nat \<Rightarrow> u32 \<Rightarrow> read_vars \<Rightarrow> ('h, 'z) tty_state_scheme \<Rightarrow>
     (read_next \<times> read_vars \<times> ('h, 'z) tty_state_scheme) option" where
  "read_canonical env t count v s = do {
     ch \<leftarrow> LAST_CHAR (cooked_q (tty_table s t)) (chars s);
     let x = tty_table s t;
     if ch \<noteq> 0 \<and> (ch = 10 \<or> termios_is_eol_char x ch \<or> termios_is_eof_char x ch \<or>
         (termios_extended_proc_enabled x \<and> termios_is_eol2_char x ch)) then do {
       let s = upd_tty t (\<lambda>x. x\<lparr>has_canon_ln := False\<rparr>) s;
       s \<leftarrow> (if termios_is_eof_char (tty_table s t) ch then do { (_, s) \<leftarrow> unput_cooked t s; Some s } else Some s);
       (n, buf, s) \<leftarrow> copy_loop (get_cooked env t) (unat count) (rn v) (rbuf v) s;
       Some (Return (int n), v\<lparr>rn := n, rbuf := buf\<rparr>, s)
     } else Some (Wait, v, s)
   }"

definition VTIME_TICKS :: "tty \<Rightarrow> u32" where
  "VTIME_TICKS x = ucast (cc x VTIME) * (HZ div 10)"

text \<open>Without canonical processing: with a timeout and no minimum, with both, and with neither.\<close>

definition read_timeout ::
    "('h, ('h, 'z) tty_state_scheme) tty_env \<Rightarrow> nat \<Rightarrow> u16 \<Rightarrow> u32 \<Rightarrow> read_vars \<Rightarrow> ('h, 'z) tty_state_scheme \<Rightarrow>
     (read_next \<times> read_vars \<times> ('h, 'z) tty_state_scheme) option" where
  "read_timeout env t flags count v s = do {
     (w, s) \<leftarrow> vtime_wait env t flags (VTIME_TICKS (tty_table s t)) (kticks s) (ttr v) s;
     (case w of
        Inl e \<Rightarrow> Some (Return e, v, s)
      | Inr r \<Rightarrow> do {
          (n, buf, s) \<leftarrow> copy_loop (get_cooked env t) (unat count) (rn v) (rbuf v) s;
          Some (Return (int n), v\<lparr>rn := n, ttr := r, rbuf := buf\<rparr>, s)
        })
   }"

definition c_min :: "u32 \<Rightarrow> u32 \<Rightarrow> u32" where "c_min a b = (if a < b then a else b)"

definition read_batch ::
    "('h, ('h, 'z) tty_state_scheme) tty_env \<Rightarrow> nat \<Rightarrow> u16 \<Rightarrow> u32 \<Rightarrow> read_vars \<Rightarrow> ('h, 'z) tty_state_scheme \<Rightarrow>
     (read_next \<times> read_vars \<times> ('h, 'z) tty_state_scheme) option" where
  "read_batch env t flags count v s =
     (if q_size (cooked_q (tty_table s t)) > 0 then do {
        (v, s) \<leftarrow> (if rn v < unat (c_min (ucast (cc (tty_table s t) VMIN)) count) then do {
              (ch, s) \<leftarrow> get_cooked env t s;
              (buf, n) \<leftarrow> store_ch (rbuf v) (rn v) ch;
              Some (v\<lparr>rn := n, rbuf := buf\<rparr>, s)
            } else Some (v, s));
        if rn v \<ge> unat (c_min (ucast (cc (tty_table s t) VMIN)) count) then do {
          (fn, arg) \<leftarrow> ttr v;
          s \<leftarrow> timer_task_remove fn arg s;
          Some (Return (int (rn v)), v, s)
        } else do {
          let v = v\<lparr>ttr := Some (e_vtime env, e_cooked_addr env t)\<rparr>;
          s \<leftarrow> timer_task_add (e_vtime env) (e_cooked_addr env t) (VTIME_TICKS (tty_table s t)) s;
          if flags AND O_NONBLOCK \<noteq> 0 then Some (Return (- EAGAIN), v, s)
          else do {
            (r, s) \<leftarrow> tty_sleep env (e_tty_read env) s;
            if r \<noteq> 0 then Some (Return (- EINTR), v, s)
            else if q_size (cooked_q (tty_table s t)) = 0 then Some (Return (int (rn v)), v, s)
            else Some (Again, v, s)
          }
        }
      } else Some (Wait, v, s))"

definition read_blocking ::
    "('h, ('h, 'z) tty_state_scheme) tty_env \<Rightarrow> nat \<Rightarrow> u32 \<Rightarrow> read_vars \<Rightarrow> ('h, 'z) tty_state_scheme \<Rightarrow>
     (read_next \<times> read_vars \<times> ('h, 'z) tty_state_scheme) option" where
  "read_blocking env t count v s = do {
     (v, s) \<leftarrow>
       (if q_size (cooked_q (tty_table s t)) > 0 \<and>
           (min_read v < ucast (cc (tty_table s t) VMIN) \<or> \<not> termios_has_min_read_batch_size (tty_table s t)) then do {
          (v, s) \<leftarrow> (if rn v < unat count then do {
              (ch, s) \<leftarrow> get_cooked env t s;
              (buf, n) \<leftarrow> store_ch (rbuf v) (rn v) ch;
              Some (v\<lparr>rn := n, rbuf := buf\<rparr>, upd_tty t (\<lambda>x. x\<lparr>has_canon_ln := False\<rparr>) s)
            } else Some (v, s));
          Some (v\<lparr>min_read := min_read v + 1\<rparr>, s)
        } else Some (v, s));
     Some (if min_read v \<ge> ucast (cc (tty_table s t) VMIN) then Return (int (rn v)) else Wait, v, s)
   }"

definition read_body ::
    "('h, ('h, 'z) tty_state_scheme) tty_env \<Rightarrow> nat \<Rightarrow> u16 \<Rightarrow> u32 \<Rightarrow> read_vars \<Rightarrow> ('h, 'z) tty_state_scheme \<Rightarrow>
     (read_next \<times> read_vars \<times> ('h, 'z) tty_state_scheme) option" where
  "read_body env t flags count v s = do {
     (next, v, s) \<leftarrow> read_raw env t count v s;
     if next \<noteq> Wait then Some (next, v, s)
     else if termios_is_canonical_mode (tty_table s t) then read_canonical env t count v s
     else if termios_has_noncanon_read_timeout (tty_table s t) then
       if \<not> termios_has_min_read_batch_size (tty_table s t) then read_timeout env t flags count (v\<lparr>ttr := None\<rparr>) s
       else read_batch env t flags count (v\<lparr>ttr := None\<rparr>) s
     else read_blocking env t count v s
   }"

partial_function (option) tty_read_loop ::
    "('h, ('h, 'z) tty_state_scheme) tty_env \<Rightarrow> nat \<Rightarrow> u16 \<Rightarrow> u32 \<Rightarrow> read_vars \<Rightarrow> ('h, 'z) tty_state_scheme \<Rightarrow>
     (int \<times> u8 list \<times> ('h, 'z) tty_state_scheme) option" where
  "tty_read_loop env t flags count v s =
     (if count > 0 then do {
        (next, v, s) \<leftarrow> read_body env t flags count v s;
        (case next of
           Return r \<Rightarrow> Some (r, rbuf v, s)
         | Again \<Rightarrow> tty_read_loop env t flags count v s
         | Wait \<Rightarrow>
             if flags AND O_NONBLOCK \<noteq> 0 then Some (- EAGAIN, rbuf v, s)
             else do {
               (r, s) \<leftarrow> tty_sleep env (e_tty_read env) s;
               if r \<noteq> 0 then Some (- EINTR, rbuf v, s)
               else tty_read_loop env t flags count v s
             })
      } else Some (int (rn v), rbuf v, s))"

text \<open>A process of the background: its controlling terminal is this one, its group is not the
  foreground group of the terminal.\<close>

definition in_background ::
    "('h, ('h, 'z) tty_state_scheme) tty_env \<Rightarrow> nat \<Rightarrow> ('h, 'z) tty_state_scheme \<Rightarrow> bool" where
  "in_background env t s =
     (let p = procs (ks s) (proc_current (ks s))
      in p_tty p = e_tty_addr env t \<and> p_pgid p \<noteq> tty_pgid (tty_table s t))"

definition ttin_ignored :: "('h, 'z) tty_state_scheme \<Rightarrow> bool" where
  "ttin_ignored s =
     (let p = procs (ks s) (proc_current (ks s))
      in sa_handler (p_sigactions p (SIGTTIN - 1)) = SIGHANDLER_IGN \<or>
         p_blocked p AND push_bit (SIGTTIN - 1) 1 \<noteq> 0)"

definition tty_orphaned ::
    "('h, ('h, 'z) tty_state_scheme) tty_env \<Rightarrow> ('h, 'z) tty_state_scheme \<Rightarrow>
     (bool \<times> ('h, 'z) tty_state_scheme) option" where
  "tty_orphaned env s = do {
     (b, k) \<leftarrow> proc_is_orphaned_pgrp (e_switch env) (p_pgid (procs (ks s) (proc_current (ks s)))) (ks s);
     Some (b, s\<lparr>ks := k\<rparr>)
   }"

text \<open>\<open>dev\<close> is the device of the inode, \<open>flags\<close> those of the file descriptor, \<open>buf\<close> the buffer.\<close>

definition tty_read ::
    "('h, ('h, 'z) tty_state_scheme) tty_env \<Rightarrow> u16 \<Rightarrow> u16 \<Rightarrow> u8 list \<Rightarrow> u32 \<Rightarrow> ('h, 'z) tty_state_scheme \<Rightarrow>
     (int \<times> u8 list \<times> ('h, 'z) tty_state_scheme) option" where
  "tty_read env dev flags buf count s = do {
     t \<leftarrow> tty_get env dev s;
     (case t of
        None \<Rightarrow> Some (- ENXIO, buf, s)
      | Some t \<Rightarrow>
          if in_background env t s then
            if ttin_ignored s then Some (- EIO, buf, s)
            else do {
              (b, s) \<leftarrow> tty_orphaned env s;
              Some (if b then - EIO else - ERESTART, buf, s)
            }
          else tty_read_loop env t flags count \<lparr>rn = 0, min_read = 0, ttr = None, rbuf = buf\<rparr> s)
   }"

section \<open>Writing\<close>

function write_loop ::
    "('h, ('h, 'z) tty_state_scheme) tty_env \<Rightarrow> nat \<Rightarrow> u8 list \<Rightarrow> nat \<Rightarrow> nat \<Rightarrow> ('h, 'z) tty_state_scheme \<Rightarrow>
     (nat \<times> ('h, 'z) tty_state_scheme) option" where
  "write_loop env t buf count n s =
     (if n < count then do {
        require (n < length buf);
        (r, s) \<leftarrow> opost env t (buf ! n) s;
        if r = RET_FAIL then Some (n, s)
        else do {
          _ \<leftarrow> to_int (int n + 1);
          write_loop env t buf count (n + 1) s
        }
      } else Some (n, s))"
  by pat_completeness auto
termination by (relation "measure (\<lambda>(_, _, _, count, n, _). count - n)") auto

declare write_loop.simps [simp del]

partial_function (option) tty_write_loop ::
    "('h, ('h, 'z) tty_state_scheme) tty_env \<Rightarrow> nat \<Rightarrow> u16 \<Rightarrow> u8 list \<Rightarrow> u32 \<Rightarrow> nat \<Rightarrow> ('h, 'z) tty_state_scheme \<Rightarrow>
     (int \<times> ('h, 'z) tty_state_scheme) option" where
  "tty_write_loop env t flags buf count n s =
     (let p = procs (ks s) (proc_current (ks s))
      in if p_pending p AND NOT (p_blocked p) \<noteq> 0 then Some (- ERESTART, s)
         else do {
           (n, s) \<leftarrow> write_loop env t buf (unat count) n s;
           s \<leftarrow> e_output env t s;
           if n = unat count then Some (int n, s)
           else if flags AND O_NONBLOCK \<noteq> 0 then Some (- EAGAIN, s)
           else do {
             (r, s) \<leftarrow> (if q_size (write_q (tty_table s t)) > 0 then tty_sleep env (e_tty_write env) s
                        else Some (0, s));
             if r \<noteq> 0 then Some (- EINTR, s)
             else do {
               s \<leftarrow> (if needs_resched (ks s) then do {
                       k \<leftarrow> sched_run (e_switch env) (ks s);
                       e_resume env (s\<lparr>ks := k\<rparr>)
                     } else Some s);
               tty_write_loop env t flags buf count n s
             }
           }
         })"

definition tty_write ::
    "('h, ('h, 'z) tty_state_scheme) tty_env \<Rightarrow> u16 \<Rightarrow> u16 \<Rightarrow> u8 list \<Rightarrow> u32 \<Rightarrow> ('h, 'z) tty_state_scheme \<Rightarrow>
     (int \<times> ('h, 'z) tty_state_scheme) option" where
  "tty_write env dev flags buf count s = do {
     t \<leftarrow> tty_get env dev s;
     (case t of
        None \<Rightarrow> Some (- ENXIO, s)
      | Some t \<Rightarrow>
          if in_background env t s \<and> termios_bg_proc_can_write_to_tty (tty_table s t) \<and> ttin_ignored s then do {
            (b, s) \<leftarrow> tty_orphaned env s;
            Some (if b then - EIO else - ERESTART, s)
          }
          else tty_write_loop env t flags buf count 0 s)
   }"

end
