(* ===== verification/Line.thy ===== *)
theory Line
  imports Tty
begin

text \<open>
  The line discipline of \<open>Tty\<close>: what erasing a character, a word and a line does to the cooked queue and
  to the write queue, that cooking ends, and the table of terminals.
\<close>

section \<open>Erasing\<close>

lemma LAST_CHAR_rep:
  assumes rep: "charq_rep q st xs cs" and ne: "cs \<noteq> []"
  shows "LAST_CHAR q st = Some (last cs)"
proof -
  obtain ys b where xs: "xs = ys @ [b]" using rep ne by (cases xs rule: rev_cases) (auto simp: charq_rep_def)
  have ok: "cblock_ok (cblocks st b)" "rd (cblocks st b) < wr (cblocks st b)" and tl: "q_tail q = Some b"
    using rep xs by (auto simp: charq_rep_def cq_pre_def)
  then have len: "wr (cblocks st b) \<le> length (cb_data (cblocks st b))" "0 < wr (cblocks st b)"
    by (auto simp: cblock_ok_def)
  have "cs = all_chars st ys @ cb_chars (cblocks st b)" using rep xs by (simp add: charq_rep_def)
  moreover have "cb_chars (cblocks st b) \<noteq> []" using ok length_cb_chars [OF ok(1)] by auto
  ultimately have "last cs = last (cb_chars (cblocks st b))" by simp
  also have "\<dots> = last (take (wr (cblocks st b)) (cb_data (cblocks st b)))"
    unfolding cb_chars_def using ok(2) len by (intro last_drop) simp
  also have "\<dots> = cb_data (cblocks st b) ! (wr (cblocks st b) - 1)"
    using len by (subst last_conv_nth) (auto simp: min_def)
  finally show ?thesis using tl len by (simp add: LAST_CHAR_def Let_def)
qed

text \<open>Only the cooked queue of a terminal and the store of blocks change.\<close>

definition with_cooked :: "nat \<Rightarrow> charq \<Rightarrow> 'h cstore \<Rightarrow> ('h, 'z) tty_state_scheme \<Rightarrow> ('h, 'z) tty_state_scheme" where
  "with_cooked t q st s = (upd_tty t (\<lambda>x. x\<lparr>cooked_q := q\<rparr>) s)\<lparr>chars := st\<rparr>"

definition with_write :: "nat \<Rightarrow> charq \<Rightarrow> 'h cstore \<Rightarrow> ('h, 'z) tty_state_scheme \<Rightarrow> ('h, 'z) tty_state_scheme" where
  "with_write t q st s = (upd_tty t (\<lambda>x. x\<lparr>write_q := q\<rparr>) s)\<lparr>chars := st\<rparr>"

lemma with_cooked_simps [simp]:
  "tty_table (with_cooked t q st s) t = (tty_table s t)\<lparr>cooked_q := q\<rparr>"
  "chars (with_cooked t q st s) = st"
  "with_cooked t q' st' (with_cooked t q st s) = with_cooked t q' st' s"
  "with_cooked t (cooked_q (tty_table s t)) (chars s) s = s"
  by (simp_all add: with_cooked_def upd_tty_def)

lemma with_write_simps [simp]:
  "tty_table (with_write t q st s) t = (tty_table s t)\<lparr>write_q := q\<rparr>"
  "chars (with_write t q st s) = st"
  "with_write t q' st' (with_write t q st s) = with_write t q' st' s"
  by (simp_all add: with_write_def upd_tty_def)

lemma cooked_keeps_termios [simp]:
  "termios_should_erase_char (x\<lparr>cooked_q := q\<rparr>) = termios_should_erase_char x"
  "termios_should_erase_word (x\<lparr>cooked_q := q\<rparr>) = termios_should_erase_word x"
  "termios_should_kill_proc (x\<lparr>cooked_q := q\<rparr>) = termios_should_kill_proc x"
  "termios_should_echo (x\<lparr>cooked_q := q\<rparr>) = termios_should_echo x"
  "termios_should_visual_erase (x\<lparr>cooked_q := q\<rparr>) = termios_should_visual_erase x"
  "termios_should_echo_nl_on_kill (x\<lparr>cooked_q := q\<rparr>) = termios_should_echo_nl_on_kill x"
  "termios_should_echo_ctrl_chars (x\<lparr>cooked_q := q\<rparr>) = termios_should_echo_ctrl_chars x"
  by (simp_all add: fun_eq_iff termios_should_erase_char_def termios_should_erase_word_def
      termios_should_kill_proc_def termios_should_echo_def termios_should_visual_erase_def
      termios_should_echo_nl_on_kill_def termios_should_echo_ctrl_chars_def)

lemma write_keeps_termios [simp]:
  "termios_should_erase_char (x\<lparr>write_q := q\<rparr>) = termios_should_erase_char x"
  "termios_should_erase_word (x\<lparr>write_q := q\<rparr>) = termios_should_erase_word x"
  "termios_should_kill_proc (x\<lparr>write_q := q\<rparr>) = termios_should_kill_proc x"
  "termios_should_echo_ctrl_chars (x\<lparr>write_q := q\<rparr>) = termios_should_echo_ctrl_chars x"
  by (simp_all add: fun_eq_iff termios_should_erase_char_def termios_should_erase_word_def
      termios_should_kill_proc_def termios_should_echo_ctrl_chars_def)

text \<open>The three erasing keys are different characters; nothing is echoed while erasing.\<close>

definition erase_keys :: "tty \<Rightarrow> bool" where
  "erase_keys x \<longleftrightarrow> cc x VERASE \<noteq> cc x VWERASE \<and> cc x VERASE \<noteq> cc x VKILL \<and> cc x VWERASE \<noteq> cc x VKILL"

definition silent :: "tty \<Rightarrow> bool" where
  "silent x \<longleftrightarrow> \<not> termios_should_echo x \<and> (termios_should_visual_erase x \<or> \<not> termios_should_echo_nl_on_kill x)"

lemma cooked_keeps_keys [simp]:
  "erase_keys (x\<lparr>cooked_q := q\<rparr>) = erase_keys x" "silent (x\<lparr>cooked_q := q\<rparr>) = silent x"
  by (simp_all add: erase_keys_def silent_def)

lemma unput_cooked_rep:
  assumes "charq_rep (cooked_q (tty_table s t)) (chars s) xs cs"
  shows "\<exists>q st xs'. unput_cooked t s = Some (RET_OK, with_cooked t q st s) \<and> charq_rep q st xs' (butlast cs) \<and>
    heap st = heap (chars s) \<and> set xs' \<subseteq> set xs \<and> others_same (- set xs) (chars s) st"
proof -
  obtain q st xs' where "charq_unput_char (cooked_q (tty_table s t)) (chars s) = Some (RET_OK, q, st)"
    "charq_rep q st xs' (butlast cs)" "heap st = heap (chars s)" "set xs' \<subseteq> set xs" "others_same (- set xs) (chars s) st"
    using charq_unput_rep [OF assms] by blast
  then show ?thesis
    by (intro exI [of _ q] exI [of _ st] exI [of _ xs']) (simp add: unput_cooked_def with_cooked_def)
qed

text \<open>The outcome of erasing: the cooked queue of \<open>t\<close> holds \<open>ds\<close>, in blocks among \<open>xs\<close>.\<close>

definition cooked_is ::
    "nat \<Rightarrow> u32 list \<Rightarrow> ('h, 'z) tty_state_scheme \<Rightarrow> u8 list \<Rightarrow> ('h, 'z) tty_state_scheme \<Rightarrow> bool" where
  "cooked_is t xs s ds s' \<longleftrightarrow> (\<exists>q st ys. s' = with_cooked t q st s \<and> charq_rep q st ys ds \<and>
     heap st = heap (chars s) \<and> set ys \<subseteq> set xs \<and> others_same (- set xs) (chars s) st)"

lemma cooked_is_refl:
  "charq_rep (cooked_q (tty_table s t)) (chars s) xs cs \<Longrightarrow> cooked_is t xs s cs s"
  unfolding cooked_is_def
  by (intro exI [of _ "cooked_q (tty_table s t)"] exI [of _ "chars s"] exI [of _ xs]) (simp add: others_same_def)

lemma cooked_is_trans:
  assumes "cooked_is t xs s ds u" "\<And>ys. charq_rep (cooked_q (tty_table u t)) (chars u) ys ds \<Longrightarrow> cooked_is t ys u es v"
  shows "cooked_is t xs s es v"
proof -
  obtain q st ys where u: "u = with_cooked t q st s" "charq_rep q st ys ds" "heap st = heap (chars s)"
    "set ys \<subseteq> set xs" "others_same (- set xs) (chars s) st"
    using assms(1) by (auto simp: cooked_is_def)
  with assms(2) [of ys] obtain q' st' zs where v: "v = with_cooked t q' st' u" "charq_rep q' st' zs es"
    "heap st' = heap (chars u)" "set zs \<subseteq> set ys" "others_same (- set ys) (chars u) st'"
    by (auto simp: cooked_is_def)
  have "others_same (- set xs) (chars s) st'"
    unfolding others_same_def
  proof
    fix b assume "b \<in> - set xs"
    then have "b \<in> - set xs" "b \<in> - set ys" using u(4) by auto
    then show "cblocks st' b = cblocks (chars s) b" using u(1,5) v(5) by (simp add: others_same_def)
  qed
  then show ?thesis
    unfolding cooked_is_def
    by (intro exI [of _ q'] exI [of _ st'] exI [of _ zs]) (use u v in auto)
qed

lemma cooked_is_rep:
  assumes "cooked_is t xs s ds u"
  shows "\<exists>ys. charq_rep (cooked_q (tty_table u t)) (chars u) ys ds"
    "silent (tty_table u t) = silent (tty_table s t)" "erase_keys (tty_table u t) = erase_keys (tty_table s t)"
    "cc (tty_table u t) = cc (tty_table s t)"
  using assms by (auto simp: cooked_is_def)

lemma erase_last_silent:
  assumes rep: "charq_rep (cooked_q (tty_table s t)) (chars s) xs cs" and q: "silent (tty_table s t)"
  shows "\<exists>u. erase_last env t s = Some u \<and> cooked_is t xs s (butlast cs) u"
proof -
  have n: "\<not> termios_should_echo (tty_table s t)" using q by (simp add: silent_def)
  obtain q st ys where u: "unput_cooked t s = Some (RET_OK, with_cooked t q st s)" "charq_rep q st ys (butlast cs)"
    "heap st = heap (chars s)" "set ys \<subseteq> set xs" "others_same (- set xs) (chars s) st"
    using unput_cooked_rep [OF rep] by blast
  show ?thesis
    unfolding cooked_is_def
    by (intro exI [of _ "with_cooked t q st s"] conjI exI [of _ q] exI [of _ st] exI [of _ ys])
      (use n u in \<open>simp_all add: erase_last_def\<close>)
qed

lemma erase_run_char:
  assumes "erase_keys (tty_table s t)" "silent (tty_table s t)"
    and "charq_rep (cooked_q (tty_table s t)) (chars s) xs cs"
  shows "\<exists>u. erase_run env t (EraseChar (cc (tty_table s t) VERASE)) s = Some u \<and> cooked_is t xs s (butlast cs) u"
proof -
  obtain u where u: "erase_last env t s = Some u" "cooked_is t xs s (butlast cs) u"
    using erase_last_silent [OF assms(3,2)] by blast
  then have "erase_keys (tty_table u t)" "cc (tty_table u t) = cc (tty_table s t)"
    using cooked_is_rep [OF u(2)] assms(1) by auto
  then have "\<not> termios_should_erase_word (tty_table u t) (cc (tty_table s t) VERASE)"
    "\<not> termios_should_kill_proc (tty_table u t) (cc (tty_table s t) VERASE)"
    by (auto simp: erase_keys_def termios_should_erase_word_def termios_should_kill_proc_def)
  then show ?thesis
    using u by (subst erase_run.simps) (simp add: termios_should_erase_char_def)
qed

definition blank :: "u8 \<Rightarrow> bool" where "blank c \<longleftrightarrow> c = 32 \<or> c = 9"

text \<open>Word erase on a line: its trailing blanks and the word before them.\<close>

definition without_word :: "bool \<Rightarrow> u8 list \<Rightarrow> u8 list" where
  "without_word seen cs =
     rev (dropWhile (\<lambda>c. \<not> blank c) (if seen then rev cs else dropWhile blank (rev cs)))"

lemma without_word_snoc:
  "without_word seen (cs @ [c]) =
    (if blank c \<and> seen then cs @ [c] else without_word (seen \<or> \<not> blank c) cs)"
  by (auto simp: without_word_def)

lemma erase_run_word:
  assumes "erase_keys (tty_table s t)" "silent (tty_table s t)"
    and "charq_rep (cooked_q (tty_table s t)) (chars s) xs cs"
  shows "\<exists>u. erase_run env t (EraseWord c seen) s = Some u \<and> cooked_is t xs s (without_word seen cs) u"
  using assms
proof (induction cs arbitrary: s xs seen rule: rev_induct)
  case Nil
  then have "q_size (cooked_q (tty_table s t)) = 0" using charq_rep_size [OF Nil(3)] by (simp add: word_gt_0)
  then show ?case
    using cooked_is_refl [OF Nil(3)] by (subst erase_run.simps) (simp add: without_word_def)
next
  case (snoc d cs)
  have sz: "q_size (cooked_q (tty_table s t)) > 0" using charq_rep_size [OF snoc.prems(3)] by simp
  have lc: "LAST_CHAR (cooked_q (tty_table s t)) (chars s) = Some d" using LAST_CHAR_rep [OF snoc.prems(3)] by simp
  show ?case
  proof (cases "blank d \<and> seen")
    case True
    then show ?thesis
      using cooked_is_refl [OF snoc.prems(3)] sz lc
      by (subst erase_run.simps) (auto simp: without_word_snoc blank_def)
  next
    case False
    obtain u where u: "erase_run env t (EraseChar (cc (tty_table s t) VERASE)) s = Some u" "cooked_is t xs s cs u"
      using erase_run_char [OF snoc.prems] by auto
    obtain ys where ys: "charq_rep (cooked_q (tty_table u t)) (chars u) ys cs"
      using cooked_is_rep(1) [OF u(2)] by blast
    have k: "erase_keys (tty_table u t)" "silent (tty_table u t)"
      using cooked_is_rep(2,3) [OF u(2)] snoc.prems by auto
    let ?seen = "seen \<or> d \<noteq> 32 \<and> d \<noteq> 9"
    obtain v where v: "erase_run env t (EraseWord c ?seen) u = Some v"
      using snoc.IH [OF k ys, of ?seen] by blast
    have "cooked_is t zs u (without_word ?seen cs) v"
      if "charq_rep (cooked_q (tty_table u t)) (chars u) zs cs" for zs
      using snoc.IH [OF k that, of ?seen] v by simp
    then have "cooked_is t xs s (without_word ?seen cs) v" by (rule cooked_is_trans [OF u(2)])
    moreover have "erase_run env t (EraseWord c seen) s = Some v"
      using False sz lc u(1) v by (subst erase_run.simps) (auto simp: blank_def)
    ultimately show ?thesis using False by (auto simp: without_word_snoc blank_def)
  qed
qed

lemma erase_run_line:
  assumes "erase_keys (tty_table s t)" "silent (tty_table s t)"
    and "charq_rep (cooked_q (tty_table s t)) (chars s) xs cs"
  shows "\<exists>u. erase_run env t (EraseLine c) s = Some u \<and> cooked_is t xs s [] u"
  using assms
proof (induction cs arbitrary: s xs rule: rev_induct)
  case Nil
  then have "q_size (cooked_q (tty_table s t)) = 0" using charq_rep_size [OF Nil(3)] by (simp add: word_gt_0)
  moreover have "\<not> (termios_should_echo_nl_on_kill (tty_table s t) \<and> \<not> termios_should_visual_erase (tty_table s t))"
    using Nil(2) by (auto simp: silent_def)
  ultimately show ?case
    using cooked_is_refl [OF Nil(3)] by (subst erase_run.simps) auto
next
  case (snoc d cs)
  have sz: "q_size (cooked_q (tty_table s t)) > 0" using charq_rep_size [OF snoc.prems(3)] by simp
  obtain u where u: "erase_run env t (EraseChar (cc (tty_table s t) VERASE)) s = Some u" "cooked_is t xs s cs u"
    using erase_run_char [OF snoc.prems] by auto
  obtain ys where ys: "charq_rep (cooked_q (tty_table u t)) (chars u) ys cs"
    using cooked_is_rep(1) [OF u(2)] by blast
  have k: "erase_keys (tty_table u t)" "silent (tty_table u t)"
    using cooked_is_rep(2,3) [OF u(2)] snoc.prems by auto
  obtain v where v: "erase_run env t (EraseLine c) u = Some v" using snoc.IH [OF k ys] by blast
  have "cooked_is t zs u [] v" if "charq_rep (cooked_q (tty_table u t)) (chars u) zs cs" for zs
    using snoc.IH [OF k that] v by simp
  then have "cooked_is t xs s [] v" by (rule cooked_is_trans [OF u(2)])
  moreover have "erase_run env t (EraseLine c) s = Some v"
    using sz u(1) v by (subst erase_run.simps) simp
  ultimately show ?case by blast
qed

text \<open>C32: while nothing is echoed and the three erasing keys differ, \<open>erase_char\<close> returns for every key: the erase
  key takes the last character off the cooked queue, the word key the trailing blanks and the characters before them up to a
  blank, the kill key all of them, any other key nothing. A newline in the queue is a character like any other: all three
  keys go on into lines that are finished but not yet read, though \<open>tty.h\<close> says that ERASE and KILL stop at
  the beginning of the line. The blocks stay taken from the heap and nothing else changes.\<close>

theorem erase_char_edits_line:
  assumes k: "erase_keys (tty_table s t)" "silent (tty_table s t)"
    and rep: "charq_rep (cooked_q (tty_table s t)) (chars s) xs cs"
  shows "\<exists>u. erase_char env t c s = Some u \<and>
    cooked_is t xs s (if c = cc (tty_table s t) VERASE then butlast cs
      else if c = cc (tty_table s t) VWERASE then without_word False cs
      else if c = cc (tty_table s t) VKILL then [] else cs) u"
proof -
  let ?x = "tty_table s t"
  consider "c = cc ?x VERASE" | "c = cc ?x VWERASE" | "c = cc ?x VKILL"
    | "c \<noteq> cc ?x VERASE" "c \<noteq> cc ?x VWERASE" "c \<noteq> cc ?x VKILL" by blast
  then show ?thesis
  proof cases
    case 1
    then show ?thesis using erase_run_char [OF k rep] by (simp add: erase_char_def)
  next
    case 2
    obtain u where u: "erase_run env t (EraseWord c False) s = Some u" "cooked_is t xs s (without_word False cs) u"
      using erase_run_word [OF k rep] by blast
    have "\<not> termios_should_kill_proc (tty_table u t) c"
      using k(1) 2 cooked_is_rep(4) [OF u(2)] by (auto simp: erase_keys_def termios_should_kill_proc_def)
    then show ?thesis
      using u 2 k(1) unfolding erase_char_def
      by (subst erase_run.simps)
         (auto simp: erase_keys_def termios_should_erase_char_def termios_should_erase_word_def)
  next
    case 3
    then show ?thesis
      using erase_run_line [OF k rep, of env c] k(1) unfolding erase_char_def
      by (subst erase_run.simps)
         (auto simp: erase_keys_def termios_should_erase_char_def termios_should_erase_word_def
            termios_should_kill_proc_def)
  next
    case 4
    then show ?thesis
      using cooked_is_refl [OF rep] unfolding erase_char_def
      by (subst erase_run.simps)
         (auto simp: termios_should_erase_char_def termios_should_erase_word_def
            termios_should_kill_proc_def)
  qed
qed

section \<open>Erasing with echo\<close>

text \<open>The last block of a queue has room for \<open>n\<close> more characters, so that putting them takes no memory.\<close>

definition room_for :: "nat \<Rightarrow> 'h cstore \<Rightarrow> u32 list \<Rightarrow> bool" where
  "room_for n st xs \<longleftrightarrow> xs \<noteq> [] \<and> wr (cblocks st (last xs)) + n \<le> 32"

lemma charq_put_room_for:
  assumes rep: "charq_rep q st xs ws" and room: "room_for (Suc n) st xs"
  shows "\<exists>q' st'. charq_put_char alloc ch q st = Some (RET_OK, q', st') \<and> charq_rep q' st' xs (ws @ [ch]) \<and>
    room_for n st' xs \<and> others_same (- set xs) st st'"
proof -
  obtain ys b where xs: "xs = ys @ [b]" using room by (cases xs rule: rev_cases) (auto simp: room_for_def)
  have pre: "cq_pre q st (ys @ [b])" and rw: "\<forall>a \<in> set ys. rd (cblocks st a) < wr (cblocks st a)"
    and ws: "ws = all_chars st (ys @ [b])"
    using rep xs by (auto simp: charq_rep_def)
  have w: "wr (cblocks st b) < 32" "wr (cblocks st b) + Suc n \<le> 32"
    using room xs by (auto simp: room_for_def)
  note put = charq_put_room(1) [OF pre w(1), where alloc = alloc and c = ch]
    charq_put_room(2) [OF pre w(1), where c = ch]
  let ?q = "q\<lparr>current_cblock_size := current_cblock_size q + 1\<rparr>" and ?st = "upd_cblock b (put_block ch) st"
  have "charq_rep ?q ?st xs (ws @ [ch])" unfolding xs ws by (rule put(2) [OF rw])
  moreover have "room_for n ?st xs" using w by (simp add: room_for_def xs put_block_def u16_plus_1)
  moreover have "others_same (- set xs) st ?st" by (simp add: others_same_def xs)
  ultimately show ?thesis using put(1) by blast
qed

lemma put_write_room:
  assumes "charq_rep (write_q (tty_table s t)) (chars s) xs ws" "room_for (Suc n) (chars s) xs"
  shows "\<exists>q st. put_write env t ch s = Some (RET_OK, with_write t q st s) \<and> charq_rep q st xs (ws @ [ch]) \<and>
    room_for n st xs \<and> others_same (- set xs) (chars s) st"
proof -
  obtain q st where "charq_put_char (e_alloc env) ch (write_q (tty_table s t)) (chars s) = Some (RET_OK, q, st)"
    "charq_rep q st xs (ws @ [ch])" "room_for n st xs" "others_same (- set xs) (chars s) st"
    using charq_put_room_for [OF assms] by blast
  then show ?thesis
    by (intro exI [of _ q] exI [of _ st]) (simp add: put_write_def with_write_def)
qed

primrec put_all ::
    "('h, ('h, 'z) tty_state_scheme) tty_env \<Rightarrow> nat \<Rightarrow> u8 list \<Rightarrow> ('h, 'z) tty_state_scheme \<Rightarrow>
     ('h, 'z) tty_state_scheme option" where
  "put_all env t [] s = Some s"
| "put_all env t (c # cs) s = do { (_, s) \<leftarrow> put_write env t c s; put_all env t cs s }"

lemma rub_out_all: "rub_out env t s = put_all env t [8, 32, 8] s"
  by (simp add: rub_out_def case_prod_unfold)

lemma put_all_room:
  assumes "charq_rep (write_q (tty_table s t)) (chars s) xs ws" "room_for (length cs + n) (chars s) xs"
  shows "\<exists>q st. put_all env t cs s = Some (with_write t q st s) \<and> charq_rep q st xs (ws @ cs) \<and>
    room_for n st xs \<and> others_same (- set xs) (chars s) st"
  using assms
proof (induction cs arbitrary: s ws)
  case Nil
  then show ?case
    by (intro exI [of _ "write_q (tty_table s t)"] exI [of _ "chars s"])
      (simp add: with_write_def upd_tty_def others_same_def)
next
  case (Cons c cs)
  obtain q st where one: "put_write env t c s = Some (RET_OK, with_write t q st s)" "charq_rep q st xs (ws @ [c])"
    "room_for (length cs + n) st xs" "others_same (- set xs) (chars s) st"
    using put_write_room [OF Cons.prems(1), of "length cs + n" env c] Cons.prems(2) by auto
  have "charq_rep (write_q (tty_table (with_write t q st s) t)) (chars (with_write t q st s)) xs (ws @ [c])"
    "room_for (length cs + n) (chars (with_write t q st s)) xs"
    using one(2,3) by simp_all
  from Cons.IH [OF this] obtain q' st' where rest: "put_all env t cs (with_write t q st s) = Some (with_write t q' st' s)"
    "charq_rep q' st' xs ((ws @ [c]) @ cs)" "room_for n st' xs" "others_same (- set xs) st st'"
    by auto
  have "put_all env t (c # cs) s = Some (with_write t q' st' s)" using one(1) rest(1) by simp
  moreover have "others_same (- set xs) (chars s) st'" using one(4) rest(4) by (simp add: others_same_def)
  ultimately show ?case using rest(2,3) by auto
qed

lemma echoes_ctrl_1 [simp]: "echoes_ctrl x 1 = Some (termios_should_echo_ctrl_chars x)"
  by (simp add: echoes_ctrl_def ISCTRL_eq ISSPACE_eq is_ctrl_def is_space_def)

definition rubbed_out :: "tty \<Rightarrow> u8 list" where
  "rubbed_out x = [8, 32, 8] @ (if termios_should_echo_ctrl_chars x then [8, 32, 8] else [])"

lemma erase_last_echo:
  assumes ck: "charq_rep (cooked_q (tty_table s t)) (chars s) xs cs"
    and wq: "charq_rep (write_q (tty_table s t)) (chars s) ys ws" "set xs \<inter> set ys = {}" "room_for 6 (chars s) ys"
    and e: "termios_should_echo (tty_table s t)"
  shows "\<exists>u xs'. erase_last env t s = Some u \<and>
    charq_rep (cooked_q (tty_table u t)) (chars u) xs' (butlast cs) \<and>
    charq_rep (write_q (tty_table u t)) (chars u) ys (ws @ rubbed_out (tty_table s t)) \<and>
    termios_of (tty_table u t) = termios_of (tty_table s t)"
proof -
  obtain q st xs' where un: "unput_cooked t s = Some (RET_OK, with_cooked t q st s)" "charq_rep q st xs' (butlast cs)"
    "set xs' \<subseteq> set xs" "others_same (- set xs) (chars s) st"
    using unput_cooked_rep [OF ck] by blast
  let ?s = "with_cooked t q st s" and ?x = "tty_table s t"
  have same: "cblocks st b = cblocks (chars s) b" if "b \<in> set ys" for b
    using un(4) that wq(2) by (auto simp: others_same_def)
  have w: "charq_rep (write_q (tty_table ?s t)) (chars ?s) ys ws"
    using wq(1) charq_rep_cong [of ys st "chars s"] same by simp
  have lst: "ys \<noteq> []" using wq(3) by (simp add: room_for_def)
  then have r: "room_for (length [8, 32, 8 :: u8] + 3) (chars ?s) ys"
    using wq(3) same [of "last ys"] by (simp add: room_for_def)
  obtain q1 st1 where one: "rub_out env t ?s = Some (with_write t q1 st1 ?s)"
    "charq_rep q1 st1 ys (ws @ [8, 32, 8])" "room_for 3 st1 ys" "others_same (- set ys) st st1"
    using put_all_room [OF w r, of env] by (auto simp: rub_out_all)
  let ?u = "with_write t q1 st1 ?s"
  have ck1: "charq_rep q st1 xs' (butlast cs)"
  proof -
    have "cblocks st1 b = cblocks st b" if "b \<in> set xs'" for b
      using one(4) that un(3) wq(2) by (auto simp: others_same_def)
    then show ?thesis using un(2) charq_rep_cong [of xs' st1 st] by simp
  qed
  have run: "erase_last env t s = (if termios_should_echo_ctrl_chars ?x then rub_out env t ?u else Some ?u)"
    using un(1) e one(1) by (simp add: erase_last_def retval_char_def)
  show ?thesis
  proof (cases "termios_should_echo_ctrl_chars ?x")
    case False
    then show ?thesis using run ck1 one(2) by (simp add: rubbed_out_def) blast
  next
    case True
    have w1: "charq_rep (write_q (tty_table ?u t)) (chars ?u) ys (ws @ [8, 32, 8])" using one(2) by simp
    have r1: "room_for (length [8, 32, 8 :: u8] + 0) (chars ?u) ys"
      using one(3) by (simp add: numeral_3_eq_3)
    obtain q2 st2 where two: "rub_out env t ?u = Some (with_write t q2 st2 ?u)"
      "charq_rep q2 st2 ys ((ws @ [8, 32, 8]) @ [8, 32, 8])" "others_same (- set ys) st1 st2"
      using put_all_room [OF w1 r1, of env] by (auto simp: rub_out_all)
    have "cblocks st2 b = cblocks st1 b" if "b \<in> set xs'" for b
      using two(3) that un(3) wq(2) by (auto simp: others_same_def)
    then have "charq_rep q st2 xs' (butlast cs)" using ck1 charq_rep_cong [of xs' st2 st1] by simp
    then show ?thesis using True run two by (simp add: rubbed_out_def) blast
  qed
qed

text \<open>with echo on, the erase key always queues a rub-out for one column, and for two when
  control characters are echoed as \<open>^X\<close>, whatever character is erased and also when the line is empty:
  \<open>erase_char\<close> takes the result of \<open>charq_unput_char\<close>, which is always \<open>RET_OK\<close>, for the erased
  character.\<close>

theorem erase_echo_ignores_char:
  assumes k: "erase_keys (tty_table s t)" and e: "termios_should_echo (tty_table s t)"
    and ck: "charq_rep (cooked_q (tty_table s t)) (chars s) xs cs"
    and wq: "charq_rep (write_q (tty_table s t)) (chars s) ys ws" "set xs \<inter> set ys = {}" "room_for 6 (chars s) ys"
  shows "\<exists>u xs'. erase_char env t (cc (tty_table s t) VERASE) s = Some u \<and>
    charq_rep (cooked_q (tty_table u t)) (chars u) xs' (butlast cs) \<and>
    charq_rep (write_q (tty_table u t)) (chars u) ys (ws @ [8, 32, 8] @
      (if termios_should_echo_ctrl_chars (tty_table s t) then [8, 32, 8] else []))"
proof -
  obtain u xs' where u: "erase_last env t s = Some u"
    "charq_rep (cooked_q (tty_table u t)) (chars u) xs' (butlast cs)"
    "charq_rep (write_q (tty_table u t)) (chars u) ys (ws @ rubbed_out (tty_table s t))"
    "termios_of (tty_table u t) = termios_of (tty_table s t)"
    using erase_last_echo [OF ck wq e] by blast
  have "erase_char env t (cc (tty_table s t) VERASE) s = Some u"
    unfolding erase_char_def using u(1,4) k
    by (subst erase_run.simps) (auto simp: erase_keys_def termios_should_erase_char_def
        termios_should_erase_word_def termios_should_kill_proc_def)
  then show ?thesis using u(2,3) by (auto simp: rubbed_out_def)
qed

section \<open>The table of terminals\<close>

text \<open>\<open>tty_register\<close> takes the first entry of the table if it is free and fails otherwise, so
  that after one registration every other fails; and \<open>tty_get\<close> finds the registered terminal only if its
  uninitialised loop variable happens to start at 0.\<close>

theorem tty_register_only_first:
  assumes "dev \<noteq> 0" "dev \<noteq> DEVICE_MKDEV VCONSOLE_MAJOR 0" "dev \<noteq> DEVICE_MKDEV SYSCON_MAJOR 0"
  shows "tty_register dev s = (if devnum (tty_table s 0) \<noteq> 0 then (RET_FAIL, s)
      else (RET_OK, upd_tty 0 (\<lambda>x. x\<lparr>devnum := dev, open_count := 0\<rparr>) s)) \<and>
    (devnum (tty_table s 0) = 0 \<longrightarrow>
      (\<forall>dev'. tty_register dev' (snd (tty_register dev s)) = (RET_FAIL, snd (tty_register dev s))) \<and>
      (e_num0 env = 0 \<longrightarrow> tty_get env dev (snd (tty_register dev s)) = Some (Some 0)) \<and>
      (e_num0 env \<ge> 16 \<longrightarrow> tty_get env dev (snd (tty_register dev s)) = Some None))"
proof -
  have reg: "tty_register d u = (if devnum (tty_table u 0) \<noteq> 0 then (RET_FAIL, u)
      else (RET_OK, upd_tty 0 (\<lambda>x. x\<lparr>devnum := d, open_count := 0\<rparr>) u))"
    for d and u :: "('a, 'b) tty_state_scheme"
    by (simp add: tty_register_def NUM_TTYS_def numeral_eq_Suc)
  have get: "tty_get env dev u = tty_get_loop dev (e_num0 env) u" for u :: "('a, 'b) tty_state_scheme"
    using assms by (simp add: tty_get_def)
  have loop: "tty_get_loop d 0 (upd_tty 0 (\<lambda>x. x\<lparr>devnum := d, open_count := 0\<rparr>) u) = Some (Some 0)"
    for d and u :: "('a, 'b) tty_state_scheme"
    by (subst tty_get_loop.simps) (simp add: NUM_TTYS_def upd_tty_def)
  have out: "tty_get_loop d i u = Some None" if "i \<ge> 16" for d i and u :: "('a, 'b) tty_state_scheme"
    using that by (subst tty_get_loop.simps) (simp add: NUM_TTYS_def)
  have "devnum (tty_table (upd_tty 0 (\<lambda>x. x\<lparr>devnum := dev, open_count := 0\<rparr>) s) 0) \<noteq> 0"
    using assms(1) by (simp add: upd_tty_def)
  then show ?thesis using loop out by (simp add: reg get)
qed

section \<open>The interrupt key\<close>

lemma interrupt_flush:
  assumes rl: "e_release env = kfree"
    and sig: "c_lflag (termios_of (tty_table s t)) AND ISIG \<noteq> 0" "\<not> termios_should_ignore_last_char (tty_table s t)"
      "\<not> termios_noflush (tty_table s t)" "ch = cc (tty_table s t) VINTR"
    and rd: "charq_rep (read_q (tty_table s t)) (chars s) xs rs"
    and ck: "charq_rep (cooked_q (tty_table s t)) (chars s) ys cs"
    and lv: "heap_live (heap (chars s)) L" "set xs \<subseteq> L" "set ys \<subseteq> L" "set xs \<inter> set ys = {}"
  shows "\<exists>u. cook_char env t ch s = Some (False, u) \<and> charq_rep (read_q (tty_table u t)) (chars u) [] [] \<and>
    charq_rep (cooked_q (tty_table u t)) (chars u) [] [] \<and> heap_live (heap (chars u)) (L - set xs - set ys) \<and>
    heap_used (heap (chars u)) = heap_used (heap (chars s)) - set xs - set ys"
proof -
  obtain q st where f: "charq_flush kfree (read_q (tty_table s t)) (chars s) = Some (q, st)" "charq_rep q st [] []"
    "heap_live (heap st) (L - set xs)" "others_same (L - set xs) (chars s) st"
    "heap_used (heap st) = heap_used (heap (chars s)) - set xs"
    using heap.flush_empties [OF rd lv(1,2)] by blast
  have sub: "set ys \<subseteq> L - set xs" using lv(3,4) by auto
  have "charq_rep (cooked_q (tty_table s t)) st ys cs"
    using ck charq_rep_cong [of ys st "chars s"] f(4) sub unfolding others_same_def by blast
  then obtain q' st' where g: "charq_flush kfree (cooked_q (tty_table s t)) st = Some (q', st')"
    "charq_rep q' st' [] []" "heap_live (heap st') (L - set xs - set ys)"
    "heap_used (heap st') = heap_used (heap st) - set ys"
    using heap.flush_empties [OF _ f(3) sub] by blast
  have r: "charq_rep q st' [] []" using f(2) by (simp add: charq_rep_def cq_pre_def dlist_def)
  let ?u = "(upd_tty t (\<lambda>x. x\<lparr>cooked_q := q'\<rparr>) ((upd_tty t (\<lambda>x. x\<lparr>read_q := q\<rparr>) s)\<lparr>chars := st\<rparr>))\<lparr>chars := st'\<rparr>"
  have "flush_input env t s = Some ?u"
    using f(1) g(1) by (simp add: flush_input_def rl upd_tty_def)
  then have "cook_char env t ch s = Some (False, ?u)"
    using sig by (simp add: cook_char_def cook_signal_def termios_should_flush_queues_def)
  moreover have "read_q (tty_table ?u t) = q" "cooked_q (tty_table ?u t) = q'" "chars ?u = st'"
    by (simp_all add: upd_tty_def)
  ultimately show ?thesis using r g(2,3,4) f(5) by metis
qed

text \<open>C36: with signals enabled, cooking an unescaped interrupt character ends the cooking and, unless
  \<open>NOFLSH\<close> is set, empties the read queue and the line being edited and gives exactly their blocks back to
  the heap.\<close>

theorem interrupt_key_flushes:
  assumes rl: "e_release env = kfree"
    and sig: "c_lflag (termios_of (tty_table s t)) AND ISIG \<noteq> 0" "\<not> termios_should_ignore_last_char (tty_table s t)"
      "\<not> termios_noflush (tty_table s t)"
    and rd: "charq_rep (read_q (tty_table s t)) (chars s) xs (cc (tty_table s t) VINTR # rs)"
    and ck: "charq_rep (cooked_q (tty_table s t)) (chars s) ys cs"
    and lv: "heap_live (heap (chars s)) L" "set xs \<subseteq> L" "set ys \<subseteq> L" "set xs \<inter> set ys = {}"
  shows "\<exists>u. cook_loop env t s = Some u \<and> charq_rep (read_q (tty_table u t)) (chars u) [] [] \<and>
    charq_rep (cooked_q (tty_table u t)) (chars u) [] [] \<and> heap_live (heap (chars u)) (L - set xs - set ys) \<and>
    heap_used (heap (chars u)) = heap_used (heap (chars s)) - set xs - set ys"
proof -
  obtain q st xs' L' where g: "charq_get_char kfree (read_q (tty_table s t)) (chars s) = Some (cc (tty_table s t) VINTR, q, st)"
    "charq_rep q st xs' rs" "heap_live (heap st) L'" "set xs' \<subseteq> L'" "L - set xs \<subseteq> L'" "L' - set xs' \<subseteq> L - set xs"
    "set xs' \<subseteq> set xs" "others_same (L - set xs) (chars s) st"
    "heap_used (heap st) = heap_used (heap (chars s)) - (set xs - set xs')"
    using heap.get_fifo [OF rd lv(1,2)] by auto
  let ?s = "(upd_tty t (\<lambda>x. x\<lparr>read_q := q\<rparr>) s)\<lparr>chars := st\<rparr>"
  have x: "termios_of (tty_table ?s t) = termios_of (tty_table s t)" "tty_flags (tty_table ?s t) = tty_flags (tty_table s t)"
    "cooked_q (tty_table ?s t) = cooked_q (tty_table s t)" "read_q (tty_table ?s t) = q" "chars ?s = st"
    by (simp_all add: upd_tty_def)
  have sub: "set ys \<subseteq> L - set xs" using lv(3,4) by auto
  have ck': "charq_rep (cooked_q (tty_table ?s t)) (chars ?s) ys cs"
    using ck charq_rep_cong [of ys st "chars s"] g(8) sub unfolding x others_same_def by blast
  have L: "L' - set xs' = L - set xs" using g(5,6,7) lv(2) by auto
  have "set ys \<subseteq> L'" "set xs' \<inter> set ys = {}" using sub g(5,7) by auto
  then obtain u where u: "cook_char env t (cc (tty_table s t) VINTR) ?s = Some (False, u)"
    "charq_rep (read_q (tty_table u t)) (chars u) [] []" "charq_rep (cooked_q (tty_table u t)) (chars u) [] []"
    "heap_live (heap (chars u)) (L - set xs - set ys)"
    "heap_used (heap (chars u)) = heap_used (heap st) - set xs' - set ys"
    using interrupt_flush [OF rl, of ?s t _ xs' rs ys cs L'] sig g(2,3,4) ck'
    unfolding termios_should_ignore_last_char_def termios_noflush_def x L by blast
  have "q_size (read_q (tty_table s t)) > 0" using charq_rep_size [OF rd] by simp
  moreover have "get_read env t s = Some (cc (tty_table s t) VINTR, ?s)"
    using g(1) by (simp add: get_read_def rl)
  ultimately have "cook_loop env t s = Some u"
    using u(1) by (subst cook_loop.simps) simp
  moreover have "heap_used (heap (chars u)) = heap_used (heap (chars s)) - set xs - set ys"
    unfolding u(5) g(9) using g(7) by blast
  ultimately show ?thesis using u(2-4) by blast
qed

section \<open>Examples\<close>

definition line_store :: "nat cstore" where
  "line_store = (one_store 0)\<lparr>cblocks := (cblocks (one_store (0 :: nat)))(5 := \<lparr>next_read_index = 0,
     next_write_index = 1, cb_data = 62 # replicate 31 0, cb_prev = None, cb_next = None\<rparr>)\<rparr>"

definition line_tty :: "u32 \<Rightarrow> tty" where
  "line_tty fl = zero_tty\<lparr>cooked_q := one_queue,
     write_q := \<lparr>current_cblock_size = 1, q_size = 1, q_head = Some 5, q_tail = Some 5\<rparr>,
     termios_of := \<lparr>c_iflag = 0, c_oflag = 0, c_cflag = 0, c_lflag = fl, c_line = 0,
       c_cc = (\<lambda>_. 0)(VERASE := 127, VKILL := 21, VWERASE := 23)\<rparr>\<rparr>"

definition line_state :: "u32 \<Rightarrow> nat tty_state" where
  "line_state fl = timer_state.extend (timer_state.truncate idle_timer) (tty_state.fields (\<lambda>_. line_tty fl) line_store two_running 1)"

definition idle_env :: "('h, 's) tty_env" where
  "idle_env = \<lparr>e_alloc = (\<lambda>_ h. Some (0, h)), e_release = (\<lambda>_ h. Some h), e_start = (\<lambda>_ s. Some s),
     e_stop = (\<lambda>_ s. Some s), e_delete_tab = (\<lambda>_ s. Some s), e_output = (\<lambda>_ s. Some s),
     e_switch = (\<lambda>k. Some k), e_resume = (\<lambda>s. Some s), e_tty_addr = of_nat, e_cooked_addr = of_nat,
     e_tty_read = 1, e_tty_write = 2, e_vtime = 3, e_num0 = 0\<rparr>"

lemma line_state_simps [simp]:
  "tty_table (line_state fl) t = line_tty fl" "chars (line_state fl) = line_store"
  by (simp_all add: line_state_def timer_state.extend_def tty_state.fields_def)

lemma line_cooked: "charq_rep (cooked_q (tty_table (line_state fl) t)) (chars (line_state fl)) [0xC000100C] [65, 66]"
proof -
  have "charq_rep one_queue line_store [0xC000100C] [65, 66] = charq_rep one_queue (one_store (0 :: nat)) [0xC000100C] [65, 66]"
    by (rule charq_rep_cong) (simp add: line_store_def)
  then show ?thesis using one_queue_rep [of "0 :: nat"] by (simp add: line_tty_def)
qed

lemma line_write: "charq_rep (write_q (tty_table (line_state fl) t)) (chars (line_state fl)) [5] [62]"
  by (simp add: charq_rep_def cq_pre_def line_tty_def line_store_def cb_chars_def cblock_ok_def dlist_def)

lemma line_keys: "erase_keys (tty_table (line_state fl) t)" "cc (tty_table (line_state fl) t) VERASE = 127"
  "cc (tty_table (line_state fl) t) VWERASE = 23" "cc (tty_table (line_state fl) t) VKILL = 21"
  by (simp_all add: erase_keys_def line_tty_def control_chars)

text \<open>The same line, and the finished line of an \<open>A\<close> and a newline.\<close>

definition newline_state :: "nat tty_state" where
  "newline_state = (line_state 0)\<lparr>chars := line_store\<lparr>cblocks := (cblocks line_store)(0xC000100C :=
     (cblocks line_store 0xC000100C)\<lparr>cb_data := [1, 2, 3, 4, 65, 10] @ replicate 26 0\<rparr>)\<rparr>\<rparr>"

lemma newline_cooked: "charq_rep (cooked_q (tty_table newline_state t)) (chars newline_state) [0xC000100C] [65, 10]"
  by (simp add: newline_state_def line_tty_def line_store_def one_store_def charq_rep_def cq_pre_def one_queue_def
      cb_chars_def cblock_ok_def dlist_def)

theorem erase_char_edits_line_witness:
  "(\<exists>u. erase_char idle_env 0 127 (line_state 0) = Some u \<and> cooked_is 0 [0xC000100C] (line_state 0) [65] u) \<and>
   (\<exists>u. erase_char idle_env 0 127 newline_state = Some u \<and> cooked_is 0 [0xC000100C] newline_state [65] u) \<and>
   (\<exists>u. erase_char idle_env 0 21 newline_state = Some u \<and> cooked_is 0 [0xC000100C] newline_state [] u)"
proof -
  have "silent (tty_table (line_state 0) 0)"
    by (simp add: silent_def termios_should_echo_def termios_should_echo_nl_on_kill_def line_tty_def)
  moreover have t: "tty_table newline_state = tty_table (line_state 0)" by (simp add: newline_state_def)
  ultimately have q: "silent (tty_table (line_state 0) 0)" "silent (tty_table newline_state 0)" by simp_all
  have k: "erase_keys (tty_table newline_state 0)" "cc (tty_table newline_state 0) = cc (tty_table (line_state 0) 0)"
    unfolding t by (simp_all only: line_keys(1))
  note e = erase_char_edits_line [OF line_keys(1) q(1) line_cooked, where env = idle_env, unfolded line_keys(2,3,4)]
  note n = erase_char_edits_line [OF k(1) q(2) newline_cooked, where env = idle_env, unfolded k(2) line_keys(2,3,4)]
  show ?thesis using e [of 127] n [of 127] n [of 21] by simp
qed

theorem erase_echo_ignores_char_witness:
  "\<exists>u xs'. erase_char idle_env 0 127 (line_state (ECHO OR ECHOCTL)) = Some u \<and>
    charq_rep (cooked_q (tty_table u 0)) (chars u) xs' [65] \<and>
    charq_rep (write_q (tty_table u 0)) (chars u) [5] [62, 8, 32, 8, 8, 32, 8]"
proof -
  let ?s = "line_state (ECHO OR ECHOCTL)"
  have "termios_should_echo (tty_table ?s 0)" "termios_should_echo_ctrl_chars (tty_table ?s 0)"
    by (simp_all add: termios_should_echo_def termios_should_echo_ctrl_chars_def line_tty_def ECHO_def ECHOCTL_def)
  note fl = this
  have d: "set [0xC000100C] \<inter> set [5 :: u32] = {}" by simp
  have r: "room_for 6 (chars ?s) [5]" by (simp add: room_for_def line_store_def)
  show ?thesis
    using erase_echo_ignores_char [OF line_keys(1) fl(1) line_cooked line_write d r, of idle_env,
        unfolded line_keys(2)] fl(2)
    by simp
qed

theorem tty_register_only_first_witness:
  "fst (tty_register 0x401 (line_state 0)) = RET_OK \<and>
    fst (tty_register 0x402 (snd (tty_register 0x401 (line_state 0)))) = RET_FAIL \<and>
    tty_get idle_env 0x401 (snd (tty_register 0x401 (line_state 0))) = Some (Some 0)"
proof -
  let ?s = "line_state 0"
  have d: "(0x401 :: u16) \<noteq> 0" "(0x401 :: u16) \<noteq> DEVICE_MKDEV VCONSOLE_MAJOR 0"
    "(0x401 :: u16) \<noteq> DEVICE_MKDEV SYSCON_MAJOR 0"
    by (simp_all add: DEVICE_MKDEV_def VCONSOLE_MAJOR_def SYSCON_MAJOR_def)
  have z: "devnum (tty_table ?s 0) = 0" "e_num0 idle_env = 0"
    by (simp_all add: line_tty_def zero_tty_def idle_env_def)
  note r = tty_register_only_first [OF d, of ?s idle_env]
  have "tty_register 0x402 (snd (tty_register 0x401 ?s)) = (RET_FAIL, snd (tty_register 0x401 ?s))"
    "tty_get idle_env 0x401 (snd (tty_register 0x401 ?s)) = Some (Some 0)"
    using r z by blast+
  moreover have "fst (tty_register 0x401 ?s) = RET_OK" using r z(1) by (metis fst_conv)
  ultimately show ?thesis by (simp only: fst_conv simp_thms)
qed

definition int_state :: "buddy_state \<Rightarrow> buddy_state tty_state" where
  "int_state h = timer_state.extend (timer_state.truncate idle_timer)
     (tty_state.fields (\<lambda>_. zero_tty\<lparr>read_q := one_queue, termios_of := \<lparr>c_iflag = 0, c_oflag = 0, c_cflag = 0,
       c_lflag = ISIG, c_line = 0, c_cc = (\<lambda>_. 65)\<rparr>\<rparr>) (one_store h) two_running 1)"

theorem interrupt_key_flushes_witness:
  "\<exists>h u. heap_live h {0xC000100C} \<and> cook_loop (idle_env\<lparr>e_release := kfree\<rparr>) 0 (int_state h) = Some u \<and>
    charq_rep (read_q (tty_table u 0)) (chars u) [] [] \<and> heap_live (heap (chars u)) {}"
proof -
  obtain h :: buddy_state where h: "heap_live h {0xC000100C}" using boot_heap_one by blast
  let ?s = "int_state h" and ?env = "idle_env\<lparr>e_release := kfree\<rparr> :: (buddy_state, buddy_state tty_state) tty_env"
  have s: "tty_table ?s 0 = zero_tty\<lparr>read_q := one_queue, termios_of := \<lparr>c_iflag = 0, c_oflag = 0, c_cflag = 0,
       c_lflag = ISIG, c_line = 0, c_cc = (\<lambda>_. 65)\<rparr>\<rparr>" "chars ?s = one_store h"
    by (simp_all add: int_state_def timer_state.extend_def tty_state.fields_def)
  have rd: "charq_rep (read_q (tty_table ?s 0)) (chars ?s) [0xC000100C] (cc (tty_table ?s 0) VINTR # [66])"
    using one_queue_rep [of h] by (simp add: s)
  have ck: "charq_rep (cooked_q (tty_table ?s 0)) (chars ?s) [] []"
    by (simp add: s zero_tty_def zero_charq_rep)
  have lv: "heap_live (heap (chars ?s)) {0xC000100C}" using h by (simp add: s one_store_def)
  have fl: "c_lflag (termios_of (tty_table ?s 0)) AND ISIG \<noteq> 0" "\<not> termios_should_ignore_last_char (tty_table ?s 0)"
    "\<not> termios_noflush (tty_table ?s 0)"
    by (simp_all add: s termios_should_ignore_last_char_def termios_noflush_def zero_tty_def ISIG_def NOFLSH_def)
  have "e_release ?env = kfree" by simp
  from interrupt_key_flushes [OF this fl rd ck lv] h show ?thesis by auto
qed

end
