(* ===== verification/Memory.thy ===== *)
theory Memory
  imports CString
begin

text \<open>
  Words in byte-addressed memory, little-endian, as the machine stores them: what the code reads and
  writes through pointers to \<open>unsigned short\<close>, \<open>unsigned int\<close> and \<open>unsigned long long\<close>. Addresses wrap.
\<close>

section \<open>Reading and writing\<close>

definition get_u16 :: "mem \<Rightarrow> u32 \<Rightarrow> u16" where
  "get_u16 m a = ucast (m a) OR push_bit 8 (ucast (m (a + 1)))"

definition get_u32 :: "mem \<Rightarrow> u32 \<Rightarrow> u32" where
  "get_u32 m a = ucast (m a) OR push_bit 8 (ucast (m (a + 1))) OR
     push_bit 16 (ucast (m (a + 2))) OR push_bit 24 (ucast (m (a + 3)))"

definition get_u64 :: "mem \<Rightarrow> u32 \<Rightarrow> u64" where
  "get_u64 m a = ucast (get_u32 m a) OR push_bit 32 (ucast (get_u32 m (a + 4)))"

definition put_u16 :: "mem \<Rightarrow> u32 \<Rightarrow> u16 \<Rightarrow> mem" where
  "put_u16 m a v = m(a := ucast v, a + 1 := ucast (drop_bit 8 v))"

definition put_u32 :: "mem \<Rightarrow> u32 \<Rightarrow> u32 \<Rightarrow> mem" where
  "put_u32 m a v = m(a := ucast v, a + 1 := ucast (drop_bit 8 v),
     a + 2 := ucast (drop_bit 16 v), a + 3 := ucast (drop_bit 24 v))"

section \<open>Reading back\<close>

lemma add_neq_u32: "k \<noteq> 0 \<Longrightarrow> a + k \<noteq> (a :: u32)" "k \<noteq> 0 \<Longrightarrow> a \<noteq> a + (k :: u32)"
  by simp_all

lemma get_put_u16 [simp]: "get_u16 (put_u16 m a v) a = v"
proof -
  have "ucast (ucast v :: u8) OR push_bit 8 (ucast (ucast (drop_bit 8 v) :: u8)) = (v :: u16)"
    by (rule bit_word_eqI) (auto simp: bit_simps)
  then show ?thesis by (simp add: get_u16_def put_u16_def)
qed

lemma get_put_u32 [simp]: "get_u32 (put_u32 m a v) a = v"
proof -
  have "ucast (ucast v :: u8) OR push_bit 8 (ucast (ucast (drop_bit 8 v) :: u8)) OR
      push_bit 16 (ucast (ucast (drop_bit 16 v) :: u8)) OR push_bit 24 (ucast (ucast (drop_bit 24 v) :: u8)) = (v :: u32)"
  proof (rule bit_word_eqI)
    fix n assume "n < LENGTH(32)"
    then consider "n < 8" | "8 \<le> n \<and> n < 16" | "16 \<le> n \<and> n < 24" | "24 \<le> n \<and> n < 32" by force
    then show "bit (ucast (ucast v :: u8) OR push_bit 8 (ucast (ucast (drop_bit 8 v) :: u8)) OR
      push_bit 16 (ucast (ucast (drop_bit 16 v) :: u8)) OR push_bit 24 (ucast (ucast (drop_bit 24 v) :: u8)) :: u32) n =
      bit v n"
      by cases (auto simp: bit_simps)
  qed
  then show ?thesis by (simp add: get_u32_def put_u32_def)
qed

text \<open>Words that do not overlap: their addresses are at least a word apart, going up from either.\<close>

definition apart :: "u32 \<Rightarrow> u32 \<Rightarrow> bool" where
  "apart a b \<longleftrightarrow> 4 \<le> b - a \<and> 4 \<le> a - b"

lemma apart_offsets:
  assumes "apart a b" "i < 4" "j < 4"
  shows "a + of_nat i \<noteq> b + of_nat j"
proof
  assume eq: "a + of_nat i = b + of_nat j"
  then have d: "b - a = of_nat i - of_nat j" "a - b = of_nat j - of_nat i"
    by (simp_all add: algebra_simps)
  show False
  proof (cases "j \<le> i")
    case True
    then have "b - a = of_nat (i - j)" using d(1) by (simp add: of_nat_diff)
    moreover have "unat (of_nat (i - j) :: u32) = i - j" by (rule unat_of_nat_u32) (use assms(2) in simp)
    ultimately have "unat (b - a) < 4" using assms(2) by simp
    then show False using assms(1) by (simp add: apart_def word_le_nat_alt)
  next
    case False
    then have "a - b = of_nat (j - i)" using d(2) by (simp add: of_nat_diff)
    moreover have "unat (of_nat (j - i) :: u32) = j - i" by (rule unat_of_nat_u32) (use assms(3) in simp)
    ultimately have "unat (a - b) < 4" using assms(3) by simp
    then show False using assms(1) by (simp add: apart_def word_le_nat_alt)
  qed
qed

lemma get_put_u32_apart [simp]:
  assumes "apart a b"
  shows "get_u32 (put_u32 m a v) b = get_u32 m b"
proof -
  have "b + of_nat j \<notin> {a, a + 1, a + 2, a + 3}" if "j < 4" for j :: nat
    using apart_offsets [OF assms, of 0 j] apart_offsets [OF assms, of 1 j] apart_offsets [OF assms, of 2 j]
      apart_offsets [OF assms, of 3 j] that by auto
  from this [of 0] this [of 1] this [of 2] this [of 3] show ?thesis
    by (auto simp: get_u32_def put_u32_def)
qed

lemma unat_uminus_u32: "0 < k \<Longrightarrow> k \<le> 4294967296 \<Longrightarrow> unat (- of_nat k :: u32) = 4294967296 - k"
proof -
  assume k: "0 < k" "k \<le> 4294967296"
  then have "(- of_nat k :: u32) = of_nat (4294967296 - k)" by (simp add: of_nat_diff)
  then show ?thesis using k by (simp only: unat_of_nat_u32)
qed

text \<open>Words at two multiples of four from one base are apart.\<close>

lemma apart_words:
  assumes "i \<noteq> j" "i < 1073741824" "j < 1073741824"
  shows "apart (a + 4 * of_nat i) (a + 4 * of_nat j)"
proof -
  have "4 \<le> (4 * of_nat k - 4 * of_nat l :: u32)" if "k \<noteq> l" "k < 1073741824" "l < 1073741824" for k l :: nat
  proof (cases "l < k")
    case True
    then have "(4 * of_nat k - 4 * of_nat l :: u32) = of_nat (4 * (k - l))" by (simp add: of_nat_diff right_diff_distrib)
    then show ?thesis using True that unat_of_nat_u32 [of "4 * (k - l)"] by (simp add: word_le_nat_alt)
  next
    case False
    have "(4 * of_nat k - 4 * of_nat l :: u32) = - of_nat (4 * (l - k))"
      using False by (simp add: of_nat_diff right_diff_distrib)
    moreover have "unat (- of_nat (4 * (l - k)) :: u32) = 4294967296 - 4 * (l - k)"
      by (rule unat_uminus_u32) (use False that in auto)
    ultimately show ?thesis using False that by (simp add: word_le_nat_alt)
  qed
  from this [of i j] this [of j i] show ?thesis using assms by (simp add: apart_def)
qed

text \<open>Clearing memory.\<close>

lemma kmemset_loop_at:
  "n \<le> 4294967296 \<Longrightarrow> kmemset_loop m s c i n (s + x) = (if unat (x - i) < n then c else m (s + x))"
proof (induction n arbitrary: m i)
  case (Suc n)
  have "unat (x - (i + 1)) = unat (x - i) - 1" if "x \<noteq> i"
  proof -
    have "x - i \<noteq> 0" using that by simp
    then show ?thesis by (metis diff_diff_add unat_minus_one)
  qed
  moreover have "unat (x - (i + 1)) = 4294967295" if "x = i" using that unat_uminus_u32 [of 1] by simp
  moreover have "unat (x - i) \<noteq> 0" if "x \<noteq> i" using that by (simp add: unat_eq_0)
  ultimately show ?case using Suc by auto
qed simp

lemma kmemset_at: "fst (kmemset m s c n) a = (if a - s < n then word_of_int c else m a)"
  using kmemset_loop_at [of "unat n" m s "word_of_int c" 0 "a - s"] unat_lt_u32 [of n]
  by (simp add: kmemset_def word_less_nat_alt)

lemma kmemset_get_u32:
  assumes "a - s < n" "unat (a - s) + 4 \<le> unat n"
  shows "get_u32 (fst (kmemset m s 0 n)) a = 0"
proof -
  have "a + of_nat i - s < n" if "i < 4" for i
  proof -
    have "unat (a - s + of_nat i) = unat (a - s) + i"
      using assms(2) that unat_lt_u32 [of n] unat_add_lem [of "a - s" "of_nat i"] unat_of_nat_u32 [of i] by simp
    then show ?thesis using assms(2) that by (simp add: word_less_nat_alt algebra_simps)
  qed
  from this [of 0] this [of 1] this [of 2] this [of 3] show ?thesis by (simp add: get_u32_def kmemset_at)
qed

lemma kmemset_get_u32_outside:
  assumes "n \<le> a - s" "n \<le> a + 1 - s" "n \<le> a + 2 - s" "n \<le> a + 3 - s"
  shows "get_u32 (fst (kmemset m s c n)) a = get_u32 m a"
  using assms by (simp add: get_u32_def kmemset_at leD)

end
