(* ===== verification/Bios.thy ===== *)
theory Bios
  imports Memory Pages Descr
begin

text \<open>
  The memory map, \<open>src/kernel/src/init/bios.c\<close> with \<open>src/include/init/bios.h\<close>: the map that the boot loader
  passes is read from memory, at most 50 of its entries are kept, and the physical pages are counted. A
  kernel message has no effect on the state, but the index into the table of type names that it is given
  must be within the table.
\<close>

section \<open>State\<close>

record bios_mmap =
  bm_from :: u32
  bm_from_high :: u32
  bm_to :: u32
  bm_to_high :: u32
  bm_type :: int

record mmap_entry =
  me_size :: u32
  me_addr :: u64
  me_len :: u64
  me_type :: u32

record boot_state =
  bmem :: mem
  bios_map :: "bios_mmap list"
  kernel_map :: "bios_mmap list"
  memsize :: int
  extmemsize :: int
  physical_pages :: u32

definition NUM_BIOS_MMAP_ENTRIES :: nat where "NUM_BIOS_MMAP_ENTRIES = 50"
definition GDT_BASE :: u32 where "GDT_BASE = FOUR_GB - (KERNEL_PAGE_OFFSET - 1)"
definition MULTIBOOT_MEMORY_AVAILABLE :: int where "MULTIBOOT_MEMORY_AVAILABLE = 1"
definition MULTIBOOT_MEMORY_RESERVED :: int where "MULTIBOOT_MEMORY_RESERVED = 2"

definition bios_mem_type :: "string option list" where
  "bios_mem_type = [None, Some ''available'', Some ''reserved'', Some ''ACPI Reclaim'', Some ''ACPI NVS'',
     Some ''unusable'', Some ''disabled'']"

section \<open>Operations\<close>

text \<open>The packed entry at an address.\<close>

definition read_mmap_entry :: "mem \<Rightarrow> u32 \<Rightarrow> mmap_entry" where
  "read_mmap_entry m p =
     \<lparr>me_size = get_u32 m p, me_addr = get_u64 m (p + 4), me_len = get_u64 m (p + 12), me_type = get_u32 m (p + 20)\<rparr>"

text \<open>One turn of the loop: \<open>n\<close> entries are stored already.\<close>

definition bios_mmap_one :: "mmap_entry \<Rightarrow> nat \<Rightarrow> 'a boot_state_scheme \<Rightarrow> (nat \<times> 'a boot_state_scheme) option" where
  "bios_mmap_one e n s = do {
     let from_high = (ucast (drop_bit 32 (me_addr e)) :: u32);
     let from_low = (ucast (me_addr e AND ucast FOUR_GB) :: u32);
     let to_orig = me_addr e + me_len e;
     let type = sint (me_type e);
     require (0 \<le> type \<and> nat type < length bios_mem_type);
     let to_high = (ucast (drop_bit 32 to_orig) :: u32);
     let to_low = (ucast (to_orig AND ucast FOUR_GB) :: u32);
     if n < NUM_BIOS_MMAP_ENTRIES \<and> me_len e \<noteq> 0 then do {
       let s = s\<lparr>bios_map := (bios_map s)[n := \<lparr>bm_from = from_low, bm_from_high = from_high, bm_to = to_low,
                   bm_to_high = to_high, bm_type = type\<rparr>]\<rparr>;
       let s =
         (if from_high = 0 \<and> to_high = 0 \<and> type = MULTIBOOT_MEMORY_AVAILABLE then
            (let from_low = from_low AND PAGE_MASK;
                 to_low = to_low AND PAGE_MASK
             in if from_low \<ge> 0x100000
                then s\<lparr>physical_pages := physical_pages s + (to_low - from_low) div PAGE_SIZE\<rparr> else s)
          else s);
       Some (n + 1, s)
     } else Some (n, s)
   }"

partial_function (option) bios_mmap_loop ::
    "u32 \<Rightarrow> u32 \<Rightarrow> nat \<Rightarrow> 'a boot_state_scheme \<Rightarrow> 'a boot_state_scheme option" where
  "bios_mmap_loop bmmap stop n s =
     (if bmmap < stop then do {
        let e = read_mmap_entry (bmem s) bmmap;
        (n, s) \<leftarrow> bios_mmap_one e n s;
        bios_mmap_loop (bmmap + me_size e + 4) stop n s
      } else Some s)"

text \<open>The map assumed when there is none; the products are of signed numbers.\<close>

definition bios_mmap_default :: "'a boot_state_scheme \<Rightarrow> 'a boot_state_scheme option" where
  "bios_mmap_default s = do {
     to0 \<leftarrow> to_int (memsize s * 1024);
     ext \<leftarrow> to_int (extmemsize s + 1024);
     to1 \<leftarrow> to_int (ext * 1024);
     Some (s\<lparr>bios_map := (bios_map s)
        [0 := \<lparr>bm_from = 0, bm_from_high = 0, bm_to = word_of_int to0, bm_to_high = 0,
               bm_type = MULTIBOOT_MEMORY_AVAILABLE\<rparr>,
         1 := \<lparr>bm_from = 0x00100000, bm_from_high = 0, bm_to = word_of_int to1, bm_to_high = 0,
               bm_type = MULTIBOOT_MEMORY_AVAILABLE\<rparr>],
      physical_pages := word_of_int (ext div 4)\<rparr>)
   }"

definition bios_mmap_init :: "u32 \<Rightarrow> u32 \<Rightarrow> 'a boot_state_scheme \<Rightarrow> 'a boot_state_scheme option" where
  "bios_mmap_init mmap mmap_len s = do {
     let s = s\<lparr>physical_pages := 0\<rparr>;
     s \<leftarrow> (if mmap \<noteq> 0 then do {
             s \<leftarrow> bios_mmap_loop mmap (mmap + mmap_len) 0 s;
             Some (s\<lparr>physical_pages := physical_pages s + drop_bit 2 1024\<rparr>)
           } else bios_mmap_default s);
     let s = (if physical_pages s > drop_bit PAGE_SHIFT GDT_BASE
              then s\<lparr>physical_pages := drop_bit PAGE_SHIFT GDT_BASE\<rparr> else s);
     Some (s\<lparr>kernel_map := take NUM_BIOS_MMAP_ENTRIES (bios_map s)\<rparr>)
   }"

text \<open>An entry of the given type that starts and ends below 4 GB and holds the address.\<close>

definition bmm_holds :: "int \<Rightarrow> u32 \<Rightarrow> bios_mmap \<Rightarrow> bool" where
  "bmm_holds type addr bmm \<longleftrightarrow> bm_to bmm \<noteq> 0 \<and> bm_type bmm = type \<and> bm_from_high bmm = 0 \<and> bm_to_high bmm = 0 \<and>
     addr \<ge> bm_from bmm \<and> addr < (bm_to bmm AND PAGE_MASK)"

primrec bmm_scan :: "int \<Rightarrow> bool \<Rightarrow> u32 \<Rightarrow> bios_mmap list \<Rightarrow> bool \<Rightarrow> bool" where
  "bmm_scan type v addr [] ret = ret"
| "bmm_scan type v addr (bmm # bmms) ret = bmm_scan type v addr bmms (if bmm_holds type addr bmm then v else ret)"

definition bios_mmap_has_addr :: "'a boot_state_scheme \<Rightarrow> u32 \<Rightarrow> bool" where
  "bios_mmap_has_addr s addr =
     (let ret = bmm_scan MULTIBOOT_MEMORY_AVAILABLE True addr (kernel_map s) False
      in bmm_scan MULTIBOOT_MEMORY_RESERVED False addr (kernel_map s) ret)"

section \<open>Looking up an address\<close>

lemma bmm_scan_eq: "bmm_scan type v addr bmms ret = (if \<exists>b \<in> set bmms. bmm_holds type addr b then v else ret)"
  by (induction bmms arbitrary: ret) auto

lemma bios_mmap_has_addr_eq:
  "bios_mmap_has_addr s addr \<longleftrightarrow>
    (\<exists>b \<in> set (kernel_map s). bmm_holds MULTIBOOT_MEMORY_AVAILABLE addr b) \<and>
    (\<forall>b \<in> set (kernel_map s). \<not> bmm_holds MULTIBOOT_MEMORY_RESERVED addr b)"
  by (auto simp: bios_mmap_has_addr_def Let_def bmm_scan_eq)

section \<open>Reading the map\<close>

text \<open>The entries of the map in memory, from \<open>p\<close> to \<open>stop\<close>, each with a type that has a name.\<close>

primrec mmap_at :: "mem \<Rightarrow> u32 \<Rightarrow> u32 \<Rightarrow> mmap_entry list \<Rightarrow> bool" where
  "mmap_at m stop p [] \<longleftrightarrow> \<not> p < stop"
| "mmap_at m stop p (e # es) \<longleftrightarrow> p < stop \<and> read_mmap_entry m p = e \<and> me_type e < 7 \<and>
     mmap_at m stop (p + me_size e + 4) es"

definition entry_of :: "mmap_entry \<Rightarrow> bios_mmap" where
  "entry_of e = \<lparr>bm_from = ucast (me_addr e), bm_from_high = ucast (drop_bit 32 (me_addr e)),
     bm_to = ucast (me_addr e + me_len e), bm_to_high = ucast (drop_bit 32 (me_addr e + me_len e)),
     bm_type = int (unat (me_type e))\<rparr>"

definition entry_pages :: "bios_mmap \<Rightarrow> u32" where
  "entry_pages b =
     (if bm_from_high b = 0 \<and> bm_to_high b = 0 \<and> bm_type b = MULTIBOOT_MEMORY_AVAILABLE \<and>
         (bm_from b AND PAGE_MASK) \<ge> 0x100000
      then ((bm_to b AND PAGE_MASK) - (bm_from b AND PAGE_MASK)) div PAGE_SIZE else 0)"

definition kept :: "nat \<Rightarrow> mmap_entry list \<Rightarrow> bios_mmap list" where
  "kept n es = map entry_of (take (50 - n) (filter (\<lambda>e. me_len e \<noteq> 0) es))"

lemma low_word: "(ucast (x AND ucast FOUR_GB :: u64) :: u32) = ucast x"
proof -
  have "(ucast FOUR_GB :: u64) = mask 32" by (simp add: FOUR_GB_def mask_eq_exp_minus_1)
  then show ?thesis by (intro bit_word_eqI) (auto simp: bit_simps)
qed

lemma type_int: "t < 7 \<Longrightarrow> sint (t :: u32) = int (unat t)"
proof -
  assume "t < 7"
  then have "uint t < 7" by (simp add: word_less_def)
  moreover have "- (2 ^ 31) \<le> uint t" by (rule order_trans [of _ 0]) simp_all
  ultimately have "signed_take_bit 31 (uint t) = uint t" by (intro signed_take_bit_int_eq_self) simp_all
  then show ?thesis by (simp add: sint_uint)
qed

lemma bios_mmap_one_ok:
  assumes "me_type e < 7" "n \<le> 50"
  shows "bios_mmap_one e n s = Some
    (if me_len e \<noteq> 0 \<and> n < 50
     then (n + 1, s\<lparr>bios_map := (bios_map s)[n := entry_of e], physical_pages := physical_pages s + entry_pages (entry_of e)\<rparr>)
     else (n, s))"
proof -
  have "unat (me_type e) < 7" using assms(1) by (simp add: word_less_nat_alt)
  then have "uint (me_type e) < 7" by (metis of_nat_less_iff of_nat_numeral uint_nat)
  with \<open>unat (me_type e) < 7\<close> show ?thesis
    using assms by (simp add: bios_mmap_one_def type_int entry_of_def entry_pages_def low_word Let_def
        bios_mem_type_def NUM_BIOS_MMAP_ENTRIES_def)
qed

lemma bios_mmap_loop_ok:
  assumes "mmap_at (bmem s) stop p es" "n \<le> 50" "length (bios_map s) = 50"
  shows "bios_mmap_loop p stop n s = Some (s\<lparr>
    bios_map := take n (bios_map s) @ kept n es @ drop (n + length (kept n es)) (bios_map s),
    physical_pages := physical_pages s + sum_list (map entry_pages (kept n es))\<rparr>)"
  using assms
proof (induction es arbitrary: p n s)
  case Nil
  then show ?case by (subst bios_mmap_loop.simps) (simp add: kept_def)
next
  case (Cons e es)
  then have e: "p < stop" "read_mmap_entry (bmem s) p = e" "me_type e < 7"
    "mmap_at (bmem s) stop (p + me_size e + 4) es"
    by auto
  show ?case
  proof (cases "me_len e \<noteq> 0 \<and> n < 50")
    case True
    let ?s = "s\<lparr>bios_map := (bios_map s)[n := entry_of e], physical_pages := physical_pages s + entry_pages (entry_of e)\<rparr>"
    have k: "kept n (e # es) = entry_of e # kept (Suc n) es"
      using True by (simp add: kept_def Suc_diff_Suc [symmetric] del: Suc_diff_Suc)
    have "bios_mmap_loop (p + me_size e + 4) stop (Suc n) ?s = Some (?s\<lparr>
      bios_map := take (Suc n) (bios_map ?s) @ kept (Suc n) es @ drop (Suc n + length (kept (Suc n) es)) (bios_map ?s),
      physical_pages := physical_pages ?s + sum_list (map entry_pages (kept (Suc n) es))\<rparr>)"
      by (rule Cons.IH) (use e Cons.prems True in simp_all)
    moreover have "take (Suc n) ((bios_map s)[n := entry_of e]) = take n (bios_map s) @ [entry_of e]"
      using True Cons.prems(3) by (simp add: take_Suc_conv_app_nth)
    ultimately show ?thesis
      using e True bios_mmap_one_ok [OF e(3) Cons.prems(2), of s]
      by (subst bios_mmap_loop.simps) (simp add: k Let_def algebra_simps)
  next
    case False
    then have "kept n (e # es) = kept n es" by (auto simp: kept_def)
    moreover have "bios_mmap_loop (p + me_size e + 4) stop n s = Some (s\<lparr>
      bios_map := take n (bios_map s) @ kept n es @ drop (n + length (kept n es)) (bios_map s),
      physical_pages := physical_pages s + sum_list (map entry_pages (kept n es))\<rparr>)"
      by (rule Cons.IH) (use e Cons.prems in simp_all)
    ultimately show ?thesis
      using e False bios_mmap_one_ok [OF e(3) Cons.prems(2), of s]
      by (subst bios_mmap_loop.simps) (auto simp: Let_def)
  qed
qed

section \<open>What the kernel knows about memory\<close>

text \<open>An entry of the boot loader's map that lies below 4 GB and holds the address, up to the last page
  that it fills.\<close>

definition entry_covers :: "u32 \<Rightarrow> u32 \<Rightarrow> mmap_entry \<Rightarrow> bool" where
  "entry_covers type a e \<longleftrightarrow> me_type e = type \<and> me_addr e \<le> ucast a \<and> me_addr e + me_len e < 0x100000000 \<and>
     a < (ucast (me_addr e + me_len e) AND PAGE_MASK)"

lemma high_word_0: "(ucast (drop_bit 32 x) :: u32) = 0 \<longleftrightarrow> x < (0x100000000 :: u64)"
proof -
  have "(ucast (drop_bit 32 x) :: u32) = 0 \<longleftrightarrow> unat x div 4294967296 = 0"
  proof -
    have "unat x < 18446744073709551616" by (rule order_less_le_trans [OF unsigned_less]) simp
    then have "unat x div 4294967296 < 4294967296" by (simp add: less_mult_imp_div_less)
    then show ?thesis
      by (simp add: word_unat_eq_iff unsigned_ucast_eq unat_drop_bit_eq drop_bit_nat_def take_bit_nat_eq_self)
  qed
  then show ?thesis by (simp add: word_less_nat_alt div_eq_0_iff)
qed

lemma low_word_le:
  assumes "x < (0x100000000 :: u64)"
  shows "ucast x \<le> (a :: u32) \<longleftrightarrow> x \<le> ucast a"
proof -
  have "unat x < 4294967296" using assms by (simp add: word_less_nat_alt)
  then show ?thesis
    using unat_lt_u32 [of a] by (simp add: word_le_nat_alt unsigned_ucast_eq take_bit_nat_eq_self)
qed

lemma bmm_holds_entry:
  assumes "me_type e < 7" "type < 7"
  shows "bmm_holds (int (unat type)) a (entry_of e) \<longleftrightarrow> entry_covers type a e"
proof -
  have "me_addr e < 0x100000000" if "me_addr e \<le> ucast a"
    using that unat_lt_u32 [of a] by (simp add: word_le_nat_alt word_less_nat_alt unsigned_ucast_eq take_bit_nat_eq_self)
  moreover have "me_addr e \<le> ucast a \<longleftrightarrow> ucast (me_addr e) \<le> a" if "me_addr e < 0x100000000"
    using low_word_le [OF that] by simp
  moreover have "bm_type (entry_of e) = int (unat type) \<longleftrightarrow> me_type e = type"
    by (simp add: entry_of_def word_uint_eq_iff)
  moreover have "bm_from_high (entry_of e) = 0 \<longleftrightarrow> me_addr e < 0x100000000"
    "bm_to_high (entry_of e) = 0 \<longleftrightarrow> me_addr e + me_len e < 0x100000000"
    by (simp_all add: entry_of_def high_word_0)
  moreover have "bm_from (entry_of e) = ucast (me_addr e)" "bm_to (entry_of e) = ucast (me_addr e + me_len e)"
    by (simp_all add: entry_of_def)
  moreover have "bm_to (entry_of e) \<noteq> 0" if "a < bm_to (entry_of e) AND PAGE_MASK" using that by auto
  ultimately show ?thesis unfolding bmm_holds_def entry_covers_def by metis
qed

definition boot_entries :: "mmap_entry list \<Rightarrow> mmap_entry list" where
  "boot_entries es = take 50 (filter (\<lambda>e. me_len e \<noteq> 0) es)"

definition no_region :: bios_mmap where
  "no_region = \<lparr>bm_from = 0, bm_from_high = 0, bm_to = 0, bm_to_high = 0, bm_type = 0\<rparr>"

lemma mmap_at_types: "mmap_at m stop p es \<Longrightarrow> e \<in> set es \<Longrightarrow> me_type e < 7"
  by (induction es arbitrary: p) auto

text \<open>C23: from a map in memory, whatever its entries overlap with, \<open>bios_mmap_init\<close> returns; then an
  address is reported as memory just if one of the first 50 non-empty entries makes it available and none of
  them reserves it, looking only at entries below 4 GB. The number of physical pages is what the available
  entries above 1 MB add up to, and 256 for the first megabyte, but not more than 1 GB of them.\<close>

theorem bios_map_reports:
  assumes "p \<noteq> 0" "mmap_at (bmem s) (p + len) p es" "bios_map s = replicate 50 no_region"
  shows "\<exists>u. bios_mmap_init p len s = Some u \<and>
    (\<forall>a. bios_mmap_has_addr u a =
      (list_ex (entry_covers 1 a) (boot_entries es) \<and> \<not> list_ex (entry_covers 2 a) (boot_entries es))) \<and>
    physical_pages u = min 0x40000 (sum_list (map (entry_pages \<circ> entry_of) (boot_entries es)) + 256)"
proof -
  let ?s = "s\<lparr>physical_pages := 0\<rparr>"
  let ?k = "kept 0 es"
  have k: "?k = map entry_of (boot_entries es)" by (simp add: kept_def boot_entries_def)
  have len: "length ?k \<le> 50" by (simp add: kept_def)
  have "bios_mmap_loop p (p + len) 0 ?s = Some (?s\<lparr>
    bios_map := take 0 (bios_map ?s) @ ?k @ drop (0 + length ?k) (bios_map ?s),
    physical_pages := physical_pages ?s + sum_list (map entry_pages ?k)\<rparr>)"
    by (rule bios_mmap_loop_ok) (use assms in simp_all)
  moreover have "drop_bit PAGE_SHIFT GDT_BASE = 0x40000"
    by (simp add: GDT_BASE_def FOUR_GB_def KERNEL_PAGE_OFFSET_def PAGE_SHIFT_def)
  ultimately have "\<exists>u. bios_mmap_init p len s = Some u \<and> kernel_map u = ?k @ replicate (50 - length ?k) no_region \<and>
      physical_pages u = min 0x40000 (sum_list (map entry_pages ?k) + 256)"
    using assms(1,3) len by (simp add: bios_mmap_init_def NUM_BIOS_MMAP_ENTRIES_def Let_def)
  then obtain u where u: "bios_mmap_init p len s = Some u"
    "kernel_map u = ?k @ replicate (50 - length ?k) no_region"
    "physical_pages u = min 0x40000 (sum_list (map entry_pages ?k) + 256)"
    by blast
  have none: "\<not> bmm_holds t a no_region" for t a by (simp add: bmm_holds_def no_region_def)
  have tys: "me_type e < 7" if "e \<in> set (boot_entries es)" for e
    using that mmap_at_types [OF assms(2)] by (auto simp: boot_entries_def dest: in_set_takeD)
  have "(\<exists>b \<in> set (kernel_map u). bmm_holds (int (unat t)) a b) = list_ex (entry_covers t a) (boot_entries es)"
    if "t < 7" for t a
    using bmm_holds_entry [OF tys that] none by (auto simp: u(2) k list_ex_iff)
  from this [of 1] this [of 2] u(1,3) show ?thesis
    by (intro exI [of _ u])
      (auto simp: bios_mmap_has_addr_eq MULTIBOOT_MEMORY_AVAILABLE_def MULTIBOOT_MEMORY_RESERVED_def k)
qed

section \<open>Example\<close>

text \<open>A map of one entry: 7 MB above the first.\<close>

definition one_entry_mem :: mem where
  "one_entry_mem = put_u32 (put_u32 (put_u32 (put_u32 (put_u32 (put_u32 (\<lambda>_. 0)
     0x1000 20) 0x1004 0x100000) 0x1008 0) 0x100C 0x700000) 0x1010 0) 0x1014 1"

definition boot_example :: boot_state where
  "boot_example = \<lparr>bmem = one_entry_mem, bios_map = replicate 50 no_region, kernel_map = [], memsize = 640,
     extmemsize = 0x1C00, physical_pages = 0\<rparr>"

lemma one_entry_mem_map:
  "mmap_at one_entry_mem 0x1018 0x1000 [\<lparr>me_size = 20, me_addr = 0x100000, me_len = 0x700000, me_type = 1\<rparr>]"
  by (simp add: one_entry_mem_def read_mmap_entry_def get_u64_def apart_def)

theorem bios_map_reports_witness:
  "\<exists>u. bios_mmap_init 0x1000 24 boot_example = Some u \<and> bios_mmap_has_addr u 0x7FFFFF \<and>
    \<not> bios_mmap_has_addr u 0x800000 \<and> physical_pages u = 2048"
proof -
  let ?e = "\<lparr>me_size = 20, me_addr = 0x100000, me_len = 0x700000, me_type = 1\<rparr>"
  have "mmap_at (bmem boot_example) (0x1000 + 24) 0x1000 [?e]"
    using one_entry_mem_map by (simp add: boot_example_def)
  moreover have "bios_map boot_example = replicate 50 no_region" by (simp add: boot_example_def)
  ultimately obtain u where u: "bios_mmap_init 0x1000 24 boot_example = Some u"
    "\<forall>a. bios_mmap_has_addr u a =
      (list_ex (entry_covers 1 a) (boot_entries [?e]) \<and> \<not> list_ex (entry_covers 2 a) (boot_entries [?e]))"
    "physical_pages u = min 0x40000 (sum_list (map (entry_pages \<circ> entry_of) (boot_entries [?e])) + 256)"
    using bios_map_reports [where p = "0x1000" and len = 24 and s = boot_example and es = "[?e]"] by auto
  then show ?thesis
    by (simp add: boot_entries_def entry_covers_def entry_pages_def entry_of_def
      MULTIBOOT_MEMORY_AVAILABLE_def PAGE_MASK_def PAGE_SIZE_def)
qed

end
