(* ===== verification/Device.thy ===== *)
theory Device
  imports Tty
begin

text \<open>
  Devices: the types of \<open>src/include/drivers/dev/device.h\<close> and \<open>src/include/fs/ops.h\<close>, the bitmap of minor numbers,
  the two devices that \<open>console.c\<close> registers, and \<open>device_register\<close> of \<open>src/drivers/src/dev/device.c\<close>, which does nothing yet. A pointer
  to a function of the source is its name.
\<close>

section \<open>Types\<close>

type_synonym fn_ptr = "string option"

record fs_operations_t =
  fo_flags :: int
  fo_fsdev :: int
  fo_open :: fn_ptr
  fo_close :: fn_ptr
  fo_read :: fn_ptr
  fo_write :: fn_ptr
  fo_ioctl :: fn_ptr
  fo_llseek :: fn_ptr
  fo_readdir :: fn_ptr
  fo_readdir64 :: fn_ptr
  fo_mmap :: fn_ptr
  fo_select :: fn_ptr
  fo_readlink :: fn_ptr
  fo_followlink :: fn_ptr
  fo_bmap :: fn_ptr
  fo_lookup :: fn_ptr
  fo_rmdir :: fn_ptr
  fo_link :: fn_ptr
  fo_unlink :: fn_ptr
  fo_symlink :: fn_ptr
  fo_mkdir :: fn_ptr
  fo_mknod :: fn_ptr
  fo_truncate :: fn_ptr
  fo_create :: fn_ptr
  fo_rename :: fn_ptr
  fo_read_block :: fn_ptr
  fo_write_block :: fn_ptr
  fo_read_inode :: fn_ptr
  fo_write_inode :: fn_ptr
  fo_ialloc :: fn_ptr
  fo_ifree :: fn_ptr
  fo_statfs :: fn_ptr
  fo_read_superblock :: fn_ptr
  fo_remount_fs :: fn_ptr
  fo_write_superblock :: fn_ptr
  fo_release_superblock :: fn_ptr

datatype devtype_t = DEVTYPE_CHAR | DEVTYPE_BLOCK

record device_t =
  dv_name :: string
  dv_major :: u8
  dv_minors :: "nat \<Rightarrow> u32"
  dv_minor_block_sizes :: "u32 option"
  dv_device_data :: "u32 option"
  dv_requests_queue :: "u32 option"
  dv_xfer_data :: "u32 option"
  dv_next :: "u32 option"
  dv_fs_ops :: fs_operations_t

section \<open>Minor numbers\<close>

definition DEVICE_SET_MINOR :: "(nat \<Rightarrow> u32) \<Rightarrow> nat \<Rightarrow> nat \<Rightarrow> u32" where
  "DEVICE_SET_MINOR minors b = minors(b div 32 := minors (b div 32) OR push_bit (b mod 32) 1)"

definition DEVICE_CLEAR_MINOR :: "(nat \<Rightarrow> u32) \<Rightarrow> nat \<Rightarrow> nat \<Rightarrow> u32" where
  "DEVICE_CLEAR_MINOR minors b = minors(b div 32 := minors (b div 32) AND NOT (push_bit (b mod 32) 1))"

definition DEVICE_TEST_MINOR :: "(nat \<Rightarrow> u32) \<Rightarrow> nat \<Rightarrow> u32" where
  "DEVICE_TEST_MINOR minors b = minors (b div 32) AND push_bit (b mod 32) 1"

section \<open>The devices of the consoles\<close>

definition no_fs_ops :: fs_operations_t where
  "no_fs_ops = \<lparr>fo_flags = 0, fo_fsdev = 0, fo_open = None, fo_close = None, fo_read = None, fo_write = None,
     fo_ioctl = None, fo_llseek = None, fo_readdir = None, fo_readdir64 = None, fo_mmap = None, fo_select = None,
     fo_readlink = None, fo_followlink = None, fo_bmap = None, fo_lookup = None, fo_rmdir = None, fo_link = None,
     fo_unlink = None, fo_symlink = None, fo_mkdir = None, fo_mknod = None, fo_truncate = None, fo_create = None,
     fo_rename = None, fo_read_block = None, fo_write_block = None, fo_read_inode = None, fo_write_inode = None,
     fo_ialloc = None, fo_ifree = None, fo_statfs = None, fo_read_superblock = None, fo_remount_fs = None,
     fo_write_superblock = None, fo_release_superblock = None\<rparr>"

definition tty_driver_fs_ops :: fs_operations_t where
  "tty_driver_fs_ops = no_fs_ops\<lparr>fo_read := Some ''tty_read'', fo_write := Some ''tty_write''\<rparr>"

definition tty_device :: device_t where
  "tty_device = \<lparr>dv_name = ''vconsole'', dv_major = ucast VCONSOLE_MAJOR, dv_minors = (\<lambda>_. 0),
     dv_minor_block_sizes = None, dv_device_data = None, dv_requests_queue = None, dv_xfer_data = None,
     dv_next = None, dv_fs_ops = tty_driver_fs_ops\<rparr>"

definition console_device :: device_t where
  "console_device = \<lparr>dv_name = ''console'', dv_major = ucast SYSCON_MAJOR, dv_minors = (\<lambda>_. 0),
     dv_minor_block_sizes = None, dv_device_data = None, dv_requests_queue = None, dv_xfer_data = None,
     dv_next = None, dv_fs_ops = tty_driver_fs_ops\<rparr>"

definition device_register :: "devtype_t \<Rightarrow> device_t \<Rightarrow> 's \<Rightarrow> retval_t \<times> 's" where
  "device_register type new_dev s = (RET_OK, s)"

section \<open>The bitmap is a set of numbers\<close>

definition minor_set :: "(nat \<Rightarrow> u32) \<Rightarrow> nat set" where
  "minor_set minors = {n. n < 256 \<and> bit (minors (n div 32)) (n mod 32)}"

lemma same_minor: "n div 32 = b div 32 \<Longrightarrow> n mod 32 = b mod 32 \<longleftrightarrow> n = (b :: nat)"
  by (metis div_mult_mod_eq)

text \<open>The three macros insert into, delete from and look up in the set of the numbers below 256 whose bit is set.\<close>

theorem minors_refine_set:
  assumes "b < 256"
  shows "minor_set (DEVICE_SET_MINOR m b) = insert b (minor_set m) \<and>
    minor_set (DEVICE_CLEAR_MINOR m b) = minor_set m - {b} \<and>
    (DEVICE_TEST_MINOR m b \<noteq> 0) = (b \<in> minor_set m)"
proof (intro conjI)
  have "(n \<in> minor_set (DEVICE_SET_MINOR m b)) = (n \<in> insert b (minor_set m))" for n
    using assms same_minor [of n b] by (auto simp: minor_set_def DEVICE_SET_MINOR_def bit_or_iff bit_exp_iff)
  then show "minor_set (DEVICE_SET_MINOR m b) = insert b (minor_set m)" by blast
  have "(n \<in> minor_set (DEVICE_CLEAR_MINOR m b)) = (n \<in> minor_set m - {b})" for n
    using same_minor [of n b] by (auto simp: minor_set_def DEVICE_CLEAR_MINOR_def bit_and_iff bit_not_iff bit_exp_iff)
  then show "minor_set (DEVICE_CLEAR_MINOR m b) = minor_set m - {b}" by blast
  show "(DEVICE_TEST_MINOR m b \<noteq> 0) = (b \<in> minor_set m)"
    using assms by (auto simp: DEVICE_TEST_MINOR_def minor_set_def word_and_0_bits bit_exp_iff)
qed

theorem minors_refine_set_witness:
  "minor_set (DEVICE_SET_MINOR (DEVICE_SET_MINOR (\<lambda>_. 0) 255) 31) = {31, 255} \<and>
   DEVICE_TEST_MINOR (DEVICE_CLEAR_MINOR (\<lambda>_. 0xFFFFFFFF) 31) 31 = 0"
proof -
  have "minor_set (\<lambda>_. 0) = {}" by (simp add: minor_set_def)
  moreover have "31 \<notin> minor_set (DEVICE_CLEAR_MINOR (\<lambda>_. 0xFFFFFFFF) 31)"
    using minors_refine_set [of 31 "\<lambda>_. 0xFFFFFFFF"] by simp
  ultimately show ?thesis
    using minors_refine_set [of 255 "\<lambda>_. 0"] minors_refine_set [of 31 "DEVICE_SET_MINOR (\<lambda>_. 0) 255"]
      minors_refine_set [of 31 "DEVICE_CLEAR_MINOR (\<lambda>_. 0xFFFFFFFF) 31"] by auto
qed

lemma byte_bits: "w < (256 :: u16) \<Longrightarrow> 8 \<le> n \<Longrightarrow> \<not> bit w n"
proof -
  assume w: "w < 256" and n: "8 \<le> n"
  have "unat (take_bit 8 w) = unat w"
    using w by (simp add: unsigned_take_bit_eq take_bit_nat_eq_self word_less_nat_alt)
  then have "take_bit 8 w = w" by (rule unsigned_word_eqI)
  then show "\<not> bit w n" using n by (metis bit_take_bit_iff linorder_not_le)
qed

text \<open>A device number is put together from a major and a minor number of a byte each, and taken apart again.\<close>

theorem device_number_roundtrip:
  assumes "major < 256" "minor < 256"
  shows "DEVICE_MAJOR (DEVICE_MKDEV major minor) = major \<and> DEVICE_MINOR (DEVICE_MKDEV major minor) = minor"
proof -
  have "\<not> bit major n" "\<not> bit minor n" if "8 \<le> n" for n using assms that byte_bits by auto
  note high = this
  have m: "bit (0xFF :: u16) n \<longleftrightarrow> n < 8" for n
    using bit_mask_iff [of 8 n, where 'a = u16] by (auto simp: mask_numeral)
  have "bit (DEVICE_MAJOR (DEVICE_MKDEV major minor)) n = bit major n" if "n < 16" for n
    using high [of "8 + n"] high [of n] that by (cases "n < 8") (auto simp: DEVICE_MAJOR_def DEVICE_MKDEV_def bit_simps)
  moreover have "bit (DEVICE_MINOR (DEVICE_MKDEV major minor)) n = bit minor n" if "n < 16" for n
    using high [of n] that unfolding DEVICE_MINOR_def DEVICE_MKDEV_def bit_and_iff m by (cases "n < 8") (auto simp: bit_simps)
  ultimately show ?thesis by (auto intro!: bit_word_eqI)
qed

theorem device_number_roundtrip_witness:
  "DEVICE_MAJOR (DEVICE_MKDEV 0xAB 0xCD) = 0xAB \<and> DEVICE_MINOR (DEVICE_MKDEV 0xAB 0xCD) = 0xCD"
  by (rule device_number_roundtrip) simp_all

end
