(* ===== verification/Ps2.thy ===== *)
theory Ps2
  imports Prelude
begin

text \<open>
  The PS/2 controller, \<open>src/drivers/src/dev/char/ps2.c\<close> with \<open>src/include/drivers/dev/char/ps2.h\<close>. The
  state keeps the reads and writes of the ports in order. The device is an argument: \<open>pd_read\<close> is the
  value that a read of a port answers after that history, and \<open>pd_irq\<close> says whether the keyboard interrupt
  takes an acknowledgement off the data port at that point, which sets \<open>ack\<close>. The delays of the code have no
  effect on the state.
\<close>

section \<open>State\<close>

datatype port_op = PRd u16 u8 | PWr u16 u8

record ps2_state =
  plog :: "port_op list"
  ack :: u8

record ps2_dev =
  pd_read :: "port_op list \<Rightarrow> u16 \<Rightarrow> u8"
  pd_irq :: "port_op list \<Rightarrow> bool"

definition PS2_DATA_PORT :: u16 where "PS2_DATA_PORT = 0x60"
definition PS2_COMMAND_PORT :: u16 where "PS2_COMMAND_PORT = 0x64"
definition PS2_STATUS_PORT :: u16 where "PS2_STATUS_PORT = 0x64"
definition PS2_STAT_OUTBUSY :: u8 where "PS2_STAT_OUTBUSY = 1"
definition PS2_STAT_INBUSY :: u8 where "PS2_STAT_INBUSY = 2"
definition PS2_CMD_RECV_CONFIG :: u8 where "PS2_CMD_RECV_CONFIG = 0x20"
definition PS2_CMD_SEND_CONFIG :: u8 where "PS2_CMD_SEND_CONFIG = 0x60"
definition PS2_CMD_ENABLE_CH1 :: u8 where "PS2_CMD_ENABLE_CH1 = 0xAE"
definition PS2_CMD_DISABLE_CH1 :: u8 where "PS2_CMD_DISABLE_CH1 = 0xAD"
definition PS2_CMD_TEST_CH1 :: u8 where "PS2_CMD_TEST_CH1 = 0xAB"
definition PS2_CMD_ENABLE_CH2 :: u8 where "PS2_CMD_ENABLE_CH2 = 0xA8"
definition PS2_CMD_DISABLE_CH2 :: u8 where "PS2_CMD_DISABLE_CH2 = 0xA7"
definition PS2_CMD_TEST_CH2 :: u8 where "PS2_CMD_TEST_CH2 = 0xA9"
definition PS2_CMD_SELF_TEST :: u8 where "PS2_CMD_SELF_TEST = 0xAA"
definition PS2_CMD_GET_IFACE :: u8 where "PS2_CMD_GET_IFACE = 0xCA"
definition PS2_KB_SETLED :: u8 where "PS2_KB_SETLED = 0xED"
definition PS2_KB_GETSETSCAN :: u8 where "PS2_KB_GETSETSCAN = 0xF0"
definition PS2_DEV_IDENTIFY :: u8 where "PS2_DEV_IDENTIFY = 0xF2"
definition PS2_DEV_RATE :: u8 where "PS2_DEV_RATE = 0xF3"
definition PS2_DEV_ENABLE :: u8 where "PS2_DEV_ENABLE = 0xF4"
definition PS2_KB_DISABLE :: u8 where "PS2_KB_DISABLE = 0xF5"
definition PS2_DEV_RESET :: u8 where "PS2_DEV_RESET = 0xFF"
definition DEV_ACK :: u8 where "DEV_ACK = 0xFA"
definition PS2_TIMEOUT :: nat where "PS2_TIMEOUT = 500000"

text \<open>\<open>inb\<close> and \<open>outb\<close>, and the interrupt that may come before a poll.\<close>

definition ps2_inb :: "ps2_dev \<Rightarrow> u16 \<Rightarrow> ps2_state \<Rightarrow> u8 \<times> ps2_state" where
  "ps2_inb dev port s =
     (let v = pd_read dev (plog s) port in (v, s\<lparr>plog := plog s @ [PRd port v]\<rparr>))"

definition ps2_outb :: "u16 \<Rightarrow> u8 \<Rightarrow> ps2_state \<Rightarrow> ps2_state" where
  "ps2_outb port v s = s\<lparr>plog := plog s @ [PWr port v]\<rparr>"

definition ps2_irq :: "ps2_dev \<Rightarrow> ps2_state \<Rightarrow> ps2_state" where
  "ps2_irq dev s = (if pd_irq dev (plog s) then s\<lparr>plog := plog s @ [PRd PS2_DATA_PORT DEV_ACK], ack := 1\<rparr> else s)"

section \<open>Operations\<close>

text \<open>The loops have the number of iterations left as their argument.\<close>

primrec ready_read_loop :: "ps2_dev \<Rightarrow> nat \<Rightarrow> ps2_state \<Rightarrow> bool \<times> ps2_state" where
  "ready_read_loop dev 0 s = (False, s)"
| "ready_read_loop dev (Suc n) s =
     (let s = ps2_irq dev s
      in if ack s \<noteq> 0 then (True, s)
         else
           (let (v, s) = ps2_inb dev PS2_STATUS_PORT s
            in if v AND PS2_STAT_OUTBUSY \<noteq> 0 then (True, s) else ready_read_loop dev n s))"

definition is_ready_to_read :: "ps2_dev \<Rightarrow> ps2_state \<Rightarrow> bool \<times> ps2_state" where
  "is_ready_to_read dev s = ready_read_loop dev PS2_TIMEOUT s"

primrec ready_write_loop :: "ps2_dev \<Rightarrow> nat \<Rightarrow> ps2_state \<Rightarrow> bool \<times> ps2_state" where
  "ready_write_loop dev 0 s = (False, s)"
| "ready_write_loop dev (Suc n) s =
     (let (v, s) = ps2_inb dev PS2_STATUS_PORT s
      in if v AND PS2_STAT_INBUSY = 0 then (True, s) else ready_write_loop dev n s)"

definition is_ready_to_write :: "ps2_dev \<Rightarrow> ps2_state \<Rightarrow> bool \<times> ps2_state" where
  "is_ready_to_write dev s = ready_write_loop dev PS2_TIMEOUT s"

primrec await_ack_loop :: "ps2_dev \<Rightarrow> nat \<Rightarrow> ps2_state \<Rightarrow> bool \<times> ps2_state" where
  "await_ack_loop dev 0 s = (False, s)"
| "await_ack_loop dev (Suc n) s =
     (let (v, s) = ps2_inb dev PS2_DATA_PORT s
      in if v = DEV_ACK then (True, s) else await_ack_loop dev n s)"

definition ps2_await_ack :: "ps2_dev \<Rightarrow> ps2_state \<Rightarrow> bool \<times> ps2_state" where
  "ps2_await_ack dev s =
     (let (ready, s) = is_ready_to_read dev s
      in if ready then await_ack_loop dev 1000 s else (False, s))"

definition ps2_read :: "ps2_dev \<Rightarrow> u16 \<Rightarrow> ps2_state \<Rightarrow> u8 \<times> ps2_state" where
  "ps2_read dev port s =
     (let (ready, s) = is_ready_to_read dev s
      in if ready then ps2_inb dev port s else (0, s))"

definition ps2_write :: "ps2_dev \<Rightarrow> u16 \<Rightarrow> u8 \<Rightarrow> ps2_state \<Rightarrow> ps2_state" where
  "ps2_write dev port byte s =
     (let s = s\<lparr>ack := 0\<rparr>;
          (ready, s) = is_ready_to_write dev s
      in if ready then ps2_outb port byte s else s)"

definition ps2_set_leds :: "ps2_dev \<Rightarrow> u8 \<Rightarrow> ps2_state \<Rightarrow> ps2_state" where
  "ps2_set_leds dev led_status s =
     (let s = ps2_write dev PS2_DATA_PORT PS2_KB_SETLED s;
          (_, s) = ps2_await_ack dev s;
          s = ps2_write dev PS2_DATA_PORT led_status s;
          (_, s) = ps2_await_ack dev s
      in s)"

primrec clear_buffer_loop :: "ps2_dev \<Rightarrow> nat \<Rightarrow> ps2_state \<Rightarrow> ps2_state" where
  "clear_buffer_loop dev 0 s = s"
| "clear_buffer_loop dev (Suc n) s =
     (let (v, s) = ps2_inb dev PS2_STATUS_PORT s
      in if v AND PS2_STAT_OUTBUSY \<noteq> 0
         then (let (_, s) = ps2_read dev PS2_DATA_PORT s in clear_buffer_loop dev n s)
         else s)"

definition ps2_clear_buffer :: "ps2_dev \<Rightarrow> ps2_state \<Rightarrow> ps2_state" where
  "ps2_clear_buffer dev s = clear_buffer_loop dev 1000 s"

section \<open>Initialisation\<close>

text \<open>The second channel: enabled, looked for and disabled again.\<close>

definition ps2_probe_ch2 :: "ps2_dev \<Rightarrow> u8 \<Rightarrow> nat \<Rightarrow> ps2_state \<Rightarrow> nat \<times> ps2_state" where
  "ps2_probe_ch2 dev config supported s =
     (let s = ps2_write dev PS2_COMMAND_PORT PS2_CMD_ENABLE_CH2 s;
          s = ps2_write dev PS2_COMMAND_PORT PS2_CMD_RECV_CONFIG s;
          (v, s) = ps2_read dev PS2_DATA_PORT s;
          supported = (if v AND 0x20 = 0 \<and> config AND 0x20 \<noteq> 0 then supported + 1 else supported);
          s = ps2_write dev PS2_COMMAND_PORT PS2_CMD_DISABLE_CH2 s
      in (supported, s))"

text \<open>The tests of the channels, whose answers are not used.\<close>

definition ps2_test_channels :: "ps2_dev \<Rightarrow> nat \<Rightarrow> ps2_state \<Rightarrow> ps2_state" where
  "ps2_test_channels dev supported s =
     (let s = ps2_write dev PS2_COMMAND_PORT PS2_CMD_TEST_CH1 s;
          (_, s) = ps2_read dev PS2_DATA_PORT s
      in if supported > 1
         then (let s = ps2_write dev PS2_COMMAND_PORT PS2_CMD_TEST_CH2 s;
                   (_, s) = ps2_read dev PS2_DATA_PORT s
               in s)
         else s)"

text \<open>The type of the controller: the translation bit is set, read back and restored.\<close>

definition ps2_probe_type :: "ps2_dev \<Rightarrow> ps2_state \<Rightarrow> ps2_state" where
  "ps2_probe_type dev s =
     (let s = ps2_write dev PS2_COMMAND_PORT PS2_CMD_RECV_CONFIG s;
          (config, s) = ps2_read dev PS2_DATA_PORT s;
          s = ps2_write dev PS2_COMMAND_PORT PS2_CMD_SEND_CONFIG s;
          s = ps2_write dev PS2_DATA_PORT (config OR 0x40) s;
          s = ps2_write dev PS2_COMMAND_PORT PS2_CMD_RECV_CONFIG s;
          (_, s) = ps2_read dev PS2_DATA_PORT s;
          s = ps2_write dev PS2_COMMAND_PORT PS2_CMD_SEND_CONFIG s
      in ps2_write dev PS2_DATA_PORT config s)"

definition ps2_final_config :: "nat \<Rightarrow> u8" where
  "ps2_final_config supported =
     (if supported \<noteq> 0 then (if supported > 1 then 0x01 OR 0x02 else 0x01) OR 0x40 else 0x10 + 0x20)"

text \<open>\<open>ps2_init\<close> but for the call of \<open>keyboard_init\<close> at its end; the result says whether it is reached.\<close>

definition ps2_setup :: "ps2_dev \<Rightarrow> ps2_state \<Rightarrow> bool \<times> ps2_state" where
  "ps2_setup dev s =
     (let s = ps2_write dev PS2_COMMAND_PORT PS2_CMD_DISABLE_CH1 s;
          s = ps2_write dev PS2_COMMAND_PORT PS2_CMD_DISABLE_CH2 s;
          (_, s) = ps2_inb dev PS2_DATA_PORT s;
          s = ps2_write dev PS2_COMMAND_PORT PS2_CMD_RECV_CONFIG s;
          (config, s) = ps2_read dev PS2_DATA_PORT s;
          s = ps2_write dev PS2_COMMAND_PORT PS2_CMD_SEND_CONFIG s;
          s = ps2_write dev PS2_DATA_PORT (config AND NOT (0x01 OR 0x02 OR 0x40)) s;
          s = ps2_write dev PS2_COMMAND_PORT PS2_CMD_SELF_TEST s;
          (errno, s) = ps2_read dev PS2_DATA_PORT s
      in if errno \<noteq> 0x55 then (False, s)
         else
           (let supported = 1;
                (supported, s) = (if config AND 0x20 \<noteq> 0 then ps2_probe_ch2 dev config supported s
                                  else (supported, s));
                s = ps2_test_channels dev supported s;
                s = ps2_probe_type dev s;
                s = ps2_write dev PS2_COMMAND_PORT PS2_CMD_SEND_CONFIG s;
                s = ps2_write dev PS2_DATA_PORT (ps2_final_config supported) s;
                s = ps2_clear_buffer dev s;
                s = ps2_write dev PS2_COMMAND_PORT PS2_CMD_GET_IFACE s;
                (_, s) = ps2_read dev PS2_DATA_PORT s
            in if supported \<noteq> 0 then (True, ps2_write dev PS2_COMMAND_PORT PS2_CMD_ENABLE_CH1 s)
               else (False, s)))"

section \<open>Writing to the controller\<close>

text \<open>The part of the history that \<open>ps2_write\<close> adds: polls of the status, all of them busy but for the
  last, after which the byte is written; or as many busy polls as the timeout allows, and no write.\<close>

definition busy_poll :: "port_op \<Rightarrow> bool" where
  "busy_poll e \<longleftrightarrow> (\<exists>v. e = PRd PS2_STATUS_PORT v \<and> v AND PS2_STAT_INBUSY \<noteq> 0)"

definition ready_poll :: "port_op \<Rightarrow> bool" where
  "ready_poll e \<longleftrightarrow> (\<exists>v. e = PRd PS2_STATUS_PORT v \<and> v AND PS2_STAT_INBUSY = 0)"

lemma ready_write_loop_log:
  assumes "ready_write_loop dev n s = (r, s')"
  shows "ack s' = ack s \<and> (\<exists>ps. (\<forall>e \<in> set ps. busy_poll e) \<and>
    (if r then (\<exists>e. ready_poll e \<and> plog s' = plog s @ ps @ [e] \<and> length ps < n)
     else plog s' = plog s @ ps \<and> length ps = n))"
  using assms
proof (induction n arbitrary: s)
  case 0
  then show ?case by auto
next
  case (Suc n)
  let ?v = "pd_read dev (plog s) PS2_STATUS_PORT"
  let ?e = "PRd PS2_STATUS_PORT ?v"
  let ?s = "s\<lparr>plog := plog s @ [?e]\<rparr>"
  show ?case
  proof (cases "?v AND PS2_STAT_INBUSY = 0")
    case True
    then have "r" "s' = ?s" using Suc.prems by (simp_all add: ps2_inb_def Let_def)
    moreover have "ready_poll ?e" using True by (simp add: ready_poll_def)
    ultimately show ?thesis by (auto intro!: exI [of _ "[]"])
  next
    case False
    then have "ready_write_loop dev n ?s = (r, s')" using Suc.prems by (simp add: ps2_inb_def Let_def)
    from Suc.IH [OF this] obtain ps where ps: "ack s' = ack s" "\<forall>e \<in> set ps. busy_poll e"
      "if r then (\<exists>e. ready_poll e \<and> plog s' = plog ?s @ ps @ [e] \<and> length ps < n)
       else plog s' = plog ?s @ ps \<and> length ps = n"
      by auto
    have "busy_poll ?e" using False by (simp add: busy_poll_def)
    then show ?thesis using ps by (intro conjI exI [of _ "?e # ps"]) (auto split: if_splits)
  qed
qed

text \<open>\<open>ps2_write\<close> always returns. It polls the status until the input buffer is free and then
  writes the byte, once; if the buffer stays busy for as many polls as the timeout allows, the byte is
  dropped without a sign of it. In both cases a pending acknowledgement is forgotten.\<close>

theorem ps2_write_waits:
  "ack (ps2_write dev port b s) = 0 \<and> (\<exists>ps. (\<forall>e \<in> set ps. busy_poll e) \<and>
    ((\<exists>e. ready_poll e \<and> length ps < 500000 \<and>
        plog (ps2_write dev port b s) = plog s @ ps @ [e, PWr port b]) \<or>
     (length ps = 500000 \<and> plog (ps2_write dev port b s) = plog s @ ps)))"
proof -
  obtain r s' where r: "ready_write_loop dev PS2_TIMEOUT (s\<lparr>ack := 0\<rparr>) = (r, s')" by fastforce
  note l = ready_write_loop_log [OF r]
  have w: "ps2_write dev port b s = (if r then ps2_outb port b s' else s')"
    by (simp add: ps2_write_def is_ready_to_write_def r)
  show ?thesis
  proof (cases r)
    case True
    then obtain ps e where "\<forall>e \<in> set ps. busy_poll e" "ready_poll e" "plog s' = plog s @ ps @ [e]"
      "length ps < PS2_TIMEOUT" "ack s' = 0"
      using l by auto
    then show ?thesis using w True by (auto simp: ps2_outb_def PS2_TIMEOUT_def)
  next
    case False
    then show ?thesis using l w by (auto simp: PS2_TIMEOUT_def)
  qed
qed

theorem ps2_write_waits_witness:
  "ack (ps2_write \<lparr>pd_read = (\<lambda>_ _. 2), pd_irq = (\<lambda>_. False)\<rparr> 0x60 0xED \<lparr>plog = [], ack = 1\<rparr>) = 0"
  using ps2_write_waits by blast

end
