(* ===== verification/Console.thy ===== *)
theory Console
  imports Device Line Ps2 CString
begin

text \<open>
  Virtual consoles: \<open>console.c\<close> and \<open>sysconsole.c\<close> of \<open>src/drivers/src/dev/char/console\<close>, with
  \<open>console.h\<close>, \<open>csi.h\<close> and \<open>sysconsole.h\<close> of \<open>src/include/drivers/dev/char/console\<close>. The state extends that
  of \<open>Tty\<close>; a console is an index into \<open>consoles\<close>, a pointer to a terminal an index into \<open>tty_table\<close>. The
  video driver behind the function pointers of \<open>video\<close> is the argument \<open>vid\<close>; the screen buffers are in
  the byte-addressed memory \<open>vmem\<close>.
\<close>

section \<open>State\<close>

datatype vt_mode_mod = VT_AUTO | VT_PROCESS

record vt_mode =
  vt_mod :: vt_mode_mod
  waitv :: u8
  relsig :: u16
  acqsig :: u16
  frsig :: u16

record vconsole =
  vc_tty :: "nat option"
  switch_tty :: int
  vc_vt_mode :: vt_mode
  vc_mode :: u8
  main_buffer :: u32
  back_buffer :: u32
  vc_flags :: u32
  tmp_storage_1 :: int
  tmp_storage_2 :: int
  tmp_storage_num_entries :: int
  tmp_storage :: "int list"
  has_esc :: bool
  has_bracket :: bool
  has_semicolon :: bool
  has_question :: bool
  vc_x :: int
  vc_y :: int
  saved_x :: int
  saved_y :: int
  vc_top :: int
  vc_rows :: int
  vc_columns :: int
  check_x :: bool
  scrlock_on :: bool
  numlock_on :: bool
  capslock_on :: bool
  color_attr :: u16
  vc_bold :: u8
  vc_underline :: u8
  vc_blink :: u8
  vc_reverse :: u8
  led_status :: u8

record video_props =
  vd_flags :: u32
  vd_address :: u32
  vd_port :: u16
  vd_memsize :: int
  vd_signature :: "u8 list"
  vd_lines :: int
  vd_columns :: int
  vd_rows :: int
  buf_y :: int
  buf_top :: int
  vd_version :: int
  vd_width :: int
  vd_height :: int
  vd_char_width :: int
  vd_char_height :: int
  vd_bpp :: int
  vd_pixelwidth :: int
  vd_pitch :: int
  vd_rowsize :: int
  vd_size :: int
  vd_vsize :: int

record sysconsole =
  sc_dev :: u16
  sc_tty :: "nat option"

record 'h con_state = "'h tty_state" +
  consoles :: "nat \<Rightarrow> vconsole"
  video :: video_props
  vmem :: mem
  ps2 :: ps2_state
  sysconsole_table :: "nat \<Rightarrow> sysconsole"
  vc_screen :: "nat \<Rightarrow> u32"
  console_minors :: "nat \<Rightarrow> u32"
  tty_minors :: "nat \<Rightarrow> u32"

record 's video_ops =
  v_put_char :: "nat \<Rightarrow> u8 \<Rightarrow> 's \<Rightarrow> 's option"
  v_insert_char :: "nat \<Rightarrow> 's \<Rightarrow> 's option"
  v_delete_char :: "nat \<Rightarrow> 's \<Rightarrow> 's option"
  v_update_cursor_pos :: "nat \<Rightarrow> 's \<Rightarrow> 's option"
  v_show_cursor :: "nat \<Rightarrow> int \<Rightarrow> 's \<Rightarrow> 's option"
  v_get_cursor_pos :: "nat \<Rightarrow> 's \<Rightarrow> 's option"
  v_write_screen :: "nat \<Rightarrow> int \<Rightarrow> int \<Rightarrow> u16 \<Rightarrow> 's \<Rightarrow> 's option"
  v_clear_screen :: "nat \<Rightarrow> 's \<Rightarrow> 's option"
  v_scroll_screen :: "nat \<Rightarrow> int \<Rightarrow> int \<Rightarrow> 's \<Rightarrow> 's option"
  v_restore_screen :: "nat \<Rightarrow> 's \<Rightarrow> 's option"
  v_screen_on :: "nat \<Rightarrow> 's \<Rightarrow> 's option"
  v_buf_scroll :: "nat \<Rightarrow> int \<Rightarrow> 's \<Rightarrow> 's option"
  v_cursor_blink :: "nat \<Rightarrow> 's \<Rightarrow> 's option"

text \<open>All fields zero, as \<open>kmemset\<close> leaves them.\<close>

definition zero_video :: video_props where
  "zero_video = \<lparr>vd_flags = 0, vd_address = 0, vd_port = 0, vd_memsize = 0, vd_signature = replicate 32 0, vd_lines = 0,
     vd_columns = 0, vd_rows = 0, buf_y = 0, buf_top = 0, vd_version = 0, vd_width = 0, vd_height = 0,
     vd_char_width = 0, vd_char_height = 0, vd_bpp = 0, vd_pixelwidth = 0, vd_pitch = 0, vd_rowsize = 0, vd_size = 0,
     vd_vsize = 0\<rparr>"

definition NUM_CONSOLES :: nat where "NUM_CONSOLES = 12"
definition NUM_SYSCONSOLES :: nat where "NUM_SYSCONSOLES = 1"
definition CONSOLE_HAS_FOCUS :: u32 where "CONSOLE_HAS_FOCUS = 1"
definition CONSOLE_CLEARED :: u32 where "CONSOLE_CLEARED = 2"
definition DEFAULT_MODE :: u16 where "DEFAULT_MODE = 0x0700"
definition CLEAR_MEM :: u16 where "CLEAR_MEM = 0x0720"
definition CURSOR_MODE_OFF :: int where "CURSOR_MODE_OFF = 0"
definition CURSOR_MODE_ON :: int where "CURSOR_MODE_ON = 1"
definition CURSOR_MODE_COND :: int where "CURSOR_MODE_COND = 2"
definition TMP_STORAGE_SIZE :: nat where "TMP_STORAGE_SIZE = 16"
definition CONS_SCROLL_UP :: int where "CONS_SCROLL_UP = 1"
definition CONS_SCROLL_DOWN :: int where "CONS_SCROLL_DOWN = 2"
definition TAB_SIZE :: nat where "TAB_SIZE = 8"
definition KD_TEXT :: u8 where "KD_TEXT = 0"
definition LED_SCRLBIT :: u8 where "LED_SCRLBIT = 1"
definition LED_NUMSBIT :: u8 where "LED_NUMSBIT = 2"
definition LED_CAPSBIT :: u8 where "LED_CAPSBIT = 4"
definition VIDEO_MODE_VGA_TXT :: u32 where "VIDEO_MODE_VGA_TXT = 1"
definition VIDEO_MODE_VESAFB :: u32 where "VIDEO_MODE_VESAFB = 2"

definition upd_vc :: "nat \<Rightarrow> (vconsole \<Rightarrow> vconsole) \<Rightarrow> ('h, 'z) con_state_scheme \<Rightarrow> ('h, 'z) con_state_scheme" where
  "upd_vc c f s = s\<lparr>consoles := (consoles s)(c := f (consoles s c))\<rparr>"

definition CONSOLE_SIZE :: "('h, 'z) con_state_scheme \<Rightarrow> int" where
  "CONSOLE_SIZE s = vd_columns (video s) * vd_lines (video s)"

definition video_using_vga :: "('h, 'z) con_state_scheme \<Rightarrow> bool" where
  "video_using_vga s \<longleftrightarrow> vd_flags (video s) AND VIDEO_MODE_VGA_TXT \<noteq> 0"

definition video_using_vesa_framebuffer :: "('h, 'z) con_state_scheme \<Rightarrow> bool" where
  "video_using_vesa_framebuffer s \<longleftrightarrow> vd_flags (video s) AND VIDEO_MODE_VESAFB \<noteq> 0"

text \<open>An operation of the PS/2 controller inside the state.\<close>

definition on_ps2 :: "(ps2_state \<Rightarrow> ps2_state) \<Rightarrow> ('h, 'z) con_state_scheme \<Rightarrow> ('h, 'z) con_state_scheme" where
  "on_ps2 f s = s\<lparr>ps2 := f (ps2 s)\<rparr>"

section \<open>Control sequences\<close>

text \<open>\<open>while (count--) f();\<close> on a signed \<open>count\<close>. From a negative count the decrement overflows in the end.\<close>

partial_function (option) c_repeat :: "('s \<Rightarrow> 's option) \<Rightarrow> int \<Rightarrow> 's \<Rightarrow> 's option" where
  "c_repeat f count s =
     (if count = 0 then Some s
      else do {
        count \<leftarrow> to_int (count - 1);
        s \<leftarrow> f s;
        c_repeat f count s
      })"

definition csi_J ::
    "(('h, 'z) con_state_scheme) video_ops \<Rightarrow> nat \<Rightarrow> int \<Rightarrow> ('h, 'z) con_state_scheme \<Rightarrow>
     ('h, 'z) con_state_scheme option" where
  "csi_J vid c mode s =
     (let vc = consoles s c
      in if mode = 0 then do {
           s \<leftarrow> v_write_screen vid c (vc_y vc * vc_columns vc + vc_x vc) (vc_columns vc - vc_x vc) (color_attr vc) s;
           let vc = consoles s c;
           let from = (vc_y vc + 1) * vc_columns vc;
           v_write_screen vid c from (CONSOLE_SIZE s - from) (color_attr vc) s
         }
         else if mode = 1 then do {
           s \<leftarrow> v_write_screen vid c (vc_y vc * vc_columns vc) (vc_x vc + 1) (color_attr vc) s;
           let vc = consoles s c;
           v_write_screen vid c 0 (vc_y vc * vc_columns vc) (color_attr vc) s
         }
         else if mode = 2 then v_write_screen vid c 0 (CONSOLE_SIZE s) (color_attr vc) s
         else Some s)"

definition csi_K ::
    "(('h, 'z) con_state_scheme) video_ops \<Rightarrow> nat \<Rightarrow> int \<Rightarrow> ('h, 'z) con_state_scheme \<Rightarrow>
     ('h, 'z) con_state_scheme option" where
  "csi_K vid c mode s =
     (let vc = consoles s c
      in if mode = 0 then
           v_write_screen vid c (vc_y vc * vc_columns vc + vc_x vc) (vc_columns vc - vc_x vc) (color_attr vc) s
         else if mode = 1 then
           v_write_screen vid c (vc_y vc * vc_columns vc) (vc_x vc + 1) (color_attr vc) s
         else if mode = 2 then
           v_write_screen vid c (vc_y vc * vc_columns vc) (vc_columns vc) (color_attr vc) s
         else Some s)"

definition csi_X ::
    "(('h, 'z) con_state_scheme) video_ops \<Rightarrow> nat \<Rightarrow> int \<Rightarrow> ('h, 'z) con_state_scheme \<Rightarrow>
     ('h, 'z) con_state_scheme option" where
  "csi_X vid c count s =
     (let vc = consoles s c;
          from = vc_y vc * vc_columns vc + vc_x vc;
          count = (if count > vc_columns vc - vc_x vc then vc_columns vc - vc_x vc else count)
      in v_write_screen vid c from count (color_attr vc) s)"

definition csi_L ::
    "(('h, 'z) con_state_scheme) video_ops \<Rightarrow> nat \<Rightarrow> int \<Rightarrow> ('h, 'z) con_state_scheme \<Rightarrow>
     ('h, 'z) con_state_scheme option" where
  "csi_L vid c count s =
     (let vc = consoles s c;
          count = (if count > vc_rows vc - vc_top vc then vc_rows vc - vc_top vc else count)
      in c_repeat (\<lambda>s. v_scroll_screen vid c (vc_y (consoles s c)) CONS_SCROLL_DOWN s) count s)"

definition csi_M ::
    "(('h, 'z) con_state_scheme) video_ops \<Rightarrow> nat \<Rightarrow> int \<Rightarrow> ('h, 'z) con_state_scheme \<Rightarrow>
     ('h, 'z) con_state_scheme option" where
  "csi_M vid c count s =
     (let vc = consoles s c;
          count = (if count > vc_rows vc - vc_top vc then vc_rows vc - vc_top vc else count)
      in c_repeat (\<lambda>s. v_scroll_screen vid c (vc_y (consoles s c)) CONS_SCROLL_UP s) count s)"

definition csi_P ::
    "(('h, 'z) con_state_scheme) video_ops \<Rightarrow> nat \<Rightarrow> int \<Rightarrow> ('h, 'z) con_state_scheme \<Rightarrow>
     ('h, 'z) con_state_scheme option" where
  "csi_P vid c count s =
     (let count = (if count > vc_columns (consoles s c) then vc_columns (consoles s c) else count)
      in c_repeat (v_delete_char vid c) count s)"

definition csi_at ::
    "(('h, 'z) con_state_scheme) video_ops \<Rightarrow> nat \<Rightarrow> int \<Rightarrow> ('h, 'z) con_state_scheme \<Rightarrow>
     ('h, 'z) con_state_scheme option" where
  "csi_at vid c count s =
     (let count = (if count > vc_columns (consoles s c) then vc_columns (consoles s c) else count)
      in c_repeat (v_insert_char vid c) count s)"

section \<open>The operations of a terminal's console\<close>

definition is_vconsole :: "u16 \<Rightarrow> bool" where
  "is_vconsole dev \<longleftrightarrow> DEVICE_MAJOR dev = VCONSOLE_MAJOR \<and> DEVICE_MINOR dev \<le> of_nat NUM_CONSOLES"

definition set_default_color_attr :: "vconsole \<Rightarrow> vconsole" where
  "set_default_color_attr vc = vc\<lparr>color_attr := DEFAULT_MODE, vc_bold := 0, vc_underline := 0, vc_blink := 0,
     vc_reverse := 0\<rparr>"

definition init_vt_mode :: "nat \<Rightarrow> ('h, 'z) con_state_scheme \<Rightarrow> ('h, 'z) con_state_scheme option" where
  "init_vt_mode c s = do {
     let s = upd_vc c (\<lambda>vc. vc\<lparr>vc_vt_mode := \<lparr>vt_mod = VT_AUTO, waitv = 0, relsig = 0, acqsig = 0, frsig = 0\<rparr>\<rparr>) s;
     let s = upd_vc c (\<lambda>vc. vc\<lparr>vc_mode := KD_TEXT\<rparr>) s;
     t \<leftarrow> vc_tty (consoles s c);
     let s = upd_tty t (\<lambda>x. x\<lparr>tty_pid := 0\<rparr>) s;
     Some (upd_vc c (\<lambda>vc. vc\<lparr>switch_tty := - 1\<rparr>) s)
   }"

definition vconsole_start :: "ps2_dev \<Rightarrow> nat \<Rightarrow> ('h, 'z) con_state_scheme \<Rightarrow> ('h, 'z) con_state_scheme" where
  "vconsole_start dev t s =
     (let c = tty_data (tty_table s t)
      in if \<not> scrlock_on (consoles s c) then s
         else
           (let s = upd_vc c (\<lambda>vc. vc\<lparr>led_status := led_status vc AND NOT LED_SCRLBIT\<rparr>) s;
                s = upd_vc c (\<lambda>vc. vc\<lparr>scrlock_on := False\<rparr>) s
            in on_ps2 (ps2_set_leds dev (led_status (consoles s c))) s))"

definition vconsole_stop :: "ps2_dev \<Rightarrow> nat \<Rightarrow> ('h, 'z) con_state_scheme \<Rightarrow> ('h, 'z) con_state_scheme" where
  "vconsole_stop dev t s =
     (let c = tty_data (tty_table s t)
      in if scrlock_on (consoles s c) then s
         else
           (let s = upd_vc c (\<lambda>vc. vc\<lparr>led_status := led_status vc OR LED_SCRLBIT\<rparr>) s;
                s = upd_vc c (\<lambda>vc. vc\<lparr>scrlock_on := True\<rparr>) s
            in on_ps2 (ps2_set_leds dev (led_status (consoles s c))) s))"

text \<open>\<open>while (!tab_stop[++col]);\<close>\<close>

partial_function (option) next_tab :: "bool list \<Rightarrow> int \<Rightarrow> int option" where
  "next_tab stops col = do {
     let col = col + 1;
     require (0 \<le> col \<and> nat col < length stops);
     if stops ! nat col then Some col else next_tab stops col
   }"

text \<open>The column that the characters of the cooked queue end at.\<close>

partial_function (option) tab_block ::
    "nat \<Rightarrow> nat \<Rightarrow> u32 \<Rightarrow> nat \<Rightarrow> int \<Rightarrow> ('h, 'z) con_state_scheme \<Rightarrow> int option" where
  "tab_block t c cb i col s =
     (if i < unat (next_write_index (cblocks (chars s) cb)) then do {
        col \<leftarrow> (if i \<ge> unat (next_read_index (cblocks (chars s) cb)) then do {
            require (i < length (cb_data (cblocks (chars s) cb)));
            let ch = cb_data (cblocks (chars s) cb) ! i;
            col \<leftarrow> (if ch = 9 then do {
                tt \<leftarrow> vc_tty (consoles s c);
                next_tab (tab_stop (tty_table s tt)) col
              } else do {
                e \<leftarrow> echoes_ctrl (tty_table s t) ch;
                Some (if e then col + 2 else col + 1)
              });
            c_mod col (vc_columns (consoles s c))
          } else Some col);
        tab_block t c cb (i + 1) col s
      } else Some col)"

partial_function (option) tab_blocks ::
    "nat \<Rightarrow> nat \<Rightarrow> u32 option \<Rightarrow> int \<Rightarrow> ('h, 'z) con_state_scheme \<Rightarrow> int option" where
  "tab_blocks t c cb col s = (case cb of
       None \<Rightarrow> Some col
     | Some b \<Rightarrow> do {
         col \<leftarrow> tab_block t c b 0 col s;
         tab_blocks t c (cb_next (cblocks (chars s) b)) col s
       })"

primrec put_backspaces ::
    "('h, ('h, 'z) con_state_scheme) tty_env \<Rightarrow> nat \<Rightarrow> nat \<Rightarrow> ('h, 'z) con_state_scheme \<Rightarrow>
     ('h, 'z) con_state_scheme option" where
  "put_backspaces env t 0 s = Some s"
| "put_backspaces env t (Suc n) s = do { (_, s) \<leftarrow> put_write env t 8 s; put_backspaces env t n s }"

definition vconsole_delete_tab ::
    "('h, ('h, 'z) con_state_scheme) tty_env \<Rightarrow> nat \<Rightarrow> ('h, 'z) con_state_scheme \<Rightarrow>
     ('h, 'z) con_state_scheme option" where
  "vconsole_delete_tab env t s = do {
     let c = tty_data (tty_table s t);
     col \<leftarrow> tab_blocks t c (q_head (cooked_q (tty_table s t))) 0 s;
     let count = (word_of_int (vc_x (consoles s c) - col) :: u8);
     put_backspaces env t (unat count) s
   }"

definition vconsole_reset ::
    "(('h, 'z) con_state_scheme) video_ops \<Rightarrow> ps2_dev \<Rightarrow> nat \<Rightarrow> ('h, 'z) con_state_scheme \<Rightarrow>
     ('h, 'z) con_state_scheme option" where
  "vconsole_reset vid dev t s = do {
     let c = tty_data (tty_table s t);
     let s = upd_vc c (\<lambda>vc. vc\<lparr>vc_top := 0, vc_rows := vd_lines (video s), vc_columns := vd_columns (video s),
               check_x := False, led_status := 0\<rparr>) s;
     let s = on_ps2 (ps2_set_leds dev (led_status (consoles s c))) s;
     let s = upd_vc c (\<lambda>vc. vc\<lparr>scrlock_on := False, numlock_on := False, capslock_on := False, has_esc := False,
               has_bracket := False, has_semicolon := False, has_question := False, tmp_storage_1 := 0,
               tmp_storage_2 := 0, tmp_storage_num_entries := 0, tmp_storage := replicate TMP_STORAGE_SIZE 0\<rparr>) s;
     let s = upd_vc c set_default_color_attr s;
     let s = upd_vc c (\<lambda>vc. vc\<lparr>saved_x := 0, saved_y := 0\<rparr>) s;
     tt \<leftarrow> vc_tty (consoles s c);
     let s = upd_tty tt (\<lambda>x. x\<lparr>tab_stop := map (\<lambda>n. n mod TAB_SIZE = 0) [0..<MAX_TAB_COLS]\<rparr>) s;
     let s = termios_reset t s;
     let vc = consoles s c;
     let s = upd_tty tt (\<lambda>x. x\<lparr>win := \<lparr>ws_row = word_of_int (vc_rows vc - vc_top vc), ws_col = word_of_int (vc_columns vc),
               ws_xpixel = 0, ws_ypixel = 0\<rparr>, tty_flags := 0\<rparr>) s;
     s \<leftarrow> init_vt_mode c s;
     let s = upd_vc c (\<lambda>vc. vc\<lparr>vc_flags := vc_flags vc AND NOT CONSOLE_CLEARED\<rparr>) s;
     v_update_cursor_pos vid c s
   }"

section \<open>Output\<close>

definition IS_NUMERIC :: "u8 \<Rightarrow> bool" where "IS_NUMERIC ch \<longleftrightarrow> ch \<ge> 48 \<and> ch \<le> 57"

text \<open>\<open>v *= 10; v += ch - '0';\<close>\<close>

definition add_digit :: "int \<Rightarrow> u8 \<Rightarrow> int option" where
  "add_digit v ch = do { v \<leftarrow> to_int (v * 10); to_int (v + (int (unat ch) - 48)) }"

text \<open>One character inside a control sequence; a character outside one is dropped.\<close>

definition vconsole_char ::
    "(('h, 'z) con_state_scheme) video_ops \<Rightarrow> nat \<Rightarrow> u8 \<Rightarrow> ('h, 'z) con_state_scheme \<Rightarrow>
     ('h, 'z) con_state_scheme option" where
  "vconsole_char vid c ch s =
     (if has_esc (consoles s c) \<and> has_bracket (consoles s c) then
        if IS_NUMERIC ch then do {
          s \<leftarrow> (if has_semicolon (consoles s c) then do {
                  v \<leftarrow> add_digit (tmp_storage_2 (consoles s c)) ch;
                  Some (upd_vc c (\<lambda>vc. vc\<lparr>tmp_storage_2 := v\<rparr>) s)
                } else do {
                  v \<leftarrow> add_digit (tmp_storage_1 (consoles s c)) ch;
                  Some (upd_vc c (\<lambda>vc. vc\<lparr>tmp_storage_1 := v\<rparr>) s)
                });
          let n = tmp_storage_num_entries (consoles s c);
          require (0 \<le> n \<and> nat n < length (tmp_storage (consoles s c)));
          v \<leftarrow> add_digit (tmp_storage (consoles s c) ! nat n) ch;
          Some (upd_vc c (\<lambda>vc. vc\<lparr>tmp_storage := (tmp_storage vc)[nat n := v]\<rparr>) s)
        }
        else if ch = 59 then do {
          let s = upd_vc c (\<lambda>vc. vc\<lparr>has_semicolon := True, tmp_storage_2 := 0\<rparr>) s;
          n \<leftarrow> to_int (tmp_storage_num_entries (consoles s c) + 1);
          Some (upd_vc c (\<lambda>vc. vc\<lparr>tmp_storage_num_entries := n\<rparr>) s)
        }
        else if ch = 63 then Some (upd_vc c (\<lambda>vc. vc\<lparr>has_question := True\<rparr>) s)
        else if ch = 64 then do {
          let s = upd_vc c (\<lambda>vc. vc\<lparr>tmp_storage_1 := (if tmp_storage_1 vc = 0 then 1 else tmp_storage_1 vc)\<rparr>) s;
          s \<leftarrow> csi_at vid c (tmp_storage_1 (consoles s c)) s;
          Some (upd_vc c (\<lambda>vc. vc\<lparr>has_esc := False\<rparr>) s)
        }
        else Some s
      else Some s)"

definition get_write ::
    "('h, ('h, 'z) tty_state_scheme) tty_env \<Rightarrow> nat \<Rightarrow> ('h, 'z) tty_state_scheme \<Rightarrow>
     (u8 \<times> ('h, 'z) tty_state_scheme) option" where
  "get_write env t s = do {
     (ch, q, st) \<leftarrow> charq_get_char (e_release env) (write_q (tty_table s t)) (chars s);
     Some (ch, (upd_tty t (\<lambda>x. x\<lparr>write_q := q\<rparr>) s)\<lparr>chars := st\<rparr>)
   }"

partial_function (option) vconsole_write_loop ::
    "('h, ('h, 'z) con_state_scheme) tty_env \<Rightarrow> (('h, 'z) con_state_scheme) video_ops \<Rightarrow> nat \<Rightarrow> nat \<Rightarrow>
     ('h, 'z) con_state_scheme \<Rightarrow> ('h, 'z) con_state_scheme option" where
  "vconsole_write_loop env vid t c s =
     (if \<not> scrlock_on (consoles s c) \<and> q_size (write_q (tty_table s t)) > 0 then do {
        (ch, s) \<leftarrow> get_write env t s;
        s \<leftarrow> vconsole_char vid c ch s;
        vconsole_write_loop env vid t c s
      } else Some s)"

definition vconsole_write ::
    "('h, ('h, 'z) con_state_scheme) tty_env \<Rightarrow> (('h, 'z) con_state_scheme) video_ops \<Rightarrow> nat \<Rightarrow>
     ('h, 'z) con_state_scheme \<Rightarrow> ('h, 'z) con_state_scheme option" where
  "vconsole_write env vid t s = do {
     let c = tty_data (tty_table s t);
     s \<leftarrow> (if vc_flags (consoles s c) AND CONSOLE_HAS_FOCUS \<noteq> 0 \<and> buf_top (video s) \<noteq> 0 then do {
             s \<leftarrow> v_restore_screen vid c s;
             let s = s\<lparr>video := (video s)\<lparr>buf_top := 0\<rparr>\<rparr>;
             s \<leftarrow> v_show_cursor vid c CURSOR_MODE_ON s;
             v_update_cursor_pos vid c s
           } else Some s);
     vconsole_write_loop env vid t c s
   }"

definition vconsole_select :: "int \<Rightarrow> ('h, 'z) con_state_scheme \<Rightarrow> ('h, 'z) con_state_scheme" where
  "vconsole_select new_cons s = s"

section \<open>System consoles\<close>

text \<open>Both functions store into a local copy of the entry that they find.\<close>

primrec sysconsole_add_loop :: "nat \<Rightarrow> ('h, 'z) con_state_scheme \<Rightarrow> retval_t" where
  "sysconsole_add_loop 0 s = RET_FAIL"
| "sysconsole_add_loop (Suc k) s =
     (let curr = sysconsole_table s (NUM_SYSCONSOLES - Suc k)
      in if sc_dev curr = 0 then RET_OK else sysconsole_add_loop k s)"

definition sysconsole_add_device :: "u16 \<Rightarrow> ('h, 'z) con_state_scheme \<Rightarrow> retval_t \<times> ('h, 'z) con_state_scheme" where
  "sysconsole_add_device dev s = (sysconsole_add_loop NUM_SYSCONSOLES s, s)"

primrec sysconsole_register_loop :: "nat \<Rightarrow> nat \<Rightarrow> ('h, 'z) con_state_scheme \<Rightarrow> retval_t" where
  "sysconsole_register_loop 0 t s = RET_FAIL"
| "sysconsole_register_loop (Suc k) t s =
     (let curr = sysconsole_table s (NUM_SYSCONSOLES - Suc k)
      in if sc_dev curr = devnum (tty_table s t) then RET_OK else sysconsole_register_loop k t s)"

definition sysconsole_register :: "nat \<Rightarrow> ('h, 'z) con_state_scheme \<Rightarrow> retval_t \<times> ('h, 'z) con_state_scheme" where
  "sysconsole_register t s = (sysconsole_register_loop NUM_SYSCONSOLES t s, s)"

definition sysconsole_init :: "('h, 'z) con_state_scheme \<Rightarrow> ('h, 'z) con_state_scheme" where
  "sysconsole_init s = s\<lparr>sysconsole_table := (\<lambda>_. \<lparr>sc_dev = 0, sc_tty = None\<rparr>)\<rparr>"

section \<open>Initialisation\<close>

text \<open>One console of the loop. \<open>this_console\<close> is a local copy, in which the terminal and the buffers are
  stored; \<open>vconsole_reset\<close> works on the entry of the table.\<close>

definition console_init_one ::
    "('h, ('h, 'z) con_state_scheme) tty_env \<Rightarrow> (('h, 'z) con_state_scheme) video_ops \<Rightarrow> ps2_dev \<Rightarrow> nat \<Rightarrow>
     ('h, 'z) con_state_scheme \<Rightarrow> ('h, 'z) con_state_scheme option" where
  "console_init_one env vid dev num s = do {
     let no = DEVICE_MKDEV VCONSOLE_MAJOR (of_nat num);
     let (r, s) = tty_register no s;
     if r = RET_OK then do {
       tp \<leftarrow> tty_get env no s;
       t \<leftarrow> tp;
       let s = upd_tty t (\<lambda>x. x\<lparr>tty_data := num\<rparr>) s;
       let this_console = (consoles s num)\<lparr>vc_tty := Some t\<rparr>;
       (this_console, s) \<leftarrow>
         (if video_using_vga s then do {
            (a, h) \<leftarrow> e_alloc env PAGE_SIZE (heap (chars s));
            Some (this_console\<lparr>back_buffer := a\<rparr>, s\<lparr>chars := (chars s)\<lparr>heap := h\<rparr>\<rparr>)
          } else Some (this_console, s));
       let this_console =
         (if video_using_vesa_framebuffer s then this_console\<lparr>back_buffer := vc_screen s num\<rparr> else this_console);
       let this_console = this_console\<lparr>main_buffer := 0\<rparr>;
       require (back_buffer this_console \<noteq> 0 \<or> CONSOLE_SIZE s = 0);
       let s = s\<lparr>vmem := fst (kmemset (vmem s) (back_buffer this_console) (int (unat CLEAR_MEM))
                               (word_of_int (CONSOLE_SIZE s)))\<rparr>;
       vconsole_reset vid dev t s
     } else Some s
   }"

primrec console_init_loop ::
    "('h, ('h, 'z) con_state_scheme) tty_env \<Rightarrow> (('h, 'z) con_state_scheme) video_ops \<Rightarrow> ps2_dev \<Rightarrow> nat \<Rightarrow>
     ('h, 'z) con_state_scheme \<Rightarrow> ('h, 'z) con_state_scheme option" where
  "console_init_loop env vid dev 0 s = Some s"
| "console_init_loop env vid dev (Suc k) s = do {
     s \<leftarrow> console_init_one env vid dev (NUM_CONSOLES - k) s;
     console_init_loop env vid dev k s
   }"

text \<open>The local variable \<open>this_console\<close> that is passed to the video driver is entry \<open>NUM_CONSOLES + 1\<close>,
  which the table of the code does not have.\<close>

definition LOCAL_CONSOLE :: nat where "LOCAL_CONSOLE = NUM_CONSOLES + 1"

definition console_focus ::
    "(('h, 'z) con_state_scheme) video_ops \<Rightarrow> ('h, 'z) con_state_scheme \<Rightarrow> ('h, 'z) con_state_scheme option" where
  "console_focus vid s = do {
     let c = LOCAL_CONSOLE;
     let s = upd_vc c (\<lambda>_. consoles s (unat (current_console s))) s;
     s \<leftarrow> v_show_cursor vid c CURSOR_MODE_ON s;
     let s = upd_vc c (\<lambda>vc. vc\<lparr>main_buffer := vd_address (video s), vc_flags := vc_flags vc OR CONSOLE_HAS_FOCUS\<rparr>) s;
     let s = (if video_using_vga s
              then s\<lparr>vmem := fst (kmemcpy (vmem s) (main_buffer (consoles s c)) (vd_address (video s))
                                    (word_of_int (CONSOLE_SIZE s)))\<rparr> else s);
     s \<leftarrow> v_get_cursor_pos vid c s;
     s \<leftarrow> v_update_cursor_pos vid c s;
     Some (s\<lparr>video := (video s)\<lparr>buf_y := vc_y (consoles s c), buf_top := 0\<rparr>\<rparr>)
   }"

primrec syscon_loop ::
    "('h, ('h, 'z) con_state_scheme) tty_env \<Rightarrow> nat \<Rightarrow> u16 \<Rightarrow> ('h, 'z) con_state_scheme \<Rightarrow>
     (u16 \<times> ('h, 'z) con_state_scheme) option" where
  "syscon_loop env 0 syscon s = Some (syscon, s)"
| "syscon_loop env (Suc k) syscon s = do {
     let dev = sc_dev (sysconsole_table s (NUM_SYSCONSOLES - Suc k));
     tp \<leftarrow> (if is_vconsole dev then tty_get env dev s else Some None);
     (case tp of
        None \<Rightarrow> syscon_loop env k syscon s
      | Some t \<Rightarrow>
          (let syscon = (if syscon = 0 then devnum (tty_table s t) else syscon);
               (_, s) = sysconsole_register t s
           in syscon_loop env k syscon s))
   }"

definition console_init ::
    "('h, ('h, 'z) con_state_scheme) tty_env \<Rightarrow> (('h, 'z) con_state_scheme) video_ops \<Rightarrow> ps2_dev \<Rightarrow>
     ('h, 'z) con_state_scheme \<Rightarrow> ('h, 'z) con_state_scheme option" where
  "console_init env vid dev s = do {
     s \<leftarrow> console_init_loop env vid dev NUM_CONSOLES s;
     let s = s\<lparr>current_console := 1\<rparr>;
     s \<leftarrow> console_focus vid s;
     let s = s\<lparr>console_minors := DEVICE_SET_MINOR (DEVICE_SET_MINOR (console_minors s) 0) 1\<rparr>;
     let s = s\<lparr>tty_minors := fold (\<lambda>n m. DEVICE_SET_MINOR m n) [0..<NUM_CONSOLES] (tty_minors s)\<rparr>;
     let (_, s) = device_register DEVTYPE_CHAR (console_device\<lparr>dv_minors := console_minors s\<rparr>) s;
     let (_, s) = device_register DEVTYPE_CHAR (tty_device\<lparr>dv_minors := tty_minors s\<rparr>) s;
     (syscon, s) \<leftarrow> syscon_loop env NUM_SYSCONSOLES 0 s;
     _ \<leftarrow> (if syscon \<noteq> 0 then tty_get env syscon s else Some None);
     Some s
   }"

section \<open>Properties\<close>

text \<open>\<open>console_init\<close> has no defined result on the table of consoles that the kernel starts
  with: the pointer to the terminal is stored in a local copy of the console, and \<open>vconsole_reset\<close> then
  follows the null pointer of the entry of the table.\<close>

theorem console_init_null_tty:
  assumes "devnum (tty_table s 0) = 0" "vc_tty (consoles s 1) = None"
  shows "console_init env vid dev s = None"
proof -
  have reset: "vconsole_reset vid dev t u = None" if "vc_tty (consoles u (tty_data (tty_table u t))) = None" for t u
    using that by (simp add: vconsole_reset_def upd_vc_def on_ps2_def Let_def set_default_color_attr_def)
  let ?no = "DEVICE_MKDEV VCONSOLE_MAJOR (of_nat 1)"
  have n0: "?no \<noteq> 0" by (simp add: DEVICE_MKDEV_def VCONSOLE_MAJOR_def)
  obtain u where reg: "tty_register ?no s = (RET_OK, u)" "consoles u = consoles s"
    using assms(1) by (simp add: tty_register_def NUM_TTYS_def numeral_eq_Suc upd_tty_def)
  have "console_init_one env vid dev 1 s = None"
  proof (cases "tty_get env ?no u")
    case (Some tp)
    show ?thesis
    proof (cases tp)
      case (Some t)
      then show ?thesis
        using reg \<open>tty_get env ?no u = Some tp\<close> assms(2) reset
        by (auto simp: console_init_one_def upd_tty_def Let_def case_prod_unfold require_def split: Option.bind_splits)
    qed (use reg Some in \<open>simp add: console_init_one_def\<close>)
  qed (use reg in \<open>simp add: console_init_one_def\<close>)
  then show ?thesis by (simp add: console_init_def NUM_CONSOLES_def numeral_eq_Suc)
qed

lemma charq_rep_Nil: "charq_rep q st xs [] \<Longrightarrow> xs = []"
proof -
  assume rep: "charq_rep q st xs []"
  then have "q_size q = of_nat (length xs)" "length xs \<le> 8" by (auto simp: charq_rep_def cq_pre_def)
  moreover have "q_size q = 0" using charq_rep_size [OF rep] by (simp add: word_gt_0)
  ultimately show ?thesis using u16_of_nat [of "length xs"] by simp
qed

lemma with_write_con [simp]:
  "consoles (with_write t q st s) = consoles s" "video (with_write t q st s) = video s"
  "vmem (with_write t q st s) = vmem s"
  by (simp_all add: with_write_def upd_tty_def)

lemma vconsole_write_loop_drains:
  fixes s :: "('a buddy_state_scheme, 'z) con_state_scheme"
  assumes "e_release env = kfree" "\<not> scrlock_on (consoles s c)" "\<not> has_esc (consoles s c)"
    and "charq_rep (write_q (tty_table s t)) (chars s) xs ws" "heap_live (heap (chars s)) L" "set xs \<subseteq> L"
  shows "\<exists>q st. vconsole_write_loop env vid t c s = Some (with_write t q st s) \<and> charq_rep q st [] [] \<and>
    heap_live (heap st) (L - set xs) \<and> others_same (L - set xs) (chars s) st \<and>
    heap_used (heap st) = heap_used (heap (chars s)) - set xs"
  using assms
proof (induction ws arbitrary: s xs L)
  case Nil
  have "xs = []" by (rule charq_rep_Nil [OF Nil.prems(4)])
  moreover have "q_size (write_q (tty_table s t)) = 0" using charq_rep_size [OF Nil.prems(4)] by (simp add: word_gt_0)
  ultimately show ?case
    using Nil.prems
    by (intro exI [of _ "write_q (tty_table s t)"] exI [of _ "chars s"])
      (subst vconsole_write_loop.simps, simp add: with_write_def upd_tty_def others_same_def)
next
  case (Cons w ws)
  obtain q st xs' L' where g: "charq_get_char kfree (write_q (tty_table s t)) (chars s) = Some (w, q, st)"
    "charq_rep q st xs' ws" "heap_live (heap st) L'" "set xs' \<subseteq> L'" "L - set xs \<subseteq> L'" "L' - set xs' \<subseteq> L - set xs"
    "set xs' \<subseteq> set xs" "others_same (L - set xs) (chars s) st"
    "heap_used (heap st) = heap_used (heap (chars s)) - (set xs - set xs')"
    using heap.get_fifo [OF Cons.prems(4-6)] by auto
  let ?s = "with_write t q st s"
  have L: "L' - set xs' = L - set xs" using g(5,6,7) Cons.prems(6) by auto
  have "charq_rep (write_q (tty_table ?s t)) (chars ?s) xs' ws" "heap_live (heap (chars ?s)) L'"
    using g(2,3) by simp_all
  from Cons.IH [OF Cons.prems(1) _ _ this g(4)] Cons.prems(2,3)
  obtain q' st' where rest: "vconsole_write_loop env vid t c ?s = Some (with_write t q' st' s)"
    "charq_rep q' st' [] []" "heap_live (heap st') (L - set xs)" "others_same (L - set xs) st st'"
    "heap_used (heap st') = heap_used (heap st) - set xs'"
    by (auto simp: L)
  have "q_size (write_q (tty_table s t)) > 0" using charq_rep_size [OF Cons.prems(4)] by simp
  moreover have "get_write env t s = Some (w, ?s)"
    using g(1) Cons.prems(1) by (simp add: get_write_def with_write_def)
  moreover have "vconsole_char vid c w ?s = Some ?s" using Cons.prems(3) by (simp add: vconsole_char_def)
  ultimately have "vconsole_write_loop env vid t c s = Some (with_write t q' st' s)"
    using Cons.prems(2) rest(1) by (subst vconsole_write_loop.simps) simp
  moreover have "others_same (L - set xs) (chars s) st'" using g(8) rest(4) by (simp add: others_same_def)
  moreover have "heap_used (heap st') = heap_used (heap (chars s)) - set xs" using rest(5) g(7,9) by auto
  ultimately show ?case using rest(2,3) by blast
qed

text \<open>A stopped console takes nothing off the queue.\<close>

lemma vconsole_write_loop_stopped:
  "scrlock_on (consoles s c) \<Longrightarrow> vconsole_write_loop env vid t c s = Some s"
  by (simp add: vconsole_write_loop.simps)

text \<open>What a write leaves of the write queue: all of it on a stopped console, else nothing, with its blocks given back.\<close>

definition written_out ::
    "nat \<Rightarrow> nat \<Rightarrow> u32 list \<Rightarrow> u32 set \<Rightarrow> ('a buddy_state_scheme, 'z) con_state_scheme \<Rightarrow>
     ('a buddy_state_scheme, 'z) con_state_scheme \<Rightarrow> bool" where
  "written_out t c xs L s u \<longleftrightarrow> (if scrlock_on (consoles s c)
     then write_q (tty_table u t) = write_q (tty_table s t) \<and> chars u = chars s
     else charq_rep (write_q (tty_table u t)) (chars u) [] [] \<and> heap_live (heap (chars u)) (L - set xs) \<and>
       heap_used (heap (chars u)) = heap_used (heap (chars s)) - set xs)"

lemma vconsole_write_loop_out:
  fixes s :: "('a buddy_state_scheme, 'z) con_state_scheme"
  assumes "e_release env = kfree" "\<not> has_esc (consoles s c)"
    and "charq_rep (write_q (tty_table s t)) (chars s) xs ws" "heap_live (heap (chars s)) L" "set xs \<subseteq> L"
  shows "\<exists>u. vconsole_write_loop env vid t c s = Some u \<and> written_out t c xs L s u \<and>
    vmem u = vmem s \<and> consoles u = consoles s"
proof (cases "scrlock_on (consoles s c)")
  case True
  then show ?thesis using vconsole_write_loop_stopped by (intro exI [of _ s]) (simp add: written_out_def)
next
  case False
  obtain q st where "vconsole_write_loop env vid t c s = Some (with_write t q st s)" "charq_rep q st [] []"
    "heap_live (heap st) (L - set xs)" "heap_used (heap st) = heap_used (heap (chars s)) - set xs"
    using vconsole_write_loop_drains [OF assms(1) False assms(2-5), of vid] by blast
  then show ?thesis using False by (intro exI [of _ "with_write t q st s"]) (simp add: written_out_def)
qed

text \<open>outside a control sequence, which nothing ever starts, writing to a console that is not
  stopped always returns, takes every character off the write queue, gives its blocks back to the heap and
  shows none of them: screen memory and consoles stay as they are.\<close>

theorem vconsole_write_drops_output:
  fixes s :: "('a buddy_state_scheme, 'z) con_state_scheme"
  assumes "e_release env = kfree" "c = tty_data (tty_table s t)"
    and "\<not> scrlock_on (consoles s c)" "\<not> has_esc (consoles s c)" "buf_top (video s) = 0"
    and "charq_rep (write_q (tty_table s t)) (chars s) xs ws" "heap_live (heap (chars s)) L" "set xs \<subseteq> L"
  shows "\<exists>u. vconsole_write env vid t s = Some u \<and> charq_rep (write_q (tty_table u t)) (chars u) [] [] \<and>
    heap_live (heap (chars u)) (L - set xs) \<and> vmem u = vmem s \<and> consoles u = consoles s"
  using vconsole_write_loop_drains [OF assms(1,3,4,6-8), of vid] assms(2,5)
  by (auto simp: vconsole_write_def Let_def)

section \<open>What the console asks of a video driver\<close>

text \<open>An operation that shows something touches no terminal, no queue and no console.\<close>

definition shows_only :: "('h, 'z) con_state_scheme \<Rightarrow> ('h, 'z) con_state_scheme \<Rightarrow> bool" where
  "shows_only s u \<longleftrightarrow> tty_table u = tty_table s \<and> chars u = chars s \<and> consoles u = consoles s \<and>
     buf_top (video u) = buf_top (video s)"

text \<open>\<open>ready\<close> is the driver's own condition for a console, that its operations keep; the operations on the cursor leave
  the screen memory alone.\<close>

locale video_driver =
  fixes vid :: "(('a buddy_state_scheme, 'z) con_state_scheme) video_ops"
    and ready :: "nat \<Rightarrow> ('a buddy_state_scheme, 'z) con_state_scheme \<Rightarrow> bool"
  assumes restore: "ready c s \<Longrightarrow> \<exists>u. v_restore_screen vid c s = Some u \<and> shows_only s u \<and> ready c u"
    and cursor: "ready c s \<Longrightarrow> \<exists>u. v_show_cursor vid c mode s = Some u \<and> shows_only s u \<and> vmem u = vmem s \<and> ready c u"
    and position: "ready c s \<Longrightarrow> \<exists>u. v_update_cursor_pos vid c s = Some u \<and> shows_only s u \<and> vmem u = vmem s \<and> ready c u"
    and scroll_back: "ready c s \<Longrightarrow> ready c (s\<lparr>video := (video s)\<lparr>buf_top := y\<rparr>\<rparr>)"
begin

lemma write_returns:
  assumes "e_release env = kfree" "c = tty_data (tty_table s t)" "ready c s" "\<not> has_esc (consoles s c)"
    and "charq_rep (write_q (tty_table s t)) (chars s) xs ws" "heap_live (heap (chars s)) L" "set xs \<subseteq> L"
  shows "\<exists>r u. (if vc_flags (consoles s c) AND CONSOLE_HAS_FOCUS \<noteq> 0 \<and> buf_top (video s) \<noteq> 0
      then v_restore_screen vid c s = Some r else r = s) \<and>
    vconsole_write env vid t s = Some u \<and> written_out t c xs L s u \<and> vmem u = vmem r \<and> consoles u = consoles s"
proof (cases "vc_flags (consoles s c) AND CONSOLE_HAS_FOCUS \<noteq> 0 \<and> buf_top (video s) \<noteq> 0")
  case False
  then show ?thesis
    using vconsole_write_loop_out [OF assms(1,4-7), of vid] assms(2)
    by (auto simp: vconsole_write_def Let_def)
next
  case True
  obtain r where r: "v_restore_screen vid c s = Some r" "shows_only s r" "ready c r" using restore [OF assms(3)] by blast
  let ?r = "r\<lparr>video := (video r)\<lparr>buf_top := 0\<rparr>\<rparr>"
  obtain v where v: "v_show_cursor vid c CURSOR_MODE_ON ?r = Some v" "shows_only ?r v" "vmem v = vmem r" "ready c v"
    using cursor [OF scroll_back [OF r(3)], of CURSOR_MODE_ON 0] by auto
  obtain w where w: "v_update_cursor_pos vid c v = Some w" "shows_only v w" "vmem w = vmem r"
    using position [OF v(4)] v(3) by auto
  have same: "tty_table w = tty_table s" "chars w = chars s" "consoles w = consoles s"
    using r(2) v(2) w(2) by (simp_all add: shows_only_def)
  have "written_out t c xs L w u = written_out t c xs L s u" for u by (simp add: written_out_def same)
  then show ?thesis
    using vconsole_write_loop_out [OF assms(1), of w c t xs ws L vid] assms(2,4-7) True r(1) v(1) w(1,3) same
    by (auto simp: vconsole_write_def Let_def)
qed

end

section \<open>Examples\<close>

definition boot_console :: vconsole where
  "boot_console = \<lparr>vc_tty = None, switch_tty = 0,
     vc_vt_mode = \<lparr>vt_mod = VT_AUTO, waitv = 0, relsig = 0, acqsig = 0, frsig = 0\<rparr>, vc_mode = 0, main_buffer = 0,
     back_buffer = 0, vc_flags = 0, tmp_storage_1 = 0, tmp_storage_2 = 0, tmp_storage_num_entries = 0,
     tmp_storage = replicate TMP_STORAGE_SIZE 0, has_esc = False, has_bracket = False, has_semicolon = False,
     has_question = False, vc_x = 0, vc_y = 0, saved_x = 0, saved_y = 0, vc_top = 0, vc_rows = 0, vc_columns = 0,
     check_x = False, scrlock_on = False, numlock_on = False, capslock_on = False, color_attr = 0, vc_bold = 0,
     vc_underline = 0, vc_blink = 0, vc_reverse = 0, led_status = 0\<rparr>"

definition con_of :: "'h tty_state \<Rightarrow> 'h con_state" where
  "con_of s = tty_state.extend s (con_state.fields (\<lambda>_. boot_console)
     (zero_video\<lparr>vd_flags := 1, vd_address := 0xC00B8000, vd_port := 0x3D4, vd_lines := 25, vd_columns := 80\<rparr>)
     (\<lambda>_. 0) \<lparr>plog = [], ack = 0\<rparr> (\<lambda>_. \<lparr>sc_dev = 0, sc_tty = None\<rparr>) (\<lambda>_. 0) (\<lambda>_. 0) (\<lambda>_. 0))"

lemma con_of_simps [simp]:
  "tty_table (con_of s) = tty_table s" "chars (con_of s) = chars s" "consoles (con_of s) c = boot_console"
  "buf_top (video (con_of s)) = 0"
  by (simp_all add: con_of_def zero_video_def tty_state.extend_def con_state.fields_def)

definition no_video :: "'s video_ops" where
  "no_video = \<lparr>v_put_char = (\<lambda>_ _ s. Some s), v_insert_char = (\<lambda>_ s. Some s), v_delete_char = (\<lambda>_ s. Some s), v_update_cursor_pos = (\<lambda>_ s. Some s),
     v_show_cursor = (\<lambda>_ _ s. Some s), v_get_cursor_pos = (\<lambda>_ s. Some s), v_write_screen = (\<lambda>_ _ _ _ s. Some s),
     v_clear_screen = (\<lambda>_ s. Some s), v_scroll_screen = (\<lambda>_ _ _ s. Some s), v_restore_screen = (\<lambda>_ s. Some s), v_screen_on = (\<lambda>_ s. Some s),
     v_buf_scroll = (\<lambda>_ _ s. Some s), v_cursor_blink = (\<lambda>_ s. Some s)\<rparr>"

definition idle_ps2 :: ps2_dev where
  "idle_ps2 = \<lparr>pd_read = (\<lambda>_ _. 0), pd_irq = (\<lambda>_. False)\<rparr>"

theorem console_init_null_tty_witness:
  "console_init idle_env no_video idle_ps2 (con_of (line_state 0)) = None"
  by (rule console_init_null_tty) (simp_all add: line_tty_def zero_tty_def boot_console_def)

definition out_state :: "buddy_state \<Rightarrow> buddy_state tty_state" where
  "out_state h = timer_state.extend (timer_state.truncate idle_timer)
     (tty_state.fields (\<lambda>_. zero_tty\<lparr>write_q := one_queue\<rparr>) (one_store h) two_running 1)"

theorem vconsole_write_drops_output_witness:
  "\<exists>h u. heap_live h {0xC000100C} \<and>
    vconsole_write (idle_env\<lparr>e_release := kfree\<rparr>) no_video 0 (con_of (out_state h)) = Some u \<and>
    charq_rep (write_q (tty_table u 0)) (chars u) [] [] \<and> heap_live (heap (chars u)) {}"
proof -
  obtain h :: buddy_state where h: "heap_live h {0xC000100C}" using boot_heap_one by blast
  let ?env = "idle_env\<lparr>e_release := kfree\<rparr> :: (buddy_state, buddy_state con_state) tty_env"
  have s: "tty_table (out_state h) 0 = zero_tty\<lparr>write_q := one_queue\<rparr>" "chars (out_state h) = one_store h"
    by (simp_all add: out_state_def timer_state.extend_def tty_state.fields_def)
  have rep: "charq_rep (write_q (tty_table (con_of (out_state h)) 0)) (chars (con_of (out_state h))) [0xC000100C] [65, 66]"
    using one_queue_rep [of h] by (simp add: s)
  have lv: "heap_live (heap (chars (con_of (out_state h)))) {0xC000100C}" using h by (simp add: s one_store_def)
  have "\<exists>u. vconsole_write ?env no_video 0 (con_of (out_state h)) = Some u \<and>
    charq_rep (write_q (tty_table u 0)) (chars u) [] [] \<and> heap_live (heap (chars u)) ({0xC000100C} - set [0xC000100C]) \<and>
    vmem u = vmem (con_of (out_state h)) \<and> consoles u = consoles (con_of (out_state h))"
    by (rule vconsole_write_drops_output [OF _ refl _ _ _ rep lv]) (simp_all add: boot_console_def)
  then show ?thesis using h by auto
qed

end
