(* ===== verification/Multiboot.thy ===== *)
theory Multiboot
  imports Bios Console
begin

text \<open>
  The information of the boot loader, \<open>src/kernel/src/init/multiboot.c\<close> with
  \<open>src/include/init/multiboot.h\<close>: the structures are read from memory at their offsets, and the video
  properties and the memory map are set up from them. The end of the kernel image, which the linker
  provides, is an argument; kernel messages are left out.
\<close>

section \<open>The structures of the boot loader\<close>

record multiboot_info =
  mb_flags :: u32
  mem_lower :: u32
  mem_upper :: u32
  mods_count :: u32
  mods :: u32
  elf_num :: u32
  elf_size :: u32
  elf_addr :: u32
  mmap_length :: u32
  mb_mmap :: u32
  vbe_control_info :: u32
  vbe_mode_info :: u32

definition read_multiboot_info :: "mem \<Rightarrow> u32 \<Rightarrow> multiboot_info" where
  "read_multiboot_info m p =
     \<lparr>mb_flags = get_u32 m p, mem_lower = get_u32 m (p + 4), mem_upper = get_u32 m (p + 8),
      mods_count = get_u32 m (p + 20), mods = get_u32 m (p + 24), elf_num = get_u32 m (p + 28),
      elf_size = get_u32 m (p + 32), elf_addr = get_u32 m (p + 36), mmap_length = get_u32 m (p + 44),
      mb_mmap = get_u32 m (p + 48), vbe_control_info = get_u32 m (p + 72), vbe_mode_info = get_u32 m (p + 76)\<rparr>"

text \<open>The fields of \<open>vbe_controller_t\<close> and \<open>vbe_mode_t\<close> that the code reads, by their offsets.\<close>

definition vc_version :: "mem \<Rightarrow> u32 \<Rightarrow> int" where "vc_version m p = int (unat (get_u16 m (p + 4)))"
definition vc_total_memory :: "mem \<Rightarrow> u32 \<Rightarrow> int" where "vc_total_memory m p = int (unat (get_u16 m (p + 18)))"
definition vm_win_size :: "mem \<Rightarrow> u32 \<Rightarrow> int" where "vm_win_size m p = int (unat (get_u16 m (p + 6)))"
definition vm_bytes_per_scanline :: "mem \<Rightarrow> u32 \<Rightarrow> int" where
  "vm_bytes_per_scanline m p = int (unat (get_u16 m (p + 16)))"
definition vm_x_resolution :: "mem \<Rightarrow> u32 \<Rightarrow> int" where "vm_x_resolution m p = int (unat (get_u16 m (p + 18)))"
definition vm_y_resolution :: "mem \<Rightarrow> u32 \<Rightarrow> int" where "vm_y_resolution m p = int (unat (get_u16 m (p + 20)))"
definition vm_x_char_size :: "mem \<Rightarrow> u32 \<Rightarrow> int" where "vm_x_char_size m p = int (unat (m (p + 22)))"
definition vm_y_char_size :: "mem \<Rightarrow> u32 \<Rightarrow> int" where "vm_y_char_size m p = int (unat (m (p + 23)))"
definition vm_bits_per_pixel :: "mem \<Rightarrow> u32 \<Rightarrow> int" where "vm_bits_per_pixel m p = int (unat (m (p + 25)))"
definition vm_phys_base :: "mem \<Rightarrow> u32 \<Rightarrow> u32" where "vm_phys_base m p = get_u32 m (p + 40)"

definition MULTIBOOT_BOOTLOADER_MAGIC :: u32 where "MULTIBOOT_BOOTLOADER_MAGIC = 0x2BADB002"
definition MULTIBOOT_INFO_MEMORY :: u32 where "MULTIBOOT_INFO_MEMORY = 1"
definition MULTIBOOT_INFO_MODS :: u32 where "MULTIBOOT_INFO_MODS = 8"
definition MULTIBOOT_INFO_ELF_SHDR :: u32 where "MULTIBOOT_INFO_ELF_SHDR = 0x20"
definition MULTIBOOT_INFO_MEM_MAP :: u32 where "MULTIBOOT_INFO_MEM_MAP = 0x40"
definition MULTIBOOT_INFO_VIDEO_INFO :: u32 where "MULTIBOOT_INFO_VIDEO_INFO = 0x800"
definition VIDEO_CONS_DEFAULT_COLS :: int where "VIDEO_CONS_DEFAULT_COLS = 80"
definition VIDEO_CONS_DEFAULT_ROWS :: int where "VIDEO_CONS_DEFAULT_ROWS = 25"
definition SHT_SYMTAB :: u32 where "SHT_SYMTAB = 2"
definition SHT_STRTAB :: u32 where "SHT_STRTAB = 3"

section \<open>Video properties\<close>

text \<open>\<open>kstrcpy\<close> into the field \<open>signature\<close>; a string of 32 characters or more runs over its end.\<close>

primrec copy_signature :: "mem \<Rightarrow> u32 \<Rightarrow> nat \<Rightarrow> u8 list option" where
  "copy_signature m p 0 = None"
| "copy_signature m p (Suc n) =
     (if m p = 0 then Some [0] else do { cs \<leftarrow> copy_signature m (p + 1) n; Some (m p # cs) })"

definition multiboot_set_video_props_from_info :: "mem \<Rightarrow> multiboot_info \<Rightarrow> video_props \<Rightarrow> video_props option" where
  "multiboot_set_video_props_from_info m mbi v = do {
     let ctrl = vbe_control_info mbi;
     let vmode = vbe_mode_info mbi;
     let xr = vm_x_resolution m vmode;
     let yr = vm_y_resolution m vmode;
     let xc = vm_x_char_size m vmode;
     let yc = vm_y_char_size m vmode;
     let rows = yr div (if yc \<noteq> 0 then yc else 1);
     let pixelwidth = vm_bits_per_pixel m vmode div 8;
     let pitch = vm_bytes_per_scanline m vmode;
     banks \<leftarrow> to_int (vc_total_memory m ctrl * vm_win_size m vmode);
     msize \<leftarrow> to_int (banks * 1024);
     area \<leftarrow> to_int (xr * yr);
     sz \<leftarrow> to_int (area * pixelwidth);
     lines \<leftarrow> to_int (rows * pitch);
     vsz \<leftarrow> to_int (lines * yc);
     sig \<leftarrow> copy_signature m ctrl 32;
     Some (v\<lparr>vd_flags := VIDEO_MODE_VESAFB, vd_address := vm_phys_base m vmode, vd_port := 0, vd_memsize := msize,
       vd_columns := xr div (if xc \<noteq> 0 then xc else 1), vd_rows := rows, vd_version := vc_version m ctrl,
       vd_width := xr, vd_height := yr, vd_char_width := xc, vd_char_height := yc,
       vd_bpp := vm_bits_per_pixel m vmode, vd_pixelwidth := pixelwidth, vd_pitch := pitch,
       vd_rowsize := pitch * yc, vd_size := sz, vd_vsize := vsz,
       vd_signature := sig @ drop (length sig) (vd_signature v)\<rparr>)
   }"

definition multiboot_set_video_props_default :: "video_props \<Rightarrow> video_props" where
  "multiboot_set_video_props_default v =
     v\<lparr>vd_columns := VIDEO_CONS_DEFAULT_COLS, vd_rows := VIDEO_CONS_DEFAULT_ROWS, vd_flags := VIDEO_MODE_VGA_TXT,
       vd_memsize := 384 * 1024\<rparr>"

section \<open>Start\<close>

definition multiboot_init ::
    "u32 \<Rightarrow> u32 \<Rightarrow> 'a boot_state_scheme \<Rightarrow> ('a boot_state_scheme \<times> video_props) option" where
  "multiboot_init magic mbi_ptr s = do {
     let v = zero_video;
     if magic \<noteq> MULTIBOOT_BOOTLOADER_MAGIC then do {
       let s = s\<lparr>memsize := 640, extmemsize := 3072\<rparr>;
       s \<leftarrow> bios_mmap_init 0 0 s;
       Some (s, multiboot_set_video_props_default v)
     } else do {
       let mbi = read_multiboot_info (bmem s) mbi_ptr;
       let s = s\<lparr>memsize := sint (mem_lower mbi), extmemsize := sint (mem_upper mbi)\<rparr>;
       s \<leftarrow> (if mb_flags mbi AND MULTIBOOT_INFO_MEM_MAP \<noteq> 0
             then bios_mmap_init (mb_mmap mbi) (mmap_length mbi) s
             else bios_mmap_init 0 0 s);
       v \<leftarrow> (if mb_flags mbi AND MULTIBOOT_INFO_VIDEO_INFO \<noteq> 0
             then multiboot_set_video_props_from_info (bmem s) mbi v else Some v);
       Some (s, if vd_flags v = 0 then multiboot_set_video_props_default v else v)
     }
   }"

section \<open>The end of what was loaded\<close>

text \<open>The loop over the section headers; its counter is an \<open>unsigned short\<close>. The result is the last symbol
  table and the last string table.\<close>

definition note_table :: "mem \<Rightarrow> u32 \<Rightarrow> u32 \<times> u32 \<Rightarrow> u32 \<times> u32" where
  "note_table m shdr tabs =
     (let tabs = (if get_u32 m (shdr + 4) = SHT_SYMTAB then (shdr, snd tabs) else tabs)
      in if get_u32 m (shdr + 4) = SHT_STRTAB then (fst tabs, shdr) else tabs)"

partial_function (option) find_tables ::
    "mem \<Rightarrow> multiboot_info \<Rightarrow> u16 \<Rightarrow> u32 \<times> u32 \<Rightarrow> (u32 \<times> u32) option" where
  "find_tables m mbi n tabs =
     (if ucast n < elf_num mbi
      then find_tables m mbi (n + 1) (note_table m (elf_addr mbi + ucast n * elf_size mbi) tabs)
      else Some tabs)"

partial_function (option) last_module :: "mem \<Rightarrow> multiboot_info \<Rightarrow> u16 \<Rightarrow> u32 \<Rightarrow> u32 \<Rightarrow> u32 option" where
  "last_module m mbi n md addr =
     (if ucast n < mods_count mbi
      then last_module m mbi (n + 1) (md + 16) (if addr > get_u32 m (md + 4) then addr else get_u32 m (md + 4))
      else Some addr)"

text \<open>The result with the values of \<open>symtab\<close> and \<open>strtab\<close>, which keep their values when there are no
  section headers.\<close>

definition get_last_boot_addr ::
    "u32 \<Rightarrow> u32 \<Rightarrow> u32 \<Rightarrow> u32 \<times> u32 \<Rightarrow> mem \<Rightarrow> (u32 \<times> u32 \<times> u32) option" where
  "get_last_boot_addr image_end magic mbr_init tabs m = do {
     let addr = (image_end AND PAGE_MASK) + PAGE_SIZE;
     if magic \<noteq> MULTIBOOT_BOOTLOADER_MAGIC then Some (P2V addr, tabs)
     else do {
       let mbi = read_multiboot_info m mbr_init;
       (addr, tabs) \<leftarrow>
         (if mb_flags mbi AND MULTIBOOT_INFO_ELF_SHDR \<noteq> 0 then do {
            tabs \<leftarrow> find_tables m mbi 0 (0, 0);
            require (snd tabs \<noteq> 0);
            let end_of_strtab = get_u32 m (snd tabs + 12) + get_u32 m (snd tabs + 20);
            Some (if addr > end_of_strtab then addr else end_of_strtab, tabs)
          } else Some (addr, tabs));
       addr \<leftarrow> (if mb_flags mbi AND MULTIBOOT_INFO_MODS \<noteq> 0 then last_module m mbi 0 (mods mbi) addr
                else Some addr);
       Some (P2V addr, tabs)
     }
   }"

section \<open>Screen size\<close>

lemma video_from_info_lines:
  "multiboot_set_video_props_from_info m mbi v = Some w \<Longrightarrow> vd_lines w = vd_lines v \<and> vd_flags w = VIDEO_MODE_VESAFB"
  by (auto simp: multiboot_set_video_props_from_info_def Let_def split: Option.bind_splits)

text \<open>whatever the boot loader says, once \<open>multiboot_init\<close> returns the screen has no lines: the code
  fills in \<open>rows\<close> and leaves \<open>lines\<close>, from which the consoles take their size, at 0.\<close>

theorem multiboot_init_no_lines:
  assumes "multiboot_init magic mbi_ptr s = Some (u, v)"
  shows "vd_lines v = 0 \<and> vd_flags v \<noteq> 0 \<and> (\<forall>w. CONSOLE_SIZE (w\<lparr>video := v\<rparr>) = 0)"
proof -
  have "vd_lines v = 0 \<and> vd_flags v \<noteq> 0"
    using assms video_from_info_lines
    by (auto simp: multiboot_init_def Let_def zero_video_def multiboot_set_video_props_default_def VIDEO_MODE_VGA_TXT_def
        VIDEO_MODE_VESAFB_def split: Option.bind_splits if_splits)
  then show ?thesis by (simp add: CONSOLE_SIZE_def)
qed

theorem multiboot_init_no_lines_witness:
  "\<exists>u v. multiboot_init 0 0 boot_example = Some (u, v) \<and> vd_lines v = 0 \<and> CONSOLE_SIZE ((undefined :: 'h con_state)\<lparr>video := v\<rparr>) = 0"
proof -
  have "bios_mmap_init 0 0 (boot_example\<lparr>memsize := 640, extmemsize := 3072\<rparr>) \<noteq> None"
    by (simp add: bios_mmap_init_def bios_mmap_default_def INT_MIN_def INT_MAX_def Let_def)
  then obtain u v where "multiboot_init 0 0 boot_example = Some (u, v)"
    by (auto simp: multiboot_init_def MULTIBOOT_BOOTLOADER_MAGIC_def)
  then show ?thesis using multiboot_init_no_lines by blast
qed

section \<open>Room after the image\<close>

lemma u16_next: "n < 65535 \<Longrightarrow> of_nat n + 1 = (of_nat (Suc n) :: u16)" "n < 65536 \<Longrightarrow> unat (of_nat n :: u16) = n"
  by (simp_all add: unat_of_nat take_bit_nat_eq_self)

lemma u16_less: "n < 65536 \<Longrightarrow> (ucast (of_nat n :: u16) < (c :: u32)) = (n < unat c)"
  by (simp add: word_less_nat_alt unsigned_ucast_eq u16_next take_bit_nat_eq_self)

lemma u16_index: "n < 65536 \<Longrightarrow> (ucast (of_nat n :: u16) :: u32) = of_nat n"
  by (rule word_unat_eq_iff [THEN iffD2]) (simp add: unsigned_ucast_eq u16_next take_bit_nat_eq_self unat_of_nat)

lemma last_module_ok:
  assumes "n + k = unat (mods_count mbi)" "unat (mods_count mbi) < 65536"
  shows "\<exists>r. last_module m mbi (of_nat n) md addr = Some r \<and> addr \<le> r \<and>
    (\<forall>i < k. get_u32 m (md + 16 * of_nat i + 4) \<le> r)"
  using assms(1)
proof (induction k arbitrary: n md addr)
  case 0
  have "\<not> ucast (of_nat n :: u16) < mods_count mbi" using 0 assms(2) u16_less [of n "mods_count mbi"] by linarith
  then show ?case by (subst last_module.simps) simp
next
  case (Suc k)
  let ?a = "if addr > get_u32 m (md + 4) then addr else get_u32 m (md + 4)"
  obtain r where r: "last_module m mbi (of_nat (Suc n)) (md + 16) ?a = Some r" "?a \<le> r"
    "\<forall>i < k. get_u32 m (md + 16 + 16 * of_nat i + 4) \<le> r"
    using Suc.IH [of "Suc n" "md + 16" ?a] Suc.prems by auto
  have "last_module m mbi (of_nat n) md addr = Some r"
    using r(1) Suc.prems assms(2) by (subst last_module.simps) (simp add: u16_less u16_next add.commute)
  moreover have "addr \<le> r" "get_u32 m (md + 4) \<le> r" using r(2) by (auto split: if_splits)
  moreover have "get_u32 m (md + 16 * of_nat i + 4) \<le> r" if "i < Suc k" for i
    using that r(3) \<open>get_u32 m (md + 4) \<le> r\<close> by (cases i) (simp_all add: algebra_simps)
  ultimately show ?case by blast
qed

text \<open>The last symbol table and the last string table among the section headers.\<close>

definition section_tables :: "mem \<Rightarrow> multiboot_info \<Rightarrow> nat list \<Rightarrow> u32 \<times> u32 \<Rightarrow> u32 \<times> u32" where
  "section_tables m mbi = fold (\<lambda>n. note_table m (elf_addr mbi + of_nat n * elf_size mbi))"

lemma find_tables_ok:
  assumes "n + k = unat (elf_num mbi)" "unat (elf_num mbi) < 65536"
  shows "find_tables m mbi (of_nat n) tabs = Some (section_tables m mbi [n..<unat (elf_num mbi)] tabs)"
  using assms(1)
proof (induction k arbitrary: n tabs)
  case 0
  have "\<not> ucast (of_nat n :: u16) < elf_num mbi" using 0 assms(2) u16_less [of n "elf_num mbi"] by linarith
  moreover have e: "[n..<unat (elf_num mbi)] = []" using 0 by simp
  ultimately show ?case unfolding e by (subst find_tables.simps) (simp add: section_tables_def)
next
  case (Suc k)
  then have "[n..<unat (elf_num mbi)] = n # [Suc n..<unat (elf_num mbi)]" and "n < 65535"
    using assms(2) by (simp_all add: upt_conv_Cons)
  moreover have "ucast (of_nat n :: u16) < elf_num mbi" using Suc.prems assms(2) u16_less [of n "elf_num mbi"] by linarith
  moreover have "find_tables m mbi (of_nat n + 1) t = Some (section_tables m mbi [Suc n..<unat (elf_num mbi)] t)" for t
    using Suc.IH [of "Suc n" t] Suc.prems u16_next(1) [OF \<open>n < 65535\<close>] by (simp add: add.commute)
  moreover have "(ucast (of_nat n :: u16) :: u32) = of_nat n" by (rule u16_index) (use \<open>n < 65535\<close> in simp)
  ultimately show ?case by (subst find_tables.simps) (simp add: section_tables_def)
qed

text \<open>with up to 65535 section headers, one of them a string table, and up to 65535 modules,
  \<open>get_last_boot_addr\<close> returns an address beyond the page of the end of the image, beyond every module and
  beyond the string table; what the kernel puts there overwrites none of them.\<close>

theorem last_boot_addr_beyond:
  assumes "mbi = read_multiboot_info m p" "unat (elf_num mbi) < 65536" "unat (mods_count mbi) < 65536"
    and "tabs = section_tables m mbi [0..<unat (elf_num mbi)] (0, 0)" "snd tabs \<noteq> 0"
    and "mb_flags mbi AND MULTIBOOT_INFO_ELF_SHDR \<noteq> 0"
  shows "\<exists>addr. get_last_boot_addr image_end MULTIBOOT_BOOTLOADER_MAGIC p old m = Some (P2V addr, tabs) \<and>
    (image_end AND PAGE_MASK) + PAGE_SIZE \<le> addr \<and>
    get_u32 m (snd tabs + 12) + get_u32 m (snd tabs + 20) \<le> addr \<and>
    (mb_flags mbi AND MULTIBOOT_INFO_MODS \<noteq> 0 \<longrightarrow>
      (\<forall>i < unat (mods_count mbi). get_u32 m (mods mbi + 16 * of_nat i + 4) \<le> addr))"
proof -
  let ?a = "(image_end AND PAGE_MASK) + PAGE_SIZE" and ?e = "get_u32 m (snd tabs + 12) + get_u32 m (snd tabs + 20)"
  let ?b = "if ?a > ?e then ?a else ?e"
  have tabs: "find_tables m mbi 0 (0, 0) = Some tabs" using find_tables_ok [of 0 _ mbi m "(0, 0)"] assms(2,4) by simp
  obtain r where r: "last_module m mbi 0 (mods mbi) ?b = Some r" "?b \<le> r"
    "\<forall>i < unat (mods_count mbi). get_u32 m (mods mbi + 16 * of_nat i + 4) \<le> r"
    using last_module_ok [of 0 _ mbi m "mods mbi" ?b] assms(3) by auto
  let ?r = "if mb_flags mbi AND MULTIBOOT_INFO_MODS \<noteq> 0 then r else ?b"
  have "get_last_boot_addr image_end MULTIBOOT_BOOTLOADER_MAGIC p old m = Some (P2V ?r, tabs)"
    using tabs r(1) assms(5,6) by (simp add: get_last_boot_addr_def assms(1) [symmetric] Let_def)
  moreover have "?a \<le> ?b" "?e \<le> ?b" by auto
  ultimately show ?thesis using r(2,3) by (intro exI [of _ ?r]) (auto intro: order_trans)
qed

text \<open>One section, a string table that ends at \<open>0x207000\<close>, and one module that ends at \<open>0x300000\<close>.\<close>

definition loaded_mem :: mem where
  "loaded_mem = fold (\<lambda>(a, v) m. put_u32 m a v)
     [(0x1000, 0x28), (0x1014, 1), (0x1018, 0x3000), (0x101C, 1), (0x1020, 40), (0x1024, 0x2000),
      (0x2004, 3), (0x200C, 0x206000), (0x2014, 0x1000), (0x3004, 0x300000)] (\<lambda>_. 0)"

lemma loaded_mem_at:
  "get_u32 loaded_mem 0x1000 = 0x28" "get_u32 loaded_mem 0x1014 = 1" "get_u32 loaded_mem 0x1018 = 0x3000"
  "get_u32 loaded_mem 0x101C = 1" "get_u32 loaded_mem 0x1020 = 40" "get_u32 loaded_mem 0x1024 = 0x2000"
  "get_u32 loaded_mem 0x2004 = 3" "get_u32 loaded_mem 0x200C = 0x206000" "get_u32 loaded_mem 0x2014 = 0x1000"
  "get_u32 loaded_mem 0x3004 = 0x300000"
  by (simp_all add: loaded_mem_def apart_def)

theorem last_boot_addr_beyond_witness:
  "\<exists>addr. get_last_boot_addr 0x104000 MULTIBOOT_BOOTLOADER_MAGIC 0x1000 (0, 0) loaded_mem = Some (P2V addr, 0, 0x2000) \<and>
    0x105000 \<le> addr \<and> 0x207000 \<le> addr \<and> 0x300000 \<le> addr"
proof -
  let ?mbi = "read_multiboot_info loaded_mem 0x1000"
  have f: "mb_flags ?mbi = 0x28" "elf_num ?mbi = 1" "mods_count ?mbi = 1" "mods ?mbi = 0x3000"
    "elf_addr ?mbi = 0x2000" "elf_size ?mbi = 40"
    by (simp_all add: read_multiboot_info_def loaded_mem_at)
  have "section_tables loaded_mem ?mbi [0..<unat (elf_num ?mbi)] (0, 0) = (0, 0x2000)"
    by (simp add: f section_tables_def loaded_mem_at note_table_def SHT_SYMTAB_def SHT_STRTAB_def)
  then show ?thesis
    using last_boot_addr_beyond [OF refl, where m = loaded_mem and p = "0x1000" and image_end = "0x104000" and
        old = "(0, 0)" and tabs = "(0, 0x2000)"]
    by (simp add: f loaded_mem_at MULTIBOOT_INFO_ELF_SHDR_def MULTIBOOT_INFO_MODS_def PAGE_MASK_def PAGE_SIZE_def)
qed

end
