(* ===== verification/Layout.thy ===== *)
theory Layout
  imports Multiboot Buddy
begin

text \<open>
  The layout of kernel memory, \<open>src/kernel/src/mem/layout.c\<close>: the temporary page directory, the permanent
  one, the structures placed after the kernel image, and the start of the page allocator and of the heap.
  Memory is written through the addresses that the code uses at the time: those of the kernel's segment for
  the temporary directory, physical ones for the permanent one. The size of \<open>proc_t\<close> is an argument.
  Loading the directory register, and the pointer to the early console, have no effect on the state.
\<close>

section \<open>State\<close>

record layout_state = boot_state +
  real_last_addr :: u32
  kpage_dir :: u32
  proc_list_at :: u32
  proc_list_size :: u32
  scrollback_at :: u32
  page_cache_at :: u32
  page_cache_size :: u32
  free_page_list_at :: u32
  free_page_list_size :: u32

definition PAGE_PRESENT :: u32 where "PAGE_PRESENT = 1"
definition PAGE_RW :: u32 where "PAGE_RW = 2"
definition DEFAULT_NUM_PAGES :: u32 where "DEFAULT_NUM_PAGES = 4096"
definition PAGE_HASH_PER_10K :: u32 where "PAGE_HASH_PER_10K = 10"
definition MAX_PAGES_HASH :: u32 where "MAX_PAGES_HASH = 16"
definition LAYOUT_NUM_PROCS :: u32 where "LAYOUT_NUM_PROCS = 64"
definition VIDEO_MAX_SCROLLBACK_SCREENS :: int where "VIDEO_MAX_SCROLLBACK_SCREENS = 6"

definition GET_PGDIR :: "u32 \<Rightarrow> u32" where "GET_PGDIR addr = drop_bit 22 addr AND 0x3FF"
definition GET_PGTBL :: "u32 \<Rightarrow> u32" where "GET_PGTBL addr = drop_bit 12 addr AND 0x3FF"

text \<open>\<open>sizeof(page_t)\<close>: ten words and an \<open>unsigned short\<close>, padded.\<close>

definition sizeof_page :: u32 where "sizeof_page = 44"

section \<open>Assigning memory\<close>

definition mem_assign :: "u32 \<Rightarrow> 'a layout_state_scheme \<Rightarrow> (u32 \<times> u32 \<times> 'a layout_state_scheme) option" where
  "mem_assign bytes s = do {
     let aligned_size = PAGE_ALIGN bytes;
     require (bios_mmap_has_addr s (V2P (real_last_addr s) + aligned_size));
     let ptr = real_last_addr s;
     Some (ptr, aligned_size, s\<lparr>real_last_addr := real_last_addr s + aligned_size\<rparr>)
   }"

definition mem_assign_cleared :: "u32 \<Rightarrow> 'a layout_state_scheme \<Rightarrow> u32 \<times> 'a layout_state_scheme" where
  "mem_assign_cleared bytes s =
     (let ptr = real_last_addr s;
          s = s\<lparr>bmem := fst (kmemset (bmem s) ptr 0 bytes)\<rparr>
      in (ptr, s\<lparr>real_last_addr := real_last_addr s + bytes\<rparr>))"

section \<open>The temporary directory\<close>

definition map_temp_one :: "u32 \<Rightarrow> u32 \<Rightarrow> nat \<Rightarrow> mem \<Rightarrow> mem" where
  "map_temp_one dir addr idx m =
     (let m = put_u32 m (addr + 4 * of_nat idx) (push_bit PAGE_SHIFT (of_nat idx) OR PAGE_PRESENT OR PAGE_RW)
      in if idx mod 1024 = 0 then
           (let k = idx div 1024;
                v = (addr + PAGE_SIZE * of_nat k + GDT_BASE) OR PAGE_PRESENT OR PAGE_RW;
                m = put_u32 m (dir + 4 * of_nat k) v
            in put_u32 m (dir + 4 * (of_nat k + GET_PGDIR KERNEL_PAGE_OFFSET)) v)
         else m)"

primrec map_temp :: "u32 \<Rightarrow> u32 \<Rightarrow> nat \<Rightarrow> mem \<Rightarrow> mem" where
  "map_temp dir addr 0 m = m"
| "map_temp dir addr (Suc idx) m = map_temp_one dir addr idx (map_temp dir addr idx m)"

text \<open>The number of kilobytes to map, and the directory built for it: its physical address, the value of
  \<open>kpage_dir\<close> and the memory.\<close>

definition temporary_pages :: "u32 \<Rightarrow> u32 \<Rightarrow> mem \<Rightarrow> u32" where
  "temporary_pages magic mbi_ptr m =
     (if magic = MULTIBOOT_BOOTLOADER_MAGIC then
        (let mbi = read_multiboot_info m (mbi_ptr + KERNEL_PAGE_OFFSET)
         in if mb_flags mbi AND MULTIBOOT_INFO_MEMORY \<noteq> 0 then
              (let max_possible_pages = (FOUR_GB - KERNEL_PAGE_OFFSET) div 1024
               in if mem_upper mbi + 1024 < max_possible_pages then mem_upper mbi + 1024 else max_possible_pages)
            else DEFAULT_NUM_PAGES)
      else DEFAULT_NUM_PAGES)"

definition mem_init_temporary :: "u32 \<Rightarrow> u32 \<Rightarrow> mem \<Rightarrow> u32 \<times> u32 \<times> mem" where
  "mem_init_temporary magic mbi_ptr m =
     (let num_pages = temporary_pages magic mbi_ptr m;
          addr = PAGE_ALIGN (KERNEL_PAGE_OFFSET + num_pages * 1024 - num_pages);
          dir = addr;
          m = fst (kmemset m dir 0 PAGE_SIZE);
          addr = addr + PAGE_SIZE;
          m = fst (kmemset m addr 0 num_pages);
          m = map_temp dir addr (unat (num_pages div 4)) m
      in (dir - KERNEL_PAGE_OFFSET, dir, m))"

section \<open>The permanent directory\<close>

definition map_page_one :: "u32 \<Rightarrow> u32 \<Rightarrow> nat \<Rightarrow> mem \<Rightarrow> mem" where
  "map_page_one dir page_table n m =
     (let m = put_u32 m (page_table + 4 * of_nat n) (push_bit PAGE_SHIFT (of_nat n) OR PAGE_PRESENT OR PAGE_RW)
      in if n mod 1024 = 0
         then put_u32 m (dir + 4 * (GET_PGDIR KERNEL_PAGE_OFFSET + of_nat (n div 1024)))
                ((page_table + 4 * of_nat n) OR PAGE_PRESENT OR PAGE_RW)
         else m)"

primrec map_pages :: "u32 \<Rightarrow> u32 \<Rightarrow> nat \<Rightarrow> mem \<Rightarrow> mem" where
  "map_pages dir page_table 0 m = m"
| "map_pages dir page_table (Suc n) m = map_page_one dir page_table n (map_pages dir page_table n m)"

text \<open>Up to \<open>page_activate_kpage_dir\<close>, and the switch to virtual addresses after it.\<close>

definition mem_init_tables :: "'a layout_state_scheme \<Rightarrow> 'a layout_state_scheme" where
  "mem_init_tables s =
     (let physical_page_tables = physical_pages s div 1024 + (if physical_pages s mod 1024 \<noteq> 0 then 1 else 0);
          s = s\<lparr>real_last_addr := PAGE_ALIGN (real_last_addr s)\<rparr>;
          (dir, s) = mem_assign_cleared PAGE_SIZE s;
          s = s\<lparr>kpage_dir := dir\<rparr>;
          (page_table, s) = mem_assign_cleared (physical_page_tables * PAGE_SIZE) s;
          s = s\<lparr>bmem := map_pages dir page_table (unat (physical_pages s)) (bmem s)\<rparr>
      in s\<lparr>kpage_dir := P2V (kpage_dir s), real_last_addr := P2V (real_last_addr s)\<rparr>)"

definition scrollback_size :: "video_props \<Rightarrow> u32 option" where
  "scrollback_size v = do {
     cells \<leftarrow> to_int (vd_columns v * vd_lines v);
     n \<leftarrow> to_int (cells * VIDEO_MAX_SCROLLBACK_SCREENS);
     n \<leftarrow> to_int (n * 2);
     Some (word_of_int n * 2)
   }"

text \<open>The pages for the table of cached pages.\<close>

definition page_cache_pages :: "u32 \<Rightarrow> u32" where
  "page_cache_pages num_pages =
     (let n = (num_pages * PAGE_HASH_PER_10K) div 10000;
          n = (if n > 1 then n else 1)
      in if n < MAX_PAGES_HASH then n else MAX_PAGES_HASH)"

definition mem_init ::
    "u32 \<Rightarrow> video_props \<Rightarrow> 'a layout_state_scheme \<Rightarrow> 'b buddy_state_scheme \<Rightarrow>
     ('a layout_state_scheme \<times> 'b buddy_state_scheme) option" where
  "mem_init sizeof_proc v s h = do {
     let s = mem_init_tables s;
     (p, sz, s) \<leftarrow> mem_assign (sizeof_proc * LAYOUT_NUM_PROCS) s;
     let s = s\<lparr>proc_list_at := p, proc_list_size := sz\<rparr>;
     let s = s\<lparr>scrollback_at := real_last_addr s\<rparr>;
     sb \<leftarrow> scrollback_size v;
     let s = s\<lparr>real_last_addr := real_last_addr s + sb\<rparr>;
     (p, sz, s) \<leftarrow> mem_assign (page_cache_pages (physical_pages s) * PAGE_SIZE) s;
     let s = s\<lparr>page_cache_at := p, page_cache_size := sz\<rparr>;
     (p, sz, s) \<leftarrow> mem_assign (physical_pages s * sizeof_page) s;
     let s = s\<lparr>free_page_list_at := p, free_page_list_size := sz\<rparr>;
     h \<leftarrow> page_init (bios_mmap_has_addr s) (real_last_addr s) (unat (physical_pages s))
           (h\<lparr>NUM_PAGES := unat (free_page_list_size s div sizeof_page),
              NUM_CACHED_PAGES := unat (page_cache_size s div 4)\<rparr>);
     Some (s, buddy_init h)
   }"

section \<open>Tables as arrays of words\<close>

text \<open>Word \<open>j\<close> from a base address.\<close>

definition word_at :: "mem \<Rightarrow> u32 \<Rightarrow> nat \<Rightarrow> u32" where
  "word_at m base j = get_u32 m (base + 4 * of_nat j)"

lemma word_at_put:
  "i < 1073741824 \<Longrightarrow> j < 1073741824 \<Longrightarrow>
    word_at (put_u32 m (base + 4 * of_nat i) v) base j = (if i = j then v else word_at m base j)"
  by (simp add: word_at_def apart_words)

abbreviation pte_flags :: "u32 \<Rightarrow> u32" where
  "pte_flags a \<equiv> a OR PAGE_PRESENT OR PAGE_RW"

lemma map_pages_words:
  assumes "n \<le> 0x40000" "j < 1073741824"
  shows "word_at (map_pages dir (dir + PAGE_SIZE) n m) dir j =
    (if 1024 \<le> j \<and> j < 1024 + n then pte_flags (push_bit 12 (of_nat (j - 1024)))
     else if 768 \<le> j \<and> j < 1024 \<and> 1024 * (j - 768) < n
       then pte_flags (dir + PAGE_SIZE + PAGE_SIZE * of_nat (j - 768))
     else word_at m dir j)"
  using assms(1)
proof (induction n)
  case (Suc n)
  let ?m = "map_pages dir (dir + PAGE_SIZE) n m"
  have pt: "dir + PAGE_SIZE + 4 * of_nat n = dir + 4 * of_nat (1024 + n)" by (simp add: PAGE_SIZE_def)
  have pd: "dir + 4 * (GET_PGDIR KERNEL_PAGE_OFFSET + of_nat (n div 1024)) = dir + 4 * of_nat (768 + n div 1024)"
    by (simp add: GET_PGDIR_def KERNEL_PAGE_OFFSET_def)
  have one: "word_at (map_page_one dir (dir + PAGE_SIZE) n ?m) dir j =
    (if n mod 1024 = 0 \<and> j = 768 + n div 1024 then pte_flags (dir + PAGE_SIZE + 4 * of_nat n)
     else if j = 1024 + n then pte_flags (push_bit 12 (of_nat n)) else word_at ?m dir j)"
  proof -
    let ?m1 = "put_u32 ?m (dir + 4 * of_nat (1024 + n)) (pte_flags (push_bit 12 (of_nat n)))"
    let ?m2 = "put_u32 ?m1 (dir + 4 * of_nat (768 + n div 1024)) (pte_flags (dir + PAGE_SIZE + 4 * of_nat n))"
    have "map_page_one dir (dir + PAGE_SIZE) n ?m = (if n mod 1024 = 0 then ?m2 else ?m1)"
      unfolding map_page_one_def Let_def pd PAGE_SHIFT_def by (simp only: pt)
    moreover have "word_at ?m1 dir j = (if 1024 + n = j then pte_flags (push_bit 12 (of_nat n)) else word_at ?m dir j)"
      using Suc.prems assms(2) by (intro word_at_put) simp_all
    moreover have "word_at ?m2 dir j =
        (if 768 + n div 1024 = j then pte_flags (dir + PAGE_SIZE + 4 * of_nat n) else word_at ?m1 dir j)"
      using Suc.prems assms(2) by (intro word_at_put) simp_all
    ultimately show ?thesis by auto
  qed
  show ?case
  proof (cases "n mod 1024 = 0 \<and> j = 768 + n div 1024")
    case True
    then have n: "1024 * (j - 768) = n" "j < 1024" using Suc.prems by auto
    then have "4 * of_nat n = (PAGE_SIZE * of_nat (j - 768) :: u32)" by (simp add: PAGE_SIZE_def flip: n(1))
    with n show ?thesis using True one by simp
  next
    case False
    then have n: "1024 * (j - 768) \<noteq> n" if "768 \<le> j" using that by auto
    have "768 \<le> j \<and> j < 1024 \<and> 1024 * (j - 768) < Suc n \<longleftrightarrow> 768 \<le> j \<and> j < 1024 \<and> 1024 * (j - 768) < n"
      using n by (auto simp: less_Suc_eq)
    moreover have "1024 \<le> j \<and> j < 1024 + Suc n \<longleftrightarrow> 1024 \<le> j \<and> j < 1024 + n \<or> j = 1024 + n" by auto
    moreover have "word_at (map_page_one dir (dir + PAGE_SIZE) n ?m) dir j =
        (if j = 1024 + n then pte_flags (push_bit 12 (of_nat n)) else word_at ?m dir j)"
      using False one by (simp only: if_False)
    ultimately show ?thesis using Suc by (cases "j = 1024 + n") simp_all
  qed
qed (simp only: map_pages.simps, auto)

lemma map_pages_dir:
  "1024 * k < n \<Longrightarrow> n \<le> 0x40000 \<Longrightarrow> k < 256 \<Longrightarrow>
    get_u32 (map_pages dir (dir + PAGE_SIZE) n m) (dir + 4 * of_nat (768 + k)) =
      pte_flags (dir + PAGE_SIZE + PAGE_SIZE * of_nat k)"
  unfolding word_at_def [symmetric] by (subst map_pages_words) auto

lemma map_pages_table:
  "i < n \<Longrightarrow> n \<le> 0x40000 \<Longrightarrow>
    get_u32 (map_pages dir (dir + PAGE_SIZE) n m) (dir + 4 * of_nat (1024 + i)) = pte_flags (push_bit 12 (of_nat i))"
  unfolding word_at_def [symmetric] by (subst map_pages_words) auto

section \<open>Address translation\<close>

text \<open>The processor's walk through a directory and a table, both at physical addresses.\<close>

definition translate :: "mem \<Rightarrow> u32 \<Rightarrow> u32 \<Rightarrow> u32 option" where
  "translate m dir va =
     (let pde = get_u32 m (dir + 4 * GET_PGDIR va)
      in if pde AND PAGE_PRESENT = 0 then None
         else
           (let pte = get_u32 m ((pde AND PAGE_MASK) + 4 * GET_PGTBL va)
            in if pte AND PAGE_PRESENT = 0 then None
               else Some ((pte AND PAGE_MASK) OR (va AND NOT PAGE_MASK))))"

lemma PAGE_MASK_eq: "PAGE_MASK = NOT (mask 12)"
  by (simp add: PAGE_MASK_def PAGE_SIZE_def mask_eq_exp_minus_1)

lemma take_bit_12: "take_bit 12 a = 0 \<longleftrightarrow> (\<forall>n<12. \<not> bit (a :: u32) n)"
  by (auto simp: bit_eq_iff bit_simps)

lemma pte_flags_mask: "take_bit 12 a = 0 \<Longrightarrow> pte_flags a AND PAGE_MASK = a"
proof -
  assume "take_bit 12 a = 0"
  then have a: "\<not> bit a n" if "n < 12" for n using that by (simp add: take_bit_12)
  have "pte_flags a = a OR mask 2" by (simp add: PAGE_PRESENT_def PAGE_RW_def mask_eq_exp_minus_1)
  then show ?thesis unfolding PAGE_MASK_eq
    using a by (intro bit_word_eqI) (auto simp: bit_simps not_less [symmetric])
qed

lemma pte_flags_present: "pte_flags a AND PAGE_PRESENT \<noteq> 0"
proof -
  have "bit (pte_flags a AND PAGE_PRESENT) 0" by (simp add: bit_simps PAGE_PRESENT_def PAGE_RW_def)
  then show ?thesis by (metis bit_0_eq bot_apply bot_bool_def)
qed

lemma low_bits: "take_bit 12 a = 0 \<longleftrightarrow> unat (a :: u32) mod 4096 = 0"
  by (simp add: word_unat_eq_iff unsigned_take_bit_eq take_bit_nat_def)

lemma low_bits_add: "unat (a + b :: u32) mod 4096 = (unat a + unat b) mod 4096"
  by (simp add: unat_word_ariths mod_mod_cancel)

lemma aligned_add: "take_bit 12 a = 0 \<Longrightarrow> take_bit 12 (a + PAGE_SIZE * b) = (0 :: u32)"
proof -
  assume a: "take_bit 12 a = 0"
  have "unat (PAGE_SIZE * b) mod 4096 = 0" by (simp add: PAGE_SIZE_def unat_word_ariths mod_mod_cancel)
  then show ?thesis using a by (simp add: low_bits low_bits_add mod_add_eq [symmetric])
qed

lemma word_unat_eqI: "unat x = n \<Longrightarrow> x = of_nat n"
  by auto

lemma ten_bits: "x AND 0x3FF = take_bit 10 (x :: u32)"
  by (simp add: take_bit_eq_mask mask_eq_exp_minus_1)

lemma high_index:
  assumes "unat pa < 0x40000000"
  shows "GET_PGDIR (pa + KERNEL_PAGE_OFFSET) = of_nat (768 + unat pa div 4194304)"
    and "GET_PGTBL (pa + KERNEL_PAGE_OFFSET) = of_nat (unat pa div 4096 mod 1024)"
proof -
  have "unat (pa + KERNEL_PAGE_OFFSET) = unat pa + 3221225472"
    using assms unat_add_lem [of pa KERNEL_PAGE_OFFSET] by (simp add: KERNEL_PAGE_OFFSET_def)
  moreover have "unat pa div 4194304 < 256" using assms by (simp add: less_mult_imp_div_less)
  moreover have "(unat pa + 3221225472) div 4194304 = 768 + unat pa div 4194304" by simp
  moreover have "(unat pa + 3221225472) div 4096 = unat pa div 4096 + 768 * 1024"
    using div_mult_self1 [of 4096 "unat pa" 786432] by simp
  then have "(unat pa + 3221225472) div 4096 mod 1024 = unat pa div 4096 mod 1024" by (simp only: mod_mult_self1)
  ultimately have "unat (GET_PGDIR (pa + KERNEL_PAGE_OFFSET)) = 768 + unat pa div 4194304"
    "unat (GET_PGTBL (pa + KERNEL_PAGE_OFFSET)) = unat pa div 4096 mod 1024"
    by (simp_all add: ten_bits GET_PGDIR_def GET_PGTBL_def unsigned_take_bit_eq unat_drop_bit_eq drop_bit_nat_def take_bit_nat_def)
  then show "GET_PGDIR (pa + KERNEL_PAGE_OFFSET) = of_nat (768 + unat pa div 4194304)"
    "GET_PGTBL (pa + KERNEL_PAGE_OFFSET) = of_nat (unat pa div 4096 mod 1024)"
    by - (erule word_unat_eqI)+
qed

text \<open>A page number and the offset in the page make the address.\<close>

lemma page_and_offset: "push_bit 12 (of_nat (unat pa div 4096)) OR (pa + KERNEL_PAGE_OFFSET AND NOT PAGE_MASK) = (pa :: u32)"
proof -
  have "unat (drop_bit 12 pa) = unat pa div 4096" by (simp add: unat_drop_bit_eq drop_bit_nat_def)
  then have "of_nat (unat pa div 4096) = drop_bit 12 pa" by (auto intro: word_unat_eqI [symmetric])
  moreover have "take_bit 12 (pa + KERNEL_PAGE_OFFSET) = take_bit 12 pa"
    using low_bits_add [of pa KERNEL_PAGE_OFFSET]
    by (simp add: KERNEL_PAGE_OFFSET_def word_unat_eq_iff unsigned_take_bit_eq take_bit_nat_def mod_add_eq [symmetric])
  moreover have "push_bit 12 (drop_bit 12 pa) OR take_bit 12 pa = pa"
    by (intro bit_word_eqI) (auto simp: bit_simps)
  ultimately show ?thesis by (simp add: PAGE_MASK_eq take_bit_eq_mask)
qed

lemma table_entry_at:
  assumes "unat pa < 0x40000000"
  shows "dir + PAGE_SIZE + PAGE_SIZE * of_nat (unat pa div 4194304) + 4 * GET_PGTBL (pa + KERNEL_PAGE_OFFSET) =
    dir + 4 * of_nat (1024 + unat pa div 4096)"
proof -
  have "unat pa div 4096 = 1024 * (unat pa div 4194304) + unat pa div 4096 mod 1024"
    using div_mult2_eq [of "unat pa" 4096 1024] by simp
  then have "of_nat (unat pa div 4096) = (of_nat (1024 * (unat pa div 4194304) + unat pa div 4096 mod 1024) :: u32)"
    by (rule arg_cong)
  then show ?thesis unfolding high_index [OF assms] by (simp add: PAGE_SIZE_def algebra_simps)
qed

lemma map_pages_translate:
  assumes "n \<le> 0x40000" "unat pa < 4096 * n" "take_bit 12 dir = 0"
  shows "translate (map_pages dir (dir + PAGE_SIZE) n m) dir (pa + KERNEL_PAGE_OFFSET) = Some pa"
proof -
  let ?m = "map_pages dir (dir + PAGE_SIZE) n m"
  let ?i = "unat pa div 4096" and ?k = "unat pa div 4194304"
  have pa: "unat pa < 0x40000000" using assms(1,2) by simp
  have "?i < n" using assms(2) by (simp add: less_mult_imp_div_less mult.commute)
  moreover have "?k = ?i div 1024" using div_mult2_eq [of "unat pa" 4096 1024] by simp
  moreover have "?k < 256" using pa by (simp add: less_mult_imp_div_less)
  ultimately have i: "?i < n" "?k = ?i div 1024" "?k < 256" .
  have "1024 * ?k \<le> ?i" unfolding i(2) by simp
  with i(1) have "1024 * ?k < n" by (rule le_less_trans [rotated])
  then have pde: "get_u32 ?m (dir + 4 * GET_PGDIR (pa + KERNEL_PAGE_OFFSET)) =
      pte_flags (dir + PAGE_SIZE + PAGE_SIZE * of_nat ?k)"
    unfolding high_index [OF pa] by (rule map_pages_dir) (use assms(1) i(3) in simp_all)
  have al: "take_bit 12 (dir + PAGE_SIZE + PAGE_SIZE * of_nat ?k) = 0"
    using aligned_add [OF aligned_add [OF assms(3), of 1], of "of_nat ?k"] by simp
  have pte: "get_u32 ?m (dir + PAGE_SIZE + PAGE_SIZE * of_nat ?k + 4 * GET_PGTBL (pa + KERNEL_PAGE_OFFSET)) =
      pte_flags (push_bit 12 (of_nat ?i))"
    unfolding table_entry_at [OF pa] by (rule map_pages_table) (use assms(1) i(1) in simp_all)
  have "take_bit 12 (push_bit 12 (of_nat ?i :: u32)) = 0" by (auto simp: take_bit_12 bit_simps)
  then show ?thesis
    using page_and_offset [of pa] al
    by (simp add: translate_def pde pte pte_flags_mask pte_flags_present Let_def)
qed

text \<open>Where the words of the directory and of its tables were zero, nothing else is mapped.\<close>

lemma map_pages_translate_none:
  assumes n: "n \<le> 0x40000" and dir: "take_bit 12 dir = 0"
    and zero: "\<And>j. j < 1024 + 1024 * ((n + 1023) div 1024) \<Longrightarrow> word_at m dir j = 0"
    and va: "va < KERNEL_PAGE_OFFSET \<or> 4096 * n \<le> unat (va - KERNEL_PAGE_OFFSET)"
  shows "translate (map_pages dir (dir + PAGE_SIZE) n m) dir va = None"
proof (cases "va < KERNEL_PAGE_OFFSET")
  case True
  then have "unat va div 4194304 < 768"
    by (simp add: word_less_nat_alt KERNEL_PAGE_OFFSET_def less_mult_imp_div_less)
  moreover from this have "unat (GET_PGDIR va) = unat va div 4194304"
    by (simp add: GET_PGDIR_def ten_bits unsigned_take_bit_eq unat_drop_bit_eq drop_bit_nat_def take_bit_nat_def)
  then have "GET_PGDIR va = of_nat (unat va div 4194304)" by (rule word_unat_eqI)
  ultimately have "get_u32 (map_pages dir (dir + PAGE_SIZE) n m) (dir + 4 * GET_PGDIR va) = 0"
    using n zero [of "unat va div 4194304"] by (simp add: word_at_def [symmetric] map_pages_words)
  then show ?thesis by (simp add: translate_def)
next
  case False
  define pa where "pa = va - KERNEL_PAGE_OFFSET"
  then have v: "va = pa + KERNEL_PAGE_OFFSET" by simp
  let ?i = "unat pa div 4096" and ?k = "unat pa div 4194304"
  have "unat pa = unat va - 3221225472"
    using False by (simp add: pa_def unat_sub_if' not_less word_le_nat_alt KERNEL_PAGE_OFFSET_def)
  then have pa: "unat pa < 0x40000000" using unat_lt_u32 [of va] by simp
  have k: "?k = ?i div 1024" using div_mult2_eq [of "unat pa" 4096 1024] by simp
  have k256: "?k < 256" using pa by (simp add: less_mult_imp_div_less)
  have i: "n \<le> ?i" using va False by (simp add: pa_def less_eq_div_iff_mult_less_eq mult.commute)
  show ?thesis
  proof (cases "1024 * ?k < n")
    case True
    have "?i < 1024 * ((n + 1023) div 1024)"
    proof -
      have "?k < (n + 1023) div 1024" using True by linarith
      then show ?thesis unfolding k using div_mult_mod_eq [of ?i 1024] mod_less_divisor [of 1024 ?i] by linarith
    qed
    then have "get_u32 (map_pages dir (dir + PAGE_SIZE) n m)
        (dir + PAGE_SIZE + PAGE_SIZE * of_nat ?k + 4 * GET_PGTBL va) = 0"
      unfolding v table_entry_at [OF pa] word_at_def [symmetric] using n i zero [of "1024 + ?i"] pa by (subst map_pages_words) auto
    moreover have "get_u32 (map_pages dir (dir + PAGE_SIZE) n m) (dir + 4 * GET_PGDIR va) =
        pte_flags (dir + PAGE_SIZE + PAGE_SIZE * of_nat ?k)"
      unfolding v high_index [OF pa] by (rule map_pages_dir) (use True n k256 in simp_all)
    moreover have "take_bit 12 (dir + PAGE_SIZE + PAGE_SIZE * of_nat ?k) = 0"
      using aligned_add [OF aligned_add [OF dir, of 1], of "of_nat ?k"] by simp
    ultimately show ?thesis by (simp add: translate_def pte_flags_mask Let_def)
  next
    case False
    have "get_u32 (map_pages dir (dir + PAGE_SIZE) n m) (dir + 4 * GET_PGDIR va) = 0"
      unfolding v high_index [OF pa] word_at_def [symmetric]
      using n False k256 zero [of "768 + ?k"] by (subst map_pages_words) auto
    then show ?thesis by (simp add: translate_def)
  qed
qed

section \<open>The kernel's memory after the start\<close>

lemma PAGE_ALIGN_low [simp]: "take_bit 12 (PAGE_ALIGN a) = 0"
  unfolding PAGE_ALIGN_def PAGE_MASK_eq by (rule bit_word_eqI) (auto simp: bit_simps)

lemma V2P_P2V: "a < KERNEL_PAGE_OFFSET \<Longrightarrow> V2P (P2V a) = a"
  by (simp add: V2P_def P2V_def)

text \<open>The directory and \<open>t\<close> tables are cleared one after the other.\<close>

lemma cleared_words:
  assumes "t \<le> 256" "j < 1024 + 1024 * t"
  shows "word_at (fst (kmemset (fst (kmemset m dir 0 PAGE_SIZE)) (dir + PAGE_SIZE) 0 (of_nat t * PAGE_SIZE))) dir j = 0"
    (is "word_at (fst (kmemset ?m _ _ _)) _ _ = _")
proof -
  have sz: "unat (of_nat t * PAGE_SIZE :: u32) = 4096 * t"
    using assms(1) unat_of_nat_u32 [of "4096 * t"] by (simp add: PAGE_SIZE_def mult.commute)
  show ?thesis
  proof (cases "j < 1024")
    case True
    then have j: "unat (4 * of_nat j :: u32) = 4 * j" using unat_of_nat_u32 [of "4 * j"] by simp
    have far: "of_nat t * PAGE_SIZE \<le> dir + 4 * of_nat j + of_nat i - (dir + PAGE_SIZE)" if "i < 4" for i
    proof -
      have "dir + 4 * of_nat j + of_nat i - (dir + PAGE_SIZE) = - of_nat (4096 - 4 * j - i)"
        using True that by (simp add: PAGE_SIZE_def of_nat_diff)
      moreover have "unat (- of_nat (4096 - 4 * j - i) :: u32) = 4294967296 - (4096 - 4 * j - i)"
        by (rule unat_uminus_u32) (use True that in auto)
      ultimately show ?thesis using sz assms(1) by (simp add: word_le_nat_alt)
    qed
    have "word_at (fst (kmemset ?m (dir + PAGE_SIZE) 0 (of_nat t * PAGE_SIZE))) dir j = word_at ?m dir j"
      unfolding word_at_def using far [of 0] far [of 1] far [of 2] far [of 3]
      by (intro kmemset_get_u32_outside) simp_all
    moreover have "word_at ?m dir j = 0"
      unfolding word_at_def using True j by (intro kmemset_get_u32) (simp_all add: PAGE_SIZE_def word_less_nat_alt)
    ultimately show ?thesis by simp
  next
    case False
    have d: "dir + 4 * of_nat j - (dir + PAGE_SIZE) = of_nat (4 * (j - 1024))"
      using False by (simp add: PAGE_SIZE_def of_nat_diff)
    have u: "unat (dir + 4 * of_nat j - (dir + PAGE_SIZE)) = 4 * (j - 1024)"
      unfolding d by (rule unat_of_nat_u32) (use assms in simp)
    have "4 * (j - 1024) + 4 \<le> 4096 * t" using assms(2) False by simp
    then show ?thesis unfolding word_at_def
      by (intro kmemset_get_u32) (simp_all only: u sz word_less_nat_alt)
  qed
qed

lemma table_count:
  assumes "p \<le> 0x40000"
  shows "p div 1024 + (if p mod 1024 \<noteq> 0 then 1 else 0) = (of_nat ((unat p + 1023) div 1024) :: u32)"
proof (rule word_unat_eqI)
  have p: "unat p \<le> 262144" using assms by (simp add: word_le_nat_alt)
  have "p mod 1024 = 0 \<longleftrightarrow> unat p mod 1024 = 0" by (simp add: word_unat_eq_iff unat_mod_distrib)
  moreover have "unat (p div 1024) = unat p div 1024" by (simp add: unat_div_distrib)
  moreover have "unat p div 1024 \<le> 256" using div_le_mono [OF p, of 1024] by simp
  ultimately have "unat (p div 1024 + (if p mod 1024 \<noteq> 0 then 1 else 0)) =
      unat p div 1024 + (if unat p mod 1024 \<noteq> 0 then 1 else 0)"
    by (simp add: unat_word_ariths)
  also have "\<dots> = (unat p + 1023) div 1024"
  proof -
    obtain q r where "unat p = 1024 * q + r" "r < 1024" "unat p div 1024 = q" "unat p mod 1024 = r"
      using that [of "unat p div 1024" "unat p mod 1024"] by simp
    then show ?thesis by (intro div_nat_eqI [symmetric]) auto
  qed
  finally show "unat (p div 1024 + (if p mod 1024 \<noteq> 0 then 1 else 0)) = (unat p + 1023) div 1024" .
qed

lemma mem_init_tables_translate:
  assumes "physical_pages s \<le> 0x40000" "PAGE_ALIGN (real_last_addr s) < KERNEL_PAGE_OFFSET"
  shows "translate (bmem (mem_init_tables s)) (V2P (kpage_dir (mem_init_tables s))) va =
    (if KERNEL_PAGE_OFFSET \<le> va \<and> unat (va - KERNEL_PAGE_OFFSET) < 4096 * unat (physical_pages s)
     then Some (va - KERNEL_PAGE_OFFSET) else None)"
proof -
  let ?n = "unat (physical_pages s)" and ?dir = "PAGE_ALIGN (real_last_addr s)"
  let ?t = "(?n + 1023) div 1024"
  let ?m = "fst (kmemset (fst (kmemset (bmem s) ?dir 0 PAGE_SIZE)) (?dir + PAGE_SIZE) 0 (of_nat ?t * PAGE_SIZE))"
  have n: "?n \<le> 0x40000" using assms by (simp add: word_le_nat_alt)
  have s: "bmem (mem_init_tables s) = map_pages ?dir (?dir + PAGE_SIZE) ?n ?m"
    "V2P (kpage_dir (mem_init_tables s)) = ?dir"
    by (simp_all only: mem_init_tables_def table_count [OF assms(1)])
      (simp_all add: mem_assign_cleared_def Let_def V2P_P2V assms(2))
  have zero: "word_at ?m ?dir j = 0" if "j < 1024 + 1024 * ?t" for j
    by (rule cleared_words) (use n that in simp_all)
  show ?thesis
  proof (cases "KERNEL_PAGE_OFFSET \<le> va \<and> unat (va - KERNEL_PAGE_OFFSET) < 4096 * ?n")
    case True
    then show ?thesis
      using map_pages_translate [OF n, of "va - KERNEL_PAGE_OFFSET" ?dir ?m] by (simp add: s)
  next
    case False
    then have "va < KERNEL_PAGE_OFFSET \<or> 4096 * ?n \<le> unat (va - KERNEL_PAGE_OFFSET)" by auto
    then show ?thesis using False map_pages_translate_none [OF n PAGE_ALIGN_low zero, of va] by (simp add: s)
  qed
qed

text \<open>What \<open>mem_init\<close> leaves, piece by piece: each structure follows the one before it.\<close>

lemma mem_init_parts:
  assumes "mem_init sz v s h = Some (s', h')"
  shows "bmem s' = bmem (mem_init_tables s)" "kpage_dir s' = kpage_dir (mem_init_tables s)"
    "bios_mmap_has_addr s' = bios_mmap_has_addr s"
    "proc_list_at s' = real_last_addr (mem_init_tables s)"
    "scrollback_at s' = proc_list_at s' + proc_list_size s'"
    "free_page_list_at s' = page_cache_at s' + page_cache_size s'"
    "real_last_addr s' = free_page_list_at s' + free_page_list_size s'"
    "free_page_list_size s' = PAGE_ALIGN (physical_pages s * sizeof_page)"
    "page_cache_size s' = PAGE_ALIGN (page_cache_pages (physical_pages s) * PAGE_SIZE)"
    "\<exists>t. page_init (bios_mmap_has_addr s) (real_last_addr s') (unat (physical_pages s))
           (h\<lparr>NUM_PAGES := unat (free_page_list_size s' div sizeof_page),
              NUM_CACHED_PAGES := unat (page_cache_size s' div 4)\<rparr>) = Some t \<and> h' = buddy_init t"
proof -
  have [simp]: "bios_mmap_has_addr (t\<lparr>real_last_addr := a\<rparr>) = bios_mmap_has_addr t"
    "bios_mmap_has_addr (t\<lparr>proc_list_at := a\<rparr>) = bios_mmap_has_addr t"
    "bios_mmap_has_addr (t\<lparr>proc_list_size := a\<rparr>) = bios_mmap_has_addr t"
    "bios_mmap_has_addr (t\<lparr>scrollback_at := a\<rparr>) = bios_mmap_has_addr t"
    "bios_mmap_has_addr (t\<lparr>page_cache_at := a\<rparr>) = bios_mmap_has_addr t"
    "bios_mmap_has_addr (t\<lparr>page_cache_size := a\<rparr>) = bios_mmap_has_addr t"
    "bios_mmap_has_addr (t\<lparr>free_page_list_at := a\<rparr>) = bios_mmap_has_addr t"
    "bios_mmap_has_addr (t\<lparr>free_page_list_size := a\<rparr>) = bios_mmap_has_addr t"
    for t :: "'a layout_state_scheme" and a
    by (simp_all add: bios_mmap_has_addr_def fun_eq_iff)
  have [simp]: "bios_mmap_has_addr (mem_init_tables s) = bios_mmap_has_addr s"
    "physical_pages (mem_init_tables s) = physical_pages s"
    by (simp_all add: mem_init_tables_def mem_assign_cleared_def Let_def bios_mmap_has_addr_def fun_eq_iff)
  note assms [unfolded mem_init_def]
  then show "bmem s' = bmem (mem_init_tables s)" "kpage_dir s' = kpage_dir (mem_init_tables s)"
    "bios_mmap_has_addr s' = bios_mmap_has_addr s"
    "proc_list_at s' = real_last_addr (mem_init_tables s)"
    "scrollback_at s' = proc_list_at s' + proc_list_size s'"
    "free_page_list_at s' = page_cache_at s' + page_cache_size s'"
    "real_last_addr s' = free_page_list_at s' + free_page_list_size s'"
    "free_page_list_size s' = PAGE_ALIGN (physical_pages s * sizeof_page)"
    "page_cache_size s' = PAGE_ALIGN (page_cache_pages (physical_pages s) * PAGE_SIZE)"
    "\<exists>t. page_init (bios_mmap_has_addr s) (real_last_addr s') (unat (physical_pages s))
           (h\<lparr>NUM_PAGES := unat (free_page_list_size s' div sizeof_page),
              NUM_CACHED_PAGES := unat (page_cache_size s' div 4)\<rparr>) = Some t \<and> h' = buddy_init t"
    by (auto simp: mem_assign_def Option.bind_eq_Some_conv Let_def)
qed

lemma PAGE_ALIGN_ge:
  assumes "unat x < 0xFFFFF000"
  shows "unat x \<le> unat (PAGE_ALIGN x)"
proof -
  let ?y = "x + (PAGE_SIZE - 1)"
  have y: "unat ?y = unat x + 4095"
    using assms unat_add_lem [of x "PAGE_SIZE - 1"] by (simp add: PAGE_SIZE_def)
  have "PAGE_ALIGN x + take_bit 12 ?y = ?y"
  proof -
    have "PAGE_ALIGN x = push_bit 12 (drop_bit 12 ?y)"
      unfolding PAGE_ALIGN_def PAGE_MASK_eq by (rule bit_word_eqI) (auto simp: bit_simps)
    then show ?thesis by (simp add: bits_ident)
  qed
  moreover have t: "unat (take_bit 12 ?y) \<le> 4095"
    using mod_less_divisor [of 4096 "unat ?y"] by (simp add: unsigned_take_bit_eq take_bit_nat_def del: mod_less_divisor)
  ultimately have "unat x + 4095 \<le> unat (PAGE_ALIGN x) + 4095"
    using y unat_plus_if' [of "PAGE_ALIGN x" "take_bit 12 ?y"] by (auto split: if_splits)
  then show ?thesis by simp
qed

text \<open>C9: after \<open>mem_init\<close> the page directory that it built maps the kernel's half of the address space onto
  physical memory, each address to the one \<open>KERNEL_PAGE_OFFSET\<close> below, for all physical pages and nothing
  else: no address below \<open>KERNEL_PAGE_OFFSET\<close> is mapped, nor one past the last page.\<close>

theorem mem_init_maps:
  assumes "mem_init sz v s h = Some (s', h')" "physical_pages s \<le> 0x40000"
    "PAGE_ALIGN (real_last_addr s) < KERNEL_PAGE_OFFSET"
  shows "translate (bmem s') (V2P (kpage_dir s')) va =
    (if KERNEL_PAGE_OFFSET \<le> va \<and> unat (va - KERNEL_PAGE_OFFSET) < 4096 * unat (physical_pages s)
     then Some (va - KERNEL_PAGE_OFFSET) else None)"
  using mem_init_tables_translate [OF assms(2,3)] mem_init_parts(1,2) [OF assms(1)] by simp

lemma page_frame:
  assumes "i < n" "n \<le> 0x40000"
  shows "unat (push_bit 12 (of_nat i) :: u32) = 4096 * i"
    "P2V (push_bit 12 (of_nat i)) = push_bit 12 (of_nat i) + KERNEL_PAGE_OFFSET"
proof -
  have "(push_bit 12 (of_nat i) :: u32) = of_nat (4096 * i)" by (simp add: push_bit_eq_mult mult.commute)
  then show u: "unat (push_bit 12 (of_nat i) :: u32) = 4096 * i"
    using assms unat_of_nat_u32 [of "4096 * i"] by simp
  then show "P2V (push_bit 12 (of_nat i)) = push_bit 12 (of_nat i) + KERNEL_PAGE_OFFSET"
    using assms by (simp add: P2V_def word_less_nat_alt KERNEL_PAGE_OFFSET_def)
qed

text \<open>There is room for all pages in the list, and for at least one entry in the table of cached pages.\<close>

lemma mem_init_room:
  assumes "mem_init sz v s h = Some (s', h')" "physical_pages s \<le> 0x40000"
  shows "unat (physical_pages s) \<le> unat (free_page_list_size s' div sizeof_page)" "0 < unat (page_cache_size s' div 4)"
proof -
  note parts = mem_init_parts [OF assms(1)]
  let ?n = "unat (physical_pages s)"
  have n: "?n \<le> 0x40000" using assms(2) by (simp add: word_le_nat_alt)
  have "unat (physical_pages s * sizeof_page) = ?n * 44"
    using n unat_mult_lem [of "physical_pages s" sizeof_page] by (simp add: sizeof_page_def)
  then have "?n * 44 \<le> unat (free_page_list_size s')"
    using PAGE_ALIGN_ge [of "physical_pages s * sizeof_page"] n by (simp add: parts(8))
  then show "?n \<le> unat (free_page_list_size s' div sizeof_page)"
    by (simp add: unat_div_distrib sizeof_page_def less_eq_div_iff_mult_less_eq)
  show "0 < unat (page_cache_size s' div 4)"
  proof -
    let ?p = "page_cache_pages (physical_pages s)"
    have p: "1 \<le> unat ?p" "unat ?p \<le> 16"
      by (auto simp: page_cache_pages_def Let_def MAX_PAGES_HASH_def word_less_nat_alt)
    then have "unat (?p * PAGE_SIZE) = unat ?p * 4096"
      using unat_mult_lem [of ?p PAGE_SIZE] by (simp add: PAGE_SIZE_def)
    then have "4096 \<le> unat (page_cache_size s')" using PAGE_ALIGN_ge [of "?p * PAGE_SIZE"] p by (simp add: parts(9))
    then show ?thesis by (simp add: unat_div_distrib less_eq_div_iff_mult_less_eq div_greater_zero_iff)
  qed
qed

lemma mem_init_frame_mapped:
  assumes "mem_init sz v s h = Some (s', h')" "physical_pages s \<le> 0x40000" "PAGE_ALIGN (real_last_addr s) < KERNEL_PAGE_OFFSET"
    "i < unat (physical_pages s)"
  shows "translate (bmem s') (V2P (kpage_dir s')) (push_bit 12 (of_nat i) + KERNEL_PAGE_OFFSET) = Some (push_bit 12 (of_nat i))"
proof -
  note parts = mem_init_parts [OF assms(1)]
  have n: "unat (physical_pages s) \<le> 0x40000" using assms(2) by (simp add: word_le_nat_alt)
  have "unat (push_bit 12 (of_nat i) + KERNEL_PAGE_OFFSET) = 4096 * i + 3221225472"
    using assms(4) n page_frame(1) [OF assms(4) n] unat_add_lem [of "push_bit 12 (of_nat i)" KERNEL_PAGE_OFFSET]
    by (simp add: KERNEL_PAGE_OFFSET_def)
  then have "KERNEL_PAGE_OFFSET \<le> push_bit 12 (of_nat i) + KERNEL_PAGE_OFFSET"
    by (simp add: word_le_nat_alt KERNEL_PAGE_OFFSET_def)
  then show ?thesis
    using assms(4) page_frame(1) [OF assms(4) n] mem_init_tables_translate [OF assms(2,3)] parts(1,2) by simp
qed

text \<open>C12: \<open>mem_init\<close> hands to the page allocator exactly the pages that the memory map reports, outside the
  first page of the boot stack and outside the memory from 1 MB to the end of the structures it has laid out
  (the directory, the tables, the processes, the scroll-back buffer, the table of cached pages and the list of
  pages, one after the other). The address that a free page carries is mapped to the frame of that page.\<close>

theorem mem_init_free_pages:
  assumes "mem_init sz v s h = Some (s', h')" "free_head h = None" "num_free_pages h = 0"
    "physical_pages s \<le> 0x40000" "PAGE_ALIGN (real_last_addr s) < KERNEL_PAGE_OFFSET"
  shows "\<exists>fs. free_list h' fs \<and>
    set fs = {i. i < unat (physical_pages s) \<and>
      (let a = push_bit 12 (of_nat i) in bios_mmap_has_addr s a \<and> (a < 0x100000 \<or> V2P (real_last_addr s') \<le> a) \<and> a \<noteq> 0xF000)} \<and>
    (\<forall>i \<in> set fs. translate (bmem s') (V2P (kpage_dir s')) (pg_data (pages h' i)) = Some (push_bit 12 (of_nat i))) \<and>
    scrollback_at s' = proc_list_at s' + proc_list_size s' \<and>
    free_page_list_at s' = page_cache_at s' + page_cache_size s' \<and>
    real_last_addr s' = free_page_list_at s' + free_page_list_size s'"
proof -
  note parts = mem_init_parts [OF assms(1)]
  let ?n = "unat (physical_pages s)"
  have n: "?n \<le> 0x40000" using assms(4) by (simp add: word_le_nat_alt)
  let ?h = "h\<lparr>NUM_PAGES := unat (free_page_list_size s' div sizeof_page),
              NUM_CACHED_PAGES := unat (page_cache_size s' div 4)\<rparr>"
  obtain t where t: "page_init (bios_mmap_has_addr s) (real_last_addr s') ?n ?h = Some t"
    "free_list t (boot_pages (bios_mmap_has_addr s) (real_last_addr s') ?n)"
    "\<forall>i < ?n. page_usable (bios_mmap_has_addr s) (real_last_addr s') i \<longrightarrow>
       pg_data (pages t i) = P2V (push_bit 12 (of_nat i))"
    using page_init_boot [of ?h ?n "bios_mmap_has_addr s" "real_last_addr s'"] assms(2,3) mem_init_room [OF assms(1,4)] by fastforce
  then have h': "h' = buddy_init t" using parts(10) by simp
  have "free_list h' (boot_pages (bios_mmap_has_addr s) (real_last_addr s') ?n)"
    unfolding h' by (rule free_list_cong [OF t(2)]) (simp_all add: buddy_init_def)
  moreover have "set (boot_pages (bios_mmap_has_addr s) (real_last_addr s') ?n) =
    {i. i < ?n \<and> (let a = push_bit 12 (of_nat i) in bios_mmap_has_addr s a \<and>
       (a < 0x100000 \<or> V2P (real_last_addr s') \<le> a) \<and> a \<noteq> 0xF000)}"
    by (auto simp: boot_pages_def page_usable_def PAGE_SHIFT_def KERNEL_PHYSICAL_BASE_def Let_def not_less not_le)
  moreover have "translate (bmem s') (V2P (kpage_dir s')) (pg_data (pages h' i)) = Some (push_bit 12 (of_nat i))"
    if "i \<in> set (boot_pages (bios_mmap_has_addr s) (real_last_addr s') ?n)" for i
  proof -
    have i: "i < ?n" "pg_data (pages h' i) = push_bit 12 (of_nat i) + KERNEL_PAGE_OFFSET"
      using that t(3) page_frame [OF _ n, of i] by (auto simp: boot_pages_def h' buddy_init_def)
    then show ?thesis using mem_init_frame_mapped [OF assms(1,4,5) i(1)] by simp
  qed
  ultimately show ?thesis using parts(5-7)
    by (intro exI [of _ "boot_pages (bios_mmap_has_addr s) (real_last_addr s') ?n"]) blast
qed

section \<open>Example\<close>

text \<open>A machine with 8 MB in its map, of which two pages are counted.\<close>

definition layout_example :: layout_state where
  "layout_example = \<lparr>bmem = (\<lambda>_. 0), bios_map = [],
     kernel_map = [\<lparr>bm_from = 0, bm_from_high = 0, bm_to = 0x800000, bm_to_high = 0, bm_type = 1\<rparr>],
     memsize = 640, extmemsize = 0, physical_pages = 2, real_last_addr = 0x100000, kpage_dir = 0,
     proc_list_at = 0, proc_list_size = 0, scrollback_at = 0, page_cache_at = 0, page_cache_size = 0,
     free_page_list_at = 0, free_page_list_size = 0\<rparr>"

definition pages_example :: buddy_state where
  "pages_example = page_state.extend (two_free_pages\<lparr>free_head := None, num_free_pages := 0\<rparr>)
     (buddy_state.fields (\<lambda>_. None) (\<lambda>_. \<lparr>bh_level = 0, bh_next = None, bh_prev = None\<rparr>))"

lemma mem_init_example:
  "\<exists>s' h'. mem_init 200 (zero_video\<lparr>vd_columns := 80, vd_lines := 25\<rparr>) layout_example pages_example = Some (s', h')"
proof -
  have a: "PAGE_ALIGN 0x100000 = 0x100000" "PAGE_ALIGN 12800 = 0x4000" "PAGE_ALIGN 4096 = 4096" "PAGE_ALIGN 88 = 4096"
    by (simp_all add: PAGE_ALIGN_def PAGE_MASK_def PAGE_SIZE_def)
  have m: "bios_mmap_has_addr s x = (x < 0x800000)" if "kernel_map s = kernel_map layout_example"
    for s :: layout_state and x
    using that by (simp add: bios_mmap_has_addr_def layout_example_def Let_def bmm_holds_def
      MULTIBOOT_MEMORY_AVAILABLE_def MULTIBOOT_MEMORY_RESERVED_def PAGE_MASK_def PAGE_SIZE_def)
  have sb: "scrollback_size (zero_video\<lparr>vd_columns := 80, vd_lines := 25\<rparr>) = Some 48000"
    by (simp add: scrollback_size_def zero_video_def VIDEO_MAX_SCROLLBACK_SCREENS_def to_int_def int_ok_def INT_MIN_def INT_MAX_def)
  have c: "page_cache_pages 2 = 1"
    by (simp add: page_cache_pages_def PAGE_HASH_PER_10K_def MAX_PAGES_HASH_def Let_def)
  have t: "real_last_addr (mem_init_tables layout_example) = 0xC0102000"
    "kernel_map (mem_init_tables layout_example) = kernel_map layout_example"
    "physical_pages (mem_init_tables layout_example) = 2"
    by (simp_all add: mem_init_tables_def mem_assign_cleared_def layout_example_def Let_def a PAGE_SIZE_def
        P2V_def KERNEL_PAGE_OFFSET_def)
  have "\<exists>u. page_init f r 2 (pages_example\<lparr>NUM_PAGES := 93, NUM_CACHED_PAGES := 1024\<rparr>) = Some u" for f r
    using page_init_boot [of "pages_example\<lparr>NUM_PAGES := 93, NUM_CACHED_PAGES := 1024\<rparr>" 2 f r]
    by (auto simp: pages_example_def two_free_pages_def page_state.defs buddy_state.defs)
  then show ?thesis
    by (simp add: mem_init_def mem_assign_def Let_def t m a sb c LAYOUT_NUM_PROCS_def PAGE_SIZE_def sizeof_page_def
        V2P_def KERNEL_PAGE_OFFSET_def) (metis bind.bind_lunit)
qed

theorem mem_init_maps_witness:
  "\<exists>s' h'. mem_init 200 (zero_video\<lparr>vd_columns := 80, vd_lines := 25\<rparr>) layout_example pages_example = Some (s', h') \<and>
    translate (bmem s') (V2P (kpage_dir s')) 0xC0001234 = Some 0x1234 \<and>
    translate (bmem s') (V2P (kpage_dir s')) 0x1234 = None"
proof -
  obtain s' h' where s: "mem_init 200 (zero_video\<lparr>vd_columns := 80, vd_lines := 25\<rparr>) layout_example pages_example = Some (s', h')"
    using mem_init_example by blast
  have p: "physical_pages layout_example \<le> 0x40000" "PAGE_ALIGN (real_last_addr layout_example) < KERNEL_PAGE_OFFSET"
    by (simp_all add: layout_example_def PAGE_ALIGN_def PAGE_MASK_def PAGE_SIZE_def KERNEL_PAGE_OFFSET_def)
  have "translate (bmem s') (V2P (kpage_dir s')) 0xC0001234 = Some 0x1234"
    "translate (bmem s') (V2P (kpage_dir s')) 0x1234 = None"
    by (simp_all add: mem_init_maps [OF s p]) (simp_all add: KERNEL_PAGE_OFFSET_def layout_example_def)
  then show ?thesis using s by blast
qed

theorem mem_init_free_pages_witness:
  "\<exists>s' h'. mem_init 200 (zero_video\<lparr>vd_columns := 80, vd_lines := 25\<rparr>) layout_example pages_example = Some (s', h') \<and>
    free_page_list_at s' + free_page_list_size s' = real_last_addr s'"
proof -
  obtain s' h' where s: "mem_init 200 (zero_video\<lparr>vd_columns := 80, vd_lines := 25\<rparr>) layout_example pages_example = Some (s', h')"
    using mem_init_example by blast
  have p: "physical_pages layout_example \<le> 0x40000" "PAGE_ALIGN (real_last_addr layout_example) < KERNEL_PAGE_OFFSET"
    "free_head pages_example = None" "num_free_pages pages_example = 0"
    by (simp_all add: layout_example_def PAGE_ALIGN_def PAGE_MASK_def PAGE_SIZE_def KERNEL_PAGE_OFFSET_def
        pages_example_def two_free_pages_def page_state.defs buddy_state.defs)
  show ?thesis using mem_init_free_pages [OF s p(3,4,1,2)] s by fastforce
qed

section \<open>Where the temporary tables are\<close>

text \<open>the directory of \<open>mem_init_temporary\<close> takes a page, and its tables a byte for each kilobyte, from an
  address that leaves room for the tables only: whatever the size of the memory, the tables end at least a page
  beyond it.\<close>

theorem temporary_tables_beyond_memory:
  assumes "n = temporary_pages magic mbi_ptr m" "n \<le> 0xF0000"
    "mem_init_temporary magic mbi_ptr m = (pd, dir, m')"
  shows "pd = dir - KERNEL_PAGE_OFFSET \<and> n * 1024 + PAGE_SIZE \<le> V2P (dir + PAGE_SIZE + n)"
proof -
  have dir: "dir = PAGE_ALIGN (KERNEL_PAGE_OFFSET + n * 1024 - n)" "pd = dir - KERNEL_PAGE_OFFSET"
    using assms(3) by (auto simp only: mem_init_temporary_def assms(1) [symmetric] Let_def prod.inject)
  have n: "unat n \<le> 0xF0000" using assms(2) by (simp add: word_le_nat_alt)
  have k: "unat KERNEL_PAGE_OFFSET = 3221225472" "unat PAGE_SIZE = 4096"
    by (simp_all add: KERNEL_PAGE_OFFSET_def PAGE_SIZE_def)
  have x: "unat (KERNEL_PAGE_OFFSET + n * 1024 - n) = 3221225472 + unat n * 1023"
  proof -
    have "KERNEL_PAGE_OFFSET + n * 1024 - n = of_nat (3221225472 + unat n * 1023)"
      by (simp add: KERNEL_PAGE_OFFSET_def)
    then show ?thesis using n by (simp only: unat_of_nat_u32)
  qed
  then have d: "3221225472 + unat n * 1023 \<le> unat dir"
    unfolding dir using PAGE_ALIGN_ge [of "KERNEL_PAGE_OFFSET + n * 1024 - n"] n by simp
  have u: "unat dir \<le> 3221225472 + unat n * 1023 + 4095"
  proof -
    have "dir \<le> KERNEL_PAGE_OFFSET + n * 1024 - n + (PAGE_SIZE - 1)"
      unfolding dir PAGE_ALIGN_def by (rule word_and_le2)
    moreover have "unat (KERNEL_PAGE_OFFSET + n * 1024 - n + (PAGE_SIZE - 1)) \<le> 3221225472 + unat n * 1023 + 4095"
      using unat_plus_if' [of "KERNEL_PAGE_OFFSET + n * 1024 - n" "PAGE_SIZE - 1"] x by (simp add: PAGE_SIZE_def split: if_splits)
    ultimately show ?thesis by (simp add: word_le_nat_alt)
  qed
  have "unat (dir + PAGE_SIZE + n - KERNEL_PAGE_OFFSET) = unat dir + 4096 + unat n - 3221225472"
  proof -
    have "dir + PAGE_SIZE + n - KERNEL_PAGE_OFFSET = of_nat (unat dir + 4096 + unat n - 3221225472)"
      using d by (simp add: of_nat_diff KERNEL_PAGE_OFFSET_def PAGE_SIZE_def)
    then show ?thesis using n u unat_of_nat_u32 [of "unat dir + 4096 + unat n - 3221225472"] by simp
  qed
  moreover have "unat (n * 1024 + PAGE_SIZE) = unat n * 1024 + 4096"
  proof -
    have "n * 1024 + PAGE_SIZE = of_nat (unat n * 1024 + 4096)" by (simp add: PAGE_SIZE_def)
    then show ?thesis using n unat_of_nat_u32 [of "unat n * 1024 + 4096"] by simp
  qed
  ultimately show ?thesis using d dir(2) by (simp add: V2P_def word_le_nat_alt)
qed

theorem temporary_tables_beyond_memory_witness:
  "\<exists>pd dir m'. mem_init_temporary 0 0 (\<lambda>_. 0) = (pd, dir, m') \<and> 0x401000 \<le> V2P (dir + 0x2000)"
proof -
  obtain pd dir m' where "mem_init_temporary 0 0 (\<lambda>_. 0) = (pd, dir, m')" by (metis prod_cases3)
  moreover have "temporary_pages 0 0 (\<lambda>_. 0) = 4096"
    by (simp add: temporary_pages_def MULTIBOOT_BOOTLOADER_MAGIC_def DEFAULT_NUM_PAGES_def)
  ultimately show ?thesis
    using temporary_tables_beyond_memory [of 4096 0 0 "\<lambda>_. 0" pd dir m']
    by (simp add: PAGE_SIZE_def add.commute [of "0x2000"])
qed

end
