(* ===== verification/Keymap.thy ===== *)
theory Keymap
  imports Prelude
begin

text \<open>
  The keyboard tables: \<open>src/drivers/src/dev/char/keymap.c\<close> with \<open>keymap.h\<close> and \<open>keyboard.h\<close> of
  \<open>src/include/drivers/dev/char\<close>. A row of \<open>keymap\<close> holds the sixteen modifier combinations of a scancode;
  the source fills six of them, for no modifier, shift, the right alt key, both, control and alt.
\<close>

section \<open>Key codes\<close>

definition KEYBOARD_IRQ :: int where "KEYBOARD_IRQ = 1"
definition EXTKEY :: u8 where "EXTKEY = 0xE0"
definition NUM_MODIFIERS :: nat where "NUM_MODIFIERS = 16"
definition NUM_SCODES :: nat where "NUM_SCODES = 128"
definition NUM_DIACR :: nat where "NUM_DIACR = 10"
definition FN_KEYS :: u16 where "FN_KEYS = 0x100"
definition SPEC_KEYS :: u16 where "SPEC_KEYS = 0x200"
definition PAD_KEYS :: u16 where "PAD_KEYS = 0x300"
definition DEAD_KEYS :: u16 where "DEAD_KEYS = 0x400"
definition CONS_KEYS :: u16 where "CONS_KEYS = 0x500"
definition SHIFT_KEYS :: u16 where "SHIFT_KEYS = 0x700"
definition META_KEYS :: u16 where "META_KEYS = 0x800"
definition LETTER_KEYS :: u16 where "LETTER_KEYS = 0xB00"
definition CR :: u16 where "CR = 0x01 + SPEC_KEYS"
definition SLASH_NPAD :: u8 where "SLASH_NPAD = 53"
definition SCRL2 :: u16 where "SCRL2 = 0x02 + SPEC_KEYS"
definition SCRL3 :: u16 where "SCRL3 = 0x03 + SPEC_KEYS"
definition SCRL4 :: u16 where "SCRL4 = 0x04 + SPEC_KEYS"
definition SYSRQ :: u16 where "SYSRQ = 0x06 + SPEC_KEYS"
definition CAPS :: u16 where "CAPS = 0x07 + SPEC_KEYS"
definition NUMS :: u16 where "NUMS = 0x08 + SPEC_KEYS"
definition SCRL :: u16 where "SCRL = 0x09 + SPEC_KEYS"
definition SHIFT :: u16 where "SHIFT = 0x00 + SHIFT_KEYS"
definition CTRL :: u16 where "CTRL = 0x02 + SHIFT_KEYS"
definition ALT :: u16 where "ALT = 0x03 + SHIFT_KEYS"
definition LSHIFT :: u16 where "LSHIFT = 0x04 + SHIFT_KEYS"
definition RSHIFT :: u16 where "RSHIFT = 0x05 + SHIFT_KEYS"
definition LCTRL :: u16 where "LCTRL = 0x06 + SHIFT_KEYS"
definition INS :: u16 where "INS = 0x00 + PAD_KEYS"
definition END :: u16 where "END = 0x01 + PAD_KEYS"
definition DOWN :: u16 where "DOWN = 0x02 + PAD_KEYS"
definition PGDN :: u16 where "PGDN = 0x03 + PAD_KEYS"
definition LEFT :: u16 where "LEFT = 0x04 + PAD_KEYS"
definition MID :: u16 where "MID = 0x05 + PAD_KEYS"
definition RIGHT :: u16 where "RIGHT = 0x06 + PAD_KEYS"
definition HOME :: u16 where "HOME = 0x07 + PAD_KEYS"
definition UP :: u16 where "UP = 0x08 + PAD_KEYS"
definition PGUP :: u16 where "PGUP = 0x09 + PAD_KEYS"
definition PLUS :: u16 where "PLUS = 0x0A + PAD_KEYS"
definition MINUS :: u16 where "MINUS = 0x0B + PAD_KEYS"
definition ASTSK :: u16 where "ASTSK = 0x0C + PAD_KEYS"
definition SLASH :: u16 where "SLASH = 0x0D + PAD_KEYS"
definition DEL :: u16 where "DEL = 0x10 + PAD_KEYS"
definition F1 :: u16 where "F1 = 0x00 + FN_KEYS"
definition F2 :: u16 where "F2 = 0x01 + FN_KEYS"
definition F3 :: u16 where "F3 = 0x02 + FN_KEYS"
definition F4 :: u16 where "F4 = 0x03 + FN_KEYS"
definition F5 :: u16 where "F5 = 0x04 + FN_KEYS"
definition F6 :: u16 where "F6 = 0x05 + FN_KEYS"
definition F7 :: u16 where "F7 = 0x06 + FN_KEYS"
definition F8 :: u16 where "F8 = 0x07 + FN_KEYS"
definition F9 :: u16 where "F9 = 0x08 + FN_KEYS"
definition F10 :: u16 where "F10 = 0x09 + FN_KEYS"
definition F11 :: u16 where "F11 = 0x0A + FN_KEYS"
definition F12 :: u16 where "F12 = 0x0B + FN_KEYS"
definition SF1 :: u16 where "SF1 = 0x0A + FN_KEYS"
definition SF2 :: u16 where "SF2 = 0x0B + FN_KEYS"
definition SF3 :: u16 where "SF3 = 0x0C + FN_KEYS"
definition SF4 :: u16 where "SF4 = 0x0D + FN_KEYS"
definition SF5 :: u16 where "SF5 = 0x0E + FN_KEYS"
definition SF6 :: u16 where "SF6 = 0x0F + FN_KEYS"
definition SF7 :: u16 where "SF7 = 0x10 + FN_KEYS"
definition SF8 :: u16 where "SF8 = 0x11 + FN_KEYS"
definition SF9 :: u16 where "SF9 = 0x12 + FN_KEYS"
definition SF10 :: u16 where "SF10 = 0x13 + FN_KEYS"
definition AF1 :: u16 where "AF1 = 0x00 + CONS_KEYS"
definition AF2 :: u16 where "AF2 = 0x01 + CONS_KEYS"
definition AF3 :: u16 where "AF3 = 0x02 + CONS_KEYS"
definition AF4 :: u16 where "AF4 = 0x03 + CONS_KEYS"
definition AF5 :: u16 where "AF5 = 0x04 + CONS_KEYS"
definition AF6 :: u16 where "AF6 = 0x05 + CONS_KEYS"
definition AF7 :: u16 where "AF7 = 0x06 + CONS_KEYS"
definition AF8 :: u16 where "AF8 = 0x07 + CONS_KEYS"
definition AF9 :: u16 where "AF9 = 0x08 + CONS_KEYS"
definition AF10 :: u16 where "AF10 = 0x09 + CONS_KEYS"
definition AF11 :: u16 where "AF11 = 0x0A + CONS_KEYS"
definition AF12 :: u16 where "AF12 = 0x0B + CONS_KEYS"
definition GRAVE :: u16 where "GRAVE = 0x00 + DEAD_KEYS"
definition ACUTE :: u16 where "ACUTE = 0x01 + DEAD_KEYS"
definition CIRCM :: u16 where "CIRCM = 0x02 + DEAD_KEYS"
definition DIERE :: u16 where "DIERE = 0x04 + DEAD_KEYS"
definition E0ENTER :: u16 where "E0ENTER = 96"
definition RCTRL :: u16 where "RCTRL = 97"
definition E0SLASH :: u16 where "E0SLASH = 98"
definition ALTGR :: u16 where "ALTGR = 100"
definition E0HOME :: u16 where "E0HOME = 102"
definition E0UP :: u16 where "E0UP = 103"
definition E0PGUP :: u16 where "E0PGUP = 104"
definition E0LEFT :: u16 where "E0LEFT = 105"
definition E0RIGHT :: u16 where "E0RIGHT = 106"
definition E0END :: u16 where "E0END = 107"
definition E0DOWN :: u16 where "E0DOWN = 108"
definition E0PGDN :: u16 where "E0PGDN = 109"
definition E0INS :: u16 where "E0INS = 110"
definition E0DEL :: u16 where "E0DEL = 111"
definition MOD_BASE :: nat where "MOD_BASE = 0"

definition TAG_CTRL :: "u16 \<Rightarrow> u16" where "TAG_CTRL c = c AND 0x1F"
definition TAG_META :: "u16 \<Rightarrow> u16" where "TAG_META c = c OR META_KEYS"
definition TAG_LETTER :: "u16 \<Rightarrow> u16" where "TAG_LETTER c = c OR LETTER_KEYS"

definition BS :: u16 where "BS = 127"

section \<open>The key map\<close>

definition krow :: "u16 \<Rightarrow> u16 \<Rightarrow> u16 \<Rightarrow> u16 \<Rightarrow> u16 \<Rightarrow> u16 \<Rightarrow> u16 list" where
  "krow base shift altgr both ctrl alt =
     [base, shift, altgr, both, ctrl, 0, 0, 0, alt, 0, 0, 0, 0, 0, 0, 0]"

definition keymap_rows :: "u16 list list" where
  "keymap_rows = [
     krow 0 0 0 0 0 0,
     krow (TAG_CTRL 91) (TAG_CTRL 91) 0 0 0 (TAG_META 91),
     krow 49 33 0 0 0 (TAG_META 49),
     krow 50 64 64 0 0 (TAG_META 50),
     krow 51 35 0 0 (TAG_CTRL 91) (TAG_META 51),
     krow 52 36 36 0 (TAG_CTRL 92) (TAG_META 52),
     krow 53 37 0 0 (TAG_CTRL 93) (TAG_META 53),
     krow 54 94 0 0 (TAG_CTRL 94) (TAG_META 54),
     krow 55 38 123 0 (TAG_CTRL 95) (TAG_META 55),
     krow 56 42 91 0 BS (TAG_META 56),
     krow 57 40 93 0 0 (TAG_META 57),
     krow 48 41 125 0 0 (TAG_META 48),
     krow 45 95 92 0 (TAG_CTRL 95) (TAG_META 45),
     krow 61 43 0 0 0 (TAG_META 61),
     krow BS BS 0 0 0 (TAG_META BS),
     krow 9 9 0 0 0 (TAG_META 9),
     krow (TAG_LETTER 113) (TAG_LETTER 81) (TAG_LETTER 113) (TAG_LETTER 81) (TAG_CTRL 81) (TAG_META 113),
     krow (TAG_LETTER 119) (TAG_LETTER 87) (TAG_LETTER 119) (TAG_LETTER 87) (TAG_CTRL 87) (TAG_META 119),
     krow (TAG_LETTER 101) (TAG_LETTER 69) (TAG_LETTER 101) (TAG_LETTER 69) (TAG_CTRL 69) (TAG_META 101),
     krow (TAG_LETTER 114) (TAG_LETTER 82) (TAG_LETTER 114) (TAG_LETTER 82) (TAG_CTRL 82) (TAG_META 114),
     krow (TAG_LETTER 116) (TAG_LETTER 84) (TAG_LETTER 116) (TAG_LETTER 84) (TAG_CTRL 84) (TAG_META 116),
     krow (TAG_LETTER 121) (TAG_LETTER 89) (TAG_LETTER 121) (TAG_LETTER 89) (TAG_CTRL 89) (TAG_META 121),
     krow (TAG_LETTER 117) (TAG_LETTER 85) (TAG_LETTER 117) (TAG_LETTER 85) (TAG_CTRL 85) (TAG_META 117),
     krow (TAG_LETTER 105) (TAG_LETTER 73) (TAG_LETTER 105) (TAG_LETTER 73) (TAG_CTRL 73) (TAG_META 105),
     krow (TAG_LETTER 111) (TAG_LETTER 79) (TAG_LETTER 111) (TAG_LETTER 79) (TAG_CTRL 79) (TAG_META 111),
     krow (TAG_LETTER 112) (TAG_LETTER 80) (TAG_LETTER 112) (TAG_LETTER 80) (TAG_CTRL 80) (TAG_META 112),
     krow 91 123 0 0 (TAG_CTRL 91) (TAG_META 91),
     krow 93 125 126 0 (TAG_CTRL 93) (TAG_META 93),
     krow CR CR CR CR CR (TAG_META CR),
     krow LCTRL LCTRL LCTRL LCTRL LCTRL LCTRL,
     krow (TAG_LETTER 97) (TAG_LETTER 65) (TAG_LETTER 97) (TAG_LETTER 65) (TAG_CTRL 65) (TAG_META 97),
     krow (TAG_LETTER 115) (TAG_LETTER 83) (TAG_LETTER 115) (TAG_LETTER 83) (TAG_CTRL 83) (TAG_META 115),
     krow (TAG_LETTER 100) (TAG_LETTER 68) (TAG_LETTER 100) (TAG_LETTER 68) (TAG_CTRL 68) (TAG_META 100),
     krow (TAG_LETTER 102) (TAG_LETTER 70) (TAG_LETTER 102) (TAG_LETTER 70) (TAG_CTRL 70) (TAG_META 102),
     krow (TAG_LETTER 103) (TAG_LETTER 71) (TAG_LETTER 103) (TAG_LETTER 71) (TAG_CTRL 71) (TAG_META 103),
     krow (TAG_LETTER 104) (TAG_LETTER 72) (TAG_LETTER 104) (TAG_LETTER 72) (TAG_CTRL 72) (TAG_META 104),
     krow (TAG_LETTER 106) (TAG_LETTER 74) (TAG_LETTER 106) (TAG_LETTER 74) (TAG_CTRL 74) (TAG_META 106),
     krow (TAG_LETTER 107) (TAG_LETTER 75) (TAG_LETTER 107) (TAG_LETTER 75) (TAG_CTRL 75) (TAG_META 107),
     krow (TAG_LETTER 108) (TAG_LETTER 76) (TAG_LETTER 108) (TAG_LETTER 76) (TAG_CTRL 76) (TAG_META 108),
     krow 59 58 0 0 0 (TAG_META 59),
     krow 39 34 0 0 (TAG_CTRL 71) (TAG_META 39),
     krow 96 126 0 0 0 (TAG_META 96),
     krow LSHIFT LSHIFT LSHIFT LSHIFT LSHIFT LSHIFT,
     krow 92 124 0 0 (TAG_CTRL 92) (TAG_META 92),
     krow (TAG_LETTER 122) (TAG_LETTER 90) (TAG_LETTER 122) (TAG_LETTER 90) (TAG_CTRL 90) (TAG_META 122),
     krow (TAG_LETTER 120) (TAG_LETTER 88) (TAG_LETTER 120) (TAG_LETTER 88) (TAG_CTRL 88) (TAG_META 120),
     krow (TAG_LETTER 99) (TAG_LETTER 67) (TAG_LETTER 99) (TAG_LETTER 67) (TAG_CTRL 67) (TAG_META 99),
     krow (TAG_LETTER 118) (TAG_LETTER 86) (TAG_LETTER 118) (TAG_LETTER 86) (TAG_CTRL 86) (TAG_META 118),
     krow (TAG_LETTER 98) (TAG_LETTER 66) (TAG_LETTER 98) (TAG_LETTER 66) (TAG_CTRL 66) (TAG_META 98),
     krow (TAG_LETTER 110) (TAG_LETTER 78) (TAG_LETTER 110) (TAG_LETTER 78) (TAG_CTRL 78) (TAG_META 110),
     krow (TAG_LETTER 109) (TAG_LETTER 77) (TAG_LETTER 109) (TAG_LETTER 77) (TAG_CTRL 77) (TAG_META 109),
     krow 44 60 0 0 0 (TAG_META 44),
     krow 46 62 0 0 0 (TAG_META 46),
     krow SLASH 63 0 0 BS (TAG_META 47),
     krow RSHIFT RSHIFT RSHIFT RSHIFT RSHIFT RSHIFT,
     krow ASTSK ASTSK ASTSK ASTSK ASTSK ASTSK,
     krow ALT ALT ALT ALT ALT ALT,
     krow 32 32 0 0 0 (TAG_META 32),
     krow CAPS CAPS CAPS CAPS CAPS CAPS,
     krow F1 SF1 0 0 F1 AF1,
     krow F2 SF2 0 0 F2 AF2,
     krow F3 SF3 0 0 F3 AF3,
     krow F4 SF4 0 0 F4 AF4,
     krow F5 SF5 0 0 F5 AF5,
     krow F6 SF6 0 0 F6 AF6,
     krow F7 SF7 0 0 F7 AF7,
     krow F8 SF8 0 0 F8 AF8,
     krow F9 SF9 0 0 F9 AF9,
     krow F10 SF10 0 0 F10 AF10,
     krow NUMS NUMS NUMS NUMS NUMS NUMS,
     krow SCRL SCRL3 SCRL2 0 SCRL4 SCRL,
     krow HOME HOME HOME HOME HOME 0,
     krow UP UP UP UP UP 0,
     krow PGUP PGUP PGUP PGUP PGUP 0,
     krow MINUS MINUS MINUS MINUS MINUS MINUS,
     krow LEFT LEFT LEFT LEFT LEFT 0,
     krow MID MID MID MID MID 0,
     krow RIGHT RIGHT RIGHT RIGHT RIGHT 0,
     krow PLUS PLUS PLUS PLUS PLUS PLUS,
     krow END END END END END 0,
     krow DOWN DOWN DOWN DOWN DOWN 0,
     krow PGDN PGDN PGDN PGDN PGDN 0,
     krow INS INS INS INS INS 0,
     krow DEL DEL DEL DEL DEL DEL,
     krow SYSRQ 0 0 0 0 SYSRQ,
     krow 0 0 0 0 0 0,
     krow 60 62 124 0 0 (TAG_META 60),
     krow SF1 SF1 0 0 F11 AF11,
     krow SF2 SF2 0 0 F12 AF12,
     krow 0 0 0 0 0 0,
     krow 0 0 0 0 0 0,
     krow 0 0 0 0 0 0,
     krow 0 0 0 0 0 0,
     krow 0 0 0 0 0 0,
     krow 0 0 0 0 0 0,
     krow 0 0 0 0 0 0,
     krow E0ENTER E0ENTER E0ENTER E0ENTER E0ENTER E0ENTER,
     krow RCTRL RCTRL RCTRL RCTRL RCTRL RCTRL,
     krow E0SLASH E0SLASH E0SLASH E0SLASH E0SLASH E0SLASH,
     krow 0 0 0 0 (TAG_CTRL 92) (TAG_CTRL 92),
     krow ALTGR ALTGR ALTGR ALTGR ALTGR ALTGR,
     krow 0 0 0 0 0 0,
     krow E0HOME E0HOME E0HOME E0HOME E0HOME 0,
     krow E0UP E0UP E0UP E0UP E0UP 0,
     krow E0PGUP E0PGUP E0PGUP E0PGUP E0PGUP 0,
     krow E0LEFT E0LEFT E0LEFT E0LEFT E0LEFT 0,
     krow E0RIGHT E0RIGHT E0RIGHT E0RIGHT E0RIGHT 0,
     krow E0END E0END E0END E0END E0END 0,
     krow E0DOWN E0DOWN E0DOWN E0DOWN E0DOWN 0,
     krow E0PGDN E0PGDN E0PGDN E0PGDN E0PGDN 0,
     krow E0INS E0INS E0INS E0INS E0INS 0,
     krow E0DEL E0DEL E0DEL E0DEL E0DEL 0,
     krow 0 0 0 0 0 0,
     krow 0 0 0 0 0 0,
     krow 0 0 0 0 0 0,
     krow 0 0 0 0 0 0,
     krow 0 0 0 0 0 0,
     krow 0 0 0 0 0 0,
     krow 0 0 0 0 0 0,
     krow 0 0 0 0 0 0,
     krow 0 0 0 0 0 0,
     krow 0 0 0 0 0 0,
     krow 0 0 0 0 0 0,
     krow 0 0 0 0 0 0,
     krow 0 0 0 0 0 0,
     krow 0 0 0 0 0 0,
     krow 0 0 0 0 0 0,
     krow 0 0 0 0 0 0]"

definition keymap :: "u16 list" where "keymap = concat keymap_rows"

section \<open>Sequences and accents\<close>

text \<open>Strings with their terminating NUL.\<close>

definition diacr_chars :: "u8 list" where "diacr_chars = [96, 39, 94, 32, 34, 0]"

definition pad_chars :: "u8 list" where
  "pad_chars = [48, 49, 50, 51, 52, 53, 54, 55, 56, 57, 43, 45, 42, 47, 13, 44, 46, 0]"

record diacritic =
  letter :: u8
  code :: u8

definition diacritics :: "(u8 \<times> u8) list \<Rightarrow> diacritic list" where
  "diacritics = map (\<lambda>(l, c). \<lparr>letter = l, code = c\<rparr>)"

definition grave_table :: "diacritic list" where
  "grave_table = diacritics [(65, 192), (69, 200), (73, 204), (79, 210), (85, 217), (97, 224), (101, 232), (105, 236), (111, 242), (117, 249)]"

definition acute_table :: "diacritic list" where
  "acute_table = diacritics [(65, 193), (69, 201), (73, 205), (79, 211), (85, 218), (97, 225), (101, 233), (105, 237), (111, 243), (117, 250)]"

definition circm_table :: "diacritic list" where
  "circm_table = diacritics [(65, 194), (69, 202), (73, 206), (79, 212), (85, 219), (97, 226), (101, 234), (105, 238), (111, 244), (117, 251)]"

definition diere_table :: "diacritic list" where
  "diere_table = diacritics [(65, 196), (69, 203), (73, 207), (79, 214), (85, 220), (97, 228), (101, 235), (105, 239), (111, 246), (117, 252)]"

text \<open>The strings up to their NUL.\<close>

definition pad_seq :: "u8 list list" where
  "pad_seq = [
     [27, 91, 50, 126],
     [27, 91, 52, 126],
     [27, 91, 66],
     [27, 91, 54, 126],
     [27, 91, 68],
     [27, 91, 71],
     [27, 91, 67],
     [27, 91, 49, 126],
     [27, 91, 65],
     [27, 91, 53, 126],
     [43],
     [45],
     [42],
     [47],
     [39, 10, 39],
     [44],
     [27, 91, 51, 126]]"

definition fn_seq :: "u8 list list" where
  "fn_seq = [
     [27, 91, 91, 65],
     [27, 91, 91, 66],
     [27, 91, 91, 67],
     [27, 91, 91, 68],
     [27, 91, 91, 69],
     [27, 91, 49, 55, 126],
     [27, 91, 49, 56, 126],
     [27, 91, 49, 57, 126],
     [27, 91, 50, 48, 126],
     [27, 91, 50, 49, 126],
     [27, 91, 50, 51, 126],
     [27, 91, 50, 52, 126],
     [27, 91, 50, 53, 126],
     [27, 91, 50, 54, 126],
     [27, 91, 50, 56, 126],
     [27, 91, 50, 57, 126],
     [27, 91, 51, 49, 126],
     [27, 91, 51, 50, 126],
     [27, 91, 51, 51, 126],
     [27, 91, 51, 52, 126]]"

end
