(* ===== verification/Keyboard.thy ===== *)
theory Keyboard
  imports Console Keymap
begin

text \<open>
  The keyboard driver, \<open>src/drivers/src/dev/char/keyboard.c\<close>, and the end of \<open>ps2_init\<close>, which starts it.
  The state extends that of \<open>Console\<close> with the static variables of the file. The function names and
  arguments of the interrupt handlers that the code does not use are left out.
\<close>

section \<open>State\<close>

record 'h kbd_state = "'h con_state" +
  kbd_bh :: u32
  kbd_config_irq :: u32
  is_ps2 :: u8
  kbd_identify :: "u8 \<times> u8"
  og_scan_set :: u8
  diacr :: "diacritic list option"
  ctrl_alt_del :: bool
  any_key_to_reboot :: bool
  shift_pressed :: bool
  leds_on :: bool
  altgr_pressed :: bool
  ctrl_pressed :: bool
  alt_pressed :: bool
  extkey_pressed :: bool
  altsysrq_pressed :: bool
  deadkey_pressed :: u8
  sysrq_op :: u32
  do_switch_console :: int
  do_buf_scroll :: u8
  do_setleds :: u8
  do_tty_stop :: u8
  do_tty_start :: u8
  do_sysrq :: u8
  areas :: u32

definition SYSRQ_STACK :: u32 where "SYSRQ_STACK = 1"
definition SYSRQ_MEMORY :: u32 where "SYSRQ_MEMORY = 2"
definition SYSRQ_TASKS :: u32 where "SYSRQ_TASKS = 4"
definition SYSRQ_UNDEF :: u32 where "SYSRQ_UNDEF = 0x80000000"
definition DEV_RESET_OK :: u8 where "DEV_RESET_OK = 0xAA"
definition DELAY_250 :: u8 where "DELAY_250 = 0"
definition RATE_30 :: u8 where "RATE_30 = 0"

definition e0_keys :: "u16 list" where
  "e0_keys =
     replicate 24 0 @
     [0, 0, 0, 0, E0ENTER, RCTRL, 0, 0] @
     replicate 16 0 @
     [0, 0, 0, 0, 0, E0SLASH, 0, 0] @
     [ALTGR, 0, 0, 0, 0, 0, 0, 0] @
     [0, 0, 0, 0, 0, 0, 0, E0HOME] @
     [E0UP, E0PGUP, 0, E0LEFT, 0, E0RIGHT, 0, E0END] @
     [E0DOWN, E0PGDN, E0INS, E0DEL, 0, 0, 0, 0] @
     replicate 40 0"

section \<open>Putting characters into the read queue\<close>

definition put_read ::
    "('h, ('h, 'z) tty_state_scheme) tty_env \<Rightarrow> nat \<Rightarrow> u8 \<Rightarrow> ('h, 'z) tty_state_scheme \<Rightarrow>
     (retval_t \<times> ('h, 'z) tty_state_scheme) option" where
  "put_read env t ch s = do {
     (r, q, st) \<leftarrow> charq_put_char (e_alloc env) ch (read_q (tty_table s t)) (chars s);
     Some (r, (upd_tty t (\<lambda>x. x\<lparr>read_q := q\<rparr>) s)\<lparr>chars := st\<rparr>)
   }"

text \<open>The result of \<open>charq_put_char\<close> is compared with 0 in vain: it is never negative.\<close>

definition kputc ::
    "('h, ('h, 'z) tty_state_scheme) tty_env \<Rightarrow> nat \<Rightarrow> u8 \<Rightarrow> ('h, 'z) tty_state_scheme \<Rightarrow>
     ('h, 'z) tty_state_scheme option" where
  "kputc env t ch s =
     (if open_count (tty_table s t) \<noteq> 0 then do { (_, s) \<leftarrow> put_read env t ch s; Some s } else Some s)"

primrec kputs_loop ::
    "('h, ('h, 'z) tty_state_scheme) tty_env \<Rightarrow> nat \<Rightarrow> u8 list \<Rightarrow> ('h, 'z) tty_state_scheme \<Rightarrow>
     ('h, 'z) tty_state_scheme option" where
  "kputs_loop env t [] s = Some s"
| "kputs_loop env t (c # cs) s = do { s \<leftarrow> kputc env t c s; kputs_loop env t cs s }"

definition kputs ::
    "('h, ('h, 'z) tty_state_scheme) tty_env \<Rightarrow> nat \<Rightarrow> u8 list \<Rightarrow> ('h, 'z) tty_state_scheme \<Rightarrow>
     ('h, 'z) tty_state_scheme option" where
  "kputs env t seq s = (if open_count (tty_table s t) \<noteq> 0 then kputs_loop env t seq s else Some s)"

section \<open>The interrupt\<close>

definition key_up :: "u16 \<Rightarrow> ('h, 'z) kbd_state_scheme \<Rightarrow> ('h, 'z) kbd_state_scheme" where
  "key_up key s =
     (let s =
        (if key \<in> {CTRL, LCTRL, RCTRL} then s\<lparr>ctrl_pressed := False\<rparr>
         else if key = ALT then
           if \<not> extkey_pressed s then s\<lparr>alt_pressed := False, altsysrq_pressed := False\<rparr>
           else s\<lparr>altgr_pressed := False\<rparr>
         else if key \<in> {SHIFT, LSHIFT, RSHIFT} then
           if \<not> extkey_pressed s then s\<lparr>shift_pressed := False\<rparr> else s
         else if key \<in> {CAPS, NUMS, SCRL} then s\<lparr>leds_on := False\<rparr>
         else s)
      in s\<lparr>extkey_pressed := False\<rparr>)"

text \<open>The keys that only change the state of the driver, \<^const>\<open>None\<close> for all others.\<close>

definition modifier_down ::
    "nat \<Rightarrow> u16 \<Rightarrow> ('h, 'z) kbd_state_scheme \<Rightarrow> ('h, 'z) kbd_state_scheme option" where
  "modifier_down c key s =
     (if key = CAPS then
        (let s = (if \<not> leds_on s
                  then (upd_vc c (\<lambda>vc. vc\<lparr>led_status := led_status vc XOR LED_CAPSBIT,
                          capslock_on := \<not> capslock_on vc\<rparr>) s)\<lparr>do_setleds := 1\<rparr>
                  else s)
         in Some (s\<lparr>leds_on := True\<rparr>))
      else if key = NUMS then
        (let s = (if \<not> leds_on s
                  then (upd_vc c (\<lambda>vc. vc\<lparr>led_status := led_status vc XOR LED_NUMSBIT,
                          numlock_on := \<not> capslock_on vc\<rparr>) s)\<lparr>do_setleds := 1\<rparr>
                  else s)
         in Some (s\<lparr>leds_on := True\<rparr>))
      else if key = SCRL then
        (let s = (if \<not> leds_on s
                  then (if scrlock_on (consoles s c) then s\<lparr>do_tty_start := 1\<rparr> else s\<lparr>do_tty_stop := 1\<rparr>)
                  else s)
         in Some (s\<lparr>leds_on := True\<rparr>))
      else if key \<in> {CTRL, LCTRL, RCTRL} then Some (s\<lparr>ctrl_pressed := True\<rparr>)
      else if key = ALT then
        Some (if \<not> extkey_pressed s then s\<lparr>alt_pressed := True\<rparr> else s\<lparr>altgr_pressed := True\<rparr>)
      else if key \<in> {SHIFT, LSHIFT, RSHIFT} then Some (s\<lparr>shift_pressed := True, extkey_pressed := False\<rparr>)
      else None)"

definition keymap_line :: "u8 \<Rightarrow> nat \<Rightarrow> u16 option" where
  "keymap_line s_code m = do {
     let i = unat (s_code AND 0x7F) * NUM_MODIFIERS + m;
     require (i < length keymap);
     Some (keymap ! i)
   }"

definition key_mod :: "nat \<Rightarrow> u16 \<Rightarrow> ('h, 'z) kbd_state_scheme \<Rightarrow> nat" where
  "key_mod c base s =
     (let caps = capslock_on (consoles s c);
          m = (if caps \<and> base AND LETTER_KEYS \<noteq> 0
               then (if \<not> caps then of_bool (shift_pressed s) else of_bool caps - of_bool (shift_pressed s))
               else if shift_pressed s \<and> \<not> extkey_pressed s then 1
               else 0);
          m = (if altgr_pressed s then 2 else m);
          m = (if ctrl_pressed s then 4 else m)
      in if alt_pressed s then 8 else m)"

primrec accent :: "nat \<Rightarrow> diacritic list \<Rightarrow> u8 \<Rightarrow> u8 option" where
  "accent 0 d c = Some c"
| "accent (Suc k) d c = do {
     let n = NUM_DIACR - Suc k;
     require (n < length d);
     accent k d (if letter (d ! n) = c then code (d ! n) else c)
   }"

text \<open>The last switch, on the type of the key. The result says whether the dead key is reset after it.\<close>

definition key_emit ::
    "('h, ('h, 'z) kbd_state_scheme) tty_env \<Rightarrow> nat \<Rightarrow> nat \<Rightarrow> u16 \<Rightarrow> u16 \<Rightarrow> u8 \<Rightarrow>
     ('h, 'z) kbd_state_scheme \<Rightarrow> (bool \<times> ('h, 'z) kbd_state_scheme) option" where
  "key_emit env t con type key c s =
     (if type = FN_KEYS then
        if unat c > 20 then Some (True, s)
        else do {
          require (unat c < length fn_seq);
          s \<leftarrow> kputs env t (fn_seq ! unat c) s;
          Some (True, s)
        }
      else if type = SPEC_KEYS then
        if key = CR then do { s \<leftarrow> kputc env t 13 s; Some (True, s) }
        else if key = SYSRQ then Some (True, s\<lparr>altsysrq_pressed := True\<rparr>)
        else Some (True, s)
      else if type = PAD_KEYS then
        if \<not> numlock_on (consoles s con) then do {
          require (unat c < length pad_seq);
          s \<leftarrow> kputs env t (pad_seq ! unat c) s;
          Some (True, s)
        } else do {
          require (unat c < length pad_chars);
          s \<leftarrow> kputc env t (pad_chars ! unat c) s;
          Some (True, s)
        }
      else if type = DEAD_KEYS then
        if deadkey_pressed s = 0 then
          Some (False,
            if c = 0 then s\<lparr>deadkey_pressed := 1, diacr := Some grave_table\<rparr>
            else if c = 1 then s\<lparr>deadkey_pressed := 2, diacr := Some acute_table\<rparr>
            else if c = 2 then s\<lparr>deadkey_pressed := 3, diacr := Some circm_table\<rparr>
            else if c = 4 then s\<lparr>deadkey_pressed := 5, diacr := Some diere_table\<rparr>
            else s)
        else do {
          require (unat c < length diacr_chars);
          let s = s\<lparr>deadkey_pressed := 0\<rparr>;
          s \<leftarrow> kputc env t (diacr_chars ! unat c) s;
          Some (True, s)
        }
      else if type = META_KEYS then do {
        s \<leftarrow> kputc env t 27 s;
        s \<leftarrow> kputc env t c s;
        Some (True, s)
      }
      else if type = LETTER_KEYS then do {
        c \<leftarrow> (if deadkey_pressed s \<noteq> 0 then do { d \<leftarrow> diacr s; accent NUM_DIACR d c } else Some c);
        s \<leftarrow> kputc env t c s;
        Some (True, s)
      }
      else if altsysrq_pressed s then
        Some (True, s\<lparr>sysrq_op := (if c = 108 then SYSRQ_STACK else if c = 109 then SYSRQ_MEMORY
                         else if c = 116 then SYSRQ_TASKS else SYSRQ_UNDEF), do_sysrq := 1\<rparr>)
      else do {
        c \<leftarrow> (if deadkey_pressed s \<noteq> 0 \<and> c = 32 then do {
                require (unat (deadkey_pressed s) - 1 < length diacr_chars);
                Some (diacr_chars ! (unat (deadkey_pressed s) - 1))
              } else Some c);
        s \<leftarrow> kputc env t c s;
        Some (True, s)
      })"

text \<open>A key that is pressed and no modifier.\<close>

definition key_down ::
    "('h, ('h, 'z) kbd_state_scheme) tty_env \<Rightarrow> nat \<Rightarrow> nat \<Rightarrow> u8 \<Rightarrow> ('h, 'z) kbd_state_scheme \<Rightarrow>
     ('h, 'z) kbd_state_scheme option" where
  "key_down env t con s_code s = do {
     base \<leftarrow> keymap_line s_code MOD_BASE;
     key \<leftarrow> keymap_line s_code (key_mod con base s);
     if key \<ge> AF1 \<and> key \<le> AF12 then Some (s\<lparr>do_switch_console := int (unat (key - CONS_KEYS))\<rparr>)
     else if shift_pressed s \<and> key = PGUP then Some (s\<lparr>do_buf_scroll := 1\<rparr>)
     else if shift_pressed s \<and> key = PGDN then Some (s\<lparr>do_buf_scroll := 2\<rparr>)
     else do {
       let key = (if extkey_pressed s \<and> s_code = SLASH_NPAD then SLASH else key);
       let type = key AND 0xFF00;
       let type = (if altsysrq_pressed s then type AND NOT META_KEYS else type);
       (reset, s) \<leftarrow> key_emit env t con type key (ucast key) s;
       Some (if reset then s\<lparr>deadkey_pressed := 0\<rparr> else s)
     }
   }"

text \<open>The key looked up first, which only serves the raw modes that are not implemented.\<close>

definition raw_key :: "u8 \<Rightarrow> ('h, 'z) kbd_state_scheme \<Rightarrow> u16 option" where
  "raw_key s_code s =
     (let i = unat (s_code AND 0x7F)
      in if extkey_pressed s then do { require (i < length e0_keys); Some (e0_keys ! i) }
         else Some (of_nat i))"

text \<open>A byte that is no acknowledgement.\<close>

definition key_event ::
    "('h, ('h, 'z) kbd_state_scheme) tty_env \<Rightarrow> nat \<Rightarrow> nat \<Rightarrow> u8 \<Rightarrow> ('h, 'z) kbd_state_scheme \<Rightarrow>
     ('h, 'z) kbd_state_scheme option" where
  "key_event env t con s_code s =
     (if kbd_mode (tty_table s t) = KBD_MODE_RAW then Some s
      else if s_code = EXTKEY then Some (s\<lparr>extkey_pressed := True\<rparr>)
      else do {
        _ \<leftarrow> raw_key s_code s;
        if kbd_mode (tty_table s t) = KBD_MODE_MEDRAW then Some (s\<lparr>extkey_pressed := False\<rparr>)
        else do {
          key \<leftarrow> keymap_line s_code 0;
          if s_code AND 0x80 \<noteq> 0 then Some (key_up key s)
          else
            (case modifier_down con key s of
               Some s \<Rightarrow> Some s
             | None \<Rightarrow>
                 if ctrl_pressed s \<and> alt_pressed s \<and> key = DEL then Some s
                 else key_down env t con s_code s)
        }
      })"

definition keyboard_irq ::
    "('h, ('h, 'z) kbd_state_scheme) tty_env \<Rightarrow> ps2_dev \<Rightarrow> ('h, 'z) kbd_state_scheme \<Rightarrow>
     ('h, 'z) kbd_state_scheme option" where
  "keyboard_irq env dev s = do {
     tp \<leftarrow> tty_get env (DEVICE_MKDEV VCONSOLE_MAJOR (current_console s)) s;
     t \<leftarrow> tp;
     let con = tty_data (tty_table s t);
     let (s_code, p) = ps2_inb dev PS2_DATA_PORT (ps2 s);
     let s = s\<lparr>ps2 := p\<rparr>;
     if s_code = DEV_ACK then Some (s\<lparr>ps2 := (ps2 s)\<lparr>ack := 1\<rparr>\<rparr>)
     else
       key_event env t con s_code
         (upd_bh (kbd_bh s) (\<lambda>b. b\<lparr>bh_flags := bh_flags b OR IRQ_BH_ACTIVE\<rparr>) s)
   }"

section \<open>The bottom half\<close>

text \<open>One terminal of the table: its input is cooked unless the area of the terminals is locked.\<close>

definition bh_tty ::
    "('h, ('h, 'z) kbd_state_scheme) tty_env \<Rightarrow> nat \<Rightarrow> ('h, 'z) kbd_state_scheme \<Rightarrow>
     ('h, 'z) kbd_state_scheme option" where
  "bh_tty env t s =
     (if q_size (read_q (tty_table s t)) = 0 then Some s
      else if kbd_mode (tty_table s t) = KBD_MODE_RAW \<or> kbd_mode (tty_table s t) = KBD_MODE_MEDRAW
      then wake (e_tty_read env) s
      else
        (let (busy, a) = lock_area AREA_TTY_READ (areas s);
             s = s\<lparr>areas := a\<rparr>
         in if busy \<noteq> 0 then
              Some (upd_bh (kbd_bh s) (\<lambda>b. b\<lparr>bh_flags := bh_flags b OR IRQ_BH_ACTIVE\<rparr>) s)
            else do {
              s \<leftarrow> tty_cook_input env t s;
              Some (s\<lparr>areas := snd (unlock_area AREA_TTY_READ (areas s))\<rparr>)
            }))"

primrec bh_ttys ::
    "('h, ('h, 'z) kbd_state_scheme) tty_env \<Rightarrow> nat \<Rightarrow> ('h, 'z) kbd_state_scheme \<Rightarrow>
     ('h, 'z) kbd_state_scheme option" where
  "bh_ttys env 0 s = Some s"
| "bh_ttys env (Suc k) s = do {
     s \<leftarrow> bh_tty env (NUM_CONSOLES - Suc k) s;
     bh_ttys env k s
   }"

definition bh_requests ::
    "('h, ('h, 'z) kbd_state_scheme) tty_env \<Rightarrow> (('h, 'z) kbd_state_scheme) video_ops \<Rightarrow> ps2_dev \<Rightarrow> nat \<Rightarrow> nat \<Rightarrow>
     ('h, 'z) kbd_state_scheme \<Rightarrow> ('h, 'z) kbd_state_scheme option" where
  "bh_requests env vid dev t con s = do {
     let s = (if do_switch_console s \<ge> 0
              then (vconsole_select (do_switch_console s) s)\<lparr>do_switch_console := - 1\<rparr> else s);
     s \<leftarrow> (if do_buf_scroll s \<noteq> 0 then do {
             s \<leftarrow> v_buf_scroll vid con (int (unat (do_buf_scroll s))) s;
             Some (s\<lparr>do_buf_scroll := 0\<rparr>)
           } else Some s);
     let s = (if do_setleds s \<noteq> 0
              then (on_ps2 (ps2_set_leds dev (led_status (consoles s con))) s)\<lparr>do_setleds := 0\<rparr> else s);
     s \<leftarrow> (if do_tty_start s \<noteq> 0 then do {
             s \<leftarrow> e_start env t s;
             Some (s\<lparr>do_tty_stop := 0, do_tty_start := 0\<rparr>)
           } else Some s);
     s \<leftarrow> (if do_tty_stop s \<noteq> 0 then do {
             s \<leftarrow> e_stop env t s;
             Some (s\<lparr>do_tty_stop := 0, do_tty_start := 0\<rparr>)
           } else Some s);
     Some (if do_sysrq s \<noteq> 0 then s\<lparr>do_sysrq := 0\<rparr> else s)
   }"

definition keyboard_bh_irq ::
    "('h, ('h, 'z) kbd_state_scheme) tty_env \<Rightarrow> (('h, 'z) kbd_state_scheme) video_ops \<Rightarrow> ps2_dev \<Rightarrow>
     ('h, 'z) kbd_state_scheme \<Rightarrow> ('h, 'z) kbd_state_scheme option" where
  "keyboard_bh_irq env vid dev s = do {
     tp \<leftarrow> tty_get env (DEVICE_MKDEV VCONSOLE_MAJOR (current_console s)) s;
     t \<leftarrow> tp;
     let con = tty_data (tty_table s t);
     s \<leftarrow> v_screen_on vid con s;
     let s = upd_bh (kbd_bh s) (\<lambda>b. b\<lparr>bh_flags := bh_flags b OR IRQ_BH_ACTIVE\<rparr>) s;
     s \<leftarrow> bh_requests env vid dev t con s;
     bh_ttys env NUM_CONSOLES s
   }"

section \<open>Initialisation\<close>

text \<open>The scan set: translation is switched off while it is asked for, and set 2 is chosen.\<close>

definition kbd_scan_set :: "ps2_dev \<Rightarrow> ps2_state \<Rightarrow> u8 \<times> ps2_state" where
  "kbd_scan_set dev p =
     (let p = ps2_write dev PS2_COMMAND_PORT PS2_CMD_RECV_CONFIG p;
          (config, p) = ps2_read dev PS2_DATA_PORT p;
          p = ps2_write dev PS2_COMMAND_PORT PS2_CMD_SEND_CONFIG p;
          p = ps2_write dev PS2_DATA_PORT (config AND NOT 0x40) p;
          p = ps2_write dev PS2_DATA_PORT PS2_KB_GETSETSCAN p;
          (_, p) = ps2_await_ack dev p;
          p = ps2_write dev PS2_DATA_PORT 0 p;
          (_, p) = ps2_await_ack dev p;
          (og, p) = ps2_read dev PS2_DATA_PORT p;
          p = (if og \<noteq> 2
               then (let p = ps2_write dev PS2_DATA_PORT PS2_KB_GETSETSCAN p;
                         p = ps2_write dev PS2_DATA_PORT 2 p;
                         (_, p) = ps2_await_ack dev p
                     in p)
               else p);
          p = ps2_write dev PS2_COMMAND_PORT PS2_CMD_SEND_CONFIG p
      in (og, ps2_write dev PS2_DATA_PORT config p))"

definition keyboard_identify :: "ps2_dev \<Rightarrow> ('h, 'z) kbd_state_scheme \<Rightarrow> ('h, 'z) kbd_state_scheme" where
  "keyboard_identify dev s =
     (let p = ps2_write dev PS2_DATA_PORT PS2_KB_DISABLE (ps2 s);
          (r, p) = ps2_await_ack dev p;
          s = (if r then s\<lparr>is_ps2 := is_ps2 s + 1\<rparr> else s);
          p = ps2_write dev PS2_DATA_PORT PS2_DEV_IDENTIFY p;
          (r, p) = ps2_await_ack dev p;
          s = (if r then s\<lparr>is_ps2 := is_ps2 s + 1\<rparr> else s);
          (a, p) = ps2_read dev PS2_DATA_PORT p;
          (b, p) = ps2_read dev PS2_DATA_PORT p;
          s = s\<lparr>kbd_identify := (a, b)\<rparr>;
          (og, p) = kbd_scan_set dev p;
          s = s\<lparr>og_scan_set := og\<rparr>;
          p = ps2_write dev PS2_DATA_PORT PS2_DEV_ENABLE p;
          (_, p) = ps2_await_ack dev p
      in s\<lparr>ps2 := ps2_clear_buffer dev p\<rparr>)"

definition keyboard_init ::
    "('h, ('h, 'z) kbd_state_scheme) tty_env \<Rightarrow> (('h, 'z) kbd_state_scheme) video_ops \<Rightarrow> ps2_dev \<Rightarrow> device \<Rightarrow>
     ('h, 'z) kbd_state_scheme \<Rightarrow> ('h, 'z) kbd_state_scheme option" where
  "keyboard_init env vid dev pic s = do {
     tp \<leftarrow> tty_get env (DEVICE_MKDEV VCONSOLE_MAJOR (current_console s)) s;
     t \<leftarrow> tp;
     let con = tty_data (tty_table s t);
     s \<leftarrow> v_screen_on vid con s;
     s \<leftarrow> v_cursor_blink vid con s;
     s \<leftarrow> irq_bottom_half_register (kbd_bh s) s;
     (r, s) \<leftarrow> irq_register KEYBOARD_IRQ (kbd_config_irq s) s;
     let s = (if r = RET_OK then irq_enable pic KEYBOARD_IRQ s else s);
     let p = ps2_write dev PS2_DATA_PORT PS2_DEV_RESET (ps2 s);
     let (_, p) = ps2_await_ack dev p;
     let (_, p) = ps2_read dev PS2_DATA_PORT p;
     let p = ps2_clear_buffer dev p;
     let s = keyboard_identify dev (s\<lparr>ps2 := p\<rparr>);
     let p = ps2_write dev PS2_DATA_PORT PS2_DEV_RATE (ps2 s);
     let (_, p) = ps2_await_ack dev p;
     let p = ps2_write dev PS2_DATA_PORT (DELAY_250 OR RATE_30) p;
     let (_, p) = ps2_await_ack dev p;
     Some (s\<lparr>ps2 := p\<rparr>)
   }"

definition ps2_init ::
    "('h, ('h, 'z) kbd_state_scheme) tty_env \<Rightarrow> (('h, 'z) kbd_state_scheme) video_ops \<Rightarrow> ps2_dev \<Rightarrow> device \<Rightarrow>
     ('h, 'z) kbd_state_scheme \<Rightarrow> ('h, 'z) kbd_state_scheme option" where
  "ps2_init env vid dev pic s = do {
     let (go, p) = ps2_setup dev (ps2 s);
     let s = s\<lparr>ps2 := p\<rparr>;
     if go then keyboard_init env vid dev pic s else Some s
   }"

section \<open>The tables\<close>

lemma concat_rows_nth:
  "\<forall>r \<in> set rs. length r = n \<Longrightarrow> k < length rs \<Longrightarrow> m < n \<Longrightarrow> concat rs ! (k * n + m) = rs ! k ! m"
proof (induction rs arbitrary: k)
  case (Cons r rs)
  then show ?case by (cases k) (auto simp: nth_append)
qed simp

lemma keymap_rows_length: "length keymap_rows = 128"
  by (simp add: keymap_rows_def)

lemma keymap_rows_16: "\<forall>r \<in> set keymap_rows. length r = 16"
  by (simp add: keymap_rows_def krow_def)

lemma keymap_length: "length keymap = 2048"
proof -
  have "length (concat rs) = length rs * n" if "\<forall>r \<in> set rs. length r = n" for rs :: "u16 list list" and n
    using that by (induction rs) auto
  from this [OF keymap_rows_16] show ?thesis by (simp add: keymap_def keymap_rows_length)
qed

lemma scode_bound: "unat (s_code AND 0x7F :: u8) < 128"
proof -
  have "unat (s_code AND 0x7F) \<le> unat (0x7F :: u8)" by (metis word_and_le1 word_le_nat_alt)
  then show ?thesis by simp
qed

lemma keymap_line_eq:
  assumes "m < 16"
  shows "keymap_line s_code m = Some (keymap_rows ! unat (s_code AND 0x7F) ! m)"
proof -
  let ?k = "unat (s_code AND 0x7F)"
  have "?k * 16 + m < 2048" using scode_bound [of s_code] assms by linarith
  moreover have "keymap ! (?k * 16 + m) = keymap_rows ! ?k ! m"
    unfolding keymap_def using keymap_rows_16 assms scode_bound
    by (intro concat_rows_nth) (simp_all add: keymap_rows_length)
  ultimately show ?thesis by (simp add: keymap_line_def NUM_MODIFIERS_def keymap_length)
qed

text \<open>An entry of the map whose type is \<open>type\<close> indexes the tables of sequences within their bounds.\<close>

definition key_safe :: "u16 \<Rightarrow> u16 \<Rightarrow> bool" where
  "key_safe type key \<longleftrightarrow> (type = FN_KEYS \<longrightarrow> unat (ucast key :: u8) < 20) \<and>
     (type = PAD_KEYS \<longrightarrow> unat (ucast key :: u8) < 17) \<and> type \<noteq> DEAD_KEYS"

definition row_safe :: "u16 list \<Rightarrow> bool" where
  "row_safe r \<longleftrightarrow> list_all (\<lambda>key. key_safe (key AND 0xFF00) key) r \<and>
     key_safe (r ! 8 AND 0xFF00 AND NOT META_KEYS) (r ! 8)"

lemma keymap_rows_safe: "list_all row_safe keymap_rows"
  by code_simp

lemma key_safe_at:
  assumes "m < 16"
  shows "key_safe (keymap_rows ! unat (s_code AND 0x7F :: u8) ! m AND 0xFF00) (keymap_rows ! unat (s_code AND 0x7F) ! m)"
    and "key_safe (keymap_rows ! unat (s_code AND 0x7F) ! 8 AND 0xFF00 AND NOT META_KEYS) (keymap_rows ! unat (s_code AND 0x7F) ! 8)"
proof -
  let ?r = "keymap_rows ! unat (s_code AND 0x7F)"
  have "?r \<in> set keymap_rows" using scode_bound by (simp add: keymap_rows_length)
  then have "row_safe ?r" "length ?r = 16" using keymap_rows_safe keymap_rows_16 by (auto simp: list_all_iff)
  then show "key_safe (?r ! m AND 0xFF00) (?r ! m)" "key_safe (?r ! 8 AND 0xFF00 AND NOT META_KEYS) (?r ! 8)"
    using assms by (auto simp: row_safe_def list_all_length)
qed

lemma seq_lengths: "\<forall>q \<in> set fn_seq. length q \<le> 5" "\<forall>q \<in> set pad_seq. length q \<le> 5"
  "length fn_seq = 20" "length pad_seq = 17" "length pad_chars = 18"
  by (simp_all add: fn_seq_def pad_seq_def pad_chars_def)

section \<open>Typing\<close>

definition with_read :: "nat \<Rightarrow> charq \<Rightarrow> 'h cstore \<Rightarrow> ('h, 'z) tty_state_scheme \<Rightarrow> ('h, 'z) tty_state_scheme" where
  "with_read t q st s = (upd_tty t (\<lambda>x. x\<lparr>read_q := q\<rparr>) s)\<lparr>chars := st\<rparr>"

lemma with_read_simps [simp]:
  "read_q (tty_table (with_read t q st s) t) = q"
  "open_count (tty_table (with_read t q st s) t) = open_count (tty_table s t)"
  "chars (with_read t q st s) = st"
  "with_read t q' st' (with_read t q st s) = with_read t q' st' s"
  "with_read t (read_q (tty_table s t)) (chars s) s = s"
  by (simp_all add: with_read_def upd_tty_def)

text \<open>The characters \<open>out\<close> are appended to the read queue of an open terminal, and nothing else changes but
  the store of blocks.\<close>

definition typed :: "nat \<Rightarrow> u32 list \<Rightarrow> u8 list \<Rightarrow> u8 list \<Rightarrow> ('h, 'z) tty_state_scheme \<Rightarrow> ('h, 'z) tty_state_scheme \<Rightarrow> bool" where
  "typed t xs rs out s u \<longleftrightarrow> (\<exists>q st. u = with_read t q st s \<and>
     charq_rep q st xs (rs @ (if open_count (tty_table s t) = 0 then [] else out)))"

lemma put_read_room:
  assumes "charq_rep (read_q (tty_table s t)) (chars s) xs rs" "room_for (Suc n) (chars s) xs"
  shows "\<exists>q st. put_read env t ch s = Some (RET_OK, with_read t q st s) \<and> charq_rep q st xs (rs @ [ch]) \<and>
    room_for n st xs"
proof -
  obtain q st where "charq_put_char (e_alloc env) ch (read_q (tty_table s t)) (chars s) = Some (RET_OK, q, st)"
    "charq_rep q st xs (rs @ [ch])" "room_for n st xs"
    using charq_put_room_for [OF assms] by blast
  then show ?thesis
    by (intro exI [of _ q] exI [of _ st]) (simp add: put_read_def with_read_def)
qed

lemma kputs_loop_room:
  assumes "open_count (tty_table s t) \<noteq> 0" "charq_rep (read_q (tty_table s t)) (chars s) xs rs"
    "room_for (length cs + n) (chars s) xs"
  shows "\<exists>q st. kputs_loop env t cs s = Some (with_read t q st s) \<and> charq_rep q st xs (rs @ cs)"
  using assms
proof (induction cs arbitrary: s rs)
  case Nil
  then show ?case
    by (intro exI [of _ "read_q (tty_table s t)"] exI [of _ "chars s"]) simp
next
  case (Cons c cs)
  obtain q st where one: "put_read env t c s = Some (RET_OK, with_read t q st s)" "charq_rep q st xs (rs @ [c])"
    "room_for (length cs + n) st xs"
    using put_read_room [OF Cons.prems(2), of "length cs + n" env c] Cons.prems(3) by auto
  let ?s = "with_read t q st s"
  have p: "open_count (tty_table ?s t) \<noteq> 0" "charq_rep (read_q (tty_table ?s t)) (chars ?s) xs (rs @ [c])"
    "room_for (length cs + n) (chars ?s) xs"
    using one Cons.prems(1) by simp_all
  obtain q' st' where rest: "kputs_loop env t cs ?s = Some (with_read t q' st' s)" "charq_rep q' st' xs (rs @ c # cs)"
    using Cons.IH [OF p] by auto
  have "kputs_loop env t (c # cs) s = Some (with_read t q' st' s)"
    using one(1) rest(1) Cons.prems(1) by (simp add: kputc_def)
  with rest(2) show ?case by blast
qed

lemma kputs_typed:
  assumes "charq_rep (read_q (tty_table s t)) (chars s) xs rs" "room_for 5 (chars s) xs" "length cs \<le> 5"
  shows "\<exists>u. kputs env t cs s = Some u \<and> typed t xs rs cs s u"
proof (cases "open_count (tty_table s t) = 0")
  case True
  then show ?thesis
    using assms(1) unfolding typed_def kputs_def
    by (intro exI [of _ s] conjI exI [of _ "read_q (tty_table s t)"] exI [of _ "chars s"]) simp_all
next
  case False
  have "room_for (length cs + (5 - length cs)) (chars s) xs" using assms(2,3) by simp
  from kputs_loop_room [OF False assms(1) this, of env] False show ?thesis
    by (auto simp: kputs_def typed_def)
qed

lemma kputc_kputs: "kputc env t c s = kputs env t [c] s"
  by (simp add: kputc_def kputs_def)

lemma kputc_kputs2: "do { s \<leftarrow> kputc env t c s; kputc env t d s } = kputs env t [c, d] s"
proof (cases "open_count (tty_table s t) = 0")
  case False
  have "open_count (tty_table u t) \<noteq> 0" if "kputc env t c s = Some u" for u
    using that False by (auto simp: kputc_def put_read_def upd_tty_def split: Option.bind_splits)
  then show ?thesis
    using False by (cases "kputc env t c s") (auto simp: kputs_def kputc_def [of env t d] split: Option.bind_splits)
qed (simp add: kputc_def kputs_def)

lemma typed_Nil:
  "charq_rep (read_q (tty_table s t)) (chars s) xs rs \<Longrightarrow> typed t xs rs [] s s"
  unfolding typed_def by (intro exI [of _ "read_q (tty_table s t)"] exI [of _ "chars s"]) simp

text \<open>The queue can take \<open>n\<close> characters without running into the heap's undefined behaviour: there is room in its
  last block, or the queue has its eight blocks and refuses what does not fit, or the heap has a new block.\<close>

definition puts_ok :: "(u32 \<Rightarrow> 'h \<Rightarrow> (u32 \<times> 'h) option) \<Rightarrow> nat \<Rightarrow> 'h cstore \<Rightarrow> u32 list \<Rightarrow> bool" where
  "puts_ok alloc n st xs \<longleftrightarrow> n \<le> 32 \<and> (room_for n st xs \<or> length xs = 8 \<or>
     (\<exists>a h. alloc sizeof_cblock (heap st) = Some (a, h) \<and> a \<noteq> 0 \<and> a \<notin> set xs))"

lemma put_char_ok:
  assumes rep: "charq_rep q st xs rs" and ok: "puts_ok alloc (Suc n) st xs"
  shows "\<exists>r q' st' ys. charq_put_char alloc c q st = Some (r, q', st') \<and> puts_ok alloc n st' ys \<and>
    charq_rep q' st' ys (if r = RET_OK then rs @ [c] else rs)"
proof (cases "xs = [] \<or> wr (cblocks st (last xs)) = 32")
  case False
  then obtain zs b where xs: "xs = zs @ [b]" by (cases xs rule: rev_cases) auto
  have pre: "cq_pre q st (zs @ [b])" and rw: "\<forall>a\<in>set zs. rd (cblocks st a) < wr (cblocks st a)"
    and rs: "rs = all_chars st (zs @ [b])" using rep xs by (auto simp: charq_rep_def)
  have "cblock_ok (cblocks st b)" using pre by (simp add: cq_pre_def)
  then have w: "wr (cblocks st b) < 32" using False xs by (auto simp: cblock_ok_def)
  note put = charq_put_room [OF pre w, where c = c]
  have "wr (cblocks (upd_cblock b (put_block c) st) b) = wr (cblocks st b) + 1"
    using w by (simp add: put_block_def u16_plus_1)
  then have "puts_ok alloc n (upd_cblock b (put_block c) st) xs"
    using ok xs by (auto simp: puts_ok_def room_for_def)
  then show ?thesis unfolding put(1) using put(2) [OF rw] rs xs by auto
next
  case True
  note none = charq_put_no_block [OF rep True, where c = c and alloc = alloc]
  have no: "\<not> room_for (Suc n) st xs" using True by (auto simp: room_for_def)
  show ?thesis
  proof (cases "length xs = 8")
    case True
    then show ?thesis using none(1) rep ok
      by (intro exI [of _ RET_FAIL] exI [of _ q] exI [of _ st] exI [of _ xs]) (auto simp: puts_ok_def)
  next
    case False
    then obtain a h where a: "alloc sizeof_cblock (heap st) = Some (a, h)" "a \<noteq> 0" "a \<notin> set xs" and n: "n < 32"
      using ok no by (auto simp: puts_ok_def)
    have "length xs < 8" using False rep by (auto simp: charq_rep_def cq_pre_def)
    obtain q' st' where new: "charq_put_char alloc c q st = Some (RET_OK, q', st')"
      "charq_rep q' st' (xs @ [a]) (rs @ [c])" "wr (cblocks st' a) = 1"
      using charq_put_new [where alloc = alloc and c = c, OF rep True \<open>length xs < 8\<close> a] by blast
    then have "puts_ok alloc n st' (xs @ [a])" using n by (simp add: puts_ok_def room_for_def)
    then show ?thesis using new by auto
  qed
qed

lemma kputs_loop_any:
  assumes "open_count (tty_table s t) \<noteq> 0" "charq_rep (read_q (tty_table s t)) (chars s) xs rs"
    "puts_ok (e_alloc env) (length cs + n) (chars s) xs"
  shows "\<exists>q st ys out. kputs_loop env t cs s = Some (with_read t q st s) \<and> charq_rep q st ys (rs @ out) \<and>
    length out \<le> length cs"
  using assms
proof (induction cs arbitrary: s rs xs)
  case Nil
  then show ?case
    by (intro exI [of _ "read_q (tty_table s t)"] exI [of _ "chars s"] exI [of _ xs] exI [of _ "[]"]) simp
next
  case (Cons c cs)
  have "puts_ok (e_alloc env) (Suc (length cs + n)) (chars s) xs" using Cons.prems(3) by simp
  from put_char_ok [OF Cons.prems(2) this, of c] obtain r q st ys where
    one: "charq_put_char (e_alloc env) c (read_q (tty_table s t)) (chars s) = Some (r, q, st)"
      "puts_ok (e_alloc env) (length cs + n) st ys" "charq_rep q st ys (if r = RET_OK then rs @ [c] else rs)" by blast
  let ?s = "with_read t q st s"
  let ?rs = "if r = RET_OK then rs @ [c] else rs"
  have "put_read env t c s = Some (r, ?s)" using one(1) by (simp add: put_read_def with_read_def)
  then have k: "kputc env t c s = Some ?s" using Cons.prems(1) by (simp add: kputc_def)
  have p: "open_count (tty_table ?s t) \<noteq> 0" "charq_rep (read_q (tty_table ?s t)) (chars ?s) ys ?rs"
    "puts_ok (e_alloc env) (length cs + n) (chars ?s) ys" using one Cons.prems(1) by simp_all
  obtain q' st' zs out where rest: "kputs_loop env t cs ?s = Some (with_read t q' st' s)" "charq_rep q' st' zs (?rs @ out)"
    "length out \<le> length cs" using Cons.IH [OF p] by auto
  have "kputs_loop env t (c # cs) s = Some (with_read t q' st' s)" using k rest(1) by simp
  moreover have "\<exists>o'. charq_rep q' st' zs (rs @ o') \<and> length o' \<le> length (c # cs)"
    using rest(2,3) by (intro exI [of _ "(if r = RET_OK then [c] else []) @ out"]) (simp split: if_splits)
  ultimately show ?case by blast
qed

text \<open>What a key may change: the read queue, and the driver's own variables.\<close>

definition kbd_typed :: "nat \<Rightarrow> u8 list \<Rightarrow> u8 list \<Rightarrow> ('h, 'z) kbd_state_scheme \<Rightarrow> bool" where
  "kbd_typed t rs out u \<longleftrightarrow> (\<exists>ys. charq_rep (read_q (tty_table u t)) (chars u) ys
     (rs @ (if open_count (tty_table u t) = 0 then [] else out))) \<and> length out \<le> 5"

lemma kputs_kbd:
  assumes rep: "charq_rep (read_q (tty_table s t)) (chars s) xs rs" "puts_ok (e_alloc env) 5 (chars s) xs"
    and n: "length cs \<le> 5"
  shows "\<exists>u out. kputs env t cs s = Some u \<and> kbd_typed t rs out u"
proof (cases "open_count (tty_table s t) = 0")
  case True
  then have "kputs env t cs s = Some s" by (simp add: kputs_def)
  moreover have "kbd_typed t rs [] s" using rep(1) by (auto simp: kbd_typed_def)
  ultimately show ?thesis by blast
next
  case False
  have "puts_ok (e_alloc env) (length cs + (5 - length cs)) (chars s) xs" using rep(2) n by simp
  from kputs_loop_any [OF False rep(1) this] obtain q st ys out where
    "kputs_loop env t cs s = Some (with_read t q st s)" "charq_rep q st ys (rs @ out)" "length out \<le> length cs" by blast
  then show ?thesis using False n
    by (intro exI [of _ "with_read t q st s"] exI [of _ out]) (auto simp: kputs_def kbd_typed_def)
qed

lemma key_emit_defined:
  assumes safe: "key_safe type key" and dead: "deadkey_pressed s = 0"
    and rep: "charq_rep (read_q (tty_table s t)) (chars s) xs rs" "puts_ok (e_alloc env) 5 (chars s) xs"
  shows "\<exists>u out. key_emit env t con type key (ucast key) s = Some (True, u) \<and> kbd_typed t rs out u"
proof -
  let ?c = "ucast key :: u8"
  note K = FN_KEYS_def SPEC_KEYS_def PAD_KEYS_def DEAD_KEYS_def META_KEYS_def LETTER_KEYS_def
  have put: "\<exists>u out. do { u \<leftarrow> kputs env t cs s; Some (True, u) } = Some (True, u) \<and> kbd_typed t rs out u"
    if "length cs \<le> 5" for cs
    using kputs_kbd [OF rep that] by auto
  have id: "\<exists>u out. Some (True, v) = Some (True, u) \<and> kbd_typed t rs out u"
    if "read_q (tty_table v t) = read_q (tty_table s t)" "chars v = chars s" for v
  proof -
    have "kbd_typed t rs [] v" using that rep(1) by (simp add: kbd_typed_def) blast
    then show ?thesis by blast
  qed
  consider "type = FN_KEYS" | "type = SPEC_KEYS" | "type = PAD_KEYS" | "type = META_KEYS" | "type = LETTER_KEYS"
    | "type \<notin> {FN_KEYS, SPEC_KEYS, PAD_KEYS, META_KEYS, LETTER_KEYS}" by blast
  then show ?thesis
  proof cases
    case 1
    then have b: "unat ?c < 20" using safe by (simp add: key_safe_def)
    then have "length (fn_seq ! unat ?c) \<le> 5" using seq_lengths by simp
    then show ?thesis using put [of "fn_seq ! unat ?c"] b 1 seq_lengths by (simp add: key_emit_def)
  next
    case 2
    then show ?thesis using put [of "[13]"] id [of s] id [of "s\<lparr>altsysrq_pressed := True\<rparr>"]
      by (simp add: key_emit_def K kputc_kputs)
  next
    case 3
    then have b: "unat ?c < 17" using safe by (simp add: key_safe_def)
    then have "length (pad_seq ! unat ?c) \<le> 5" using seq_lengths by simp
    then show ?thesis using put [of "pad_seq ! unat ?c"] put [of "[pad_chars ! unat ?c]"] b 3 seq_lengths
      by (simp add: key_emit_def K kputc_kputs)
  next
    case 4
    have "do { v \<leftarrow> kputc env t 27 s; v \<leftarrow> kputc env t ?c v; Some (True, v) } =
        do { v \<leftarrow> kputs env t [27, ?c] s; Some (True, v) }"
      unfolding kputc_kputs2 [symmetric] by simp
    then show ?thesis using put [of "[27, ?c]"] 4 by (simp add: key_emit_def K)
  next
    case 5
    then show ?thesis using put [of "[?c]"] dead by (simp add: key_emit_def K kputc_kputs)
  next
    case 6
    moreover have "type \<noteq> DEAD_KEYS" using safe by (simp add: key_safe_def)
    ultimately show ?thesis
      using put [of "[?c]"] dead
        id [of "s\<lparr>sysrq_op := (if ?c = 108 then SYSRQ_STACK else if ?c = 109 then SYSRQ_MEMORY
                         else if ?c = 116 then SYSRQ_TASKS else SYSRQ_UNDEF), do_sysrq := 1\<rparr>"]
      by (simp add: key_emit_def kputc_kputs)
  qed
qed


lemma key_mod_cases: "key_mod c base s \<in> {0, 1, 2, 4, 8}" "alt_pressed s \<Longrightarrow> key_mod c base s = 8"
  by (auto simp: key_mod_def Let_def)

lemma key_down_defined:
  assumes dead: "deadkey_pressed s = 0" and sys: "altsysrq_pressed s \<Longrightarrow> alt_pressed s"
    and rep: "charq_rep (read_q (tty_table s t)) (chars s) xs rs" "puts_ok (e_alloc env) 5 (chars s) xs"
  shows "\<exists>u out. key_down env t con s_code s = Some u \<and> kbd_typed t rs out u"
proof -
  let ?k = "unat (s_code AND 0x7F)"
  obtain base where base: "keymap_line s_code MOD_BASE = Some base"
    using keymap_line_eq [of 0 s_code] by (simp add: MOD_BASE_def)
  let ?m = "key_mod con base s"
  have m: "?m < 16" using key_mod_cases(1) [of con base s] by auto
  define key where "key = keymap_rows ! ?k ! ?m"
  have line: "keymap_line s_code ?m = Some key" unfolding key_def by (rule keymap_line_eq [OF m])
  define key' where "key' = (if extkey_pressed s \<and> s_code = SLASH_NPAD then SLASH else key)"
  define type where "type = (if altsysrq_pressed s then (key' AND 0xFF00) AND NOT META_KEYS else key' AND 0xFF00)"
  have id: "kbd_typed t rs [] v" if "read_q (tty_table v t) = read_q (tty_table s t)" "chars v = chars s" for v
    using that rep(1) by (auto simp: kbd_typed_def)
  have safe: "key_safe type key'"
  proof (cases "extkey_pressed s \<and> s_code = SLASH_NPAD")
    case True
    then show ?thesis
      by (simp add: key'_def type_def key_safe_def SLASH_def PAD_KEYS_def FN_KEYS_def DEAD_KEYS_def META_KEYS_def)
  next
    case False
    then show ?thesis
      using key_safe_at [OF m, of s_code] sys key_mod_cases(2) [of s con base]
      by (auto simp: key'_def type_def key_def and.assoc)
  qed
  obtain u out where u: "key_emit env t con type key' (ucast key') s = Some (True, u)" "kbd_typed t rs out u"
    using key_emit_defined [OF safe dead rep] by blast
  have "kbd_typed t rs out (u\<lparr>deadkey_pressed := 0\<rparr>)" using u(2) by (simp add: kbd_typed_def)
  moreover have "key_down env t con s_code s =
     (if key \<ge> AF1 \<and> key \<le> AF12 then Some (s\<lparr>do_switch_console := int (unat (key - CONS_KEYS))\<rparr>)
      else if shift_pressed s \<and> key = PGUP then Some (s\<lparr>do_buf_scroll := 1\<rparr>)
      else if shift_pressed s \<and> key = PGDN then Some (s\<lparr>do_buf_scroll := 2\<rparr>)
      else Some (u\<lparr>deadkey_pressed := 0\<rparr>))"
    by (simp only: key_down_def base line Option.bind.simps Let_def key'_def [symmetric] type_def [symmetric]
        u(1) prod.case if_True)
  ultimately show ?thesis
    using id [of "s\<lparr>do_switch_console := int (unat (key - CONS_KEYS))\<rparr>"]
      id [of "s\<lparr>do_buf_scroll := 1\<rparr>"] id [of "s\<lparr>do_buf_scroll := 2\<rparr>"] by auto
qed

lemma modifier_down_keeps:
  "modifier_down c key s = Some u \<Longrightarrow> tty_table u = tty_table s \<and> chars u = chars s"
  by (auto simp: modifier_down_def upd_vc_def Let_def split: if_splits)

lemma key_up_keeps: "tty_table (key_up key s) = tty_table s" "chars (key_up key s) = chars s"
  by (auto simp: key_up_def Let_def)

lemma kbd_typed_Nil:
  "charq_rep (read_q (tty_table s t)) (chars s) xs rs \<Longrightarrow> tty_table u = tty_table s \<Longrightarrow> chars u = chars s \<Longrightarrow>
    kbd_typed t rs [] u"
  by (simp add: kbd_typed_def) blast

lemma raw_key_defined: "\<exists>raw. raw_key s_code s = Some raw"
proof (cases "extkey_pressed s")
  case True
  have "unat (s_code AND 0x7F) < length e0_keys" using scode_bound [of s_code] by (simp add: e0_keys_def)
  then show ?thesis using True by (simp add: raw_key_def Let_def)
qed (simp add: raw_key_def Let_def)

lemma key_event_defined:
  assumes "deadkey_pressed s = 0" "altsysrq_pressed s \<Longrightarrow> alt_pressed s"
    and rep: "charq_rep (read_q (tty_table s t)) (chars s) xs rs" "puts_ok (e_alloc env) 5 (chars s) xs"
  shows "\<exists>u out. key_event env t con s_code s = Some u \<and> kbd_typed t rs out u"
proof -
  note nil = kbd_typed_Nil [OF rep(1)]
  obtain raw where raw: "raw_key s_code s = Some raw" using raw_key_defined by blast
  obtain key where key: "keymap_line s_code 0 = Some key" using keymap_line_eq [of 0 s_code] by simp
  obtain v out where down: "key_down env t con s_code s = Some v" "kbd_typed t rs out v"
    using key_down_defined [OF assms] by blast
  have n: "kbd_typed t rs [] s" "kbd_typed t rs [] (s\<lparr>extkey_pressed := True\<rparr>)"
    "kbd_typed t rs [] (s\<lparr>extkey_pressed := False\<rparr>)" "kbd_typed t rs [] (key_up key s)"
    by (rule nil; simp add: key_up_keeps)+
  show ?thesis
  proof (cases "modifier_down con key s")
    case None
    then show ?thesis unfolding key_event_def using raw key down n by auto
  next
    case (Some u)
    then have "kbd_typed t rs [] u" using modifier_down_keeps [OF Some] by (intro nil) simp_all
    then show ?thesis unfolding key_event_def using raw key Some n by auto
  qed
qed

text \<open>C29: whatever byte the keyboard sends, the interrupt handler returns, reads its tables within
  their bounds, and appends at most five characters to the read queue of the current terminal, none if the
  terminal is not open; this for the built-in key map, while no dead key is pending, the system request key is only held
  together with alt, and the queue has room for five characters in its last block, or has all of its eight blocks, or the
  heap has a new block to give (a heap without one is a null pointer in \<open>buddy_alloc\<close>).\<close>

theorem keyboard_irq_defined:
  assumes tty: "tty_get env (DEVICE_MKDEV VCONSOLE_MAJOR (current_console s)) s = Some (Some t)"
    and dead: "deadkey_pressed s = 0" and sys: "altsysrq_pressed s \<Longrightarrow> alt_pressed s"
    and rep: "charq_rep (read_q (tty_table s t)) (chars s) xs rs"
    and room: "room_for 5 (chars s) xs \<or> length xs = 8 \<or>
      (\<exists>a h. e_alloc env sizeof_cblock (heap (chars s)) = Some (a, h) \<and> a \<noteq> 0 \<and> a \<notin> set xs)"
  shows "\<exists>u out ys. keyboard_irq env dev s = Some u \<and> length out \<le> 5 \<and>
    charq_rep (read_q (tty_table u t)) (chars u) ys (rs @ (if open_count (tty_table u t) = 0 then [] else out))"
proof -
  obtain s_code p where rd: "ps2_inb dev PS2_DATA_PORT (ps2 s) = (s_code, p)" by fastforce
  let ?s = "upd_bh (kbd_bh s) (\<lambda>b. b\<lparr>bh_flags := bh_flags b OR IRQ_BH_ACTIVE\<rparr>) (s\<lparr>ps2 := p\<rparr>)"
  have "\<exists>u out. key_event env t (tty_data (tty_table s t)) s_code ?s = Some u \<and> kbd_typed t rs out u"
    using dead sys rep room by (intro key_event_defined [where xs = xs]) (simp_all add: upd_bh_def puts_ok_def)
  moreover have "kbd_typed t rs [] (s\<lparr>ps2 := p\<lparr>ack := 1\<rparr>\<rparr>)" by (rule kbd_typed_Nil [OF rep]) simp_all
  ultimately have "\<exists>u out. keyboard_irq env dev s = Some u \<and> kbd_typed t rs out u"
    using tty rd by (auto simp: keyboard_irq_def Let_def)
  then show ?thesis unfolding kbd_typed_def by blast
qed

section \<open>Letters\<close>

text \<open>The scancodes of the letter keys, with the small letters.\<close>

definition letter_codes :: "(u8 \<times> u8) list" where
  "letter_codes = [(16, 113), (17, 119), (18, 101), (19, 114), (20, 116), (21, 121), (22, 117), (23, 105), (24, 111), (25, 112), (30, 97), (31, 115), (32, 100), (33, 102), (34, 103), (35, 104), (36, 106), (37, 107), (38, 108), (44, 122), (45, 120), (46, 99), (47, 118), (48, 98), (49, 110), (50, 109)]"

definition plain_letter :: "u16 \<Rightarrow> u8 \<Rightarrow> bool" where
  "plain_letter key l \<longleftrightarrow> \<not> (AF1 \<le> key \<and> key \<le> AF12) \<and> key \<noteq> PGUP \<and> key \<noteq> PGDN \<and>
     key AND 0xFF00 = LETTER_KEYS \<and> ucast key = l \<and> 18 \<le> unat l"

definition letter_row :: "u8 \<Rightarrow> u8 \<Rightarrow> bool" where
  "letter_row sc l \<longleftrightarrow>
     (let r = keymap_rows ! unat (sc AND 0x7F)
      in sc AND 0x80 = 0 \<and> sc \<noteq> DEV_ACK \<and> sc \<noteq> EXTKEY \<and>
         r ! 0 \<notin> {CAPS, NUMS, SCRL, CTRL, LCTRL, RCTRL, ALT, SHIFT, LSHIFT, RSHIFT} \<and>
         r ! 0 AND LETTER_KEYS \<noteq> 0 \<and> plain_letter (r ! 0) l \<and> plain_letter (r ! 1) (l - 32))"

lemma letter_rows: "list_all (\<lambda>(sc, l). letter_row sc l) letter_codes"
  by code_simp

text \<open>No modifier but shift is held, and no dead key is pending.\<close>

definition no_modifier :: "('h, 'z) kbd_state_scheme \<Rightarrow> bool" where
  "no_modifier s \<longleftrightarrow> \<not> ctrl_pressed s \<and> \<not> alt_pressed s \<and> \<not> altgr_pressed s \<and> \<not> extkey_pressed s \<and>
     deadkey_pressed s = 0"

lemma key_emit_letter:
  assumes "plain_letter key l" "deadkey_pressed s = 0" "\<not> altsysrq_pressed s"
    and "charq_rep (read_q (tty_table s t)) (chars s) xs rs" "room_for 5 (chars s) xs"
  shows "\<exists>u. key_emit env t con LETTER_KEYS key (ucast key) s = Some (True, u) \<and> typed t xs rs [l] s u"
proof -
  have "ucast key = l" using assms(1) by (simp add: plain_letter_def)
  then show ?thesis
    using kputs_typed [OF assms(4,5), of "[l]" env] assms(2)
    by (auto simp: key_emit_def kputc_kputs FN_KEYS_def SPEC_KEYS_def PAD_KEYS_def DEAD_KEYS_def META_KEYS_def
        LETTER_KEYS_def)
qed

lemma key_down_letter:
  assumes row: "letter_row sc l" and pl: "no_modifier s"
    and l: "l' = (if shift_pressed s \<noteq> capslock_on (consoles s con) then l - 32 else l)"
  shows "\<exists>key. plain_letter key l' \<and> key_down env t con sc s = do {
    let type = (if altsysrq_pressed s then PAD_KEYS else LETTER_KEYS);
    (reset, u) \<leftarrow> key_emit env t con type key (ucast key) s;
    Some (if reset then u\<lparr>deadkey_pressed := 0\<rparr> else u) }"
proof -
  let ?r = "keymap_rows ! unat (sc AND 0x7F)" and ?m = "key_mod con (keymap_rows ! unat (sc AND 0x7F) ! 0) s"
  have m: "?m = of_bool (shift_pressed s \<noteq> capslock_on (consoles s con))"
    using row pl by (auto simp: key_mod_def letter_row_def no_modifier_def Let_def)
  have pk: "plain_letter (?r ! ?m) l'" using row l m by (auto simp: letter_row_def Let_def)
  have "?m < 16" using m by simp
  then have "keymap_line sc ?m = Some (?r ! ?m)" "keymap_line sc MOD_BASE = Some (?r ! 0)"
    using keymap_line_eq [of _ sc] by (simp_all add: MOD_BASE_def)
  moreover have "LETTER_KEYS AND NOT META_KEYS = PAD_KEYS"
    by (simp add: LETTER_KEYS_def META_KEYS_def PAD_KEYS_def)
  moreover have "\<not> extkey_pressed s" using pl by (simp add: no_modifier_def)
  ultimately show ?thesis
    using pk by (intro exI [of _ "?r ! ?m"]) (auto simp: key_down_def plain_letter_def Let_def)
qed

text \<open>C33: a letter key, with no modifier but shift held, types its letter into the read queue of
  the open current terminal: the capital if just one of shift and caps lock is on, else the small letter.
  After the system request key has been pressed alone, the same key takes the handler beyond the table of
  the numeric pad: removing the bits of \<open>META_KEYS\<close> turns \<open>LETTER_KEYS\<close> into \<open>PAD_KEYS\<close>. The read queue is taken to
  have room for five characters in its last block.\<close>

theorem letter_key_typed:
  assumes tty: "tty_get env (DEVICE_MKDEV VCONSOLE_MAJOR (current_console s)) s = Some (Some t)"
    and code: "(sc, l) \<in> set letter_codes" "pd_read dev (plog (ps2 s)) PS2_DATA_PORT = sc"
    and st: "kbd_mode (tty_table s t) = KBD_MODE_XLATE" "open_count (tty_table s t) \<noteq> 0" "no_modifier s"
    and rep: "charq_rep (read_q (tty_table s t)) (chars s) xs rs" "room_for 5 (chars s) xs"
  shows "(altsysrq_pressed s \<longrightarrow> keyboard_irq env dev s = None) \<and>
    (\<not> altsysrq_pressed s \<longrightarrow> (\<exists>u. keyboard_irq env dev s = Some u \<and>
      charq_rep (read_q (tty_table u t)) (chars u) xs
        (rs @ [if shift_pressed s \<noteq> capslock_on (consoles s (tty_data (tty_table s t))) then l - 32 else l])))"
proof -
  let ?con = "tty_data (tty_table s t)"
  let ?l = "if shift_pressed s \<noteq> capslock_on (consoles s ?con) then l - 32 else l"
  have row: "letter_row sc l" using letter_rows code(1) by (auto simp: list_all_iff)
  define p where "p = (ps2 s)\<lparr>plog := plog (ps2 s) @ [PRd PS2_DATA_PORT sc]\<rparr>"
  define v where "v = upd_bh (kbd_bh s) (\<lambda>b. b\<lparr>bh_flags := bh_flags b OR IRQ_BH_ACTIVE\<rparr>) (s\<lparr>ps2 := p\<rparr>)"
  have v: "tty_table v = tty_table s" "chars v = chars s" "consoles v = consoles s" "shift_pressed v = shift_pressed s"
    "altsysrq_pressed v = altsysrq_pressed s" "no_modifier v = no_modifier s" "deadkey_pressed v = deadkey_pressed s"
    by (simp_all add: v_def upd_bh_def no_modifier_def)
  have "ps2_inb dev PS2_DATA_PORT (ps2 s) = (sc, p)" using code(2) by (simp add: ps2_inb_def p_def Let_def)
  then have "keyboard_irq env dev s = key_event env t ?con sc v"
    using tty row by (simp add: keyboard_irq_def letter_row_def Let_def v_def)
  also have "\<dots> = key_down env t ?con sc v"
  proof -
    obtain raw where "raw_key sc v = Some raw" using raw_key_defined by blast
    moreover have "keymap_line sc 0 = Some (keymap_rows ! unat (sc AND 0x7F) ! 0)" by (rule keymap_line_eq) simp
    moreover have "modifier_down ?con (keymap_rows ! unat (sc AND 0x7F) ! 0) v = None"
      using row by (simp add: letter_row_def modifier_down_def Let_def)
    moreover have "\<not> ctrl_pressed v" using st(3) v by (simp add: no_modifier_def)
    ultimately show ?thesis using row st(1) v by (simp add: key_event_def letter_row_def Let_def)
  qed
  finally have run: "keyboard_irq env dev s = key_down env t ?con sc v" .
  have nm: "no_modifier v" using st(3) v by simp
  obtain key where key: "plain_letter key ?l" "key_down env t ?con sc v = do {
      let type = (if altsysrq_pressed v then PAD_KEYS else LETTER_KEYS);
      (reset, u) \<leftarrow> key_emit env t ?con type key (ucast key) v;
      Some (if reset then u\<lparr>deadkey_pressed := 0\<rparr> else u) }"
    using key_down_letter [OF row nm refl] unfolding v by blast
  show ?thesis
  proof (intro conjI impI)
    assume "altsysrq_pressed s"
    moreover have "18 \<le> unat (ucast key :: u8)" using key(1) by (auto simp: plain_letter_def)
    then have "key_emit env t ?con PAD_KEYS key (ucast key) v = None"
      using seq_lengths by (simp add: key_emit_def FN_KEYS_def SPEC_KEYS_def PAD_KEYS_def)
    ultimately show "keyboard_irq env dev s = None" using run key(2) v by simp
  next
    assume a: "\<not> altsysrq_pressed s"
    have d: "deadkey_pressed v = 0" using nm by (simp add: no_modifier_def)
    obtain u where u: "key_emit env t ?con LETTER_KEYS key (ucast key) v = Some (True, u)" "typed t xs rs [?l] v u"
      using key_emit_letter [OF key(1) d _ rep [folded v], of env ?con] a v by auto
    have "charq_rep (read_q (tty_table u t)) (chars u) xs (rs @ [?l])"
      using u(2) st(2) v by (auto simp: typed_def)
    then show "\<exists>u. keyboard_irq env dev s = Some u \<and> charq_rep (read_q (tty_table u t)) (chars u) xs (rs @ [?l])"
      using run key(2) u(1) a v by (intro exI [of _ "u\<lparr>deadkey_pressed := 0\<rparr>"]) simp
  qed
qed

section \<open>Examples\<close>

definition kbd_example :: "bool \<Rightarrow> nat kbd_state" where
  "kbd_example caps = con_state.extend
     ((con_of (timer_state.extend (timer_state.truncate idle_timer)
        (tty_state.fields (\<lambda>_. zero_tty\<lparr>devnum := 0x401, open_count := 1, kbd_mode := KBD_MODE_XLATE,
           tty_data := 1, read_q := one_queue\<rparr>) (one_store 0) two_running 1)))
      \<lparr>consoles := (\<lambda>_. boot_console\<lparr>capslock_on := caps\<rparr>)\<rparr>)
     (kbd_state.fields 0x80 0x90 0 (0, 0) 0 None True False True False False False False False False
        0 0 (- 1) 0 0 0 0 0 0)"

definition sends :: "u8 \<Rightarrow> ps2_dev" where
  "sends b = \<lparr>pd_read = (\<lambda>_ _. b), pd_irq = (\<lambda>_. False)\<rparr>"

lemma kbd_example_simps [simp]:
  "tty_table (kbd_example caps) t = zero_tty\<lparr>devnum := 0x401, open_count := 1, kbd_mode := KBD_MODE_XLATE,
     tty_data := 1, read_q := one_queue\<rparr>"
  "chars (kbd_example caps) = one_store 0" "current_console (kbd_example caps) = 1"
  "deadkey_pressed (kbd_example caps) = 0" "shift_pressed (kbd_example caps)" "\<not> altsysrq_pressed (kbd_example caps)"
  "consoles (kbd_example caps) c = boot_console\<lparr>capslock_on := caps\<rparr>" "no_modifier (kbd_example caps)"
  by (simp_all add: kbd_example_def con_of_def con_state.extend_def kbd_state.fields_def tty_state.extend_def
      con_state.fields_def timer_state.extend_def tty_state.fields_def no_modifier_def)

lemma kbd_example_tty:
  "tty_get idle_env (DEVICE_MKDEV VCONSOLE_MAJOR (current_console (kbd_example caps))) (kbd_example caps) = Some (Some 0)"
  by (simp add: tty_get_def DEVICE_MKDEV_def VCONSOLE_MAJOR_def SYSCON_MAJOR_def idle_env_def NUM_TTYS_def
      tty_get_loop.simps)

lemma kbd_example_rep:
  "charq_rep (read_q (tty_table (kbd_example caps) 0)) (chars (kbd_example caps)) [0xC000100C] [65, 66]"
  "room_for 5 (chars (kbd_example caps)) [0xC000100C]"
  using one_queue_rep [of "0 :: nat"] by (simp_all add: room_for_def one_store_def)

text \<open>F1, typed into a queue with room and into an empty one.\<close>

theorem keyboard_irq_defined_witness:
  "(\<exists>u out ys. keyboard_irq idle_env (sends 0x3B) (kbd_example False) = Some u \<and> length out \<le> 5 \<and>
    charq_rep (read_q (tty_table u 0)) (chars u) ys
      ([65, 66] @ (if open_count (tty_table u 0) = 0 then [] else out))) \<and>
   (\<exists>u out ys. keyboard_irq (idle_env\<lparr>e_alloc := (\<lambda>_ h. Some (0xC000200C, h + 1))\<rparr>) (sends 0x3B)
      (upd_tty 0 (\<lambda>x. x\<lparr>read_q := zero_charq\<rparr>) (kbd_example False)) = Some u \<and> length out \<le> 5 \<and>
    charq_rep (read_q (tty_table u 0)) (chars u) ys ([] @ (if open_count (tty_table u 0) = 0 then [] else out)))"
proof
  let ?s = "upd_tty 0 (\<lambda>x. x\<lparr>read_q := zero_charq\<rparr>) (kbd_example False)"
  show "\<exists>u out ys. keyboard_irq idle_env (sends 0x3B) (kbd_example False) = Some u \<and> length out \<le> 5 \<and>
    charq_rep (read_q (tty_table u 0)) (chars u) ys
      ([65, 66] @ (if open_count (tty_table u 0) = 0 then [] else out))"
    by (rule keyboard_irq_defined [OF kbd_example_tty _ _ kbd_example_rep(1)]) (simp_all add: room_for_def one_store_def)
  show "\<exists>u out ys. keyboard_irq (idle_env\<lparr>e_alloc := (\<lambda>_ h. Some (0xC000200C, h + 1))\<rparr>) (sends 0x3B) ?s = Some u \<and>
    length out \<le> 5 \<and>
    charq_rep (read_q (tty_table u 0)) (chars u) ys ([] @ (if open_count (tty_table u 0) = 0 then [] else out))"
  proof (rule keyboard_irq_defined [where xs = "[]"])
    show "tty_get (idle_env\<lparr>e_alloc := (\<lambda>_ h. Some (0xC000200C, h + 1))\<rparr>)
        (DEVICE_MKDEV VCONSOLE_MAJOR (current_console ?s)) ?s = Some (Some 0)"
      by (simp add: tty_get_def DEVICE_MKDEV_def VCONSOLE_MAJOR_def SYSCON_MAJOR_def idle_env_def NUM_TTYS_def
          tty_get_loop.simps upd_tty_def)
  qed (simp_all add: upd_tty_def zero_charq_rep)
qed

theorem letter_key_typed_witness:
  "(\<exists>u. keyboard_irq idle_env (sends 0x1E) (kbd_example False) = Some u \<and>
      charq_rep (read_q (tty_table u 0)) (chars u) [0xC000100C] [65, 66, 65]) \<and>
   (\<exists>u. keyboard_irq idle_env (sends 0x1E) (kbd_example True) = Some u \<and>
      charq_rep (read_q (tty_table u 0)) (chars u) [0xC000100C] [65, 66, 97])"
proof -
  have code: "(0x1E, 97) \<in> set letter_codes" by (simp add: letter_codes_def)
  have dev: "pd_read (sends 0x1E) (plog (ps2 (kbd_example caps))) PS2_DATA_PORT = 0x1E" for caps
    by (simp add: sends_def)
  have m: "kbd_mode (tty_table (kbd_example caps) 0) = KBD_MODE_XLATE" "open_count (tty_table (kbd_example caps) 0) \<noteq> 0"
    "no_modifier (kbd_example caps)" for caps
    by simp_all
  have "\<exists>u. keyboard_irq idle_env (sends 0x1E) (kbd_example caps) = Some u \<and>
      charq_rep (read_q (tty_table u 0)) (chars u) [0xC000100C] ([65, 66] @ [if caps then 97 else 65])" for caps
    using letter_key_typed [OF kbd_example_tty code dev m kbd_example_rep, of caps] by (cases caps) simp_all
  from this [of False] this [of True] show ?thesis by simp
qed

end
