(* ===== verification/Vga.thy ===== *)
theory Vga
  imports Keyboard Memory
begin

text \<open>
  The VGA text-mode driver, \<open>src/drivers/src/dev/char/vga.c\<close> with \<open>src/include/drivers/dev/char/vga.h\<close>, and
  \<open>video.c\<close>, which selects it. The state extends that of \<open>Keyboard\<close>; the argument \<open>vid\<close> of the console and the
  keyboard is what the driver provides; the screen and the buffers are in \<open>vmem\<close>, cells of two bytes. The accesses to ports are kept in order, as in
  \<open>Ps2\<close>, and what a read answers after them is the argument \<open>dev\<close>. The interrupt flag is saved, cleared and
  restored and has no effect on the state.
\<close>

section \<open>State\<close>

datatype screen_status_t = SCREEN_STAT_ON | SCREEN_STAT_OFF

record 'h vga_state = "'h kbd_state" +
  screen_status :: screen_status_t
  scrollback_buffer :: u32
  vga_log :: "port_op list"

type_synonym vga_dev = "port_op list \<Rightarrow> u16 \<Rightarrow> u8"

definition VGA_MONO_ADDR :: u32 where "VGA_MONO_ADDR = 0xB0000"
definition VGA_COLOR_ADDR :: u32 where "VGA_COLOR_ADDR = 0xB8000"
definition VGA_MONO_PORT :: u16 where "VGA_MONO_PORT = 0x3B4"
definition VGA_COLOR_PORT :: u16 where "VGA_COLOR_PORT = 0x3D4"
definition VGA_ATTR_CONTROLLER :: u16 where "VGA_ATTR_CONTROLLER = 0x3C0"
definition VGA_ATTR_CONTROLLER_PAS :: u8 where "VGA_ATTR_CONTROLLER_PAS = 0x20"
definition VGA_INPUT_STAT1 :: u16 where "VGA_INPUT_STAT1 = 0x3DA"
definition VGA_MONO_STAT_PORT :: u16 where "VGA_MONO_STAT_PORT = 0x3BA"
definition CRT_INDEX :: u16 where "CRT_INDEX = 0"
definition CRT_DATA :: u16 where "CRT_DATA = 1"
definition CRT_CURSOR_STR :: u8 where "CRT_CURSOR_STR = 0xA"
definition CRT_CURSOR_POS_HI :: u8 where "CRT_CURSOR_POS_HI = 0xE"
definition CRT_CURSOR_POS_LO :: u8 where "CRT_CURSOR_POS_LO = 0xF"
definition VPF_CURSOR_ON :: u32 where "VPF_CURSOR_ON = 4"
definition CURSOR_MASK :: u8 where "CURSOR_MASK = 0x1F"
definition CURSOR_DISABLE :: u8 where "CURSOR_DISABLE = 0x20"
definition BIOS_DATA_AREA :: u32 where "BIOS_DATA_AREA = 0x410"
definition BIOS_DATA_AREA_MONODISPLAY :: u16 where "BIOS_DATA_AREA_MONODISPLAY = 0x30"
definition VGA_MONO_SIG :: "u8 list" where
  "VGA_MONO_SIG = [86, 71, 65, 32, 109, 111, 110, 111, 99, 104, 114, 111, 109, 101, 32, 56, 48, 120, 50, 53, 0]"
definition VGA_COLOR_SIG :: "u8 list" where
  "VGA_COLOR_SIG = [86, 71, 65, 32, 99, 111, 108, 111, 114, 32, 56, 48, 120, 50, 53, 0]"

definition iso8859 :: "u8 list" where
  "iso8859 =
     replicate 32 0 @
     map of_nat [32..<127] @
     replicate 33 0 @
     [255, 173, 155, 156, 254, 157, 124, 21, 254, 254, 166, 174, 170, 45, 254, 254,
      248, 241, 253, 254, 254, 230, 20, 249, 254, 254, 167, 175, 172, 171, 254, 168,
      254, 254, 254, 254, 142, 143, 146, 128, 254, 144, 254, 254, 254, 254, 254, 254,
      254, 165, 254, 254, 254, 254, 153, 254, 232, 254, 254, 254, 154, 254, 254, 225,
      133, 160, 131, 254, 132, 134, 145, 135, 138, 130, 136, 137, 141, 161, 140, 139,
      254, 164, 149, 162, 147, 254, 148, 246, 237, 151, 163, 150, 129, 254, 254, 152]"

section \<open>Ports and cells\<close>

definition vga_inb :: "vga_dev \<Rightarrow> u16 \<Rightarrow> ('h, 'z) vga_state_scheme \<Rightarrow> u8 \<times> ('h, 'z) vga_state_scheme" where
  "vga_inb dev port s = (let v = dev (vga_log s) port in (v, s\<lparr>vga_log := vga_log s @ [PRd port v]\<rparr>))"

definition vga_outb :: "u16 \<Rightarrow> u8 \<Rightarrow> ('h, 'z) vga_state_scheme \<Rightarrow> ('h, 'z) vga_state_scheme" where
  "vga_outb port v s = s\<lparr>vga_log := vga_log s @ [PWr port v]\<rparr>"

text \<open>The address of a cell.\<close>

definition cell :: "u32 \<Rightarrow> int \<Rightarrow> u32" where
  "cell buffer i = buffer + 2 * word_of_int i"

definition cell_index :: "int \<Rightarrow> int \<Rightarrow> int \<Rightarrow> int option" where
  "cell_index y columns x = do { row \<leftarrow> to_int (y * columns); to_int (row + x) }"

section \<open>The driver\<close>

definition vga_console_has_focus :: "nat \<Rightarrow> ('h, 'z) con_state_scheme \<Rightarrow> bool" where
  "vga_console_has_focus c s \<longleftrightarrow> vc_flags (consoles s c) AND CONSOLE_HAS_FOCUS \<noteq> 0"

definition vga_screen_on :: "vga_dev \<Rightarrow> nat \<Rightarrow> ('h, 'z) vga_state_scheme \<Rightarrow> ('h, 'z) vga_state_scheme option" where
  "vga_screen_on dev c s =
     (if screen_status s = SCREEN_STAT_OFF then
        (let (_, s) = vga_inb dev VGA_INPUT_STAT1 s;
             (_, s) = vga_inb dev VGA_MONO_STAT_PORT s
         in Some (vga_outb VGA_ATTR_CONTROLLER VGA_ATTR_CONTROLLER_PAS s))
      else Some s)"

definition vga_screen_off :: "vga_dev \<Rightarrow> nat \<Rightarrow> ('h, 'z) vga_state_scheme \<Rightarrow> ('h, 'z) vga_state_scheme option" where
  "vga_screen_off dev c s =
     (let s = s\<lparr>screen_status := SCREEN_STAT_OFF\<rparr>;
          (_, s) = vga_inb dev VGA_INPUT_STAT1 s;
          (_, s) = vga_inb dev VGA_MONO_STAT_PORT s
      in Some (vga_outb VGA_ATTR_CONTROLLER 0 s))"

definition vga_put_char :: "nat \<Rightarrow> u8 \<Rightarrow> ('h, 'z) vga_state_scheme \<Rightarrow> ('h, 'z) vga_state_scheme option" where
  "vga_put_char c ch s = do {
     let vc = consoles s c;
     let ch = iso8859 ! unat ch;
     next_index \<leftarrow> cell_index (vc_y vc) (vc_columns vc) (vc_x vc);
     let next_value = color_attr vc OR ucast ch;
     let s = s\<lparr>vmem := put_u16 (vmem s) (cell (back_buffer vc) next_index) next_value\<rparr>;
     if vga_console_has_focus c s then do {
       let s = s\<lparr>vmem := put_u16 (vmem s) (cell (main_buffer vc) next_index) next_value\<rparr>;
       i \<leftarrow> cell_index (buf_y (video s)) (vc_columns vc) (vc_x vc);
       Some (s\<lparr>vmem := put_u16 (vmem s) (cell (scrollback_buffer s) i) next_value\<rparr>)
     } else Some s
   }"

text \<open>\<open>kmemcpy\<close> and \<open>kmemset\<close> of one byte: what is carried from cell to cell is the low byte of
  \<open>tmp_char\<close>, that is, the character without its attribute.\<close>

primrec insert_loop :: "nat \<Rightarrow> nat \<Rightarrow> int \<Rightarrow> u8 \<Rightarrow> ('h, 'z) vga_state_scheme \<Rightarrow> ('h, 'z) vga_state_scheme" where
  "insert_loop c 0 offset last_char s = s"
| "insert_loop c (Suc n) offset last_char s =
     (let main = cell (main_buffer (consoles s c)) offset;
          back = cell (back_buffer (consoles s c)) offset;
          s = (if vga_console_has_focus c s then s\<lparr>vmem := (vmem s)(main := last_char)\<rparr> else s);
          tmp_char = vmem s back;
          s = s\<lparr>vmem := (vmem s)(back := last_char)\<rparr>
      in insert_loop c n (offset + 1) tmp_char s)"

definition vga_insert_char :: "nat \<Rightarrow> ('h, 'z) vga_state_scheme \<Rightarrow> ('h, 'z) vga_state_scheme option" where
  "vga_insert_char c s = do {
     let vc = consoles s c;
     offset \<leftarrow> cell_index (vc_y vc) (vc_columns vc) (vc_x vc);
     Some (insert_loop c (nat (vc_columns vc - vc_x vc)) offset (ucast CLEAR_MEM) s)
   }"

definition vga_delete_char :: "nat \<Rightarrow> ('h, 'z) vga_state_scheme \<Rightarrow> ('h, 'z) vga_state_scheme option" where
  "vga_delete_char c s = do {
     let vc = consoles s c;
     offset \<leftarrow> cell_index (vc_y vc) (vc_columns vc) (vc_x vc);
     count \<leftarrow> to_int (vc_columns vc - vc_x vc);
     let remove = (\<lambda>buffer m.
       let m = fst (kmemcpy m (cell buffer offset) (cell buffer (offset + 1)) (word_of_int count))
       in fst (kmemset m (cell buffer (offset + count)) (int (unat CLEAR_MEM)) 1));
     let s = (if vga_console_has_focus c s then s\<lparr>vmem := remove (main_buffer vc) (vmem s)\<rparr> else s);
     Some (s\<lparr>vmem := remove (back_buffer vc) (vmem s)\<rparr>)
   }"

definition vga_show_cursor :: "vga_dev \<Rightarrow> nat \<Rightarrow> int \<Rightarrow> ('h, 'z) vga_state_scheme \<Rightarrow> ('h, 'z) vga_state_scheme option" where
  "vga_show_cursor dev c mode s =
     (let port = vd_port (video s)
      in if mode = CURSOR_MODE_COND \<and> vd_flags (video s) AND VPF_CURSOR_ON \<noteq> 0 \<or> mode = CURSOR_MODE_ON then
           (let s = vga_outb (port + CRT_INDEX) CRT_CURSOR_STR s;
                (status, s) = vga_inb dev (port + CRT_DATA) s;
                s = vga_outb (port + CRT_DATA) (status AND CURSOR_MASK) s
            in Some (s\<lparr>video := (video s)\<lparr>vd_flags := vd_flags (video s) OR VPF_CURSOR_ON\<rparr>\<rparr>))
         else if mode = CURSOR_MODE_OFF then
           (let s = vga_outb (port + CRT_INDEX) CRT_CURSOR_STR s;
                (status, s) = vga_inb dev (port + CRT_DATA) s;
                s = vga_outb (port + CRT_DATA) (status OR CURSOR_DISABLE) s
            in Some (s\<lparr>video := (video s)\<lparr>vd_flags := vd_flags (video s) AND NOT VPF_CURSOR_ON\<rparr>\<rparr>))
         else Some s)"

definition vga_get_cursor_pos :: "vga_dev \<Rightarrow> nat \<Rightarrow> ('h, 'z) vga_state_scheme \<Rightarrow> ('h, 'z) vga_state_scheme option" where
  "vga_get_cursor_pos dev c s = do {
     let port = vd_port (video s);
     let s = vga_outb (port + CRT_INDEX) CRT_CURSOR_POS_HI s;
     let (hi, s) = vga_inb dev (port + CRT_DATA) s;
     let pos = (push_bit 8 (ucast hi) :: u16);
     let s = vga_outb (port + CRT_INDEX) CRT_CURSOR_POS_LO s;
     let (lo, s) = vga_inb dev (port + CRT_DATA) s;
     let pos = pos OR ucast lo;
     x \<leftarrow> c_mod (int (unat pos)) (vc_columns (consoles s c));
     let s = upd_vc c (\<lambda>vc. vc\<lparr>vc_x := x\<rparr>) s;
     y \<leftarrow> c_div (int (unat pos)) (vc_columns (consoles s c));
     Some (upd_vc c (\<lambda>vc. vc\<lparr>vc_y := y\<rparr>) s)
   }"

definition vga_update_cursor_pos :: "nat \<Rightarrow> ('h, 'z) vga_state_scheme \<Rightarrow> ('h, 'z) vga_state_scheme option" where
  "vga_update_cursor_pos c s =
     (if vga_console_has_focus c s then do {
        let vc = consoles s c;
        i \<leftarrow> cell_index (vc_y vc) (vc_columns vc) (vc_x vc);
        let pos = (word_of_int i :: u16);
        let port = vd_port (video s);
        let s = vga_outb (port + CRT_INDEX) CRT_CURSOR_POS_HI s;
        let s = vga_outb (port + CRT_DATA) (ucast (drop_bit 8 pos)) s;
        let s = vga_outb (port + CRT_INDEX) CRT_CURSOR_POS_LO s;
        Some (vga_outb (port + CRT_DATA) (ucast pos) s)
      } else Some s)"

definition vga_write_screen ::
    "nat \<Rightarrow> int \<Rightarrow> int \<Rightarrow> u16 \<Rightarrow> ('h, 'z) vga_state_scheme \<Rightarrow> ('h, 'z) vga_state_scheme option" where
  "vga_write_screen c from count color s =
     (let vc = consoles s c;
          fill = (\<lambda>buffer m. fst (kmemset m (cell buffer from) (sint color) (word_of_int count)));
          s = s\<lparr>vmem := fill (back_buffer vc) (vmem s)\<rparr>
      in Some (if vga_console_has_focus c s then s\<lparr>vmem := fill (main_buffer vc) (vmem s)\<rparr> else s))"

definition vga_clear_screen :: "vga_dev \<Rightarrow> nat \<Rightarrow> ('h, 'z) vga_state_scheme \<Rightarrow> ('h, 'z) vga_state_scheme option" where
  "vga_clear_screen dev c s =
     (if vc_flags (consoles s c) AND CONSOLE_CLEARED \<noteq> 0 then Some s
      else do {
        n \<leftarrow> to_int (CONSOLE_SIZE s);
        let s = (if vga_console_has_focus c s
                 then s\<lparr>vmem := fst (kmemset (vmem s) (main_buffer (consoles s c)) (int (unat CLEAR_MEM)) (word_of_int n))\<rparr>
                 else s);
        let s = upd_vc c (\<lambda>vc. vc\<lparr>vc_flags := vc_flags vc OR CONSOLE_CLEARED\<rparr>) s;
        vga_show_cursor dev c CURSOR_MODE_OFF s
      })"

definition vga_restore_screen :: "nat \<Rightarrow> ('h, 'z) vga_state_scheme \<Rightarrow> ('h, 'z) vga_state_scheme option" where
  "vga_restore_screen c s =
     (if vga_console_has_focus c s then do {
        n \<leftarrow> to_int (CONSOLE_SIZE s);
        let vc = consoles s c;
        Some (s\<lparr>vmem := fst (kmemcpy (vmem s) (main_buffer vc) (back_buffer vc) (word_of_int n))\<rparr>)
      } else Some s)"

text \<open>The operations that \<open>vga_init\<close> puts into \<open>video\<close>; a call through one of the three that it leaves null is
  undefined.\<close>

definition vga_ops :: "vga_dev \<Rightarrow> ('h, 'z) vga_state_scheme video_ops" where
  "vga_ops dev = \<lparr>v_put_char = vga_put_char, v_insert_char = vga_insert_char, v_delete_char = vga_delete_char,
     v_update_cursor_pos = vga_update_cursor_pos, v_show_cursor = vga_show_cursor dev,
     v_get_cursor_pos = vga_get_cursor_pos dev, v_write_screen = vga_write_screen,
     v_clear_screen = vga_clear_screen dev, v_scroll_screen = (\<lambda>_ _ _ _. None),
     v_restore_screen = vga_restore_screen, v_screen_on = vga_screen_on dev,
     v_buf_scroll = (\<lambda>_ _ _. None), v_cursor_blink = (\<lambda>_ _. None)\<rparr>"

definition vga_init :: "('h, 'z) vga_state_scheme \<Rightarrow> ('h, 'z) vga_state_scheme option" where
  "vga_init s = do {
     let bios_data = get_u16 (vmem s) (KERNEL_PAGE_OFFSET + BIOS_DATA_AREA);
     let sign = (\<lambda>sig v. v\<lparr>vd_signature := sig @ drop (length sig) (vd_signature v)\<rparr>);
     let s =
       (if bios_data AND BIOS_DATA_AREA_MONODISPLAY = BIOS_DATA_AREA_MONODISPLAY
        then s\<lparr>video := sign VGA_MONO_SIG
                 ((video s)\<lparr>vd_address := VGA_MONO_ADDR + KERNEL_PAGE_OFFSET, vd_port := VGA_MONO_PORT\<rparr>)\<rparr>
        else s\<lparr>video := sign VGA_COLOR_SIG
                 ((video s)\<lparr>vd_address := VGA_COLOR_ADDR + KERNEL_PAGE_OFFSET, vd_port := VGA_COLOR_PORT\<rparr>)\<rparr>);
     n \<leftarrow> to_int (CONSOLE_SIZE s);
     Some (s\<lparr>vmem := fst (kmemcpy (vmem s) (scrollback_buffer s) (vd_address (video s)) (word_of_int n))\<rparr>)
   }"

text \<open>\<open>framebuf_init\<close> does nothing.\<close>

definition framebuf_init :: "('h, 'z) vga_state_scheme \<Rightarrow> ('h, 'z) vga_state_scheme" where
  "framebuf_init s = s"

definition video_init :: "('h, 'z) vga_state_scheme \<Rightarrow> ('h, 'z) vga_state_scheme option" where
  "video_init s = do {
     n \<leftarrow> to_int (vd_lines (video s) * 6);
     n \<leftarrow> to_int (n * 2);
     let bytes = (word_of_int (vd_columns (video s)) + word_of_int n * 2 :: u32);
     let s = s\<lparr>vmem := fst (kmemset (vmem s) (scrollback_buffer s) 0 bytes)\<rparr>;
     if video_using_vga s then vga_init s
     else if video_using_vesa_framebuffer s then Some (framebuf_init s)
     else Some s
   }"

section \<open>The cursor\<close>

text \<open>The controller's registers, as its documentation describes them: a write to the index port selects one, a write
  to the data port changes the selected one, a read of the data port returns it.\<close>

fun crtc_step :: "u16 \<Rightarrow> u8 \<times> (u8 \<Rightarrow> u8) \<Rightarrow> port_op \<Rightarrow> u8 \<times> (u8 \<Rightarrow> u8)" where
  "crtc_step port (sel, regs) (PWr p v) =
     (if p = port + CRT_INDEX then (v, regs) else if p = port + CRT_DATA then (sel, regs(sel := v)) else (sel, regs))"
| "crtc_step port (sel, regs) (PRd p v) = (sel, regs)"

definition crtc_read :: "u16 \<Rightarrow> u8 \<times> (u8 \<Rightarrow> u8) \<Rightarrow> port_op list \<Rightarrow> u8" where
  "crtc_read port r log = (let (sel, regs) = foldl (crtc_step port) r log in regs sel)"

lemma u16_halves: "push_bit 8 (ucast (ucast (drop_bit 8 v) :: u8)) OR ucast (ucast v :: u8) = (v :: u16)"
  by (rule bit_word_eqI) (auto simp: bit_simps)

lemma crtc_read_positions:
  assumes "\<forall>log. dev log (port + CRT_DATA) = crtc_read port r log"
  shows "dev (log @ [PWr (port + CRT_INDEX) CRT_CURSOR_POS_HI, PWr (port + CRT_DATA) hi,
      PWr (port + CRT_INDEX) CRT_CURSOR_POS_LO, PWr (port + CRT_DATA) lo, PWr (port + CRT_INDEX) CRT_CURSOR_POS_HI])
      (port + CRT_DATA) = hi \<and>
    dev (log @ [PWr (port + CRT_INDEX) CRT_CURSOR_POS_HI, PWr (port + CRT_DATA) hi,
      PWr (port + CRT_INDEX) CRT_CURSOR_POS_LO, PWr (port + CRT_DATA) lo, PWr (port + CRT_INDEX) CRT_CURSOR_POS_HI,
      PRd (port + CRT_DATA) v, PWr (port + CRT_INDEX) CRT_CURSOR_POS_LO]) (port + CRT_DATA) = lo"
  using assms
  by (cases "foldl (crtc_step port) r log")
    (simp add: crtc_read_def CRT_INDEX_def CRT_DATA_def CRT_CURSOR_POS_HI_def CRT_CURSOR_POS_LO_def)

lemma c_mod_nonneg: "0 \<le> a \<Longrightarrow> a \<le> INT_MAX \<Longrightarrow> 0 < b \<Longrightarrow> c_mod a b = Some (a mod b)"
  using c_mod_pos [of a b] by (cases "a = 0") (simp_all add: c_mod_def INT_MIN_def INT_MAX_def)

lemma c_div_nonneg: "0 \<le> a \<Longrightarrow> a \<le> INT_MAX \<Longrightarrow> 0 < b \<Longrightarrow> c_div a b = Some (a div b)"
  using c_div_pos [of a b] by (cases "a = 0") (simp_all add: c_div_def INT_MIN_def INT_MAX_def)

lemma cell_index_room:
  "0 \<le> x \<Longrightarrow> 0 \<le> y \<Longrightarrow> 0 \<le> columns \<Longrightarrow> y * columns + x \<le> INT_MAX \<Longrightarrow> cell_index y columns x = Some (y * columns + x)"
  using mult_nonneg_nonneg [of y columns] order_trans [of "- 2147483648" 0 "y * columns"]
  by (simp add: cell_index_def to_int_def int_ok_def INT_MIN_def)

lemma uint_u16: "0 \<le> i \<Longrightarrow> i < 65536 \<Longrightarrow> uint (word_of_int i :: u16) = i"
  by (simp add: unsigned_of_int take_bit_int_eq_self_iff)

lemma vga_get_cursor_pos_reads:
  fixes pos :: u16
  assumes "\<forall>log. dev log (vd_port (video s) + CRT_DATA) = crtc_read (vd_port (video s)) r log"
    and log: "vga_log s = log @ [PWr (vd_port (video s) + CRT_INDEX) CRT_CURSOR_POS_HI,
      PWr (vd_port (video s) + CRT_DATA) (ucast (drop_bit 8 pos)), PWr (vd_port (video s) + CRT_INDEX) CRT_CURSOR_POS_LO,
      PWr (vd_port (video s) + CRT_DATA) (ucast pos)]"
    and x: "c_mod (uint pos) (vc_columns (consoles s c)) = Some x"
    and y: "c_div (uint pos) (vc_columns (consoles s c)) = Some y"
  shows "\<exists>s'. vga_get_cursor_pos dev c s = Some s' \<and>
    consoles s' = (consoles s)(c := (consoles s c)\<lparr>vc_x := x, vc_y := y\<rparr>)"
  using crtc_read_positions [where dev = dev and port = "vd_port (video s)" and r = r, OF assms(1)]
  by (simp add: vga_get_cursor_pos_def vga_outb_def vga_inb_def Let_def u16_halves log x y upd_vc_def
)

text \<open>C39: the cursor position is read back as it was set: after \<open>vga_update_cursor_pos\<close> of the console with the
  focus, \<open>vga_get_cursor_pos\<close> gives it the column and the line it had, whatever the registers held before, for any
  position inside the line whose number fits the two registers.\<close>

theorem vga_cursor_roundtrip:
  assumes "\<forall>log. dev log (vd_port (video s) + CRT_DATA) = crtc_read (vd_port (video s)) r log"
    and "vga_console_has_focus c s"
    and "0 \<le> vc_x (consoles s c)" "vc_x (consoles s c) < vc_columns (consoles s c)" "0 \<le> vc_y (consoles s c)"
    and "vc_y (consoles s c) * vc_columns (consoles s c) + vc_x (consoles s c) < 65536"
  shows "\<exists>s' s''. vga_update_cursor_pos c s = Some s' \<and> vga_get_cursor_pos dev c s' = Some s'' \<and>
    consoles s'' = consoles s"
proof -
  let ?vc = "consoles s c" and ?port = "vd_port (video s)"
  let ?i = "vc_y ?vc * vc_columns ?vc + vc_x ?vc"
  let ?pos = "word_of_int ?i :: u16"
  have i0: "0 \<le> ?i" using assms(3-5) by simp
  have pos: "uint ?pos = ?i" by (rule uint_u16 [OF i0 assms(6)])
  have index: "cell_index (vc_y ?vc) (vc_columns ?vc) (vc_x ?vc) = Some ?i"
    by (rule cell_index_room) (use assms(3-6) in \<open>auto simp: INT_MAX_def\<close>)
  let ?s1 = "s\<lparr>vga_log := vga_log s @ [PWr (?port + CRT_INDEX) CRT_CURSOR_POS_HI,
      PWr (?port + CRT_DATA) (ucast (drop_bit 8 ?pos)), PWr (?port + CRT_INDEX) CRT_CURSOR_POS_LO,
      PWr (?port + CRT_DATA) (ucast ?pos)]\<rparr>"
  have upd: "vga_update_cursor_pos c s = Some ?s1"
    using assms(2) by (simp add: vga_update_cursor_pos_def index Let_def vga_outb_def)
  have div: "c_mod ?i (vc_columns ?vc) = Some (vc_x ?vc)" "c_div ?i (vc_columns ?vc) = Some (vc_y ?vc)"
    using c_mod_nonneg [of ?i "vc_columns ?vc"] c_div_nonneg [of ?i "vc_columns ?vc"] i0 assms(3-6)
    by (simp_all add: INT_MAX_def)
  have get: "\<exists>s''. vga_get_cursor_pos dev c ?s1 = Some s'' \<and> consoles s'' = consoles s"
    using vga_get_cursor_pos_reads [where dev = dev and s = ?s1 and r = r and log = "vga_log s" and pos = ?pos and
        c = c and x = "vc_x ?vc" and y = "vc_y ?vc"] assms(1) div
    by (simp add: pos del: of_int_add of_int_mult)
  show ?thesis using upd get by blast
qed

section \<open>The buffers\<close>

lemma kmemcpy_at:
  assumes "dest = src \<or> unat bytes \<le> unat (dest - src)"
  shows "fst (kmemcpy m dest src bytes) a = (if a - dest < bytes then m (src + (a - dest)) else m a)"
proof (cases "a - dest < bytes")
  case True
  then have "unat (a - dest) < unat bytes" by (simp add: word_less_nat_alt)
  then have "kmemcpy_loop m dest src 0 (unat bytes) (dest + 0 + of_nat (unat (a - dest))) = m (src + 0 + of_nat (unat (a - dest)))"
    by (rule kmemcpy_loop_copies [OF unat_lt_u32 assms])
  then show ?thesis using True by (simp add: kmemcpy_def)
next
  case False
  have "a \<noteq> dest + 0 + of_nat k" if "k < unat bytes" for k
  proof
    assume "a = dest + 0 + of_nat k"
    then have "a - dest = of_nat k" by simp
    moreover have "unat (of_nat k :: u32) = k" by (rule unat_of_nat_u32) (use that unat_lt_u32 [of bytes] in simp)
    ultimately show False using False that by (simp add: word_less_nat_alt)
  qed
  then have "kmemcpy_loop m dest src 0 (unat bytes) a = m a" by (rule kmemcpy_loop_frame)
  then show ?thesis using False by (simp add: kmemcpy_def)
qed

lemma unat_u32_int: "0 \<le> n \<Longrightarrow> n \<le> INT_MAX \<Longrightarrow> unat (word_of_int n :: u32) = nat n"
  by (simp add: INT_MAX_def unsigned_of_int take_bit_int_eq_self)

text \<open>\<open>vga_delete_char\<close> moves bytes where it means cells: of the \<open>n\<close> cells, two bytes each, from the cursor to the
  end of the line, only the first \<open>n\<close> bytes take the next cell's, so that the second half of the rest of the line
  stays where it was; and the blank goes past the line's end, over the character of the first cell of the next
  line. Every other byte of memory is left.\<close>

theorem vga_delete_char_moves_half:
  assumes "\<not> vga_console_has_focus c s"
    and "0 \<le> vc_x (consoles s c)" "vc_x (consoles s c) < vc_columns (consoles s c)" "0 \<le> vc_y (consoles s c)"
    and "vc_y (consoles s c) * vc_columns (consoles s c) + vc_x (consoles s c) \<le> INT_MAX"
    and "vc_columns (consoles s c) < 1073741824"
    and "n = word_of_int (vc_columns (consoles s c) - vc_x (consoles s c))"
    and "b = cell (back_buffer (consoles s c)) (vc_y (consoles s c) * vc_columns (consoles s c) + vc_x (consoles s c))"
  shows "\<exists>s'. vga_delete_char c s = Some s' \<and>
    (\<forall>a. vmem s' a = (if a = b + 2 * n then 0x20 else if a - b < n then vmem s (a + 2) else vmem s a))"
proof -
  let ?vc = "consoles s c"
  let ?i = "vc_y ?vc * vc_columns ?vc + vc_x ?vc" and ?n = "vc_columns ?vc - vc_x ?vc"
  have index: "cell_index (vc_y ?vc) (vc_columns ?vc) (vc_x ?vc) = Some ?i"
    by (rule cell_index_room) (use assms(2-5) in auto)
  have n: "unat n = nat ?n"
    unfolding assms(7) by (rule unat_u32_int) (use assms(2,3,6) in \<open>auto simp: INT_MAX_def\<close>)
  have count: "to_int ?n = Some ?n"
    by (rule to_int_Some) (use assms(2,3,6) in \<open>auto simp: INT_MAX_def INT_MIN_def\<close>)
  have cells: "cell (back_buffer ?vc) (?i + 1) = b + 2" "cell (back_buffer ?vc) (vc_y ?vc * vc_columns ?vc + vc_columns ?vc) = b + 2 * n"
    by (simp_all add: assms(7,8) cell_def algebra_simps)
  have "unat (b - (b + 2)) = 4294967294" using unat_uminus_u32 [of 2] by simp
  then have far: "unat n \<le> unat (b - (b + 2))" using n assms(2,6) by simp
  have copy: "fst (kmemcpy m b (b + 2) n) a = (if a - b < n then m (a + 2) else m a)" for m a
    using kmemcpy_at [of b "b + 2" n m a] far by (simp add: algebra_simps)
  have set: "fst (kmemset m p 1824 1) a = (if a = p then 0x20 else m a)" for m p and a :: u32
    using kmemset_at [of m p 1824 1 a] by (simp add: word_less_nat_alt unat_eq_0)
  have "vga_delete_char c s = Some (s\<lparr>vmem := fst (kmemset (fst (kmemcpy (vmem s) b (b + 2) n)) (b + 2 * n) 1824 1)\<rparr>)"
    using assms(1)
    by (simp add: vga_delete_char_def index count Let_def cells del: of_int_add of_int_mult of_int_diff
        flip: assms(7,8)) (simp add: CLEAR_MEM_def)
  then show ?thesis by (simp add: set copy)
qed

lemma CONSOLE_CLEARED_nz: "CONSOLE_CLEARED \<noteq> 0"
  by (simp add: CONSOLE_CLEARED_def)

text \<open>\<open>vga_clear_screen\<close> fills \<open>CONSOLE_SIZE\<close> bytes of the screen with \<open>0x20\<close>, where the screen has as many cells of
  two bytes: the attributes become \<open>0x20\<close> like the characters, and the lower half of the screen keeps what it
  showed. It also switches the cursor off, and marks the console so that the next call does nothing.\<close>

theorem vga_clear_screen_half:
  assumes "vga_console_has_focus c s" and "vc_flags (consoles s c) AND CONSOLE_CLEARED = 0"
    and "0 \<le> CONSOLE_SIZE s" "CONSOLE_SIZE s \<le> INT_MAX"
  shows "\<exists>s'. vga_clear_screen dev c s = Some s' \<and> vga_clear_screen dev c s' = Some s' \<and>
    vd_flags (video s') AND VPF_CURSOR_ON = 0 \<and>
    (\<forall>a. vmem s' a = (if a - main_buffer (consoles s c) < word_of_int (CONSOLE_SIZE s) then 0x20 else vmem s a))"
proof -
  have n: "to_int (CONSOLE_SIZE s) = Some (CONSOLE_SIZE s)"
    by (rule to_int_Some) (use assms(3,4) in \<open>auto simp: INT_MIN_def\<close>)
  have "(f OR k) AND k = k" "(f AND NOT k) AND k = 0" for f k :: u32
    by (rule bit_word_eqI; auto simp: bit_simps)+
  note flags = this [of _ CONSOLE_CLEARED] this [of _ VPF_CURSOR_ON]
  show ?thesis
    using assms(1,2) n
    by (simp add: vga_clear_screen_def vga_show_cursor_def upd_vc_def vga_outb_def vga_inb_def Let_def flags CONSOLE_CLEARED_nz
        CURSOR_MODE_ON_def CURSOR_MODE_OFF_def CURSOR_MODE_COND_def kmemset_at CLEAR_MEM_def)
qed

section \<open>The operations it leaves out\<close>

text \<open>with the operations that \<open>vga_init\<close> installs, \<open>keyboard_init\<close> never gets past the start of its work: it calls
  \<open>video.cursor_blink\<close>, which \<open>vga_init\<close> leaves null, whatever the state and whatever the devices answer.\<close>

theorem keyboard_init_null_blink: "keyboard_init env (vga_ops dev) kbd pic s = None"
  by (simp add: keyboard_init_def vga_ops_def Let_def split: Option.bind_split)

section \<open>The driver behind the console\<close>

text \<open>What the driver needs of a console for its indices and sizes to be representable.\<close>

definition vga_ready :: "nat \<Rightarrow> ('h, 'z) vga_state_scheme \<Rightarrow> bool" where
  "vga_ready c s \<longleftrightarrow> 0 \<le> CONSOLE_SIZE s \<and> CONSOLE_SIZE s \<le> INT_MAX \<and>
     cell_index (vc_y (consoles s c)) (vc_columns (consoles s c)) (vc_x (consoles s c)) \<noteq> None"

lemma vga_ready_cong:
  "shows_only s u \<Longrightarrow> CONSOLE_SIZE u = CONSOLE_SIZE s \<Longrightarrow> vga_ready c u = vga_ready c s"
  by (simp add: vga_ready_def shows_only_def)

lemma vga_restore_screen_shows:
  assumes "vga_ready c s"
  shows "\<exists>u. vga_restore_screen c s = Some u \<and> shows_only s u \<and> CONSOLE_SIZE u = CONSOLE_SIZE s"
proof -
  have "to_int (CONSOLE_SIZE s) = Some (CONSOLE_SIZE s)"
    using assms by (intro to_int_Some) (simp_all add: vga_ready_def INT_MIN_def)
  then show ?thesis by (simp add: vga_restore_screen_def Let_def shows_only_def CONSOLE_SIZE_def)
qed

lemma vga_show_cursor_shows:
  "\<exists>u. vga_show_cursor dev c mode s = Some u \<and> shows_only s u \<and> vmem u = vmem s \<and> CONSOLE_SIZE u = CONSOLE_SIZE s"
  by (simp add: vga_show_cursor_def Let_def vga_outb_def vga_inb_def shows_only_def CONSOLE_SIZE_def)

lemma vga_update_cursor_pos_shows:
  assumes "vga_ready c s"
  shows "\<exists>u. vga_update_cursor_pos c s = Some u \<and> shows_only s u \<and> vmem u = vmem s \<and> CONSOLE_SIZE u = CONSOLE_SIZE s"
  using assms
  by (auto simp: vga_update_cursor_pos_def Let_def vga_outb_def shows_only_def CONSOLE_SIZE_def vga_ready_def)

interpretation vga: video_driver "vga_ops dev" vga_ready for dev
proof
  fix c mode y and s :: "('a buddy_state_scheme, 'b) vga_state_scheme"
  assume s: "vga_ready c s"
  show "\<exists>u. v_restore_screen (vga_ops dev) c s = Some u \<and> shows_only s u \<and> vga_ready c u"
    using vga_restore_screen_shows [OF s] vga_ready_cong s by (auto simp: vga_ops_def)
  show "\<exists>u. v_show_cursor (vga_ops dev) c mode s = Some u \<and> shows_only s u \<and> vmem u = vmem s \<and> vga_ready c u"
    using vga_show_cursor_shows [of dev c mode s] vga_ready_cong s by (auto simp: vga_ops_def)
  show "\<exists>u. v_update_cursor_pos (vga_ops dev) c s = Some u \<and> shows_only s u \<and> vmem u = vmem s \<and> vga_ready c u"
    using vga_update_cursor_pos_shows [OF s] vga_ready_cong s by (auto simp: vga_ops_def)
  show "vga_ready c (s\<lparr>video := (video s)\<lparr>buf_top := y\<rparr>\<rparr>)"
    using s by (simp add: vga_ready_def CONSOLE_SIZE_def)
qed

text \<open>C27: outside a control sequence, which nothing ever starts, writing to a console through the VGA driver returns and
  shows nothing of what is written. With scroll lock on the write queue and the heap stay as they are; otherwise the write queue
  is emptied and exactly its blocks go back to the heap. The consoles stay as they are, and the only change of the
  screen's memory is that a focused console which had been scrolled back gets the first \<open>CONSOLE_SIZE\<close> bytes of its
  back buffer copied to the screen, half of it.\<close>

theorem vga_write_drops_output:
  fixes s :: "('a buddy_state_scheme, 'z) vga_state_scheme"
  assumes "e_release env = kfree" "c = tty_data (tty_table s t)" "vga_ready c s" "\<not> has_esc (consoles s c)"
    and "charq_rep (write_q (tty_table s t)) (chars s) xs ws" "heap_live (heap (chars s)) L" "set xs \<subseteq> L"
  shows "\<exists>u. vconsole_write env (vga_ops dev) t s = Some u \<and> consoles u = consoles s \<and>
    (if scrlock_on (consoles s c) then write_q (tty_table u t) = write_q (tty_table s t) \<and> chars u = chars s
     else charq_rep (write_q (tty_table u t)) (chars u) [] [] \<and> heap_live (heap (chars u)) (L - set xs) \<and>
       heap_used (heap (chars u)) = heap_used (heap (chars s)) - set xs) \<and>
    vmem u = (if vga_console_has_focus c s \<and> buf_top (video s) \<noteq> 0
      then fst (kmemcpy (vmem s) (main_buffer (consoles s c)) (back_buffer (consoles s c)) (word_of_int (CONSOLE_SIZE s)))
      else vmem s)"
proof -
  have n: "to_int (CONSOLE_SIZE s) = Some (CONSOLE_SIZE s)"
    using assms(3) by (intro to_int_Some) (simp_all add: vga_ready_def INT_MIN_def)
  obtain r u where r: "if vc_flags (consoles s c) AND CONSOLE_HAS_FOCUS \<noteq> 0 \<and> buf_top (video s) \<noteq> 0
      then v_restore_screen (vga_ops dev) c s = Some r else r = s"
    and u: "vconsole_write env (vga_ops dev) t s = Some u" "written_out t c xs L s u" "vmem u = vmem r"
      "consoles u = consoles s"
    using vga.write_returns [OF assms, of dev] by blast
  have "vmem r = (if vga_console_has_focus c s \<and> buf_top (video s) \<noteq> 0
      then fst (kmemcpy (vmem s) (main_buffer (consoles s c)) (back_buffer (consoles s c)) (word_of_int (CONSOLE_SIZE s)))
      else vmem s)"
    using r by (auto simp: vga_ops_def vga_restore_screen_def vga_console_has_focus_def n Let_def split: if_splits)
  then show ?thesis using u unfolding written_out_def by (intro exI [of _ u]) simp
qed

section \<open>Examples\<close>

text \<open>A console of four columns whose first line reads \<open>abcd\<close>.\<close>

definition vga_example :: "u32 \<Rightarrow> int \<Rightarrow> int \<Rightarrow> nat vga_state" where
  "vga_example flags x y = (kbd_state.extend (kbd_example False) (vga_state.fields SCREEN_STAT_ON 0x2000 []))
     \<lparr>consoles := (\<lambda>_. boot_console\<lparr>vc_flags := flags, vc_columns := 4, vc_x := x, vc_y := y, back_buffer := 0x1000,
        main_buffer := 0xC00B8000\<rparr>),
      video := zero_video\<lparr>vd_port := 0x3D4, vd_columns := 4, vd_lines := 2\<rparr>,
      vmem := (\<lambda>_. 0)(0x1000 := 97, 0x1001 := 7, 0x1002 := 98, 0x1003 := 7, 0x1004 := 99, 0x1005 := 7, 0x1006 := 100,
        0x1007 := 7)\<rparr>"

lemma vga_example_simps [simp]:
  "consoles (vga_example flags x y) c = boot_console\<lparr>vc_flags := flags, vc_columns := 4, vc_x := x, vc_y := y,
     back_buffer := 0x1000, main_buffer := 0xC00B8000\<rparr>"
  "vd_port (video (vga_example flags x y)) = 0x3D4" "CONSOLE_SIZE (vga_example flags x y) = 8"
  "vga_console_has_focus c (vga_example flags x y) = (flags AND CONSOLE_HAS_FOCUS \<noteq> 0)"
  by (simp_all add: vga_example_def vga_console_has_focus_def CONSOLE_SIZE_def)

theorem vga_cursor_roundtrip_witness:
  "\<exists>s' s''. vga_update_cursor_pos 0 (vga_example 1 3 20) = Some s' \<and>
    vga_get_cursor_pos (\<lambda>log _. crtc_read 0x3D4 (0, \<lambda>_. 0) log) 0 s' = Some s'' \<and>
    consoles s'' = consoles (vga_example 1 3 20)"
  by (rule vga_cursor_roundtrip [where r = "(0, \<lambda>_. 0)"]) (simp_all add: CONSOLE_HAS_FOCUS_def)

text \<open>Deleting the \<open>a\<close> of \<open>abcd\<close> leaves \<open>bccd\<close>, and a blank at the start of the next line.\<close>

theorem vga_delete_char_moves_half_witness:
  "\<exists>s'. vga_delete_char 0 (vga_example 0 0 0) = Some s' \<and>
    map (vmem s') [0x1000, 0x1001, 0x1002, 0x1003, 0x1004, 0x1005, 0x1006, 0x1007, 0x1008] =
      [98, 7, 99, 7, 99, 7, 100, 7, 0x20]"
proof -
  have m: "vmem (vga_example 0 0 0) = (\<lambda>_. 0)(0x1000 := 97, 0x1001 := 7, 0x1002 := 98, 0x1003 := 7, 0x1004 := 99,
      0x1005 := 7, 0x1006 := 100, 0x1007 := 7)"
    by (simp add: vga_example_def)
  have "\<exists>s'. vga_delete_char 0 (vga_example 0 0 0) = Some s' \<and>
    (\<forall>a. vmem s' a = (if a = 0x1000 + 2 * 4 then 0x20 else if a - 0x1000 < 4 then vmem (vga_example 0 0 0) (a + 2)
       else vmem (vga_example 0 0 0) a))"
    by (rule vga_delete_char_moves_half) (simp_all add: cell_def INT_MAX_def)
  then show ?thesis by (elim exE conjE) (rule exI, rule conjI, assumption, simp add: m)
qed

theorem vga_clear_screen_half_witness:
  "\<exists>s'. vga_clear_screen (\<lambda>_ _. 0) 0 (vga_example 1 0 0) = Some s' \<and>
    vga_clear_screen (\<lambda>_ _. 0) 0 s' = Some s' \<and> vd_flags (video s') AND VPF_CURSOR_ON = 0 \<and>
    (\<forall>a. vmem s' a = (if a - 0xC00B8000 < 8 then 0x20 else vmem (vga_example 1 0 0) a))"
  using vga_clear_screen_half [where c = 0 and s = "vga_example 1 0 0" and dev = "\<lambda>_ _. 0"]
  by (simp add: CONSOLE_HAS_FOCUS_def CONSOLE_CLEARED_def INT_MAX_def)

text \<open>A focused console that has been scrolled back, with two characters waiting.\<close>

definition vga_out_state :: "buddy_state \<Rightarrow> buddy_state vga_state" where
  "vga_out_state h = kbd_state.extend
     (con_state.extend
       ((con_of (out_state h))
         \<lparr>consoles := (\<lambda>_. boot_console\<lparr>vc_flags := 1, vc_columns := 4, back_buffer := 0x1000, main_buffer := 0xC00B8000\<rparr>),
          video := zero_video\<lparr>vd_port := 0x3D4, vd_columns := 4, vd_lines := 2, buf_top := 3\<rparr>,
          vmem := (\<lambda>a. ucast a)\<rparr>)
       (kbd_state.fields 0x80 0x90 0 (0, 0) 0 None True False True False False False False False False
          0 0 (- 1) 0 0 0 0 0 0))
     (vga_state.fields SCREEN_STAT_ON 0x2000 [])"

theorem vga_write_drops_output_witness:
  "\<exists>h u. heap_live h {0xC000100C} \<and>
    vconsole_write (idle_env\<lparr>e_release := kfree\<rparr>) (vga_ops (\<lambda>_ _. 0)) 0 (vga_out_state h) = Some u \<and>
    charq_rep (write_q (tty_table u 0)) (chars u) [] [] \<and> heap_live (heap (chars u)) {} \<and>
    heap_used (heap (chars u)) = heap_used h - {0xC000100C} \<and>
    vmem u = fst (kmemcpy (\<lambda>a. ucast a) 0xC00B8000 0x1000 8)"
proof -
  obtain h :: buddy_state where h: "heap_live h {0xC000100C}" using boot_heap_one by blast
  let ?env = "idle_env\<lparr>e_release := kfree\<rparr> :: (buddy_state, buddy_state vga_state) tty_env"
  let ?s = "vga_out_state h"
  have s: "tty_table (out_state h) 0 = zero_tty\<lparr>write_q := one_queue\<rparr>" "chars (out_state h) = one_store h"
    by (simp_all add: out_state_def timer_state.extend_def tty_state.fields_def)
  have e: "tty_table ?s 0 = zero_tty\<lparr>write_q := one_queue\<rparr>" "chars ?s = one_store h"
    "consoles ?s c = boot_console\<lparr>vc_flags := 1, vc_columns := 4, back_buffer := 0x1000, main_buffer := 0xC00B8000\<rparr>"
    "buf_top (video ?s) = 3" "CONSOLE_SIZE ?s = 8" "vmem ?s = (\<lambda>a. ucast a)" for c
    by (simp_all add: vga_out_state_def con_state.extend_def kbd_state.extend_def CONSOLE_SIZE_def s)
  have rep: "charq_rep (write_q (tty_table ?s 0)) (chars ?s) [0xC000100C] [65, 66]"
    using one_queue_rep [of h] by (simp add: e)
  have lv: "heap_live (heap (chars ?s)) {0xC000100C}" using h by (simp add: e one_store_def)
  have ready: "vga_ready (tty_data (tty_table ?s 0)) ?s"
    by (simp add: vga_ready_def e INT_MAX_def cell_index_def boot_console_def to_int_def int_ok_def INT_MIN_def)
  have focus: "vga_console_has_focus c ?s" for c by (simp add: vga_console_has_focus_def e CONSOLE_HAS_FOCUS_def)
  note out = vga_write_drops_output [where env = ?env and dev = "\<lambda>_ _. 0", OF _ refl ready _ rep lv]
  have "\<exists>u. vconsole_write ?env (vga_ops (\<lambda>_ _. 0)) 0 ?s = Some u \<and>
    charq_rep (write_q (tty_table u 0)) (chars u) [] [] \<and> heap_live (heap (chars u)) {} \<and>
    heap_used (heap (chars u)) = heap_used h - {0xC000100C} \<and>
    vmem u = fst (kmemcpy (vmem ?s) 0xC00B8000 0x1000 8)"
    using out focus by (auto simp: e boot_console_def one_store_def)
  then show ?thesis using h focus by (auto simp: e)
qed

end
