(* ===== verification/Elf.thy ===== *)
theory Elf
  imports Memory
begin

text \<open>
  The executable format of \<open>src/include/fs/elf.h\<close>: the structures, read from memory at the places that the C layout
  gives their fields (\<open>elf32_hdr\<close> and \<open>elf32_phdr\<close> are packed, and the others need no padding), and the checks of
  a header.
\<close>

section \<open>Structures\<close>

definition EI_MAG0 :: nat where "EI_MAG0 = 0"
definition EI_MAG1 :: nat where "EI_MAG1 = 1"
definition EI_MAG2 :: nat where "EI_MAG2 = 2"
definition EI_MAG3 :: nat where "EI_MAG3 = 3"
definition EI_CLASS :: nat where "EI_CLASS = 4"
definition EI_DATA :: nat where "EI_DATA = 5"
definition EI_VERSION :: nat where "EI_VERSION = 6"
definition EI_NIDENT :: nat where "EI_NIDENT = 16"
definition ELFMAG0 :: u8 where "ELFMAG0 = 0x7F"
definition ELFMAG1 :: u8 where "ELFMAG1 = 69"
definition ELFMAG2 :: u8 where "ELFMAG2 = 76"
definition ELFMAG3 :: u8 where "ELFMAG3 = 70"
definition ELFCLASS32 :: u8 where "ELFCLASS32 = 1"
definition ELFDATA2LSB :: u8 where "ELFDATA2LSB = 1"
definition ET_EXEC :: u16 where "ET_EXEC = 2"
definition EV_CURRENT :: u32 where "EV_CURRENT = 1"
definition EM_386 :: u16 where "EM_386 = 3"
definition STT_FUNC :: u32 where "STT_FUNC = 2"
definition ELF32_ST_TYPE :: "u8 \<Rightarrow> u32" where "ELF32_ST_TYPE info = ucast info AND 0xF"

record elf32_hdr =
  e_ident :: "u8 list"
  e_type :: u16
  e_machine :: u16
  e_version :: u32
  e_entry :: u32
  e_phoff :: u32
  e_shoff :: u32
  e_flags :: u32
  e_ehsize :: u16
  e_phentsize :: u16
  e_phnum :: u16
  e_shentsize :: u16
  e_shnum :: u16
  e_shstrndx :: u16

record elf32_phdr =
  p_type :: u32
  p_offset :: u32
  p_vaddr :: u32
  p_paddr :: u32
  p_filesz :: u32
  p_memsz :: u32
  p_flags :: u32
  p_align :: u32

record elf32_shdr =
  sh_name :: u32
  sh_type :: u32
  sh_flags :: u32
  sh_addr :: u32
  sh_offset :: u32
  sh_size :: u32
  sh_link :: u32
  sh_info :: u32
  sh_addralign :: u32
  sh_entsize :: u32

record elf32_sym =
  st_name :: u32
  st_value :: u32
  st_size :: u32
  st_info :: u8
  st_other :: u8
  st_shndx :: u16

definition sizeof_elf32_hdr :: u32 where "sizeof_elf32_hdr = 52"
definition sizeof_elf32_phdr :: u32 where "sizeof_elf32_phdr = 32"
definition sizeof_elf32_sym :: u32 where "sizeof_elf32_sym = 16"

definition read_elf32_hdr :: "mem \<Rightarrow> u32 \<Rightarrow> elf32_hdr" where
  "read_elf32_hdr m p = \<lparr>e_ident = map (\<lambda>i. m (p + of_nat i)) [0..<EI_NIDENT], e_type = get_u16 m (p + 16),
     e_machine = get_u16 m (p + 18), e_version = get_u32 m (p + 20), e_entry = get_u32 m (p + 24),
     e_phoff = get_u32 m (p + 28), e_shoff = get_u32 m (p + 32), e_flags = get_u32 m (p + 36),
     e_ehsize = get_u16 m (p + 40), e_phentsize = get_u16 m (p + 42), e_phnum = get_u16 m (p + 44),
     e_shentsize = get_u16 m (p + 46), e_shnum = get_u16 m (p + 48), e_shstrndx = get_u16 m (p + 50)\<rparr>"

definition read_elf32_phdr :: "mem \<Rightarrow> u32 \<Rightarrow> elf32_phdr" where
  "read_elf32_phdr m p = \<lparr>p_type = get_u32 m p, p_offset = get_u32 m (p + 4), p_vaddr = get_u32 m (p + 8),
     p_paddr = get_u32 m (p + 12), p_filesz = get_u32 m (p + 16), p_memsz = get_u32 m (p + 20),
     p_flags = get_u32 m (p + 24), p_align = get_u32 m (p + 28)\<rparr>"

definition read_elf32_shdr :: "mem \<Rightarrow> u32 \<Rightarrow> elf32_shdr" where
  "read_elf32_shdr m p = \<lparr>sh_name = get_u32 m p, sh_type = get_u32 m (p + 4), sh_flags = get_u32 m (p + 8),
     sh_addr = get_u32 m (p + 12), sh_offset = get_u32 m (p + 16), sh_size = get_u32 m (p + 20),
     sh_link = get_u32 m (p + 24), sh_info = get_u32 m (p + 28), sh_addralign = get_u32 m (p + 32),
     sh_entsize = get_u32 m (p + 36)\<rparr>"

definition read_elf32_sym :: "mem \<Rightarrow> u32 \<Rightarrow> elf32_sym" where
  "read_elf32_sym m p = \<lparr>st_name = get_u32 m p, st_value = get_u32 m (p + 4), st_size = get_u32 m (p + 8),
     st_info = m (p + 12), st_other = m (p + 13), st_shndx = get_u16 m (p + 14)\<rparr>"

section \<open>Checks\<close>

definition elf_is_valid_sig :: "elf32_hdr \<Rightarrow> bool" where
  "elf_is_valid_sig elf \<longleftrightarrow> e_ident elf ! EI_MAG0 = ELFMAG0 \<and> e_ident elf ! EI_MAG1 = ELFMAG1 \<and>
     e_ident elf ! EI_MAG2 = ELFMAG2 \<and> e_ident elf ! EI_MAG3 = ELFMAG3"

definition elf_is_valid_class :: "elf32_hdr \<Rightarrow> bool" where
  "elf_is_valid_class elf \<longleftrightarrow> e_ident elf ! EI_CLASS = ELFCLASS32"

definition elf_is_valid_encoding :: "elf32_hdr \<Rightarrow> bool" where
  "elf_is_valid_encoding elf \<longleftrightarrow> e_ident elf ! EI_DATA = ELFDATA2LSB"

definition elf_is_valid_version :: "elf32_hdr \<Rightarrow> bool" where
  "elf_is_valid_version elf \<longleftrightarrow> ucast (e_ident elf ! EI_VERSION) = EV_CURRENT \<and> e_version elf = EV_CURRENT"

definition elf_is_valid_machine :: "elf32_hdr \<Rightarrow> bool" where
  "elf_is_valid_machine elf \<longleftrightarrow> e_machine elf = EM_386"

definition elf_is_executable :: "elf32_hdr \<Rightarrow> bool" where
  "elf_is_executable elf \<longleftrightarrow> e_type elf = ET_EXEC"

definition elf_has_phdr :: "elf32_hdr \<Rightarrow> bool" where
  "elf_has_phdr elf \<longleftrightarrow> e_phoff elf \<noteq> 0"

definition elf_is_valid_executable :: "elf32_hdr \<Rightarrow> bool" where
  "elf_is_valid_executable elf \<longleftrightarrow> elf_is_valid_sig elf \<and> elf_is_valid_class elf \<and> elf_is_valid_encoding elf \<and>
     elf_is_valid_version elf \<and> elf_is_valid_machine elf \<and> elf_is_executable elf \<and> elf_has_phdr elf"

text \<open>What is read of a header depends on its 52 bytes only.\<close>

lemma read_elf32_hdr_cong:
  assumes "\<And>i. i < 52 \<Longrightarrow> m (p + of_nat i) = m' (q + of_nat i)"
  shows "read_elf32_hdr m p = read_elf32_hdr m' q"
proof -
  have u32: "get_u32 m (p + of_nat i) = get_u32 m' (q + of_nat i)" if "i < 49" for i
    using assms [of i] assms [of "i + 1"] assms [of "i + 2"] assms [of "i + 3"] that
    by (simp add: get_u32_def ac_simps)
  have u16: "get_u16 m (p + of_nat i) = get_u16 m' (q + of_nat i)" if "i < 51" for i
    using assms [of i] assms [of "i + 1"] that by (simp add: get_u16_def ac_simps)
  show ?thesis
    using u16 [of 16] u16 [of 18] u32 [of 20] u32 [of 24] u32 [of 28] u32 [of 32] u32 [of 36]
      u16 [of 40] u16 [of 42] u16 [of 44] u16 [of 46] u16 [of 48] u16 [of 50] assms
    by (simp add: read_elf32_hdr_def EI_NIDENT_def)
qed

end
