(* ===== verification/Boot.thy ===== *)
theory Boot
  imports Elf
begin

text \<open>
  The boot loader's C part, \<open>src/boot/src/main.c\<close>, and the disk driver it reads with, \<open>ata.c\<close> and \<open>ata.h\<close> of
  \<open>src/drivers/src/dev/block\<close>, with the port instructions of \<open>src/include/arch/x86.h\<close>. The accesses to ports are
  kept in order in \<open>ata_log\<close>; what the drive answers after them is the argument \<open>dev\<close>. A jump to the kernel is
  recorded in \<open>entered\<close>. \<open>None\<close> means that the code waits for ever.
\<close>

section \<open>Ports\<close>

datatype ata_op = AIn u16 u8 | AOut u16 u8 | AInL u16 u32

record boot_state =
  bmem :: mem
  ata_log :: "ata_op list"
  entered :: "u32 option"

record ata_dev =
  ata_in :: "ata_op list \<Rightarrow> u16 \<Rightarrow> u8"
  ata_in_long :: "ata_op list \<Rightarrow> u16 \<Rightarrow> u32"

definition boot_inb :: "ata_dev \<Rightarrow> u16 \<Rightarrow> boot_state \<Rightarrow> u8 \<times> boot_state" where
  "boot_inb dev port s = (let v = ata_in dev (ata_log s) port in (v, s\<lparr>ata_log := ata_log s @ [AIn port v]\<rparr>))"

definition boot_outb :: "u16 \<Rightarrow> u8 \<Rightarrow> boot_state \<Rightarrow> boot_state" where
  "boot_outb port v s = s\<lparr>ata_log := ata_log s @ [AOut port v]\<rparr>"

text \<open>\<open>rep insl\<close>: the count is of words of four bytes.\<close>

primrec insl_loop :: "ata_dev \<Rightarrow> u16 \<Rightarrow> u32 \<Rightarrow> nat \<Rightarrow> boot_state \<Rightarrow> boot_state" where
  "insl_loop dev port addr 0 s = s"
| "insl_loop dev port addr (Suc c) s =
     (let v = ata_in_long dev (ata_log s) port
      in insl_loop dev port (addr + 4) c
           (s\<lparr>ata_log := ata_log s @ [AInL port v], bmem := put_u32 (bmem s) addr v\<rparr>))"

definition insl :: "ata_dev \<Rightarrow> u16 \<Rightarrow> u32 \<Rightarrow> u32 \<Rightarrow> boot_state \<Rightarrow> boot_state" where
  "insl dev port addr c s = insl_loop dev port addr (unat c) s"

text \<open>\<open>rep stosb\<close>\<close>

definition stosb :: "u32 \<Rightarrow> u32 \<Rightarrow> u32 \<Rightarrow> boot_state \<Rightarrow> boot_state" where
  "stosb addr data c s = s\<lparr>bmem := kmemset_loop (bmem s) addr (ucast data) 0 (unat c)\<rparr>"

section \<open>The disk\<close>

definition ATA_SECTOR_SIZE :: u32 where "ATA_SECTOR_SIZE = 512"
definition ATA_PORT_DATA :: u16 where "ATA_PORT_DATA = 0x1F0"
definition ATA_PORT_SECCOUNT :: u16 where "ATA_PORT_SECCOUNT = 0x1F2"
definition ATA_PORT_LBA_LOW :: u16 where "ATA_PORT_LBA_LOW = 0x1F3"
definition ATA_PORT_LBA_MID :: u16 where "ATA_PORT_LBA_MID = 0x1F4"
definition ATA_PORT_LBA_HI :: u16 where "ATA_PORT_LBA_HI = 0x1F5"
definition ATA_PORT_DRIVE_HEAD :: u16 where "ATA_PORT_DRIVE_HEAD = 0x1F6"
definition ATA_PORT_COMM_REGSTAT :: u16 where "ATA_PORT_COMM_REGSTAT = 0x1F7"
definition ATA_CMD_PIO_READ :: u8 where "ATA_CMD_PIO_READ = 0x20"
definition ATA_STAT_RDY :: u8 where "ATA_STAT_RDY = 0x40"

definition ata_ready :: "u8 \<Rightarrow> bool" where
  "ata_ready v \<longleftrightarrow> v AND 0xC0 = ATA_STAT_RDY"

partial_function (option) ata_wait_disk :: "ata_dev \<Rightarrow> boot_state \<Rightarrow> boot_state option" where
  "ata_wait_disk dev s =
     (let (v, s) = boot_inb dev ATA_PORT_COMM_REGSTAT s
      in if ata_ready v then Some s else ata_wait_disk dev s)"

definition ata_command :: "u32 \<Rightarrow> boot_state \<Rightarrow> boot_state" where
  "ata_command offset s =
     (let s = boot_outb ATA_PORT_SECCOUNT 1 s;
          s = boot_outb ATA_PORT_LBA_LOW (ucast offset) s;
          s = boot_outb ATA_PORT_LBA_MID (ucast (drop_bit 8 offset)) s;
          s = boot_outb ATA_PORT_LBA_HI (ucast (drop_bit 16 offset)) s;
          s = boot_outb ATA_PORT_DRIVE_HEAD (ucast (drop_bit 24 offset OR 0xE0)) s
      in boot_outb ATA_PORT_COMM_REGSTAT ATA_CMD_PIO_READ s)"

definition ata_read_sector :: "ata_dev \<Rightarrow> u32 \<Rightarrow> u32 \<Rightarrow> boot_state \<Rightarrow> boot_state option" where
  "ata_read_sector dev dest offset s = do {
     s \<leftarrow> ata_wait_disk dev s;
     let s = ata_command offset s;
     s \<leftarrow> ata_wait_disk dev s;
     Some (insl dev ATA_PORT_DATA dest ATA_SECTOR_SIZE s)
   }"

partial_function (option) read_sectors :: "ata_dev \<Rightarrow> u32 \<Rightarrow> u32 \<Rightarrow> u32 \<Rightarrow> boot_state \<Rightarrow> boot_state option" where
  "read_sectors dev start_phys_addr end_phys_addr sector_num s =
     (if start_phys_addr < end_phys_addr then do {
        s \<leftarrow> ata_read_sector dev start_phys_addr sector_num s;
        read_sectors dev (start_phys_addr + ATA_SECTOR_SIZE) end_phys_addr (sector_num + 1) s
      } else Some s)"

definition ata_read_segment :: "ata_dev \<Rightarrow> u32 \<Rightarrow> u32 \<Rightarrow> u32 \<Rightarrow> boot_state \<Rightarrow> boot_state option" where
  "ata_read_segment dev dest c offset s =
     (let end_phys_addr = dest + c;
          start_phys_addr = dest - offset mod ATA_SECTOR_SIZE;
          sector_num = offset div ATA_SECTOR_SIZE + 12
      in read_sectors dev start_phys_addr end_phys_addr sector_num s)"

section \<open>Loading the kernel\<close>

definition TMP_ELF_LOCATION :: u32 where "TMP_ELF_LOCATION = 0x10000"

partial_function (option) load_segments :: "ata_dev \<Rightarrow> u32 \<Rightarrow> u32 \<Rightarrow> boot_state \<Rightarrow> boot_state option" where
  "load_segments dev phdr eph s =
     (if phdr < eph then do {
        let pa = p_paddr (read_elf32_phdr (bmem s) phdr);
        s \<leftarrow> ata_read_segment dev pa (p_filesz (read_elf32_phdr (bmem s) phdr)) (p_offset (read_elf32_phdr (bmem s) phdr)) s;
        let ph = read_elf32_phdr (bmem s) phdr;
        let s = (if p_memsz ph > p_filesz ph then stosb (pa + p_filesz ph) 0 (p_memsz ph - p_filesz ph) s else s);
        load_segments dev (phdr + sizeof_elf32_phdr) eph s
      } else Some s)"

definition load_kernel :: "ata_dev \<Rightarrow> boot_state \<Rightarrow> boot_state option" where
  "load_kernel dev s = do {
     let elf = TMP_ELF_LOCATION;
     s \<leftarrow> ata_read_segment dev elf sizeof_elf32_hdr 0 s;
     let hdr = read_elf32_hdr (bmem s) elf;
     if \<not> elf_is_valid_executable hdr then Some s
     else do {
       let phdr = elf + e_phoff hdr;
       let eph = phdr + ucast (e_phnum hdr) * sizeof_elf32_phdr;
       s \<leftarrow> load_segments dev phdr eph s;
       Some (s\<lparr>entered := Some (e_entry (read_elf32_hdr (bmem s) elf))\<rparr>)
     }
   }"

section \<open>The drive as its documentation describes it\<close>

text \<open>The registers that the log leaves in the drive, the sector of the last read command, and how many words of it
  have been taken.\<close>

record ata_view =
  av_low :: u8
  av_mid :: u8
  av_hi :: u8
  av_head :: u8
  av_lba :: nat
  av_taken :: nat

definition ata_start :: ata_view where
  "ata_start = \<lparr>av_low = 0, av_mid = 0, av_hi = 0, av_head = 0, av_lba = 0, av_taken = 128\<rparr>"

definition ata_lba :: "ata_view \<Rightarrow> nat" where
  "ata_lba v = unat (av_low v) + 256 * (unat (av_mid v) + 256 * (unat (av_hi v) + 256 * unat (av_head v AND 0xF)))"

fun ata_step :: "ata_view \<Rightarrow> ata_op \<Rightarrow> ata_view" where
  "ata_step v (AIn p b) = v"
| "ata_step v (AInL p w) = v\<lparr>av_taken := av_taken v + 1\<rparr>"
| "ata_step v (AOut p b) =
     (if p = ATA_PORT_LBA_LOW then v\<lparr>av_low := b\<rparr>
      else if p = ATA_PORT_LBA_MID then v\<lparr>av_mid := b\<rparr>
      else if p = ATA_PORT_LBA_HI then v\<lparr>av_hi := b\<rparr>
      else if p = ATA_PORT_DRIVE_HEAD then v\<lparr>av_head := b\<rparr>
      else if p = ATA_PORT_COMM_REGSTAT \<and> b = ATA_CMD_PIO_READ then v\<lparr>av_lba := ata_lba v, av_taken := 0\<rparr>
      else v)"

definition ata_sees :: "ata_op list \<Rightarrow> ata_view" where
  "ata_sees log = foldl ata_step ata_start log"

text \<open>The drive gives the words of the sector asked for, in order, as long as any are left; what it gives after that
  is not specified.\<close>

definition gives_disk :: "ata_dev \<Rightarrow> (nat \<Rightarrow> u8) \<Rightarrow> bool" where
  "gives_disk dev disk \<longleftrightarrow> (\<forall>log. av_taken (ata_sees log) < 128 \<longrightarrow>
     (\<forall>k < 4. ucast (drop_bit (8 * k) (ata_in_long dev log ATA_PORT_DATA)) =
        disk (512 * av_lba (ata_sees log) + 4 * av_taken (ata_sees log) + k)))"

text \<open>The drive becomes ready while it is polled.\<close>

inductive ready_soon :: "ata_dev \<Rightarrow> ata_op list \<Rightarrow> bool" for dev where
  now: "ata_ready (ata_in dev log ATA_PORT_COMM_REGSTAT) \<Longrightarrow> ready_soon dev log"
| later: "ready_soon dev (log @ [AIn ATA_PORT_COMM_REGSTAT (ata_in dev log ATA_PORT_COMM_REGSTAT)]) \<Longrightarrow> ready_soon dev log"

section \<open>Reading a sector\<close>

lemma ata_wait_disk_ready:
  assumes "ready_soon dev log" "ata_log s = log"
  shows "\<exists>polls. ata_wait_disk dev s = Some (s\<lparr>ata_log := ata_log s @ polls\<rparr>) \<and> ata_sees (ata_log s @ polls) = ata_sees (ata_log s)"
  using assms
proof (induction arbitrary: s)
  case (now log)
  then show ?case
    by (intro exI [of _ "[AIn ATA_PORT_COMM_REGSTAT (ata_in dev log ATA_PORT_COMM_REGSTAT)]"])
      (simp add: ata_wait_disk.simps [of dev s] boot_inb_def ata_sees_def Let_def)
next
  case (later log)
  let ?op = "AIn ATA_PORT_COMM_REGSTAT (ata_in dev log ATA_PORT_COMM_REGSTAT)"
  let ?s = "s\<lparr>ata_log := ata_log s @ [?op]\<rparr>"
  show ?case
  proof (cases "ata_ready (ata_in dev log ATA_PORT_COMM_REGSTAT)")
    case True
    then show ?thesis
      using later.prems by (intro exI [of _ "[?op]"]) (simp add: ata_wait_disk.simps [of dev s] boot_inb_def ata_sees_def Let_def)
  next
    case False
    from later.IH [of ?s] later.prems obtain polls where
      "ata_wait_disk dev ?s = Some (?s\<lparr>ata_log := ata_log ?s @ polls\<rparr>)" "ata_sees (ata_log ?s @ polls) = ata_sees (ata_log ?s)"
      by auto
    then show ?thesis
      using False later.prems
      by (intro exI [of _ "?op # polls"]) (simp add: ata_wait_disk.simps [of dev s] boot_inb_def ata_sees_def Let_def)
  qed
qed

lemma put_u32_byte: "j < 4 \<Longrightarrow> put_u32 m a v (a + of_nat j) = ucast (drop_bit (8 * j) v)"
proof -
  assume "j < 4"
  then consider "j = 0" | "j = 1" | "j = 2" | "j = 3" by linarith
  then show ?thesis by cases (simp_all add: put_u32_def)
qed

lemma put_u32_outside: "4 \<le> unat x \<Longrightarrow> put_u32 m a v (a + x) = m (a + x)"
proof -
  assume x: "4 \<le> unat x"
  then have "x \<noteq> of_nat j" if "j < 4" for j :: nat
    using that unat_of_nat_u32 [of j] by auto
  from this [of 0] this [of 1] this [of 2] this [of 3] show ?thesis by (simp add: put_u32_def)
qed

lemma insl_loop_outside:
  "4 * n \<le> unat x \<Longrightarrow> bmem (insl_loop dev port addr n s) (addr + x) = bmem s (addr + x)"
proof (induction n arbitrary: addr s x)
  case (Suc n)
  have u: "unat (x - 4) = unat x - 4" using Suc.prems by (subst unat_sub) (auto simp: word_le_nat_alt)
  have "bmem (insl_loop dev port (addr + 4) n t) (addr + x) = bmem t (addr + x)" for t
    using Suc.IH [of "x - 4" "addr + 4" t] Suc.prems u by simp
  then show ?case using Suc.prems put_u32_outside [of x] by (simp add: Let_def)
qed simp

lemma insl_loop_log:
  "ata_sees (ata_log (insl_loop dev port addr n s)) =
    (ata_sees (ata_log s))\<lparr>av_taken := av_taken (ata_sees (ata_log s)) + n\<rparr>"
  by (induction n arbitrary: addr s) (simp_all add: Let_def ata_sees_def)

lemma insl_loop_entered: "entered (insl_loop dev port addr n s) = entered s"
  by (induction n arbitrary: addr s) (simp_all add: Let_def)

lemma insl_loop_disk:
  assumes "gives_disk dev disk" "n \<le> 1073741824"
    and "j < 4 * n" "4 * av_taken (ata_sees (ata_log s)) + j < 512"
  shows "bmem (insl_loop dev ATA_PORT_DATA addr n s) (addr + of_nat j) =
    disk (512 * av_lba (ata_sees (ata_log s)) + 4 * av_taken (ata_sees (ata_log s)) + j)"
  using assms(2-)
proof (induction n arbitrary: addr s j)
  case (Suc n)
  let ?v = "ata_in_long dev (ata_log s) ATA_PORT_DATA"
  let ?s = "s\<lparr>ata_log := ata_log s @ [AInL ATA_PORT_DATA ?v], bmem := put_u32 (bmem s) addr ?v\<rparr>"
  have view: "ata_sees (ata_log s @ [AInL ATA_PORT_DATA ?v]) =
      (ata_sees (ata_log s))\<lparr>av_taken := av_taken (ata_sees (ata_log s)) + 1\<rparr>"
    by (simp add: ata_sees_def)
  show ?case
  proof (cases "j < 4")
    case True
    have "unat (- of_nat (4 - j) :: u32) = 4294967296 - (4 - j)" by (rule unat_uminus_u32) (use True in auto)
    then have "bmem (insl_loop dev ATA_PORT_DATA (addr + 4) n ?s) (addr + 4 + - of_nat (4 - j)) = bmem ?s (addr + 4 + - of_nat (4 - j))"
      by (intro insl_loop_outside) (use Suc.prems(1) True in simp)
    moreover have "addr + 4 + - of_nat (4 - j) = addr + of_nat j" using True by (simp add: of_nat_diff)
    ultimately have "bmem (insl_loop dev ATA_PORT_DATA (addr + 4) n ?s) (addr + of_nat j) = bmem ?s (addr + of_nat j)"
      by (simp only:)
    moreover have "ucast (drop_bit (8 * j) ?v) = disk (512 * av_lba (ata_sees (ata_log s)) + 4 * av_taken (ata_sees (ata_log s)) + j)"
      using assms(1) True Suc.prems(3) by (auto simp: gives_disk_def)
    ultimately show ?thesis using put_u32_byte [OF True, of "bmem s" addr ?v] by (simp add: Let_def)
  next
    case False
    then have "addr + 4 + of_nat (j - 4) = addr + of_nat j" by (simp add: of_nat_diff)
    then show ?thesis
      using Suc.IH [of "j - 4" ?s "addr + 4"] Suc.prems False by (simp add: Let_def view add.assoc)
  qed
qed simp

lemma unat_byte: "unat (ucast (v :: u32) :: u8) = unat v mod 256"
  by (simp add: unsigned_ucast_eq take_bit_eq_mod)

lemma ata_command_sees:
  assumes "unat offset < 268435456"
  shows "av_lba (ata_sees (ata_log (ata_command offset s))) = unat offset"
    "av_taken (ata_sees (ata_log (ata_command offset s))) = 0"
proof -
  have low: "unat (ucast (drop_bit k offset) :: u8) = unat offset div 2 ^ k mod 256" for k
    unfolding unat_byte unat_drop_bit_eq by (simp add: drop_bit_eq_div)
  have "ucast (drop_bit 24 offset OR 0xE0) = (ucast (drop_bit 24 offset) OR 0xE0 :: u8)"
    by (rule bit_word_eqI) (auto simp: bit_simps)
  then have nibble: "ucast (drop_bit 24 offset OR 0xE0) AND 0xF = take_bit 4 (ucast (drop_bit 24 offset) :: u8)"
    by (simp add: bit.conj_disj_distrib2 take_bit_eq_mask mask_eq_exp_minus_1)
  have head: "unat (ucast (drop_bit 24 offset OR 0xE0) AND 0xF :: u8) = unat offset div 16777216 mod 16"
    unfolding nibble unsigned_take_bit_eq unfolding low take_bit_eq_mod by (simp add: mod_mod_cancel)
  let ?n = "unat offset"
  have "?n div 65536 = ?n div 256 div 256" "?n div 16777216 = ?n div 256 div 256 div 256"
    using div_mult2_eq [of ?n 256 256] div_mult2_eq [of ?n 256 65536] div_mult2_eq [of "?n div 256" 256 256] by simp_all
  moreover have "?n div 16777216 < 16" using assms by (simp add: div_less_iff_less_mult)
  ultimately have "?n mod 256 + 256 * (?n div 256 mod 256 + 256 * (?n div 65536 mod 256 + 256 * (?n div 16777216 mod 16))) = ?n"
    using mod_mult_div_eq [of ?n 256] mod_mult_div_eq [of "?n div 256" 256] mod_mult_div_eq [of "?n div 256 div 256" 256]
    by simp
  then show "av_lba (ata_sees (ata_log (ata_command offset s))) = unat offset"
    using low [of 0] low [of 8] low [of 16]
    by (simp add: ata_command_def boot_outb_def Let_def ata_sees_def ata_lba_def head ATA_PORT_SECCOUNT_def
        ATA_PORT_LBA_LOW_def ATA_PORT_LBA_MID_def ATA_PORT_LBA_HI_def ATA_PORT_DRIVE_HEAD_def
        ATA_PORT_COMM_REGSTAT_def ATA_CMD_PIO_READ_def)
  show "av_taken (ata_sees (ata_log (ata_command offset s))) = 0"
    by (simp add: ata_command_def boot_outb_def Let_def ata_sees_def ATA_PORT_SECCOUNT_def
        ATA_PORT_LBA_LOW_def ATA_PORT_LBA_MID_def ATA_PORT_LBA_HI_def ATA_PORT_DRIVE_HEAD_def
        ATA_PORT_COMM_REGSTAT_def ATA_CMD_PIO_READ_def)
qed

text \<open>What one \<open>ata_read_sector\<close> does: 512 bytes are the sector's, 1536 more are overwritten.\<close>

definition sector_read :: "(nat \<Rightarrow> u8) \<Rightarrow> u32 \<Rightarrow> u32 \<Rightarrow> boot_state \<Rightarrow> boot_state \<Rightarrow> bool" where
  "sector_read disk dest lba s s' \<longleftrightarrow> entered s' = entered s \<and>
     (\<forall>j < 512. bmem s' (dest + of_nat j) = disk (512 * unat lba + j)) \<and>
     (\<forall>x. 2048 \<le> unat x \<longrightarrow> bmem s' (dest + x) = bmem s (dest + x))"

lemma ata_read_sector_steps:
  assumes "gives_disk dev disk" "\<forall>log. ready_soon dev log" "unat lba < 268435456"
  shows "\<exists>s' t. ata_read_sector dev dest lba s = Some s' \<and> sector_read disk dest lba s s' \<and>
    bmem t = bmem s \<and> s' = insl_loop dev ATA_PORT_DATA dest 512 t"
proof -
  obtain p where p: "ata_wait_disk dev s = Some (s\<lparr>ata_log := ata_log s @ p\<rparr>)"
    using ata_wait_disk_ready [of dev "ata_log s" s] assms(2) by blast
  let ?c = "ata_command lba (s\<lparr>ata_log := ata_log s @ p\<rparr>)"
  obtain q where q: "ata_wait_disk dev ?c = Some (?c\<lparr>ata_log := ata_log ?c @ q\<rparr>)"
    "ata_sees (ata_log ?c @ q) = ata_sees (ata_log ?c)"
    using ata_wait_disk_ready [of dev "ata_log ?c" ?c] assms(2) by blast
  let ?t = "?c\<lparr>ata_log := ata_log ?c @ q\<rparr>"
  have t: "bmem ?t = bmem s" "entered ?t = entered s"
    by (simp_all add: ata_command_def boot_outb_def Let_def)
  have view: "av_lba (ata_sees (ata_log ?t)) = unat lba" "av_taken (ata_sees (ata_log ?t)) = 0"
    using q(2) ata_command_sees [OF assms(3)] by simp_all
  have run: "ata_read_sector dev dest lba s = Some (insl_loop dev ATA_PORT_DATA dest 512 ?t)"
    by (simp add: ata_read_sector_def p q(1) Let_def insl_def ATA_SECTOR_SIZE_def)
  have "bmem (insl_loop dev ATA_PORT_DATA dest 512 ?t) (dest + of_nat j) = disk (512 * unat lba + j)" if "j < 512" for j
    using insl_loop_disk [OF assms(1), of 512 j ?t dest] that view by simp
  moreover have "bmem (insl_loop dev ATA_PORT_DATA dest 512 ?t) (dest + x) = bmem s (dest + x)" if "2048 \<le> unat x" for x
    using insl_loop_outside [of 512 x dev ATA_PORT_DATA dest ?t] that t(1) by simp
  ultimately have "sector_read disk dest lba s (insl_loop dev ATA_PORT_DATA dest 512 ?t)"
    by (simp add: sector_read_def insl_loop_entered t(2))
  then show ?thesis using run t(1) by blast
qed

text \<open>C40: \<open>ata_read_sector\<close> returns when the drive becomes ready, the 512 bytes at \<open>dest\<close> are then those of the sector
  asked for, whatever bits of its number are in which register, and from 2048 bytes after \<open>dest\<close> on the memory is
  as it was. The 1536 bytes between are overwritten with the last 384 words that it reads, which the drive does not
  promise: \<open>insl\<close> counts words, and is given the number of bytes.\<close>

theorem ata_read_sector_overruns:
  assumes "gives_disk dev disk" "\<forall>log. ready_soon dev log" "unat lba < 268435456"
  shows "\<exists>s' t. ata_read_sector dev dest lba s = Some s' \<and> sector_read disk dest lba s s' \<and>
    bmem t = bmem s \<and> s' = insl_loop dev ATA_PORT_DATA dest 512 t"
  by (rule ata_read_sector_steps [OF assms])

section \<open>Reading a segment\<close>

text \<open>The sectors from \<open>start\<close> to \<open>stop\<close>, one after the other: what was overwritten beyond a sector is right again when
  the next has been read.\<close>

lemma read_sectors_disk:
  assumes "gives_disk dev disk" "\<forall>log. ready_soon dev log"
    and "n * 512 < unat stop - unat start + 512" "unat stop - unat start \<le> n * 512"
    and "unat start + n * 512 + 1536 \<le> 4294967296" "unat lba + n \<le> 268435456"
  shows "\<exists>s'. read_sectors dev start stop lba s = Some s' \<and> entered s' = entered s \<and>
    (\<forall>j < n * 512. bmem s' (start + of_nat j) = disk (512 * unat lba + j)) \<and>
    (\<forall>x. (if n = 0 then 0 else n * 512 + 1536) \<le> unat x \<longrightarrow> bmem s' (start + x) = bmem s (start + x))"
  using assms(3-)
proof (induction n arbitrary: start lba s)
  case 0
  then show ?case by (simp add: read_sectors.simps [of dev start stop] word_less_nat_alt)
next
  case (Suc n)
  let ?start = "start + ATA_SECTOR_SIZE" and ?lba = "lba + 1"
  have "start < stop" using Suc.prems(1) by (simp add: word_less_nat_alt)
  obtain s1 where s1: "ata_read_sector dev start lba s = Some s1" "sector_read disk start lba s s1"
    using ata_read_sector_steps [OF assms(1,2), of lba start s] Suc.prems(4) by auto
  have u: "unat ?start = unat start + 512" "unat ?lba = unat lba + 1"
    using Suc.prems by (simp_all add: ATA_SECTOR_SIZE_def unat_word_ariths)
  have left: "n * 512 < unat stop - (unat start + 512) + 512" "unat stop - (unat start + 512) \<le> n * 512"
    using Suc.prems(1,2) by simp_all
  obtain s' where s': "read_sectors dev ?start stop ?lba s1 = Some s'" "entered s' = entered s1"
    "\<And>j. j < n * 512 \<Longrightarrow> bmem s' (?start + of_nat j) = disk (512 * unat ?lba + j)"
    "\<And>x. (if n = 0 then 0 else n * 512 + 1536) \<le> unat x \<Longrightarrow> bmem s' (?start + x) = bmem s1 (?start + x)"
    using Suc.IH [of ?start ?lba s1] left Suc.prems(3,4) unfolding u by auto
  have run: "read_sectors dev start stop lba s = Some s'"
    using \<open>start < stop\<close> s1(1) s'(1) by (simp add: read_sectors.simps [of dev start stop])
  have "bmem s' (start + of_nat j) = disk (512 * unat lba + j)" if j: "j < Suc n * 512" for j
  proof (cases "j < 512")
    case True
    have "unat (- of_nat (512 - j) :: u32) = 4294967296 - (512 - j)" by (rule unat_uminus_u32) (use True in auto)
    then have "bmem s' (?start + - of_nat (512 - j)) = bmem s1 (?start + - of_nat (512 - j))"
      by (intro s'(4)) (use Suc.prems(3) in auto)
    moreover have "?start + - of_nat (512 - j) = start + of_nat j"
      using True by (simp add: ATA_SECTOR_SIZE_def of_nat_diff)
    ultimately show ?thesis using s1(2) True by (simp add: sector_read_def)
  next
    case False
    then have "?start + of_nat (j - 512) = start + of_nat j" by (simp add: ATA_SECTOR_SIZE_def of_nat_diff)
    then show ?thesis using s'(3) [of "j - 512"] False j u(2) by (simp add: algebra_simps)
  qed
  moreover have "bmem s' (start + x) = bmem s (start + x)" if x: "Suc n * 512 + 1536 \<le> unat x" for x
  proof -
    have "unat (x - 512) = unat x - 512" using x by (subst unat_sub) (auto simp: word_le_nat_alt)
    then have "bmem s' (?start + (x - 512)) = bmem s1 (?start + (x - 512))" by (intro s'(4)) (use x in auto)
    moreover have "?start + (x - 512) = start + x" by (simp add: ATA_SECTOR_SIZE_def)
    ultimately show ?thesis using s1(2) x by (simp add: sector_read_def)
  qed
  ultimately show ?case using run s'(2) s1(2) by (auto simp: sector_read_def)
qed

lemma sectors_needed:
  fixes r c :: nat
  shows "(r + c + 511) div 512 * 512 < r + c + 512" "r + c \<le> (r + c + 511) div 512 * 512"
  by simp_all

text \<open>\<open>ata_read_segment\<close>: the bytes asked for are the disk's, from the twelfth sector on; up to 511 bytes before them and
  2047 after them may be overwritten, nothing else.\<close>

lemma ata_read_segment_disk:
  assumes "gives_disk dev disk" "\<forall>log. ready_soon dev log"
    and "unat (offset mod 512) \<le> unat dest" "unat dest + unat c + 2560 \<le> 4294967296"
  shows "\<exists>s'. ata_read_segment dev dest c offset s = Some s' \<and> entered s' = entered s \<and>
    (\<forall>j < unat c. bmem s' (dest + of_nat j) = disk (6144 + unat offset + j)) \<and>
    (\<forall>a. unat c + 2047 \<le> unat (a - dest) \<longrightarrow> 512 \<le> unat (dest - a) \<longrightarrow> bmem s' a = bmem s a)"
proof -
  let ?r = "unat (offset mod 512)" and ?c = "unat c"
  let ?n = "(?r + ?c + 511) div 512"
  let ?start = "dest - offset mod 512" and ?lba = "offset div 512 + 12"
  have r: "?r = unat offset mod 512" by (simp add: unat_mod_distrib)
  have start: "unat ?start = unat dest - ?r" by (subst unat_sub) (use assms(3) in \<open>auto simp: word_le_nat_alt\<close>)
  have stop: "unat (dest + c) = unat dest + ?c" using assms(4) by (simp add: unat_word_ariths)
  have "unat (offset div 512) = unat offset div 512" by (simp add: unat_div_distrib)
  then have lba: "unat ?lba = unat offset div 512 + 12"
    using unat_lt_u32 [of offset] by (simp add: unat_word_ariths)
  have n: "?n * 512 < ?r + ?c + 512" "?r + ?c \<le> ?n * 512" by (rule sectors_needed)+
  have small: "?r < 512" by (simp add: r)
  have "unat ?lba + ?n \<le> 268435456"
    using unat_lt_u32 [of offset] unat_lt_u32 [of c] small n(1) by (simp add: lba)
  moreover have "?n * 512 < unat (dest + c) - unat ?start + 512" "unat (dest + c) - unat ?start \<le> ?n * 512"
    "unat ?start + ?n * 512 + 1536 \<le> 4294967296"
    using n small assms(3,4) unfolding start stop by arith+
  ultimately obtain s' where s': "read_sectors dev ?start (dest + c) ?lba s = Some s'" "entered s' = entered s"
    "\<And>j. j < ?n * 512 \<Longrightarrow> bmem s' (?start + of_nat j) = disk (512 * unat ?lba + j)"
    "\<And>x. (if ?n = 0 then 0 else ?n * 512 + 1536) \<le> unat x \<Longrightarrow> bmem s' (?start + x) = bmem s (?start + x)"
    using read_sectors_disk [OF assms(1,2), of ?n "dest + c" ?start ?lba s] by auto
  have "bmem s' (dest + of_nat j) = disk (6144 + unat offset + j)" if "j < ?c" for j
  proof -
    have "?start + of_nat (?r + j) = dest + of_nat j" by simp
    moreover have "bmem s' (?start + of_nat (?r + j)) = disk (512 * unat ?lba + (?r + j))"
      by (rule s'(3)) (use that n(2) in simp)
    moreover have "512 * unat ?lba + (?r + j) = 6144 + unat offset + j" by (simp add: lba r)
    ultimately show ?thesis by simp
  qed
  moreover have "bmem s' a = bmem s a" if a: "?c + 2047 \<le> unat (a - dest)" "512 \<le> unat (dest - a)" for a
  proof -
    have "unat (- (a - dest)) = 4294967296 - unat (a - dest)"
      using unat_uminus_u32 [of "unat (a - dest)"] a(1) unat_lt_u32 [of "a - dest"] by simp
    then have "unat (a - dest) + ?r < 4294967296" using a(2) small by simp
    then have "unat (a - dest + offset mod 512) = unat (a - dest) + ?r" by (simp add: unat_word_ariths)
    then have "bmem s' (?start + (a - dest + offset mod 512)) = bmem s (?start + (a - dest + offset mod 512))"
      by (intro s'(4)) (use a(1) n(1) in auto)
    then show ?thesis by simp
  qed
  moreover have "ata_read_segment dev dest c offset s = Some s'"
    using s'(1) by (simp add: ata_read_segment_def ATA_SECTOR_SIZE_def)
  ultimately show ?thesis using s'(2) by blast
qed

section \<open>Loading\<close>

text \<open>Where loading a segment may write, when that cannot wrap, and what it is to leave in memory.\<close>

definition segment_touches :: "elf32_phdr \<Rightarrow> u32 \<Rightarrow> bool" where
  "segment_touches p a \<longleftrightarrow> unat (a - p_paddr p) < max (unat (p_filesz p) + 2047) (unat (p_memsz p)) \<or>
     unat (p_paddr p - a) < 512"

definition segment_fits :: "elf32_phdr \<Rightarrow> bool" where
  "segment_fits p \<longleftrightarrow> unat (p_offset p mod 512) \<le> unat (p_paddr p) \<and>
     unat (p_paddr p) + unat (p_filesz p) + 2560 \<le> 4294967296"

definition segment_loaded :: "(nat \<Rightarrow> u8) \<Rightarrow> elf32_phdr \<Rightarrow> mem \<Rightarrow> bool" where
  "segment_loaded disk p m \<longleftrightarrow>
     (\<forall>j < unat (p_filesz p). m (p_paddr p + of_nat j) = disk (6144 + unat (p_offset p) + j)) \<and>
     (\<forall>j < unat (p_memsz p). unat (p_filesz p) \<le> j \<longrightarrow> m (p_paddr p + of_nat j) = 0)"

text \<open>Each segment is out of the reach of those loaded after it.\<close>

primrec segments_apart :: "elf32_phdr list \<Rightarrow> bool" where
  "segments_apart [] = True"
| "segments_apart (p # ps) \<longleftrightarrow>
     (\<forall>q \<in> set ps. \<forall>j < max (unat (p_filesz p)) (unat (p_memsz p)). \<not> segment_touches q (p_paddr p + of_nat j)) \<and>
     segments_apart ps"

lemma read_elf32_phdr_cong:
  assumes "\<And>i. i < 32 \<Longrightarrow> m (p + of_nat i) = m' (q + of_nat i)"
  shows "read_elf32_phdr m p = read_elf32_phdr m' q"
proof -
  have u32: "get_u32 m (p + of_nat i) = get_u32 m' (q + of_nat i)" if "i < 29" for i
    using assms [of i] assms [of "i + 1"] assms [of "i + 2"] assms [of "i + 3"] that
    by (simp add: get_u32_def ac_simps)
  show ?thesis
    using u32 [of 0] u32 [of 4] u32 [of 8] u32 [of 12] u32 [of 16] u32 [of 20] u32 [of 24] u32 [of 28]
    by (simp add: read_elf32_phdr_def)
qed

lemma load_one_segment:
  assumes "gives_disk dev disk" "\<forall>log. ready_soon dev log" "phdr < eph"
    and p: "read_elf32_phdr (bmem s) phdr = p" and fits: "segment_fits p"
    and keeps: "\<And>i. i < 32 \<Longrightarrow> \<not> segment_touches p (phdr + of_nat i)"
  shows "\<exists>s'. load_segments dev phdr eph s = load_segments dev (phdr + sizeof_elf32_phdr) eph s' \<and>
    entered s' = entered s \<and> segment_loaded disk p (bmem s') \<and>
    (\<forall>a. \<not> segment_touches p a \<longrightarrow> bmem s' a = bmem s a)"
proof -
  let ?pa = "p_paddr p" and ?fs = "p_filesz p" and ?ms = "p_memsz p"
  obtain t where t: "ata_read_segment dev ?pa ?fs (p_offset p) s = Some t" "entered t = entered s"
    "\<And>j. j < unat ?fs \<Longrightarrow> bmem t (?pa + of_nat j) = disk (6144 + unat (p_offset p) + j)"
    "\<And>a. unat ?fs + 2047 \<le> unat (a - ?pa) \<Longrightarrow> 512 \<le> unat (?pa - a) \<Longrightarrow> bmem t a = bmem s a"
    using ata_read_segment_disk [OF assms(1,2), of "p_offset p" ?pa ?fs s] fits by (auto simp: segment_fits_def)
  have kept: "bmem t a = bmem s a" if "\<not> segment_touches p a" for a
    by (rule t(4)) (use that in \<open>auto simp: segment_touches_def\<close>)
  then have again: "read_elf32_phdr (bmem t) phdr = p"
    unfolding p [symmetric] by (intro read_elf32_phdr_cong) (use keeps p in simp)
  let ?s = "if ?ms > ?fs then stosb (?pa + ?fs) 0 (?ms - ?fs) t else t"
  have run: "load_segments dev phdr eph s = load_segments dev (phdr + sizeof_elf32_phdr) eph ?s"
    using assms(3) by (simp add: load_segments.simps [of dev phdr] p t(1) again Let_def)
  have mem: "bmem ?s a = (if ?ms > ?fs \<and> a - (?pa + ?fs) < ?ms - ?fs then 0 else bmem t a)" for a
    using kmemset_at [of "bmem t" "?pa + ?fs" 0 "?ms - ?fs" a] by (simp add: stosb_def kmemset_def)
  have inside: "j < unat ?ms \<and> unat ?fs \<le> j" if "?ms > ?fs" "x - (?pa + ?fs) < ?ms - ?fs" "x = ?pa + y" "unat y = j" for x y j
  proof -
    have "unat (?ms - ?fs) = unat ?ms - unat ?fs" using that(1) by (intro unat_sub) simp
    moreover have "y = ?fs + (x - (?pa + ?fs))" using that(3) by simp
    then have "unat y = (unat ?fs + unat (x - (?pa + ?fs))) mod 4294967296" by (simp only: unat_word_ariths) simp
    ultimately show ?thesis using that(1,2,4) unat_lt_u32 [of ?ms] by (simp add: word_less_nat_alt)
  qed
  have "bmem ?s (?pa + of_nat j) = disk (6144 + unat (p_offset p) + j)" if j: "j < unat ?fs" for j
  proof -
    have "unat (of_nat j :: u32) = j" by (rule unat_of_nat_u32) (use j unat_lt_u32 [of ?fs] in simp)
    then have "\<not> (?ms > ?fs \<and> ?pa + of_nat j - (?pa + ?fs) < ?ms - ?fs)"
      using inside [of "?pa + of_nat j" "of_nat j" j] j by auto
    then show ?thesis unfolding mem using t(3) [OF j] by (simp only: if_False)
  qed
  moreover have "bmem ?s (?pa + of_nat j) = 0" if j: "j < unat ?ms" "unat ?fs \<le> j" for j
  proof -
    have "?ms > ?fs" using j by (simp add: word_less_nat_alt)
    moreover have "?pa + of_nat j - (?pa + ?fs) = of_nat (j - unat ?fs)" using j(2) by (simp add: of_nat_diff)
    moreover have "unat (of_nat (j - unat ?fs) :: u32) = j - unat ?fs"
      by (rule unat_of_nat_u32) (use j unat_lt_u32 [of ?ms] in simp)
    moreover have "unat (?ms - ?fs) = unat ?ms - unat ?fs" using \<open>?ms > ?fs\<close> by (intro unat_sub) simp
    ultimately show ?thesis unfolding mem using j diff_less_mono [OF j] by (simp add: word_less_nat_alt)
  qed
  moreover have "bmem ?s a = bmem s a" if a: "\<not> segment_touches p a" for a
  proof -
    have "\<not> (?ms > ?fs \<and> a - (?pa + ?fs) < ?ms - ?fs)"
      using inside [of a "a - ?pa" "unat (a - ?pa)"] a by (auto simp: segment_touches_def)
    then show ?thesis unfolding mem using kept [OF a] by (simp only: if_False)
  qed
  moreover have "entered ?s = entered s" using t(2) by (simp add: stosb_def)
  ultimately show ?thesis using run unfolding segment_loaded_def by blast
qed

lemma load_segments_all:
  assumes "gives_disk dev disk" "\<forall>log. ready_soon dev log"
    and "unat phdr + 32 * length ps < 4294967296"
    and "\<And>k. k < length ps \<Longrightarrow> read_elf32_phdr (bmem s) (phdr + of_nat (32 * k)) = ps ! k"
    and "\<forall>p \<in> set ps. segment_fits p" "segments_apart ps"
    and "\<And>p i. p \<in> set ps \<Longrightarrow> i < 32 * length ps \<Longrightarrow> \<not> segment_touches p (phdr + of_nat i)"
  shows "\<exists>s'. load_segments dev phdr (phdr + of_nat (32 * length ps)) s = Some s' \<and> entered s' = entered s \<and>
    (\<forall>p \<in> set ps. segment_loaded disk p (bmem s')) \<and>
    (\<forall>a. (\<forall>p \<in> set ps. \<not> segment_touches p a) \<longrightarrow> bmem s' a = bmem s a)"
  using assms(3-)
proof (induction ps arbitrary: phdr s)
  case Nil
  then show ?case by (simp add: load_segments.simps [of dev phdr phdr])
next
  case (Cons p ps)
  let ?eph = "phdr + of_nat (32 * length (p # ps))" and ?next = "phdr + sizeof_elf32_phdr"
  have eph: "?eph = ?next + of_nat (32 * length ps)" by (simp add: sizeof_elf32_phdr_def)
  have "unat (of_nat (32 * length (p # ps)) :: u32) = 32 * length (p # ps)"
    by (rule unat_of_nat_u32) (use Cons.prems(1) in simp)
  then have "unat ?eph = unat phdr + 32 * length (p # ps)"
    using Cons.prems(1) by (simp only: unat_word_ariths) simp
  then have less: "phdr < ?eph" by (simp add: word_less_nat_alt)
  have u: "unat ?next = unat phdr + 32"
    using Cons.prems(1) by (simp add: sizeof_elf32_phdr_def unat_word_ariths)
  have first: "read_elf32_phdr (bmem s) phdr = p" using Cons.prems(2) [of 0] by simp
  have fits: "segment_fits p" using Cons.prems(3) by simp
  have away: "\<not> segment_touches p (phdr + of_nat i)" if "i < 32 * length (p # ps)" for i
    by (rule Cons.prems(5)) (use that in auto)
  obtain t where t: "load_segments dev phdr ?eph s = load_segments dev ?next ?eph t" "entered t = entered s"
    "segment_loaded disk p (bmem t)" "\<And>a. \<not> segment_touches p a \<Longrightarrow> bmem t a = bmem s a"
    using load_one_segment [OF assms(1,2) less first fits] away by (auto simp del: of_nat_mult)
  have keep: "bmem t (?next + of_nat i) = bmem s (?next + of_nat i)" if "i < 32 * length ps" for i
    using t(4) [of "phdr + of_nat (32 + i)"] away [of "32 + i"] that by (simp add: sizeof_elf32_phdr_def add.assoc)
  have heads: "read_elf32_phdr (bmem t) (?next + of_nat (32 * k)) = ps ! k" if k: "k < length ps" for k
  proof -
    have "read_elf32_phdr (bmem t) (?next + of_nat (32 * k)) = read_elf32_phdr (bmem s) (?next + of_nat (32 * k))"
    proof (rule read_elf32_phdr_cong)
      fix i :: nat assume "i < 32"
      then have "32 * k + i < 32 * length ps" using k by simp
      from keep [OF this] show "bmem t (?next + of_nat (32 * k) + of_nat i) = bmem s (?next + of_nat (32 * k) + of_nat i)"
        by (simp add: add.assoc)
    qed
    then show ?thesis using Cons.prems(2) [of "Suc k"] k by (simp add: sizeof_elf32_phdr_def add.assoc)
  qed
  have rest: "\<not> segment_touches q (?next + of_nat i)" if "q \<in> set ps" "i < 32 * length ps" for q i
    using Cons.prems(5) [of q "32 + i"] that by (simp add: sizeof_elf32_phdr_def add.assoc)
  obtain s' where s': "load_segments dev ?next ?eph t = Some s'" "entered s' = entered t"
    "\<forall>q \<in> set ps. segment_loaded disk q (bmem s')"
    "\<And>a. (\<forall>q \<in> set ps. \<not> segment_touches q a) \<Longrightarrow> bmem s' a = bmem t a"
    unfolding eph using Cons.IH [of ?next t] Cons.prems(1,3,4) u heads rest by auto
  have "segment_loaded disk p (bmem s')"
    using t(3) s'(4) Cons.prems(4) by (simp add: segment_loaded_def)
  then show ?case using t s' by auto
qed

text \<open>The disk as the boot loader sees the kernel's file: it begins at the twelfth sector.\<close>

definition kernel_file :: "(nat \<Rightarrow> u8) \<Rightarrow> mem" where
  "kernel_file disk a = disk (6144 + unat a)"

lemma header_loaded:
  assumes "gives_disk dev disk" "\<forall>log. ready_soon dev log"
  shows "\<exists>s'. ata_read_segment dev TMP_ELF_LOCATION sizeof_elf32_hdr 0 s = Some s' \<and> sector_read disk TMP_ELF_LOCATION 12 s s'"
proof -
  obtain s' where s': "ata_read_sector dev TMP_ELF_LOCATION 12 s = Some s'" "sector_read disk TMP_ELF_LOCATION 12 s s'"
    using ata_read_sector_steps [OF assms, of 12 TMP_ELF_LOCATION s] by auto
  have "ata_read_segment dev TMP_ELF_LOCATION sizeof_elf32_hdr 0 s = Some s'"
    using s'(1) by (simp add: ata_read_segment_def TMP_ELF_LOCATION_def sizeof_elf32_hdr_def ATA_SECTOR_SIZE_def
        read_sectors.simps)
  then show ?thesis using s'(2) by blast
qed

lemma sector_header:
  assumes "sector_read disk TMP_ELF_LOCATION 12 s s'"
  shows "read_elf32_hdr (bmem s') TMP_ELF_LOCATION = read_elf32_hdr (kernel_file disk) 0"
  by (rule read_elf32_hdr_cong) (use assms in \<open>simp add: sector_read_def kernel_file_def unat_of_nat_u32\<close>)

text \<open>a disk that does not hold a 32-bit little-endian executable for the 386 is not entered: \<open>load_kernel\<close> returns
  to its caller, having written nothing but the 2048 bytes from \<open>TMP_ELF_LOCATION\<close> on.\<close>

theorem load_kernel_rejects:
  assumes "gives_disk dev disk" "\<forall>log. ready_soon dev log"
    and "\<not> elf_is_valid_executable (read_elf32_hdr (kernel_file disk) 0)"
  shows "\<exists>s'. load_kernel dev s = Some s' \<and> entered s' = entered s \<and>
    (\<forall>x. 2048 \<le> unat x \<longrightarrow> bmem s' (TMP_ELF_LOCATION + x) = bmem s (TMP_ELF_LOCATION + x))"
proof -
  obtain s' where s': "ata_read_segment dev TMP_ELF_LOCATION sizeof_elf32_hdr 0 s = Some s'"
    "sector_read disk TMP_ELF_LOCATION 12 s s'"
    using header_loaded [OF assms(1,2)] by blast
  have "load_kernel dev s = Some s'"
    using s'(1) assms(3) sector_header [OF s'(2)] by (simp add: load_kernel_def Let_def)
  then show ?thesis using s'(2) by (auto simp: sector_read_def)
qed

text \<open>C10: \<open>load_kernel\<close> loads an executable: when the file's header is valid, its program headers lie in its first sector,
  the segments fit into memory, keep clear of the sector at \<open>TMP_ELF_LOCATION\<close> and, with the 2047 bytes that a read
  may spoil after a segment and the 511 before it, of the segments loaded before them, then the kernel is entered at
  \<open>e_entry\<close>, with every segment's \<open>p_filesz\<close> bytes as they are on the disk and its other bytes up to \<open>p_memsz\<close>
  zero.\<close>

theorem load_kernel_loads:
  assumes "gives_disk dev disk" "\<forall>log. ready_soon dev log"
    and "hdr = read_elf32_hdr (kernel_file disk) 0" "elf_is_valid_executable hdr"
    and "ps = map (\<lambda>k. read_elf32_phdr (kernel_file disk) (e_phoff hdr + of_nat (32 * k))) [0..<unat (e_phnum hdr)]"
    and "unat (e_phoff hdr) + 32 * unat (e_phnum hdr) \<le> 512"
    and "\<forall>p \<in> set ps. segment_fits p \<and> (\<forall>i < 512. \<not> segment_touches p (TMP_ELF_LOCATION + of_nat i))"
    and "segments_apart ps"
  shows "\<exists>s'. load_kernel dev s = Some s' \<and> entered s' = Some (e_entry hdr) \<and>
    (\<forall>p \<in> set ps. segment_loaded disk p (bmem s'))"
proof -
  let ?elf = "TMP_ELF_LOCATION" and ?off = "unat (e_phoff hdr)"
  let ?phdr = "?elf + e_phoff hdr"
  obtain t where t: "ata_read_segment dev ?elf sizeof_elf32_hdr 0 s = Some t" "sector_read disk ?elf 12 s t"
    using header_loaded [OF assms(1,2)] by blast
  have len: "length ps = unat (e_phnum hdr)" by (simp add: assms(5))
  have place: "?phdr + of_nat i = ?elf + of_nat (?off + i)" for i by simp
  have "unat ?phdr = 65536 + ?off" using assms(6) by (simp add: TMP_ELF_LOCATION_def unat_word_ariths)
  then have room: "unat ?phdr + 32 * length ps < 4294967296" using assms(6) len by simp
  have heads: "read_elf32_phdr (bmem t) (?phdr + of_nat (32 * k)) = ps ! k" if k: "k < length ps" for k
  proof -
    have "read_elf32_phdr (bmem t) (?phdr + of_nat (32 * k)) = read_elf32_phdr (kernel_file disk) (e_phoff hdr + of_nat (32 * k))"
    proof (rule read_elf32_phdr_cong)
      fix i :: nat assume "i < 32"
      then have i: "?off + (32 * k + i) < 512" using k len assms(6) by simp
      then have "unat (e_phoff hdr + of_nat (32 * k) + of_nat i) = ?off + (32 * k + i)"
        using unat_of_nat_u32 [of "?off + (32 * k + i)"] by (simp add: add.assoc)
      moreover have "\<And>j. j < 512 \<Longrightarrow> bmem t (?elf + of_nat j) = disk (6144 + j)"
        using t(2) by (simp add: sector_read_def)
      from this [OF i] have "bmem t (?elf + of_nat (?off + (32 * k + i))) = disk (6144 + (?off + (32 * k + i)))" .
      ultimately show "bmem t (?phdr + of_nat (32 * k) + of_nat i) = kernel_file disk (e_phoff hdr + of_nat (32 * k) + of_nat i)"
        by (simp add: kernel_file_def add.assoc)
    qed
    then show ?thesis using k len by (simp add: assms(5))
  qed
  have away: "\<not> segment_touches p (?phdr + of_nat i)" if "p \<in> set ps" "i < 32 * length ps" for p i
  proof -
    have "?off + i < 512" using assms(6) that(2) len by simp
    then show ?thesis unfolding place using assms(7) that(1) by blast
  qed
  have fits: "\<forall>p \<in> set ps. segment_fits p" using assms(7) by blast
  obtain s' where s': "load_segments dev ?phdr (?phdr + of_nat (32 * length ps)) t = Some s'"
    "\<forall>p \<in> set ps. segment_loaded disk p (bmem s')"
    "\<And>a. (\<forall>p \<in> set ps. \<not> segment_touches p a) \<Longrightarrow> bmem s' a = bmem t a"
    using load_segments_all [OF assms(1,2) room heads fits assms(8) away] by blast
  have "bmem s' (?elf + of_nat i) = bmem t (?elf + of_nat i)" if "i < 512" for i
    by (rule s'(3)) (use assms(7) that in blast)
  then have "read_elf32_hdr (bmem s') ?elf = read_elf32_hdr (bmem t) ?elf"
    by (intro read_elf32_hdr_cong) simp
  moreover have "ucast (e_phnum hdr) * sizeof_elf32_phdr = of_nat (32 * length ps)"
    by (simp add: len sizeof_elf32_phdr_def)
  ultimately have "load_kernel dev s = Some (s'\<lparr>entered := Some (e_entry hdr)\<rparr>)"
    using t(1) s'(1) assms(3,4) sector_header [OF t(2)] by (simp add: load_kernel_def Let_def)
  then show ?thesis using s'(2) by (intro exI [of _ "s'\<lparr>entered := Some (e_entry hdr)\<rparr>"]) simp
qed

section \<open>Examples\<close>

text \<open>A file with one segment, the four bytes 1, 2, 3, 4 at \<open>0x100000\<close> and four zeros after them.\<close>

definition example_file :: "u8 list" where
  "example_file =
     [0x7F, 69, 76, 70, 1, 1, 1, 0, 0, 0, 0, 0, 0, 0, 0, 0,
      2, 0, 3, 0, 1, 0, 0, 0, 0, 0, 0x10, 0, 52, 0, 0, 0, 0, 0, 0, 0, 0, 0, 0, 0,
      52, 0, 32, 0, 1, 0, 0, 0, 0, 0, 0, 0,
      1, 0, 0, 0, 84, 0, 0, 0, 0, 0, 0x10, 0, 0, 0, 0x10, 0, 4, 0, 0, 0, 8, 0, 0, 0, 7, 0, 0, 0, 0, 0x10, 0, 0,
      1, 2, 3, 4]"

definition example_disk :: "u8 list \<Rightarrow> nat \<Rightarrow> u8" where
  "example_disk file i = (if i < 6144 then 0 else if i - 6144 < length file then file ! (i - 6144) else 0)"

definition example_drive :: "(nat \<Rightarrow> u8) \<Rightarrow> ata_dev" where
  "example_drive disk = \<lparr>ata_in = (\<lambda>_ _. ATA_STAT_RDY), ata_in_long = (\<lambda>log _.
     let v = ata_sees log in get_u32 (\<lambda>a. disk (512 * av_lba v + 4 * av_taken v + unat a)) 0)\<rparr>"

definition example_boot :: boot_state where
  "example_boot = \<lparr>bmem = (\<lambda>_. 0xCC), ata_log = [], entered = None\<rparr>"

lemma get_u32_byte: "k < 4 \<Longrightarrow> ucast (drop_bit (8 * k) (get_u32 m a)) = m (a + of_nat k)"
proof -
  assume "k < 4"
  then consider "k = 0" | "k = 1" | "k = 2" | "k = 3" by linarith
  then show ?thesis
    by cases (rule bit_word_eqI; auto simp: get_u32_def bit_simps dest: bit_imp_le_length)+
qed

lemma example_drive_ok: "gives_disk (example_drive disk) disk" "\<forall>log. ready_soon (example_drive disk) log"
proof -
  show "gives_disk (example_drive disk) disk"
    by (auto simp: gives_disk_def example_drive_def Let_def get_u32_byte unat_of_nat_u32)
  show "\<forall>log. ready_soon (example_drive disk) log"
    by (auto intro: ready_soon.now simp: example_drive_def ata_ready_def ATA_STAT_RDY_def)
qed

theorem ata_read_sector_overruns_witness:
  "\<exists>s' t. ata_read_sector (example_drive (example_disk example_file)) 0x7C00 12 example_boot = Some s' \<and>
    sector_read (example_disk example_file) 0x7C00 12 example_boot s' \<and> bmem t = bmem example_boot \<and>
    s' = insl_loop (example_drive (example_disk example_file)) ATA_PORT_DATA 0x7C00 512 t"
  by (rule ata_read_sector_overruns [OF example_drive_ok]) simp

theorem load_kernel_rejects_witness:
  "\<exists>s'. load_kernel (example_drive (example_disk [])) example_boot = Some s' \<and> entered s' = None \<and>
    bmem s' (TMP_ELF_LOCATION + 2048) = 0xCC"
proof -
  have bad: "\<not> elf_is_valid_executable (read_elf32_hdr (kernel_file (example_disk [])) 0)"
    by (simp add: elf_is_valid_executable_def elf_is_valid_sig_def read_elf32_hdr_def kernel_file_def example_disk_def
        EI_NIDENT_def EI_MAG0_def ELFMAG0_def upt_conv_Cons)
  obtain s' where s': "load_kernel (example_drive (example_disk [])) example_boot = Some s'"
    "entered s' = entered example_boot"
    "\<And>x. 2048 \<le> unat x \<Longrightarrow> bmem s' (TMP_ELF_LOCATION + x) = bmem example_boot (TMP_ELF_LOCATION + x)"
    using load_kernel_rejects [OF example_drive_ok bad, of example_boot] by blast
  then show ?thesis using s'(3) [of 2048] by (simp add: example_boot_def)
qed

lemma example_header:
  "read_elf32_hdr (kernel_file (example_disk example_file)) 0 =
     \<lparr>e_ident = [0x7F, 69, 76, 70, 1, 1, 1, 0, 0, 0, 0, 0, 0, 0, 0, 0], e_type = 2, e_machine = 3, e_version = 1,
      e_entry = 0x100000, e_phoff = 52, e_shoff = 0, e_flags = 0, e_ehsize = 52, e_phentsize = 32, e_phnum = 1,
      e_shentsize = 0, e_shnum = 0, e_shstrndx = 0\<rparr>"
  by (simp add: read_elf32_hdr_def kernel_file_def example_disk_def example_file_def EI_NIDENT_def get_u16_def get_u32_def
      upt_conv_Cons push_bit_eq_mult)

definition example_segment :: elf32_phdr where
  "example_segment = \<lparr>p_type = 1, p_offset = 84, p_vaddr = 0x100000, p_paddr = 0x100000, p_filesz = 4, p_memsz = 8,
     p_flags = 7, p_align = 0x1000\<rparr>"

lemma example_program:
  "read_elf32_phdr (kernel_file (example_disk example_file)) 52 = example_segment"
  by (simp add: read_elf32_phdr_def kernel_file_def example_disk_def example_file_def get_u32_def push_bit_eq_mult
      example_segment_def)

lemma example_away: "i < 512 \<Longrightarrow> \<not> segment_touches example_segment (TMP_ELF_LOCATION + of_nat i)"
proof -
  assume i: "i < 512"
  have d: "0x10000 + of_nat i - 0x100000 = (- of_nat (983040 - i) :: u32)"
    "0x100000 - (0x10000 + of_nat i) = (of_nat (983040 - i) :: u32)"
    using i by (simp_all add: of_nat_diff)
  have "unat (- of_nat (983040 - i) :: u32) = 4294967296 - (983040 - i)" by (rule unat_uminus_u32) (use i in auto)
  moreover have "unat (of_nat (983040 - i) :: u32) = 983040 - i" by (rule unat_of_nat_u32) simp
  ultimately show ?thesis
    using i unfolding segment_touches_def TMP_ELF_LOCATION_def example_segment_def by (simp only: elf32_phdr.simps d) simp
qed

theorem load_kernel_loads_witness:
  "\<exists>s'. load_kernel (example_drive (example_disk example_file)) example_boot = Some s' \<and> entered s' = Some 0x100000 \<and>
    map (\<lambda>i. bmem s' (0x100000 + of_nat i)) [0..<8] = [1, 2, 3, 4, 0, 0, 0, 0]"
proof -
  let ?disk = "example_disk example_file"
  let ?hdr = "read_elf32_hdr (kernel_file ?disk) 0"
  have valid: "elf_is_valid_executable ?hdr"
    by (simp add: example_header elf_is_valid_executable_def elf_is_valid_sig_def elf_is_valid_class_def
        elf_is_valid_encoding_def elf_is_valid_version_def elf_is_valid_machine_def elf_is_executable_def elf_has_phdr_def
        EI_MAG0_def EI_MAG1_def EI_MAG2_def EI_MAG3_def EI_CLASS_def EI_DATA_def EI_VERSION_def ELFMAG0_def ELFMAG1_def
        ELFMAG2_def ELFMAG3_def ELFCLASS32_def ELFDATA2LSB_def EV_CURRENT_def EM_386_def ET_EXEC_def)
  have ps: "[example_segment] = map (\<lambda>k. read_elf32_phdr (kernel_file ?disk) (e_phoff ?hdr + of_nat (32 * k)))
      [0..<unat (e_phnum ?hdr)]"
    by (simp add: example_header example_program)
  have fits: "\<forall>p \<in> set [example_segment]. segment_fits p \<and> (\<forall>i < 512. \<not> segment_touches p (TMP_ELF_LOCATION + of_nat i))"
    using example_away by (simp add: segment_fits_def example_segment_def)
  obtain s' where s': "load_kernel (example_drive ?disk) example_boot = Some s'" "entered s' = Some (e_entry ?hdr)"
    "\<forall>p \<in> set [example_segment]. segment_loaded ?disk p (bmem s')"
    using load_kernel_loads [OF example_drive_ok refl valid ps _ fits, of example_boot] by (auto simp: example_header)
  have data: "\<And>j. j < 4 \<Longrightarrow> bmem s' (0x100000 + of_nat j) = example_file ! (84 + j)"
    "\<And>j. j < 8 \<Longrightarrow> 4 \<le> j \<Longrightarrow> bmem s' (0x100000 + of_nat j) = 0"
    using s'(3) by (auto simp: segment_loaded_def example_segment_def example_disk_def example_file_def)
  have e: "e_entry ?hdr = 0x100000" by (simp add: example_header)
  have "example_file ! 84 = 1" "example_file ! 85 = 2" "example_file ! 86 = 3" "example_file ! 87 = 4"
    by (simp_all add: example_file_def)
  then show ?thesis
    using s'(1) s'(2) [unfolded e] data(1) [of 0] data(1) [of 1] data(1) [of 2] data(1) [of 3] data(2) [of 4] data(2) [of 5]
      data(2) [of 6] data(2) [of 7]
    by (simp add: upt_conv_Cons)
qed

end
