(* ===== verification/Traps.thy ===== *)
theory Traps
  imports Elf Keyboard
begin

text \<open>
  Exceptions: \<open>src/kernel/src/interrupt/traps.c\<close>, with what they end in, \<open>panic.c\<close> and \<open>stacktrace.c\<close> of
  \<open>src/kernel/src/debug\<close> and \<open>src/kernel/src/kernel.c\<close>; also \<open>syscall.c\<close>, which does nothing yet. \<open>kprintf\<close> and \<open>klogf_error\<close> belong to a driver that is not in
  the tree; they are the argument \<open>con\<close>, functions from a format and its arguments to a change of the state. The
  registers that the code reads with \<open>asm\<close>, and the address of its local array, are the argument \<open>cpu\<close>. Code that
  never returns ends in \<open>Halts\<close>.
\<close>

section \<open>State\<close>

record trap_state = irq_state +
  tmem :: mem
  int_on :: bool
  is_in_panic :: bool
  symtab :: u32
  strtab :: u32

record sig_context_t =
  sc_gs :: u32
  sc_fs :: u32
  sc_es :: u32
  sc_ds :: u32
  sc_edi :: u32
  sc_esi :: u32
  sc_ebp :: u32
  sc_esp :: u32
  sc_ebx :: u32
  sc_edx :: u32
  sc_ecx :: u32
  sc_eax :: u32
  sc_err :: u32
  sc_eip :: u32
  sc_cs :: u32
  sc_eflags :: u32
  sc_og_esp :: u32
  sc_og_ss :: u32

definition sizeof_sig_context :: u32 where "sizeof_sig_context = 72"

record cpu_regs =
  reg_cr2 :: u32
  reg_esp :: u32
  reg_ebp :: u32
  buffer_s :: u32

datatype karg = KStr string | KPtr u32 | KNum u32

record 's konsole =
  kprintf :: "string \<Rightarrow> karg list \<Rightarrow> 's \<Rightarrow> 's"
  klogf_error :: "string \<Rightarrow> karg list \<Rightarrow> 's \<Rightarrow> 's"

datatype 's flow = Halts 's | Goes 's

definition NUM_EXCEPTIONS :: nat where "NUM_EXCEPTIONS = 32"
definition MAX_STACK_FRAMES :: nat where "MAX_STACK_FRAMES = 25"
definition PAGE_FAULT_WRIT :: u32 where "PAGE_FAULT_WRIT = 2"
definition PAGE_FAULT_USRMOD :: u32 where "PAGE_FAULT_USRMOD = 4"
definition PS2_SYSCTRL_B :: u16 where "PS2_SYSCTRL_B = 0x61"

section \<open>Stopping\<close>

primrec disable_all :: "device \<Rightarrow> nat \<Rightarrow> nat \<Rightarrow> 'a irq_state_scheme \<Rightarrow> 'a irq_state_scheme" where
  "disable_all dev n 0 s = s"
| "disable_all dev n (Suc k) s = disable_all dev (n + 1) k (irq_disable dev (int n) s)"

definition kernel_stop :: "device \<Rightarrow> 'a trap_state_scheme \<Rightarrow> 'a trap_state_scheme flow" where
  "kernel_stop dev s =
     (let s = s\<lparr>int_on := False\<rparr>;
          s = disable_all dev 0 (nat NUM_IRQS) s;
          s = irq_enable dev KEYBOARD_IRQ s
      in Halts (s\<lparr>int_on := True\<rparr>))"

definition get_address :: "mem \<Rightarrow> u32 \<Rightarrow> u32 \<Rightarrow> u32" where
  "get_address m vaddr off = get_u32 m (vaddr + 4 * off)"

text \<open>The argument \<open>n\<close> counts the frames that are left of \<open>MAX_STACK_FRAMES\<close>.\<close>

primrec dump_frames ::
    "'a trap_state_scheme konsole \<Rightarrow> u32 \<Rightarrow> nat \<Rightarrow> u32 \<Rightarrow> u32 \<Rightarrow> u32 \<Rightarrow> 'a trap_state_scheme \<Rightarrow>
     'a trap_state_scheme option" where
  "dump_frames con buf 0 last_bp bp ip s = Some s"
| "dump_frames con buf (Suc n) last_bp bp ip s =
     (if ip \<noteq> 0 \<and> bp \<noteq> 0 \<and> bp > last_bp then do {
        (m, _) \<leftarrow> kitoa (tmem s) (sint (ip - 1)) buf 16;
        let s = s\<lparr>tmem := m\<rparr>;
        let s = kprintf con (CHR 0x09 # ''0x%X'' @ [CHR 0x0A]) [KPtr buf] s;
        let last_bp = bp;
        let bp = get_address (tmem s) bp 0;
        let ip = get_address (tmem s) bp 1;
        dump_frames con buf n last_bp bp ip s
      } else Some s)"

definition dump_stack_trace ::
    "'a trap_state_scheme konsole \<Rightarrow> cpu_regs \<Rightarrow> 'a trap_state_scheme \<Rightarrow> 'a trap_state_scheme option" where
  "dump_stack_trace con cpu s = do {
     let s = kprintf con (''%s'' @ [CHR 0x0A]) [KStr ''Stack trace:''] s;
     let bp = reg_ebp cpu;
     let ip = get_address (tmem s) bp 1;
     s \<leftarrow> dump_frames con (buffer_s cpu) MAX_STACK_FRAMES 0 bp ip s;
     Some (kprintf con (''%s'' @ [CHR 0x0A]) [KStr ''Stack trace end''] s)
   }"

definition kpanic_stop ::
    "'a trap_state_scheme konsole \<Rightarrow> cpu_regs \<Rightarrow> device \<Rightarrow> 'a trap_state_scheme \<Rightarrow> 'a trap_state_scheme flow option" where
  "kpanic_stop con cpu dev s =
     (if is_in_panic s then Some (kernel_stop dev s)
      else do {
        let s = s\<lparr>is_in_panic := True\<rparr>;
        s \<leftarrow> dump_stack_trace con cpu s;
        Some (kernel_stop dev s)
      })"

text \<open>The macro; \<open>func\<close> is what \<open>__func__\<close> is where it is used.\<close>

definition kpanic ::
    "'a trap_state_scheme konsole \<Rightarrow> cpu_regs \<Rightarrow> device \<Rightarrow> string \<Rightarrow> string \<Rightarrow> karg list \<Rightarrow> 'a trap_state_scheme \<Rightarrow>
     'a trap_state_scheme flow option" where
  "kpanic con cpu dev func fmt args s =
     (let s = kprintf con (''[PANIC] Exception in %s'' @ [CHR 0x0A]) [KStr func] s;
          s = kprintf con fmt args s
      in kpanic_stop con cpu dev s)"

section \<open>Symbols\<close>

primrec lookup_loop :: "mem \<Rightarrow> u32 \<Rightarrow> u32 \<Rightarrow> u32 \<Rightarrow> nat \<Rightarrow> u32 option" where
  "lookup_loop m names addr symb 0 = None"
| "lookup_loop m names addr symb (Suc n) =
     (let e = read_elf32_sym m symb
      in if ELF32_ST_TYPE (st_info e) \<noteq> STT_FUNC then lookup_loop m names addr (symb + sizeof_elf32_sym) n
         else if addr \<ge> st_value e \<and> addr < st_value e + st_size e then Some (names + st_name e)
         else lookup_loop m names addr (symb + sizeof_elf32_sym) n)"

definition elf_lookup_symbol :: "u32 \<Rightarrow> 'a trap_state_scheme \<Rightarrow> u32 option" where
  "elf_lookup_symbol addr s =
     (let vsymtab = read_elf32_shdr (tmem s) (P2V (symtab s));
          vstrtab = read_elf32_shdr (tmem s) (P2V (strtab s));
          symb = P2V (sh_addr vsymtab)
      in lookup_loop (tmem s) (P2V (sh_addr vstrtab)) addr symb (unat (sh_size vsymtab div sizeof_elf32_sym)))"

section \<open>Reports\<close>

primrec print_words :: "'a trap_state_scheme konsole \<Rightarrow> u32 \<Rightarrow> nat \<Rightarrow> nat \<Rightarrow> 'a trap_state_scheme \<Rightarrow> 'a trap_state_scheme" where
  "print_words con sp n 0 s = s"
| "print_words con sp n (Suc k) s =
     (let s = kprintf con '' %08x'' [KNum (get_u32 (tmem s) sp)] s;
          sp = sp + 4;
          s = (if n mod 8 = 0 then kprintf con ''%s'' [KStr [CHR 0x0A]] s else s)
      in print_words con sp (n + 1) k s)"

primrec print_calls :: "'a trap_state_scheme konsole \<Rightarrow> u32 \<Rightarrow> nat \<Rightarrow> 'a trap_state_scheme \<Rightarrow> 'a trap_state_scheme" where
  "print_calls con sp 0 s = s"
| "print_calls con sp (Suc k) s =
     (let addr = get_u32 (tmem s) sp;
          s = (case elf_lookup_symbol addr s of
                 Some name \<Rightarrow> kprintf con (''<0x%08x> %s()'' @ [CHR 0x0A]) [KNum addr, KPtr name] s
               | None \<Rightarrow> s)
      in print_calls con (sp + 4) k s)"

definition print_trap_stacktrace ::
    "'a trap_state_scheme konsole \<Rightarrow> cpu_regs \<Rightarrow> 'a trap_state_scheme \<Rightarrow> 'a trap_state_scheme" where
  "print_trap_stacktrace con cpu s =
     (let s = kprintf con (''%s'' @ [CHR 0x0A]) [KStr ''stacktrace:''] s;
          sp = P2V (reg_esp cpu + 4 * (sizeof_sig_context div 4 - 5));
          s = print_words con sp 1 32 s;
          s = kprintf con ''%s'' [KStr (''Kernel stacktrace:'' @ [CHR 0x0A])] s;
          sp = P2V (reg_esp cpu + 4 * (sizeof_sig_context div 4 - 5))
      in print_calls con sp 256 s)"


section \<open>The table of exceptions\<close>

text \<open>The addresses of the handlers, and the table's entries: a name, a handler, and whether the processor pushes an
  error code.\<close>

datatype trap_fn = Trap_divide_error | Trap_debug | Trap_nmi_interrupt | Trap_breakpoint
  | Trap_overflow | Trap_bound | Trap_invalid_opcode | Trap_no_math_coprocessor
  | Trap_double_fault | Trap_coprocessor_segment_overrun | Trap_invalid_tss | Trap_segment_not_present
  | Trap_stack_segment_fault | Trap_general_protection | Trap_page_fault | Trap_reserved
  | Trap_floating_point_error | Trap_alignment_check | Trap_machine_check | Trap_simd_fault

record trap_t =
  trap_name :: string
  trap_handler :: trap_fn
  trap_errcode :: u8

definition traps_table :: "trap_t list" where
  "traps_table = [
     \<lparr>trap_name = ''Division By Zero'', trap_handler = Trap_divide_error, trap_errcode = 0\<rparr>,
     \<lparr>trap_name = ''Debug'', trap_handler = Trap_debug, trap_errcode = 0\<rparr>,
     \<lparr>trap_name = ''Non Maskable Interrupt'', trap_handler = Trap_nmi_interrupt, trap_errcode = 0\<rparr>,
     \<lparr>trap_name = ''Breakpoint'', trap_handler = Trap_breakpoint, trap_errcode = 0\<rparr>,
     \<lparr>trap_name = ''Into Detected Overflow'', trap_handler = Trap_overflow, trap_errcode = 0\<rparr>,
     \<lparr>trap_name = ''Out of Bounds'', trap_handler = Trap_bound, trap_errcode = 0\<rparr>,
     \<lparr>trap_name = ''Invalid Opcode'', trap_handler = Trap_invalid_opcode, trap_errcode = 0\<rparr>,
     \<lparr>trap_name = ''Device Not Available (No Coprocessor)'', trap_handler = Trap_no_math_coprocessor, trap_errcode = 0\<rparr>,
     \<lparr>trap_name = ''Double Fault'', trap_handler = Trap_double_fault, trap_errcode = 1\<rparr>,
     \<lparr>trap_name = ''Coprocessor Segment Overrun'', trap_handler = Trap_coprocessor_segment_overrun, trap_errcode = 0\<rparr>,
     \<lparr>trap_name = ''Invalid TSS'', trap_handler = Trap_invalid_tss, trap_errcode = 1\<rparr>,
     \<lparr>trap_name = ''Segment Not Present'', trap_handler = Trap_segment_not_present, trap_errcode = 1\<rparr>,
     \<lparr>trap_name = ''Stack-Segment Fault'', trap_handler = Trap_stack_segment_fault, trap_errcode = 1\<rparr>,
     \<lparr>trap_name = ''General Protection Fault'', trap_handler = Trap_general_protection, trap_errcode = 1\<rparr>,
     \<lparr>trap_name = ''Page Fault'', trap_handler = Trap_page_fault, trap_errcode = 1\<rparr>,
     \<lparr>trap_name = ''Intel reserved'', trap_handler = Trap_reserved, trap_errcode = 0\<rparr>,
     \<lparr>trap_name = ''x87 FPU Floating-Point Error'', trap_handler = Trap_floating_point_error, trap_errcode = 0\<rparr>,
     \<lparr>trap_name = ''Alignment Check'', trap_handler = Trap_alignment_check, trap_errcode = 1\<rparr>,
     \<lparr>trap_name = ''Machine Check'', trap_handler = Trap_machine_check, trap_errcode = 0\<rparr>,
     \<lparr>trap_name = ''SIMD Floating-Point Exception'', trap_handler = Trap_simd_fault, trap_errcode = 0\<rparr>] @
     replicate 12 \<lparr>trap_name = ''Intel reserved'', trap_handler = Trap_reserved, trap_errcode = 0\<rparr>"

definition dump_trap_registers ::
    "'a trap_state_scheme konsole \<Rightarrow> cpu_regs \<Rightarrow> nat \<Rightarrow> sig_context_t \<Rightarrow> 'a trap_state_scheme \<Rightarrow>
     (retval_t \<times> 'a trap_state_scheme) option" where
  "dump_trap_registers con cpu trap_num sc s = do {
     require (trap_num < NUM_EXCEPTIONS);
     let e = traps_table ! trap_num;
     let s = (if trap_num = 14 then
         kprintf con ''%s at 0x%08x (%s) with errcode 0x%02x%s''
           [KStr (trap_name e), KNum (reg_cr2 cpu),
            KStr (if sc_err sc AND PAGE_FAULT_WRIT \<noteq> 0 then ''writing'' else ''reading''), KNum (sc_err sc),
            KStr (if sc_err sc AND PAGE_FAULT_USRMOD \<noteq> 0 then [CHR 0x0A] else '' in kernel mode.'' @ [CHR 0x0A])] s
       else
         (let s = klogf_error con (''%s'' @ [CHR 0x0A]) [KStr (trap_name e)] s;
              s = (if trap_errcode e \<noteq> 0
                   then kprintf con '': error code 0x%08x (0b%b)'' [KNum (sc_err sc), KNum (sc_err sc)] s else s)
          in kprintf con ''%s'' [KStr [CHR 0x0A]] s));
     let s = kprintf con
       ('' cs: 0x%04x    eip: 0x%08x    efl: 0x%08x     ss: 0x%08x    esp: 0x%08x'' @ [CHR 0x0A])
       [KNum (sc_cs sc), KNum (sc_eip sc), KNum (sc_eflags sc), KNum (sc_og_ss sc), KNum (sc_og_esp sc)] s;
     let s = kprintf con (''eax: 0x%08x    ebx: 0x%08x    ecx: 0x%08x    edx: 0x%08x'' @ [CHR 0x0A])
       [KNum (sc_eax sc), KNum (sc_ebx sc), KNum (sc_ecx sc), KNum (sc_edx sc)] s;
     let s = kprintf con (''esi: 0x%08x    edi: 0x%08x    esp: 0x%08x    ebp: 0x%08x'' @ [CHR 0x0A])
       [KNum (sc_esi sc), KNum (sc_edi sc), KNum (sc_esp sc), KNum (sc_ebp sc)] s;
     let s = kprintf con ('' ds: 0x%04x     es: 0x%04x     fs: 0x%04x     gs: 0x%04x'' @ [CHR 0x0A])
       [KNum (sc_ds sc), KNum (sc_es sc), KNum (sc_fs sc), KNum (sc_gs sc)] s;
     let s = (if sc_cs sc = of_nat KERNEL_CS then print_trap_stacktrace con cpu s else s);
     if sc_cs sc = of_nat KERNEL_CS then Some (RET_FAIL, print_trap_stacktrace con cpu s)
     else Some (RET_OK, s)
   }"

text \<open>\<open>DUMP_REG_OR_FAIL\<close>, in the function \<open>func\<close>.\<close>

definition dump_reg_or_fail ::
    "'a trap_state_scheme konsole \<Rightarrow> cpu_regs \<Rightarrow> device \<Rightarrow> string \<Rightarrow> nat \<Rightarrow> sig_context_t \<Rightarrow> 'a trap_state_scheme \<Rightarrow>
     'a trap_state_scheme flow option" where
  "dump_reg_or_fail con cpu dev func trap_num sc s = do {
     (r, s) \<leftarrow> dump_trap_registers con cpu trap_num sc s;
     if r = RET_FAIL then kpanic con cpu dev func ''%s'' [KStr ''Failed to dump registers''] s
     else Some (Goes s)
   }"

type_synonym 's trap_routine = "'s konsole \<Rightarrow> cpu_regs \<Rightarrow> device \<Rightarrow> nat \<Rightarrow> sig_context_t \<Rightarrow> 's \<Rightarrow> 's flow option"

definition trap_divide_error :: "('a trap_state_scheme) trap_routine" where
  "trap_divide_error con cpu dev trap_num sc s = dump_reg_or_fail con cpu dev ''trap_divide_error'' trap_num sc s"

definition trap_debug :: "('a trap_state_scheme) trap_routine" where
  "trap_debug con cpu dev trap_num sc s = dump_reg_or_fail con cpu dev ''trap_debug'' trap_num sc s"

definition trap_nmi_interrupt :: "('a trap_state_scheme) trap_routine" where
  "trap_nmi_interrupt con cpu dev trap_num sc s =
     (let error = ucast (inb dev PS2_SYSCTRL_B s) :: u32;
          s = kprintf con (''NMI received: %d'' @ [CHR 0x0A]) [KNum error] s;
          s = (if error = 0x80 then kprintf con (''%s'' @ [CHR 0x0A]) [KStr ''Parity check occurred.''] s
               else kprintf con (''Unknown error: 0x%X'' @ [CHR 0x0A]) [KNum error] s)
      in dump_reg_or_fail con cpu dev ''trap_nmi_interrupt'' trap_num sc s)"

definition trap_breakpoint :: "('a trap_state_scheme) trap_routine" where
  "trap_breakpoint con cpu dev trap_num sc s = dump_reg_or_fail con cpu dev ''trap_breakpoint'' trap_num sc s"

definition trap_overflow :: "('a trap_state_scheme) trap_routine" where
  "trap_overflow con cpu dev trap_num sc s = dump_reg_or_fail con cpu dev ''trap_overflow'' trap_num sc s"

definition trap_bound :: "('a trap_state_scheme) trap_routine" where
  "trap_bound con cpu dev trap_num sc s = dump_reg_or_fail con cpu dev ''trap_bound'' trap_num sc s"

definition trap_invalid_opcode :: "('a trap_state_scheme) trap_routine" where
  "trap_invalid_opcode con cpu dev trap_num sc s = dump_reg_or_fail con cpu dev ''trap_invalid_opcode'' trap_num sc s"

definition trap_no_math_coprocessor :: "('a trap_state_scheme) trap_routine" where
  "trap_no_math_coprocessor con cpu dev trap_num sc s = dump_reg_or_fail con cpu dev ''trap_no_math_coprocessor'' trap_num sc s"

definition trap_double_fault :: "('a trap_state_scheme) trap_routine" where
  "trap_double_fault con cpu dev trap_num sc s = dump_reg_or_fail con cpu dev ''trap_double_fault'' trap_num sc s"

definition trap_coprocessor_segment_overrun :: "('a trap_state_scheme) trap_routine" where
  "trap_coprocessor_segment_overrun con cpu dev trap_num sc s = dump_reg_or_fail con cpu dev ''trap_coprocessor_segment_overrun'' trap_num sc s"

definition trap_invalid_tss :: "('a trap_state_scheme) trap_routine" where
  "trap_invalid_tss con cpu dev trap_num sc s = dump_reg_or_fail con cpu dev ''trap_invalid_tss'' trap_num sc s"

definition trap_segment_not_present :: "('a trap_state_scheme) trap_routine" where
  "trap_segment_not_present con cpu dev trap_num sc s = dump_reg_or_fail con cpu dev ''trap_segment_not_present'' trap_num sc s"

definition trap_stack_segment_fault :: "('a trap_state_scheme) trap_routine" where
  "trap_stack_segment_fault con cpu dev trap_num sc s = dump_reg_or_fail con cpu dev ''trap_stack_segment_fault'' trap_num sc s"

definition trap_general_protection :: "('a trap_state_scheme) trap_routine" where
  "trap_general_protection con cpu dev trap_num sc s = dump_reg_or_fail con cpu dev ''trap_general_protection'' trap_num sc s"

definition trap_page_fault :: "('a trap_state_scheme) trap_routine" where
  "trap_page_fault con cpu dev trap_num sc s = Some (Goes s)"

definition trap_reserved :: "('a trap_state_scheme) trap_routine" where
  "trap_reserved con cpu dev trap_num sc s = dump_reg_or_fail con cpu dev ''trap_reserved'' trap_num sc s"

definition trap_floating_point_error :: "('a trap_state_scheme) trap_routine" where
  "trap_floating_point_error con cpu dev trap_num sc s = dump_reg_or_fail con cpu dev ''trap_floating_point_error'' trap_num sc s"

definition trap_alignment_check :: "('a trap_state_scheme) trap_routine" where
  "trap_alignment_check con cpu dev trap_num sc s = dump_reg_or_fail con cpu dev ''trap_alignment_check'' trap_num sc s"

definition trap_machine_check :: "('a trap_state_scheme) trap_routine" where
  "trap_machine_check con cpu dev trap_num sc s = dump_reg_or_fail con cpu dev ''trap_machine_check'' trap_num sc s"

definition trap_simd_fault :: "('a trap_state_scheme) trap_routine" where
  "trap_simd_fault con cpu dev trap_num sc s = dump_reg_or_fail con cpu dev ''trap_simd_fault'' trap_num sc s"

primrec call_trap :: "trap_fn \<Rightarrow> ('a trap_state_scheme) trap_routine" where
  "call_trap Trap_divide_error = trap_divide_error"
| "call_trap Trap_debug = trap_debug"
| "call_trap Trap_nmi_interrupt = trap_nmi_interrupt"
| "call_trap Trap_breakpoint = trap_breakpoint"
| "call_trap Trap_overflow = trap_overflow"
| "call_trap Trap_bound = trap_bound"
| "call_trap Trap_invalid_opcode = trap_invalid_opcode"
| "call_trap Trap_no_math_coprocessor = trap_no_math_coprocessor"
| "call_trap Trap_double_fault = trap_double_fault"
| "call_trap Trap_coprocessor_segment_overrun = trap_coprocessor_segment_overrun"
| "call_trap Trap_invalid_tss = trap_invalid_tss"
| "call_trap Trap_segment_not_present = trap_segment_not_present"
| "call_trap Trap_stack_segment_fault = trap_stack_segment_fault"
| "call_trap Trap_general_protection = trap_general_protection"
| "call_trap Trap_page_fault = trap_page_fault"
| "call_trap Trap_reserved = trap_reserved"
| "call_trap Trap_floating_point_error = trap_floating_point_error"
| "call_trap Trap_alignment_check = trap_alignment_check"
| "call_trap Trap_machine_check = trap_machine_check"
| "call_trap Trap_simd_fault = trap_simd_fault"

text \<open>\<open>sc.err = -sc.err; while (1);\<close> follows the handler.\<close>

definition trap_handle ::
    "'a trap_state_scheme konsole \<Rightarrow> cpu_regs \<Rightarrow> device \<Rightarrow> nat \<Rightarrow> sig_context_t \<Rightarrow> 'a trap_state_scheme \<Rightarrow>
     'a trap_state_scheme flow option" where
  "trap_handle con cpu dev trap_num sc s = do {
     require (trap_num < NUM_EXCEPTIONS);
     r \<leftarrow> call_trap (trap_handler (traps_table ! trap_num)) con cpu dev trap_num sc s;
     (case r of
        Halts s \<Rightarrow> Some (Halts s)
      | Goes s \<Rightarrow> do { _ \<leftarrow> to_int (- sint (sc_err sc)); Some (Halts s) })
   }"

section \<open>System calls\<close>

definition syscall_exec :: "u32 \<Rightarrow> int \<Rightarrow> int \<Rightarrow> int \<Rightarrow> int \<Rightarrow> int \<Rightarrow> sig_context_t \<Rightarrow> int" where
  "syscall_exec num arg_1 arg_2 arg_3 arg_4 arg_5 sc = 1"

section \<open>What is left enabled\<close>

definition settled :: "device \<Rightarrow> 'a irq_state_scheme \<Rightarrow> bool" where
  "settled dev s \<longleftrightarrow> (\<exists>h w. io s = h @ w \<and> io_ok w \<and> imr_law dev h)"

lemma pic_data_io_ok: "p = PIC_MASTER_DATA \<or> p = PIC_SLAVE_DATA \<Longrightarrow> io_ok [(p, v)]"
  by (auto simp: io_ok_def port_defs)

lemma outb_mask:
  assumes "settled dev s" "p = PIC_MASTER_DATA \<or> p = PIC_SLAVE_DATA"
  shows "settled dev (outb p v s)"
    "q = PIC_MASTER_DATA \<or> q = PIC_SLAVE_DATA \<Longrightarrow> inb dev q (outb p v s) = (if q = p then v else inb dev q s)"
proof -
  obtain h w where w: "io s = h @ w" "io_ok w" "imr_law dev h" using assms(1) by (auto simp: settled_def)
  have "io (outb p v s) = h @ (w @ [(p, v)])" "io_ok (w @ [(p, v)])"
    using w pic_data_io_ok [OF assms(2)] by (simp_all add: outb_def)
  then show "settled dev (outb p v s)" using w(3) unfolding settled_def by blast
  show "inb dev q (outb p v s) = (if q = p then v else inb dev q s)" if q: "q = PIC_MASTER_DATA \<or> q = PIC_SLAVE_DATA"
  proof -
    have "dev (h @ w @ [(p, v)]) q = (if p = q then v else dev (h @ w) q)"
      using w(2,3) pic_data_io_ok [OF assms(2), of v] q unfolding imr_law_def by blast
    then show ?thesis using w(1) by (auto simp: inb_def outb_def)
  qed
qed

lemma masks_after:
  assumes "settled dev s"
  shows "settled dev (irq_disable dev n s)" "settled dev (irq_enable dev n s)"
    "inb dev PIC_MASTER_DATA (irq_disable dev n s) =
       (if n > 7 then inb dev PIC_MASTER_DATA s else inb dev PIC_MASTER_DATA s OR push_bit (nat (n AND 7)) 1)"
    "inb dev PIC_SLAVE_DATA (irq_disable dev n s) =
       (if n > 7 then inb dev PIC_SLAVE_DATA s OR push_bit (nat (n AND 7)) 1 else inb dev PIC_SLAVE_DATA s)"
    "inb dev PIC_MASTER_DATA (irq_enable dev n s) =
       (if n > 7 then inb dev PIC_MASTER_DATA s else inb dev PIC_MASTER_DATA s AND NOT (push_bit (nat (n AND 7)) 1))"
    "inb dev PIC_SLAVE_DATA (irq_enable dev n s) =
       (if n > 7 then inb dev PIC_SLAVE_DATA s AND NOT (push_bit (nat (n AND 7)) 1) else inb dev PIC_SLAVE_DATA s)"
  using assms
  by (simp_all add: irq_disable_def irq_enable_def pic_data_port_def Let_def outb_mask) (simp_all add: port_defs)

lemma settled_cong: "io s = io t \<Longrightarrow> settled dev s = settled dev t" "io s = io t \<Longrightarrow> inb dev p s = inb dev p t"
  by (simp_all add: settled_def inb_def)

lemma or_all_bits: "((((((((v OR 1) OR 2) OR 4) OR 8) OR 16) OR 32) OR 64) OR 128) = (0xFF :: u8)"
proof -
  have "(((((((1 OR 2) OR 4) OR 8) OR 16) OR 32) OR 64) OR 128) = (0xFF :: u8)" by simp
  moreover have "v OR mask 8 = (mask 8 :: u8)" by (rule bit_word_eqI) (auto simp: bit_simps)
  then have "v OR 0xFF = (0xFF :: u8)" by (simp add: mask_eq_exp_minus_1)
  ultimately show ?thesis by (simp only: or.assoc)
qed

lemma kernel_stop_ok:
  assumes "settled dev s"
  shows "\<exists>s'. kernel_stop dev s = Halts s' \<and> int_on s' \<and> is_in_panic s' = is_in_panic s \<and> tmem s' = tmem s \<and>
    inb dev PIC_MASTER_DATA s' = 0xFD \<and> inb dev PIC_SLAVE_DATA s' = 0xFF"
proof -
  let ?s0 = "s\<lparr>int_on := False\<rparr>"
  have s0: "settled dev ?s0" using assms settled_cong(1) [of ?s0 s dev] by simp
  have nums: "nat NUM_IRQS = Suc (Suc (Suc (Suc (Suc (Suc (Suc (Suc (Suc (Suc (Suc (Suc (Suc (Suc (Suc (Suc 0)))))))))))))))"
    by (simp add: NUM_IRQS_def)
  define t where "t = disable_all dev 0 (nat NUM_IRQS) ?s0"
  have t: "settled dev t" "inb dev PIC_MASTER_DATA t = 0xFF" "inb dev PIC_SLAVE_DATA t = 0xFF"
    unfolding t_def nums
    by (simp_all add: masks_after s0 or_all_bits)
  have keep: "is_in_panic (disable_all dev n k u) = is_in_panic u" "tmem (disable_all dev n k u) = tmem u" for n k and u :: "'a trap_state_scheme"
    by (induction k arbitrary: n u) (simp_all add: irq_disable_def outb_def Let_def)
  let ?u = "irq_enable dev KEYBOARD_IRQ t"
  have "inb dev PIC_MASTER_DATA ?u = 0xFD" "inb dev PIC_SLAVE_DATA ?u = 0xFF"
    using t by (simp_all add: masks_after KEYBOARD_IRQ_def)
  moreover have "kernel_stop dev s = Halts (?u\<lparr>int_on := True\<rparr>)" by (simp add: kernel_stop_def Let_def t_def)
  moreover have "is_in_panic ?u = is_in_panic s" "tmem ?u = tmem s"
    using keep [of 0 "nat NUM_IRQS" ?s0] by (simp_all add: t_def irq_enable_def outb_def Let_def)
  ultimately show ?thesis
    using settled_cong(2) [of "?u\<lparr>int_on := True\<rparr>" ?u] by (intro exI [of _ "?u\<lparr>int_on := True\<rparr>"]) simp
qed

section \<open>Panics end\<close>

text \<open>What is asked of the output functions: they leave alone the kernel's memory \<open>K\<close>, the panic flag and the
  controllers.\<close>

definition keeps :: "u32 set \<Rightarrow> 'a trap_state_scheme \<Rightarrow> 'a trap_state_scheme \<Rightarrow> bool" where
  "keeps K s t \<longleftrightarrow> io t = io s \<and> is_in_panic t = is_in_panic s \<and> (\<forall>a \<in> K. tmem t a = tmem s a)"

definition console_ok :: "u32 set \<Rightarrow> ('a trap_state_scheme) konsole \<Rightarrow> bool" where
  "console_ok K con \<longleftrightarrow> (\<forall>f xs s. keeps K s (kprintf con f xs s) \<and> keeps K s (klogf_error con f xs s))"

lemma keeps_refl: "keeps K s s"
  by (simp add: keeps_def)

lemma keeps_trans: "keeps K s t \<Longrightarrow> keeps K t u \<Longrightarrow> keeps K s u"
  by (simp add: keeps_def)

lemma keeps_print:
  assumes "console_ok K con" "keeps K s t"
  shows "keeps K s (kprintf con f xs t)" "keeps K s (klogf_error con f xs t)"
  using assms keeps_trans [of K s t] by (auto simp: console_ok_def)

lemma keeps_print_words: "console_ok K con \<Longrightarrow> keeps K s t \<Longrightarrow> keeps K s (print_words con sp n k t)"
  by (induction k arbitrary: sp n t) (simp_all add: Let_def keeps_print)

lemma keeps_print_calls: "console_ok K con \<Longrightarrow> keeps K s t \<Longrightarrow> keeps K s (print_calls con sp k t)"
  by (induction k arbitrary: sp t) (simp_all add: Let_def keeps_print split: option.split)

lemma keeps_print_trap_stacktrace:
  "console_ok K con \<Longrightarrow> keeps K s t \<Longrightarrow> keeps K s (print_trap_stacktrace con cpu t)"
  by (simp add: print_trap_stacktrace_def Let_def keeps_print keeps_print_words keeps_print_calls)

lemma dump_trap_registers_ok:
  assumes "console_ok K con" "n < 32"
  shows "\<exists>t. dump_trap_registers con cpu n sc s = Some (if sc_cs sc = of_nat KERNEL_CS then RET_FAIL else RET_OK, t) \<and>
    keeps K s t"
  using assms
  by (simp add: dump_trap_registers_def Let_def NUM_EXCEPTIONS_def keeps_print keeps_print_trap_stacktrace keeps_refl)

text \<open>The frames of the stack that the walk reads lie in \<open>K\<close>, and none of the return addresses is the one whose
  predecessor \<open>kitoa\<close> cannot negate.\<close>

definition word_in :: "u32 set \<Rightarrow> u32 \<Rightarrow> bool" where
  "word_in K a \<longleftrightarrow> a \<in> K \<and> a + 1 \<in> K \<and> a + 2 \<in> K \<and> a + 3 \<in> K"

primrec frames_ok :: "u32 set \<Rightarrow> mem \<Rightarrow> nat \<Rightarrow> u32 \<Rightarrow> u32 \<Rightarrow> bool" where
  "frames_ok K m 0 last_bp bp = True"
| "frames_ok K m (Suc n) last_bp bp \<longleftrightarrow> word_in K (bp + 4) \<and>
     (get_u32 m (bp + 4) \<noteq> 0 \<and> bp > last_bp \<longrightarrow> get_u32 m (bp + 4) \<noteq> 0x80000001 \<and> word_in K bp \<and>
        frames_ok K m n bp (get_u32 m bp))"

lemma get_u32_in: "word_in K a \<Longrightarrow> (\<And>x. x \<in> K \<Longrightarrow> m x = m' x) \<Longrightarrow> get_u32 m a = get_u32 m' a"
  by (simp add: word_in_def get_u32_def)

lemma kitoa_hex:
  assumes "INT_MIN < v" "v \<le> INT_MAX"
  shows "\<exists>m'. kitoa m v buf 16 = Some (m', buf) \<and> (\<forall>a. (\<forall>k < 64. a \<noteq> buf + of_nat k) \<longrightarrow> m' a = m a)"
proof -
  have pos: "\<exists>m'. (do { tmp \<leftarrow> kitoa_digits v 16 []; let (m, p) = kitoa_emit m p tmp (length tmp); Some (m(p := 0), buf) }) =
      Some (m', buf) \<and> (\<forall>a. (\<forall>k<32. a \<noteq> p + of_nat k) \<longrightarrow> m' a = m a)"
    if "0 < v" "v \<le> INT_MAX" for v m p
    using kitoa_writes [OF that, of 16 m p] by fastforce
  have far: "\<forall>k<32. a \<noteq> buf + 1 + of_nat k" "a \<noteq> buf" "a \<noteq> buf + 1" "\<forall>k<32. a \<noteq> buf + of_nat k"
    if "\<forall>k < 64. a \<noteq> buf + of_nat k" for a
  proof -
    show "\<forall>k<32. a \<noteq> buf + 1 + of_nat k"
    proof (intro allI impI)
      fix k :: nat assume "k < 32"
      then show "a \<noteq> buf + 1 + of_nat k" using that [rule_format, of "Suc k"] by (simp add: ac_simps)
    qed
  qed (use that [rule_format, of 0] that [rule_format, of 1] that in auto)
  consider "v < 0" | "v = 0" | "0 < v" by linarith
  then show ?thesis
  proof cases
    case 1
    have n: "to_int (- v) = Some (- v)" using 1 assms by (simp add: to_int_def int_ok_def INT_MIN_def INT_MAX_def)
    have "0 < - v" "- v \<le> INT_MAX" using 1 assms by (simp_all add: INT_MIN_def INT_MAX_def)
    from pos [OF this, of "m(buf := 45)" "buf + 1"] obtain m' where
      "(do { tmp \<leftarrow> kitoa_digits (- v) 16 []; let (m, p) = kitoa_emit (m(buf := 45)) (buf + 1) tmp (length tmp);
          Some (m(p := 0), buf) }) = Some (m', buf)"
      "\<And>a. (\<forall>k<32. a \<noteq> buf + 1 + of_nat k) \<Longrightarrow> m' a = (m(buf := 45)) a"
      by blast
    then show ?thesis using 1 n far by (intro exI [of _ m']) (simp add: kitoa_def)
  next
    case 2
    then show ?thesis using far by (simp add: kitoa_def)
  next
    case 3
    then show ?thesis using pos [OF 3 assms(2), of m buf] far by (auto simp: kitoa_def)
  qed
qed

lemma sint_pred_min: "ip \<noteq> 0x80000001 \<Longrightarrow> INT_MIN < sint (ip - 1 :: u32)"
proof -
  assume ip: "ip \<noteq> 0x80000001"
  have "ip - 1 \<noteq> 0x80000000"
  proof
    assume "ip - 1 = 0x80000000"
    then have "ip = 0x80000000 + 1" by (simp only: diff_eq_eq)
    then show False using ip by simp
  qed
  moreover have "sint (0x80000000 :: u32) = INT_MIN" by (simp add: INT_MIN_def)
  ultimately have "sint (ip - 1) \<noteq> INT_MIN" using sint_inj [of "ip - 1" "0x80000000"] by auto
  moreover have "INT_MIN \<le> sint (ip - 1)" using sint_ge [of "ip - 1"] by (simp add: INT_MIN_def)
  ultimately show ?thesis by linarith
qed

lemma dump_frames_ok:
  assumes con: "console_ok K con" and buf: "\<forall>k < 64. buf + of_nat k \<notin> K"
    and "frames_ok K m n last_bp bp" "\<And>a. a \<in> K \<Longrightarrow> tmem s a = m a"
  shows "\<exists>t. dump_frames con buf n last_bp bp (get_u32 (tmem s) (bp + 4)) s = Some t \<and> keeps K s t"
  using assms(3,4)
proof (induction n arbitrary: last_bp bp s)
  case (Suc n)
  let ?ip = "get_u32 (tmem s) (bp + 4)"
  have ip: "?ip = get_u32 m (bp + 4)" by (rule get_u32_in [of K]) (use Suc.prems in auto)
  show ?case
  proof (cases "?ip \<noteq> 0 \<and> bp > last_bp")
    case False
    then show ?thesis by (auto simp: keeps_refl)
  next
    case True
    have "?ip \<noteq> 0x80000001" using Suc.prems(1) True ip by simp
    then have "INT_MIN < sint (?ip - 1)" by (rule sint_pred_min)
    moreover have "sint (?ip - 1) \<le> INT_MAX" using sint_lt [of "?ip - 1"] by (simp add: INT_MAX_def)
    ultimately obtain m1 where m1: "kitoa (tmem s) (sint (?ip - 1)) buf 16 = Some (m1, buf)"
      "\<And>a. (\<forall>k < 64. a \<noteq> buf + of_nat k) \<Longrightarrow> m1 a = tmem s a"
      using kitoa_hex by blast
    let ?s1 = "kprintf con (CHR 0x09 # ''0x%X'' @ [CHR 0x0A]) [KPtr buf] (s\<lparr>tmem := m1\<rparr>)"
    have "m1 a = tmem s a" if "a \<in> K" for a by (rule m1(2)) (use buf that in auto)
    then have "keeps K s (s\<lparr>tmem := m1\<rparr>)" by (simp add: keeps_def)
    then have k1: "keeps K s ?s1" by (rule keeps_print(1) [OF con])
    then have mem: "tmem ?s1 a = m a" if "a \<in> K" for a using that Suc.prems(2) by (simp add: keeps_def)
    have bp: "get_u32 (tmem ?s1) bp = get_u32 m bp"
      by (rule get_u32_in [of K]) (use Suc.prems(1) True ip mem in auto)
    have next_ok: "frames_ok K m n bp (get_u32 (tmem ?s1) bp)" using Suc.prems(1) True ip bp by simp
    obtain t where t: "dump_frames con buf n bp (get_u32 (tmem ?s1) bp)
        (get_u32 (tmem ?s1) (get_u32 (tmem ?s1) bp + 4)) ?s1 = Some t" "keeps K ?s1 t"
      using Suc.IH [OF next_ok mem] by blast
    have "bp \<noteq> 0" using True by auto
    then have "dump_frames con buf (Suc n) last_bp bp ?ip s = Some t"
      using True m1(1) t(1) by (simp add: get_address_def Let_def)
    then show ?thesis using keeps_trans [OF k1 t(2)] by blast
  qed
qed (simp add: keeps_refl)

lemma kpanic_ok:
  assumes con: "console_ok K con" and buf: "\<forall>k < 64. buffer_s cpu + of_nat k \<notin> K"
    and frames: "frames_ok K m MAX_STACK_FRAMES 0 (reg_ebp cpu)" and mem: "\<And>a. a \<in> K \<Longrightarrow> tmem s a = m a"
    and set: "settled dev s"
  shows "\<exists>s'. kpanic con cpu dev func fmt xs s = Some (Halts s') \<and> is_in_panic s' \<and> int_on s' \<and>
    inb dev PIC_MASTER_DATA s' = 0xFD \<and> inb dev PIC_SLAVE_DATA s' = 0xFF"
proof -
  let ?s1 = "kprintf con fmt xs (kprintf con (''[PANIC] Exception in %s'' @ [CHR 0x0A]) [KStr func] s)"
  have k1: "keeps K s ?s1" by (intro keeps_print [OF con] keeps_refl)
  have stops: "\<exists>s'. kernel_stop dev t = Halts s' \<and> is_in_panic s' \<and> int_on s' \<and>
      inb dev PIC_MASTER_DATA s' = 0xFD \<and> inb dev PIC_SLAVE_DATA s' = 0xFF"
    if "io t = io s" "is_in_panic t" for t :: "'a trap_state_scheme"
    using kernel_stop_ok [of dev t] set that settled_cong(1) [of s t dev] by auto
  show ?thesis
  proof (cases "is_in_panic ?s1")
    case True
    then show ?thesis using stops [of ?s1] k1 by (simp add: kpanic_def kpanic_stop_def Let_def keeps_def)
  next
    case False
    let ?s2 = "kprintf con (''%s'' @ [CHR 0x0A]) [KStr ''Stack trace:''] (?s1\<lparr>is_in_panic := True\<rparr>)"
    have k2: "keeps K (?s1\<lparr>is_in_panic := True\<rparr>) ?s2" by (intro keeps_print [OF con] keeps_refl)
    have m2: "tmem ?s2 a = m a" if "a \<in> K" for a using that k1 k2 mem by (simp add: keeps_def)
    obtain t where t: "dump_frames con (buffer_s cpu) MAX_STACK_FRAMES 0 (reg_ebp cpu)
        (get_u32 (tmem ?s2) (reg_ebp cpu + 4)) ?s2 = Some t" "keeps K ?s2 t"
      using dump_frames_ok [OF con buf frames m2] by blast
    let ?t = "kprintf con (''%s'' @ [CHR 0x0A]) [KStr ''Stack trace end''] t"
    have "keeps K ?s2 ?t" by (rule keeps_print(1) [OF con t(2)])
    then have "io ?t = io s" "is_in_panic ?t" using k1 k2 by (simp_all add: keeps_def)
    moreover have "kpanic con cpu dev func fmt xs s = Some (kernel_stop dev ?t)"
      using False t(1) by (simp add: kpanic_def kpanic_stop_def Let_def dump_stack_trace_def get_address_def)
    ultimately show ?thesis using stops [of ?t] by simp
  qed
qed

text \<open>\<open>kernel_stop\<close> leaves exactly one line enabled, the keyboard's, with interrupts on: whatever the controllers
  masked before, the mask of the first is then \<open>0xFD\<close> and that of the second \<open>0xFF\<close>.\<close>

theorem kernel_stop_masks:
  assumes "imr_law dev (io s)"
  shows "\<exists>s'. kernel_stop dev s = Halts s' \<and> int_on s' \<and> inb dev PIC_MASTER_DATA s' = 0xFD \<and>
    inb dev PIC_SLAVE_DATA s' = 0xFF"
proof -
  have "settled dev s" unfolding settled_def using assms by (intro exI [of _ "io s"] exI [of _ "[]"]) simp
  from kernel_stop_ok [OF this] show ?thesis by blast
qed

section \<open>Exceptions\<close>

lemma page_fault_entry: "n < 32 \<Longrightarrow> trap_handler (traps_table ! n) = Trap_page_fault \<longleftrightarrow> n = 14"
proof -
  assume n: "n < 32"
  have "filter (\<lambda>i. trap_handler (traps_table ! i) = Trap_page_fault) [0..<32] = [14]" by code_simp
  then have "{i \<in> set [0..<32]. trap_handler (traps_table ! i) = Trap_page_fault} = {14}"
    using set_filter [of "\<lambda>i. trap_handler (traps_table ! i) = Trap_page_fault" "[0..<32]"] by simp
  then show ?thesis using n by auto
qed

lemma dump_reg_or_fail_ok:
  assumes con: "console_ok K con" and buf: "\<forall>k < 64. buffer_s cpu + of_nat k \<notin> K"
    and frames: "frames_ok K m MAX_STACK_FRAMES 0 (reg_ebp cpu)" and mem: "\<And>a. a \<in> K \<Longrightarrow> tmem s a = m a"
    and set: "settled dev s" and n: "n < 32"
  shows "if sc_cs sc = of_nat KERNEL_CS
    then \<exists>s'. dump_reg_or_fail con cpu dev func n sc s = Some (Halts s') \<and> is_in_panic s' \<and> int_on s' \<and>
      inb dev PIC_MASTER_DATA s' = 0xFD \<and> inb dev PIC_SLAVE_DATA s' = 0xFF
    else \<exists>s'. dump_reg_or_fail con cpu dev func n sc s = Some (Goes s')"
proof -
  obtain t where t: "dump_trap_registers con cpu n sc s =
      Some (if sc_cs sc = of_nat KERNEL_CS then RET_FAIL else RET_OK, t)" "keeps K s t"
    using dump_trap_registers_ok [OF con n] by blast
  have mt: "tmem t a = m a" if "a \<in> K" for a using t(2) mem that by (simp add: keeps_def)
  have "settled dev t" using t(2) set settled_cong(1) [of s t dev] by (simp add: keeps_def)
  from kpanic_ok [OF con buf frames mt this] t(1) show ?thesis by (simp add: dump_reg_or_fail_def)
qed

lemma call_trap_ok:
  assumes con: "console_ok K con" and buf: "\<forall>k < 64. buffer_s cpu + of_nat k \<notin> K"
    and frames: "frames_ok K (tmem s) MAX_STACK_FRAMES 0 (reg_ebp cpu)"
    and set: "settled dev s" and n: "n < 32" and f: "f \<noteq> Trap_page_fault"
  shows "if sc_cs sc = of_nat KERNEL_CS
    then \<exists>s'. call_trap f con cpu dev n sc s = Some (Halts s') \<and> is_in_panic s' \<and> int_on s' \<and>
      inb dev PIC_MASTER_DATA s' = 0xFD \<and> inb dev PIC_SLAVE_DATA s' = 0xFF
    else \<exists>s'. call_trap f con cpu dev n sc s = Some (Goes s')"
proof (cases "f = Trap_nmi_interrupt")
  case True
  let ?e = "ucast (inb dev PS2_SYSCTRL_B s) :: u32"
  let ?s1 = "kprintf con (''NMI received: %d'' @ [CHR 0x0A]) [KNum ?e] s"
  let ?s2 = "if ?e = 0x80 then kprintf con (''%s'' @ [CHR 0x0A]) [KStr ''Parity check occurred.''] ?s1
    else kprintf con (''Unknown error: 0x%X'' @ [CHR 0x0A]) [KNum ?e] ?s1"
  have k: "keeps K s ?s2" by (simp add: keeps_print [OF con] keeps_refl)
  have "settled dev ?s2" using k set settled_cong(1) [of s ?s2 dev] by (simp only: keeps_def)
  moreover have "tmem ?s2 a = tmem s a" if "a \<in> K" for a using k that unfolding keeps_def by blast
  ultimately have "if sc_cs sc = of_nat KERNEL_CS
    then \<exists>s'. dump_reg_or_fail con cpu dev ''trap_nmi_interrupt'' n sc ?s2 = Some (Halts s') \<and> is_in_panic s' \<and> int_on s' \<and>
      inb dev PIC_MASTER_DATA s' = 0xFD \<and> inb dev PIC_SLAVE_DATA s' = 0xFF
    else \<exists>s'. dump_reg_or_fail con cpu dev ''trap_nmi_interrupt'' n sc ?s2 = Some (Goes s')"
    by (intro dump_reg_or_fail_ok [OF con buf frames _ _ n])
  then show ?thesis unfolding True call_trap.simps trap_nmi_interrupt_def Let_def .
next
  case False
  from dump_reg_or_fail_ok [OF con buf frames refl set n, of sc] f False show ?thesis
    by (cases f) (simp_all add: trap_divide_error_def trap_debug_def trap_breakpoint_def trap_overflow_def trap_bound_def
        trap_invalid_opcode_def trap_no_math_coprocessor_def trap_double_fault_def trap_coprocessor_segment_overrun_def
        trap_invalid_tss_def trap_segment_not_present_def trap_stack_segment_fault_def trap_general_protection_def
        trap_reserved_def trap_floating_point_error_def trap_alignment_check_def trap_machine_check_def
        trap_simd_fault_def)
qed

text \<open>C37: no exception is ever returned from. One in the kernel ends in a panic, with only the keyboard's interrupt
  left on, after the registers and the stack have been reported; for a page fault, whose handler is empty, nothing
  at all is reported, and the state stays as it is while the processor spins.\<close>

theorem exceptions_stop:
  assumes "console_ok K con" "\<forall>k < 64. buffer_s cpu + of_nat k \<notin> K"
    and "frames_ok K (tmem s) MAX_STACK_FRAMES 0 (reg_ebp cpu)" "imr_law dev (io s)"
    and "n < 32" "sint (sc_err sc) \<noteq> INT_MIN"
  shows "\<exists>s'. trap_handle con cpu dev n sc s = Some (Halts s') \<and> (n = 14 \<longrightarrow> s' = s) \<and>
    (n \<noteq> 14 \<and> sc_cs sc = of_nat KERNEL_CS \<longrightarrow> is_in_panic s' \<and> int_on s' \<and>
       inb dev PIC_MASTER_DATA s' = 0xFD \<and> inb dev PIC_SLAVE_DATA s' = 0xFF)"
proof -
  have err: "\<exists>i. to_int (- sint (sc_err sc)) = Some i"
    using assms(6) sint_ge [of "sc_err sc"] sint_lt [of "sc_err sc"]
    by (simp add: to_int_def int_ok_def INT_MIN_def INT_MAX_def)
  show ?thesis
  proof (cases "n = 14")
    case True
    then show ?thesis
      using err assms(5) page_fault_entry [OF assms(5)] by (auto simp: trap_handle_def NUM_EXCEPTIONS_def trap_page_fault_def)
  next
    case False
    have set: "settled dev s" unfolding settled_def using assms(4) by (intro exI [of _ "io s"] exI [of _ "[]"]) simp
    have f: "trap_handler (traps_table ! n) \<noteq> Trap_page_fault" using page_fault_entry [OF assms(5)] False by simp
    from call_trap_ok [OF assms(1-3) set assms(5) f, of sc] show ?thesis
      using err assms(5) False by (auto simp: trap_handle_def NUM_EXCEPTIONS_def split: if_splits)
  qed
qed

section \<open>The symbol table\<close>

definition symbols :: "mem \<Rightarrow> u32 \<Rightarrow> nat \<Rightarrow> elf32_sym list" where
  "symbols m tab n = map (\<lambda>k. read_elf32_sym m (tab + 16 * of_nat k)) [0..<n]"

definition covers :: "u32 \<Rightarrow> elf32_sym \<Rightarrow> bool" where
  "covers addr e \<longleftrightarrow> ELF32_ST_TYPE (st_info e) = STT_FUNC \<and> st_value e \<le> addr \<and> addr < st_value e + st_size e"

lemma symbols_Suc: "symbols m tab (Suc n) = read_elf32_sym m tab # symbols m (tab + 16) n"
  by (simp add: symbols_def upt_conv_Cons map_Suc_upt [symmetric] algebra_simps del: upt_Suc)

lemma lookup_loop_find:
  "lookup_loop m names addr tab n = map_option (\<lambda>e. names + st_name e) (find (covers addr) (symbols m tab n))"
proof (induction n arbitrary: tab)
  case (Suc n)
  then show ?case by (auto simp: symbols_Suc Let_def covers_def sizeof_elf32_sym_def)
qed (simp add: symbols_def)

text \<open>\<open>elf_lookup_symbol\<close> finds what a search of the symbol table is to find: the name of its first function whose
  range contains the address, and nothing when there is none.\<close>

theorem elf_lookup_symbol_first:
  "elf_lookup_symbol addr s =
    (let symh = read_elf32_shdr (tmem s) (P2V (symtab s));
         names = P2V (sh_addr (read_elf32_shdr (tmem s) (P2V (strtab s))))
     in map_option (\<lambda>e. names + st_name e)
          (find (covers addr) (symbols (tmem s) (P2V (sh_addr symh)) (unat (sh_size symh) div 16))))"
  by (simp add: elf_lookup_symbol_def Let_def lookup_loop_find sizeof_elf32_sym_def unat_div_distrib)

section \<open>Examples\<close>

text \<open>A stack of one frame at \<open>0x2000\<close>, which was called from \<open>0xC0000005\<close>.\<close>

definition example_stack :: mem where
  "example_stack = (\<lambda>_. 0)(0x2004 := 5, 0x2007 := 0xC0)"

definition example_frames :: "u32 set" where
  "example_frames = {4, 5, 6, 7, 0x2000, 0x2001, 0x2002, 0x2003, 0x2004, 0x2005, 0x2006, 0x2007}"

definition trap_example :: trap_state where
  "trap_example = irq_state.extend no_irqs (trap_state.fields example_stack True False 0 0)"

definition silent :: "trap_state konsole" where
  "silent = \<lparr>kprintf = (\<lambda>_ _ s. s), klogf_error = (\<lambda>_ _ s. s)\<rparr>"

definition example_cpu :: cpu_regs where
  "example_cpu = \<lparr>reg_cr2 = 0, reg_esp = 0x1800, reg_ebp = 0x2000, buffer_s = 0x1000\<rparr>"

definition example_context :: sig_context_t where
  "example_context = \<lparr>sc_gs = 0, sc_fs = 0, sc_es = 0x10, sc_ds = 0x10, sc_edi = 0, sc_esi = 0, sc_ebp = 0x2000,
     sc_esp = 0x1800, sc_ebx = 0, sc_edx = 0, sc_ecx = 0, sc_eax = 0, sc_err = 0, sc_eip = 0xC0000000, sc_cs = 8,
     sc_eflags = 2, sc_og_esp = 0, sc_og_ss = 0\<rparr>"

theorem kernel_stop_masks_witness:
  "\<exists>s'. kernel_stop last_write trap_example = Halts s' \<and> int_on s' \<and> inb last_write PIC_MASTER_DATA s' = 0xFD \<and>
    inb last_write PIC_SLAVE_DATA s' = 0xFF"
  by (rule kernel_stop_masks) (simp add: imr_law_def last_write_def)

lemma example_frames_ok: "frames_ok example_frames example_stack MAX_STACK_FRAMES 0 0x2000"
proof -
  have n: "MAX_STACK_FRAMES = Suc (Suc 23)" by (simp add: MAX_STACK_FRAMES_def)
  show ?thesis unfolding n frames_ok.simps
    by (simp add: word_in_def example_frames_def example_stack_def get_u32_def)
qed

theorem exceptions_stop_witness:
  "(\<exists>s'. trap_handle silent example_cpu last_write 13 example_context trap_example = Some (Halts s') \<and> is_in_panic s' \<and>
      inb last_write PIC_MASTER_DATA s' = 0xFD) \<and>
   trap_handle silent example_cpu last_write 14 example_context trap_example = Some (Halts trap_example)"
proof -
  have con: "console_ok example_frames silent" by (simp add: console_ok_def silent_def keeps_refl)
  have buf: "\<forall>k < 64. buffer_s example_cpu + of_nat k \<notin> example_frames"
  proof (intro allI impI)
    fix k :: nat assume k: "k < 64"
    then have u: "unat (0x1000 + of_nat k :: u32) = 0x1000 + k"
      by (simp add: unat_word_ariths unat_of_nat_u32)
    have "a \<noteq> 0x1000 + of_nat k" if "a \<in> example_frames" for a
    proof -
      have "unat a < 0x1000 \<or> 0x1040 \<le> unat a" using that by (auto simp: example_frames_def)
      then show ?thesis using u k by auto
    qed
    then show "buffer_s example_cpu + of_nat k \<notin> example_frames" by (auto simp: example_cpu_def)
  qed
  have frames: "frames_ok example_frames (tmem trap_example) MAX_STACK_FRAMES 0 (reg_ebp example_cpu)"
    using example_frames_ok by (simp add: trap_example_def example_cpu_def irq_state.extend_def trap_state.fields_def)
  have law: "imr_law last_write (io trap_example)" by (simp add: imr_law_def last_write_def)
  have err: "sint (sc_err example_context) \<noteq> INT_MIN" by (simp add: example_context_def INT_MIN_def)
  show ?thesis
    using exceptions_stop [OF con buf frames law _ err, of 13] exceptions_stop [OF con buf frames law _ err, of 14]
    by (auto simp: example_context_def KERNEL_CS_def)
qed

end
