(* ===== verification/Kmain.thy ===== *)
theory Kmain
  imports Layout Vga Signal Descr
begin

text \<open>
  The start of the kernel: \<open>src/kernel/src/kmain.c\<close>, \<open>bss.c\<close> of \<open>src/kernel/src/mem\<close> and \<open>devices_init\<close> of
  \<open>src/drivers/src/dev/device.c\<close>. Here the components work on one state: memory and its layout, the interrupt gates,
  the device tables, and the chain of the interrupt, timer, terminal, process, console, keyboard and VGA states.
  Memory is kept once; the drivers see it as their \<open>vmem\<close>. The early console (\<open>klog_info\<close> and
  \<open>vga_global_console_init\<close>) is not in the tree: it writes to memory by functions that are fields of \<open>kenv\<close>. So are
  the addresses of the entry points of \<open>idt.S\<close> and \<open>irq.S\<close>, the size of \<open>proc_t\<close>, and the devices. A call that
  does not return stops the start there.
\<close>

section \<open>State\<close>

type_synonym ksys = "buddy_state vga_state"

record kstate =
  k_lay :: layout_state
  k_sys :: ksys
  k_idt :: "nat \<Rightarrow> gate_desc"
  char_devices_table :: "nat \<Rightarrow> u32 option"
  block_devices_table :: "nat \<Rightarrow> u32 option"
  k_interrupts_on :: bool

record kenv =
  ke_console_init :: "mem \<Rightarrow> mem"
  ke_klog_info :: "string \<Rightarrow> mem \<Rightarrow> mem"
  ke_exception :: "nat \<Rightarrow> u32"
  ke_irq :: "nat \<Rightarrow> u32"
  ke_irq_unknown :: u32
  ke_syscall :: u32
  ke_sizeof_proc :: u32
  ke_tty :: "(buddy_state, ksys) tty_env"
  ke_pic :: device
  ke_ps2 :: ps2_dev
  ke_vga :: vga_dev

section \<open>Before \<open>kmain\<close>\<close>

text \<open>The ends of the sections are addresses that the linker sets.\<close>

definition KERNEL_BSS_SIZE :: "u32 \<Rightarrow> u32 \<Rightarrow> u32" where
  "KERNEL_BSS_SIZE data_end image_end = image_end - data_end"

definition bss_init :: "u32 \<Rightarrow> u32 \<Rightarrow> mem \<Rightarrow> mem" where
  "bss_init data_end image_end m = fst (kmemset m data_end 0 (KERNEL_BSS_SIZE data_end image_end))"

section \<open>Device tables\<close>

definition devices_init :: "kstate \<Rightarrow> kstate" where
  "devices_init k = k\<lparr>char_devices_table := (\<lambda>_. None), block_devices_table := (\<lambda>_. None)\<rparr>"

section \<open>The calls of \<open>kmain\<close>\<close>

text \<open>An operation of the drivers, on the memory as it is.\<close>

definition on_sys :: "(ksys \<Rightarrow> ksys option) \<Rightarrow> kstate \<Rightarrow> kstate option" where
  "on_sys f k = do {
     s \<leftarrow> f ((k_sys k)\<lparr>vmem := bmem (k_lay k)\<rparr>);
     Some (k\<lparr>k_sys := s, k_lay := (k_lay k)\<lparr>bmem := vmem s\<rparr>\<rparr>)
   }"

definition on_memory :: "(mem \<Rightarrow> mem) \<Rightarrow> kstate \<Rightarrow> kstate option" where
  "on_memory f k = Some (k\<lparr>k_lay := (k_lay k)\<lparr>bmem := f (bmem (k_lay k))\<rparr>\<rparr>)"

definition klog_info :: "kenv \<Rightarrow> string \<Rightarrow> kstate \<Rightarrow> kstate option" where
  "klog_info e msg = on_memory (ke_klog_info e msg)"

definition run_multiboot_init :: "u32 \<Rightarrow> u32 \<Rightarrow> kstate \<Rightarrow> kstate option" where
  "run_multiboot_init magic mbi k = do {
     (l, v) \<leftarrow> multiboot_init magic mbi (k_lay k);
     Some (k\<lparr>k_lay := l, k_sys := (k_sys k)\<lparr>video := v\<rparr>\<rparr>)
   }"

definition run_idt_init :: "kenv \<Rightarrow> kstate \<Rightarrow> kstate option" where
  "run_idt_init e k = do {
     idt \<leftarrow> idt_init (ke_exception e) (ke_irq e) (ke_irq_unknown e) (ke_syscall e);
     Some (k\<lparr>k_idt := idt\<rparr>)
   }"

text \<open>\<open>mem_init\<close> hands the other components what it has set up: the heap, the place of the scrollback buffer, the
  number of entries of the process table. The permanent directory is loaded in it, so that from then on an
  address of the kernel's half means the physical one below it.\<close>

definition run_mem_init :: "kenv \<Rightarrow> kstate \<Rightarrow> kstate option" where
  "run_mem_init e k = do {
     (l, h) \<leftarrow> mem_init (ke_sizeof_proc e) (video (k_sys k)) (k_lay k) (heap (chars (k_sys k)));
     let s = k_sys k;
     let s = s\<lparr>chars := (chars s)\<lparr>heap := h\<rparr>\<rparr>;
     let s = s\<lparr>scrollback_buffer := scrollback_at l\<rparr>;
     let s = s\<lparr>ks := (ks s)\<lparr>proc_count := unat (proc_list_size l div ke_sizeof_proc e), kheap := h\<rparr>\<rparr>;
     Some (k\<lparr>k_lay := l\<lparr>bmem := (\<lambda>a. bmem l (V2P a))\<rparr>, k_sys := s\<rparr>)
   }"

text \<open>The operations behind the pointers of \<open>video\<close>: all null unless \<open>vga_init\<close> has set them.\<close>

definition null_ops :: "'s video_ops" where
  "null_ops = \<lparr>v_put_char = (\<lambda>_ _ _. None), v_insert_char = (\<lambda>_ _. None), v_delete_char = (\<lambda>_ _. None),
     v_update_cursor_pos = (\<lambda>_ _. None), v_show_cursor = (\<lambda>_ _ _. None), v_get_cursor_pos = (\<lambda>_ _. None),
     v_write_screen = (\<lambda>_ _ _ _ _. None), v_clear_screen = (\<lambda>_ _. None), v_scroll_screen = (\<lambda>_ _ _ _. None),
     v_restore_screen = (\<lambda>_ _. None), v_screen_on = (\<lambda>_ _. None), v_buf_scroll = (\<lambda>_ _ _. None),
     v_cursor_blink = (\<lambda>_ _. None)\<rparr>"

definition run_ps2_init :: "kenv \<Rightarrow> ksys \<Rightarrow> ksys option" where
  "run_ps2_init e s =
     ps2_init (ke_tty e) (if video_using_vga s then vga_ops (ke_vga e) else null_ops) (ke_ps2 e) (ke_pic e) s"

definition run_proc_init :: "ksys \<Rightarrow> ksys option" where
  "run_proc_init s = do { p \<leftarrow> proc_init (ks s); Some (s\<lparr>ks := p\<rparr>) }"

definition int_enable :: "kstate \<Rightarrow> kstate" where
  "int_enable k = k\<lparr>k_interrupts_on := True\<rparr>"

section \<open>\<open>kmain\<close>\<close>

datatype kcall = Sysconsole_init | Vga_global_console_init | Multiboot_init | Pic_init | Irq_init | Idt_init |
  Devices_init | Tty_init | Mem_init | Video_init | Timer_init | Ps2_init | Proc_init | Int_enable | Klog_info string

fun run_call :: "kenv \<Rightarrow> u32 \<Rightarrow> u32 \<Rightarrow> kcall \<Rightarrow> kstate \<Rightarrow> kstate option" where
  "run_call e magic mbi Sysconsole_init = on_sys (\<lambda>s. Some (sysconsole_init s))"
| "run_call e magic mbi Vga_global_console_init = on_memory (ke_console_init e)"
| "run_call e magic mbi Multiboot_init = run_multiboot_init magic mbi"
| "run_call e magic mbi Pic_init = on_sys (\<lambda>s. Some (pic_init s))"
| "run_call e magic mbi Irq_init = on_sys (\<lambda>s. Some (irq_init s))"
| "run_call e magic mbi Idt_init = run_idt_init e"
| "run_call e magic mbi Devices_init = (\<lambda>k. Some (devices_init k))"
| "run_call e magic mbi Tty_init = on_sys (\<lambda>s. Some (tty_init s))"
| "run_call e magic mbi Mem_init = run_mem_init e"
| "run_call e magic mbi Video_init = on_sys video_init"
| "run_call e magic mbi Timer_init = on_sys (timer_init (ke_pic e))"
| "run_call e magic mbi Ps2_init = on_sys (run_ps2_init e)"
| "run_call e magic mbi Proc_init = on_sys run_proc_init"
| "run_call e magic mbi Int_enable = (\<lambda>k. Some (int_enable k))"
| "run_call e magic mbi (Klog_info msg) = klog_info e msg"

text \<open>The call in which the start stops, or the state in which all have returned.\<close>

primrec run_calls :: "kenv \<Rightarrow> u32 \<Rightarrow> u32 \<Rightarrow> kcall list \<Rightarrow> kstate \<Rightarrow> kcall + kstate" where
  "run_calls e magic mbi [] k = Inr k"
| "run_calls e magic mbi (c # cs) k = (case run_call e magic mbi c k of
       None \<Rightarrow> Inl c
     | Some k \<Rightarrow> run_calls e magic mbi cs k)"

text \<open>The calls in their order; \<open>Inr\<close> is the state in which \<open>kmain\<close> enters \<open>cpu_idle\<close>, which halts for ever.\<close>

definition kmain_calls :: "kcall list" where
  "kmain_calls =
    [Sysconsole_init,
     Vga_global_console_init,
     Multiboot_init, Klog_info ''Multiboot data processed (if extant)'',
     Pic_init, Klog_info ''PIC remapped'',
     Irq_init, Klog_info ''IRQ table allocated'',
     Idt_init, Klog_info ''IDT initialized'',
     Devices_init, Klog_info ''Devices table allocated'',
     Tty_init, Klog_info ''TTY table initialized'',
     Mem_init, Klog_info ''Permanent page tables installed'',
     Video_init, Klog_info ''Video initialized'',
     Timer_init, Klog_info ''Timer initialized'',
     Ps2_init, Klog_info ''PS/2 drivers initialized'',
     Proc_init, Klog_info ''Process table initialized'',
     Int_enable, Klog_info ''Interrupts enabled'']"

definition kmain :: "kenv \<Rightarrow> u32 \<Rightarrow> u32 \<Rightarrow> u32 \<Rightarrow> kstate \<Rightarrow> kcall + kstate" where
  "kmain e magic mbi last_addr k =
     run_calls e magic mbi kmain_calls
       (k\<lparr>k_lay := (k_lay k)\<lparr>real_last_addr := last_addr - KERNEL_PAGE_OFFSET\<rparr>\<rparr>)"


section \<open>The statics before the start\<close>

text \<open>What the statics hold when \<open>kmain\<close> is entered, after \<open>bss_init\<close>: zero, but for the initialised objects of the
  timer.\<close>

definition statics_zero :: "kstate \<Rightarrow> bool" where
  "statics_zero k \<longleftrightarrow> bios_map (k_lay k) = replicate NUM_BIOS_MMAP_ENTRIES no_region \<and> current_console (k_sys k) = 0 \<and>
     bh_table (k_sys k) = None \<and> timer_bh (k_sys k) \<noteq> tt_bh (k_sys k) \<and>
     interrupt_bh.bh_next (bhs (k_sys k) (timer_bh (k_sys k))) = None \<and>
     interrupt_bh.bh_next (bhs (k_sys k) (tt_bh (k_sys k))) = None \<and>
     irq_next (interrupts (k_sys k) (timer_irq_config (k_sys k))) = None \<and>
     proc_free_list_size (ks (k_sys k)) = 0 \<and>
     free_head (heap (chars (k_sys k))) = None \<and> num_free_pages (heap (chars (k_sys k))) = 0"

section \<open>Calls in sequence\<close>

lemma run_calls_append:
  "run_calls e magic mbi (cs @ ds) k = (case run_calls e magic mbi cs k of
     Inl c \<Rightarrow> Inl c | Inr k \<Rightarrow> run_calls e magic mbi ds k)"
  by (induction cs arbitrary: k) (simp_all split: option.split)

text \<open>The map assumed without a boot loader's: 640 KB from 0, and the memory from 1 MB to 4 MB.\<close>

definition low_region :: bios_mmap where
  "low_region = \<lparr>bm_from = 0, bm_from_high = 0, bm_to = 0xA0000, bm_to_high = 0, bm_type = MULTIBOOT_MEMORY_AVAILABLE\<rparr>"

definition high_region :: bios_mmap where
  "high_region = \<lparr>bm_from = 0x100000, bm_from_high = 0, bm_to = 0x400000, bm_to_high = 0, bm_type = MULTIBOOT_MEMORY_AVAILABLE\<rparr>"

definition default_map :: "'a boot_state_scheme \<Rightarrow> 'a boot_state_scheme" where
  "default_map s =
     (let m = (bios_map s)[0 := low_region, 1 := high_region]
      in s\<lparr>memsize := 640, extmemsize := 3072, bios_map := m, physical_pages := 1024, kernel_map := m\<rparr>)"

lemma multiboot_init_default:
  assumes "magic \<noteq> MULTIBOOT_BOOTLOADER_MAGIC" "length (bios_map s) = NUM_BIOS_MMAP_ENTRIES"
  shows "multiboot_init magic mbi s = Some (default_map s, multiboot_set_video_props_default zero_video)"
proof -
  have "bios_mmap_default (s\<lparr>memsize := 640, extmemsize := 3072, physical_pages := 0\<rparr>) =
    Some (s\<lparr>memsize := 640, extmemsize := 3072, bios_map := (bios_map s)[0 := low_region, 1 := high_region], physical_pages := 1024\<rparr>)"
    by (simp add: bios_mmap_default_def low_region_def high_region_def to_int_def int_ok_def INT_MIN_def INT_MAX_def)
  moreover have "drop_bit PAGE_SHIFT GDT_BASE = 0x40000"
    by (simp add: PAGE_SHIFT_def GDT_BASE_def FOUR_GB_def KERNEL_PAGE_OFFSET_def)
  ultimately show ?thesis
    using assms by (simp add: multiboot_init_def bios_mmap_init_def default_map_def Let_def)
qed

lemma default_map_addr:
  assumes "bios_map s = replicate NUM_BIOS_MMAP_ENTRIES no_region" "kernel_map u = kernel_map (default_map s)"
    "0x100000 \<le> a" "a < 0x400000"
  shows "bios_mmap_has_addr u a"
proof -
  have m: "kernel_map u = low_region # high_region # replicate 48 no_region"
  proof -
    have "replicate NUM_BIOS_MMAP_ENTRIES no_region = no_region # no_region # replicate 48 no_region"
      by (simp add: NUM_BIOS_MMAP_ENTRIES_def numeral_eq_Suc)
    then show ?thesis using assms(1,2) by (simp add: default_map_def Let_def)
  qed
  have "bmm_holds MULTIBOOT_MEMORY_AVAILABLE a high_region"
    using assms(3,4) by (simp add: bmm_holds_def high_region_def PAGE_MASK_def PAGE_SIZE_def)
  moreover have "\<not> bmm_holds MULTIBOOT_MEMORY_RESERVED a b" if "b \<in> set (kernel_map u)" for b
    using that by (auto simp: m bmm_holds_def low_region_def high_region_def no_region_def
      MULTIBOOT_MEMORY_AVAILABLE_def MULTIBOOT_MEMORY_RESERVED_def)
  ultimately show ?thesis by (auto simp: bios_mmap_has_addr_eq m)
qed

text \<open>With that map, room for the structures placed after the image.\<close>

lemma mem_assign_room:
  assumes "bios_mmap_has_addr s (V2P (real_last_addr s) + PAGE_ALIGN bytes)"
  shows "mem_assign bytes s =
    Some (real_last_addr s, PAGE_ALIGN bytes, s\<lparr>real_last_addr := real_last_addr s + PAGE_ALIGN bytes\<rparr>)"
  using assms by (simp add: mem_assign_def Let_def)

lemma PAGE_ALIGN_le: "unat x < 0xFFFFF000 \<Longrightarrow> unat (PAGE_ALIGN x) \<le> unat x + 4095"
  using word_and_le2 [of "x + (PAGE_SIZE - 1)" PAGE_MASK] unat_add_lem [of x "PAGE_SIZE - 1"]
  by (simp add: PAGE_ALIGN_def word_le_nat_alt PAGE_SIZE_def)

lemma in_high_region:
  assumes "0x100000 \<le> unat r" "unat r \<le> 0x300FFF" "unat x \<le> 0xFE000"
  shows "(0x100000 :: u32) \<le> r + x" "r + x < (0x400000 :: u32)"
  using assms unat_add_lem [of r x] by (simp_all add: word_le_nat_alt word_less_nat_alt)

lemma mem_init_default:
  fixes u :: layout_state and h :: buddy_state
  assumes "bios_map s = replicate NUM_BIOS_MMAP_ENTRIES no_region" "kernel_map u = kernel_map (default_map s)"
    "physical_pages u = 1024" "0x100000 \<le> real_last_addr u" "real_last_addr u \<le> 0x300000"
    "sizeof_proc \<le> 0x1000" "free_head h = None" "num_free_pages h = 0"
  shows "\<exists>l h'. mem_init sizeof_proc (multiboot_set_video_props_default zero_video) u h = Some (l, h') \<and>
    proc_list_size l = PAGE_ALIGN (sizeof_proc * 64)"
proof -
  let ?r = "PAGE_ALIGN (real_last_addr u)" and ?p = "PAGE_ALIGN (sizeof_proc * 64)"
  let ?t = "mem_init_tables u"
  have r: "0x100000 \<le> unat ?r" "unat ?r \<le> 0x300FFF"
    using assms(4,5) PAGE_ALIGN_ge [of "real_last_addr u"] PAGE_ALIGN_le [of "real_last_addr u"]
    by (simp_all add: word_le_nat_alt)
  have "unat (sizeof_proc * 64) \<le> 0x40000"
    using assms(6) unat_mult_lem [of sizeof_proc 64] by (simp add: word_le_nat_alt)
  then have p: "unat ?p \<le> 0x40FFF" using PAGE_ALIGN_le [of "sizeof_proc * 64"] by simp
  have t: "kernel_map ?t = kernel_map u" "physical_pages ?t = 1024"
    by (simp_all add: mem_init_tables_def mem_assign_cleared_def Let_def assms(3))
  have "?r + 0x2000 < KERNEL_PAGE_OFFSET"
    using in_high_region [OF r, of "0x2000"] by (simp add: KERNEL_PAGE_OFFSET_def word_less_nat_alt)
  then have t2: "real_last_addr ?t = ?r + 0x2000 + KERNEL_PAGE_OFFSET"
    by (simp add: mem_init_tables_def mem_assign_cleared_def Let_def assms(3) PAGE_SIZE_def P2V_def add.assoc)
  have holds: "bios_mmap_has_addr v (?r + x)" if "kernel_map v = kernel_map u" "unat x \<le> 0xFE000" for v :: layout_state and x
    by (rule default_map_addr [OF assms(1) trans [OF that(1) assms(2)] in_high_region [OF r that(2)]])
  have a1: "unat (0x2000 + ?p) \<le> 0xFE000" "unat (0x2000 + ?p + 0x1000) \<le> 0xFE000" "unat (0x2000 + ?p + 0x1000 + 0xB000) \<le> 0xFE000"
    using p by (simp_all add: unat_plus_if')
  have v: "scrollback_size (multiboot_set_video_props_default zero_video) = Some 0"
    by (simp add: scrollback_size_def multiboot_set_video_props_default_def zero_video_def to_int_def int_ok_def INT_MIN_def INT_MAX_def)
  have c: "page_cache_pages 1024 * PAGE_SIZE = 0x1000" "PAGE_ALIGN 0x1000 = 0x1000" "1024 * sizeof_page = 0xB000" "PAGE_ALIGN 0xB000 = 0xB000"
    by (simp_all add: page_cache_pages_def PAGE_HASH_PER_10K_def MAX_PAGES_HASH_def Let_def PAGE_SIZE_def PAGE_ALIGN_def
       PAGE_MASK_def sizeof_page_def)
  have "\<exists>w. page_init f q 1024 (h\<lparr>NUM_PAGES := 1024, NUM_CACHED_PAGES := 1024\<rparr>) = Some w" for f q
    using page_init_boot [of "h\<lparr>NUM_PAGES := 1024, NUM_CACHED_PAGES := 1024\<rparr>" 1024 f q] assms(7,8) by auto
  then obtain w where w: "page_init f q 1024 (h\<lparr>NUM_PAGES := 1024, NUM_CACHED_PAGES := 1024\<rparr>) = Some (w f q)" for f q
    by metis
  let ?t1 = "?t\<lparr>real_last_addr := real_last_addr ?t + ?p\<rparr>"
  let ?a = "real_last_addr ?t + ?p"
  let ?u1 = "?t\<lparr>proc_list_at := real_last_addr ?t, proc_list_size := ?p, scrollback_at := ?a, real_last_addr := ?a\<rparr>"
  let ?t2 = "?u1\<lparr>real_last_addr := real_last_addr ?u1 + 0x1000\<rparr>"
  let ?u2 = "?t2\<lparr>page_cache_at := real_last_addr ?u1, page_cache_size := 0x1000\<rparr>"
  let ?t3 = "?u2\<lparr>real_last_addr := real_last_addr ?u2 + 0xB000\<rparr>"
  have m1: "mem_assign (sizeof_proc * LAYOUT_NUM_PROCS) ?t = Some (real_last_addr ?t, ?p, ?t1)"
    using holds [of ?t "0x2000 + ?p"] a1(1) t by (simp add: mem_assign_def Let_def t2 V2P_def LAYOUT_NUM_PROCS_def add.assoc)
  have m2: "mem_assign (page_cache_pages 1024 * PAGE_SIZE) ?u1 = Some (real_last_addr ?u1, 0x1000, ?t2)"
    using holds [of ?u1 "0x2000 + ?p + 0x1000"] a1(2) t by (simp add: mem_assign_def Let_def t2 V2P_def c add.assoc)
  have m3: "mem_assign (1024 * sizeof_page) ?u2 = Some (real_last_addr ?u2, 0xB000, ?t3)"
    using holds [of ?u2 "0x2000 + ?p + 0x1000 + 0xB000"] a1(3) t by (simp add: mem_assign_def Let_def t2 V2P_def c add.assoc)
  show ?thesis
    unfolding mem_init_def Let_def m1 v Option.bind.bind_lunit prod.case
    using m2 m3 w t by (simp add: sizeof_page_def)
qed


section \<open>The timer and the rest of the state\<close>

lemma write_irq_frame: "\<exists>t i. write_irq m b v s = s\<lparr>irq_table := t, interrupts := i\<rparr>"
proof (cases b)
  case Table
  then show ?thesis by (intro exI [of _ "(irq_table s)(m := v)"] exI [of _ "interrupts s"]) simp
next
  case (Next x)
  then show ?thesis by (intro exI [of _ "irq_table s"]) (auto simp: upd_interrupt_def)
qed

lemma irq_register_frame:
  assumes "irq_register n c s = Some (r, s')"
  shows "\<exists>t i. s' = s\<lparr>irq_table := t, interrupts := i\<rparr>"
proof -
  have "s' = s \<or> (\<exists>b. s' = upd_interrupt c (\<lambda>i. i\<lparr>ticks := 0\<rparr>) (write_irq (nat n) b (Some c) s))"
    using assms by (cases "irq_end c (nat n) Table s"; cases "the (irq_end c (nat n) Table s)")
      (auto simp: irq_register_def Let_def split: if_splits)
  then show ?thesis
  proof
    assume "s' = s"
    then show ?thesis by (intro exI [of _ "irq_table s"] exI [of _ "interrupts s"]) simp
  next
    assume "\<exists>b. s' = upd_interrupt c (\<lambda>i. i\<lparr>ticks := 0\<rparr>) (write_irq (nat n) b (Some c) s)"
    then obtain b where b: "s' = upd_interrupt c (\<lambda>i. i\<lparr>ticks := 0\<rparr>) (write_irq (nat n) b (Some c) s)" by blast
    obtain t i where "write_irq (nat n) b (Some c) s = s\<lparr>irq_table := t, interrupts := i\<rparr>"
      using write_irq_frame by blast
    then show ?thesis by (intro exI [of _ t]) (auto simp: b upd_interrupt_def)
  qed
qed

lemma timer_init_frame:
  assumes "timer_init dev s = Some s'"
  shows "timer_state.more s' = timer_state.more s"
proof -
  obtain s1 s2 where 1: "irq_bottom_half_register (timer_bh s) s = Some s1"
    "irq_bottom_half_register (tt_bh s1) s1 = Some s2"
    using assms by (auto simp: timer_init_def Option.bind_eq_Some_conv)
  obtain t1 b1 where 2: "s1 = s\<lparr>bh_table := t1, bhs := b1\<rparr>" using bh_register_frame [OF 1(1)] by blast
  obtain t2 b2 where 4: "s2 = s1\<lparr>bh_table := t2, bhs := b2\<rparr>" using bh_register_frame [OF 1(2)] by blast
  let ?s3 = "s2\<lparr>io := io s2 @ [(0x43, 0x34), (0x40, 0x9B), (0x40, 0x2E)], tt_pool := (\<lambda>_. zero_task), tt_pool_head := None\<rparr>"
  obtain p h where f: "tt_pool_fill NUM_TIMER_TASKS ?s3 = ?s3\<lparr>tt_pool := p, tt_pool_head := h\<rparr>"
    using tt_pool_fill_list [of ?s3 "[]" NUM_TIMER_TASKS] by auto
  let ?s5 = "?s3\<lparr>tt_pool := p, tt_pool_head := h, tt_head := None\<rparr>"
  obtain r s6 where 3: "irq_register TIMER_IRQ (timer_irq_config s) ?s5 = Some (r, s6)"
    "s' = (if r = RET_FAIL then irq_enable dev TIMER_IRQ s6 else s6)"
    using assms 1 f by (auto simp: timer_init_def Let_def pit_init_100 Option.bind_eq_Some_conv 2 4)
  obtain t i where "s6 = ?s5\<lparr>irq_table := t, interrupts := i\<rparr>" using irq_register_frame [OF 3(1)] by blast
  then show ?thesis using 3(2) 2 4 by (simp add: irq_enable_def Let_def outb_def)
qed

lemma timer_more_fields:
  assumes "timer_state.more s' = timer_state.more s"
  shows "tty_table s' = tty_table s" "chars s' = chars s" "ks s' = ks s" "current_console s' = current_console s"
    "ps2 (s' :: ksys) = ps2 s" "video s' = video s"
  using assms by (cases s; cases s'; simp add: tty_state.defs con_state.defs)+


section \<open>Up to the keyboard\<close>

definition pic_writes :: "(u16 \<times> u8) list" where
  "pic_writes = [(0x20, 0x11), (0x21, 0x20), (0x21, 4), (0x21, 1), (0xA0, 0x11), (0xA1, 0x28), (0xA1, 2), (0xA1, 1),
     (0x21, 0xFB), (0xA1, 0xFF)]"

lemma pic_init_io: "pic_init s = s\<lparr>io := io s @ pic_writes\<rparr>"
  by (simp add: pic_init_def pic_writes_def Let_def outb_def PIC_MASTER_def PIC_MASTER_DATA_def PIC_SLAVE_def
      PIC_SLAVE_DATA_def PIC_DATA_PORT_OFFSET_def ICW1_RESET_def IRQ0_ADDR_def IRQ8_ADDR_def CASCADE_IRQ_def
      ICW4_8086EOI_def OCW1_def)

lemma klog_info_simps: "klog_info e msg k = Some (k\<lparr>k_lay := (k_lay k)\<lparr>bmem := ke_klog_info e msg (bmem (k_lay k))\<rparr>\<rparr>)"
  by (simp add: klog_info_def on_memory_def)

lemma boot_until_mem:
  assumes "bios_map (k_lay k) = replicate NUM_BIOS_MMAP_ENTRIES no_region" "magic \<noteq> MULTIBOOT_BOOTLOADER_MAGIC"
  shows "\<exists>k1. run_calls e magic mbi (take 14 kmain_calls) k = Inr k1 \<and>
    k_lay k1 = (default_map (k_lay k))\<lparr>bmem := bmem (k_lay k1)\<rparr> \<and>
    k_sys k1 = (k_sys k)\<lparr>vmem := vmem (k_sys k1), io := io (k_sys k) @ pic_writes, irq_table := (\<lambda>_. None), tty_table := (\<lambda>_. zero_tty),
      sysconsole_table := (\<lambda>_. \<lparr>sc_dev = 0, sc_tty = None\<rparr>), video := multiboot_set_video_props_default zero_video\<rparr>"
proof -
  obtain idt where i: "idt_init (ke_exception e) (ke_irq e) (ke_irq_unknown e) (ke_syscall e) = Some idt"
    using idt_init_loop_gates [of 256 "ke_exception e" "ke_irq e" "ke_irq_unknown e" "\<lambda>_. zero_gate"]
    by (auto simp: idt_init_def IDT_NUM_ENTRIES_def idt_set_entry_def)
  have "take 14 kmain_calls = [Sysconsole_init, Vga_global_console_init,
     Multiboot_init, Klog_info ''Multiboot data processed (if extant)'', Pic_init, Klog_info ''PIC remapped'',
     Irq_init, Klog_info ''IRQ table allocated'', Idt_init, Klog_info ''IDT initialized'',
     Devices_init, Klog_info ''Devices table allocated'', Tty_init, Klog_info ''TTY table initialized'']"
    by (simp add: kmain_calls_def)
  moreover have "multiboot_init magic mbi ((k_lay k)\<lparr>bmem := q\<rparr>) =
      Some ((default_map (k_lay k))\<lparr>bmem := q\<rparr>, multiboot_set_video_props_default zero_video)" for q
    using assms by (simp add: multiboot_init_default default_map_def Let_def)
  ultimately show ?thesis
    by (simp add: on_sys_def on_memory_def klog_info_simps run_multiboot_init_def run_idt_init_def i sysconsole_init_def
        pic_init_io irq_init_def devices_init_def tty_init_def)
qed

lemma video_init_default:
  assumes "video s = multiboot_set_video_props_default zero_video"
  shows "\<exists>s'. video_init s = Some s' \<and> s' = s\<lparr>vmem := vmem s', video := video s'\<rparr>"
proof -
  have z: "to_int 0 = Some 0" by (simp add: INT_MIN_def INT_MAX_def)
  have v: "vd_lines (video s) = 0" and g: "video_using_vga (s\<lparr>vmem := m\<rparr>)" for m
    using assms by (simp_all add: multiboot_set_video_props_default_def zero_video_def video_using_vga_def VIDEO_MODE_VGA_TXT_def)
  have "\<exists>s'. vga_init u = Some s' \<and> s' = u\<lparr>vmem := vmem s', video := video s'\<rparr>" if "vd_lines (video u) = 0" for u
    using that z by (simp add: vga_init_def Let_def CONSOLE_SIZE_def)
  from this [of "s\<lparr>vmem := fst (kmemset (vmem s) (scrollback_buffer s) 0 (word_of_int (vd_columns (video s))))\<rparr>"]
  show ?thesis using v g z by (simp add: video_init_def Let_def)
qed

lemma timer_init_fresh:
  assumes "bh_table s = None" "timer_bh s \<noteq> tt_bh s"
    "interrupt_bh.bh_next (bhs s (timer_bh s)) = None" "interrupt_bh.bh_next (bhs s (tt_bh s)) = None"
    "irq_table s = (\<lambda>_. None)" "irq_next (interrupts s (timer_irq_config s)) = None"
  shows "\<exists>s'. timer_init dev s = Some s' \<and> bh_chain s' [timer_bh s, tt_bh s] \<and> irq_chain s' 0 [timer_irq_config s] \<and>
    timer_inv s' [] [1..<64] \<and> io s' = io s @ [(0x43, 0x34), (0x40, 0x9B), (0x40, 0x2E)] \<and>
    timer_state.more s' = timer_state.more s"
proof -
  have "bh_chain s []" "irq_chain s 0 []" using assms(1,5) by (simp_all add: bh_chain_def irq_chain_def)
  from timer_init_state [OF this(1) _ _ assms(2,3,4) this(2) _ assms(6), of dev] show ?thesis
    using timer_init_frame [of dev s] by auto
qed

lemma boot_until_ps2:
  assumes z: "statics_zero k" "magic \<noteq> MULTIBOOT_BOOTLOADER_MAGIC"
    and r: "0x100000 \<le> real_last_addr (k_lay k)" "real_last_addr (k_lay k) \<le> 0x300000"
    and p: "ke_sizeof_proc e \<le> 0x1000"
  shows "\<exists>k2. run_calls e magic mbi (take 20 kmain_calls) k = Inr k2 \<and> current_console (k_sys k2) = 0 \<and>
    tty_table (k_sys k2) = (\<lambda>_. zero_tty) \<and> ps2 (k_sys k2) = ps2 (k_sys k) \<and>
    proc_count (ks (k_sys k2)) = unat (PAGE_ALIGN (ke_sizeof_proc e * 64) div ke_sizeof_proc e) \<and>
    proc_free_list_size (ks (k_sys k2)) = 0 \<and> irq_chain (k_sys k2) 0 [timer_irq_config (k_sys k)] \<and>
    timer_inv (k_sys k2) [] [1..<64] \<and>
    io (k_sys k2) = io (k_sys k) @ pic_writes @ [(0x43, 0x34), (0x40, 0x9B), (0x40, 0x2E)]"
proof -
  have b: "bios_map (k_lay k) = replicate NUM_BIOS_MMAP_ENTRIES no_region" using z(1) by (simp add: statics_zero_def)
  obtain k1 where 1: "run_calls e magic mbi (take 14 kmain_calls) k = Inr k1"
    and l: "k_lay k1 = (default_map (k_lay k))\<lparr>bmem := bmem (k_lay k1)\<rparr>"
    and s: "k_sys k1 = (k_sys k)\<lparr>vmem := vmem (k_sys k1), io := io (k_sys k) @ pic_writes, irq_table := (\<lambda>_. None),
      tty_table := (\<lambda>_. zero_tty), sysconsole_table := (\<lambda>_. \<lparr>sc_dev = 0, sc_tty = None\<rparr>),
      video := multiboot_set_video_props_default zero_video\<rparr>"
    using boot_until_mem [where k = k and e = e and mbi = mbi, OF b z(2)] by auto
  have "\<exists>l2 h. mem_init (ke_sizeof_proc e) (multiboot_set_video_props_default zero_video) (k_lay k1) (heap (chars (k_sys k1)))
      = Some (l2, h) \<and> proc_list_size l2 = PAGE_ALIGN (ke_sizeof_proc e * 64)"
  proof (rule mem_init_default [OF b _ _ _ _ p])
    show "kernel_map (k_lay k1) = kernel_map (default_map (k_lay k))" "physical_pages (k_lay k1) = 1024"
      "0x100000 \<le> real_last_addr (k_lay k1)" "real_last_addr (k_lay k1) \<le> 0x300000"
      using r by (simp_all add: default_map_def Let_def arg_cong [OF l, of kernel_map] arg_cong [OF l, of physical_pages]
        arg_cong [OF l, of real_last_addr])
    show "free_head (heap (chars (k_sys k1))) = None" "num_free_pages (heap (chars (k_sys k1))) = 0"
      using z(1) by (simp_all add: statics_zero_def arg_cong [OF s, of chars])
  qed
  then obtain l2 h where m: "mem_init (ke_sizeof_proc e) (multiboot_set_video_props_default zero_video) (k_lay k1)
      (heap (chars (k_sys k1))) = Some (l2, h)" "proc_list_size l2 = PAGE_ALIGN (ke_sizeof_proc e * 64)"
    by blast
  let ?s2 = "(k_sys k1)\<lparr>chars := (chars (k_sys k1))\<lparr>heap := h\<rparr>, scrollback_buffer := scrollback_at l2,
    ks := (ks (k_sys k1))\<lparr>proc_count := unat (proc_list_size l2 div ke_sizeof_proc e), kheap := h\<rparr>\<rparr>"
  let ?m3 = "ke_klog_info e ''Permanent page tables installed'' (\<lambda>a. bmem l2 (V2P a))"
  have v: "video (k_sys k1) = multiboot_set_video_props_default zero_video" by (simp add: arg_cong [OF s, of video])
  have mem: "run_mem_init e k1 = Some (k1\<lparr>k_lay := l2\<lparr>bmem := (\<lambda>a. bmem l2 (V2P a))\<rparr>, k_sys := ?s2\<rparr>)"
    by (simp add: run_mem_init_def v m(1) Let_def)
  obtain s3 where vid: "video_init (?s2\<lparr>vmem := ?m3\<rparr>) = Some s3"
    and s3: "s3 = ?s2\<lparr>vmem := vmem s3, video := video s3\<rparr>"
    using video_init_default [of "?s2\<lparr>vmem := ?m3\<rparr>"] v by auto
  let ?m4 = "ke_klog_info e ''Video initialized'' (vmem s3)"
  have f1: "bh_table (k_sys k1) = bh_table (k_sys k)" "timer_bh (k_sys k1) = timer_bh (k_sys k)"
    "tt_bh (k_sys k1) = tt_bh (k_sys k)" "bhs (k_sys k1) = bhs (k_sys k)" "irq_table (k_sys k1) = (\<lambda>_. None)"
    "interrupts (k_sys k1) = interrupts (k_sys k)" "timer_irq_config (k_sys k1) = timer_irq_config (k_sys k)"
    "tty_table (k_sys k1) = (\<lambda>_. zero_tty)" "current_console (k_sys k1) = current_console (k_sys k)"
    "ps2 (k_sys k1) = ps2 (k_sys k)" "ks (k_sys k1) = ks (k_sys k)" "io (k_sys k1) = io (k_sys k) @ pic_writes"
    by (subst s; simp)+
  have f3: "bh_table s3 = bh_table (k_sys k1)" "timer_bh s3 = timer_bh (k_sys k1)"
    "tt_bh s3 = tt_bh (k_sys k1)" "bhs s3 = bhs (k_sys k1)" "irq_table s3 = irq_table (k_sys k1)"
    "interrupts s3 = interrupts (k_sys k1)" "timer_irq_config s3 = timer_irq_config (k_sys k1)"
    "tty_table s3 = tty_table (k_sys k1)" "current_console s3 = current_console (k_sys k1)"
    "ps2 s3 = ps2 (k_sys k1)" "ks s3 = ks ?s2" "io s3 = io (k_sys k1)"
    by (subst s3; simp)+
  note t3 = z(1) [unfolded statics_zero_def]
  obtain s4 where tim: "timer_init (ke_pic e) (s3\<lparr>vmem := ?m4\<rparr>) = Some s4"
    and s4: "irq_chain s4 0 [timer_irq_config s3]" "timer_inv s4 [] [1..<64]"
      "io s4 = io s3 @ [(0x43, 0x34), (0x40, 0x9B), (0x40, 0x2E)]"
      "timer_state.more s4 = timer_state.more (s3\<lparr>vmem := ?m4\<rparr>)"
    using timer_init_fresh [of "s3\<lparr>vmem := ?m4\<rparr>" "ke_pic e"] t3 f1 f3 by auto
  have 3: "take 20 kmain_calls = take 14 kmain_calls @ [Mem_init, Klog_info ''Permanent page tables installed'',
     Video_init, Klog_info ''Video initialized'', Timer_init, Klog_info ''Timer initialized'']"
    by (simp add: kmain_calls_def)
  have f4: "tty_table s4 = (\<lambda>_. zero_tty)" "current_console s4 = 0" "ps2 s4 = ps2 (k_sys k)" "ks s4 = ks ?s2"
    using timer_more_fields [OF s4(4)] f1 f3 t3 by simp_all
  obtain k2 where "run_calls e magic mbi (take 20 kmain_calls) k = Inr k2" "k_sys k2 = s4"
    unfolding 3 run_calls_append 1 sum.case by (simp add: mem klog_info_simps on_sys_def vid tim)
  then show ?thesis using s4 f4 f1 f3 t3 m(2) by (intro exI [of _ k2]) simp
qed


section \<open>The keyboard\<close>

text \<open>Without a terminal in the table, \<open>tty_get\<close> finds none, and \<open>keyboard_init\<close> reads through its null result.\<close>

lemma tty_get_loop_empty: "(\<And>t. devnum (tty_table s t) \<noteq> dev) \<Longrightarrow> tty_get_loop dev num s \<in> {None, Some None}"
proof (induction dev num s rule: tty_get_loop.induct)
  case (1 dev num s)
  then show ?case by (cases "0 \<le> num") (auto simp: tty_get_loop.simps [of dev num s])
qed

lemma keyboard_init_no_tty:
  assumes "tty_table s = (\<lambda>_. zero_tty)" "current_console s = 0"
  shows "keyboard_init env vid dev pic s = None"
proof -
  have "tty_get_loop d n s \<in> {None, Some None}" if "d \<noteq> 0" for d n
    by (rule tty_get_loop_empty) (use that assms(1) in \<open>simp add: zero_tty_def\<close>)
  from this [of "DEVICE_MKDEV VCONSOLE_MAJOR 0" "e_num0 env"] have "tty_get env (DEVICE_MKDEV VCONSOLE_MAJOR 0) s \<in> {None, Some None}"
    using assms(2) by (simp add: tty_get_def Let_def DEVICE_MKDEV_def VCONSOLE_MAJOR_def SYSCON_MAJOR_def)
  then show ?thesis using assms(2) by (auto simp: keyboard_init_def)
qed

lemma ps2_stops:
  assumes "tty_table (k_sys k) = (\<lambda>_. zero_tty)" "current_console (k_sys k) = 0"
    "fst (ps2_setup (ke_ps2 e) (ps2 (k_sys k)))"
  shows "run_call e magic mbi Ps2_init k = None"
  using assms by (auto simp: on_sys_def run_ps2_init_def ps2_init_def keyboard_init_no_tty Let_def split: prod.split)

lemma ps2_goes_on:
  assumes "\<not> fst (ps2_setup (ke_ps2 e) (ps2 (k_sys k)))"
  shows "\<exists>k'. run_call e magic mbi Ps2_init k = Some k' \<and>
    k_sys k' = (k_sys k)\<lparr>vmem := vmem (k_sys k'), ps2 := ps2 (k_sys k')\<rparr>"
  using assms by (auto simp: on_sys_def run_ps2_init_def ps2_init_def Let_def split: prod.split)

section \<open>The whole start\<close>

lemma proc_entries:
  assumes "0 < sz" "sz \<le> (0x1000 :: u32)"
  shows "64 \<le> unat (PAGE_ALIGN (sz * 64) div sz)"
proof -
  have "unat (sz * 64) = unat sz * 64" using assms(2) unat_mult_lem [of sz 64] by (simp add: word_le_nat_alt)
  moreover have "unat sz \<le> 4096" using assms(2) by (simp add: word_le_nat_alt)
  ultimately have "unat sz * 64 \<le> unat (PAGE_ALIGN (sz * 64))" using PAGE_ALIGN_ge [of "sz * 64"] by simp
  moreover have "0 < unat sz" using assms(1) by (simp add: word_less_nat_alt)
  ultimately show ?thesis by (simp add: unat_div_distrib less_eq_div_iff_mult_less_eq mult.commute)
qed

text \<open>The calls after \<open>ps2_init\<close>, and the state in which the kernel becomes idle.\<close>

abbreviation last_calls :: "kcall list" where
  "last_calls \<equiv> [Klog_info ''PS/2 drivers initialized'', Proc_init, Klog_info ''Process table initialized'',
     Int_enable, Klog_info ''Interrupts enabled'']"

lemma timer_views:
  assumes "tt_pool s' = tt_pool s" "tt_pool_head s' = tt_pool_head s" "tt_head s' = tt_head s"
    "irq_table s' = irq_table s" "interrupts s' = interrupts s"
  shows "timer_inv s' = timer_inv s" "irq_chain s' = irq_chain s"
proof -
  have "entry s' = entry s" by (rule ext) (simp add: entry_def assms)
  then show "timer_inv s' = timer_inv s" by (intro ext) (simp add: timer_inv_def assms)
  show "irq_chain s' = irq_chain s" by (intro ext) (simp add: irq_chain_def assms)
qed

lemma last_calls_idle:
  assumes "0 < proc_count (ks (k_sys k))" "proc_free_list_size (ks (k_sys k)) = 0"
  shows "\<exists>k'. run_calls e magic mbi last_calls k = Inr k' \<and> k_interrupts_on k' \<and>
    table_inv (ks (k_sys k')) [] [0..<proc_count (ks (k_sys k))] \<and> timer_inv (k_sys k') = timer_inv (k_sys k) \<and>
    irq_chain (k_sys k') = irq_chain (k_sys k) \<and> io (k_sys k') = io (k_sys k)"
proof -
  obtain t where t: "proc_init (ks (k_sys k)) = Some t" "table_inv t [] [0..<proc_count (ks (k_sys k))]"
    using proc_init_table [OF assms] by blast
  obtain k' where k': "run_calls e magic mbi last_calls k = Inr k'" "k_interrupts_on k'"
    "k_sys k' = (k_sys k)\<lparr>vmem := vmem (k_sys k'), ks := t\<rparr>"
    by (simp add: klog_info_simps on_sys_def run_proc_init_def t(1) int_enable_def)
  have "ks (k_sys k') = t" "io (k_sys k') = io (k_sys k)" "irq_table (k_sys k') = irq_table (k_sys k)"
    "interrupts (k_sys k') = interrupts (k_sys k)" "tt_pool (k_sys k') = tt_pool (k_sys k)"
    "tt_pool_head (k_sys k') = tt_pool_head (k_sys k)" "tt_head (k_sys k') = tt_head (k_sys k)"
    by (subst k'(3); simp)+
  then show ?thesis using k'(1,2) t(2) timer_views [of "k_sys k'" "k_sys k"] by (intro exI [of _ k'] conjI) simp_all
qed



section \<open>Any boot loader\<close>

text \<open>What the calls before \<open>ps2_init\<close> leave alone.\<close>

definition kbd_untouched :: "kstate \<Rightarrow> kstate \<Rightarrow> bool" where
  "kbd_untouched k k' \<longleftrightarrow> current_console (k_sys k') = current_console (k_sys k) \<and> ps2 (k_sys k') = ps2 (k_sys k)"

lemma video_init_frame:
  assumes "video_init s = Some s'"
  shows "s' = s\<lparr>vmem := vmem s', video := video s'\<rparr>"
proof -
  have "t = u\<lparr>vmem := vmem t, video := video t\<rparr>" if "vga_init u = Some t" for t u :: "('a, 'b) vga_state_scheme"
    using that by (auto simp: vga_init_def Let_def Option.bind_eq_Some_conv split: if_splits)
  moreover obtain m where "s' = s\<lparr>vmem := m\<rparr> \<or> vga_init (s\<lparr>vmem := m\<rparr>) = Some s'"
    using assms by (auto simp: video_init_def Let_def framebuf_init_def Option.bind_eq_Some_conv split: if_splits)
  ultimately show ?thesis by fastforce
qed

lemma run_call_untouched:
  assumes "c \<noteq> Ps2_init" "run_call e magic mbi c k = Some k'"
  shows "kbd_untouched k k' \<and> tty_table (k_sys k') = (if c = Tty_init then (\<lambda>_. zero_tty) else tty_table (k_sys k))"
proof (cases c)
  case Video_init
  then obtain s where s: "video_init ((k_sys k)\<lparr>vmem := bmem (k_lay k)\<rparr>) = Some s" "k_sys k' = s"
    using assms(2) by (auto simp: on_sys_def Option.bind_eq_Some_conv)
  have "current_console s = current_console (k_sys k)" "ps2 s = ps2 (k_sys k)" "tty_table s = tty_table (k_sys k)"
    by (subst video_init_frame [OF s(1)]; simp)+
  then show ?thesis using Video_init s(2) by (simp add: kbd_untouched_def)
next
  case Timer_init
  then obtain s where s: "timer_init (ke_pic e) ((k_sys k)\<lparr>vmem := bmem (k_lay k)\<rparr>) = Some s" "k_sys k' = s"
    using assms(2) by (auto simp: on_sys_def Option.bind_eq_Some_conv)
  show ?thesis using Timer_init timer_more_fields [OF timer_init_frame [OF s(1)]] s(2) by (simp add: kbd_untouched_def)
next
  case Mem_init
  then show ?thesis using assms(2)
    by (auto simp: run_mem_init_def Let_def Option.bind_eq_Some_conv kbd_untouched_def)
qed (use assms in \<open>auto simp: kbd_untouched_def on_sys_def on_memory_def klog_info_def run_multiboot_init_def run_idt_init_def
  run_proc_init_def sysconsole_init_def pic_init_io irq_init_def devices_init_def tty_init_def int_enable_def
  Option.bind_eq_Some_conv\<close>)

lemma run_calls_untouched:
  "Ps2_init \<notin> set cs \<Longrightarrow> run_calls e magic mbi cs k = Inr k' \<Longrightarrow>
    kbd_untouched k k' \<and> (Tty_init \<in> set cs \<or> tty_table (k_sys k) = (\<lambda>_. zero_tty) \<longrightarrow> tty_table (k_sys k') = (\<lambda>_. zero_tty))"
proof (induction cs arbitrary: k)
  case (Cons c cs)
  then obtain k1 where k1: "run_call e magic mbi c k = Some k1" "run_calls e magic mbi cs k1 = Inr k'"
    by (auto split: option.splits)
  show ?case using run_call_untouched [OF _ k1(1)] Cons.IH [OF _ k1(2)] Cons.prems(1)
    by (auto simp: kbd_untouched_def split: if_splits)
qed (simp add: kbd_untouched_def)

lemma run_calls_stop: "run_calls e magic mbi cs k = Inl c \<Longrightarrow> c \<in> set cs"
  by (induction cs arbitrary: k) (auto split: option.splits)

text \<open>C5: whatever the boot loader passes and whatever memory there is, a machine with a working keyboard controller
  never becomes idle: the start stops in \<open>ps2_init\<close> or before.\<close>

theorem kmain_stops_at_keyboard:
  assumes "current_console (k_sys k) = 0" "fst (ps2_setup (ke_ps2 e) (ps2 (k_sys k)))"
  shows "\<exists>c \<in> set (take 21 kmain_calls). kmain e magic mbi last_addr k = Inl c"
proof -
  let ?k = "k\<lparr>k_lay := (k_lay k)\<lparr>real_last_addr := last_addr - KERNEL_PAGE_OFFSET\<rparr>\<rparr>"
  have calls: "kmain_calls = take 20 kmain_calls @ Ps2_init # drop 21 kmain_calls"
    "Ps2_init \<notin> set (take 20 kmain_calls)" "Tty_init \<in> set (take 20 kmain_calls)"
    "set (take 21 kmain_calls) = insert Ps2_init (set (take 20 kmain_calls))"
    by (auto simp: kmain_calls_def)
  show ?thesis
  proof (cases "run_calls e magic mbi (take 20 kmain_calls) ?k")
    case (Inl c)
    then have "kmain e magic mbi last_addr k = Inl c"
      unfolding kmain_def by (subst calls(1)) (simp only: run_calls_append sum.case)
    then show ?thesis using run_calls_stop [OF Inl] calls(4) by blast
  next
    case (Inr k2)
    have "run_call e magic mbi Ps2_init k2 = None"
      using run_calls_untouched [OF calls(2) Inr] calls(3) assms by (intro ps2_stops) (auto simp: kbd_untouched_def)
    then have "kmain e magic mbi last_addr k = Inl Ps2_init"
      unfolding kmain_def by (subst calls(1)) (simp only: run_calls_append Inr sum.case run_calls.simps option.case)
    then show ?thesis using calls(4) by blast
  qed
qed

section \<open>Examples\<close>

definition start_state :: kstate where
  "start_state = \<lparr>k_lay = layout_example\<lparr>bios_map := replicate NUM_BIOS_MMAP_ENTRIES no_region\<rparr>,
     k_sys = (vga_out_state pages_example)
       \<lparr>current_console := 0, bh_table := None, timer_bh := 0x50, tt_bh := 0x60, timer_irq_config := 0x70,
        bhs := (\<lambda>_. \<lparr>bh_flags = 0, bh_fn = 0, bh_next = None\<rparr>), interrupts := (\<lambda>_. \<lparr>ticks = 0, handler = 0, irq_next = None\<rparr>),
        ks := two_running\<lparr>proc_free_list_size := 0\<rparr>, chars := one_store pages_example\<rparr>,
     k_idt = (\<lambda>_. zero_gate), char_devices_table = (\<lambda>_. None), block_devices_table = (\<lambda>_. None),
     k_interrupts_on = False\<rparr>"

definition start_env :: "u8 \<Rightarrow> kenv" where
  "start_env b = \<lparr>ke_console_init = id, ke_klog_info = (\<lambda>msg m. m), ke_exception = (\<lambda>n. 0x1000 + of_nat n),
     ke_irq = (\<lambda>n. 0x2000 + of_nat n), ke_irq_unknown = 0x3000, ke_syscall = 0x4000, ke_sizeof_proc = 200,
     ke_tty = idle_env, ke_pic = last_write, ke_ps2 = sends b, ke_vga = (\<lambda>_ _. 0)\<rparr>"

lemma start_statics: "statics_zero start_state"
  by (simp add: statics_zero_def start_state_def pages_example_def two_free_pages_def one_store_def page_state.defs
      buddy_state.defs)

text \<open>A controller that answers 0x55 to every read passes its self-test, one that answers 1 does not.\<close>

lemma constant_setup:
  assumes "\<And>port t. \<exists>t'. ps2_read dev port t = (v, t')" "v AND 0x20 = 0"
  shows "fst (ps2_setup dev s) \<longleftrightarrow> v = 0x55"
proof -
  obtain R where R: "ps2_read dev port t = (v, R port t)" for port t using assms(1) by metis
  obtain i I where I: "ps2_inb dev port t = (i port t, I port t)" for port t
    by (rule that [of "\<lambda>p t. fst (ps2_inb dev p t)" "\<lambda>p t. snd (ps2_inb dev p t)"]) simp
  show ?thesis using assms(2) by (simp add: ps2_setup_def Let_def R I)
qed

lemma sends_read: "b AND PS2_STAT_OUTBUSY \<noteq> 0 \<Longrightarrow> \<exists>s'. ps2_read (sends b) port s = (b, s')"
proof -
  assume b: "b AND PS2_STAT_OUTBUSY \<noteq> 0"
  have "\<exists>s'. ready_read_loop (sends b) (Suc n) s = (True, s')" for n
    using b by (simp add: ps2_irq_def ps2_inb_def sends_def)
  from this [of 499999] have "\<exists>s'. is_ready_to_read (sends b) s = (True, s')"
    by (simp add: is_ready_to_read_def PS2_TIMEOUT_def del: ready_read_loop.simps)
  then show ?thesis by (auto simp: ps2_read_def ps2_inb_def sends_def)
qed

lemma sends_setup: "fst (ps2_setup (sends 0x55) s)" "\<not> fst (ps2_setup (sends 1) s)"
  using constant_setup [of "sends 0x55" "0x55" s] constant_setup [of "sends 1" 1 s] sends_read
  by (simp_all add: PS2_STAT_OUTBUSY_def)


theorem kmain_stops_at_keyboard_witness:
  "\<exists>c \<in> set (take 21 kmain_calls). kmain (start_env 0x55) MULTIBOOT_BOOTLOADER_MAGIC 0x10000 0xC0200000 start_state = Inl c"
  by (rule kmain_stops_at_keyboard) (simp_all add: start_state_def start_env_def sends_setup)

end
