(* ===== verification/Spec2Isabelle.thy ===== *)
theory Spec2Isabelle
  imports Lists PrintfNumbers Charq Fifo CString Spinlock Lock Resource Descr Irq Timer Clock Signal Line Layout Vga Boot Traps Kmain
begin

text \<open>
  A model of toulouse, a 32-bit x86 operating system kernel in C, with the theorems that make its parts correct
  or show exactly where they fail.

  \<^bold>\<open>The program.\<close> The boot loader (\<open>src/boot\<close>) reads the kernel from the disk and enters it. Assembler sets up a
  temporary page directory and calls \<open>kmain\<close>, which starts the parts in order: the early console, the data of the
  boot loader, the interrupt controllers, the table of interrupt handlers, the descriptor tables, the device and
  terminal tables, memory (the permanent page directory, the page allocator, the heap), the video driver, the timer,
  the keyboard and the process table. After that everything happens in interrupts and in processes: the timer counts
  and wakes tasks; the keyboard translates scan codes and puts characters into the read queue of a terminal; the
  line discipline cooks them into its cooked queue, where a process reads them, and echoes them through its write
  queue to a console, which draws through the video driver; processes sleep and wake and are scheduled; character
  queues take their blocks from the heap, and the heap takes its pages from the page allocator.

  \<^bold>\<open>Conventions\<close> (\<open>Prelude\<close>). Machine integers are words of their width and wrap as in C; a signed \<open>int\<close> is an
  \<open>int\<close> that \<open>to_int\<close> checks against its range, since its overflow is undefined. An operation whose call can be
  undefined (a null pointer, an index out of bounds, a zero divisor, signed overflow) or can fail to return (an endless
  loop, a panic) gives an \<open>option\<close>, and \<open>None\<close> stands for both; a theorem that a call returns says so. A C function is
  a definition with the function's name. The state of a component is a record, and the records of components that use each other
  extend one another in the order \<open>irq_state\<close>, \<open>timer_state\<close>, \<open>tty_state\<close>, \<open>con_state\<close>, \<open>kbd_state\<close>,
  \<open>vga_state\<close>, and separately \<open>page_state\<close>, \<open>buddy_state\<close>, and \<open>boot_state\<close>, \<open>layout_state\<close>. Pointers to objects
  of a static table are indices; other addresses are 32-bit words. Memory that the code treats as bytes is a function
  from addresses to bytes. Loops are structural recursion, \<open>function\<close> with a measure, or \<open>partial_function (option)\<close>
  where the source has no bound; theorems then prove that they return, with the state in which they do.

  \<^bold>\<open>The theories.\<close>

  \<^item> \<open>Prelude\<close>: machine types, checked signed arithmetic, generic lemmas. \<open>Links\<close>: lists that are threaded through the
    fields of objects, the shapes on which the lemmas of all linked structures rest. \<open>Lists\<close>: \<open>list.h\<close> and
    \<open>flist.h\<close> of \<open>src/include/lib\<close>.
  \<^item> \<open>CString\<close>: \<open>src/lib/src/string.c\<close>; \<open>Memory\<close>: words of several bytes in memory. \<open>Ctype\<close>:
    \<open>src/lib/src/ctype.c\<close>. \<open>Printf\<close>: the whole of \<open>src/lib/src/printf.c\<close>; \<open>PrintfText\<close> shows that what is printed does
    not depend on where it goes, so that \<open>snprintf\<close> stores a prefix of it; \<open>PrintfNumbers\<close> has the digits, the bounds of the
    conversion buffer and the limits of the precision.
  \<^item> \<open>Pages\<close>: \<open>src/kernel/src/mem/page.c\<close>, the circular list of free pages and the chains of cached ones. \<open>Buddy\<close>:
    \<open>buddy.c\<close> and \<open>alloc.c\<close>, with freeing as a refinement of merging on abstract free lists. \<open>Heap\<close>: the contract
    of the heap as the locale \<open>allocator\<close>, interpreted on \<open>kmalloc\<close> and \<open>kfree\<close>, with the exact set of the blocks in use.
    \<open>Charq\<close>: the character queues of
    \<open>charq.c\<close>, clients of that contract, as refinements of operations on lists of bytes. \<open>Fifo\<close>: their own
    contract, the locale \<open>byte_queue\<close>, interpreted on the queues over the kernel heap, and that what goes in comes out in order.
  \<^item> \<open>Spinlock\<close>: the ticket lock of \<open>src/kernel/src/sync/spinlock.c\<close> under every interleaving of any number of CPUs. \<open>Lock\<close>:
    the area and resource locks of \<open>src/kernel/src/proc/lock.c\<close>; the locale \<open>bit_lock\<close> is the contract of a lock
    kept in the bits of a word, interpreted on the area lock and on \<open>simplelock.h\<close>. \<open>Resource\<close>: the resource lock under
    every interleaving, with the window between its test and its sleep, and which sleepers \<open>wakeup\<close> leaves out.
  \<^item> \<open>Descr\<close>: \<open>gdt.c\<close>, \<open>idt.c\<close>. \<open>Irq\<close>: \<open>irq.c\<close>, \<open>pic.c\<close>, \<open>pit.c\<close>. \<open>Timer\<close>: \<open>timer.c\<close>, whose list of relative delays
    refines a schedule of absolute times. \<open>Clock\<close>: the clock interrupt through both halves, and that any number of them
    calls each scheduled task at its tick. \<open>Traps\<close>: \<open>traps.c\<close>, \<open>panic.c\<close>, \<open>stacktrace.c\<close>, \<open>kernel.c\<close>, \<open>syscall.c\<close>.
  \<^item> \<open>Proc\<close>: processes, the running list and the scheduler (\<open>proc.c\<close>, \<open>sched.c\<close>). \<open>Sleep\<close>: the hash table of sleepers
    (\<open>sleep.c\<close>). \<open>Signal\<close>: the process table, \<open>signal.c\<close>, and the whole of \<open>sleep\<close>, which needs both.
  \<^item> \<open>Tty\<close>: terminals, \<open>tty.c\<close> and \<open>termios.c\<close>; \<open>Line\<close> has the lemmas on the line being edited. \<open>Device\<close>: the types
    and the bitmap of devices. \<open>Console\<close>: \<open>console.c\<close> and \<open>sysconsole.c\<close>; the locale \<open>video_driver\<close> says what the console needs of a driver. \<open>Keymap\<close>, \<open>Keyboard\<close>:
    \<open>keymap.c\<close>, \<open>keyboard.c\<close>. \<open>Ps2\<close>: \<open>ps2.c\<close>. \<open>Vga\<close>: \<open>vga.c\<close> and \<open>video.c\<close>, with the interpretation of \<open>video_driver\<close>.
  \<^item> \<open>Bios\<close>, \<open>Multiboot\<close>: the memory map and the boot loader's data (\<open>src/kernel/src/init\<close>). \<open>Layout\<close>: \<open>layout.c\<close>, the
    page directories and the order of the structures behind the kernel. \<open>Elf\<close>, \<open>Boot\<close>: the executable format, the
    disk driver \<open>ata.c\<close> and the boot loader \<open>src/boot/src/main.c\<close>.
  \<^item> \<open>Kmain\<close>: \<open>kmain.c\<close> and \<open>bss.c\<close>; the components on one state, started in the order of the code.

  \<^bold>\<open>What the theorems show.\<close> Data structures: the page list, the free lists, the character queues, the sleepers, the
  running list, the process table and the timer list keep their shape under every operation, and the operations
  implement list specifications. Safety: no block of the heap is handed out twice; the locks exclude each other, the
  spinlock is fair, and it is known which waiters of the resource lock can miss their wake-up; the page directory maps exactly the kernel's half. Text: \<open>%d\<close> and \<open>%u\<close> print the
  number, and no integer overflows the conversion buffer. Drivers: what each key types, what the erase keys edit,
  what an interrupt does to its line, where a loaded kernel lies in memory. Where the code does not do what it is
  meant to, the theorem states what it does: freed pages that cannot be used again, erase keys that go on into finished lines, a console that shows nothing, an
  exception that is never returned from, a start that ends in the keyboard driver.

  \<^bold>\<open>Parameters.\<close> What is not C code of the repository is an argument: devices behind ports (functions from the history
  of accesses to the answer), the handlers and tasks that other code registers (functions on the state), the
  context switch and all that other processes do meanwhile, floating-point operations, the early console, whose
  source is not in the tree, and addresses that the linker chooses. Laws about them are hypotheses of the theorems that need
  them and each of those theorems has an instance in which they hold.

  \<^bold>\<open>Bounds.\<close> The loops that the code itself bounds have its bounds: the polls of the keyboard controller
  (500000, 1000), the 25 frames and 256 words of a report, the tables of 32 signals, 64 tasks, 16 terminals and 256 gates. The
  only fuel is the first argument of \<open>ftoa\<close> and of what calls it: \<open>_ftoa\<close> and \<open>_etoa\<close> call each other, and two
  calls are enough, one for a number of ordinary size and one more for a large one, which \<open>_etoa\<close> scales first. The
  theorems about \<open>ftoa\<close> say when it returns for any fuel above zero.

  \<^bold>\<open>Not modelled.\<close> Assembler (the boot stages, \<open>loader.S\<close>, \<open>idt.S\<close>, \<open>irq.S\<close>, \<open>gdt.S\<close>, \<open>tss.S\<close>): the kernel accepts HOL
  definitions of C code, not the machine's; what C relies on is a parameter. Instructions in inline assembler
  (\<open>x86.h\<close>, \<open>eflags.c\<close>, \<open>interrupt.c\<close>) appear only through their effect on ports and on the interrupt flag. Headers that
  declare types and numbers that no code uses (\<open>dirent.h\<close>, \<open>stat.h\<close>, \<open>fcntl.h\<close>, \<open>pci.h\<close>, \<open>errno.h\<close>, but for the
  numbers that the code returns or tests). The tests, and \<open>libtap\<close>, which is third-party code for them. Timing, caches and memory barriers have no
  counterpart; interrupts come between operations, or where a parameter says so.
\<close>

end
